(* ===== verification/Rathena_Prelude.thy ===== *)
theory Rathena_Prelude imports Main "HOL-Library.Multiset" begin

text \<open>
  Shared vocabulary of the development: the C integer conversions the source relies on, the
  array macros of \<^verbatim>\<open>src/common/db.h\<close> (\<open>ARR_FIND\<close>), lists as C arrays, and the lemma
  collections the component theories extend.

  \<^item> \<open>s8\<close>, \<open>s16\<close>, \<open>s32\<close>, \<open>u8\<close>, \<open>u16\<close>, \<open>u32\<close>: storing an \<open>int\<close> into a C object of
    that width (two's complement wrap-around, as every supported compiler does it).
  \<^item> \<open>c_div\<close>: C division, truncating towards zero.
  \<^item> \<open>arr_find\<close>: the search loop of \<open>ARR_FIND\<close>, which leaves the end index when nothing
    matches.
\<close>

named_theorems cint_simps "conversions between C integer widths"
named_theorems frame_simps "fields that an operation leaves alone"
named_theorems inv_intros "operations that keep an invariant"

section \<open>C integers\<close>

definition s8 :: "int \<Rightarrow> int" where
  "s8 k = (k + 128) mod 256 - 128"

definition s16 :: "int \<Rightarrow> int" where
  "s16 k = (k + 32768) mod 65536 - 32768"

definition s32 :: "int \<Rightarrow> int" where
  "s32 k = (k + 2147483648) mod 4294967296 - 2147483648"

definition u8 :: "int \<Rightarrow> int" where
  "u8 k = k mod 256"

definition u16 :: "int \<Rightarrow> int" where
  "u16 k = k mod 65536"

definition u32 :: "int \<Rightarrow> int" where
  "u32 k = k mod 4294967296"

definition c_div :: "int \<Rightarrow> int \<Rightarrow> int" where
  "c_div a b = sgn a * sgn b * (\<bar>a\<bar> div \<bar>b\<bar>)"

lemma s8_id [cint_simps]: "-128 \<le> k \<Longrightarrow> k < 128 \<Longrightarrow> s8 k = k"
  by (simp add: s8_def)

lemma s16_id [cint_simps]: "-32768 \<le> k \<Longrightarrow> k < 32768 \<Longrightarrow> s16 k = k"
  by (simp add: s16_def)

lemma s32_id [cint_simps]: "-2147483648 \<le> k \<Longrightarrow> k < 2147483648 \<Longrightarrow> s32 k = k"
  by (simp add: s32_def)

lemma u16_id [cint_simps]: "0 \<le> k \<Longrightarrow> k < 65536 \<Longrightarrow> u16 k = k"
  by (simp add: u16_def)

lemma u32_id [cint_simps]: "0 \<le> k \<Longrightarrow> k < 4294967296 \<Longrightarrow> u32 k = k"
  by (simp add: u32_def)

lemma s16_range: "-32768 \<le> s16 k" "s16 k < 32768"
  by (simp_all add: s16_def)

lemma s32_range: "-2147483648 \<le> s32 k" "s32 k < 2147483648"
  by (simp_all add: s32_def)

lemma u32_range: "0 \<le> u32 k" "u32 k < 4294967296"
  by (simp_all add: u32_def)

text \<open>A conversion forgets multiples of the width, so nested conversions collapse.\<close>

lemma s32_cong: "a mod 4294967296 = b mod 4294967296 \<Longrightarrow> s32 a = s32 b"
  unfolding s32_def by (metis mod_add_left_eq)

lemma s32_u32 [cint_simps]: "s32 (u32 k) = s32 k"
  by (rule s32_cong) (simp add: u32_def)

lemma s32_mod_eq: "s32 k mod 4294967296 = k mod 4294967296"
  unfolding s32_def by (simp add: mod_diff_left_eq)

lemma s32_add: "s32 (s32 a + b) = s32 (a + b)" "s32 (a + s32 b) = s32 (a + b)" "s32 (s32 a - b) = s32 (a - b)"
proof -
  have m: "(s32 a + c) mod 4294967296 = (a + c) mod 4294967296" for a c
    by (metis mod_add_left_eq s32_mod_eq)
  show "s32 (s32 a + b) = s32 (a + b)" by (rule s32_cong) (rule m)
  show "s32 (a + s32 b) = s32 (a + b)" by (rule s32_cong) (metis add.commute m)
  show "s32 (s32 a - b) = s32 (a - b)" by (rule s32_cong) (metis diff_conv_add_uminus m)
qed

lemma s32_diff_u32: "s32 (u32 a - u32 b) = s32 (a - b)"
  by (rule s32_cong) (simp add: u32_def mod_diff_eq)

text \<open>The macro of \<^verbatim>\<open>src/common/utils.h\<close>.\<close>

definition cap_value :: "int \<Rightarrow> int \<Rightarrow> int \<Rightarrow> int" where
  "cap_value a mn mx = (if a \<ge> mx then mx else if a \<le> mn then mn else a)"

section \<open>Arrays\<close>

text \<open>
  \<open>ARR_FIND(start, end, var, cmp)\<close>: the first index from \<open>start\<close> on that satisfies
  \<open>cmp\<close>, and \<open>end\<close> when there is none below it.
\<close>

function arr_find :: "nat \<Rightarrow> nat \<Rightarrow> (nat \<Rightarrow> bool) \<Rightarrow> nat" where
  "arr_find s e P = (if s < e then (if P s then s else arr_find (Suc s) e P) else s)"
  by pat_completeness auto
termination
  by (relation "measure (\<lambda>(s, e, P). e - s)") auto

declare arr_find.simps [simp del]

lemma arr_find_props:
  assumes "s \<le> e"
  shows "s \<le> arr_find s e P \<and> arr_find s e P \<le> e
    \<and> (arr_find s e P < e \<longrightarrow> P (arr_find s e P))
    \<and> (\<forall>j. s \<le> j \<longrightarrow> j < arr_find s e P \<longrightarrow> \<not> P j)"
  using assms
proof (induction s e P rule: arr_find.induct)
  case (1 s e P)
  show ?case
  proof (cases "s < e \<and> \<not> P s")
    case True
    with "1.IH" have "Suc s \<le> arr_find (Suc s) e P \<and> arr_find (Suc s) e P \<le> e
      \<and> (arr_find (Suc s) e P < e \<longrightarrow> P (arr_find (Suc s) e P))
      \<and> (\<forall>j. Suc s \<le> j \<longrightarrow> j < arr_find (Suc s) e P \<longrightarrow> \<not> P j)" by simp
    moreover from True have "arr_find s e P = arr_find (Suc s) e P"
      by (simp add: arr_find.simps [of s e P])
    ultimately show ?thesis using True
      by (metis Suc_leD le_antisym not_less_eq_eq)
  next
    case False
    then show ?thesis using "1.prems" by (auto simp: arr_find.simps [of s e P])
  qed
qed

lemma arr_find_ge: "s \<le> e \<Longrightarrow> s \<le> arr_find s e P"
  and arr_find_le: "s \<le> e \<Longrightarrow> arr_find s e P \<le> e"
  and arr_find_holds: "s \<le> e \<Longrightarrow> arr_find s e P < e \<Longrightarrow> P (arr_find s e P)"
  and arr_find_first: "s \<le> e \<Longrightarrow> s \<le> j \<Longrightarrow> j < arr_find s e P \<Longrightarrow> \<not> P j"
  using arr_find_props by blast+

lemma arr_find_none_iff:
  assumes "s \<le> e"
  shows "arr_find s e P = e \<longleftrightarrow> (\<forall>j. s \<le> j \<and> j < e \<longrightarrow> \<not> P j)"
  using arr_find_props [OF assms, of P] assms by (metis le_neq_implies_less)

lemma arr_find_eqI:
  assumes "s \<le> k" "k < e" "P k" "\<And>j. s \<le> j \<Longrightarrow> j < k \<Longrightarrow> \<not> P j"
  shows "arr_find s e P = k"
proof (rule ccontr)
  assume neq: "arr_find s e P \<noteq> k"
  have se: "s \<le> e" using assms by simp
  show False
  proof (cases "arr_find s e P < k")
    case True
    with assms arr_find_holds [OF se, of P] arr_find_ge [OF se, of P] show False by force
  next
    case False
    with neq arr_find_first [OF se assms(1), of P] assms(3) show False by simp
  qed
qed

lemma arr_find_cong:
  assumes "\<And>j. s \<le> j \<Longrightarrow> j < e \<Longrightarrow> P j = Q j"
  shows "arr_find s e P = arr_find s e Q"
  using assms
proof (induction s e P rule: arr_find.induct)
  case (1 s e P)
  then show ?case by (simp add: arr_find.simps [of s e P] arr_find.simps [of s e Q])
qed

end
