(* ===== verification/MapCell.thy ===== *)
theory MapCell imports Rathena_Prelude begin

text \<open>
  The cell grid of a map (\<^verbatim>\<open>src/map/map.c\<close>, \<^verbatim>\<open>map.h\<close>): a cell's terrain and
  dynamic flags, the conversion from and to gat types, the checks of \<open>map_getcellp\<close> and the
  setters. One-bit fields are \<open>bool\<close>. A map that is not on this server has a NULL cell array,
  here the empty list. \<open>CELL_NOSTACK\<close> is off, as in the default build.
\<close>

record mapcell =
  walkable :: bool
  shootable :: bool
  water :: bool
  npc :: bool
  basilica :: bool
  landprotector :: bool
  novending :: bool
  nochat :: bool
  maelstrom :: bool
  icewall :: bool

record map_data =
  cell :: "mapcell list"
  xs :: int
  ys :: int

datatype cell_t = CELL_WALKABLE | CELL_SHOOTABLE | CELL_WATER | CELL_NPC | CELL_BASILICA
  | CELL_LANDPROTECTOR | CELL_NOVENDING | CELL_NOCHAT | CELL_MAELSTROM | CELL_ICEWALL

datatype cell_chk = CELL_GETTYPE | CELL_CHKWALL | CELL_CHKWATER | CELL_CHKCLIFF | CELL_CHKPASS
  | CELL_CHKREACH | CELL_CHKNOPASS | CELL_CHKNOREACH | CELL_CHKSTACK | CELL_CHKNPC
  | CELL_CHKBASILICA | CELL_CHKLANDPROTECTOR | CELL_CHKNOVENDING | CELL_CHKNOCHAT
  | CELL_CHKMAELSTROM | CELL_CHKICEWALL

definition MAX_MAP_PER_SERVER :: int where
  "MAX_MAP_PER_SERVER = 1500"

text \<open>\<open>memset(&cell, 0, sizeof(struct mapcell))\<close>.\<close>

definition zero_cell :: mapcell where
  "zero_cell = \<lparr>walkable = False, shootable = False, water = False, npc = False, basilica = False,
     landprotector = False, novending = False, nochat = False, maelstrom = False, icewall = False\<rparr>"

definition map_gat2cell :: "int \<Rightarrow> mapcell" where
  "map_gat2cell gat =
     (if gat = 0 then zero_cell\<lparr>walkable := True, shootable := True, water := False\<rparr>
      else if gat = 1 then zero_cell\<lparr>walkable := False, shootable := False, water := False\<rparr>
      else if gat = 2 then zero_cell\<lparr>walkable := True, shootable := True, water := False\<rparr>
      else if gat = 3 then zero_cell\<lparr>walkable := True, shootable := True, water := True\<rparr>
      else if gat = 4 then zero_cell\<lparr>walkable := True, shootable := True, water := False\<rparr>
      else if gat = 5 then zero_cell\<lparr>walkable := False, shootable := True, water := False\<rparr>
      else if gat = 6 then zero_cell\<lparr>walkable := True, shootable := True, water := False\<rparr>
      else zero_cell)"

definition map_cell2gat :: "mapcell \<Rightarrow> int" where
  "map_cell2gat c =
     (if walkable c \<and> shootable c \<and> \<not> water c then 0
      else if \<not> walkable c \<and> \<not> shootable c \<and> \<not> water c then 1
      else if walkable c \<and> shootable c \<and> water c then 3
      else if \<not> walkable c \<and> shootable c \<and> \<not> water c then 5
      else 1)"

text \<open>The last row and column are outside, and outside only \<open>CELL_CHKNOPASS\<close> holds.\<close>

definition map_getcellp :: "map_data \<Rightarrow> int \<Rightarrow> int \<Rightarrow> cell_chk \<Rightarrow> int" where
  "map_getcellp m x y cellchk =
     (if x < 0 \<or> x \<ge> xs m - 1 \<or> y < 0 \<or> y \<ge> ys m - 1 then of_bool (cellchk = CELL_CHKNOPASS)
      else let c = cell m ! nat (x + y * xs m) in
        (case cellchk of
           CELL_GETTYPE \<Rightarrow> map_cell2gat c
         | CELL_CHKWALL \<Rightarrow> of_bool (\<not> walkable c \<and> \<not> shootable c)
         | CELL_CHKWATER \<Rightarrow> of_bool (water c)
         | CELL_CHKCLIFF \<Rightarrow> of_bool (\<not> walkable c \<and> shootable c)
         | CELL_CHKNPC \<Rightarrow> of_bool (npc c)
         | CELL_CHKBASILICA \<Rightarrow> of_bool (basilica c)
         | CELL_CHKLANDPROTECTOR \<Rightarrow> of_bool (landprotector c)
         | CELL_CHKNOVENDING \<Rightarrow> of_bool (novending c)
         | CELL_CHKNOCHAT \<Rightarrow> of_bool (nochat c)
         | CELL_CHKMAELSTROM \<Rightarrow> of_bool (maelstrom c)
         | CELL_CHKICEWALL \<Rightarrow> of_bool (icewall c)
         | CELL_CHKPASS \<Rightarrow> of_bool (walkable c)
         | CELL_CHKREACH \<Rightarrow> of_bool (walkable c)
         | CELL_CHKNOPASS \<Rightarrow> of_bool (\<not> walkable c)
         | CELL_CHKNOREACH \<Rightarrow> of_bool (\<not> walkable c)
         | CELL_CHKSTACK \<Rightarrow> 0))"

definition map_getcell :: "map_data list \<Rightarrow> int \<Rightarrow> int \<Rightarrow> int \<Rightarrow> cell_chk \<Rightarrow> int" where
  "map_getcell maps m x y cellchk =
     (if m < 0 \<or> m \<ge> MAX_MAP_PER_SERVER then 0 else map_getcellp (maps ! nat m) x y cellchk)"

definition set_flag :: "cell_t \<Rightarrow> bool \<Rightarrow> mapcell \<Rightarrow> mapcell" where
  "set_flag t flag c =
     (case t of
        CELL_WALKABLE \<Rightarrow> c\<lparr>walkable := flag\<rparr>
      | CELL_SHOOTABLE \<Rightarrow> c\<lparr>shootable := flag\<rparr>
      | CELL_WATER \<Rightarrow> c\<lparr>water := flag\<rparr>
      | CELL_NPC \<Rightarrow> c\<lparr>npc := flag\<rparr>
      | CELL_BASILICA \<Rightarrow> c\<lparr>basilica := flag\<rparr>
      | CELL_LANDPROTECTOR \<Rightarrow> c\<lparr>landprotector := flag\<rparr>
      | CELL_NOVENDING \<Rightarrow> c\<lparr>novending := flag\<rparr>
      | CELL_NOCHAT \<Rightarrow> c\<lparr>nochat := flag\<rparr>
      | CELL_MAELSTROM \<Rightarrow> c\<lparr>maelstrom := flag\<rparr>
      | CELL_ICEWALL \<Rightarrow> c\<lparr>icewall := flag\<rparr>)"

text \<open>\<open>maps\<close> are the \<open>map_num\<close> loaded entries of the server's \<open>map[]\<close> array.\<close>

definition map_setcell :: "map_data list \<Rightarrow> int \<Rightarrow> int \<Rightarrow> int \<Rightarrow> cell_t \<Rightarrow> bool \<Rightarrow> map_data list" where
  "map_setcell maps m x y t flag =
     (if m < 0 \<or> m \<ge> int (length maps) then maps
      else let md = maps ! nat m in
        if x < 0 \<or> x \<ge> xs md \<or> y < 0 \<or> y \<ge> ys md then maps
        else let j = nat (x + y * xs md) in
          maps[nat m := md\<lparr>cell := (cell md)[j := set_flag t flag (cell md ! j)]\<rparr>])"

definition map_setgatcell :: "map_data list \<Rightarrow> int \<Rightarrow> int \<Rightarrow> int \<Rightarrow> int \<Rightarrow> map_data list" where
  "map_setgatcell maps m x y gat =
     (if m < 0 \<or> m \<ge> int (length maps) then maps
      else let md = maps ! nat m in
        if x < 0 \<or> x \<ge> xs md \<or> y < 0 \<or> y \<ge> ys md then maps
        else let j = nat (x + y * xs md); c = map_gat2cell gat in
          maps[nat m := md\<lparr>cell := (cell md)[j := (cell md ! j)
            \<lparr>walkable := walkable c, shootable := shootable c, water := water c\<rparr>]\<rparr>])"

section \<open>Well-formed maps\<close>

definition map_wf :: "map_data \<Rightarrow> bool" where
  "map_wf md \<longleftrightarrow> 0 < xs md \<and> xs md \<le> 32767 \<and> 0 < ys md \<and> ys md \<le> 32767
     \<and> length (cell md) = nat (xs md * ys md)"

definition in_map :: "map_data \<Rightarrow> int \<Rightarrow> int \<Rightarrow> bool" where
  "in_map md x y \<longleftrightarrow> 0 \<le> x \<and> x < xs md \<and> 0 \<le> y \<and> y < ys md"

text \<open>The row-major index of a cell on the map is inside the array and is not shared.\<close>

lemma cell_index_inj:
  fixes x y :: int
  assumes "0 \<le> x" "x < w" "0 \<le> x'" "x' < w" "x + y * w = x' + y' * w"
  shows "x = x' \<and> y = y'"
proof -
  have "y = (x + y * w) div w" using assms(1,2) by simp
  also have "\<dots> = (x' + y' * w) div w" by (simp only: assms(5))
  also have "\<dots> = y'" using assms(3,4) by simp
  finally have "y = y'" .
  with assms(5) show ?thesis by simp
qed

lemma cell_index_bound:
  fixes x y :: int
  assumes "0 \<le> x" "x < w" "0 \<le> y" "y < h"
  shows "0 \<le> x + y * w \<and> x + y * w < w * h"
proof -
  have "y * w \<le> (h - 1) * w" using assms by (intro mult_right_mono) auto
  then show ?thesis using assms by (simp add: algebra_simps)
qed

lemma cell_index_less:
  assumes "map_wf md" "in_map md x y"
  shows "nat (x + y * xs md) < length (cell md)"
  using cell_index_bound [of x "xs md" y "ys md"] assms by (auto simp: map_wf_def in_map_def)

lemma map_setcell_length [simp]: "length (map_setcell maps m x y t flag) = length maps"
  by (simp add: map_setcell_def Let_def)

lemma map_setcell_wf:
  assumes "\<forall>md \<in> set maps. map_wf md"
  shows "\<forall>md \<in> set (map_setcell maps m x y t flag). map_wf md"
  using assms by (auto simp: map_setcell_def Let_def map_wf_def dest!: in_set_conv_nth [THEN iffD1]
      simp: nth_list_update split: if_splits)

lemma map_setcell_in:
  assumes "0 \<le> m" "m < int (length maps)" "in_map (maps ! nat m) x y"
  shows "map_setcell maps m x y t flag =
    maps[nat m := (maps ! nat m)\<lparr>cell := (cell (maps ! nat m))
      [nat (x + y * xs (maps ! nat m)) := set_flag t flag (cell (maps ! nat m) ! nat (x + y * xs (maps ! nat m)))]\<rparr>]"
  using assms by (simp add: map_setcell_def in_map_def Let_def)

end
