(* ===== verification/Bheap.thy ===== *)
theory Bheap imports Rathena_Prelude begin

text \<open>
  The binary heap macros of \<^verbatim>\<open>src/common/db.h\<close> (\<open>BHEAP_*\<close>), on a vector modelled as
  the list of its \<open>_len_\<close> live elements. The macros take the comparator as a macro argument:
  here it is the function \<open>cmp\<close>, and the contract of its result's sign is the locale
  \<open>topcmp\<close>, relative to the set \<open>S\<close> of values the heap may hold (the timer comparator
  is an order only inside a window of ticks). The locale proves once, for every client, that each
  macro restores the heap property; the clients interpret it on their own comparators.
\<close>

section \<open>The vector operations the heap uses\<close>

definition vswap :: "'a list \<Rightarrow> nat \<Rightarrow> nat \<Rightarrow> 'a list" where
  "vswap xs i j = xs[i := xs ! j, j := xs ! i]"

definition VECTOR_PUSH :: "'a list \<Rightarrow> 'a \<Rightarrow> 'a list" where
  "VECTOR_PUSH xs x = xs @ [x]"

definition VECTOR_POP :: "'a list \<Rightarrow> 'a \<times> 'a list" where
  "VECTOR_POP xs = (xs ! (length xs - 1), take (length xs - 1) xs)"

definition BHEAP_PEEK :: "'a list \<Rightarrow> 'a" where
  "BHEAP_PEEK h = h ! 0"

section \<open>The heap operations\<close>

text \<open>The parents' loop of \<open>BHEAP_PUSH\<close> and \<open>BHEAP_POPINDEX\<close>: it stops only on a strictly
  smaller parent.\<close>

fun push_up :: "('a \<Rightarrow> 'a \<Rightarrow> int) \<Rightarrow> 'a list \<Rightarrow> nat \<Rightarrow> 'a list \<times> nat" where
  "push_up cmp h i =
     (if i = 0 then (h, i)
      else let p = (i - 1) div 2 in
        if cmp (h ! p) (h ! i) < 0 then (h, i) else push_up cmp (vswap h p i) p)"

declare push_up.simps [simp del]

definition BHEAP_PUSH :: "('a \<Rightarrow> 'a \<Rightarrow> int) \<Rightarrow> 'a list \<Rightarrow> 'a \<Rightarrow> 'a list" where
  "BHEAP_PUSH cmp h x = fst (push_up cmp (VECTOR_PUSH h x) (length h))"

text \<open>The children's loop of \<open>BHEAP_POPINDEX\<close>.\<close>

function pop_down :: "('a \<Rightarrow> 'a \<Rightarrow> int) \<Rightarrow> 'a list \<Rightarrow> nat \<Rightarrow> 'a list" where
  "pop_down cmp h i =
     (if i < length h then
        (let l = i * 2 + 1; r = i * 2 + 2 in
         if (l \<ge> length h \<or> cmp (h ! i) (h ! l) \<le> 0) \<and> (r \<ge> length h \<or> cmp (h ! i) (h ! r) \<le> 0)
         then h
         else if r \<ge> length h \<or> cmp (h ! l) (h ! r) \<le> 0 then pop_down cmp (vswap h i l) l
         else pop_down cmp (vswap h i r) r)
      else h)"
  by pat_completeness auto
termination
  by (relation "measure (\<lambda>(cmp, h, i). length h - i)") (auto simp: vswap_def)

declare pop_down.simps [simp del]

definition BHEAP_POPINDEX :: "('a \<Rightarrow> 'a \<Rightarrow> int) \<Rightarrow> 'a list \<Rightarrow> nat \<Rightarrow> 'a list" where
  "BHEAP_POPINDEX cmp h idx =
     (let (x, h') = VECTOR_POP h; h1 = h'[idx := x] in
      if idx \<ge> length h1 then h1
      else let (h2, i) = push_up cmp h1 idx in pop_down cmp h2 i)"

definition BHEAP_POP :: "('a \<Rightarrow> 'a \<Rightarrow> int) \<Rightarrow> 'a list \<Rightarrow> 'a list" where
  "BHEAP_POP cmp h = BHEAP_POPINDEX cmp h 0"

text \<open>\<open>BHEAP_SIFTDOWN\<close>: towards the root, down to \<open>start\<close>; it stops on an equal parent.\<close>

fun BHEAP_SIFTDOWN :: "('a \<Rightarrow> 'a \<Rightarrow> int) \<Rightarrow> 'a list \<Rightarrow> nat \<Rightarrow> nat \<Rightarrow> 'a list" where
  "BHEAP_SIFTDOWN cmp h s i =
     (if i > s then
        (let p = (i - 1) div 2 in
         if cmp (h ! p) (h ! i) \<le> 0 then h else BHEAP_SIFTDOWN cmp (vswap h p i) s p)
      else h)"

declare BHEAP_SIFTDOWN.simps [simp del]

text \<open>The descending loop of \<open>BHEAP_SIFTUP\<close>: always to a leaf, following the smaller child.\<close>

function sift_leaf :: "('a \<Rightarrow> 'a \<Rightarrow> int) \<Rightarrow> 'a list \<Rightarrow> nat \<Rightarrow> 'a list \<times> nat" where
  "sift_leaf cmp h i =
     (let l = i * 2 + 1 in
      if l < length h then
        (let r = i * 2 + 2 in
         if r \<ge> length h \<or> cmp (h ! l) (h ! r) < 0 then sift_leaf cmp (vswap h i l) l
         else sift_leaf cmp (vswap h i r) r)
      else (h, i))"
  by pat_completeness auto
termination
  by (relation "measure (\<lambda>(cmp, h, i). length h - i)") (auto simp: vswap_def)

declare sift_leaf.simps [simp del]

definition BHEAP_SIFTUP :: "('a \<Rightarrow> 'a \<Rightarrow> int) \<Rightarrow> 'a list \<Rightarrow> nat \<Rightarrow> 'a list" where
  "BHEAP_SIFTUP cmp h idx = (let (h', i) = sift_leaf cmp h idx in BHEAP_SIFTDOWN cmp h' idx i)"

definition BHEAP_PUSH2 :: "('a \<Rightarrow> 'a \<Rightarrow> int) \<Rightarrow> 'a list \<Rightarrow> 'a \<Rightarrow> 'a list" where
  "BHEAP_PUSH2 cmp h x = BHEAP_SIFTDOWN cmp (VECTOR_PUSH h x) 0 (length h)"

definition BHEAP_POP2 :: "('a \<Rightarrow> 'a \<Rightarrow> int) \<Rightarrow> 'a list \<Rightarrow> 'a list" where
  "BHEAP_POP2 cmp h =
     (let (x, h') = VECTOR_POP h; h1 = h'[0 := x] in
      if length h1 = 0 then h1 else BHEAP_SIFTUP cmp h1 0)"

definition BHEAP_UPDATE :: "('a \<Rightarrow> 'a \<Rightarrow> int) \<Rightarrow> 'a list \<Rightarrow> nat \<Rightarrow> 'a list" where
  "BHEAP_UPDATE cmp h idx = BHEAP_SIFTUP cmp (BHEAP_SIFTDOWN cmp h 0 idx) idx"

definition BHEAP_MINTOPCMP :: "int \<Rightarrow> int \<Rightarrow> int" where
  "BHEAP_MINTOPCMP v1 v2 = (if v1 = v2 then 0 else if v1 < v2 then -1 else 1)"

definition BHEAP_MAXTOPCMP :: "int \<Rightarrow> int \<Rightarrow> int" where
  "BHEAP_MAXTOPCMP v1 v2 = (if v1 = v2 then 0 else if v1 > v2 then -1 else 1)"

section \<open>The contents of the heap\<close>

text \<open>Every step is a swap, so no operation but push and pop changes the multiset of values.\<close>

lemma length_vswap [simp]: "length (vswap xs i j) = length xs"
  by (simp add: vswap_def)

lemma nth_vswap:
  "i < length xs \<Longrightarrow> j < length xs \<Longrightarrow>
   vswap xs i j ! k = (if k = j then xs ! i else if k = i then xs ! j else xs ! k)"
  by (simp add: vswap_def nth_list_update)

lemma mset_vswap [simp]:
  "i < length xs \<Longrightarrow> j < length xs \<Longrightarrow> mset (vswap xs i j) = mset xs"
  using mset_swap [of i xs j] by (simp add: vswap_def list_update_swap)
    (metis list_update_id list_update_swap)

lemma set_vswap [simp]: "i < length xs \<Longrightarrow> j < length xs \<Longrightarrow> set (vswap xs i j) = set xs"
  by (metis mset_vswap set_mset_mset)

lemma push_up_mset:
  "i < length h \<Longrightarrow> mset (fst (push_up cmp h i)) = mset h \<and> snd (push_up cmp h i) < length h"
proof (induction cmp h i rule: push_up.induct)
  case (1 cmp h i)
  then show ?case by (subst (1 2) push_up.simps) (auto simp: Let_def)
qed

lemma pop_down_mset: "mset (pop_down cmp h i) = mset h"
proof (induction cmp h i rule: pop_down.induct)
  case (1 cmp h i)
  then show ?case by (subst pop_down.simps) (auto simp: Let_def)
qed

lemma siftdown_mset: "i < length h \<Longrightarrow> mset (BHEAP_SIFTDOWN cmp h s i) = mset h"
proof (induction cmp h s i rule: BHEAP_SIFTDOWN.induct)
  case (1 cmp h s i)
  then show ?case by (subst BHEAP_SIFTDOWN.simps) (auto simp: Let_def)
qed

lemma sift_leaf_mset:
  "i < length h \<Longrightarrow> mset (fst (sift_leaf cmp h i)) = mset h \<and> snd (sift_leaf cmp h i) < length h"
proof (induction cmp h i rule: sift_leaf.induct)
  case (1 cmp h i)
  then show ?case by (subst (1 2) sift_leaf.simps) (auto simp: Let_def)
qed

lemma siftup_mset: "i < length h \<Longrightarrow> mset (BHEAP_SIFTUP cmp h i) = mset h"
  using sift_leaf_mset [of i h cmp] mset_eq_length
  by (fastforce simp: BHEAP_SIFTUP_def siftdown_mset split: prod.splits)

lemma bheap_push_mset: "mset (BHEAP_PUSH cmp h x) = add_mset x (mset h)"
  by (simp add: BHEAP_PUSH_def VECTOR_PUSH_def push_up_mset)

lemma bheap_push2_mset: "mset (BHEAP_PUSH2 cmp h x) = add_mset x (mset h)"
  by (simp add: BHEAP_PUSH2_def VECTOR_PUSH_def siftdown_mset)

lemma bheap_update_mset: "i < length h \<Longrightarrow> mset (BHEAP_UPDATE cmp h i) = mset h"
  by (metis BHEAP_UPDATE_def mset_eq_length siftdown_mset siftup_mset)

text \<open>Moving the last value over index \<open>idx\<close> removes exactly \<open>h ! idx\<close>.\<close>

lemma mset_pop_last:
  assumes "idx < length h"
  shows "mset ((take (length h - 1) h)[idx := h ! (length h - 1)]) = mset h - {#h ! idx#}"
proof -
  from assms obtain g z where h: "h = g @ [z]" by (cases h rule: rev_cases) auto
  then show ?thesis using assms by (cases "idx = length g") (auto simp: mset_update nth_append list_update_beyond)
qed

lemma bheap_popindex_mset:
  assumes "idx < length h"
  shows "mset (BHEAP_POPINDEX cmp h idx) = mset h - {#h ! idx#}"
  using mset_pop_last [OF assms] push_up_mset [of idx "(take (length h - 1) h)[idx := h ! (length h - 1)]" cmp]
  by (auto simp: BHEAP_POPINDEX_def VECTOR_POP_def Let_def pop_down_mset split: prod.splits)

lemma bheap_pop_mset: "h \<noteq> [] \<Longrightarrow> mset (BHEAP_POP cmp h) = mset h - {#BHEAP_PEEK h#}"
  by (simp add: BHEAP_POP_def BHEAP_PEEK_def bheap_popindex_mset)

lemma bheap_pop2_mset: "h \<noteq> [] \<Longrightarrow> mset (BHEAP_POP2 cmp h) = mset h - {#BHEAP_PEEK h#}"
  using mset_pop_last [of 0 h]
  by (auto simp: BHEAP_POP2_def VECTOR_POP_def BHEAP_PEEK_def Let_def siftup_mset)

lemmas bheap_msets = bheap_push_mset bheap_push2_mset bheap_update_mset bheap_popindex_mset
  bheap_pop_mset bheap_pop2_mset

section \<open>The heap property\<close>

definition par :: "nat \<Rightarrow> nat" where
  "par i = (i - 1) div 2"

definition heap_ok :: "('a \<Rightarrow> 'a \<Rightarrow> int) \<Rightarrow> 'a list \<Rightarrow> bool" where
  "heap_ok cmp h \<longleftrightarrow> (\<forall>j < length h. 0 < j \<longrightarrow> cmp (h ! par j) (h ! j) \<le> 0)"

text \<open>
  A heap but for the value at index \<open>i\<close>, which may be anything: every other edge is in order,
  and the parent of \<open>i\<close> is not above the children of \<open>i\<close>.
\<close>

definition hole_ok :: "('a \<Rightarrow> 'a \<Rightarrow> int) \<Rightarrow> 'a list \<Rightarrow> nat \<Rightarrow> bool" where
  "hole_ok cmp h i \<longleftrightarrow>
     (\<forall>j < length h. 0 < j \<longrightarrow> j \<noteq> i \<longrightarrow> par j \<noteq> i \<longrightarrow> cmp (h ! par j) (h ! j) \<le> 0) \<and>
     (\<forall>j < length h. 0 < j \<longrightarrow> par j = i \<longrightarrow> 0 < i \<longrightarrow> cmp (h ! par i) (h ! j) \<le> 0)"

text \<open>The value at \<open>i\<close> is not above its children.\<close>

definition over_children :: "('a \<Rightarrow> 'a \<Rightarrow> int) \<Rightarrow> 'a list \<Rightarrow> nat \<Rightarrow> bool" where
  "over_children cmp h i \<longleftrightarrow>
     (\<forall>j < length h. 0 < j \<longrightarrow> par j = i \<longrightarrow> cmp (h ! i) (h ! j) \<le> 0)"

text \<open>\<open>s\<close> is on the path from \<open>i\<close> to the root.\<close>

fun anc :: "nat \<Rightarrow> nat \<Rightarrow> bool" where
  "anc s i = (if s < i then anc s ((i - 1) div 2) else i = s)"

declare anc.simps [simp del]

lemma anc_refl [simp]: "anc s s"
  by (simp add: anc.simps [of s s])

lemma anc_0 [simp]: "anc 0 i"
proof (induction i rule: less_induct)
  case (less i)
  then show ?case by (cases "i = 0") (simp_all add: anc.simps [of 0 i])
qed

lemma anc_par: "anc s i \<Longrightarrow> s < i \<Longrightarrow> anc s (par i) \<and> s \<le> par i"
  using anc.simps [of s i] anc.simps [of s "par i"] by (auto simp: par_def split: if_splits)

lemma anc_child: "anc s i \<Longrightarrow> par c = i \<Longrightarrow> 0 < c \<Longrightarrow> s \<le> i \<Longrightarrow> anc s c"
  using anc.simps [of s c] by (auto simp: par_def)

lemma par_less: "0 < i \<Longrightarrow> par i < i"
  by (auto simp: par_def)

lemma par_child: "par j = i \<and> 0 < j \<longleftrightarrow> j = 2 * i + 1 \<or> j = 2 * i + 2"
  by (auto simp: par_def)

lemma par_children [simp]: "par (i * 2 + 1) = i" "par (i * 2 + 2) = i" "par (Suc (i * 2)) = i"
  "par (Suc (Suc (i * 2))) = i"
  by (simp_all add: par_def)

locale topcmp =
  fixes cmp :: "'a \<Rightarrow> 'a \<Rightarrow> int" and S :: "'a set"
  assumes cmp_sign: "a \<in> S \<Longrightarrow> b \<in> S \<Longrightarrow> cmp a b < 0 \<longleftrightarrow> 0 < cmp b a"
    and cmp_trans: "a \<in> S \<Longrightarrow> b \<in> S \<Longrightarrow> c \<in> S \<Longrightarrow> cmp a b \<le> 0 \<Longrightarrow> cmp b c \<le> 0 \<Longrightarrow> cmp a c \<le> 0"
begin

lemma inS: "set h \<subseteq> S \<Longrightarrow> j < length h \<Longrightarrow> h ! j \<in> S"
  using nth_mem by blast

lemma cmp_refl: "a \<in> S \<Longrightarrow> cmp a a \<le> 0"
  using cmp_sign [of a a] by linarith

lemma cmp_total: "a \<in> S \<Longrightarrow> b \<in> S \<Longrightarrow> cmp a b \<le> 0 \<or> cmp b a \<le> 0"
  using cmp_sign [of a b] by linarith

lemma cmp_flip: "a \<in> S \<Longrightarrow> b \<in> S \<Longrightarrow> 0 < cmp a b \<Longrightarrow> cmp b a \<le> 0"
  using cmp_total [of a b] by linarith

lemma cmp_flip': "a \<in> S \<Longrightarrow> b \<in> S \<Longrightarrow> 0 \<le> cmp a b \<Longrightarrow> cmp b a \<le> 0"
  using cmp_sign [of a b] by linarith

text \<open>The root is not above any value of the heap.\<close>

lemma heap_root:
  "heap_ok cmp h \<Longrightarrow> set h \<subseteq> S \<Longrightarrow> i < length h \<Longrightarrow> cmp (h ! 0) (h ! i) \<le> 0"
proof (induction i rule: less_induct)
  case (less i)
  have inS: "\<And>j. j < length h \<Longrightarrow> h ! j \<in> S" using less.prems(2) nth_mem by blast
  show ?case
  proof (cases "i = 0")
    case True
    then show ?thesis using inS [of 0] less.prems(3) cmp_refl by simp
  next
    case False
    then have p: "par i < i" by (simp add: par_less)
    have "cmp (h ! 0) (h ! par i) \<le> 0" using less p by simp
    moreover have "cmp (h ! par i) (h ! i) \<le> 0"
      using less.prems False by (simp add: heap_ok_def)
    moreover have "h ! 0 \<in> S" "h ! par i \<in> S" "h ! i \<in> S"
      using inS [of 0] inS [of "par i"] inS [of i] p less.prems(3) by fastforce+
    ultimately show ?thesis using cmp_trans by blast
  qed
qed

lemma peek_min: "heap_ok cmp h \<Longrightarrow> set h \<subseteq> S \<Longrightarrow> x \<in> set h \<Longrightarrow> cmp (BHEAP_PEEK h) x \<le> 0"
  using heap_root by (auto simp: BHEAP_PEEK_def in_set_conv_nth)

lemma heap_hole: "heap_ok cmp h \<Longrightarrow> set h \<subseteq> S \<Longrightarrow> i < length h \<Longrightarrow> hole_ok cmp h i"
  unfolding hole_ok_def
  by (smt (verit) cmp_trans heap_ok_def less_trans nth_mem par_less subset_code(1))

lemma hole_heap:
  assumes "hole_ok cmp h i" "0 < i \<Longrightarrow> cmp (h ! par i) (h ! i) \<le> 0"
    and "over_children cmp h i"
  shows "heap_ok cmp h"
  using assms unfolding heap_ok_def hole_ok_def over_children_def by metis

text \<open>Swapping the hole with its parent, when the parent is not strictly above.\<close>

lemma hole_step_up:
  assumes h: "hole_ok cmp h i" and S: "set h \<subseteq> S" and i: "0 < i" "i < length h"
    and above: "cmp (h ! i) (h ! par i) \<le> 0"
  shows "hole_ok cmp (vswap h (par i) i) (par i) \<and> over_children cmp (vswap h (par i) i) (par i)"
proof -
  let ?g = "vswap h (par i) i"
  have p: "par i < i" "par i < length h" using i par_less [of i] by auto
  have g: "?g ! k = (if k = i then h ! par i else if k = par i then h ! i else h ! k)" for k
    using nth_vswap [of "par i" h i k] p i by simp
  have inS: "\<And>j. j < length h \<Longrightarrow> h ! j \<in> S" using S nth_mem by blast
  have 1: "cmp (h ! par j) (h ! j) \<le> 0" if "j < length h" "0 < j" "j \<noteq> i" "par j \<noteq> i" for j
    using h that by (simp add: hole_ok_def)
  have 2: "cmp (h ! par i) (h ! j) \<le> 0" if "j < length h" "0 < j" "par j = i" for j
    using h that i by (simp add: hole_ok_def)
  have 3: "cmp (h ! par (par i)) (h ! par i) \<le> 0" if "0 < par i"
    using 1 [of "par i"] that p par_less [of "par i"] by auto
  have A: "cmp (?g ! par j) (?g ! j) \<le> 0"
    if j: "j < length h" "0 < j" "j \<noteq> par i" "par j \<noteq> par i" for j
  proof (cases "par j = i")
    case True
    then show ?thesis using 2 [OF j(1,2)] g j par_less [of j] by auto
  next
    case False
    then show ?thesis using 1 [of j] g j by auto
  qed
  have B: "cmp (?g ! par (par i)) (?g ! j) \<le> 0"
    if j: "j < length h" "0 < j" "par j = par i" "0 < par i" for j
  proof (cases "j = i")
    case True
    then show ?thesis using 3 g that p par_less [of "par i"] by auto
  next
    case False
    have "cmp (h ! par i) (h ! j) \<le> 0" using 1 [of j] False j p by auto
    moreover have "h ! par (par i) \<in> S" "h ! par i \<in> S" "h ! j \<in> S"
      using inS p j par_less [of "par i"] by (auto intro: less_trans)
    ultimately have "cmp (h ! par (par i)) (h ! j) \<le> 0" using 3 j cmp_trans by blast
    then show ?thesis using g False j par_less [of "par i"] par_less [of j] p by auto
  qed
  have C: "cmp (?g ! par i) (?g ! j) \<le> 0" if j: "j < length h" "0 < j" "par j = par i" for j
  proof (cases "j = i")
    case True
    then show ?thesis using above g p by auto
  next
    case False
    have "cmp (h ! par i) (h ! j) \<le> 0" using 1 [of j] False j p by auto
    then have "cmp (h ! i) (h ! j) \<le> 0"
      using above cmp_trans [of "h ! i" "h ! par i" "h ! j"] inS i p j by auto
    then show ?thesis using g False j par_less [of j] p by auto
  qed
  show ?thesis using A B C by (simp add: hole_ok_def over_children_def)
qed

text \<open>Swapping the hole with its smaller child.\<close>

lemma hole_step_down:
  assumes h: "hole_ok cmp h i" and S: "set h \<subseteq> S" and c: "c < length h" "0 < c" "par c = i"
    and least: "\<And>j. j < length h \<Longrightarrow> 0 < j \<Longrightarrow> par j = i \<Longrightarrow> cmp (h ! c) (h ! j) \<le> 0"
  shows "hole_ok cmp (vswap h i c) c"
proof -
  let ?g = "vswap h i c"
  have p: "i < c" "i < length h" using c par_less [of c] by auto
  have g: "?g ! k = (if k = c then h ! i else if k = i then h ! c else h ! k)" for k
    using nth_vswap [of i h c k] p c by simp
  have 1: "cmp (h ! par j) (h ! j) \<le> 0" if "j < length h" "0 < j" "j \<noteq> i" "par j \<noteq> i" for j
    using h that by (simp add: hole_ok_def)
  have 2: "cmp (h ! par i) (h ! c) \<le> 0" if "0 < i"
    using h that c by (simp add: hole_ok_def)
  have A: "cmp (?g ! par j) (?g ! j) \<le> 0"
    if j: "j < length h" "0 < j" "j \<noteq> c" "par j \<noteq> c" for j
  proof (cases "j = i")
    case True
    then show ?thesis using 2 g j par_less [of i] p by auto
  next
    case False
    then show ?thesis using 1 [of j] least [of j] g j by auto
  qed
  have B: "cmp (?g ! par c) (?g ! j) \<le> 0" if j: "j < length h" "0 < j" "par j = c" for j
    using 1 [of j] g c j p par_less [of j] by auto
  show ?thesis using A B by (simp add: hole_ok_def)
qed

section \<open>The operations restore the heap property\<close>

lemma push_up_ok:
  "hole_ok cmp h i \<Longrightarrow> set h \<subseteq> S \<Longrightarrow> i < length h \<Longrightarrow> push_up cmp h i = (g, k) \<Longrightarrow>
   hole_ok cmp g k \<and> k < length g \<and> (0 < k \<longrightarrow> cmp (g ! par k) (g ! k) \<le> 0)
   \<and> (over_children cmp h i \<longrightarrow> over_children cmp g k)"
proof (induction i arbitrary: h rule: less_induct)
  case (less i)
  show ?case
  proof (cases "i = 0 \<or> cmp (h ! par i) (h ! i) < 0")
    case True
    then have "push_up cmp h i = (h, i)" by (subst push_up.simps) (auto simp: par_def)
    then show ?thesis using less.prems True by auto
  next
    case False
    let ?h = "vswap h (par i) i"
    have p: "0 < i" "par i < i" using False par_less by auto
    have "cmp (h ! i) (h ! par i) \<le> 0"
      using False cmp_flip' [of "h ! par i" "h ! i"] inS [OF less.prems(2)] p less.prems(3) by auto
    then have "hole_ok cmp ?h (par i)" "over_children cmp ?h (par i)"
      using hole_step_up [OF less.prems(1,2) p(1) less.prems(3)] by auto
    moreover have "set ?h \<subseteq> S"
      using less.prems p by simp
    moreover have "push_up cmp ?h (par i) = (g, k)"
      using less.prems(4) False by (simp add: push_up.simps [of _ h i] par_def Let_def)
    ultimately show ?thesis using less.IH [of "par i" ?h] p less.prems(3) by simp
  qed
qed

lemma siftdown_ok:
  "hole_ok cmp h i \<Longrightarrow> over_children cmp h i \<Longrightarrow> set h \<subseteq> S \<Longrightarrow> i < length h \<Longrightarrow> anc s i \<Longrightarrow> s \<le> i \<Longrightarrow>
   (0 < s \<longrightarrow> cmp (h ! par s) (h ! i) \<le> 0) \<Longrightarrow> heap_ok cmp (BHEAP_SIFTDOWN cmp h s i)"
proof (induction i arbitrary: h rule: less_induct)
  case (less i)
  show ?case
  proof (cases "s < i \<and> 0 < cmp (h ! par i) (h ! i)")
    case False
    then have "0 < i \<longrightarrow> cmp (h ! par i) (h ! i) \<le> 0" using less.prems by auto
    then have "heap_ok cmp h" using hole_heap less.prems by blast
    then show ?thesis using False by (auto simp: BHEAP_SIFTDOWN.simps [of _ h] Let_def par_def)
  next
    case True
    let ?h = "vswap h (par i) i"
    have p: "0 < i" "par i < i" using True par_less by auto
    have "cmp (h ! i) (h ! par i) \<le> 0"
      using True cmp_flip [of "h ! par i" "h ! i"] inS [OF less.prems(3)] p less.prems(4) by auto
    then have "hole_ok cmp ?h (par i)" "over_children cmp ?h (par i)"
      using hole_step_up [OF less.prems(1,3) p(1) less.prems(4)] by auto
    moreover have "set ?h \<subseteq> S"
      using less.prems p by simp
    moreover have "anc s (par i)" "s \<le> par i" using anc_par less.prems True by auto
    moreover have "0 < s \<longrightarrow> cmp (?h ! par s) (?h ! par i) \<le> 0"
      using less.prems p par_less [of s] \<open>s \<le> par i\<close> by (auto simp: nth_vswap)
    moreover have "BHEAP_SIFTDOWN cmp h s i = BHEAP_SIFTDOWN cmp ?h s (par i)"
      using True by (simp add: BHEAP_SIFTDOWN.simps [of _ h] Let_def par_def)
    ultimately show ?thesis using less.IH [of "par i" ?h] p less.prems(4) by simp
  qed
qed

lemma sift_leaf_ok:
  "hole_ok cmp h i \<Longrightarrow> set h \<subseteq> S \<Longrightarrow> i < length h \<Longrightarrow> anc s i \<Longrightarrow> s \<le> i \<Longrightarrow> sift_leaf cmp h i = (g, k) \<Longrightarrow>
   hole_ok cmp g k \<and> over_children cmp g k \<and> anc s k \<and> s \<le> k \<and> g ! k = h ! i \<and> (\<forall>j < i. g ! j = h ! j)"
proof (induction "length h - i" arbitrary: h i rule: less_induct)
  case less
  let ?l = "i * 2 + 1" and ?r = "i * 2 + 2"
  have inS: "\<And>j. j < length h \<Longrightarrow> h ! j \<in> S" using less.prems(2) nth_mem by blast
  show ?case
  proof (cases "?l < length h")
    case False
    then have "g = h" "k = i" using less.prems(6) by (auto simp: sift_leaf.simps [of _ h] Let_def)
    then show ?thesis using False less.prems by (auto simp: over_children_def par_def)
  next
    case True
    define c where "c = (if ?r \<ge> length h \<or> cmp (h ! ?l) (h ! ?r) < 0 then ?l else ?r)"
    have c: "c < length h" "0 < c" "par c = i" "i < c" using True by (auto simp: c_def)
    have least: "cmp (h ! c) (h ! j) \<le> 0" if j: "j < length h" "0 < j" "par j = i" for j
    proof -
      have "j = ?l \<or> j = ?r" using j par_child [of j i] by (auto simp: mult.commute)
      then show ?thesis using j inS [of ?l] inS [of ?r] True cmp_refl
          cmp_flip' [of "h ! ?l" "h ! ?r"] by (auto simp: c_def)
    qed
    let ?h = "vswap h i c"
    have "hole_ok cmp ?h c" using hole_step_down [OF less.prems(1,2) c(1,2,3) least] .
    moreover have "set ?h \<subseteq> S"
      using less.prems c by simp
    moreover have "anc s c" using anc_child [of s i c] c less.prems by simp
    moreover have "sift_leaf cmp ?h c = (g, k)"
      using less.prems(6) True by (auto simp: sift_leaf.simps [of _ h] Let_def c_def split: if_splits)
    ultimately have "hole_ok cmp g k \<and> over_children cmp g k \<and> anc s k \<and> s \<le> k \<and> g ! k = ?h ! c
        \<and> (\<forall>j < c. g ! j = ?h ! j)"
      using less.hyps [of ?h c] c less.prems by simp
    then show ?thesis using c less.prems(3) by (auto simp: nth_vswap)
  qed
qed

lemma siftup_ok:
  assumes "hole_ok cmp h s" "set h \<subseteq> S" "s < length h" "0 < s \<longrightarrow> cmp (h ! par s) (h ! s) \<le> 0"
  shows "heap_ok cmp (BHEAP_SIFTUP cmp h s)"
proof -
  obtain g k where gk: "sift_leaf cmp h s = (g, k)" by fastforce
  have ok: "hole_ok cmp g k \<and> over_children cmp g k \<and> anc s k \<and> s \<le> k \<and> g ! k = h ! s \<and> (\<forall>j < s. g ! j = h ! j)"
    using sift_leaf_ok [OF assms(1-3) anc_refl order_refl gk] .
  have m: "mset g = mset h" "k < length g"
    using sift_leaf_mset [OF assms(3), of cmp] gk mset_eq_length by fastforce+
  have "0 < s \<longrightarrow> cmp (g ! par s) (g ! k) \<le> 0" using ok assms(4) par_less by simp
  moreover have "set g \<subseteq> S" using m(1) assms(2) mset_eq_setD by blast
  ultimately have "heap_ok cmp (BHEAP_SIFTDOWN cmp g s k)"
    using siftdown_ok [of g k s] ok m by blast
  then show ?thesis by (simp add: BHEAP_SIFTUP_def gk)
qed

lemma pop_down_ok:
  "hole_ok cmp h i \<Longrightarrow> set h \<subseteq> S \<Longrightarrow> i < length h \<Longrightarrow> 0 < i \<longrightarrow> cmp (h ! par i) (h ! i) \<le> 0 \<Longrightarrow>
   heap_ok cmp (pop_down cmp h i)"
proof (induction "length h - i" arbitrary: h i rule: less_induct)
  case less
  let ?l = "i * 2 + 1" and ?r = "i * 2 + 2"
  let ?done = "(?l \<ge> length h \<or> cmp (h ! i) (h ! ?l) \<le> 0) \<and> (?r \<ge> length h \<or> cmp (h ! i) (h ! ?r) \<le> 0)"
  have inS: "\<And>j. j < length h \<Longrightarrow> h ! j \<in> S" using less.prems(2) nth_mem by blast
  have ch: "j = ?l \<or> j = ?r" if "0 < j" "par j = i" for j
    using that par_child [of j i] by (auto simp: mult.commute)
  show ?case
  proof (cases ?done)
    case True
    have "over_children cmp h i" unfolding over_children_def
    proof (intro allI impI)
      fix j assume "j < length h" "0 < j" "par j = i"
      then show "cmp (h ! i) (h ! j) \<le> 0" using ch [of j] True by auto
    qed
    then have "heap_ok cmp h" using hole_heap less.prems by blast
    then show ?thesis using True by (simp add: pop_down.simps [of _ h] Let_def)
  next
    case False
    define c where "c = (if ?r \<ge> length h \<or> cmp (h ! ?l) (h ! ?r) \<le> 0 then ?l else ?r)"
    have c: "c < length h" "0 < c" "par c = i" "i < c" using False by (auto simp: c_def)
    have least: "cmp (h ! c) (h ! j) \<le> 0" if j: "j < length h" "0 < j" "par j = i" for j
      using j ch [OF j(2,3)] inS [of ?l] inS [of ?r] cmp_refl cmp_flip [of "h ! ?l" "h ! ?r"]
      by (auto simp: c_def)
    have "\<exists>j. j < length h \<and> 0 < j \<and> par j = i \<and> 0 < cmp (h ! i) (h ! j)"
    proof (cases "?l \<ge> length h \<or> cmp (h ! i) (h ! ?l) \<le> 0")
      case True
      then show ?thesis using False by (intro exI [of _ ?r]) auto
    next
      case False
      then show ?thesis by (intro exI [of _ ?l]) auto
    qed
    then obtain j where j: "j < length h" "0 < j" "par j = i" "cmp (h ! j) (h ! i) \<le> 0"
      using cmp_flip inS less.prems(3) by blast
    then have x: "cmp (h ! c) (h ! i) \<le> 0"
      using least [OF j(1-3)] cmp_trans [of "h ! c" "h ! j" "h ! i"] inS c less.prems(3) by blast
    let ?h = "vswap h i c"
    have "hole_ok cmp ?h c" using hole_step_down [OF less.prems(1,2) c(1,2,3) least] .
    moreover have "set ?h \<subseteq> S"
      using less.prems c by simp
    moreover have "0 < c \<longrightarrow> cmp (?h ! par c) (?h ! c) \<le> 0"
      using x c less.prems(3) by (simp add: nth_vswap)
    moreover have "pop_down cmp h i = pop_down cmp ?h c"
      using False less.prems(3) unfolding c_def by (subst pop_down.simps) (auto simp: Let_def)
    ultimately show ?thesis using less.hyps [of ?h c] c by simp
  qed
qed

text \<open>The macros as the clients call them.\<close>

lemma push_slot_hole:
  assumes "heap_ok cmp h"
  shows "hole_ok cmp (VECTOR_PUSH h x) (length h) \<and> over_children cmp (VECTOR_PUSH h x) (length h)"
proof -
  have p: "par j < length h" if "j < Suc (length h)" "0 < j" for j
    using that par_less [of j] by simp
  have "par j \<noteq> length h" if "j < Suc (length h)" "0 < j" for j
    using p [OF that] by simp
  then show ?thesis using assms p
    by (simp add: heap_ok_def hole_ok_def over_children_def VECTOR_PUSH_def nth_append)
qed

theorem bheap_push_ok:
  assumes "heap_ok cmp h" "set h \<subseteq> S" "x \<in> S"
  shows "heap_ok cmp (BHEAP_PUSH cmp h x)"
proof -
  obtain g k where gk: "push_up cmp (VECTOR_PUSH h x) (length h) = (g, k)" by fastforce
  have "hole_ok cmp g k \<and> (0 < k \<longrightarrow> cmp (g ! par k) (g ! k) \<le> 0) \<and> over_children cmp g k"
    using push_up_ok [OF _ _ _ gk] push_slot_hole [OF assms(1), of x] assms
    by (simp add: VECTOR_PUSH_def)
  then have "heap_ok cmp g" using hole_heap by blast
  then show ?thesis by (simp add: BHEAP_PUSH_def gk)
qed

theorem bheap_push2_ok:
  assumes "heap_ok cmp h" "set h \<subseteq> S" "x \<in> S"
  shows "heap_ok cmp (BHEAP_PUSH2 cmp h x)"
  using siftdown_ok [of "VECTOR_PUSH h x" "length h" 0] push_slot_hole [OF assms(1), of x] assms
  by (simp add: BHEAP_PUSH2_def VECTOR_PUSH_def)

text \<open>Dropping the last value keeps a heap, and overwriting one index makes a hole there.\<close>

lemma heap_take: "heap_ok cmp h \<Longrightarrow> heap_ok cmp (take n h)"
  by (auto simp: heap_ok_def dest: par_less)

lemma set_overwrite: "set t \<subseteq> S \<Longrightarrow> x \<in> S \<Longrightarrow> set (t[i := x]) \<subseteq> S"
  using set_update_subset_insert [of t i x] by blast

lemma heap_set_hole:
  assumes "heap_ok cmp h" "set h \<subseteq> S" "i < length h"
  shows "hole_ok cmp (h[i := x]) i"
  using heap_hole [OF assms] assms(3) by (auto simp: hole_ok_def nth_list_update dest: par_less)

theorem bheap_popindex_ok:
  assumes "heap_ok cmp h" "set h \<subseteq> S" "idx < length h"
  shows "heap_ok cmp (BHEAP_POPINDEX cmp h idx)"
proof -
  let ?t = "take (length h - 1) h"
  let ?g = "?t[idx := h ! (length h - 1)]"
  have t: "heap_ok cmp ?t" "set ?t \<subseteq> S"
    using heap_take [OF assms(1)] assms(2) by (auto dest: in_set_takeD)
  have g: "set ?g \<subseteq> S" using t inS [OF assms(2), of "length h - 1"] assms(3)
    by (intro set_overwrite) auto
  show ?thesis
  proof (cases "idx < length ?t")
    case False
    then have "?g = ?t" by (simp add: list_update_beyond)
    then show ?thesis using False t by (simp add: BHEAP_POPINDEX_def VECTOR_POP_def Let_def)
  next
    case True
    obtain f k where fk: "push_up cmp ?g idx = (f, k)" by fastforce
    have "hole_ok cmp f k \<and> k < length f \<and> (0 < k \<longrightarrow> cmp (f ! par k) (f ! k) \<le> 0)"
      using push_up_ok [OF heap_set_hole [OF t True] g _ fk] True by simp
    moreover have "set f \<subseteq> S"
      using push_up_mset [of idx ?g cmp] True fk g by (metis fst_conv length_list_update mset_eq_setD)
    ultimately show ?thesis using True fk pop_down_ok
      by (simp add: BHEAP_POPINDEX_def VECTOR_POP_def Let_def)
  qed
qed

theorem bheap_pop_ok: "heap_ok cmp h \<Longrightarrow> set h \<subseteq> S \<Longrightarrow> h \<noteq> [] \<Longrightarrow> heap_ok cmp (BHEAP_POP cmp h)"
  by (simp add: BHEAP_POP_def bheap_popindex_ok)

theorem bheap_pop2_ok:
  assumes "heap_ok cmp h" "set h \<subseteq> S" "h \<noteq> []"
  shows "heap_ok cmp (BHEAP_POP2 cmp h)"
proof -
  let ?t = "take (length h - 1) h"
  let ?g = "?t[0 := h ! (length h - 1)]"
  have t: "heap_ok cmp ?t" "set ?t \<subseteq> S"
    using heap_take [OF assms(1)] assms(2) by (auto dest: in_set_takeD)
  have g: "set ?g \<subseteq> S" using t inS [OF assms(2), of "length h - 1"] assms(3)
    by (intro set_overwrite) auto
  show ?thesis
  proof (cases "length ?t = 0")
    case True
    then show ?thesis by (simp add: BHEAP_POP2_def VECTOR_POP_def Let_def heap_ok_def)
  next
    case False
    then show ?thesis using siftup_ok [OF heap_set_hole [OF t] g] False assms(3)
      by (simp add: BHEAP_POP2_def VECTOR_POP_def Let_def)
  qed
qed

text \<open>
  \<open>BHEAP_UPDATE\<close> repairs the heap after any change of one key: the other edges are in order and
  the old parent of \<open>idx\<close> is not above its children.
\<close>

theorem bheap_update_ok:
  assumes "hole_ok cmp h idx" "set h \<subseteq> S" "idx < length h"
  shows "heap_ok cmp (BHEAP_UPDATE cmp h idx)"
proof -
  let ?p = "par idx"
  let ?g = "BHEAP_SIFTDOWN cmp h 0 idx"
  have g: "mset ?g = mset h" "length ?g = length h" "set ?g \<subseteq> S"
    using siftdown_mset [OF assms(3), of cmp 0] mset_eq_length mset_eq_setD assms(2) by blast+
  have "hole_ok cmp ?g idx \<and> (0 < idx \<longrightarrow> cmp (?g ! ?p) (?g ! idx) \<le> 0)"
  proof (cases "0 < idx \<and> 0 < cmp (h ! ?p) (h ! idx)")
    case False
    then have "?g = h" by (auto simp: BHEAP_SIFTDOWN.simps [of _ h] Let_def par_def)
    then show ?thesis using False assms(1) by auto
  next
    case True
    let ?h = "vswap h ?p idx"
    have p: "?p < idx" using True par_less by simp
    have "cmp (h ! idx) (h ! ?p) \<le> 0"
      using True cmp_flip [of "h ! ?p" "h ! idx"] inS [OF assms(2)] p assms(3) by auto
    then have "hole_ok cmp ?h ?p" "over_children cmp ?h ?p"
      using hole_step_up [OF assms(1,2) _ assms(3)] True by auto
    moreover have "?g = BHEAP_SIFTDOWN cmp ?h 0 ?p"
      using True by (simp add: BHEAP_SIFTDOWN.simps [of _ h] Let_def par_def)
    ultimately have "heap_ok cmp ?g"
      using siftdown_ok [of ?h ?p 0] assms p by simp
    then show ?thesis using heap_hole g assms(3) by (auto simp: heap_ok_def)
  qed
  then show ?thesis using siftup_ok [of ?g idx] g assms(3) by (simp add: BHEAP_UPDATE_def)
qed

end

text \<open>Only the comparator's results on the values held matter.\<close>

lemma heap_cong:
  assumes "heap_ok c1 h" "\<And>a b. a \<in> set h \<Longrightarrow> b \<in> set h \<Longrightarrow> c1 a b = c2 a b"
  shows "heap_ok c2 h"
  unfolding heap_ok_def
proof (intro allI impI)
  fix j assume j: "j < length h" "0 < j"
  then have "par j < length h" using par_less [of j] by simp
  then show "c2 (h ! par j) (h ! j) \<le> 0" using assms j by (auto simp: heap_ok_def)
qed

text \<open>The generic comparators of \<^verbatim>\<open>db.h\<close> are total orders on all of \<open>int\<close>.\<close>

interpretation mintop: topcmp BHEAP_MINTOPCMP UNIV
  by unfold_locales (auto simp: BHEAP_MINTOPCMP_def split: if_splits)

interpretation maxtop: topcmp BHEAP_MAXTOPCMP UNIV
  by unfold_locales (auto simp: BHEAP_MAXTOPCMP_def split: if_splits)

end
