(* ===== verification/Path.thy ===== *)
theory Path imports MapCell Bheap begin

text \<open>
  Walking and shooting paths (\<^verbatim>\<open>src/map/path.c\<close>).

  \<^item> \<open>path_blownpos\<close>: knock-back, cell by cell.
  \<^item> \<open>path_search_long\<close>: the line of a ranged attack.
  \<^item> \<open>path_search\<close>: the easy path, or A* over an array of 1024 nodes addressed by hashed
    coordinates, with the binary heap of node pointers. A pointer to \<open>tp[i]\<close> is the index
    \<open>i\<close>, \<open>NULL\<close> is \<open>None\<close>.

  The loops that only stop when the search succeeds are \<open>partial_function (option)\<close>: \<open>None\<close>
  is a search that does not return.
\<close>

unbundle bit_operations_syntax

definition MAX_WALKPATH :: int where "MAX_WALKPATH = 32"
definition MOVE_COST :: int where "MOVE_COST = 10"
definition MOVE_DIAGONAL_COST :: int where "MOVE_DIAGONAL_COST = 14"
definition SET_OPEN :: int where "SET_OPEN = 0"
definition SET_CLOSED :: int where "SET_CLOSED = 1"

text \<open>A call of \<open>map_getcellp\<close> at \<open>int\<close> coordinates: they become \<open>int16\<close> parameters.\<close>

definition cellp :: "map_data \<Rightarrow> int \<Rightarrow> int \<Rightarrow> cell_chk \<Rightarrow> bool" where
  "cellp md x y c \<longleftrightarrow> map_getcellp md (s16 x) (s16 y) c \<noteq> 0"

text \<open>\<open>walk_choices[-dy + 1][dx + 1]\<close>, a table of \<open>unsigned char\<close>.\<close>

definition walk_choices :: "int list list" where
  "walk_choices = [[1, 0, 7], [2, 255, 6], [3, 4, 5]]"

definition walk_choice :: "int \<Rightarrow> int \<Rightarrow> int" where
  "walk_choice dx dy = walk_choices ! nat (- dy + 1) ! nat (dx + 1)"

section \<open>Knock-back\<close>

text \<open>
  The loop of \<open>path_blownpos\<close>; \<open>rs\<close> are the results of \<open>rnd()\<close> in the order the code draws
  them, \<open>halt\<close> is \<open>battle_config.path_blown_halt\<close>.
\<close>

fun blown_loop :: "map_data \<Rightarrow> bool \<Rightarrow> (nat \<Rightarrow> int) \<Rightarrow> nat \<Rightarrow> int \<Rightarrow> int \<Rightarrow> int \<Rightarrow> int \<Rightarrow> nat \<Rightarrow> int \<times> int" where
  "blown_loop md halt rs k x0 y0 dx dy 0 = (x0, y0)"
| "blown_loop md halt rs k x0 y0 dx dy (Suc cnt) =
     (if dx \<noteq> 0 \<or> dy \<noteq> 0 then
        (if \<not> cellp md (x0 + dx) (y0 + dy) CELL_CHKPASS then
           (if halt then (x0, y0)
            else
              (let fx = (dx \<noteq> 0 \<and> cellp md (x0 + dx) y0 CELL_CHKPASS);
                   fy = (dy \<noteq> 0 \<and> cellp md x0 (y0 + dy) CELL_CHKPASS);
                   k' = (if fx \<and> fy then Suc k else k);
                   dx1 = (if fx \<and> fy \<and> odd (rs k) then 0 else dx);
                   dy1 = (if fx \<and> fy \<and> \<not> odd (rs k) then 0 else dy);
                   dx2 = (if \<not> fx then 0 else dx1);
                   dy2 = (if \<not> fy then 0 else dy1)
               in blown_loop md halt rs k' (s16 (x0 + dx2)) (s16 (y0 + dy2)) dx2 dy2 cnt))
         else blown_loop md halt rs k (s16 (x0 + dx)) (s16 (y0 + dy)) dx dy cnt)
      else (x0, y0))"

definition path_blownpos ::
  "map_data \<Rightarrow> bool \<Rightarrow> (nat \<Rightarrow> int) \<Rightarrow> int \<Rightarrow> int \<Rightarrow> int \<Rightarrow> int \<Rightarrow> int \<Rightarrow> int" where
  "path_blownpos md halt rs x0 y0 dx dy cnt =
     (if cell md = [] then -1
      else
        (let cnt = (if cnt > 25 then 25 else cnt);
             clip = dx > 1 \<or> dx < -1 \<or> dy > 1 \<or> dy < -1;
             dx = (if clip then (if dx > 0 then 1 else if dx < 0 then -1 else 0) else dx);
             dy = (if clip then (if dy > 0 then 1 else if dy < 0 then -1 else 0) else dy);
             (x, y) = blown_loop md halt rs 0 x0 y0 dx dy (nat cnt)
         in s32 ((x * 65536) OR y)))"

section \<open>The line of a ranged attack\<close>

record shootpath_data =
  sp_rx :: int
  sp_ry :: int
  sp_len :: int
  sp_x :: "int list"
  sp_y :: "int list"

text \<open>One round of the loop body up to the position it reaches: \<open>(x0, y0, wx, wy)\<close>.\<close>

definition line_step :: "int \<Rightarrow> int \<Rightarrow> int \<Rightarrow> int \<times> int \<times> int \<times> int \<Rightarrow> int \<times> int \<times> int \<times> int" where
  "line_step dx dy weight = (\<lambda>(x0, y0, wx, wy).
     (let wx = wx + dx; wy = wy + dy;
          (wx, x0) = (if wx \<ge> weight then (wx - weight, s16 (x0 + 1)) else (wx, x0));
          (wy, y0) = (if wy \<ge> weight then (wy - weight, s16 (y0 + 1))
                      else if wy < 0 then (wy + weight, s16 (y0 - 1)) else (wy, y0))
      in (x0, y0, wx, wy)))"

text \<open>\<open>spd->x[spd->len] = x0; spd->y[spd->len] = y0; spd->len++\<close> while there is room.\<close>

definition spd_record :: "shootpath_data \<Rightarrow> int \<Rightarrow> int \<Rightarrow> shootpath_data" where
  "spd_record spd x y =
     (if sp_len spd < MAX_WALKPATH
      then spd\<lparr>sp_x := (sp_x spd)[nat (sp_len spd) := x], sp_y := (sp_y spd)[nat (sp_len spd) := y],
               sp_len := sp_len spd + 1\<rparr>
      else spd)"

partial_function (option) line_loop ::
  "map_data \<Rightarrow> cell_chk \<Rightarrow> int \<Rightarrow> int \<Rightarrow> int \<Rightarrow> int \<Rightarrow> int \<Rightarrow> int \<times> int \<times> int \<times> int \<Rightarrow> shootpath_data
     \<Rightarrow> (bool \<times> shootpath_data) option" where
  [code]: "line_loop md chk x1 y1 dx dy weight p spd =
     (if fst p \<noteq> x1 \<or> fst (snd p) \<noteq> y1 then
        (let p = line_step dx dy weight p; spd = spd_record spd (fst p) (fst (snd p)) in
         if cellp md (fst p) (fst (snd p)) chk then Some (False, spd)
         else line_loop md chk x1 y1 dx dy weight p spd)
      else Some (True, spd))"

definition path_search_long ::
  "map_data \<Rightarrow> shootpath_data \<Rightarrow> int \<Rightarrow> int \<Rightarrow> int \<Rightarrow> int \<Rightarrow> cell_chk \<Rightarrow> (bool \<times> shootpath_data) option" where
  "path_search_long md spd x0 y0 x1 y1 chk =
     (if cell md = [] then Some (False, spd)
      else
        (let swp = x1 - x0 < 0;
             (x0, x1) = (if swp then (x1, x0) else (x0, x1));
             (y0, y1) = (if swp then (y1, y0) else (y0, y1));
             dx = x1 - x0;
             dy = y1 - y0;
             spd = spd\<lparr>sp_rx := 0, sp_ry := 0, sp_len := 1, sp_x := (sp_x spd)[0 := x0],
                       sp_y := (sp_y spd)[0 := y0]\<rparr>;
             (weight, spd) = (if dx > \<bar>dy\<bar> then (dx, spd\<lparr>sp_ry := 1\<rparr>)
                              else (\<bar>y1 - y0\<bar>, spd\<lparr>sp_rx := 1\<rparr>))
         in line_loop md chk x1 y1 dx dy weight (x0, y0, 0, 0) spd))"

section \<open>A* nodes\<close>

record path_node =
  parent :: "nat option"
  nx :: int
  ny :: int
  g_cost :: int
  f_cost :: int
  flag :: int

record astar =
  tp :: "path_node list"
  open_set :: "nat list"

definition zero_node :: path_node where
  "zero_node = \<lparr>parent = None, nx = 0, ny = 0, g_cost = 0, f_cost = 0, flag = 0\<rparr>"

definition NODE_MINTOPCMP :: "path_node list \<Rightarrow> nat \<Rightarrow> nat \<Rightarrow> int" where
  "NODE_MINTOPCMP t i j = f_cost (t ! i) - f_cost (t ! j)"

definition calc_index :: "int \<Rightarrow> int \<Rightarrow> nat" where
  "calc_index x y = nat ((x + y * MAX_WALKPATH) mod (MAX_WALKPATH * MAX_WALKPATH))"

definition heuristic :: "int \<Rightarrow> int \<Rightarrow> int \<Rightarrow> int \<Rightarrow> int" where
  "heuristic x0 y0 x1 y1 = MOVE_COST * (\<bar>x1 - x0\<bar> + \<bar>y1 - y0\<bar>)"

definition heap_push_node :: "astar \<Rightarrow> nat \<Rightarrow> astar" where
  "heap_push_node s i = s\<lparr>open_set := BHEAP_PUSH2 (NODE_MINTOPCMP (tp s)) (open_set s) i\<rparr>"

definition heap_update_node :: "astar \<Rightarrow> nat \<Rightarrow> int \<times> astar" where
  "heap_update_node s node =
     (let h = open_set s; i = arr_find 0 (length h) (\<lambda>i. h ! i = node) in
      if i = length h then (1, s)
      else (0, s\<lparr>open_set := BHEAP_UPDATE (NODE_MINTOPCMP (tp s)) h i\<rparr>))"

definition set_node :: "astar \<Rightarrow> nat \<Rightarrow> path_node \<Rightarrow> astar" where
  "set_node s i n = s\<lparr>tp := (tp s)[i := n]\<rparr>"

definition add_path :: "astar \<Rightarrow> int \<Rightarrow> int \<Rightarrow> int \<Rightarrow> nat \<Rightarrow> int \<Rightarrow> int \<times> astar" where
  "add_path s x y g pa h =
     (let i = calc_index x y; n = tp s ! i in
      if nx n = x \<and> ny n = y then
        (if g < g_cost n then
           (let s1 = set_node s i (n\<lparr>g_cost := s16 g, parent := Some pa, f_cost := s16 (g + h)\<rparr>) in
            if flag n = SET_CLOSED then
              (let s2 = heap_push_node s1 i in (0, set_node s2 i ((tp s2 ! i)\<lparr>flag := SET_OPEN\<rparr>)))
            else
              (let (e, s2) = heap_update_node s1 i in
               if e \<noteq> 0 then (1, s2) else (0, set_node s2 i ((tp s2 ! i)\<lparr>flag := SET_OPEN\<rparr>))))
         else (0, s))
      else if nx n \<noteq> 0 \<or> ny n \<noteq> 0 then (1, s)
      else (0, heap_push_node (set_node s i \<lparr>parent = Some pa, nx = s16 x, ny = s16 y, g_cost = s16 g,
              f_cost = s16 (g + h), flag = SET_OPEN\<rparr>) i))"

section \<open>The A* search\<close>

text \<open>
  The neighbours of a cell in the order the code tries them: whether the step is allowed
  (\<open>chk_dir\<close> over \<open>allowed_dirs\<close>, and the diagonal cell itself), the coordinates, the cost.
\<close>

definition path_neighbours :: "map_data \<Rightarrow> cell_chk \<Rightarrow> int \<Rightarrow> int \<Rightarrow> (bool \<times> int \<times> int \<times> int) list" where
  "path_neighbours md chk x y =
     (let xs = xs md - 1; ys = ys md - 1;
          n = (y < ys \<and> \<not> cellp md x (y + 1) chk);
          s = (y > 0 \<and> \<not> cellp md x (y - 1) chk);
          e = (x < xs \<and> \<not> cellp md (x + 1) y chk);
          w = (x > 0 \<and> \<not> cellp md (x - 1) y chk)
      in [(s \<and> e \<and> \<not> cellp md (x + 1) (y - 1) chk, x + 1, y - 1, MOVE_DIAGONAL_COST),
          (e, x + 1, y, MOVE_COST),
          (n \<and> e \<and> \<not> cellp md (x + 1) (y + 1) chk, x + 1, y + 1, MOVE_DIAGONAL_COST),
          (n, x, y + 1, MOVE_COST),
          (n \<and> w \<and> \<not> cellp md (x - 1) (y + 1) chk, x - 1, y + 1, MOVE_DIAGONAL_COST),
          (w, x - 1, y, MOVE_COST),
          (s \<and> w \<and> \<not> cellp md (x - 1) (y - 1) chk, x - 1, y - 1, MOVE_DIAGONAL_COST),
          (s, x, y - 1, MOVE_COST)])"

fun path_expand :: "int \<Rightarrow> int \<Rightarrow> nat \<Rightarrow> int \<Rightarrow> (bool \<times> int \<times> int \<times> int) list \<Rightarrow> int \<Rightarrow> astar \<Rightarrow> int \<times> astar" where
  "path_expand x1 y1 cur g [] e s = (e, s)"
| "path_expand x1 y1 cur g ((ok, x, y, c) # rest) e s =
     (if ok then
        (let (r, s) = add_path s x y (g + c) cur (heuristic x y x1 y1)
         in path_expand x1 y1 cur g rest (e + r) s)
      else path_expand x1 y1 cur g rest e s)"

text \<open>Take the top of the open set off and close it.\<close>

definition astar_pop :: "astar \<Rightarrow> nat \<times> astar" where
  "astar_pop s =
     (let cur = BHEAP_PEEK (open_set s);
          s1 = s\<lparr>open_set := BHEAP_POP2 (NODE_MINTOPCMP (tp s)) (open_set s)\<rparr>
      in (cur, set_node s1 cur ((tp s1 ! cur)\<lparr>flag := SET_CLOSED\<rparr>)))"

text \<open>\<open>Some None\<close>: no path; \<open>Some (Some (tp, current))\<close>: the goal was taken off the open set.\<close>

partial_function (option) astar_loop ::
  "map_data \<Rightarrow> cell_chk \<Rightarrow> int \<Rightarrow> int \<Rightarrow> astar \<Rightarrow> (path_node list \<times> nat) option option" where
  [code]: "astar_loop md chk x1 y1 s =
     (if length (open_set s) = 0 then Some None
      else
        (let (cur, s) = astar_pop s; x = nx (tp s ! cur); y = ny (tp s ! cur) in
         if x = x1 \<and> y = y1 then Some (Some (tp s, cur))
         else
           (let (e, s) = path_expand x1 y1 cur (g_cost (tp s ! cur)) (path_neighbours md chk x y) 0 s in
            if e \<noteq> 0 then Some None else astar_loop md chk x1 y1 s)))"

definition astar_start :: "int \<Rightarrow> int \<Rightarrow> int \<Rightarrow> int \<Rightarrow> astar" where
  "astar_start x0 y0 x1 y1 =
     (let i = calc_index x0 y0;
          t = (replicate (nat (MAX_WALKPATH * MAX_WALKPATH)) zero_node)
                [i := \<lparr>parent = None, nx = x0, ny = y0, g_cost = 0,
                       f_cost = s16 (heuristic x0 y0 x1 y1), flag = SET_OPEN\<rparr>]
      in heap_push_node \<lparr>tp = t, open_set = []\<rparr> i)"

text \<open>The two loops over the parent pointers: the length of the path, and its directions.\<close>

partial_function (option) path_count :: "path_node list \<Rightarrow> nat \<Rightarrow> nat option" where
  [code]: "path_count t it =
     (case parent (t ! it) of None \<Rightarrow> Some 0
      | Some p \<Rightarrow> Option.bind (path_count t p) (\<lambda>n. Some (Suc n)))"

fun path_write :: "path_node list \<Rightarrow> nat \<Rightarrow> nat \<Rightarrow> int list \<Rightarrow> int list" where
  "path_write t it 0 path = path"
| "path_write t it (Suc j) path =
     (case parent (t ! it) of
        None \<Rightarrow> path
      | Some p \<Rightarrow> path_write t p j (path[j := walk_choice (nx (t ! it) - nx (t ! p)) (ny (t ! it) - ny (t ! p))]))"

record walkpath_data =
  path_len :: int
  path_pos :: int
  path :: "int list"

text \<open>The easy path: diagonally first, then straight.\<close>

function easy_loop :: "map_data \<Rightarrow> cell_chk \<Rightarrow> int \<Rightarrow> int \<Rightarrow> nat \<Rightarrow> int \<Rightarrow> int \<Rightarrow> int \<Rightarrow> int \<Rightarrow> int list
    \<Rightarrow> nat \<times> int \<times> int \<times> int list" where
  "easy_loop md chk x1 y1 i x y dx dy pth =
     (if i < nat MAX_WALKPATH then
        (let pth = pth[i := walk_choice dx dy]; i = Suc i; x = x + dx; y = y + dy;
             dx = (if x = x1 then 0 else dx); dy = (if y = y1 then 0 else dy) in
         if dx = 0 \<and> dy = 0 then (i, x, y, pth)
         else if cellp md x y chk then (i, x, y, pth)
         else easy_loop md chk x1 y1 i x y dx dy pth)
      else (i, x, y, pth))"
  by pat_completeness auto
termination
  by (relation "measure (\<lambda>(md, chk, x1, y1, i, r). nat MAX_WALKPATH - i)") auto

declare easy_loop.simps [simp del]

definition path_search ::
  "map_data \<Rightarrow> walkpath_data \<Rightarrow> int \<Rightarrow> int \<Rightarrow> int \<Rightarrow> int \<Rightarrow> int \<Rightarrow> cell_chk \<Rightarrow> (bool \<times> walkpath_data) option" where
  "path_search md wpd x0 y0 x1 y1 fl chk =
     (if cell md = [] then Some (False, wpd)
      else if x0 < 0 \<or> x0 \<ge> xs md \<or> y0 < 0 \<or> y0 \<ge> ys md then Some (False, wpd)
      else if x1 < 0 \<or> x1 \<ge> xs md \<or> y1 < 0 \<or> y1 \<ge> ys md \<or> cellp md x1 y1 chk then Some (False, wpd)
      else if odd fl then
        (let (i, x, y, p) = easy_loop md chk x1 y1 0 x0 y0 (sgn (x1 - x0)) (sgn (y1 - y0)) (path wpd);
             wpd = wpd\<lparr>path := p\<rparr> in
         if x = x1 \<and> y = y1 then Some (True, wpd\<lparr>path_len := int i, path_pos := 0\<rparr>)
         else Some (False, wpd))
      else
        (case astar_loop md chk x1 y1 (astar_start x0 y0 x1 y1) of
           None \<Rightarrow> None
         | Some None \<Rightarrow> Some (False, wpd)
         | Some (Some (t, current)) \<Rightarrow>
             (case path_count t current of
                None \<Rightarrow> None
              | Some len \<Rightarrow>
                  if int len > MAX_WALKPATH then Some (False, wpd)
                  else Some (True, wpd\<lparr>path_len := int len, path_pos := 0,
                         path := path_write t current len (path wpd)\<rparr>))))"

section \<open>Distances\<close>

text \<open>\<open>CIRCULAR_AREA\<close> is off, as in the default build.\<close>

definition check_distance :: "int \<Rightarrow> int \<Rightarrow> int \<Rightarrow> bool" where
  "check_distance dx dy distance =
     (let dx = (if dx < 0 then s32 (- dx) else dx); dy = (if dy < 0 then s32 (- dy) else dy)
      in (if dx < dy then dy else dx) \<le> distance)"

definition distance :: "int \<Rightarrow> int \<Rightarrow> int" where
  "distance dx dy =
     (let dx = (if dx < 0 then s32 (- dx) else dx); dy = (if dy < 0 then s32 (- dy) else dy)
      in u32 (if dx < dy then dy else dx))"

end
