(* ===== verification/PathWalk.thy ===== *)
theory PathWalk imports Path begin

text \<open>
  The specification of a walk over cells, and the tree of nodes that the A* search builds.
\<close>

section \<open>What a walk is\<close>

text \<open>The direction tables of \<^verbatim>\<open>src/map/unit.c\<close>, which the walking code follows.\<close>

definition dirx :: "int list" where "dirx = [0, -1, -1, -1, 0, 1, 1, 1]"
definition diry :: "int list" where "diry = [1, 1, 0, -1, -1, -1, 0, 1]"

text \<open>
  The specification of one step: to an adjacent cell that is on the map and not blocked, and
  diagonally only when both cells beside the diagonal are free.
\<close>

definition walk_step :: "map_data \<Rightarrow> cell_chk \<Rightarrow> int \<Rightarrow> int \<Rightarrow> int \<Rightarrow> int \<Rightarrow> bool" where
  "walk_step md chk x y x' y' \<longleftrightarrow>
     (x' \<noteq> x \<or> y' \<noteq> y) \<and> \<bar>x' - x\<bar> \<le> 1 \<and> \<bar>y' - y\<bar> \<le> 1 \<and> in_map md x' y' \<and> \<not> cellp md x' y' chk
     \<and> (x' \<noteq> x \<and> y' \<noteq> y \<longrightarrow> \<not> cellp md x' y chk \<and> \<not> cellp md x y' chk)"

fun walk_ok :: "map_data \<Rightarrow> cell_chk \<Rightarrow> int \<Rightarrow> int \<Rightarrow> int list \<Rightarrow> int \<Rightarrow> int \<Rightarrow> bool" where
  "walk_ok md chk x y [] x1 y1 \<longleftrightarrow> x = x1 \<and> y = y1"
| "walk_ok md chk x y (d # ds) x1 y1 \<longleftrightarrow>
     0 \<le> d \<and> d < 8 \<and> walk_step md chk x y (x + dirx ! nat d) (y + diry ! nat d)
     \<and> walk_ok md chk (x + dirx ! nat d) (y + diry ! nat d) ds x1 y1"

lemma walk_ok_snoc:
  "walk_ok md chk x y ds x' y' \<Longrightarrow> 0 \<le> d \<Longrightarrow> d < 8 \<Longrightarrow>
   walk_step md chk x' y' (x' + dirx ! nat d) (y' + diry ! nat d) \<Longrightarrow>
   walk_ok md chk x y (ds @ [d]) (x' + dirx ! nat d) (y' + diry ! nat d)"
  by (induction ds arbitrary: x y) auto

lemma walk_choice_dir:
  assumes "dx \<in> {-1, 0, 1}" "dy \<in> {-1, 0, 1}" "dx \<noteq> 0 \<or> dy \<noteq> 0"
  shows "0 \<le> walk_choice dx dy \<and> walk_choice dx dy < 8
    \<and> dirx ! nat (walk_choice dx dy) = dx \<and> diry ! nat (walk_choice dx dy) = dy"
  using assms by (elim insertE) (auto simp: walk_choice_def walk_choices_def dirx_def diry_def)

lemma walk_step_dir:
  assumes "walk_step md chk x y x' y'"
  shows "0 \<le> walk_choice (x' - x) (y' - y) \<and> walk_choice (x' - x) (y' - y) < 8
    \<and> x + dirx ! nat (walk_choice (x' - x) (y' - y)) = x'
    \<and> y + diry ! nat (walk_choice (x' - x) (y' - y)) = y'"
proof -
  have "x' - x \<in> {-1, 0, 1}" "y' - y \<in> {-1, 0, 1}" "x' - x \<noteq> 0 \<or> y' - y \<noteq> 0"
    using assms by (auto simp: walk_step_def)
  from walk_choice_dir [OF this] show ?thesis by auto
qed

lemma neighbours_step:
  assumes "(True, x', y', c) \<in> set (path_neighbours md chk x y)" "in_map md x y"
  shows "walk_step md chk x y x' y' \<and> 0 < c \<and> c \<le> 14"
  using assms by (auto simp: path_neighbours_def walk_step_def in_map_def Let_def MOVE_COST_def
      MOVE_DIAGONAL_COST_def)

section \<open>The search tree\<close>

definition used :: "path_node \<Rightarrow> bool" where
  "used n \<longleftrightarrow> nx n \<noteq> 0 \<or> ny n \<noteq> 0"

definition used_set :: "path_node list \<Rightarrow> nat set" where
  "used_set t = {i. i < length t \<and> used (t ! i)}"

definition parent_ok :: "map_data \<Rightarrow> cell_chk \<Rightarrow> int \<Rightarrow> int \<Rightarrow> path_node list \<Rightarrow> path_node \<Rightarrow> bool" where
  "parent_ok md chk x0 y0 t n \<longleftrightarrow>
     (case parent n of None \<Rightarrow> nx n = x0 \<and> ny n = y0
      | Some p \<Rightarrow> p \<in> used_set t \<and> walk_step md chk (nx (t ! p)) (ny (t ! p)) (nx n) (ny n)
          \<and> g_cost (t ! p) < g_cost n)"

definition node_ok :: "map_data \<Rightarrow> path_node list \<Rightarrow> nat \<Rightarrow> bool" where
  "node_ok md t i \<longleftrightarrow> calc_index (nx (t ! i)) (ny (t ! i)) = i \<and> in_map md (nx (t ! i)) (ny (t ! i))
     \<and> 0 \<le> g_cost (t ! i) \<and> g_cost (t ! i) \<le> 14 * (int (card (used_set t)) - 1)"

definition tree_ok :: "map_data \<Rightarrow> cell_chk \<Rightarrow> int \<Rightarrow> int \<Rightarrow> path_node list \<Rightarrow> bool" where
  "tree_ok md chk x0 y0 t \<longleftrightarrow> length t = 1024
     \<and> (\<forall>i < length t. if used (t ! i) then node_ok md t i \<and> parent_ok md chk x0 y0 t (t ! i)
                       else g_cost (t ! i) = 0)"

lemma used_set_finite [simp]: "finite (used_set t)"
  by (simp add: used_set_def)

lemma used_set_less: "i \<in> used_set t \<Longrightarrow> i < length t"
  by (simp add: used_set_def)

lemma tree_node: "tree_ok md chk x0 y0 t \<Longrightarrow> i \<in> used_set t \<Longrightarrow>
   node_ok md t i \<and> parent_ok md chk x0 y0 t (t ! i)"
  by (simp add: tree_ok_def used_set_def)

lemma used_set_same: "i \<in> used_set t \<Longrightarrow> nx n = nx (t ! i) \<Longrightarrow> ny n = ny (t ! i) \<Longrightarrow> used_set (t[i := n]) = used_set t"
  by (auto simp: used_set_def used_def nth_list_update)

text \<open>Lowering a node's cost and giving it a better parent keeps the tree.\<close>

lemma tree_upd:
  assumes t: "tree_ok md chk x0 y0 t" and i: "i \<in> used_set t"
    and n: "nx n = nx (t ! i)" "ny n = ny (t ! i)" "0 \<le> g_cost n" "g_cost n \<le> g_cost (t ! i)"
    and p: "parent_ok md chk x0 y0 t n"
  shows "tree_ok md chk x0 y0 (t[i := n])"
proof -
  let ?t = "t[i := n]"
  have U: "used_set ?t = used_set t" using used_set_same i n by blast
  have il: "i < length t" using i used_set_less by blast
  have g: "g_cost (?t ! j) \<le> g_cost (t ! j)" "nx (?t ! j) = nx (t ! j)" "ny (?t ! j) = ny (t ! j)" for j
    using n il by (cases "j = i"; simp)+
  have u: "used (?t ! j) = used (t ! j)" for j using g(2,3) by (simp add: used_def)
  have P: "parent_ok md chk x0 y0 ?t m" if "parent_ok md chk x0 y0 t m" for m
    using that g U by (auto simp: parent_ok_def split: option.splits intro: le_less_trans)
  have "if used (?t ! j) then node_ok md ?t j \<and> parent_ok md chk x0 y0 ?t (?t ! j) else g_cost (?t ! j) = 0"
    if j: "j < length ?t" for j
  proof (cases "used (t ! j)")
    case True
    then have ok: "node_ok md t j \<and> parent_ok md chk x0 y0 t (t ! j)"
      using t j by (simp add: tree_ok_def)
    have "node_ok md ?t j" using ok n il g by (cases "j = i") (auto simp: node_ok_def U)
    moreover have "parent_ok md chk x0 y0 ?t (?t ! j)"
      using ok p P il by (cases "j = i") auto
    ultimately show ?thesis using True u by simp
  next
    case False
    then have "j \<noteq> i" using i by (auto simp: used_set_def)
    then show ?thesis using False t j u by (simp add: tree_ok_def)
  qed
  then show ?thesis using t by (simp add: tree_ok_def)
qed

text \<open>A new node hangs below a node of the tree.\<close>

lemma tree_new:
  assumes t: "tree_ok md chk x0 y0 t" and i: "i < length t" "\<not> used (t ! i)"
    and n: "used n" "calc_index (nx n) (ny n) = i" "in_map md (nx n) (ny n)"
    and p: "parent n = Some p" "p \<in> used_set t" "walk_step md chk (nx (t ! p)) (ny (t ! p)) (nx n) (ny n)"
    and g: "g_cost (t ! p) < g_cost n" "g_cost n \<le> g_cost (t ! p) + 14"
  shows "tree_ok md chk x0 y0 (t[i := n])"
proof -
  let ?t = "t[i := n]"
  have U: "used_set ?t = insert i (used_set t)"
    using i n by (auto simp: used_set_def nth_list_update)
  have iU: "i \<notin> used_set t" using i by (simp add: used_set_def)
  have c: "int (card (used_set ?t)) = int (card (used_set t)) + 1" using U iU by simp
  have np: "node_ok md t p" using tree_node [OF t p(2)] by simp
  have pi: "p \<noteq> i" using iU p(2) by blast
  have P: "parent_ok md chk x0 y0 ?t m" if "parent_ok md chk x0 y0 t m" for m
    using that U iU by (auto simp: parent_ok_def split: option.splits) (metis nth_list_update_neq)+
  have "if used (?t ! j) then node_ok md ?t j \<and> parent_ok md chk x0 y0 ?t (?t ! j) else g_cost (?t ! j) = 0"
    if j: "j < length ?t" for j
  proof (cases "j = i")
    case True
    have "node_ok md ?t i" using n np g i c by (simp add: node_ok_def)
    moreover have "parent_ok md chk x0 y0 ?t n" using p pi g U by (simp add: parent_ok_def)
    ultimately show ?thesis using True i n by simp
  next
    case False
    then show ?thesis using t j P c by (auto simp: tree_ok_def node_ok_def)
  qed
  then show ?thesis using t by (simp add: tree_ok_def)
qed

end
