(* ===== verification/PathSearch.thy ===== *)
theory PathSearch imports PathWalk begin

text \<open>
  One step of the A* search keeps its tree and lowers a weight, so the loop ends.
\<close>

section \<open>One search step keeps the tree\<close>

definition astar_ok :: "map_data \<Rightarrow> cell_chk \<Rightarrow> int \<Rightarrow> int \<Rightarrow> astar \<Rightarrow> bool" where
  "astar_ok md chk x0 y0 s \<longleftrightarrow> tree_ok md chk x0 y0 (tp s) \<and> set (open_set s) \<subseteq> used_set (tp s)"

text \<open>What still can happen: every push lowers the weight of one node, every pop shortens the heap.\<close>

definition node_weight :: "path_node \<Rightarrow> nat" where
  "node_weight n = (if used n then nat (g_cost n) else 15000)"

definition astar_measure :: "astar \<Rightarrow> nat" where
  "astar_measure s = 2 * sum_list (map node_weight (tp s)) + length (open_set s)"

lemma calc_index_less: "calc_index x y < 1024"
  by (simp add: calc_index_def MAX_WALKPATH_def nat_less_iff)

lemma sum_list_upd_less:
  fixes f :: "'a \<Rightarrow> nat"
  shows "i < length t \<Longrightarrow> f n < f (t ! i) \<Longrightarrow> sum_list (map f (t[i := n])) < sum_list (map f t)"
proof (induction t arbitrary: i)
  case (Cons a t)
  then show ?case by (cases i) auto
qed simp

lemma sum_list_upd_eq:
  fixes f :: "'a \<Rightarrow> nat"
  shows "f n = f (t ! i) \<Longrightarrow> sum_list (map f (t[i := n])) = sum_list (map f t)"
proof (induction t arbitrary: i)
  case (Cons a t)
  then show ?case by (cases i) auto
qed simp

lemma tree_flag:
  assumes "tree_ok md chk x0 y0 t" "i \<in> used_set t"
  shows "tree_ok md chk x0 y0 (t[i := (t ! i)\<lparr>flag := f\<rparr>])"
  using tree_upd [OF assms, of "(t ! i)\<lparr>flag := f\<rparr>"] tree_node [OF assms]
  by (auto simp: node_ok_def parent_ok_def split: option.splits)

lemma weight_flag: "sum_list (map node_weight (t[i := (t ! i)\<lparr>flag := f\<rparr>])) = sum_list (map node_weight t)"
  by (rule sum_list_upd_eq) (simp add: node_weight_def used_def)

lemma push2_set: "set (BHEAP_PUSH2 cmp h x) = insert x (set h)"
  "length (BHEAP_PUSH2 cmp h x) = Suc (length h)"
  using bheap_push2_mset [of cmp h x] by (metis set_mset_add_mset_insert set_mset_mset) (metis bheap_push2_mset size_add_mset size_mset)

lemma update_set:
  assumes "i < length h"
  shows "set (BHEAP_UPDATE cmp h i) = set h \<and> length (BHEAP_UPDATE cmp h i) = length h"
  using bheap_update_mset [OF assms, of cmp] mset_eq_setD mset_eq_length by blast

lemma heap_update_node_facts:
  assumes "heap_update_node s i = (e, s')"
  shows "tp s' = tp s \<and> set (open_set s') = set (open_set s) \<and> length (open_set s') = length (open_set s)"
proof -
  let ?i = "arr_find 0 (length (open_set s)) (\<lambda>k. open_set s ! k = i)"
  have le: "?i \<le> length (open_set s)" by (rule arr_find_le) simp
  show ?thesis
  proof (cases "?i = length (open_set s)")
    case True
    then show ?thesis using assms by (simp add: heap_update_node_def Let_def)
  next
    case False
    then have "s' = s\<lparr>open_set := BHEAP_UPDATE (NODE_MINTOPCMP (tp s)) (open_set s) ?i\<rparr>"
      using assms by (simp add: heap_update_node_def Let_def)
    moreover have "?i < length (open_set s)" using False le by simp
    ultimately show ?thesis using update_set by simp
  qed
qed

text \<open>
  \<open>add_path\<close> from a closed node \<open>cur\<close>: the tree stays one, nothing it knew moves, the measure
  does not grow, and the node \<open>cur\<close> itself is not touched.
\<close>

lemma add_path_ok:
  assumes ok: "astar_ok md chk x0 y0 s" and md: "map_wf md" and cur: "cur \<in> used_set (tp s)"
    and st: "walk_step md chk (nx (tp s ! cur)) (ny (tp s ! cur)) x y"
    and c: "0 < c" "c \<le> 14"
    and res: "add_path s x y (g_cost (tp s ! cur) + c) cur h = (r, s')"
  shows "astar_ok md chk x0 y0 s' \<and> astar_measure s' \<le> astar_measure s
    \<and> cur \<in> used_set (tp s') \<and> tp s' ! cur = tp s ! cur"
proof -
  let ?t = "tp s" and ?i = "calc_index x y" and ?g = "g_cost (tp s ! cur) + c"
  let ?n = "tp s ! calc_index x y"
  have t: "tree_ok md chk x0 y0 ?t" "set (open_set s) \<subseteq> used_set ?t" "length ?t = 1024"
    using ok by (simp_all add: astar_ok_def tree_ok_def)
  have il: "?i < length ?t" using calc_index_less t(3) by simp
  have nc: "node_ok md ?t cur" using tree_node [OF t(1) cur] by simp
  have "card (used_set ?t) \<le> card {..<1024::nat}"
    using t(3) by (intro card_mono) (auto simp: used_set_def)
  then have gb: "0 < ?g" "?g \<le> 14 * 1023 + 14" using nc c by (auto simp: node_ok_def)
  have g16: "s16 ?g = ?g" using gb by (simp add: cint_simps)
  have inm: "in_map md x y" using st by (simp add: walk_step_def)
  have xy16: "s16 x = x" "s16 y = y" using inm md by (auto simp: in_map_def map_wf_def cint_simps)
  consider (known) "nx ?n = x" "ny ?n = y" "?g < g_cost ?n"
    | (other) "s' = s"
    | (new) "\<not> (nx ?n = x \<and> ny ?n = y)" "nx ?n = 0" "ny ?n = 0"
    using res by (auto simp: add_path_def Let_def split: if_splits)
  then show ?thesis
  proof cases
    case other
    then show ?thesis using ok cur by simp
  next
    case known
    have iU: "?i \<in> used_set ?t" using known gb t(1) il by (auto simp: used_set_def tree_ok_def split: if_splits)
    have neq: "cur \<noteq> ?i" using known c by auto
    define n where "n = ?n\<lparr>g_cost := ?g, parent := Some cur, f_cost := s16 (?g + h)\<rparr>"
    define s1 where "s1 = set_node s ?i n"
    have t1: "tree_ok md chk x0 y0 (tp s1)"
      unfolding s1_def set_node_def using tree_upd [OF t(1) iU, of n] known gb cur st c
      by (simp add: n_def parent_ok_def)
    have U1: "used_set (tp s1) = used_set ?t"
      unfolding s1_def set_node_def using used_set_same [OF iU, of n] by (simp add: n_def)
    have w1: "sum_list (map node_weight (tp s1)) < sum_list (map node_weight ?t)"
    proof -
      have "used ?n" "used n" using iU by (simp_all add: used_set_def used_def n_def)
      then have "node_weight n < node_weight ?n" using known gb by (simp add: node_weight_def n_def)
      then show ?thesis unfolding s1_def set_node_def using sum_list_upd_less [OF il] by simp
    qed
    have c1: "tp s1 ! cur = ?t ! cur" unfolding s1_def set_node_def using neq by simp
    obtain s2 where s2: "tp s2 = tp s1" "set (open_set s2) \<subseteq> used_set ?t"
        "length (open_set s2) \<le> Suc (length (open_set s))"
        "s' = s2 \<or> s' = set_node s2 ?i ((tp s2 ! ?i)\<lparr>flag := SET_OPEN\<rparr>)"
    proof (cases "flag ?n = SET_CLOSED")
      case True
      then have "s' = set_node (heap_push_node s1 ?i) ?i ((tp (heap_push_node s1 ?i) ! ?i)\<lparr>flag := SET_OPEN\<rparr>)"
        using res known by (simp add: add_path_def Let_def g16 n_def s1_def)
      then show ?thesis using that [of "heap_push_node s1 ?i"] t(2) iU
        by (simp add: heap_push_node_def push2_set s1_def set_node_def)
    next
      case False
      obtain e s3 where e: "heap_update_node s1 ?i = (e, s3)" by fastforce
      have "s' = s3 \<or> s' = set_node s3 ?i ((tp s3 ! ?i)\<lparr>flag := SET_OPEN\<rparr>)"
        using res known False e by (auto simp: add_path_def Let_def g16 n_def s1_def split: if_splits)
      then show ?thesis using that [of s3] heap_update_node_facts [OF e] t(2)
        by (simp add: s1_def set_node_def)
    qed
    have iU1: "?i \<in> used_set (tp s1)" using iU U1 by simp
    have tp': "tp s' = tp s1 \<or> tp s' = (tp s1)[?i := (tp s1 ! ?i)\<lparr>flag := SET_OPEN\<rparr>]"
      and os': "open_set s' = open_set s2" using s2 by (auto simp: set_node_def)
    have "used_set (tp s') = used_set ?t"
      using tp' U1 used_set_same [OF iU1] by auto
    moreover have "tree_ok md chk x0 y0 (tp s')" using tp' t1 tree_flag [OF t1 iU1] by auto
    moreover have "tp s' ! cur = ?t ! cur" using tp' c1 neq by auto
    moreover have "sum_list (map node_weight (tp s')) = sum_list (map node_weight (tp s1))"
      using tp' weight_flag by metis
    ultimately show ?thesis using s2 os' w1 cur by (simp add: astar_ok_def astar_measure_def)
  next
    case new
    define n where "n = \<lparr>parent = Some cur, nx = x, ny = y, g_cost = ?g, f_cost = s16 (?g + h), flag = SET_OPEN\<rparr>"
    have s': "s' = heap_push_node (set_node s ?i n) ?i"
      using res new(1,2,3) by (auto simp: add_path_def Let_def g16 xy16 n_def)
    have un: "\<not> used ?n" "used n" using new by (auto simp: used_def n_def)
    have neq: "cur \<noteq> ?i" using cur un by (auto simp: used_set_def)
    have "tree_ok md chk x0 y0 (?t[?i := n])"
      using tree_new [OF t(1) il un] cur st c inm by (simp add: n_def)
    moreover have "used_set (?t[?i := n]) = insert ?i (used_set ?t)"
      using il un by (auto simp: used_set_def nth_list_update)
    moreover have "sum_list (map node_weight (?t[?i := n])) < sum_list (map node_weight ?t)"
      using sum_list_upd_less [OF il, of node_weight n] un gb by (simp add: node_weight_def n_def)
    ultimately show ?thesis using t(2) cur neq
      by (auto simp: s' heap_push_node_def set_node_def astar_ok_def astar_measure_def push2_set)
  qed
qed

lemma path_expand_ok:
  "astar_ok md chk x0 y0 s \<Longrightarrow> map_wf md \<Longrightarrow> cur \<in> used_set (tp s) \<Longrightarrow>
   (\<forall>(ok, x, y, c) \<in> set ns. ok \<longrightarrow> walk_step md chk (nx (tp s ! cur)) (ny (tp s ! cur)) x y \<and> 0 < c \<and> c \<le> 14) \<Longrightarrow>
   path_expand x1 y1 cur (g_cost (tp s ! cur)) ns e s = (e', s') \<Longrightarrow>
   astar_ok md chk x0 y0 s' \<and> astar_measure s' \<le> astar_measure s"
proof (induction ns arbitrary: e s)
  case (Cons a ns)
  obtain ok x y c where a: "a = (ok, x, y, c)" by (cases a) auto
  show ?case
  proof (cases ok)
    case False
    then show ?thesis using Cons a by simp
  next
    case True
    obtain r s2 where s2: "add_path s x y (g_cost (tp s ! cur) + c) cur (heuristic x y x1 y1) = (r, s2)"
      by fastforce
    have f: "astar_ok md chk x0 y0 s2 \<and> astar_measure s2 \<le> astar_measure s
        \<and> cur \<in> used_set (tp s2) \<and> tp s2 ! cur = tp s ! cur"
      using add_path_ok [OF Cons.prems(1-3) _ _ _ s2] Cons.prems(4) a True by auto
    then have "path_expand x1 y1 cur (g_cost (tp s2 ! cur)) ns (e + r) s2 = (e', s')"
      using Cons.prems(5) a True s2 by simp
    then have "astar_ok md chk x0 y0 s' \<and> astar_measure s' \<le> astar_measure s2"
      using Cons.IH [of s2 "e + r"] f Cons.prems by auto
    then show ?thesis using f by simp
  qed
qed simp

lemma astar_pop_ok:
  assumes ok: "astar_ok md chk x0 y0 s" and ne: "open_set s \<noteq> []" and pop: "astar_pop s = (cur, s')"
  shows "astar_ok md chk x0 y0 s' \<and> astar_measure s' < astar_measure s \<and> cur \<in> used_set (tp s')"
proof -
  let ?h = "open_set s"
  have c: "cur = ?h ! 0" "cur \<in> set ?h"
    using pop ne by (auto simp: astar_pop_def BHEAP_PEEK_def Let_def)
  then have cU: "cur \<in> used_set (tp s)" using ok by (auto simp: astar_ok_def)
  have s': "tp s' = (tp s)[cur := (tp s ! cur)\<lparr>flag := SET_CLOSED\<rparr>]"
    "open_set s' = BHEAP_POP2 (NODE_MINTOPCMP (tp s)) ?h"
    using pop by (auto simp: astar_pop_def set_node_def Let_def)
  have m: "mset (open_set s') = mset ?h - {#cur#}"
    using bheap_pop2_mset [OF ne] c s' by (simp add: BHEAP_PEEK_def)
  have "length (open_set s') = length ?h - 1"
    using m c by (metis size_Diff_singleton size_mset set_mset_mset)
  then have "length (open_set s') < length ?h" using ne by (cases ?h) auto
  moreover have "set (open_set s') \<subseteq> set ?h" using m by (metis in_diffD set_mset_mset subsetI)
  moreover have "used_set (tp s') = used_set (tp s)" using s' used_set_same [OF cU] by simp
  moreover have "tree_ok md chk x0 y0 (tp s')" using s' tree_flag cU ok by (simp add: astar_ok_def)
  ultimately show ?thesis using ok cU s' weight_flag by (auto simp: astar_ok_def astar_measure_def)
qed

text \<open>The search returns, and when it takes the goal off the open set the tree holds a path to it.\<close>

lemma astar_loop_total:
  assumes "astar_ok md chk x0 y0 s" "map_wf md"
  shows "\<exists>r. astar_loop md chk x1 y1 s = Some r \<and>
    (\<forall>t cur. r = Some (t, cur) \<longrightarrow> tree_ok md chk x0 y0 t \<and> cur \<in> used_set t \<and> nx (t ! cur) = x1 \<and> ny (t ! cur) = y1)"
  using assms
proof (induction "astar_measure s" arbitrary: s rule: less_induct)
  case less
  show ?case
  proof (cases "open_set s = []")
    case True
    then show ?thesis by (subst astar_loop.simps) simp
  next
    case False
    obtain cur s1 where pop: "astar_pop s = (cur, s1)" by fastforce
    have p: "astar_ok md chk x0 y0 s1" "astar_measure s1 < astar_measure s" "cur \<in> used_set (tp s1)"
      using astar_pop_ok [OF less.prems(1) False pop] by auto
    let ?x = "nx (tp s1 ! cur)" and ?y = "ny (tp s1 ! cur)"
    show ?thesis
    proof (cases "?x = x1 \<and> ?y = y1")
      case True
      then have "astar_loop md chk x1 y1 s = Some (Some (tp s1, cur))"
        using False by (subst astar_loop.simps) (simp add: pop Let_def)
      then show ?thesis using p True by (simp add: astar_ok_def)
    next
      case notgoal: False
      obtain e s2 where ex: "path_expand x1 y1 cur (g_cost (tp s1 ! cur)) (path_neighbours md chk ?x ?y) 0 s1 = (e, s2)"
        by fastforce
      have inm: "in_map md ?x ?y"
        using p tree_node by (auto simp: astar_ok_def node_ok_def)
      have q: "astar_ok md chk x0 y0 s2" "astar_measure s2 \<le> astar_measure s1"
        using path_expand_ok [OF p(1) less.prems(2) p(3) _ ex] neighbours_step [OF _ inm, of _ _ _ chk]
        by fastforce+
      have eq: "astar_loop md chk x1 y1 s = (if e \<noteq> 0 then Some None else astar_loop md chk x1 y1 s2)"
        using False notgoal by (subst astar_loop.simps) (auto simp: pop Let_def ex)
      show ?thesis
      proof (cases "e = 0")
        case True
        then show ?thesis using less.hyps [of s2] p q less.prems(2) eq by simp
      next
        case False
        then show ?thesis using eq by simp
      qed
    qed
  qed
qed

section \<open>Reading the path off the parents\<close>

lemma path_write_frame:
  "j \<le> k \<Longrightarrow> path_write t it j w ! k = w ! k \<and> length (path_write t it j w) = length w"
  by (induction j arbitrary: it w) (auto split: option.splits)

lemma path_count_total:
  assumes "tree_ok md chk x0 y0 t"
  shows "i \<in> used_set t \<Longrightarrow> \<exists>n. path_count t i = Some n \<and>
    (\<forall>w. n \<le> length w \<longrightarrow>
      walk_ok md chk x0 y0 (take n (path_write t i n w)) (nx (t ! i)) (ny (t ! i)))"
proof (induction "nat (g_cost (t ! i))" arbitrary: i rule: less_induct)
  case less
  have ok: "node_ok md t i" "parent_ok md chk x0 y0 t (t ! i)"
    using tree_node [OF assms less.prems] by auto
  show ?case
  proof (cases "parent (t ! i)")
    case None
    then have "path_count t i = Some 0" by (subst path_count.simps) simp
    then show ?thesis using ok(2) None by (simp add: parent_ok_def)
  next
    case (Some p)
    then have p: "p \<in> used_set t" "g_cost (t ! p) < g_cost (t ! i)"
      "walk_step md chk (nx (t ! p)) (ny (t ! p)) (nx (t ! i)) (ny (t ! i))"
      using ok(2) by (simp_all add: parent_ok_def)
    have "0 \<le> g_cost (t ! p)" using tree_node [OF assms p(1)] by (simp add: node_ok_def)
    then obtain n where n: "path_count t p = Some n"
      "\<And>w. n \<le> length w \<Longrightarrow> walk_ok md chk x0 y0 (take n (path_write t p n w)) (nx (t ! p)) (ny (t ! p))"
      using less.hyps [of p] p(1,2) by auto
    have "path_count t i = Some (Suc n)" using Some n by (subst path_count.simps) simp
    moreover have "walk_ok md chk x0 y0 (take (Suc n) (path_write t i (Suc n) w)) (nx (t ! i)) (ny (t ! i))"
      if w: "Suc n \<le> length w" for w
    proof -
      let ?d = "walk_choice (nx (t ! i) - nx (t ! p)) (ny (t ! i) - ny (t ! p))"
      let ?v = "path_write t p n (w[n := ?d])"
      have v: "path_write t i (Suc n) w = ?v" using Some by simp
      have "?v ! n = ?d" "length ?v = length w" using path_write_frame [of n n t p "w[n := ?d]"] w by auto
      then have "take (Suc n) ?v = take n ?v @ [?d]" using w by (simp add: take_Suc_conv_app_nth)
      moreover have "walk_ok md chk x0 y0 (take n ?v) (nx (t ! p)) (ny (t ! p))" using n(2) w by simp
      ultimately show ?thesis
        using walk_ok_snoc [of md chk x0 y0 "take n ?v" "nx (t ! p)" "ny (t ! p)" ?d] walk_step_dir [OF p(3)] p(3) v
        by simp
    qed
    ultimately show ?thesis by blast
  qed
qed

lemma astar_start_ok:
  assumes "map_wf md" "in_map md x0 y0" "x0 \<noteq> 0 \<or> y0 \<noteq> 0"
  shows "astar_ok md chk x0 y0 (astar_start x0 y0 x1 y1)"
proof -
  let ?i = "calc_index x0 y0"
  define n where "n = \<lparr>parent = None, nx = x0, ny = y0, g_cost = 0, f_cost = s16 (heuristic x0 y0 x1 y1), flag = SET_OPEN\<rparr>"
  let ?t = "(replicate 1024 zero_node)[?i := n]"
  have s: "tp (astar_start x0 y0 x1 y1) = ?t" "set (open_set (astar_start x0 y0 x1 y1)) = {?i}"
    by (simp_all add: astar_start_def heap_push_node_def Let_def n_def MAX_WALKPATH_def push2_set)
  have un: "used n" "\<not> used zero_node" using assms(3) by (simp_all add: used_def n_def zero_node_def)
  have U: "used_set ?t = {?i}"
    using un calc_index_less [of x0 y0] by (auto simp: used_set_def nth_list_update)
  have "node_ok md ?t ?i" "parent_ok md chk x0 y0 ?t n"
    using U calc_index_less [of x0 y0] assms(2) by (simp_all add: node_ok_def parent_ok_def n_def)
  moreover have "\<not> used (?t ! j) \<and> g_cost (?t ! j) = 0" if "j < 1024" "j \<noteq> ?i" for j
    using that by (simp add: used_def zero_node_def)
  moreover have "?t ! ?i = n" using calc_index_less by simp
  ultimately have "tree_ok md chk x0 y0 ?t"
    unfolding tree_ok_def using un(1) by (metis length_list_update length_replicate)
  then show ?thesis using s U by (simp add: astar_ok_def)
qed

section \<open>The easy path\<close>

text \<open>
  The diagonal-first path: each step of the loop is a move by \<open>(dx, dy)\<close>; on success every
  cell it enters before the goal is free.
\<close>

fun moves_free :: "map_data \<Rightarrow> cell_chk \<Rightarrow> int \<Rightarrow> int \<Rightarrow> int list \<Rightarrow> int \<Rightarrow> int \<Rightarrow> bool" where
  "moves_free md chk x y [] x1 y1 \<longleftrightarrow> x = x1 \<and> y = y1"
| "moves_free md chk x y (d # ds) x1 y1 \<longleftrightarrow> 0 \<le> d \<and> d < 8 \<and>
     (ds \<noteq> [] \<longrightarrow> \<not> cellp md (x + dirx ! nat d) (y + diry ! nat d) chk) \<and>
     moves_free md chk (x + dirx ! nat d) (y + diry ! nat d) ds x1 y1"

lemma easy_loop_ok:
  "easy_loop md chk x1 y1 i x y dx dy p = (j, x', y', p') \<Longrightarrow> x' = x1 \<Longrightarrow> y' = y1 \<Longrightarrow> length p = 32 \<Longrightarrow> i < 32 \<Longrightarrow>
   dx = sgn (x1 - x) \<Longrightarrow> dy = sgn (y1 - y) \<Longrightarrow> dx \<noteq> 0 \<or> dy \<noteq> 0 \<Longrightarrow>
   j \<le> 32 \<and> i < j \<and> length p' = 32 \<and> take i p' = take i p \<and> moves_free md chk x y (drop i (take j p')) x1 y1"
proof (induction md chk x1 y1 i x y dx dy p rule: easy_loop.induct)
  case (1 md chk x1 y1 i x y dx dy p)
  let ?d = "walk_choice dx dy"
  let ?p = "p[i := ?d]" and ?x = "x + dx" and ?y = "y + dy"
  let ?dx = "if ?x = x1 then 0 else dx" and ?dy = "if ?y = y1 then 0 else dy"
  have d: "0 \<le> ?d" "?d < 8" "dirx ! nat ?d = dx" "diry ! nat ?d = dy"
    using walk_choice_dir [of dx dy] "1.prems"(6-8) by (auto simp: sgn_if)
  have sg: "?dx = sgn (x1 - ?x)" "?dy = sgn (y1 - ?y)" using "1.prems"(6,7) by (auto simp: sgn_if)
  have i: "i < nat MAX_WALKPATH" using "1.prems"(5) by (simp add: MAX_WALKPATH_def)
  have eq: "easy_loop md chk x1 y1 i x y dx dy p =
    (if ?dx = 0 \<and> ?dy = 0 then (Suc i, ?x, ?y, ?p) else if cellp md ?x ?y chk then (Suc i, ?x, ?y, ?p)
     else easy_loop md chk x1 y1 (Suc i) ?x ?y ?dx ?dy ?p)"
    using i by (subst easy_loop.simps) (simp add: Let_def)
  have stop: ?case if eqs: "(j, x', y', p') = (Suc i, ?x, ?y, ?p)"
  proof -
    have j: "j = Suc i" "p' = ?p" using eqs by simp_all
    have m: "moves_free md chk x y [?d] x1 y1" using eqs d "1.prems"(2,3) by simp
    have "drop i (take (Suc i) ?p) = [?d]" using "1.prems"(4,5)
      by (simp add: take_Suc_conv_app_nth drop_take)
    then have "moves_free md chk x y (drop i (take j p')) x1 y1" unfolding j using m by (rule ssubst)
    moreover have "j \<le> 32" "i < j" "length p' = 32" "take i p' = take i p"
      unfolding j using "1.prems"(4,5) by simp_all
    ultimately show ?case by blast
  qed
  show ?case
  proof (cases "(?dx = 0 \<and> ?dy = 0) \<or> cellp md ?x ?y chk")
    case True
    then have "(j, x', y', p') = (Suc i, ?x, ?y, ?p)" using eq "1.prems"(1) by (metis (lifting))
    then show ?thesis by (rule stop)
  next
    case False
    then have rec: "easy_loop md chk x1 y1 (Suc i) ?x ?y ?dx ?dy ?p = (j, x', y', p')"
      using eq "1.prems"(1) by (metis (lifting))
    show ?thesis
    proof (cases "Suc i < 32")
      case i32: True
      have IH: "j \<le> 32 \<and> Suc i < j \<and> length p' = 32 \<and> take (Suc i) p' = take (Suc i) ?p
          \<and> moves_free md chk ?x ?y (drop (Suc i) (take j p')) x1 y1"
      proof (rule "1.IH" [OF i refl refl refl refl refl refl])
        show "\<not> (?dx = 0 \<and> ?dy = 0)" "\<not> cellp md ?x ?y chk" "?dx \<noteq> 0 \<or> ?dy \<noteq> 0"
          using False by (simp_all only: de_Morgan_disj) simp_all
      qed (use rec "1.prems"(2-4) sg i32 in \<open>simp_all only: length_list_update\<close>)
      have p'i: "p' ! i = ?d"
      proof -
        have "p' ! i = take (Suc i) p' ! i" by simp
        also have "\<dots> = ?d" using IH "1.prems"(4,5) by simp
        finally show ?thesis .
      qed
      have tk: "take i p' = take i p"
      proof -
        have "take i p' = take i (take (Suc i) p')" by simp
        also have "\<dots> = take i p" using IH by simp
        finally show ?thesis .
      qed
      have "drop i (take j p') = ?d # drop (Suc i) (take j p')"
        using IH p'i Cons_nth_drop_Suc [of i "take j p'"] by simp
      moreover have "drop (Suc i) (take j p') \<noteq> []" using IH by simp
      ultimately show ?thesis using IH tk d False by simp
    next
      case False
      then have "(j, x', y', p') = (Suc i, ?x, ?y, ?p)"
        using rec by (subst (asm) easy_loop.simps) (simp add: MAX_WALKPATH_def)
      then show ?thesis by (rule stop)
    qed
  qed
qed

end
