(* ===== verification/PathClaims.thy ===== *)
theory PathClaims imports PathSearch begin

text \<open>
  Lemmas on the searches of \<^verbatim>\<open>src/map/path.c\<close>: the A* search returns and its path is a legal walk; the
  loops of the line search and of the blown-away search.
\<close>

section \<open>The walking search\<close>

lemma path_search_astar:
  assumes "cell md \<noteq> []" "in_map md x0 y0" "in_map md x1 y1" "\<not> cellp md x1 y1 chk" "even fl"
  shows "path_search md wpd x0 y0 x1 y1 fl chk =
    (case astar_loop md chk x1 y1 (astar_start x0 y0 x1 y1) of
       None \<Rightarrow> None
     | Some None \<Rightarrow> Some (False, wpd)
     | Some (Some (t, current)) \<Rightarrow>
         (case path_count t current of
            None \<Rightarrow> None
          | Some len \<Rightarrow>
              if int len > MAX_WALKPATH then Some (False, wpd)
              else Some (True, wpd\<lparr>path_len := int len, path_pos := 0,
                     path := path_write t current len (path wpd)\<rparr>)))"
  using assms by (auto simp: path_search_def in_map_def)

lemma path_search_off_map:
  assumes "\<not> in_map md x0 y0 \<or> \<not> in_map md x1 y1 \<or> cellp md x1 y1 chk \<or> cell md = []"
  shows "path_search md wpd x0 y0 x1 y1 fl chk = Some (False, wpd)"
  using assms by (auto simp: path_search_def in_map_def)

lemma path_search_total_lemma:
  assumes md: "map_wf md" and start: "x0 \<noteq> 0 \<or> y0 \<noteq> 0"
  shows "\<exists>b w. path_search md wpd x0 y0 x1 y1 fl chk = Some (b, w) \<and>
    (even fl \<longrightarrow> b \<longrightarrow> length (path wpd) = 32 \<longrightarrow> 0 \<le> path_len w \<and> path_len w \<le> 32 \<and> (x1 \<noteq> 0 \<or> y1 \<noteq> 0) \<and>
       walk_ok md chk x0 y0 (take (nat (path_len w)) (path w)) x1 y1)"
proof (cases "in_map md x0 y0 \<and> in_map md x1 y1 \<and> \<not> cellp md x1 y1 chk \<and> cell md \<noteq> []")
  case False
  then show ?thesis using path_search_off_map by blast
next
  case T: True
  show ?thesis
  proof (cases "even fl")
    case False
    then show ?thesis using T by (auto simp: path_search_def in_map_def Let_def split: prod.splits)
  next
    case True
    have eq: "path_search md wpd x0 y0 x1 y1 fl chk =
      (case astar_loop md chk x1 y1 (astar_start x0 y0 x1 y1) of
         None \<Rightarrow> None | Some None \<Rightarrow> Some (False, wpd)
       | Some (Some (t, current)) \<Rightarrow>
         (case path_count t current of None \<Rightarrow> None
          | Some len \<Rightarrow> if int len > MAX_WALKPATH then Some (False, wpd)
              else Some (True, wpd\<lparr>path_len := int len, path_pos := 0,
                     path := path_write t current len (path wpd)\<rparr>)))"
      using path_search_astar T True by blast
    obtain r where r: "astar_loop md chk x1 y1 (astar_start x0 y0 x1 y1) = Some r"
      "\<And>t cur. r = Some (t, cur) \<Longrightarrow> tree_ok md chk x0 y0 t \<and> cur \<in> used_set t \<and> nx (t ! cur) = x1 \<and> ny (t ! cur) = y1"
    proof -
      have a: "astar_ok md chk x0 y0 (astar_start x0 y0 x1 y1)" using astar_start_ok [OF md _ start] T by blast
      from astar_loop_total [OF a md, of x1 y1] that show ?thesis by blast
    qed
    show ?thesis
    proof (cases r)
      case None
      then show ?thesis using eq r by (intro exI [of _ False] exI [of _ wpd]) simp
    next
      case (Some tc)
      obtain t cur where tc: "r = Some (t, cur)" using Some by (cases tc) auto
      have goal: "used (t ! cur)" "nx (t ! cur) = x1" "ny (t ! cur) = y1"
        using r(2) [OF tc] by (auto simp: used_set_def)
      obtain n where n: "path_count t cur = Some n"
        "\<And>w. n \<le> length w \<Longrightarrow> walk_ok md chk x0 y0 (take n (path_write t cur n w)) x1 y1"
        using path_count_total [of md chk x0 y0 t cur] r(2) [OF tc] by auto
      then show ?thesis using eq r tc goal by (auto simp: MAX_WALKPATH_def used_def)
    qed
  qed
qed

section \<open>The line of a ranged attack\<close>

text \<open>
  The specification of the line: the cells it enters are the points at
  \<open>k = 1, \<dots>, weight\<close> of the straight segment, rounded down; \<open>weight\<close> is the longer of
  its two extents.
\<close>

definition line_pt :: "int \<Rightarrow> int \<Rightarrow> int \<Rightarrow> int \<Rightarrow> int \<Rightarrow> int \<Rightarrow> int \<times> int" where
  "line_pt x0 y0 dx dy weight k = (x0 + (k * dx) div weight, y0 + (k * dy) div weight)"

lemma div_step:
  fixes a d w :: int
  assumes "0 < w" "\<bar>d\<bar> \<le> w"
  shows "(a + d) div w = (if a mod w + d \<ge> w then a div w + 1 else if a mod w + d < 0 then a div w - 1 else a div w)"
    and "(a + d) mod w = (if a mod w + d \<ge> w then a mod w + d - w else if a mod w + d < 0 then a mod w + d + w else a mod w + d)"
proof -
  define r where "r = a mod w"
  define q where "q = (if r + d \<ge> w then 1 else if r + d < 0 then -1 else (0::int))"
  have m: "0 \<le> r" "r < w" using assms by (simp_all add: r_def)
  have r: "0 \<le> r + d - q * w" "r + d - q * w < w" using m assms by (auto simp: q_def)
  have "a = a div w * w + r" by (simp add: r_def)
  then have e: "a + d = (r + d - q * w) + (a div w + q) * w" by (simp add: algebra_simps)
  have "(a + d) div w = a div w + q" using r assms by (subst e) (simp add: div_pos_pos_trivial)
  moreover have "(a + d) mod w = r + d - q * w" using r by (subst e) (simp add: mod_pos_pos_trivial)
  ultimately show "(a + d) div w = (if a mod w + d \<ge> w then a div w + 1 else if a mod w + d < 0 then a div w - 1 else a div w)"
    and "(a + d) mod w = (if a mod w + d \<ge> w then a mod w + d - w else if a mod w + d < 0 then a mod w + d + w else a mod w + d)"
    unfolding r_def [symmetric] by (auto simp: q_def)
qed

text \<open>One round of the loop moves from point \<open>k\<close> to point \<open>k + 1\<close>.\<close>

lemma line_step_pt:
  assumes w: "0 < w" "0 \<le> dx" "dx \<le> w" "\<bar>dy\<bar> \<le> w"
    and fx: "s16 (x0 + ((k + 1) * dx) div w) = x0 + ((k + 1) * dx) div w"
    and fy: "s16 (y0 + ((k + 1) * dy) div w) = y0 + ((k + 1) * dy) div w"
  shows "line_step dx dy w (fst (line_pt x0 y0 dx dy w k), snd (line_pt x0 y0 dx dy w k), (k * dx) mod w, (k * dy) mod w)
    = (fst (line_pt x0 y0 dx dy w (k + 1)), snd (line_pt x0 y0 dx dy w (k + 1)), ((k + 1) * dx) mod w, ((k + 1) * dy) mod w)"
proof -
  define rx qx ry qy where "rx = (k * dx) mod w" and "qx = (k * dx) div w"
    and "ry = (k * dy) mod w" and "qy = (k * dy) div w"
  have m: "0 \<le> rx" "0 \<le> ry" using w by (simp_all add: rx_def ry_def)
  have k: "(k + 1) * dx = k * dx + dx" "(k + 1) * dy = k * dy + dy" by (simp_all add: algebra_simps)
  have dxw: "\<bar>dx\<bar> \<le> w" using w by simp
  have X: "((k + 1) * dx) div w = (if rx + dx \<ge> w then qx + 1 else qx)"
    "((k + 1) * dx) mod w = (if rx + dx \<ge> w then rx + dx - w else rx + dx)"
    using div_step [OF w(1) dxw, of "k * dx"] m w(2) unfolding k rx_def qx_def by auto
  have Y: "((k + 1) * dy) div w = (if ry + dy \<ge> w then qy + 1 else if ry + dy < 0 then qy - 1 else qy)"
    "((k + 1) * dy) mod w = (if ry + dy \<ge> w then ry + dy - w else if ry + dy < 0 then ry + dy + w else ry + dy)"
    using div_step [OF w(1) w(4), of "k * dy"] unfolding k ry_def qy_def by auto
  show ?thesis using fx fy
    unfolding line_step_def line_pt_def Let_def X Y rx_def [symmetric] qx_def [symmetric] ry_def [symmetric] qy_def [symmetric]
    by (auto simp: algebra_simps split: if_splits)
qed

lemma div_between:
  fixes d w k :: int
  assumes "0 < w" "0 \<le> k" "k \<le> w"
  shows "0 \<le> d \<Longrightarrow> 0 \<le> (k * d) div w \<and> (k * d) div w \<le> d" "d \<le> 0 \<Longrightarrow> d \<le> (k * d) div w \<and> (k * d) div w \<le> 0"
proof -
  show "0 \<le> (k * d) div w \<and> (k * d) div w \<le> d" if "0 \<le> d"
  proof -
    have "k * d \<le> w * d" using assms that by (simp add: mult_right_mono)
    then have "(k * d) div w \<le> (w * d) div w" using assms(1) by (rule zdiv_mono1)
    moreover have "(w * d) div w = d" using assms(1) by simp
    ultimately show ?thesis using assms that by (simp add: pos_imp_zdiv_nonneg_iff)
  qed
  show "d \<le> (k * d) div w \<and> (k * d) div w \<le> 0" if "d \<le> 0"
  proof -
    have "w * d \<le> k * d" using assms that by (simp add: mult_right_mono_neg)
    then have "(w * d) div w \<le> (k * d) div w" using assms(1) by (rule zdiv_mono1)
    moreover have "(w * d) div w = d" using assms(1) by simp
    moreover have "(k * d) div w \<le> 0 div w"
      using assms that by (intro zdiv_mono1) (simp_all add: mult_nonneg_nonpos)
    ultimately show ?thesis using assms by simp
  qed
qed

text \<open>Before its last point the line has not arrived.\<close>

lemma line_pt_not_end:
  fixes k w dx dy :: int
  assumes "0 \<le> k" "k < w" "0 \<le> dx" "w = max dx \<bar>dy\<bar>"
  shows "line_pt x0 y0 dx dy w k \<noteq> (x0 + dx, y0 + dy)"
proof (cases "w = dx")
  case True
  then have "(k * dx) div w = k" using assms by simp
  then show ?thesis using assms True by (simp add: line_pt_def)
next
  case False
  then have w: "w = \<bar>dy\<bar>" "0 < w" using assms by auto
  then have "k * dy = (sgn dy * k) * w" by (simp add: abs_if sgn_if split: if_splits)
  then have "(k * dy) div w = ((sgn dy * k) * w) div w" by (rule arg_cong)
  also have "\<dots> = sgn dy * k" using w(2) by (rule nonzero_mult_div_cancel_right [OF less_imp_neq [symmetric]])
  finally have "(k * dy) div w = sgn dy * k" .
  then show ?thesis using assms w by (auto simp: line_pt_def sgn_if split: if_splits)
qed


lemma line_loop_pt:
  assumes dx: "0 \<le> dx" and w: "w = max dx \<bar>dy\<bar>" "0 < w"
    and b: "-32768 \<le> x0" "x0 + dx < 32768" "-32768 \<le> y0" "y0 < 32768" "-32768 \<le> y0 + dy" "y0 + dy < 32768"
  shows "0 \<le> k \<Longrightarrow> k \<le> w \<Longrightarrow>
    \<exists>spd'. line_loop md chk (x0 + dx) (y0 + dy) dx dy w
        (fst (line_pt x0 y0 dx dy w k), snd (line_pt x0 y0 dx dy w k), (k * dx) mod w, (k * dy) mod w) spd
      = Some (\<forall>j \<in> {k + 1..w}. \<not> cellp md (fst (line_pt x0 y0 dx dy w j)) (snd (line_pt x0 y0 dx dy w j)) chk, spd')"
proof (induction "nat (w - k)" arbitrary: k spd rule: less_induct)
  case less
  let ?pt = "line_pt x0 y0 dx dy w"
  let ?p = "\<lambda>k. (fst (?pt k), snd (?pt k), (k * dx) mod w, (k * dy) mod w)"
  show ?case
  proof (cases "k = w")
    case True
    then have "?pt k = (x0 + dx, y0 + dy)" using w by (simp add: line_pt_def)
    then show ?thesis using True by (subst line_loop.simps) simp
  next
    case False
    then have kw: "0 \<le> k + 1" "k + 1 \<le> w" using less.prems by auto
    have ne: "?pt k \<noteq> (x0 + dx, y0 + dy)" using line_pt_not_end [of k w dx dy x0 y0] less.prems False dx w(1) by simp
    have "s16 (x0 + ((k + 1) * dx) div w) = x0 + ((k + 1) * dx) div w"
      using div_between(1) [OF w(2) kw dx] b by (intro s16_id) auto
    moreover have "s16 (y0 + ((k + 1) * dy) div w) = y0 + ((k + 1) * dy) div w"
      using div_between [OF w(2) kw, of dy] b by (intro s16_id) linarith+
    moreover have "dx \<le> w" "\<bar>dy\<bar> \<le> w" by (simp_all add: w(1))
    ultimately have st: "line_step dx dy w (?p k) = ?p (k + 1)"
      by (intro line_step_pt w(2) dx)
    let ?spd = "spd_record spd (fst (?pt (k + 1))) (snd (?pt (k + 1)))"
    have un: "line_loop md chk (x0 + dx) (y0 + dy) dx dy w (?p k) spd =
      (if cellp md (fst (?pt (k + 1))) (snd (?pt (k + 1))) chk then Some (False, ?spd)
       else line_loop md chk (x0 + dx) (y0 + dy) dx dy w (?p (k + 1)) ?spd)"
    proof -
      have "fst (?p k) \<noteq> x0 + dx \<or> fst (snd (?p k)) \<noteq> y0 + dy" using ne by (auto simp: prod_eq_iff)
      then show ?thesis by (subst line_loop.simps) (simp add: st)
    qed
    have rng: "{k + 1..w} = insert (k + 1) {k + 1 + 1..w}" using kw by auto
    show ?thesis
    proof (cases "cellp md (fst (?pt (k + 1))) (snd (?pt (k + 1))) chk")
      case True
      then show ?thesis using un rng by simp
    next
      case False
      have "nat (w - (k + 1)) < nat (w - k)" using kw by simp
      from less.hyps [OF this kw, of ?spd] obtain spd' where
        "line_loop md chk (x0 + dx) (y0 + dy) dx dy w (?p (k + 1)) ?spd =
         Some (\<forall>j \<in> {k + 1 + 1..w}. \<not> cellp md (fst (?pt j)) (snd (?pt j)) chk, spd')" by blast
      then show ?thesis using un False rng by simp
    qed
  qed
qed

text \<open>The points \<open>path_search_long\<close> tests between two cells, the left end first.\<close>

definition line_pts :: "int \<Rightarrow> int \<Rightarrow> int \<Rightarrow> int \<Rightarrow> (int \<times> int) set" where
  "line_pts x0 y0 x1 y1 =
     (let (x0, y0, x1, y1) = (if x1 < x0 then (x1, y1, x0, y0) else (x0, y0, x1, y1));
          w = max (x1 - x0) \<bar>y1 - y0\<bar>
      in line_pt x0 y0 (x1 - x0) (y1 - y0) w ` {1..w})"

lemma path_search_long_line:
  assumes "cell md \<noteq> []"
    and "-32768 \<le> x0" "x0 < 32768" "-32768 \<le> y0" "y0 < 32768" "-32768 \<le> x1" "x1 < 32768" "-32768 \<le> y1" "y1 < 32768"
  shows "\<exists>spd'. path_search_long md spd x0 y0 x1 y1 chk
    = Some (\<forall>(x, y) \<in> line_pts x0 y0 x1 y1. \<not> cellp md x y chk, spd')"
proof -
  define X0 X1 Y0 Y1 where "X0 = min x0 x1" and "X1 = max x0 x1"
    and "Y0 = (if x1 < x0 then y1 else y0)" and "Y1 = (if x1 < x0 then y0 else y1)"
  define w where "w = max (X1 - X0) \<bar>Y1 - Y0\<bar>"
  have b: "-32768 \<le> X0" "X0 \<le> X1" "X1 < 32768" "-32768 \<le> Y0" "Y0 < 32768" "-32768 \<le> Y1" "Y1 < 32768"
    using assms by (auto simp: X0_def X1_def Y0_def Y1_def)
  have "\<exists>s. path_search_long md spd x0 y0 x1 y1 chk = line_loop md chk X1 Y1 (X1 - X0) (Y1 - Y0) w (X0, Y0, 0, 0) s"
  proof (cases "x1 < x0")
    case True
    then have v: "X0 = x1" "X1 = x0" "Y0 = y1" "Y1 = y0" by (simp_all add: X0_def X1_def Y0_def Y1_def)
    show ?thesis using assms(1) True v by (cases "\<bar>y0 - y1\<bar> < x0 - x1") (auto simp: path_search_long_def w_def max_def Let_def)
  next
    case False
    then have v: "X0 = x0" "X1 = x1" "Y0 = y0" "Y1 = y1" by (simp_all add: X0_def X1_def Y0_def Y1_def)
    show ?thesis using assms(1) False v by (cases "\<bar>y1 - y0\<bar> < x1 - x0") (auto simp: path_search_long_def w_def max_def Let_def)
  qed
  then obtain s where s: "path_search_long md spd x0 y0 x1 y1 chk =
      line_loop md chk X1 Y1 (X1 - X0) (Y1 - Y0) w (X0, Y0, 0, 0) s" by blast
  have P: "line_pts x0 y0 x1 y1 = line_pt X0 Y0 (X1 - X0) (Y1 - Y0) w ` {1..w}"
    by (auto simp: line_pts_def X0_def X1_def Y0_def Y1_def w_def Let_def min_def max_def)
  show ?thesis
  proof (cases "0 < w")
    case True
    obtain spd' where "line_loop md chk (X0 + (X1 - X0)) (Y0 + (Y1 - Y0)) (X1 - X0) (Y1 - Y0) w
        (fst (line_pt X0 Y0 (X1 - X0) (Y1 - Y0) w 0), snd (line_pt X0 Y0 (X1 - X0) (Y1 - Y0) w 0),
         0 * (X1 - X0) mod w, 0 * (Y1 - Y0) mod w) s
      = Some (\<forall>j \<in> {0 + 1..w}. \<not> cellp md (fst (line_pt X0 Y0 (X1 - X0) (Y1 - Y0) w j))
          (snd (line_pt X0 Y0 (X1 - X0) (Y1 - Y0) w j)) chk, spd')"
      using line_loop_pt [OF _ w_def True, of X0 Y0 0 md chk s] b True by auto
    then show ?thesis using s P by (simp add: line_pt_def split_beta)
  next
    case False
    then have "X0 = X1" "Y0 = Y1" "{1..w} = {}" using b by (auto simp: w_def)
    then show ?thesis using s P by (subst (asm) line_loop.simps) auto
  qed
qed


section \<open>Knock-back\<close>

lemma cellp_pass_in:
  assumes "map_wf md" "cellp md x y CELL_CHKPASS" "-32768 \<le> x" "x < 32768" "-32768 \<le> y" "y < 32768"
  shows "in_map md x y"
  using assms by (auto simp: cellp_def map_getcellp_def in_map_def cint_simps split: if_splits)

lemma blown_loop_ok:
  assumes md: "map_wf md"
  shows "in_map md x0 y0 \<Longrightarrow> \<bar>dx\<bar> \<le> 1 \<Longrightarrow> \<bar>dy\<bar> \<le> 1 \<Longrightarrow> blown_loop md halt rs k x0 y0 dx dy cnt = (x, y) \<Longrightarrow>
    in_map md x y \<and> ((x = x0 \<and> y = y0) \<or> cellp md x y CELL_CHKPASS) \<and> \<bar>x - x0\<bar> \<le> int cnt \<and> \<bar>y - y0\<bar> \<le> int cnt"
proof (induction cnt arbitrary: k x0 y0 dx dy)
  case 0
  then show ?case by simp
next
  case (Suc cnt)
  have r: "0 \<le> x0" "x0 < 32767" "0 \<le> y0" "y0 < 32767" using Suc.prems(1) md by (auto simp: in_map_def map_wf_def)
  have step: ?case
    if s: "blown_loop md halt rs k x0 y0 dx dy (Suc cnt) = blown_loop md halt rs k' (s16 (x0 + a)) (s16 (y0 + b)) a b cnt"
      and ab: "\<bar>a\<bar> \<le> 1" "\<bar>b\<bar> \<le> 1" and c: "(a = 0 \<and> b = 0) \<or> cellp md (x0 + a) (y0 + b) CELL_CHKPASS" for k' a b
  proof -
    have id: "s16 (x0 + a) = x0 + a" "s16 (y0 + b) = y0 + b" using r ab by (auto intro!: s16_id)
    have i: "in_map md (x0 + a) (y0 + b)"
    proof (cases "a = 0 \<and> b = 0")
      case False
      then show ?thesis using c r ab by (intro cellp_pass_in [OF md]) auto
    qed (use Suc.prems in simp)
    have "blown_loop md halt rs k' (x0 + a) (y0 + b) a b cnt = (x, y)" using Suc.prems(4) s id by metis
    from Suc.IH [OF i ab this] show ?thesis using c ab by auto
  qed
  show ?case
  proof (cases "dx \<noteq> 0 \<or> dy \<noteq> 0")
    case False
    then show ?thesis using Suc.prems by simp
  next
    case True
    note d = True
    show ?thesis
    proof (cases "cellp md (x0 + dx) (y0 + dy) CELL_CHKPASS")
      case True
      then show ?thesis using d Suc.prems by (intro step [of k dx dy]) simp_all
    next
      case False
      show ?thesis
      proof (cases halt)
        case True
        then show ?thesis using d False Suc.prems by simp
      next
        case nh: False
        define fx fy where "fx = (dx \<noteq> 0 \<and> cellp md (x0 + dx) y0 CELL_CHKPASS)"
          and "fy = (dy \<noteq> 0 \<and> cellp md x0 (y0 + dy) CELL_CHKPASS)"
        define a where "a = (if \<not> fx then 0 else if fx \<and> fy \<and> odd (rs k) then 0 else dx)"
        define b where "b = (if \<not> fy then 0 else if fx \<and> fy \<and> \<not> odd (rs k) then 0 else dy)"
        have "blown_loop md halt rs k x0 y0 dx dy (Suc cnt)
          = blown_loop md halt rs (if fx \<and> fy then Suc k else k) (s16 (x0 + a)) (s16 (y0 + b)) a b cnt"
          using d False nh by (simp add: Let_def fx_def [symmetric] fy_def [symmetric] a_def b_def)
        moreover have "\<bar>a\<bar> \<le> 1" "\<bar>b\<bar> \<le> 1" using Suc.prems by (auto simp: a_def b_def)
        moreover have "(a = 0 \<and> b = 0) \<or> cellp md (x0 + a) (y0 + b) CELL_CHKPASS"
          by (auto simp: a_def b_def fx_def fy_def)
        ultimately show ?thesis by (rule step)
      qed
    qed
  qed
qed

lemma or_high_low:
  fixes x y :: int
  assumes "0 \<le> y" "y < 65536"
  shows "(x * 65536) OR y = x * 65536 + y"
proof -
  have x: "x * 65536 = push_bit 16 x" by (simp add: push_bit_eq_mult)
  have y: "take_bit 16 y = y" using assms by (simp add: take_bit_eq_mod)
  have "\<not> bit (push_bit 16 x) n \<or> \<not> bit y n" for n
    by (subst y [symmetric]) (simp add: bit_push_bit_iff bit_take_bit_iff)
  then show ?thesis unfolding x using disjunctive_add [of "push_bit 16 x" y] by simp
qed

lemma path_blownpos_packed:
  assumes md: "map_wf md" and i: "in_map md x0 y0"
  shows "\<exists>x y. path_blownpos md halt rs x0 y0 dx dy cnt = x * 65536 + y \<and> in_map md x y
    \<and> ((x = x0 \<and> y = y0) \<or> cellp md x y CELL_CHKPASS)
    \<and> \<bar>x - x0\<bar> \<le> max 0 (min 25 cnt) \<and> \<bar>y - y0\<bar> \<le> max 0 (min 25 cnt)"
proof -
  define c where "c = nat (if cnt > 25 then 25 else cnt)"
  define clip where "clip = (dx > 1 \<or> dx < -1 \<or> dy > 1 \<or> dy < -1)"
  define a where "a = (if clip then (if dx > 0 then 1 else if dx < 0 then -1 else 0) else dx)"
  define b where "b = (if clip then (if dy > 0 then 1 else if dy < 0 then -1 else 0) else dy)"
  obtain x y where xy: "blown_loop md halt rs 0 x0 y0 a b c = (x, y)" by fastforce
  have ab: "\<bar>a\<bar> \<le> 1" "\<bar>b\<bar> \<le> 1" by (auto simp: a_def b_def clip_def)
  from blown_loop_ok [OF md i ab xy]
  have r: "in_map md x y" "(x = x0 \<and> y = y0) \<or> cellp md x y CELL_CHKPASS"
    "\<bar>x - x0\<bar> \<le> int c" "\<bar>y - y0\<bar> \<le> int c" by auto
  have ne: "cell md \<noteq> []" using cell_index_less [OF md i] by auto
  have "path_blownpos md halt rs x0 y0 dx dy cnt = s32 ((x * 65536) OR y)"
    using xy ne unfolding path_blownpos_def Let_def a_def b_def c_def clip_def by simp
  also have "\<dots> = s32 (x * 65536 + y)" using r(1) md by (subst or_high_low) (auto simp: in_map_def map_wf_def)
  also have "\<dots> = x * 65536 + y" using r(1) md by (intro s32_id) (auto simp: in_map_def map_wf_def)
  finally show ?thesis using r by (intro exI [of _ x] exI [of _ y]) (auto simp: c_def max_def min_def split: if_splits)
qed

end
