(* ===== verification/PathHeap.thy ===== *)
theory PathHeap imports PathClaims begin

text \<open>
  The open set of the A* search is a heap over the costs of its nodes.
\<close>

section \<open>The open set is a heap over the nodes' costs\<close>

interpretation node_heap: topcmp "NODE_MINTOPCMP t" UNIV for t
  by unfold_locales (auto simp: NODE_MINTOPCMP_def)

text \<open>
  The discipline between the node array and the heap of node pointers: the pointers are in heap
  order for the costs now in the array, none is there twice, and a used node is on the heap
  exactly while its flag is not \<open>SET_CLOSED\<close>.
\<close>

definition open_heap :: "astar \<Rightarrow> bool" where
  "open_heap s \<longleftrightarrow> heap_ok (NODE_MINTOPCMP (tp s)) (open_set s) \<and> distinct (open_set s)
     \<and> set (open_set s) \<subseteq> used_set (tp s)
     \<and> (\<forall>i \<in> used_set (tp s). flag (tp s ! i) \<noteq> SET_CLOSED \<longleftrightarrow> i \<in> set (open_set s))"

text \<open>Writing one node changes the order only at that node.\<close>

lemma heap_other_node:
  assumes "heap_ok (NODE_MINTOPCMP t) h" "i \<notin> set h"
  shows "heap_ok (NODE_MINTOPCMP (t[i := n])) h"
  using assms(1)
proof (rule heap_cong)
  have "t[i := n] ! j = t ! j" if "j \<in> set h" for j using that assms(2) by (intro nth_list_update_neq) auto
  then show "a \<in> set h \<Longrightarrow> b \<in> set h \<Longrightarrow> NODE_MINTOPCMP t a b = NODE_MINTOPCMP (t[i := n]) a b" for a b
    by (simp add: NODE_MINTOPCMP_def)
qed

lemma heap_same_cost:
  assumes "heap_ok (NODE_MINTOPCMP t) h" "f_cost n = f_cost (t ! i)"
  shows "heap_ok (NODE_MINTOPCMP (t[i := n])) h"
  using assms(1)
proof (rule heap_cong)
  have "f_cost (t[i := n] ! j) = f_cost (t ! j)" for j
    using assms(2) by (cases "j = i"; cases "i < length t") (auto simp: list_update_beyond)
  then show "NODE_MINTOPCMP t a b = NODE_MINTOPCMP (t[i := n]) a b" for a b
    by (simp add: NODE_MINTOPCMP_def)
qed

lemma hole_other_node:
  assumes "heap_ok (NODE_MINTOPCMP t) h" "distinct h" "k < length h" "h ! k = i"
  shows "hole_ok (NODE_MINTOPCMP (t[i := n])) h k"
proof -
  have hole: "hole_ok (NODE_MINTOPCMP t) h k" using node_heap.heap_hole assms by simp
  have eq: "NODE_MINTOPCMP (t[i := n]) (h ! a) (h ! b) = NODE_MINTOPCMP t (h ! a) (h ! b)"
    if "a < length h" "b < length h" "a \<noteq> k" "b \<noteq> k" for a b
    using that assms by (auto simp: NODE_MINTOPCMP_def nth_list_update nth_eq_iff_index_eq)
  have p: "par j < length h" if "j < length h" "0 < j" for j using that par_less [of j] by simp
  have pk: "par k \<noteq> k" if "0 < k" using that par_less [of k] by simp
  show ?thesis unfolding hole_ok_def
  proof (intro conjI allI impI)
    fix j assume "j < length h" "0 < j" "j \<noteq> k" "par j \<noteq> k"
    then show "NODE_MINTOPCMP (t[i := n]) (h ! par j) (h ! j) \<le> 0"
      using eq [of "par j" j] p hole by (auto simp: hole_ok_def)
  next
    fix j assume "j < length h" "0 < j" "par j = k" "0 < k"
    moreover then have "j \<noteq> k" using par_less [of j] by auto
    ultimately show "NODE_MINTOPCMP (t[i := n]) (h ! par k) (h ! j) \<le> 0"
      using eq [of "par k" j] p [of k] pk assms(3) hole by (auto simp: hole_ok_def)
  qed
qed

lemma used_set_new: "i < length t \<Longrightarrow> used n \<Longrightarrow> used_set (t[i := n]) = insert i (used_set t)"
  by (auto simp: used_set_def nth_list_update)

lemma push_new_ok:
  assumes s: "open_heap s" and i: "i < length (tp s)" "i \<notin> set (open_set s)" and n: "used n" "flag n \<noteq> SET_CLOSED"
  shows "open_heap (heap_push_node (set_node s i n) i)"
proof -
  let ?t = "(tp s)[i := n]"
  have U: "used_set ?t = insert i (used_set (tp s))" using used_set_new i(1) n(1) by blast
  have m: "mset (BHEAP_PUSH2 (NODE_MINTOPCMP ?t) (open_set s) i) = add_mset i (mset (open_set s))"
    by (rule bheap_push2_mset)
  have "heap_ok (NODE_MINTOPCMP ?t) (open_set s)"
    using heap_other_node s i(2) by (simp add: open_heap_def)
  then have "heap_ok (NODE_MINTOPCMP ?t) (BHEAP_PUSH2 (NODE_MINTOPCMP ?t) (open_set s) i)"
    using node_heap.bheap_push2_ok by simp
  moreover have "distinct (BHEAP_PUSH2 (NODE_MINTOPCMP ?t) (open_set s) i)"
    using mset_eq_imp_distinct_iff [of _ "i # open_set s"] m s i(2) by (simp add: open_heap_def)
  ultimately show ?thesis using s n i U
    by (auto simp: open_heap_def heap_push_node_def set_node_def push2_set nth_list_update)
qed

lemma set_open_ok:
  assumes "open_heap s" "i \<in> set (open_set s)"
  shows "open_heap (set_node s i ((tp s ! i)\<lparr>flag := SET_OPEN\<rparr>))"
proof -
  have i: "i \<in> used_set (tp s)" "i < length (tp s)" using assms by (auto simp: open_heap_def used_set_def)
  show ?thesis using assms i heap_same_cost used_set_same [OF i(1), of "(tp s ! i)\<lparr>flag := SET_OPEN\<rparr>"]
    by (auto simp: open_heap_def set_node_def nth_list_update SET_OPEN_def SET_CLOSED_def)
qed

text \<open>\<open>add_path\<close> keeps the discipline, and its heap update always finds the node.\<close>

lemma add_path_heap:
  assumes s: "open_heap s" and len: "length (tp s) = 1024" and r: "add_path s x y g pa h = (r, s')"
    and xy: "s16 x = x" "s16 y = y" "used (tp s ! calc_index x y) \<or> g \<ge> g_cost (tp s ! calc_index x y)"
  shows "open_heap s'"
proof -
  let ?i = "calc_index x y"
  let ?n = "tp s ! ?i"
  have il: "?i < length (tp s)" using calc_index_less len by simp
  consider (lower) "nx ?n = x" "ny ?n = y" "g < g_cost ?n"
    | (none) "s' = s"
    | (new) "\<not> (nx ?n = x \<and> ny ?n = y)" "nx ?n = 0" "ny ?n = 0"
    using r by (auto simp: add_path_def Let_def split: if_splits)
  then show ?thesis
  proof cases
    case none
    then show ?thesis using s by simp
  next
    case new
    then have "?i \<notin> set (open_set s)" using s by (auto simp: open_heap_def used_set_def used_def)
    then show ?thesis using r new xy push_new_ok [OF s il]
      by (auto simp: add_path_def Let_def used_def SET_OPEN_def SET_CLOSED_def)
  next
    case lower
    then have xy0: "x \<noteq> 0 \<or> y \<noteq> 0" using xy by (auto simp: used_def)
    then have iU: "?i \<in> used_set (tp s)" using il lower by (auto simp: used_set_def used_def)
    define n where "n = ?n\<lparr>g_cost := s16 g, parent := Some pa, f_cost := s16 (g + h)\<rparr>"
    define s1 where "s1 = set_node s ?i n"
    have nu: "used n" "flag n = flag ?n" using lower xy0 by (auto simp: n_def used_def)
    show ?thesis
    proof (cases "flag ?n = SET_CLOSED")
      case True
      let ?s2 = "heap_push_node (set_node s ?i (n\<lparr>flag := SET_OPEN\<rparr>)) ?i"
      have "?i \<notin> set (open_set s)" using s iU True by (auto simp: open_heap_def)
      then have ok: "open_heap ?s2" using push_new_ok [OF s il] nu by (simp add: used_def SET_OPEN_def SET_CLOSED_def)
      have tpf: "NODE_MINTOPCMP ((tp s)[?i := n]) = NODE_MINTOPCMP ((tp s)[?i := n\<lparr>flag := SET_OPEN\<rparr>])"
        by (intro ext) (use il in \<open>simp add: NODE_MINTOPCMP_def nth_list_update\<close>)
      have "s' = set_node (heap_push_node s1 ?i) ?i ((tp (heap_push_node s1 ?i) ! ?i)\<lparr>flag := SET_OPEN\<rparr>)"
        using r lower True by (simp add: add_path_def Let_def n_def s1_def)
      also have "\<dots> = ?s2" using il tpf by (simp add: s1_def set_node_def heap_push_node_def)
      finally show ?thesis using ok by simp
    next
      case False
      then have mem: "?i \<in> set (open_set s)" using s iU by (auto simp: open_heap_def)
      let ?k = "arr_find 0 (length (open_set s)) (\<lambda>k. open_set s ! k = ?i)"
      obtain j where "j < length (open_set s)" "open_set s ! j = ?i" using mem by (auto simp: in_set_conv_nth)
      then have "?k \<noteq> length (open_set s)" by (subst arr_find_none_iff) auto
      moreover have "?k \<le> length (open_set s)" by (rule arr_find_le) simp
      ultimately have kl: "?k < length (open_set s)" by simp
      then have k: "open_set s ! ?k = ?i" using arr_find_holds [of 0 "length (open_set s)"] by blast
      let ?h = "BHEAP_UPDATE (NODE_MINTOPCMP (tp s1)) (open_set s) ?k"
      have "hole_ok (NODE_MINTOPCMP (tp s1)) (open_set s) ?k"
        using hole_other_node [OF _ _ kl k] s by (simp add: open_heap_def s1_def set_node_def)
      then have ok: "heap_ok (NODE_MINTOPCMP (tp s1)) ?h" using node_heap.bheap_update_ok kl by simp
      have m: "mset ?h = mset (open_set s)" using bheap_update_mset kl by blast
      have U: "used_set (tp s1) = used_set (tp s)" using iU used_set_new [OF il nu(1)]
        by (auto simp: s1_def set_node_def)
      have sh: "set ?h = set (open_set s)" using m mset_eq_setD by blast
      have dh: "distinct ?h" using m s mset_eq_imp_distinct_iff by (auto simp: open_heap_def)
      have fl: "flag (tp s1 ! j) = flag (tp s ! j)" for j using nu(2)
        by (cases "j = ?i"; cases "?i < length (tp s)") (use il in \<open>auto simp: s1_def set_node_def\<close>)
      let ?s2 = "s1\<lparr>open_set := ?h\<rparr>"
      have o2: "open_heap ?s2" using ok dh sh U fl s by (simp add: open_heap_def)
      have "heap_update_node s1 ?i = (0, ?s2)"
        using kl by (simp add: heap_update_node_def Let_def s1_def set_node_def)
      then have "s' = set_node ?s2 ?i ((tp ?s2 ! ?i)\<lparr>flag := SET_OPEN\<rparr>)"
        using r lower False by (simp add: add_path_def Let_def n_def s1_def)
      then show ?thesis using set_open_ok [OF o2] mem sh by simp
    qed
  qed
qed

text \<open>The pop takes a node of least cost and leaves a heap.\<close>

lemma astar_pop_heap:
  assumes s: "open_heap s" and ne: "open_set s \<noteq> []" and pop: "astar_pop s = (cur, s')"
  shows "open_heap s' \<and> cur \<in> set (open_set s) \<and> (\<forall>i \<in> set (open_set s). f_cost (tp s ! cur) \<le> f_cost (tp s ! i))
    \<and> length (tp s') = length (tp s)"
proof -
  let ?h = "open_set s" and ?c = "NODE_MINTOPCMP (tp s)"
  let ?n = "(tp s ! cur)\<lparr>flag := SET_CLOSED\<rparr>"
  have cur: "cur = BHEAP_PEEK ?h" "cur \<in> set ?h" using pop ne by (auto simp: astar_pop_def BHEAP_PEEK_def Let_def)
  have s': "tp s' = (tp s)[cur := ?n]" "open_set s' = BHEAP_POP2 ?c ?h"
    using pop by (auto simp: astar_pop_def set_node_def Let_def)
  have hp: "heap_ok ?c ?h" "distinct ?h" "set ?h \<subseteq> used_set (tp s)" using s by (simp_all add: open_heap_def)
  have cU: "cur \<in> used_set (tp s)" "cur < length (tp s)" using hp cur used_set_less by blast+
  have least: "\<forall>i \<in> set ?h. f_cost (tp s ! cur) \<le> f_cost (tp s ! i)"
    using node_heap.peek_min [OF hp(1)] cur(1) by (auto simp: NODE_MINTOPCMP_def)
  have ok: "heap_ok ?c (BHEAP_POP2 ?c ?h)" using node_heap.bheap_pop2_ok hp(1) ne by simp
  have m: "mset (BHEAP_POP2 ?c ?h) = mset ?h - {#cur#}" using bheap_pop2_mset [OF ne] cur by simp
  then have d: "distinct (BHEAP_POP2 ?c ?h)" "set (BHEAP_POP2 ?c ?h) = set ?h - {cur}"
    using hp(2) mset_eq_imp_distinct_iff [of _ "remove1 cur ?h"] mset_eq_setD [of _ "remove1 cur ?h"] by simp_all
  have U: "used_set (tp s') = used_set (tp s)" using s' used_set_same [OF cU(1)] by simp
  have "heap_ok (NODE_MINTOPCMP (tp s')) (open_set s')"
    using heap_same_cost [OF ok] s' by simp
  moreover have "\<forall>i \<in> used_set (tp s'). flag (tp s' ! i) \<noteq> SET_CLOSED \<longleftrightarrow> i \<in> set (open_set s')"
    using s d U s' cU by (auto simp: open_heap_def nth_list_update)
  ultimately have "open_heap s'" using d U hp s' by (auto simp: open_heap_def)
  then show ?thesis using cur least s' by simp
qed


text \<open>The states of the search between two rounds of its loop.\<close>

inductive astar_reach :: "map_data \<Rightarrow> cell_chk \<Rightarrow> int \<Rightarrow> int \<Rightarrow> int \<Rightarrow> int \<Rightarrow> astar \<Rightarrow> bool"
  for md chk x0 y0 x1 y1 where
  reach_start: "astar_reach md chk x0 y0 x1 y1 (astar_start x0 y0 x1 y1)"
| reach_round: "astar_reach md chk x0 y0 x1 y1 s \<Longrightarrow> open_set s \<noteq> [] \<Longrightarrow> astar_pop s = (cur, s1) \<Longrightarrow>
    path_expand x1 y1 cur (g_cost (tp s1 ! cur))
      (path_neighbours md chk (nx (tp s1 ! cur)) (ny (tp s1 ! cur))) 0 s1 = (0, s2) \<Longrightarrow>
    astar_reach md chk x0 y0 x1 y1 s2"

lemma path_expand_heap:
  "astar_ok md chk x0 y0 s \<Longrightarrow> map_wf md \<Longrightarrow> cur \<in> used_set (tp s) \<Longrightarrow> open_heap s \<Longrightarrow>
   (\<forall>(ok, x, y, c) \<in> set ns. ok \<longrightarrow> walk_step md chk (nx (tp s ! cur)) (ny (tp s ! cur)) x y \<and> 0 < c \<and> c \<le> 14) \<Longrightarrow>
   path_expand x1 y1 cur (g_cost (tp s ! cur)) ns e s = (e', s') \<Longrightarrow> open_heap s'"
proof (induction ns arbitrary: e s)
  case (Cons a ns)
  obtain ok x y c where a: "a = (ok, x, y, c)" by (cases a) auto
  show ?case
  proof (cases ok)
    case False
    then show ?thesis using Cons a by simp
  next
    case True
    obtain r s2 where s2: "add_path s x y (g_cost (tp s ! cur) + c) cur (heuristic x y x1 y1) = (r, s2)"
      by fastforce
    have st: "walk_step md chk (nx (tp s ! cur)) (ny (tp s ! cur)) x y" "0 < c" "c \<le> 14"
      using Cons.prems(5) a True by auto
    have f: "astar_ok md chk x0 y0 s2" "cur \<in> used_set (tp s2)" "tp s2 ! cur = tp s ! cur"
      using add_path_ok [OF Cons.prems(1-3) st s2] by auto
    have xy: "s16 x = x" "s16 y = y"
      using st(1) Cons.prems(2) by (auto simp: walk_step_def in_map_def map_wf_def cint_simps)
    have t: "tree_ok md chk x0 y0 (tp s)" using Cons.prems(1) by (simp add: astar_ok_def)
    have len: "length (tp s) = 1024" using t by (simp add: tree_ok_def)
    have g0: "0 \<le> g_cost (tp s ! cur)" using tree_node [OF t Cons.prems(3)] by (simp add: node_ok_def)
    have "g_cost (tp s ! calc_index x y) = 0" if "\<not> used (tp s ! calc_index x y)"
      using that t len calc_index_less by (auto simp: tree_ok_def)
    then have "used (tp s ! calc_index x y) \<or> g_cost (tp s ! cur) + c \<ge> g_cost (tp s ! calc_index x y)"
      using g0 st(2) by (cases "used (tp s ! calc_index x y)") auto
    then have "open_heap s2" using add_path_heap [OF Cons.prems(4) len s2 xy] by blast
    then show ?thesis using Cons.IH [of s2 "e + r"] f Cons.prems a True s2 by auto
  qed
qed simp


lemma astar_reach_ok:
  assumes md: "map_wf md" and start: "in_map md x0 y0" "x0 \<noteq> 0 \<or> y0 \<noteq> 0"
  shows "astar_reach md chk x0 y0 x1 y1 s \<Longrightarrow> astar_ok md chk x0 y0 s \<and> open_heap s"
proof (induction rule: astar_reach.induct)
  case reach_start
  let ?t0 = "replicate (nat (MAX_WALKPATH * MAX_WALKPATH)) zero_node"
  let ?n = "\<lparr>parent = None, nx = x0, ny = y0, g_cost = 0, f_cost = s16 (heuristic x0 y0 x1 y1), flag = SET_OPEN\<rparr>"
  let ?i = "calc_index x0 y0"
  have t0: "used_set ?t0 = {}" by (auto simp: used_set_def used_def zero_node_def)
  have "open_heap \<lparr>tp = ?t0, open_set = []\<rparr>" using t0 by (simp add: open_heap_def heap_ok_def)
  from push_new_ok [OF this, of ?i ?n]
  have "open_heap (astar_start x0 y0 x1 y1)" using start calc_index_less [of x0 y0]
    by (simp add: astar_start_def Let_def set_node_def used_def MAX_WALKPATH_def SET_OPEN_def SET_CLOSED_def)
  then show ?case using astar_start_ok [OF md start] by simp
next
  case (reach_round s cur s1 s2)
  have p: "astar_ok md chk x0 y0 s1" "cur \<in> used_set (tp s1)"
    using astar_pop_ok [OF _ reach_round.hyps(2,3)] reach_round.IH by auto
  have h: "open_heap s1" using astar_pop_heap [OF _ reach_round.hyps(2,3)] reach_round.IH by blast
  have inm: "in_map md (nx (tp s1 ! cur)) (ny (tp s1 ! cur))"
    using p tree_node by (auto simp: astar_ok_def node_ok_def)
  have ns: "\<forall>(ok, x, y, c) \<in> set (path_neighbours md chk (nx (tp s1 ! cur)) (ny (tp s1 ! cur))).
      ok \<longrightarrow> walk_step md chk (nx (tp s1 ! cur)) (ny (tp s1 ! cur)) x y \<and> 0 < c \<and> c \<le> 14"
    using neighbours_step [OF _ inm, of _ _ _ chk] by fastforce
  show ?case
    using path_expand_ok [OF p(1) md p(2) ns reach_round.hyps(4)]
      path_expand_heap [OF p(1) md p(2) h ns reach_round.hyps(4)] by simp
qed

lemma astar_takes_least:
  assumes "map_wf md" "in_map md x0 y0" "x0 \<noteq> 0 \<or> y0 \<noteq> 0"
    and "astar_reach md chk x0 y0 x1 y1 s" "open_set s \<noteq> []" "astar_pop s = (cur, s')"
  shows "cur \<in> set (open_set s) \<and> (\<forall>i \<in> set (open_set s). f_cost (tp s ! cur) \<le> f_cost (tp s ! i))"
  using astar_pop_heap [OF _ assms(5,6)] astar_reach_ok [OF assms(1-4)] by blast

end
