(* ===== verification/PathProps.thy ===== *)
theory PathProps imports PathHeap begin

text \<open>
  The properties of the binary heap, of the cell grid and of the path searches, each with a
  concrete instance of its hypotheses. The test map has five by five cells and a wall with one gap.
\<close>

section \<open>The binary heap\<close>

text \<open>C20: the heap macros with the minimum comparator are a priority queue: on a heap a push adds
  exactly the pushed element, the peeked element is the least one, a pop removes exactly that
  element, and the results are heaps again, in the plain and in the A* variants.\<close>

theorem bheap_priority_queue:
  assumes "heap_ok BHEAP_MINTOPCMP h"
  shows "heap_ok BHEAP_MINTOPCMP (BHEAP_PUSH BHEAP_MINTOPCMP h x)
    \<and> mset (BHEAP_PUSH BHEAP_MINTOPCMP h x) = add_mset x (mset h)
    \<and> heap_ok BHEAP_MINTOPCMP (BHEAP_PUSH2 BHEAP_MINTOPCMP h x)
    \<and> mset (BHEAP_PUSH2 BHEAP_MINTOPCMP h x) = add_mset x (mset h)
    \<and> (h \<noteq> [] \<longrightarrow> BHEAP_PEEK h = Min (set h)
         \<and> heap_ok BHEAP_MINTOPCMP (BHEAP_POP BHEAP_MINTOPCMP h)
         \<and> mset (BHEAP_POP BHEAP_MINTOPCMP h) = mset h - {#BHEAP_PEEK h#}
         \<and> heap_ok BHEAP_MINTOPCMP (BHEAP_POP2 BHEAP_MINTOPCMP h)
         \<and> mset (BHEAP_POP2 BHEAP_MINTOPCMP h) = mset h - {#BHEAP_PEEK h#})"
proof -
  have "BHEAP_PEEK h = Min (set h)" if ne: "h \<noteq> []"
  proof (rule sym, rule Min_eqI)
    show "BHEAP_PEEK h \<in> set h" using ne by (simp add: BHEAP_PEEK_def)
    show "BHEAP_PEEK h \<le> y" if "y \<in> set h" for y
      using mintop.peek_min [OF assms _ that] by (simp add: BHEAP_MINTOPCMP_def split: if_splits)
  qed simp
  then show ?thesis
    by (simp add: assms mintop.bheap_push_ok mintop.bheap_push2_ok mintop.bheap_pop_ok mintop.bheap_pop2_ok
        bheap_push_mset bheap_push2_mset bheap_pop_mset bheap_pop2_mset)
qed

theorem bheap_priority_queue_witness:
  "BHEAP_PEEK [1, 4, 2, (7::int)] = Min (set [1, 4, 2, 7])"
proof -
  have "heap_ok BHEAP_MINTOPCMP [1, 4, 2, (7::int)]"
    by (simp add: heap_ok_def par_def BHEAP_MINTOPCMP_def All_less_Suc numeral_eq_Suc)
  from bheap_priority_queue [OF this] show ?thesis by blast
qed

text \<open>Removing the element at any index of a heap leaves a heap of the other elements, and
  \<open>BHEAP_UPDATE\<close> restores the heap after the element at an index was changed in either direction.\<close>

theorem bheap_remove_and_update:
  assumes "heap_ok BHEAP_MINTOPCMP h" "i < length h"
  shows "heap_ok BHEAP_MINTOPCMP (BHEAP_POPINDEX BHEAP_MINTOPCMP h i)
    \<and> mset (BHEAP_POPINDEX BHEAP_MINTOPCMP h i) = mset h - {#h ! i#}
    \<and> heap_ok BHEAP_MINTOPCMP (BHEAP_UPDATE BHEAP_MINTOPCMP (h[i := x]) i)
    \<and> mset (BHEAP_UPDATE BHEAP_MINTOPCMP (h[i := x]) i) = add_mset x (mset h - {#h ! i#})"
proof -
  have "hole_ok BHEAP_MINTOPCMP (h[i := x]) i" by (rule mintop.heap_set_hole) (use assms in simp_all)
  then show ?thesis
    using assms by (simp add: mintop.bheap_popindex_ok mintop.bheap_update_ok bheap_popindex_mset bheap_update_mset mset_update)
qed

theorem bheap_remove_and_update_witness:
  "heap_ok BHEAP_MINTOPCMP (BHEAP_POPINDEX BHEAP_MINTOPCMP [1, 4, 2, (7::int)] 1)"
proof -
  have "heap_ok BHEAP_MINTOPCMP [1, 4, 2, (7::int)]"
    by (simp add: heap_ok_def par_def BHEAP_MINTOPCMP_def All_less_Suc numeral_eq_Suc)
  from bheap_remove_and_update [OF this, of 1] show ?thesis by simp
qed

section \<open>The cell grid\<close>

text \<open>A gat type that the converter distinguishes survives the way into cell flags and back, the
  walkable types 2, 4 and 6 come back as 0, and unknown types as a wall.\<close>

theorem gat_roundtrip:
  "map_cell2gat (map_gat2cell g) = (if g \<in> {1, 3, 5} then g else if g \<in> {0, 2, 4, 6} then 0 else 1)"
  by (simp add: map_cell2gat_def map_gat2cell_def zero_cell_def)

text \<open>The check that reads the flag a setter writes.\<close>

definition chk_of :: "cell_t \<Rightarrow> cell_chk" where
  "chk_of t = (case t of CELL_WALKABLE \<Rightarrow> CELL_CHKPASS | CELL_SHOOTABLE \<Rightarrow> CELL_CHKCLIFF | CELL_WATER \<Rightarrow> CELL_CHKWATER
     | CELL_NPC \<Rightarrow> CELL_CHKNPC | CELL_BASILICA \<Rightarrow> CELL_CHKBASILICA | CELL_LANDPROTECTOR \<Rightarrow> CELL_CHKLANDPROTECTOR
     | CELL_NOVENDING \<Rightarrow> CELL_CHKNOVENDING | CELL_NOCHAT \<Rightarrow> CELL_CHKNOCHAT | CELL_MAELSTROM \<Rightarrow> CELL_CHKMAELSTROM
     | CELL_ICEWALL \<Rightarrow> CELL_CHKICEWALL)"

lemma setcell_other:
  assumes maps: "\<forall>md \<in> set maps. map_wf md" and m: "0 \<le> m'" "m' < int (length maps)"
    and ne: "(m', x', y') \<noteq> (m, x, y)"
  shows "map_getcell (map_setcell maps m x y t b) m' x' y' chk = map_getcell maps m' x' y' chk"
proof (cases "m' = m \<and> in_map (maps ! nat m) x y")
  case False
  then have "map_setcell maps m x y t b ! nat m' = maps ! nat m'"
    using m by (cases "nat m' = nat m") (auto simp: map_setcell_def Let_def in_map_def)
  then show ?thesis by (simp add: map_getcell_def)
next
  case True
  let ?md = "maps ! nat m"
  have md: "map_wf ?md" using maps m True by simp
  have xy: "(x', y') \<noteq> (x, y)" using ne True by simp
  have ix: "nat (x' + y' * xs ?md) \<noteq> nat (x + y * xs ?md)" if "in_map ?md x' y'"
  proof
    assume "nat (x' + y' * xs ?md) = nat (x + y * xs ?md)"
    moreover have "0 \<le> x' + y' * xs ?md" "0 \<le> x + y * xs ?md"
      using that True cell_index_bound [of x' "xs ?md" y' "ys ?md"] cell_index_bound [of x "xs ?md" y "ys ?md"]
      by (auto simp: in_map_def)
    ultimately have "x' + y' * xs ?md = x + y * xs ?md" by simp
    then show False using cell_index_inj [of x' "xs ?md" x y' y] that True xy by (auto simp: in_map_def)
  qed
  have m0: "0 \<le> m" "m < int (length maps)" "in_map ?md x y" using True m by simp_all
  let ?j = "nat (x + y * xs ?md)"
  let ?md' = "?md\<lparr>cell := (cell ?md)[?j := set_flag t b (cell ?md ! ?j)]\<rparr>"
  have e: "map_setcell maps m x y t b ! nat m = ?md'"
    unfolding map_setcell_in [OF m0] using m0(1,2) by simp
  have "map_getcellp ?md' x' y' chk = map_getcellp ?md x' y' chk"
  proof (cases "in_map ?md x' y'")
    case True
    then have c: "cell ?md' ! nat (x' + y' * xs ?md) = cell ?md ! nat (x' + y' * xs ?md)" using ix by simp
    have "xs ?md' = xs ?md" "ys ?md' = ys ?md" by simp_all
    then show ?thesis unfolding map_getcellp_def Let_def using c by presburger
  next
    case False
    then have "x' < 0 \<or> x' \<ge> xs ?md - 1 \<or> y' < 0 \<or> y' \<ge> ys ?md - 1" by (auto simp: in_map_def)
    then show ?thesis by (simp add: map_getcellp_def)
  qed
  then show ?thesis using True e by (simp add: map_getcell_def)
qed

text \<open>\<open>map_setcell\<close> writes one flag of one cell: the check of that flag at that cell answers what
  was written, and every check at every other cell of every loaded map answers what it did.\<close>

theorem setcell_getcell:
  assumes maps: "\<forall>md \<in> set maps. map_wf md" "length maps \<le> 1500" and m: "0 \<le> m" "m < int (length maps)"
    and xy: "0 \<le> x" "x < xs (maps ! nat m) - 1" "0 \<le> y" "y < ys (maps ! nat m) - 1"
  shows "(t \<noteq> CELL_SHOOTABLE \<longrightarrow> map_getcell (map_setcell maps m x y t b) m x y (chk_of t) = of_bool b)
    \<and> (\<forall>m' x' y' chk. 0 \<le> m' \<longrightarrow> m' < int (length maps) \<longrightarrow> (m', x', y') \<noteq> (m, x, y) \<longrightarrow>
         map_getcell (map_setcell maps m x y t b) m' x' y' chk = map_getcell maps m' x' y' chk)"
proof -
  have i: "in_map (maps ! nat m) x y" using xy by (simp add: in_map_def)
  have md: "map_wf (maps ! nat m)" using maps m by simp
  have "map_getcell (map_setcell maps m x y t b) m x y (chk_of t) = of_bool b" if "t \<noteq> CELL_SHOOTABLE"
    using that m maps(2) xy cell_index_less [OF md i] map_setcell_in [OF m i, of t b]
    by (cases t) (simp_all add: map_getcell_def map_getcellp_def Let_def chk_of_def set_flag_def MAX_MAP_PER_SERVER_def)
  then show ?thesis using setcell_other [OF maps(1)] by blast
qed

definition test_map :: map_data where
  "test_map = \<lparr>cell = replicate 25 (zero_cell\<lparr>walkable := True, shootable := True\<rparr>), xs = 5, ys = 5\<rparr>"

lemma test_map_wf: "map_wf test_map"
  by (simp add: map_wf_def test_map_def)

theorem setcell_getcell_witness:
  "map_getcell (map_setcell [test_map] 0 1 1 CELL_NPC True) 0 1 1 (chk_of CELL_NPC) = 1
   \<and> map_getcell (map_setcell [test_map] 0 1 1 CELL_NPC True) 0 1 2 CELL_CHKNPC = map_getcell [test_map] 0 1 2 CELL_CHKNPC"
  using setcell_getcell [of "[test_map]" 0 1 1 CELL_NPC True] test_map_wf by (simp add: test_map_def)

section \<open>Walking paths\<close>

text \<open>C5: from every start but the cell (0,0) the A* search of \<open>path_search\<close> returns, and a path it
  reports is a walk: it has at most 32 steps, every step enters a free cell of the map next to the last one without cutting a
  corner, and it ends at the goal.\<close>

theorem path_search_sound:
  assumes md: "map_wf md" and start: "x0 \<noteq> 0 \<or> y0 \<noteq> 0" and w: "length (path wpd) = 32" and fl: "even fl"
  shows "\<exists>b w. path_search md wpd x0 y0 x1 y1 fl chk = Some (b, w) \<and>
    (b \<longrightarrow> 0 \<le> path_len w \<and> path_len w \<le> 32 \<and>
       walk_ok md chk x0 y0 (take (nat (path_len w)) (path w)) x1 y1)"
  using path_search_total_lemma [OF md start, of wpd x1 y1 fl chk] w fl by blast

definition no_path :: walkpath_data where
  "no_path = \<lparr>path_len = 0, path_pos = 0, path = replicate 32 0\<rparr>"

theorem path_search_sound_witness:
  "path_search test_map no_path 1 1 2 1 0 CELL_CHKNOREACH = Some (True, no_path\<lparr>path_len := 1, path := 6 # replicate 31 0\<rparr>)
   \<and> walk_ok test_map CELL_CHKNOREACH 1 1 [6] 2 1"
proof -
  have e: "path_search test_map no_path 1 1 2 1 0 CELL_CHKNOREACH = Some (True, no_path\<lparr>path_len := 1, path := 6 # replicate 31 0\<rparr>)"
    by code_simp
  show ?thesis
    using path_search_sound [OF test_map_wf, of 1 1 no_path 0 2 1 CELL_CHKNOREACH] e by (auto simp: no_path_def)
qed

text \<open>The cell (0,0) is never reached by the A* search, whatever the map: its node slot, all
  zero bytes, counts as processed from the start.\<close>

theorem path_search_origin:
  assumes "map_wf md" "x0 \<noteq> 0 \<or> y0 \<noteq> 0" "length (path wpd) = 32" "even fl"
  shows "\<exists>w. path_search md wpd x0 y0 0 0 fl chk = Some (False, w)"
  using path_search_total_lemma [OF assms(1,2), of wpd 0 0 fl chk] assms(3,4) by (metis (full_types))

theorem path_search_origin_witness:
  "\<exists>w. path_search test_map no_path 1 1 0 0 0 CELL_CHKNOREACH = Some (False, w)"
  by (rule path_search_origin) (simp_all add: test_map_wf no_path_def)

text \<open>The easy search, which the flag asks for, goes diagonally first and then straight; it
  returns, and when it reports success its at most 32 directions lead from the start to the goal and
  every cell entered before the goal is free.\<close>

theorem path_search_easy:
  assumes "odd fl" "length (path wpd) = 32" "x0 \<noteq> x1 \<or> y0 \<noteq> y1"
  shows "\<exists>b w. path_search md wpd x0 y0 x1 y1 fl chk = Some (b, w) \<and>
    (b \<longrightarrow> path_len w \<le> 32 \<and> moves_free md chk x0 y0 (take (nat (path_len w)) (path w)) x1 y1)"
proof (cases "cell md = [] \<or> \<not> in_map md x0 y0 \<or> \<not> in_map md x1 y1 \<or> cellp md x1 y1 chk")
  case True
  then show ?thesis using path_search_off_map by (metis (full_types))
next
  case False
  obtain i x y p where e: "easy_loop md chk x1 y1 0 x0 y0 (sgn (x1 - x0)) (sgn (y1 - y0)) (path wpd) = (i, x, y, p)"
    by (metis prod_cases4)
  have eq: "path_search md wpd x0 y0 x1 y1 fl chk = Some (x = x1 \<and> y = y1,
      if x = x1 \<and> y = y1 then wpd\<lparr>path := p, path_len := int i, path_pos := 0\<rparr> else wpd\<lparr>path := p\<rparr>)"
    using False assms(1) e by (auto simp: path_search_def in_map_def Let_def)
  show ?thesis unfolding eq
    using easy_loop_ok [OF e] assms(2,3) by (auto simp: sgn_if)
qed

theorem path_search_easy_witness:
  "path_search test_map no_path 1 1 3 2 1 CELL_CHKNOREACH = Some (True, no_path\<lparr>path_len := 2, path := 7 # 6 # replicate 30 0\<rparr>)
   \<and> moves_free test_map CELL_CHKNOREACH 1 1 [7, 6] 3 2"
proof -
  have e: "path_search test_map no_path 1 1 3 2 1 CELL_CHKNOREACH = Some (True, no_path\<lparr>path_len := 2, path := 7 # 6 # replicate 30 0\<rparr>)"
    by code_simp
  show ?thesis
    using path_search_easy [of 1 no_path 1 3 1 2 test_map CELL_CHKNOREACH] e by (auto simp: no_path_def)
qed

text \<open>C29: whenever the A* search takes a node from its open heap, in any state its rounds reach, that
  node has the least estimated cost of all open nodes.\<close>

theorem astar_least_first:
  assumes "map_wf md" "in_map md x0 y0" "x0 \<noteq> 0 \<or> y0 \<noteq> 0"
    and "astar_reach md chk x0 y0 x1 y1 s" "open_set s \<noteq> []" "astar_pop s = (cur, s')"
  shows "cur \<in> set (open_set s) \<and> (\<forall>i \<in> set (open_set s). f_cost (tp s ! cur) \<le> f_cost (tp s ! i))"
  by (rule astar_takes_least [OF assms])

theorem astar_least_first_witness:
  "fst (astar_pop (astar_start 1 1 3 2)) \<in> set (open_set (astar_start 1 1 3 2))"
proof -
  have "length (open_set (astar_start 1 1 3 2)) = 1"
    by (simp add: astar_start_def heap_push_node_def Let_def push2_set(2))
  then have o: "open_set (astar_start 1 1 3 2) \<noteq> []" by auto
  have i: "in_map test_map 1 1" by (simp add: in_map_def test_map_def)
  obtain cur s' where p: "astar_pop (astar_start 1 1 3 2) = (cur, s')" by (rule prod.exhaust)
  show ?thesis
    using astar_least_first [OF test_map_wf i _ reach_start [of test_map CELL_CHKNOREACH 1 1 3 2] o p] p by simp
qed

section \<open>Lines and pushes\<close>

text \<open>C28: \<open>path_search_long\<close> always returns, and it answers true exactly when no cell of the line is
  blocked. The line is the rounded segment between the two cells without its left end, so with the
  target to the left the shooter's own cell is looked at and the target's is not.\<close>

theorem path_search_long_exact:
  assumes "cell md \<noteq> []"
    and "-32768 \<le> x0" "x0 < 32768" "-32768 \<le> y0" "y0 < 32768" "-32768 \<le> x1" "x1 < 32768" "-32768 \<le> y1" "y1 < 32768"
  shows "\<exists>spd'. path_search_long md spd x0 y0 x1 y1 chk
    = Some (\<forall>(x, y) \<in> line_pts x0 y0 x1 y1. \<not> cellp md x y chk, spd')"
  by (rule path_search_long_line [OF assms])

definition no_shot :: shootpath_data where
  "no_shot = \<lparr>sp_rx = 0, sp_ry = 0, sp_len = 0, sp_x = replicate 32 0, sp_y = replicate 32 0\<rparr>"

lemma test_map_no_wall: "\<not> cellp test_map x y CELL_CHKWALL"
  by (simp add: cellp_def map_getcellp_def test_map_def Let_def nat_less_iff)

theorem path_search_long_exact_witness:
  "\<exists>spd'. path_search_long test_map no_shot 3 2 1 1 CELL_CHKWALL = Some (True, spd')"
  using path_search_long_exact [of test_map 3 2 1 1 no_shot CELL_CHKWALL] test_map_no_wall by (simp add: test_map_def case_prod_beta)

text \<open>C32: where \<open>path_blownpos\<close> pushes something from a cell of the map, packed into one integer,
  is a cell of the map, is the start or passable, and is at most the given number of cells away and
  at most 25, whatever the random choices.\<close>

theorem path_blownpos_safe:
  assumes "map_wf md" "in_map md x0 y0"
  shows "\<exists>x y. path_blownpos md halt rs x0 y0 dx dy cnt = x * 65536 + y \<and> in_map md x y
    \<and> ((x = x0 \<and> y = y0) \<or> cellp md x y CELL_CHKPASS)
    \<and> \<bar>x - x0\<bar> \<le> max 0 (min 25 cnt) \<and> \<bar>y - y0\<bar> \<le> max 0 (min 25 cnt)"
  by (rule path_blownpos_packed [OF assms])

theorem path_blownpos_safe_witness:
  "\<exists>x y. path_blownpos test_map False (\<lambda>k. 0) 1 1 1 0 3 = x * 65536 + y \<and> in_map test_map x y
    \<and> ((x = 1 \<and> y = 1) \<or> cellp test_map x y CELL_CHKPASS)
    \<and> \<bar>x - 1\<bar> \<le> max 0 (min 25 3) \<and> \<bar>y - 1\<bar> \<le> max 0 (min 25 3)"
  by (rule path_blownpos_safe) (rule test_map_wf, simp add: in_map_def test_map_def)

end
