(* ===== verification/Timer.thy ===== *)
theory Timer imports Bheap begin

text \<open>
  Timers (\<^verbatim>\<open>src/common/timer.c\<close>): the table \<open>timer_data\<close> with its
  high-water mark \<open>timer_data_num\<close>, the stack \<open>free_timer_list\<close> of released ids (the next one
  to hand out first), and the binary heap of pending ids ordered by tick. A \<open>TimerFunc\<close> pointer
  is \<open>None\<close> for \<open>NULL\<close>; what the functions do is the parameter \<open>cb\<close> of \<open>do_timer\<close>, which
  may change the timers and the rest of the world \<open>'w\<close>.
\<close>

unbundle bit_operations_syntax

definition TIMER_MIN_INTERVAL :: int where "TIMER_MIN_INTERVAL = 20"
definition TIMER_MAX_INTERVAL :: int where "TIMER_MAX_INTERVAL = 1000"
definition TIMER_ONCE_AUTODEL :: int where "TIMER_ONCE_AUTODEL = 1"
definition TIMER_INTERVAL :: int where "TIMER_INTERVAL = 2"
definition TIMER_REMOVE_HEAP :: int where "TIMER_REMOVE_HEAP = 16"
definition INVALID_TIMER :: int where "INVALID_TIMER = -1"

record 'f TimerData =
  t_tick :: int
  t_func :: "'f option"
  t_type :: int
  t_interval :: int
  t_id :: int
  t_data :: int

record 'f timers =
  timer_data :: "'f TimerData list"
  timer_data_num :: nat
  free_timer_list :: "nat list"
  timer_heap :: "nat list"

definition DIFF_TICK :: "int \<Rightarrow> int \<Rightarrow> int" where
  "DIFF_TICK a b = s32 (a - b)"

definition DIFFTICK_MINTOPCMP :: "'f TimerData list \<Rightarrow> nat \<Rightarrow> nat \<Rightarrow> int" where
  "DIFFTICK_MINTOPCMP td tid1 tid2 = DIFF_TICK (t_tick (td ! tid1)) (t_tick (td ! tid2))"

definition zero_timer :: "'f TimerData" where
  "zero_timer = \<lparr>t_tick = 0, t_func = None, t_type = 0, t_interval = 0, t_id = 0, t_data = 0\<rparr>"

section \<open>The operations\<close>

definition push_timer_heap :: "'f timers \<Rightarrow> nat \<Rightarrow> 'f timers" where
  "push_timer_heap s tid =
     s\<lparr>timer_heap := BHEAP_PUSH (DIFFTICK_MINTOPCMP (timer_data s)) (timer_heap s) tid\<rparr>"

text \<open>The \<open>do\<close> loop over the free list: ids beyond the high-water mark are dropped.\<close>

fun pop_free :: "nat \<Rightarrow> nat list \<Rightarrow> nat \<times> nat list" where
  "pop_free num [] = (num, [])"
| "pop_free num (tid # fl) = (if tid \<ge> num \<and> fl \<noteq> [] then pop_free num fl else (tid, fl))"

definition acquire_timer :: "'f timers \<Rightarrow> nat \<times> 'f timers" where
  "acquire_timer s =
     (let (tid, fl) = pop_free (timer_data_num s) (free_timer_list s);
          num = timer_data_num s; td = timer_data s;
          tid = (if tid \<ge> num then arr_find num (length td) (\<lambda>i. t_type (td ! i) = 0) else tid);
          td = (if tid \<ge> num \<and> tid \<ge> length td then td @ replicate 256 zero_timer else td)
      in (tid, s\<lparr>timer_data := td, free_timer_list := fl,
                 timer_data_num := (if tid \<ge> num then tid + 1 else num)\<rparr>))"

definition add_timer :: "'f timers \<Rightarrow> int \<Rightarrow> 'f option \<Rightarrow> int \<Rightarrow> int \<Rightarrow> nat \<times> 'f timers" where
  "add_timer s tick func ident data =
     (let (tid, s) = acquire_timer s;
          s = s\<lparr>timer_data := (timer_data s)[tid := \<lparr>t_tick = tick, t_func = func,
                 t_type = TIMER_ONCE_AUTODEL, t_interval = 1000, t_id = ident, t_data = data\<rparr>]\<rparr>
      in (tid, push_timer_heap s tid))"

definition add_timer_interval ::
  "'f timers \<Rightarrow> int \<Rightarrow> 'f option \<Rightarrow> int \<Rightarrow> int \<Rightarrow> int \<Rightarrow> int \<times> 'f timers" where
  "add_timer_interval s tick func ident data interval =
     (if interval < 1 then (INVALID_TIMER, s)
      else
        (let (tid, s) = acquire_timer s;
             s = s\<lparr>timer_data := (timer_data s)[tid := \<lparr>t_tick = tick, t_func = func,
                    t_type = TIMER_INTERVAL, t_interval = interval, t_id = ident, t_data = data\<rparr>]\<rparr>
         in (int tid, push_timer_heap s tid)))"

definition get_timer :: "'f timers \<Rightarrow> int \<Rightarrow> 'f TimerData option" where
  "get_timer s tid =
     (if tid \<ge> 0 \<and> tid < int (timer_data_num s) then Some (timer_data s ! nat tid) else None)"

definition delete_timer :: "'f timers \<Rightarrow> int \<Rightarrow> 'f option \<Rightarrow> int \<times> 'f timers" where
  "delete_timer s tid func =
     (if tid < 0 \<or> tid \<ge> int (timer_data_num s) then (-1, s)
      else if t_func (timer_data s ! nat tid) \<noteq> func then (-2, s)
      else (0, s\<lparr>timer_data := (timer_data s)[nat tid :=
             (timer_data s ! nat tid)\<lparr>t_func := None, t_type := TIMER_ONCE_AUTODEL\<rparr>]\<rparr>))"

definition settick_timer :: "'f timers \<Rightarrow> int \<Rightarrow> int \<Rightarrow> int \<times> 'f timers" where
  "settick_timer s tid tick =
     (let h = timer_heap s; i = arr_find 0 (length h) (\<lambda>i. int (h ! i) = tid) in
      if i = length h then (-1, s)
      else
        (let tick = (if s32 tick = -1 then 0 else tick) in
         if t_tick (timer_data s ! nat tid) = tick then (s32 tick, s)
         else
           (let s1 = s\<lparr>timer_heap := BHEAP_POPINDEX (DIFFTICK_MINTOPCMP (timer_data s)) h i\<rparr>;
                s2 = s1\<lparr>timer_data := (timer_data s1)[nat tid := (timer_data s1 ! nat tid)\<lparr>t_tick := tick\<rparr>]\<rparr>
            in (s32 tick, push_timer_heap s2 (nat tid)))))"

definition addtick_timer :: "'f timers \<Rightarrow> int \<Rightarrow> int \<Rightarrow> int \<times> 'f timers" where
  "addtick_timer s tid tick = settick_timer s tid (u32 (t_tick (timer_data s ! nat tid) + tick))"

section \<open>The timer loop\<close>

type_synonym ('f, 'w) timer_cb = "'f \<Rightarrow> nat \<Rightarrow> int \<Rightarrow> int \<Rightarrow> int \<Rightarrow> 'f timers \<times> 'w \<Rightarrow> 'f timers \<times> 'w"

definition set_timer :: "'f timers \<Rightarrow> nat \<Rightarrow> 'f TimerData \<Rightarrow> 'f timers" where
  "set_timer s tid t = s\<lparr>timer_data := (timer_data s)[tid := t]\<rparr>"

text \<open>The body's end: what happens to a timer its function left alone.\<close>

definition timer_requeue :: "int \<Rightarrow> nat \<Rightarrow> 'f timers \<Rightarrow> 'f timers" where
  "timer_requeue tick tid s =
     (let t = (timer_data s ! tid)\<lparr>t_type := t_type (timer_data s ! tid) AND NOT TIMER_REMOVE_HEAP\<rparr> in
      if t_type t = TIMER_INTERVAL then
        push_timer_heap
          (set_timer s tid
            (if DIFF_TICK (t_tick t) tick < -1000 then t\<lparr>t_tick := u32 (tick + t_interval t)\<rparr>
             else t\<lparr>t_tick := u32 (t_tick t + t_interval t)\<rparr>)) tid
      else
        (let s = set_timer s tid (t\<lparr>t_type := 0\<rparr>) in
         s\<lparr>free_timer_list := tid # free_timer_list s\<rparr>))"

text \<open>One round of the loop for a due timer.\<close>

definition timer_unheap :: "nat \<Rightarrow> 'f timers \<Rightarrow> 'f timers" where
  "timer_unheap tid s =
     (let s1 = s\<lparr>timer_heap := BHEAP_POP (DIFFTICK_MINTOPCMP (timer_data s)) (timer_heap s)\<rparr>
      in set_timer s1 tid ((timer_data s1 ! tid)\<lparr>t_type := t_type (timer_data s1 ! tid) OR TIMER_REMOVE_HEAP\<rparr>))"

definition timer_call :: "('f, 'w) timer_cb \<Rightarrow> int \<Rightarrow> nat \<Rightarrow> int \<Rightarrow> 'f timers \<times> 'w \<Rightarrow> 'f timers \<times> 'w" where
  "timer_call cb tick tid diff sw =
     (let t = timer_data (fst sw) ! tid in
      case t_func t of
        None \<Rightarrow> sw
      | Some f \<Rightarrow> cb f tid (if diff < -1000 then tick else t_tick t) (t_id t) (t_data t) sw)"

definition timer_round :: "('f, 'w) timer_cb \<Rightarrow> int \<Rightarrow> 'f timers \<times> 'w \<Rightarrow> 'f timers \<times> 'w" where
  "timer_round cb tick sw =
     (let s = fst sw; tid = BHEAP_PEEK (timer_heap s);
          diff = DIFF_TICK (t_tick (timer_data s ! tid)) tick;
          sw2 = timer_call cb tick tid diff (timer_unheap tid s, snd sw); s2 = fst sw2
      in if t_type (timer_data s2 ! tid) AND TIMER_REMOVE_HEAP \<noteq> 0
         then (timer_requeue tick tid s2, snd sw2) else sw2)"

partial_function (option) timer_loop ::
  "('f, 'w) timer_cb \<Rightarrow> int \<Rightarrow> int \<Rightarrow> 'f timers \<times> 'w \<Rightarrow> (int \<times> 'f timers \<times> 'w) option" where
  [code]: "timer_loop cb tick diff sw =
     (if timer_heap (fst sw) = [] then Some (diff, sw)
      else
        (let d = DIFF_TICK (t_tick (timer_data (fst sw) ! BHEAP_PEEK (timer_heap (fst sw)))) tick in
         if d > 0 then Some (d, sw)
         else timer_loop cb tick d (timer_round cb tick sw)))"

definition do_timer :: "('f, 'w) timer_cb \<Rightarrow> int \<Rightarrow> 'f timers \<times> 'w \<Rightarrow> (int \<times> 'f timers \<times> 'w) option" where
  "do_timer cb tick sw =
     map_option (\<lambda>(diff, sw). (cap_value diff TIMER_MIN_INTERVAL TIMER_MAX_INTERVAL, sw))
       (timer_loop cb tick TIMER_MAX_INTERVAL sw)"

text \<open>\<open>split_time\<close>: (year, month, day, hour, minute, second).\<close>

definition split_time :: "int \<Rightarrow> int \<times> int \<times> int \<times> int \<times> int \<times> int" where
  "split_time timein =
     (let factor_min = 60; factor_hour = factor_min * 60; factor_day = factor_hour * 24;
          factor_month = 2629743; factor_year = 31556926;
          year = c_div timein factor_year; timein = timein - year * factor_year;
          month = c_div timein factor_month; timein = timein - month * factor_month;
          day = c_div timein factor_day; timein = timein - day * factor_day;
          hour = c_div timein factor_hour; timein = timein - hour * factor_hour;
          minute = c_div timein factor_min; timein = timein - minute * factor_min;
          second = timein
      in (max 0 year, max 0 month, max 0 day, max 0 hour, max 0 minute, max 0 second))"

section \<open>The structure of the timer table\<close>

text \<open>
  \<open>busy\<close> are the ids taken off the heap whose function is running. Every id the table uses is in
  at most one of the heap, the free list and \<open>busy\<close>.
\<close>

definition timers_wf :: "nat list \<Rightarrow> 'f timers \<Rightarrow> bool" where
  "timers_wf busy s \<longleftrightarrow> timer_data_num s \<le> length (timer_data s)
     \<and> distinct (timer_heap s @ free_timer_list s @ busy)
     \<and> (\<forall>tid \<in> set (timer_heap s @ free_timer_list s @ busy). tid < timer_data_num s)"

lemma pop_free_wf:
  assumes "\<forall>tid \<in> set fl. tid < num"
  shows "pop_free num fl = (case fl of [] \<Rightarrow> (num, []) | tid # fl \<Rightarrow> (tid, fl))"
  using assms by (cases fl) auto

text \<open>An id handed out is pending nowhere.\<close>

lemma acquire_timer_ok:
  assumes wf: "timers_wf busy s" and a: "acquire_timer s = (tid, s')"
  shows "tid \<notin> set (timer_heap s) \<and> tid \<notin> set busy \<and> tid < timer_data_num s' \<and> timers_wf (tid # busy) s'
    \<and> timer_heap s' = timer_heap s \<and> length (timer_data s) \<le> length (timer_data s')
    \<and> (\<forall>i < timer_data_num s. timer_data s' ! i = timer_data s ! i)"
proof (cases "free_timer_list s")
  case (Cons t fl)
  have pf: "pop_free (timer_data_num s) (free_timer_list s) = (t, fl)"
    using pop_free_wf [of "free_timer_list s" "timer_data_num s"] wf Cons by (auto simp: timers_wf_def)
  have tn: "t < timer_data_num s" using wf Cons by (auto simp: timers_wf_def)
  then have "tid = t" "s' = s\<lparr>free_timer_list := fl\<rparr>" using a pf by (auto simp: acquire_timer_def Let_def)
  then show ?thesis using wf Cons tn by (auto simp: timers_wf_def)
next
  case Nil
  let ?num = "timer_data_num s" and ?td = "timer_data s"
  let ?k = "arr_find ?num (length ?td) (\<lambda>i. t_type (?td ! i) = 0)"
  have le: "?num \<le> length ?td" using wf by (simp add: timers_wf_def)
  have k: "?num \<le> ?k" "?k \<le> length ?td" using arr_find_ge [OF le] arr_find_le [OF le] by auto
  have t: "tid = ?k" "s' = s\<lparr>timer_data := (if ?k \<ge> length ?td then ?td @ replicate 256 zero_timer else ?td),
      free_timer_list := [], timer_data_num := ?k + 1\<rparr>"
    using a Nil k by (auto simp: acquire_timer_def Let_def)
  have "\<forall>x \<in> set (timer_heap s @ busy). x < ?num" using wf Nil by (auto simp: timers_wf_def)
  then have n: "\<forall>x \<in> set (timer_heap s @ busy). x < ?k" using k by (meson less_le_trans)
  then have "?k \<notin> set (timer_heap s @ busy)" by blast
  then show ?thesis using wf Nil k n le t by (auto simp: timers_wf_def nth_append less_Suc_eq)
qed

end
