(* ===== verification/TimerCalm.thy ===== *)
theory TimerCalm imports Timer begin

text \<open>
  The order of timers by their ticks, inside the window in which \<open>DIFF_TICK\<close> orders them.
\<close>

section \<open>The order of the heap\<close>

text \<open>
  \<open>DIFF_TICK\<close> orders ticks only inside a window of \<open>2^31\<close> ms: \<open>tick_off base t\<close> is the distance
  from the start of the window, modulo \<open>2^32\<close>.
\<close>

definition tick_off :: "int \<Rightarrow> int \<Rightarrow> int" where
  "tick_off base t = u32 (t - base)"

definition tick_set :: "int \<Rightarrow> 'f TimerData list \<Rightarrow> nat set" where
  "tick_set base td = {i. tick_off base (t_tick (td ! i)) < 2147483648}"

lemma diff_tick_off:
  assumes "tick_off base a < 2147483648" "tick_off base b < 2147483648"
  shows "DIFF_TICK a b = tick_off base a - tick_off base b"
proof -
  have "DIFF_TICK a b = s32 ((a - base) - (b - base))" by (simp add: DIFF_TICK_def)
  also have "\<dots> = s32 (tick_off base a - tick_off base b)" by (simp add: tick_off_def s32_diff_u32)
  also have "\<dots> = tick_off base a - tick_off base b"
    using assms u32_range [of "a - base"] u32_range [of "b - base"] by (intro s32_id) (auto simp: tick_off_def)
  finally show ?thesis .
qed

lemma tick_off_ge: "0 \<le> tick_off base t"
  by (simp add: tick_off_def u32_range)

lemma tick_off_add:
  assumes "0 \<le> d" "tick_off base t + d < 4294967296"
  shows "tick_off base (u32 (t + d)) = tick_off base t + d"
proof -
  have "tick_off base (u32 (t + d)) = u32 (tick_off base t + d)"
    by (simp add: tick_off_def u32_def mod_simps algebra_simps)
  then show ?thesis using assms tick_off_ge [of base t] by (simp add: u32_id)
qed

interpretation tick_heap: topcmp "DIFFTICK_MINTOPCMP td" "tick_set base td" for td base
  by unfold_locales (auto simp: DIFFTICK_MINTOPCMP_def tick_set_def diff_tick_off [where base = base])

definition timers_sorted :: "int \<Rightarrow> 'f timers \<Rightarrow> bool" where
  "timers_sorted base s \<longleftrightarrow> heap_ok (DIFFTICK_MINTOPCMP (timer_data s)) (timer_heap s)
     \<and> set (timer_heap s) \<subseteq> tick_set base (timer_data s)"

lemma timers_sorted_cong:
  assumes "timers_sorted base s" "timer_heap s' = timer_heap s"
    and "\<And>i. i \<in> set (timer_heap s) \<Longrightarrow> t_tick (timer_data s' ! i) = t_tick (timer_data s ! i)"
  shows "timers_sorted base s'"
proof -
  have "heap_ok (DIFFTICK_MINTOPCMP (timer_data s)) (timer_heap s)" using assms(1) by (simp add: timers_sorted_def)
  then have "heap_ok (DIFFTICK_MINTOPCMP (timer_data s')) (timer_heap s)"
    by (rule heap_cong) (simp add: DIFFTICK_MINTOPCMP_def assms(3))
  then show ?thesis using assms by (auto simp: timers_sorted_def tick_set_def)
qed

lemma push_set: "set (BHEAP_PUSH cmp h x) = insert x (set h)" "distinct (BHEAP_PUSH cmp h x) = distinct (x # h)"
proof -
  have m: "mset (BHEAP_PUSH cmp h x) = mset (x # h)" by (simp add: bheap_push_mset)
  show "set (BHEAP_PUSH cmp h x) = insert x (set h)" using mset_eq_setD [OF m] by simp
  show "distinct (BHEAP_PUSH cmp h x) = distinct (x # h)" by (rule mset_eq_imp_distinct_iff [OF m])
qed

lemma popindex_set:
  assumes "distinct h" "i < length h"
  shows "set (BHEAP_POPINDEX cmp h i) = set h - {h ! i}" "distinct (BHEAP_POPINDEX cmp h i)"
proof -
  have m: "mset (BHEAP_POPINDEX cmp h i) = mset (remove1 (h ! i) h)" using bheap_popindex_mset assms(2) by simp
  show "set (BHEAP_POPINDEX cmp h i) = set h - {h ! i}" using mset_eq_setD [OF m] assms(1) by simp
  show "distinct (BHEAP_POPINDEX cmp h i)" using mset_eq_imp_distinct_iff [OF m] assms(1) by simp
qed

lemma push_timer_sorted:
  assumes "timers_sorted base s" "tick_off base (t_tick (timer_data s ! tid)) < 2147483648"
  shows "timers_sorted base (push_timer_heap s tid)"
  using assms tick_heap.bheap_push_ok [of "timer_data s" "timer_heap s" base tid]
  by (auto simp: timers_sorted_def push_timer_heap_def tick_set_def push_set)

lemma push_timer_wf: "timers_wf (tid # busy) s \<Longrightarrow> timers_wf busy (push_timer_heap s tid)"
  by (auto simp: timers_wf_def push_timer_heap_def push_set)

lemma set_timer_wf [simp]: "timers_wf busy (set_timer s tid t) = timers_wf busy s"
  by (simp add: timers_wf_def set_timer_def)

lemma set_timer_sel [simp]:
  "timer_heap (set_timer s tid t) = timer_heap s" "free_timer_list (set_timer s tid t) = free_timer_list s"
  "timer_data_num (set_timer s tid t) = timer_data_num s" "timer_data (set_timer s tid t) = (timer_data s)[tid := t]"
  by (simp_all add: set_timer_def)

section \<open>Adding and moving timers\<close>

lemma add_timer_ok:
  assumes wf: "timers_wf busy s" and a: "add_timer s tick f ident data = (tid, s')"
  shows "timers_wf busy s' \<and> tid \<notin> set (timer_heap s) \<union> set busy
    \<and> set (timer_heap s') = insert tid (set (timer_heap s))
    \<and> timer_data s' ! tid = \<lparr>t_tick = tick, t_func = f, t_type = TIMER_ONCE_AUTODEL, t_interval = 1000, t_id = ident, t_data = data\<rparr>
    \<and> (\<forall>i < timer_data_num s. i \<noteq> tid \<longrightarrow> timer_data s' ! i = timer_data s ! i)
    \<and> (timers_sorted base s \<longrightarrow> tick_off base tick < 2147483648 \<longrightarrow> timers_sorted base s')"
proof -
  let ?t = "\<lparr>t_tick = tick, t_func = f, t_type = TIMER_ONCE_AUTODEL, t_interval = 1000, t_id = ident, t_data = data\<rparr>"
  obtain t0 s0 where a0: "acquire_timer s = (t0, s0)" by fastforce
  have s': "t0 = tid" "s' = push_timer_heap (set_timer s0 tid ?t) tid"
    using a a0 by (auto simp: add_timer_def set_timer_def)
  note q = acquire_timer_ok [OF wf a0, unfolded s'(1)]
  have l: "tid < length (timer_data s0)" using q by (auto simp: timers_wf_def)
  have "timers_wf busy s'" using q by (simp add: s' push_timer_wf)
  moreover have "timers_sorted base s'" if "timers_sorted base s" "tick_off base tick < 2147483648"
  proof -
    have "timers_sorted base (set_timer s0 tid ?t)" using q wf
      by (intro timers_sorted_cong [OF that(1)]) (auto simp: timers_wf_def nth_list_update)
    then show ?thesis using that(2) l by (simp add: s' push_timer_sorted)
  qed
  ultimately show ?thesis using q l by (auto simp: s' push_timer_heap_def push_set)
qed

lemma settick_timer_ok:
  assumes wf: "timers_wf busy s" and a: "settick_timer s (int tid) tick = (r, s')" and tk: "0 \<le> tick" "tick < 4294967296"
  shows "timers_wf busy s' \<and> set (timer_heap s') = set (timer_heap s)
    \<and> (if tid \<in> set (timer_heap s)
       then timer_data s' = (timer_data s)[tid := (timer_data s ! tid)\<lparr>t_tick := (if tick = 4294967295 then 0 else tick)\<rparr>]
         \<and> r = s32 (if tick = 4294967295 then 0 else tick) \<and> r \<noteq> -1
         \<and> (timers_sorted base s \<longrightarrow> tick_off base (if tick = 4294967295 then 0 else tick) < 2147483648 \<longrightarrow> timers_sorted base s')
       else s' = s \<and> r = -1)"
proof -
  let ?h = "timer_heap s"
  let ?i = "arr_find 0 (length ?h) (\<lambda>i. int (?h ! i) = int tid)"
  let ?tick = "if tick = 4294967295 then 0 else tick"
  have le: "?i \<le> length ?h" by (rule arr_find_le) simp
  have m1: "s32 tick = -1 \<longleftrightarrow> tick = 4294967295"
  proof (cases "tick < 2147483648")
    case True
    then show ?thesis using tk by (simp add: s32_id)
  next
    case False
    have "s32 tick = s32 (tick - 4294967296)" by (rule s32_cong) simp
    also have "\<dots> = tick - 4294967296" using False tk by (intro s32_id) auto
    finally show ?thesis by auto
  qed
  then have rm: "s32 ?tick \<noteq> -1" by (simp add: s32_def)
  show ?thesis
  proof (cases "?i = length ?h")
    case True
    have "tid \<notin> set ?h"
    proof
      assume "tid \<in> set ?h"
      then obtain j where "j < length ?h" "?h ! j = tid" by (auto simp: in_set_conv_nth)
      then show False using True arr_find_none_iff [of 0 "length ?h" "\<lambda>i. int (?h ! i) = int tid"] by auto
    qed
    then show ?thesis using a True wf by (simp add: settick_timer_def Let_def)
  next
    case False
    then have il: "?i < length ?h" using le by simp
    then have hi: "?h ! ?i = tid" using arr_find_holds [of 0 "length ?h" "\<lambda>i. int (?h ! i) = int tid"] by simp
    then have mem: "tid \<in> set ?h" using il by (metis nth_mem)
    have tn: "tid < timer_data_num s" using wf mem by (simp add: timers_wf_def)
    then have tl: "tid < length (timer_data s)" using wf by (simp add: timers_wf_def)
    have d: "distinct ?h" using wf by (simp add: timers_wf_def)
    let ?g = "BHEAP_POPINDEX (DIFFTICK_MINTOPCMP (timer_data s)) ?h ?i"
    let ?t = "(timer_data s ! tid)\<lparr>t_tick := ?tick\<rparr>"
    have g: "set ?g = set ?h - {tid}" "distinct ?g" using popindex_set [OF d il] hi by auto
    show ?thesis
    proof (cases "t_tick (timer_data s ! tid) = ?tick")
      case True
      have "?t = timer_data s ! tid" using True by simp
      then have id: "(timer_data s)[tid := ?t] = timer_data s" by (metis list_update_id)
      have "s' = s" "r = s32 ?tick"
        using a False True by (auto simp: settick_timer_def Let_def m1)
      then show ?thesis using id mem wf rm by simp
    next
      case neq: False
      define s2 where "s2 = set_timer (s\<lparr>timer_heap := ?g\<rparr>) tid ?t"
      have s': "s' = push_timer_heap s2 tid" "r = s32 ?tick"
        using a False neq by (auto simp: settick_timer_def Let_def m1 s2_def set_timer_def)
      have w2: "timers_wf (tid # busy) s2" using wf mem g by (auto simp: timers_wf_def s2_def)
      have "timers_sorted base s'" if srt: "timers_sorted base s" and off: "tick_off base ?tick < 2147483648"
      proof -
        have "timers_sorted base (s\<lparr>timer_heap := ?g\<rparr>)"
          using tick_heap.bheap_popindex_ok [of "timer_data s" ?h base ?i] il srt g by (auto simp: timers_sorted_def)
        then have "timers_sorted base s2" by (rule timers_sorted_cong) (use g in \<open>auto simp: s2_def\<close>)
        then show ?thesis using off tl by (simp add: s'(1) push_timer_sorted s2_def)
      qed
      then show ?thesis using push_timer_wf [OF w2] mem g s' rm
        by (auto simp: push_timer_heap_def push_set s2_def)
    qed
  qed
qed


section \<open>The loop with functions that leave the timers alone\<close>

text \<open>Such a function changes the world only; \<open>upd\<close> is its effect there.\<close>

definition calm_cb :: "('f \<Rightarrow> nat \<Rightarrow> int \<Rightarrow> int \<Rightarrow> int \<Rightarrow> 'w \<Rightarrow> 'w) \<Rightarrow> ('f, 'w) timer_cb" where
  "calm_cb upd f tid tick ident data sw = (fst sw, upd f tid tick ident data (snd sw))"

definition due :: "int \<Rightarrow> 'f timers \<Rightarrow> nat \<Rightarrow> bool" where
  "due tick s i \<longleftrightarrow> DIFF_TICK (t_tick (timer_data s ! i)) tick \<le> 0"

text \<open>What the heap holds between calls: a kind, a positive interval, and ticks in one window.\<close>

definition pending_ok :: "int \<Rightarrow> int \<Rightarrow> 'f timers \<Rightarrow> bool" where
  "pending_ok base tick s \<longleftrightarrow> tick_off base tick < 2147483648
     \<and> (\<forall>i \<in> set (timer_heap s).
          (t_type (timer_data s ! i) = TIMER_ONCE_AUTODEL \<or> t_type (timer_data s ! i) = TIMER_INTERVAL)
          \<and> (t_type (timer_data s ! i) = TIMER_INTERVAL \<longrightarrow> 0 < t_interval (timer_data s ! i)
               \<and> tick_off base tick + t_interval (timer_data s ! i) < 2147483648))"

definition calm_ok :: "int \<Rightarrow> int \<Rightarrow> 'f timers \<Rightarrow> bool" where
  "calm_ok base tick s \<longleftrightarrow> timers_wf [] s \<and> timers_sorted base s \<and> pending_ok base tick s"

lemma calm_round:
  assumes ok: "calm_ok base tick s" and ne: "timer_heap s \<noteq> []"
    and tid: "tid = BHEAP_PEEK (timer_heap s)" and du: "due tick s tid"
    and r: "timer_round (calm_cb upd) tick (s, w) = (s', w')"
  shows "calm_ok base tick s' \<and>
    w' = (case t_func (timer_data s ! tid) of None \<Rightarrow> w
          | Some f \<Rightarrow> upd f tid (if DIFF_TICK (t_tick (timer_data s ! tid)) tick < -1000 then tick else t_tick (timer_data s ! tid))
                       (t_id (timer_data s ! tid)) (t_data (timer_data s ! tid)) w) \<and>
    (\<forall>i. i \<noteq> tid \<longrightarrow> timer_data s' ! i = timer_data s ! i) \<and>
    (if t_type (timer_data s ! tid) = TIMER_INTERVAL
     then set (timer_heap s') = set (timer_heap s) \<and> free_timer_list s' = free_timer_list s
       \<and> (\<exists>n. timer_data s' ! tid = (timer_data s ! tid)\<lparr>t_tick := n\<rparr>
            \<and> tick_off base (t_tick (timer_data s ! tid)) < tick_off base n)
     else set (timer_heap s') = set (timer_heap s) - {tid} \<and> free_timer_list s' = tid # free_timer_list s)"
proof -
  let ?h = "timer_heap s"
  let ?t = "timer_data s ! tid"
  have mem: "tid \<in> set ?h" using ne tid by (simp add: BHEAP_PEEK_def)
  have wf: "timers_wf [] s" "timers_sorted base s" "pending_ok base tick s" using ok by (simp_all add: calm_ok_def)
  have tn: "tid < timer_data_num s" using wf(1) mem by (simp add: timers_wf_def)
  then have tl: "tid < length (timer_data s)" using wf(1) by (simp add: timers_wf_def)
  have d: "distinct ?h" using wf(1) by (simp add: timers_wf_def)
  have ty: "t_type ?t = 1 \<or> t_type ?t = 2" using wf(3) mem by (auto simp: pending_ok_def TIMER_ONCE_AUTODEL_def TIMER_INTERVAL_def)
  have bits: "(t_type ?t OR 16) AND 16 \<noteq> 0" "(t_type ?t OR 16) AND NOT 16 = t_type ?t"
    using ty by auto
  let ?g = "BHEAP_POP (DIFFTICK_MINTOPCMP (timer_data s)) ?h"
  have g: "set ?g = set ?h - {tid}" "distinct ?g"
    using popindex_set [OF d, of 0] ne tid by (simp_all add: BHEAP_POP_def BHEAP_PEEK_def)
  define s1 where "s1 = timer_unheap tid s"
  have s1: "timer_heap s1 = ?g" "free_timer_list s1 = free_timer_list s" "timer_data_num s1 = timer_data_num s"
    "timer_data s1 = (timer_data s)[tid := ?t\<lparr>t_type := t_type ?t OR 16\<rparr>]"
    by (simp_all add: s1_def timer_unheap_def Let_def TIMER_REMOVE_HEAP_def)
  have w1: "timers_wf [tid] s1" using wf(1) mem g s1 by (auto simp: timers_wf_def)
  have "heap_ok (DIFFTICK_MINTOPCMP (timer_data s)) ?g"
    using tick_heap.bheap_pop_ok [of "timer_data s" ?h base] ne wf(2) by (simp add: timers_sorted_def)
  then have "timers_sorted base (s\<lparr>timer_heap := ?g\<rparr>)" using wf(2) g by (auto simp: timers_sorted_def)
  then have srt1: "timers_sorted base s1" by (rule timers_sorted_cong) (use s1 g in auto)
  have call: "timer_call (calm_cb upd) tick tid (DIFF_TICK (t_tick ?t) tick) (s1, w) =
    (s1, case t_func ?t of None \<Rightarrow> w | Some f \<Rightarrow> upd f tid (if DIFF_TICK (t_tick ?t) tick < -1000 then tick else t_tick ?t) (t_id ?t) (t_data ?t) w)"
    using tl by (simp add: timer_call_def s1(4) calm_cb_def Let_def split: option.splits)
  have s': "s' = timer_requeue tick tid s1"
    "w' = (case t_func ?t of None \<Rightarrow> w | Some f \<Rightarrow> upd f tid (if DIFF_TICK (t_tick ?t) tick < -1000 then tick else t_tick ?t) (t_id ?t) (t_data ?t) w)"
    using r call tl bits unfolding timer_round_def Let_def fst_conv snd_conv tid [symmetric] s1_def [symmetric]
    by (simp_all add: TIMER_REMOVE_HEAP_def s1(4) split: if_splits)
  show ?thesis
  proof (cases "t_type ?t = 2")
    case False
    then have t1: "t_type ?t = 1" using ty by simp
    have s'': "s' = (set_timer s1 tid (?t\<lparr>t_type := 0\<rparr>))\<lparr>free_timer_list := tid # free_timer_list s\<rparr>"
      using s'(1) tl t1 by (simp add: timer_requeue_def Let_def TIMER_REMOVE_HEAP_def TIMER_INTERVAL_def s1)
    have "timers_wf [] s'" using w1 by (auto simp: s'' timers_wf_def s1)
    moreover have "timers_sorted base s'" by (rule timers_sorted_cong [OF srt1]) (use g s1 tl in \<open>auto simp: s''\<close>)
    moreover have "pending_ok base tick s'" using wf(3) g s1 by (auto simp: s'' pending_ok_def)
    ultimately show ?thesis using s'(2) t1 g s1 by (simp add: calm_ok_def s'' TIMER_INTERVAL_def)
  next
    case True
    let ?iv = "t_interval ?t"
    have iv: "0 < ?iv" "tick_off base tick + ?iv < 2147483648"
      using wf(3) mem True by (auto simp: pending_ok_def TIMER_INTERVAL_def)
    have offt: "tick_off base (t_tick ?t) < 2147483648" using wf(2) mem by (auto simp: timers_sorted_def tick_set_def)
    have offk: "tick_off base tick < 2147483648" using iv by simp
    have le: "tick_off base (t_tick ?t) \<le> tick_off base tick"
      using du diff_tick_off [OF offt offk] by (simp add: due_def)
    define n where "n = (if DIFF_TICK (t_tick ?t) tick < -1000 then u32 (tick + ?iv) else u32 (t_tick ?t + ?iv))"
    have n: "tick_off base n < 2147483648" "tick_off base (t_tick ?t) < tick_off base n"
      using tick_off_add [of ?iv base tick] tick_off_add [of ?iv base "t_tick ?t"] iv le by (auto simp: n_def)
    define s2 where "s2 = set_timer s1 tid (?t\<lparr>t_tick := n\<rparr>)"
    have "(timer_data s1 ! tid)\<lparr>t_type := t_type (timer_data s1 ! tid) AND NOT TIMER_REMOVE_HEAP\<rparr> = ?t"
      using tl bits(2) by (intro TimerData.equality) (simp_all add: s1 TIMER_REMOVE_HEAP_def)
    then have "s' = push_timer_heap (set_timer s1 tid
        (if DIFF_TICK (t_tick ?t) tick < -1000 then ?t\<lparr>t_tick := u32 (tick + ?iv)\<rparr> else ?t\<lparr>t_tick := u32 (t_tick ?t + ?iv)\<rparr>)) tid"
      using s'(1) True unfolding timer_requeue_def Let_def by (simp add: TIMER_INTERVAL_def)
    then have s'': "s' = push_timer_heap s2 tid" unfolding s2_def n_def by (simp split: if_splits)
    have w2: "timers_wf [tid] s2" using w1 by (simp add: s2_def)
    have "timers_sorted base s2" by (rule timers_sorted_cong [OF srt1]) (use g s1 in \<open>auto simp: s2_def\<close>)
    then have "timers_sorted base s'" using n tl by (simp add: s'' push_timer_sorted s2_def s1)
    moreover have sh: "set (timer_heap s') = set ?h" using g mem by (auto simp: s'' s2_def push_timer_heap_def push_set s1)
    moreover have td: "timer_data s' = (timer_data s)[tid := ?t\<lparr>t_tick := n\<rparr>]"
      by (simp add: s'' s2_def push_timer_heap_def s1)
    moreover have "pending_ok base tick s'" using wf(3) sh tl by (auto simp: pending_ok_def td nth_list_update)
    ultimately show ?thesis using s'(2) True push_timer_wf [OF w2] tl n
      by (auto simp: calm_ok_def s'' TIMER_INTERVAL_def s2_def push_timer_heap_def s1)
  qed
qed

end
