(* ===== verification/TimerLoop.thy ===== *)
theory TimerLoop imports TimerCalm begin

text \<open>
  The loop of \<^verbatim>\<open>do_timer\<close> ends, by a weight of the heap, and no due timer is left.
\<close>

section \<open>The loop ends, and nothing is due then\<close>

definition timer_weight :: "int \<Rightarrow> int \<Rightarrow> 'f timers \<Rightarrow> nat \<Rightarrow> nat" where
  "timer_weight base tick s i =
     (if tick_off base (t_tick (timer_data s ! i)) \<le> tick_off base tick
      then nat (tick_off base tick - tick_off base (t_tick (timer_data s ! i))) + 2 else 1)"

definition loop_weight :: "int \<Rightarrow> int \<Rightarrow> 'f timers \<Rightarrow> nat" where
  "loop_weight base tick s = (\<Sum>i \<in> set (timer_heap s). timer_weight base tick s i)"

text \<open>The call of one round, as the function's name, the timer and the tick it is given.\<close>

definition round_calls :: "int \<Rightarrow> 'f timers \<Rightarrow> nat \<Rightarrow> ('f \<times> nat \<times> int) list" where
  "round_calls tick s i =
     (let t = timer_data s ! i in
      case t_func t of None \<Rightarrow> []
      | Some f \<Rightarrow> [(f, i, if DIFF_TICK (t_tick t) tick < -1000 then tick else t_tick t)])"

definition run_calls :: "('f \<Rightarrow> nat \<Rightarrow> int \<Rightarrow> int \<Rightarrow> int \<Rightarrow> 'w \<Rightarrow> 'w) \<Rightarrow> 'f timers \<Rightarrow> ('f \<times> nat \<times> int) list \<Rightarrow> 'w \<Rightarrow> 'w" where
  "run_calls upd s l w = foldl (\<lambda>w (f, i, t). upd f i t (t_id (timer_data s ! i)) (t_data (timer_data s ! i)) w) w l"

lemma run_calls_cong:
  assumes "\<And>f i t. (f, i, t) \<in> set l \<Longrightarrow> t_id (timer_data s ! i) = t_id (timer_data s' ! i) \<and> t_data (timer_data s ! i) = t_data (timer_data s' ! i)"
  shows "run_calls upd s l w = run_calls upd s' l w"
proof -
  have "foldl (\<lambda>w (f, i, t). upd f i t (t_id (timer_data s ! i)) (t_data (timer_data s ! i)) w) w l
    = foldl (\<lambda>w (f, i, t). upd f i t (t_id (timer_data s' ! i)) (t_data (timer_data s' ! i)) w) w l"
    by (rule foldl_cong) (use assms in auto)
  then show ?thesis by (simp add: run_calls_def)
qed

text \<open>What the loop leaves behind.\<close>

definition loop_done :: "int \<Rightarrow> 'f timers \<Rightarrow> 'f timers \<Rightarrow> ('f \<times> nat \<times> int) list \<Rightarrow> bool" where
  "loop_done tick s s' l \<longleftrightarrow>
     (\<forall>i \<in> set (timer_heap s'). \<not> due tick s' i) \<and>
     set (timer_heap s') \<subseteq> set (timer_heap s) \<and>
     set (free_timer_list s) \<subseteq> set (free_timer_list s') \<and>
     (\<forall>i \<in> set (timer_heap s).
        (\<not> due tick s i \<longrightarrow> i \<in> set (timer_heap s') \<and> timer_data s' ! i = timer_data s ! i) \<and>
        (due tick s i \<and> t_type (timer_data s ! i) = TIMER_ONCE_AUTODEL \<longrightarrow> i \<in> set (free_timer_list s')) \<and>
        (t_type (timer_data s ! i) = TIMER_INTERVAL \<longrightarrow> i \<in> set (timer_heap s')
           \<and> (\<exists>n. timer_data s' ! i = (timer_data s ! i)\<lparr>t_tick := n\<rparr>)) \<and>
        (due tick s i \<longrightarrow> (\<forall>f. t_func (timer_data s ! i) = Some f \<longrightarrow> (\<exists>t. (f, i, t) \<in> set l)))) \<and>
     (\<forall>(f, i, t) \<in> set l. i \<in> set (timer_heap s) \<and> due tick s i \<and> t_func (timer_data s ! i) = Some f)"

lemma weight_round:
  assumes ok: "calm_ok base tick s" and mem: "tid \<in> set (timer_heap s)" and du: "due tick s tid"
    and other: "\<forall>i. i \<noteq> tid \<longrightarrow> timer_data s' ! i = timer_data s ! i"
    and res: "if t_type (timer_data s ! tid) = TIMER_INTERVAL
     then set (timer_heap s') = set (timer_heap s)
       \<and> (\<exists>n. timer_data s' ! tid = (timer_data s ! tid)\<lparr>t_tick := n\<rparr>
            \<and> tick_off base (t_tick (timer_data s ! tid)) < tick_off base n)
     else set (timer_heap s') = set (timer_heap s) - {tid}"
  shows "loop_weight base tick s' < loop_weight base tick s"
proof -
  let ?w = "timer_weight base tick s" and ?w' = "timer_weight base tick s'"
  have rest: "(\<Sum>i \<in> set (timer_heap s) - {tid}. ?w' i) = (\<Sum>i \<in> set (timer_heap s) - {tid}. ?w i)"
    by (rule sum.cong) (use other in \<open>auto simp: timer_weight_def\<close>)
  have split: "(\<Sum>i \<in> set (timer_heap s). v i) = v tid + (\<Sum>i \<in> set (timer_heap s) - {tid}. v i)" for v :: "nat \<Rightarrow> nat"
    using mem by (simp add: sum.remove)
  have "tick_off base (t_tick (timer_data s ! tid)) \<le> tick_off base tick"
    using du ok mem diff_tick_off [of base "t_tick (timer_data s ! tid)" tick]
    by (auto simp: due_def calm_ok_def pending_ok_def timers_sorted_def tick_set_def)
  then have wt: "?w tid = nat (tick_off base tick - tick_off base (t_tick (timer_data s ! tid))) + 2"
    by (simp add: timer_weight_def)
  show ?thesis
  proof (cases "t_type (timer_data s ! tid) = TIMER_INTERVAL")
    case True
    then have "?w' tid < ?w tid" using res wt by (auto simp: timer_weight_def)
    then show ?thesis using res True split [of ?w] split [of ?w'] rest by (simp add: loop_weight_def)
  next
    case False
    then show ?thesis using res wt rest split [of ?w] by (simp add: loop_weight_def)
  qed
qed

lemma loop_done_round:
  assumes ok: "calm_ok base tick s" and mem: "tid \<in> set (timer_heap s)" and du: "due tick s tid"
    and other: "\<forall>i. i \<noteq> tid \<longrightarrow> timer_data s1 ! i = timer_data s ! i"
    and res: "if t_type (timer_data s ! tid) = TIMER_INTERVAL
     then set (timer_heap s1) = set (timer_heap s) \<and> free_timer_list s1 = free_timer_list s
       \<and> (\<exists>n. timer_data s1 ! tid = (timer_data s ! tid)\<lparr>t_tick := n\<rparr>)
     else set (timer_heap s1) = set (timer_heap s) - {tid} \<and> free_timer_list s1 = tid # free_timer_list s"
    and dn: "loop_done tick s1 s' l"
  shows "loop_done tick s s' (round_calls tick s tid @ l)"
proof -
  have dother: "due tick s1 i = due tick s i" if "i \<noteq> tid" for i using other that by (simp add: due_def)
  have ty: "t_type (timer_data s ! tid) = TIMER_ONCE_AUTODEL \<or> t_type (timer_data s ! tid) = TIMER_INTERVAL"
    using ok mem by (auto simp: calm_ok_def pending_ok_def)
  have diff: "TIMER_ONCE_AUTODEL \<noteq> TIMER_INTERVAL" by (simp add: TIMER_ONCE_AUTODEL_def TIMER_INTERVAL_def)
  have rc: "(f, i, t) \<in> set (round_calls tick s tid) \<Longrightarrow> i = tid \<and> t_func (timer_data s ! tid) = Some f" for f i t
    by (auto simp: round_calls_def Let_def split: option.splits)
  have rc': "t_func (timer_data s ! tid) = Some f \<Longrightarrow> \<exists>t. (f, tid, t) \<in> set (round_calls tick s tid)" for f
    by (auto simp: round_calls_def Let_def)
  have h1: "set (timer_heap s1) \<subseteq> set (timer_heap s)" "set (free_timer_list s) \<subseteq> set (free_timer_list s1)"
    using res by (auto split: if_splits)
  have keep: "i \<in> set (timer_heap s1)" if "i \<in> set (timer_heap s)" "i \<noteq> tid" for i
    using res that by (auto split: if_splits)
  have a: "\<forall>i \<in> set (timer_heap s'). \<not> due tick s' i" "set (timer_heap s') \<subseteq> set (timer_heap s)"
    "set (free_timer_list s) \<subseteq> set (free_timer_list s')"
    using dn h1 by (auto simp: loop_done_def)
  have b: "(\<not> due tick s i \<longrightarrow> i \<in> set (timer_heap s') \<and> timer_data s' ! i = timer_data s ! i) \<and>
        (due tick s i \<and> t_type (timer_data s ! i) = TIMER_ONCE_AUTODEL \<longrightarrow> i \<in> set (free_timer_list s')) \<and>
        (t_type (timer_data s ! i) = TIMER_INTERVAL \<longrightarrow> i \<in> set (timer_heap s')
           \<and> (\<exists>n. timer_data s' ! i = (timer_data s ! i)\<lparr>t_tick := n\<rparr>)) \<and>
        (due tick s i \<longrightarrow> (\<forall>f. t_func (timer_data s ! i) = Some f \<longrightarrow> (\<exists>t. (f, i, t) \<in> set (round_calls tick s tid @ l))))"
    if i: "i \<in> set (timer_heap s)" for i
  proof (cases "i = tid")
    case False
    then have "i \<in> set (timer_heap s1)" using keep i by blast
    with dn have "(\<not> due tick s1 i \<longrightarrow> i \<in> set (timer_heap s') \<and> timer_data s' ! i = timer_data s1 ! i) \<and>
        (due tick s1 i \<and> t_type (timer_data s1 ! i) = TIMER_ONCE_AUTODEL \<longrightarrow> i \<in> set (free_timer_list s')) \<and>
        (t_type (timer_data s1 ! i) = TIMER_INTERVAL \<longrightarrow> i \<in> set (timer_heap s')
           \<and> (\<exists>n. timer_data s' ! i = (timer_data s1 ! i)\<lparr>t_tick := n\<rparr>)) \<and>
        (due tick s1 i \<longrightarrow> (\<forall>f. t_func (timer_data s1 ! i) = Some f \<longrightarrow> (\<exists>t. (f, i, t) \<in> set l)))"
      unfolding loop_done_def by blast
    then show ?thesis using other dother False by auto
  next
    case True
    show ?thesis
    proof (cases "t_type (timer_data s ! tid) = TIMER_INTERVAL")
      case iv: True
      then have r: "tid \<in> set (timer_heap s1)" "t_type (timer_data s1 ! tid) = TIMER_INTERVAL" using res mem by auto
      obtain n where n: "timer_data s1 ! tid = (timer_data s ! tid)\<lparr>t_tick := n\<rparr>" using res iv by auto
      have "tid \<in> set (timer_heap s') \<and> (\<exists>n. timer_data s' ! tid = (timer_data s1 ! tid)\<lparr>t_tick := n\<rparr>)"
        using dn r unfolding loop_done_def by blast
      then show ?thesis using True du iv diff n rc' by auto
    next
      case False
      then have "tid \<in> set (free_timer_list s1)" using res by simp
      then have "tid \<in> set (free_timer_list s')" using dn unfolding loop_done_def by blast
      then show ?thesis using True du False rc' by auto
    qed
  qed
  have c: "i \<in> set (timer_heap s) \<and> due tick s i \<and> t_func (timer_data s ! i) = Some f"
    if m: "(f, i, t) \<in> set (round_calls tick s tid @ l)" for f i t
  proof (cases "(f, i, t) \<in> set (round_calls tick s tid)")
    case True
    then show ?thesis using rc mem du by blast
  next
    case False
    then have k: "i \<in> set (timer_heap s1)" "due tick s1 i" "t_func (timer_data s1 ! i) = Some f"
      using m dn unfolding loop_done_def by auto
    show ?thesis
    proof (cases "i = tid")
      case False
      then show ?thesis using k h1 other dother by auto
    next
      case True
      then show ?thesis using k mem du res by (auto split: if_splits)
    qed
  qed
  show ?thesis unfolding loop_done_def using a b c by blast
qed

lemma calm_loop:
  "calm_ok base tick s \<Longrightarrow>
   \<exists>d s' l. timer_loop (calm_cb upd) tick d0 (s, w) = Some (d, s', run_calls upd s l w)
     \<and> calm_ok base tick s' \<and> loop_done tick s s' l
     \<and> (timer_heap s' \<noteq> [] \<longrightarrow> d = DIFF_TICK (t_tick (timer_data s' ! BHEAP_PEEK (timer_heap s'))) tick)"
proof (induction "loop_weight base tick s" arbitrary: s w d0 rule: less_induct)
  case less
  have ok: "calm_ok base tick s" by (rule less.prems)
  have stop: "loop_done tick s s []" if "\<forall>i \<in> set (timer_heap s). \<not> due tick s i"
  proof -
    have "\<exists>n. timer_data s ! i = (timer_data s ! i)\<lparr>t_tick := n\<rparr>" for i
      by (rule exI [of _ "t_tick (timer_data s ! i)"]) simp
    then show ?thesis using that by (auto simp: loop_done_def)
  qed
  show ?case
  proof (cases "timer_heap s = []")
    case True
    then show ?thesis using ok stop by (subst timer_loop.simps) (auto simp: run_calls_def intro!: exI [of _ "[]"])
  next
    case False
    define tid where "tid = BHEAP_PEEK (timer_heap s)"
    have mem: "tid \<in> set (timer_heap s)" using False by (simp add: tid_def BHEAP_PEEK_def)
    let ?d = "DIFF_TICK (t_tick (timer_data s ! tid)) tick"
    show ?thesis
    proof (cases "due tick s tid")
      case nd: False
      have "\<not> due tick s i" if i: "i \<in> set (timer_heap s)" for i
      proof -
        have w: "tick_off base tick < 2147483648" "set (timer_heap s) \<subseteq> tick_set base (timer_data s)"
          using ok by (simp_all add: calm_ok_def pending_ok_def timers_sorted_def)
        have "DIFFTICK_MINTOPCMP (timer_data s) tid i \<le> 0"
          using tick_heap.peek_min ok i by (auto simp: calm_ok_def timers_sorted_def tid_def)
        then show ?thesis using nd w i mem
          by (auto simp: due_def DIFFTICK_MINTOPCMP_def tick_set_def diff_tick_off [where base = base] subset_eq)
      qed
      then show ?thesis using ok stop nd False
        by (subst timer_loop.simps) (auto simp: Let_def tid_def [symmetric] due_def run_calls_def intro!: exI [of _ "[]"])
    next
      case du: True
      obtain s1 w1 where r: "timer_round (calm_cb upd) tick (s, w) = (s1, w1)" by fastforce
      note q = calm_round [OF ok False tid_def du r]
      have w1: "w1 = run_calls upd s (round_calls tick s tid) w"
        using q by (auto simp: run_calls_def round_calls_def Let_def split: option.splits)
      have lt: "loop_weight base tick s1 < loop_weight base tick s"
        by (rule weight_round [OF ok mem du]) (use q in \<open>auto split: if_splits\<close>)
      obtain d s' l where IH: "timer_loop (calm_cb upd) tick ?d (s1, w1) = Some (d, s', run_calls upd s1 l w1)"
        "calm_ok base tick s'" "loop_done tick s1 s' l"
        "timer_heap s' \<noteq> [] \<longrightarrow> d = DIFF_TICK (t_tick (timer_data s' ! BHEAP_PEEK (timer_heap s'))) tick"
        using less.hyps [OF lt] q by blast
      have dn: "loop_done tick s s' (round_calls tick s tid @ l)"
        by (rule loop_done_round [OF ok mem du _ _ IH(3)]) (use q in \<open>auto split: if_splits\<close>)
      have "run_calls upd s1 l w1 = run_calls upd s l w1"
      proof (rule run_calls_cong)
        fix f i t assume "(f, i, t) \<in> set l"
        then have i: "i \<in> set (timer_heap s1)" using IH(3) by (auto simp: loop_done_def)
        show "t_id (timer_data s1 ! i) = t_id (timer_data s ! i) \<and> t_data (timer_data s1 ! i) = t_data (timer_data s ! i)"
          using q i by (cases "i = tid") (auto split: if_splits)
      qed
      then have "timer_loop (calm_cb upd) tick d0 (s, w) = Some (d, s', run_calls upd s (round_calls tick s tid @ l) w)"
        using IH(1) False du r w1
        by (subst timer_loop.simps) (simp add: Let_def tid_def [symmetric] due_def run_calls_def)
      then show ?thesis using IH(2,4) dn by blast
    qed
  qed
qed

end
