(* ===== verification/TimerApi.thy ===== *)
theory TimerApi imports TimerLoop begin

text \<open>
  Timer functions that call the timer interface: the table stays well formed through a round of the loop.
\<close>

section \<open>Functions that use the timer interface\<close>

inductive api_step :: "'f timers \<Rightarrow> 'f timers \<Rightarrow> bool" where
  api_add: "api_step s (snd (add_timer s tick f ident data))"
| api_interval: "api_step s (snd (add_timer_interval s tick f ident data iv))"
| api_delete: "api_step s (snd (delete_timer s tid f))"
| api_settick: "0 \<le> tick \<Longrightarrow> tick < 4294967296 \<Longrightarrow> api_step s (snd (settick_timer s (int t) tick))"

inductive api_steps :: "'f timers \<Rightarrow> 'f timers \<Rightarrow> bool" where
  api_none: "api_steps s s"
| api_more: "api_steps s s' \<Longrightarrow> api_step s' s'' \<Longrightarrow> api_steps s s''"

lemma add_timer_interval_wf:
  assumes wf: "timers_wf busy s"
  shows "timers_wf busy (snd (add_timer_interval s tick f ident data iv))"
proof (cases "iv < 1")
  case True
  then show ?thesis using wf by (simp add: add_timer_interval_def)
next
  case False
  obtain tid s0 where a: "acquire_timer s = (tid, s0)" by fastforce
  let ?t = "\<lparr>t_tick = tick, t_func = f, t_type = TIMER_INTERVAL, t_interval = iv, t_id = ident, t_data = data\<rparr>"
  have "snd (add_timer_interval s tick f ident data iv) = push_timer_heap (set_timer s0 tid ?t) tid"
    using False a by (simp add: add_timer_interval_def set_timer_def)
  moreover have "timers_wf (tid # busy) (set_timer s0 tid ?t)" using acquire_timer_ok [OF wf a] by simp
  then have "timers_wf busy (push_timer_heap (set_timer s0 tid ?t) tid)" by (rule push_timer_wf)
  ultimately show ?thesis by simp
qed

lemma delete_timer_wf: "timers_wf busy s \<Longrightarrow> timers_wf busy (snd (delete_timer s tid f))"
  by (auto simp: delete_timer_def timers_wf_def)

lemma api_step_wf: "api_step s s' \<Longrightarrow> timers_wf busy s \<Longrightarrow> timers_wf busy s'"
proof (induction rule: api_step.induct)
  case (api_add s tick f ident data)
  then show ?case using add_timer_ok by (metis prod.collapse)
next
  case (api_settick tick s t)
  then show ?case using settick_timer_ok [of busy s t tick] by (metis prod.collapse)
qed (auto simp: add_timer_interval_wf delete_timer_wf)

lemma api_steps_wf: "api_steps s s' \<Longrightarrow> timers_wf busy s \<Longrightarrow> timers_wf busy s'"
  by (induction rule: api_steps.induct) (auto intro: api_step_wf)

lemma unheap_wf:
  assumes "timers_wf [] s" "timer_heap s \<noteq> []" "tid = BHEAP_PEEK (timer_heap s)"
  shows "timers_wf [tid] (timer_unheap tid s) \<and> tid < length (timer_data s)
    \<and> timer_data (timer_unheap tid s) = (timer_data s)[tid := (timer_data s ! tid)\<lparr>t_type := t_type (timer_data s ! tid) OR TIMER_REMOVE_HEAP\<rparr>]"
proof -
  have mem: "tid \<in> set (timer_heap s)" using assms by (simp add: BHEAP_PEEK_def)
  have d: "distinct (timer_heap s)" using assms by (simp add: timers_wf_def)
  have g: "set (BHEAP_POP c (timer_heap s)) = set (timer_heap s) - {tid}" "distinct (BHEAP_POP c (timer_heap s))" for c
    using popindex_set [OF d, of 0] assms by (simp_all add: BHEAP_POP_def BHEAP_PEEK_def)
  have "tid < timer_data_num s" using assms mem by (simp add: timers_wf_def)
  then have "tid < length (timer_data s)" using assms by (simp add: timers_wf_def)
  then show ?thesis using assms mem g by (auto simp: timer_unheap_def timers_wf_def Let_def)
qed

lemma requeue_wf: "timers_wf [tid] s \<Longrightarrow> timers_wf [] (timer_requeue tick tid s)"
  unfolding timer_requeue_def Let_def
  by (auto intro: push_timer_wf simp: push_timer_wf) (auto simp: timers_wf_def)

lemma timer_round_wf:
  assumes cb: "\<And>f tid t i d s w. api_steps s (fst (cb f tid t i d (s, w)))"
    and wf: "timers_wf [] (fst sw)" and ne: "timer_heap (fst sw) \<noteq> []"
  shows "timers_wf [] (fst (timer_round cb tick sw))"
proof -
  obtain s w where sw: "sw = (s, w)" by fastforce
  let ?tid = "BHEAP_PEEK (timer_heap s)"
  have u: "timers_wf [?tid] (timer_unheap ?tid s)" using unheap_wf wf ne sw by auto
  have c: "timers_wf [?tid] (fst (timer_call cb tick ?tid d (timer_unheap ?tid s, w)))" for d
    using u api_steps_wf [OF cb u] by (simp add: timer_call_def Let_def split: option.splits)
  have drop: "timers_wf [] x" if "timers_wf [?tid] x" for x :: "'a timers"
    using that by (auto simp: timers_wf_def)
  show ?thesis using c requeue_wf drop by (auto simp: timer_round_def Let_def sw)
qed

text \<open>A function that deletes its own timer: the id is neither pending nor free afterwards.\<close>

definition self_delete_cb :: "('f, 'w) timer_cb" where
  "self_delete_cb f tid tick ident data sw = (snd (delete_timer (fst sw) (int tid) (Some f)), snd sw)"

lemma self_delete_leaks:
  assumes wf: "timers_wf [] s" and ne: "timer_heap s \<noteq> []" and tid: "tid = BHEAP_PEEK (timer_heap s)"
    and f: "t_func (timer_data s ! tid) = Some f" and r: "timer_round self_delete_cb tick (s, w) = (s', w')"
  shows "tid \<notin> set (timer_heap s') \<and> tid \<notin> set (free_timer_list s') \<and> tid < timer_data_num s' \<and> t_type (timer_data s' ! tid) \<noteq> 0"
proof -
  let ?s1 = "timer_unheap tid s"
  have u: "timers_wf [tid] ?s1" "tid < length (timer_data s)"
    "timer_data ?s1 = (timer_data s)[tid := (timer_data s ! tid)\<lparr>t_type := t_type (timer_data s ! tid) OR TIMER_REMOVE_HEAP\<rparr>]"
    using unheap_wf [OF wf ne tid] by auto
  have tn: "tid < timer_data_num ?s1" using u(1) by (auto simp: timers_wf_def)
  let ?s2 = "snd (delete_timer ?s1 (int tid) (Some f))"
  have f1: "t_func (timer_data ?s1 ! tid) = Some f" using f u by simp
  then have s2: "?s2 = ?s1\<lparr>timer_data := (timer_data ?s1)[tid := (timer_data ?s1 ! tid)\<lparr>t_func := None, t_type := TIMER_ONCE_AUTODEL\<rparr>]\<rparr>"
    using tn by (simp add: delete_timer_def)
  have c: "timer_call self_delete_cb tick tid d (?s1, w) = (?s2, w)" for d
    using f1 by (simp add: timer_call_def self_delete_cb_def Let_def)
  have ty: "t_type (timer_data ?s2 ! tid) = 1" using u by (simp add: s2 TIMER_ONCE_AUTODEL_def)
  have "s' = ?s2" using r c ty unfolding timer_round_def Let_def fst_conv snd_conv tid [symmetric]
    by (simp add: TIMER_REMOVE_HEAP_def)
  moreover have "tid \<notin> set (timer_heap ?s1)" "tid \<notin> set (free_timer_list ?s1)" using u(1) by (auto simp: timers_wf_def)
  ultimately show ?thesis using tn ty by (simp add: s2)
qed

end
