(* ===== verification/TimerRun.thy ===== *)
theory TimerRun imports TimerApi begin

text \<open>
  The loop of \<^verbatim>\<open>do_timer\<close> with timer functions that use the timer interface: it ends when they ask for later
  ticks only, because every round lessens the time by which the pending timers are late.
\<close>

section \<open>Functions that ask for later ticks\<close>

definition later :: "int \<Rightarrow> int \<Rightarrow> int \<Rightarrow> bool" where
  "later base now t \<longleftrightarrow> tick_off base now < tick_off base t \<and> tick_off base t < 2147483648"

inductive later_step :: "int \<Rightarrow> int \<Rightarrow> 'f timers \<Rightarrow> 'f timers \<Rightarrow> bool" for base now where
  later_add: "later base now tick \<Longrightarrow> later_step base now s (snd (add_timer s tick f ident data))"
| later_interval: "later base now tick \<Longrightarrow> tick_off base now + iv < 2147483648 \<Longrightarrow>
    later_step base now s (snd (add_timer_interval s tick f ident data iv))"
| later_delete: "later_step base now s (snd (delete_timer s i f))"
| later_settick: "0 \<le> tick \<Longrightarrow> tick < 4294967296 \<Longrightarrow> later base now (if tick = 4294967295 then 0 else tick) \<Longrightarrow>
    later_step base now s (snd (settick_timer s (int i) tick))"

inductive later_steps :: "int \<Rightarrow> int \<Rightarrow> 'f timers \<Rightarrow> 'f timers \<Rightarrow> bool" for base now where
  later_none: "later_steps base now s s"
| later_more: "later_steps base now s s' \<Longrightarrow> later_step base now s' s'' \<Longrightarrow> later_steps base now s s''"

definition later_cb :: "int \<Rightarrow> int \<Rightarrow> ('f, 'w) timer_cb \<Rightarrow> bool" where
  "later_cb base now cb \<longleftrightarrow> (\<forall>f tid t i d s w. later_steps base now s (fst (cb f tid t i d (s, w))))"

text \<open>While the function of a timer runs: its entry is as the loop left it, or the timer was deleted.\<close>

definition run_ok :: "int \<Rightarrow> int \<Rightarrow> nat \<Rightarrow> 'f TimerData \<Rightarrow> 'f timers \<Rightarrow> bool" where
  "run_ok base now tid e s \<longleftrightarrow> timers_wf [tid] s \<and> timers_sorted base s \<and> pending_ok base now s \<and>
     (timer_data s ! tid = e \<or> t_type (timer_data s ! tid) = TIMER_ONCE_AUTODEL)"

text \<open>How late the pending timers are.\<close>

definition tick_weight :: "int \<Rightarrow> int \<Rightarrow> int \<Rightarrow> nat" where
  "tick_weight base now t = (if tick_off base t \<le> tick_off base now then nat (tick_off base now - tick_off base t) + 1 else 0)"

definition due_weight :: "int \<Rightarrow> int \<Rightarrow> 'f timers \<Rightarrow> nat" where
  "due_weight base now s = (\<Sum>i \<in> set (timer_heap s). tick_weight base now (t_tick (timer_data s ! i)))"

lemma tick_weight_later: "later base now t \<Longrightarrow> tick_weight base now t = 0"
  by (simp add: later_def tick_weight_def)

lemma due_weight_cong:
  assumes "set (timer_heap s') = set (timer_heap s)" "\<And>i. i \<in> set (timer_heap s) \<Longrightarrow> t_tick (timer_data s' ! i) = t_tick (timer_data s ! i)"
  shows "due_weight base now s' = due_weight base now s"
  using assms by (simp add: due_weight_def)

lemma due_weight_insert:
  assumes "set (timer_heap s') = insert k (set (timer_heap s))" "k \<notin> set (timer_heap s)"
    "\<And>i. i \<in> set (timer_heap s) \<Longrightarrow> t_tick (timer_data s' ! i) = t_tick (timer_data s ! i)"
  shows "due_weight base now s' = tick_weight base now (t_tick (timer_data s' ! k)) + due_weight base now s"
  using assms by (simp add: due_weight_def)

section \<open>A call of the timer interface\<close>

lemma new_timer_ok:
  assumes ok: "run_ok base now tid e s" and a: "acquire_timer s = (k, s0)" and l: "later base now (t_tick x)"
    and x: "t_type x = TIMER_ONCE_AUTODEL \<or> t_type x = TIMER_INTERVAL"
      "t_type x = TIMER_INTERVAL \<Longrightarrow> 0 < t_interval x \<and> tick_off base now + t_interval x < 2147483648"
    and s': "s' = push_timer_heap (set_timer s0 k x) k"
  shows "run_ok base now tid e s' \<and> due_weight base now s' \<le> due_weight base now s \<and> set (timer_heap s) \<subseteq> set (timer_heap s')"
proof -
  have wf: "timers_wf [tid] s" "timers_sorted base s" "pending_ok base now s"
    using ok by (simp_all add: run_ok_def)
  note q = acquire_timer_ok [OF wf(1) a]
  have kl: "k < length (timer_data s0)" "tid < timer_data_num s" "k \<noteq> tid"
    using q wf(1) by (auto simp: timers_wf_def)
  have num: "i < timer_data_num s" if "i \<in> set (timer_heap s)" for i
    using wf(1) that by (simp add: timers_wf_def)
  have h: "set (timer_heap s') = insert k (set (timer_heap s))"
    using q by (simp add: s' push_timer_heap_def push_set)
  have td: "timer_data s' = (timer_data s0)[k := x]"
    by (simp add: s' push_timer_heap_def)
  have old: "timer_data s' ! i = timer_data s ! i" if "i < timer_data_num s" "i \<noteq> k" for i
    using q that by (simp add: td)
  have old': "timer_data s' ! i = timer_data s ! i" if "i \<in> set (timer_heap s)" for i
    using old num that q by auto
  have new: "timer_data s' ! k = x"
    using kl by (simp add: td)
  have "timers_wf [tid] s'"
    unfolding s' using q by (intro push_timer_wf) simp
  moreover have "timers_sorted base (set_timer s0 k x)"
  proof (rule timers_sorted_cong [OF wf(2)])
    fix i
    assume i: "i \<in> set (timer_heap s)"
    then have "i \<noteq> k"
      using q by auto
    then show "t_tick (timer_data (set_timer s0 k x) ! i) = t_tick (timer_data s ! i)"
      using q num [OF i] by simp
  qed (use q in simp)
  then have "timers_sorted base s'"
    unfolding s' using l kl by (intro push_timer_sorted) (simp_all add: later_def)
  moreover have "pending_ok base now s'"
    using wf(3) x old' new unfolding pending_ok_def h by auto
  moreover have "timer_data s' ! tid = timer_data s ! tid"
    using old kl by auto
  ultimately have "run_ok base now tid e s'"
    using ok by (simp add: run_ok_def)
  moreover have "due_weight base now s' = due_weight base now s"
    using due_weight_insert [OF h, of base now] q old' new tick_weight_later [OF l] by simp
  ultimately show ?thesis
    using h by auto
qed

lemma later_step_ok:
  assumes "later_step base now s s'" "run_ok base now tid e s"
  shows "run_ok base now tid e s' \<and> due_weight base now s' \<le> due_weight base now s \<and> set (timer_heap s) \<subseteq> set (timer_heap s')"
  using assms
proof (induction rule: later_step.induct)
  case (later_add tick s f ident data)
  obtain k s0 where a: "acquire_timer s = (k, s0)"
    by fastforce
  show ?case
    by (rule new_timer_ok [OF later_add(2) a, of "\<lparr>t_tick = tick, t_func = f, t_type = TIMER_ONCE_AUTODEL, t_interval = 1000, t_id = ident, t_data = data\<rparr>"])
      (use later_add(1) a in \<open>simp_all add: add_timer_def set_timer_def TIMER_ONCE_AUTODEL_def TIMER_INTERVAL_def\<close>)
next
  case (later_interval tick iv s f ident data)
  show ?case
  proof (cases "iv < 1")
    case True
    then show ?thesis
      using later_interval(3) by (simp add: add_timer_interval_def)
  next
    case False
    obtain k s0 where a: "acquire_timer s = (k, s0)"
      by fastforce
    show ?thesis
      by (rule new_timer_ok [OF later_interval(3) a, of "\<lparr>t_tick = tick, t_func = f, t_type = TIMER_INTERVAL, t_interval = iv, t_id = ident, t_data = data\<rparr>"])
        (use later_interval(1,2) a False in \<open>simp_all add: add_timer_interval_def set_timer_def\<close>)
  qed
next
  case (later_delete s i f)
  show ?case
  proof (cases "snd (delete_timer s i f) = s")
    case True
    then show ?thesis
      using later_delete by simp
  next
    case False
    then have i: "nat i < timer_data_num s" and eq: "snd (delete_timer s i f) =
        set_timer s (nat i) ((timer_data s ! nat i)\<lparr>t_func := None, t_type := TIMER_ONCE_AUTODEL\<rparr>)"
      by (auto simp: delete_timer_def set_timer_def split: if_splits)
    let ?s = "snd (delete_timer s i f)"
    have w: "timers_wf [tid] s" "timers_sorted base s" "pending_ok base now s"
      using later_delete by (simp_all add: run_ok_def)
    then have il: "nat i < length (timer_data s)"
      using i by (simp add: timers_wf_def)
    have tk: "t_tick (timer_data ?s ! j) = t_tick (timer_data s ! j)" for j
      using il by (simp add: eq nth_list_update)
    have "timers_sorted base ?s"
      by (rule timers_sorted_cong [OF w(2)]) (simp_all add: tk, simp add: eq)
    moreover have "pending_ok base now ?s"
      using w(3) il by (auto simp: pending_ok_def eq nth_list_update TIMER_ONCE_AUTODEL_def TIMER_INTERVAL_def)
    ultimately have "run_ok base now tid e ?s"
      using later_delete w il by (auto simp: run_ok_def eq nth_list_update)
    moreover have "due_weight base now ?s = due_weight base now s"
      by (rule due_weight_cong) (simp_all add: tk, simp add: eq)
    ultimately show ?thesis
      by (simp add: eq)
  qed
next
  case (later_settick tick s i)
  let ?t = "if tick = 4294967295 then 0 else tick"
  have w: "timers_wf [tid] s" "timers_sorted base s" "pending_ok base now s"
    using later_settick by (simp_all add: run_ok_def)
  obtain r s' where r: "settick_timer s (int i) tick = (r, s')"
    by fastforce
  note q = settick_timer_ok [OF w(1) r later_settick(1,2), of base]
  show ?case
  proof (cases "i \<in> set (timer_heap s)")
    case False
    then show ?thesis
      using q r later_settick by simp
  next
    case True
    then have td: "timer_data s' = (timer_data s)[i := (timer_data s ! i)\<lparr>t_tick := ?t\<rparr>]" and h: "set (timer_heap s') = set (timer_heap s)"
      and w': "timers_wf [tid] s'" "timers_sorted base s'"
      using q w later_settick(3) by (simp_all add: later_def)
    have "i < timer_data_num s" "i \<noteq> tid"
      using w(1) True by (auto simp: timers_wf_def)
    then have il: "i < length (timer_data s)" "i \<noteq> tid"
      using w(1) by (simp_all add: timers_wf_def)
    have "pending_ok base now s'"
      using w(3) il unfolding pending_ok_def h td by (auto simp: nth_list_update)
    then have "run_ok base now tid e s'"
      using later_settick(4) w' il by (simp add: run_ok_def td)
    moreover have "due_weight base now s' \<le> due_weight base now s"
      unfolding due_weight_def h using il tick_weight_later [OF later_settick(3)] by (intro sum_mono) (auto simp: td nth_list_update)
    ultimately show ?thesis
      using h r by simp
  qed
qed

lemma later_steps_ok:
  assumes "later_steps base now s s'" "run_ok base now tid e s"
  shows "run_ok base now tid e s' \<and> due_weight base now s' \<le> due_weight base now s \<and> set (timer_heap s) \<subseteq> set (timer_heap s')"
  using assms by (induction rule: later_steps.induct) (use later_step_ok in \<open>force+\<close>)

section \<open>A round and the loop\<close>

lemma later_round:
  assumes ok: "calm_ok base now s" and ne: "timer_heap s \<noteq> []" and tid: "tid = BHEAP_PEEK (timer_heap s)" and du: "due now s tid"
    and cb: "later_cb base now cb" and r: "timer_round cb now (s, w) = (s', w')"
  shows "calm_ok base now s' \<and> due_weight base now s' < due_weight base now s \<and> set (timer_heap s) - {tid} \<subseteq> set (timer_heap s')"
proof -
  let ?h = "timer_heap s" and ?t = "timer_data s ! tid"
  have wf: "timers_wf [] s" "timers_sorted base s" "pending_ok base now s"
    using ok by (simp_all add: calm_ok_def)
  have mem: "tid \<in> set ?h"
    using ne tid by (simp add: BHEAP_PEEK_def)
  have "tid < timer_data_num s"
    using wf(1) mem by (simp add: timers_wf_def)
  then have tl: "tid < length (timer_data s)"
    using wf(1) by (simp add: timers_wf_def)
  have d: "distinct ?h"
    using wf(1) by (simp add: timers_wf_def)
  have ty: "t_type ?t = 1 \<or> t_type ?t = 2"
    using wf(3) mem by (auto simp: pending_ok_def TIMER_ONCE_AUTODEL_def TIMER_INTERVAL_def)
  have bits: "(t_type ?t OR 16) AND 16 \<noteq> 0" "(t_type ?t OR 16) AND NOT 16 = t_type ?t" "(1 :: int) AND 16 = 0"
    using ty by auto
  define e where "e = ?t\<lparr>t_type := t_type ?t OR TIMER_REMOVE_HEAP\<rparr>"
  let ?g = "BHEAP_POP (DIFFTICK_MINTOPCMP (timer_data s)) ?h"
  have g: "set ?g = set ?h - {tid}" "distinct ?g"
    using popindex_set [OF d, of 0] ne tid by (simp_all add: BHEAP_POP_def BHEAP_PEEK_def)
  define s1 where "s1 = timer_unheap tid s"
  have s1: "timer_heap s1 = ?g" "free_timer_list s1 = free_timer_list s" "timer_data_num s1 = timer_data_num s" "timer_data s1 = (timer_data s)[tid := e]"
    by (simp_all add: s1_def timer_unheap_def Let_def e_def)
  have "heap_ok (DIFFTICK_MINTOPCMP (timer_data s)) ?g"
    using tick_heap.bheap_pop_ok [of "timer_data s" ?h base] ne wf(2) by (simp add: timers_sorted_def)
  then have "timers_sorted base (s\<lparr>timer_heap := ?g\<rparr>)"
    using wf(2) g by (auto simp: timers_sorted_def)
  then have "timers_sorted base s1"
    by (rule timers_sorted_cong) (use s1 g in auto)
  moreover have "timers_wf [tid] s1"
    using wf(1) mem g s1 by (auto simp: timers_wf_def)
  moreover have "pending_ok base now s1"
    using wf(3) g by (auto simp: pending_ok_def s1)
  ultimately have r1: "run_ok base now tid e s1"
    using tl by (simp add: run_ok_def s1)
  have w1: "due_weight base now s = tick_weight base now (t_tick ?t) + due_weight base now s1"
    using g mem by (intro due_weight_insert) (auto simp: s1)
  have offt: "tick_off base (t_tick ?t) < 2147483648" and offn: "tick_off base now < 2147483648"
    using wf(2,3) mem by (auto simp: timers_sorted_def tick_set_def pending_ok_def)
  then have le: "tick_off base (t_tick ?t) \<le> tick_off base now"
    using du diff_tick_off [OF offt offn] by (simp add: due_def)
  define c where "c = timer_call cb now tid (DIFF_TICK (t_tick ?t) now) (s1, w)"
  define s2 where "s2 = fst c"
  have "later_steps base now s1 s2"
    using cb later_none unfolding s2_def c_def timer_call_def later_cb_def by (auto simp: Let_def split: option.split)
  note q = later_steps_ok [OF this r1]
  then have w2: "timers_wf [tid] s2" "timers_sorted base s2" "pending_ok base now s2" "timer_data s2 ! tid = e \<or> t_type (timer_data s2 ! tid) = 1"
    by (simp_all add: run_ok_def TIMER_ONCE_AUTODEL_def)
  have "tid < length (timer_data s2)" "tid \<notin> set (timer_heap s2)"
    using w2(1) by (auto simp: timers_wf_def)
  note t2 = this
  have keep: "(timer_data s2)[tid := x] ! i = timer_data s2 ! i" if "i \<in> set (timer_heap s2)" for x i
    using that t2 by (cases "i = tid") auto
  have h2: "set ?h - {tid} \<subseteq> set (timer_heap s2)"
    using q g by (simp add: s1)
  have s': "s' = (if t_type (timer_data s2 ! tid) AND 16 \<noteq> 0 then timer_requeue now tid s2 else s2)"
    using r unfolding timer_round_def Let_def fst_conv snd_conv tid [symmetric] s1_def [symmetric] c_def [symmetric] s2_def [symmetric]
    by (auto simp: TIMER_REMOVE_HEAP_def s2_def split: if_splits)
  have wt: "0 < tick_weight base now (t_tick ?t)"
    using le by (simp add: tick_weight_def)
  have drop: "timers_wf [] x" if "timers_wf [tid] x" for x :: "'a timers"
    using that by (auto simp: timers_wf_def)
  show ?thesis
  proof (cases "timer_data s2 ! tid = e")
    case False
    then have "s' = s2"
      using w2(4) bits(3) by (simp add: s')
    then show ?thesis
      using w2 drop q w1 wt h2 by (simp add: calm_ok_def)
  next
    case e: True
    have e16: "t_type e AND 16 \<noteq> 0" "e\<lparr>t_type := t_type e AND NOT TIMER_REMOVE_HEAP\<rparr> = ?t"
      using bits(1,2) by (simp_all add: e_def TIMER_REMOVE_HEAP_def)
    then have rq: "s' = timer_requeue now tid s2"
      by (simp add: s' e)
    show ?thesis
    proof (cases "t_type ?t = 2")
      case False
      have s'': "s' = (set_timer s2 tid (?t\<lparr>t_type := 0\<rparr>))\<lparr>free_timer_list := tid # free_timer_list s2\<rparr>"
        unfolding rq timer_requeue_def e e16(2) Let_def using False by (simp add: TIMER_INTERVAL_def)
      have "timers_wf [] s'"
        using w2(1) by (auto simp: s'' timers_wf_def)
      moreover have "timers_sorted base s'"
        by (rule timers_sorted_cong [OF w2(2)]) (simp_all add: s'' keep)
      moreover have "pending_ok base now s'"
        using w2(3) by (simp add: s'' pending_ok_def keep)
      moreover have "due_weight base now s' = due_weight base now s2"
        by (rule due_weight_cong) (simp_all add: s'' keep)
      ultimately show ?thesis
        using q w1 wt h2 by (simp add: calm_ok_def s'')
    next
      case True
      let ?iv = "t_interval ?t"
      have iv: "0 < ?iv" "tick_off base now + ?iv < 2147483648"
        using wf(3) mem True by (auto simp: pending_ok_def TIMER_INTERVAL_def)
      define n where "n = (if DIFF_TICK (t_tick ?t) now < -1000 then u32 (now + ?iv) else u32 (t_tick ?t + ?iv))"
      have n: "tick_off base n < 2147483648" "tick_off base (t_tick ?t) < tick_off base n"
        using tick_off_add [of ?iv base now] tick_off_add [of ?iv base "t_tick ?t"] iv le by (auto simp: n_def)
      define s3 where "s3 = set_timer s2 tid (?t\<lparr>t_tick := n\<rparr>)"
      have s'': "s' = push_timer_heap s3 tid"
        unfolding rq timer_requeue_def e e16(2) Let_def s3_def n_def using True by (simp add: TIMER_INTERVAL_def)
      have w3: "timers_wf [tid] s3"
        using w2(1) by (simp add: s3_def)
      have "timers_sorted base s3"
        by (rule timers_sorted_cong [OF w2(2)]) (simp_all add: s3_def keep)
      then have "timers_sorted base s'"
        unfolding s'' using n t2 by (intro push_timer_sorted) (simp_all add: s3_def)
      moreover have hp: "set (timer_heap s') = insert tid (set (timer_heap s2))"
        by (simp add: s'' s3_def push_timer_heap_def push_set)
      moreover have td: "timer_data s' = (timer_data s2)[tid := ?t\<lparr>t_tick := n\<rparr>]"
        by (simp add: s'' s3_def push_timer_heap_def)
      moreover have "pending_ok base now s'"
        using w2(3) t2 True iv unfolding pending_ok_def hp td by (auto simp: nth_list_update TIMER_INTERVAL_def)
      moreover have "due_weight base now s' = tick_weight base now n + due_weight base now s2"
        by (subst due_weight_insert [OF hp t2(2)]) (simp_all add: td keep t2(1))
      moreover have "tick_weight base now n < tick_weight base now (t_tick ?t)"
        using n(2) le by (auto simp: tick_weight_def)
      ultimately show ?thesis
        using push_timer_wf [OF w3] q w1 h2 by (auto simp: calm_ok_def s'')
    qed
  qed
qed

definition due_top :: "int \<Rightarrow> 'f timers \<Rightarrow> bool" where
  "due_top now s \<longleftrightarrow> timer_heap s \<noteq> [] \<and> due now s (BHEAP_PEEK (timer_heap s))"

lemma none_due:
  assumes ok: "calm_ok base now s" and n: "\<not> due_top now s" and i: "i \<in> set (timer_heap s)"
  shows "\<not> due now s i"
proof -
  let ?p = "BHEAP_PEEK (timer_heap s)"
  have mem: "?p \<in> set (timer_heap s)" "timer_heap s \<noteq> []"
    using i by (cases "timer_heap s"; simp add: BHEAP_PEEK_def)+
  have "tick_off base now < 2147483648" "set (timer_heap s) \<subseteq> tick_set base (timer_data s)"
    using ok by (simp_all add: calm_ok_def pending_ok_def timers_sorted_def)
  moreover have "DIFFTICK_MINTOPCMP (timer_data s) ?p i \<le> 0"
    using tick_heap.peek_min ok i by (auto simp: calm_ok_def timers_sorted_def)
  ultimately show ?thesis
    using n i mem by (auto simp: due_top_def due_def DIFFTICK_MINTOPCMP_def tick_set_def diff_tick_off [where base = base] subset_eq)
qed

text \<open>The timers that the rounds run.\<close>

definition timer_rounds :: "('f, 'w) timer_cb \<Rightarrow> int \<Rightarrow> nat \<Rightarrow> 'f timers \<times> 'w \<Rightarrow> 'f timers \<times> 'w" where
  "timer_rounds cb now k sw = (timer_round cb now ^^ k) sw"

definition ran :: "('f, 'w) timer_cb \<Rightarrow> int \<Rightarrow> nat \<Rightarrow> 'f timers \<times> 'w \<Rightarrow> nat set" where
  "ran cb now n sw = {BHEAP_PEEK (timer_heap (fst (timer_rounds cb now k sw))) | k. k < n}"

lemma timer_rounds_Suc: "timer_rounds cb now (Suc k) sw = timer_rounds cb now k (timer_round cb now sw)"
  by (simp add: timer_rounds_def funpow_swap1)

lemma timer_rounds_0: "timer_rounds cb now 0 sw = sw"
  by (simp add: timer_rounds_def)

lemma ran_Suc: "ran cb now (Suc n) sw = insert (BHEAP_PEEK (timer_heap (fst sw))) (ran cb now n (timer_round cb now sw))"
proof -
  let ?p = "\<lambda>k sw. BHEAP_PEEK (timer_heap (fst (timer_rounds cb now k sw)))"
  have r: "ran cb now m sw = (\<lambda>k. ?p k sw) ` {..<m}" for m sw
    by (auto simp: ran_def)
  show ?thesis
    unfolding r lessThan_Suc_eq_insert_0 image_insert image_image timer_rounds_Suc timer_rounds_0 by simp
qed

lemma later_loop:
  assumes "later_cb base now cb" "calm_ok base now s"
  shows "\<exists>d s' w' n. timer_loop cb now d0 (s, w) = Some (d, s', w') \<and> calm_ok base now s' \<and> \<not> due_top now s' \<and>
     timer_rounds cb now n (s, w) = (s', w') \<and> (\<forall>k < n. due_top now (fst (timer_rounds cb now k (s, w)))) \<and>
     set (timer_heap s) \<subseteq> set (timer_heap s') \<union> ran cb now n (s, w)"
  using assms(2)
proof (induction "due_weight base now s" arbitrary: s w d0 rule: less_induct)
  case less
  show ?case
  proof (cases "due_top now s")
    case False
    then have "timer_loop cb now d0 (s, w) = Some (if timer_heap s = [] then d0 else DIFF_TICK (t_tick (timer_data s ! BHEAP_PEEK (timer_heap s))) now, s, w)"
      by (subst timer_loop.simps) (auto simp: due_top_def due_def Let_def)
    moreover have "\<forall>k < 0. due_top now (fst (timer_rounds cb now k (s, w)))"
      by simp
    ultimately show ?thesis
      using less.prems False timer_rounds_0 [of cb now "(s, w)"] by blast
  next
    case True
    let ?tid = "BHEAP_PEEK (timer_heap s)" and ?d = "DIFF_TICK (t_tick (timer_data s ! BHEAP_PEEK (timer_heap s))) now"
    obtain s1 w1 where r: "timer_round cb now (s, w) = (s1, w1)"
      by fastforce
    have q: "calm_ok base now s1" "due_weight base now s1 < due_weight base now s" "set (timer_heap s) - {?tid} \<subseteq> set (timer_heap s1)"
      using later_round [OF less.prems _ refl _ assms(1) r] True by (simp_all add: due_top_def)
    obtain d s' w' n where IH: "timer_loop cb now ?d (s1, w1) = Some (d, s', w')" "calm_ok base now s'" "\<not> due_top now s'"
        "timer_rounds cb now n (s1, w1) = (s', w')" "\<forall>k < n. due_top now (fst (timer_rounds cb now k (s1, w1)))"
        "set (timer_heap s1) \<subseteq> set (timer_heap s') \<union> ran cb now n (s1, w1)"
      using less.hyps [OF q(2,1)] by metis
    have "timer_loop cb now d0 (s, w) = Some (d, s', w')"
      using IH(1) True r by (subst timer_loop.simps) (simp add: due_top_def due_def Let_def)
    moreover have "\<forall>k < Suc n. due_top now (fst (timer_rounds cb now k (s, w)))"
      using IH(5) True r by (auto simp: less_Suc_eq_0_disj timer_rounds_Suc timer_rounds_0)
    moreover have "set (timer_heap s) \<subseteq> set (timer_heap s') \<union> ran cb now (Suc n) (s, w)"
      using q(3) IH(6) by (auto simp: ran_Suc r)
    ultimately show ?thesis
      using IH(2,3,4) r timer_rounds_Suc [of cb now n "(s, w)"] by metis
  qed
qed

end
