(* ===== verification/TimerProps.thy ===== *)
theory TimerProps imports TimerRun begin

text \<open>
  The properties of the timers, each with a concrete instance of its hypotheses. The test table has
  a due single-use timer 0, a due repeating timer 1 and a timer 2 that is not due at tick 100.
\<close>

definition test_timers :: "nat timers" where
  "test_timers = \<lparr>timer_data =
       [\<lparr>t_tick = 90, t_func = Some 7, t_type = 1, t_interval = 1000, t_id = 5, t_data = 6\<rparr>,
        \<lparr>t_tick = 95, t_func = Some 8, t_type = 2, t_interval = 50, t_id = 0, t_data = 0\<rparr>,
        \<lparr>t_tick = 200, t_func = Some 9, t_type = 1, t_interval = 1000, t_id = 0, t_data = 0\<rparr>],
     timer_data_num = 3, free_timer_list = [], timer_heap = [0, 1, 2]\<rparr>"

lemma test_timers_wf: "timers_wf [] test_timers"
  by (auto simp: timers_wf_def test_timers_def)

lemma test_timers_calm: "calm_ok 0 100 test_timers"
proof -
  have "timers_sorted 0 test_timers"
    by (simp add: timers_sorted_def test_timers_def heap_ok_def par_def tick_set_def tick_off_def u32_def
        DIFFTICK_MINTOPCMP_def DIFF_TICK_def s32_def All_less_Suc numeral_eq_Suc)
  moreover have "pending_ok 0 100 test_timers"
    by (simp add: pending_ok_def test_timers_def tick_off_def u32_def TIMER_ONCE_AUTODEL_def TIMER_INTERVAL_def)
  ultimately show ?thesis using test_timers_wf by (simp add: calm_ok_def)
qed

text \<open>C24: \<open>add_timer\<close> hands out an id that is neither pending nor running, makes exactly this id
  pending with the given tick, function and data as a single-use timer, leaves every other timer
  alone, and keeps the heap sorted by tick when the tick is within half the clock's range.\<close>

theorem add_timer_fresh:
  assumes "timers_wf busy s" "add_timer s tick f ident data = (tid, s')"
  shows "timers_wf busy s' \<and> tid \<notin> set (timer_heap s) \<union> set busy
    \<and> set (timer_heap s') = insert tid (set (timer_heap s))
    \<and> timer_data s' ! tid = \<lparr>t_tick = tick, t_func = f, t_type = TIMER_ONCE_AUTODEL, t_interval = 1000, t_id = ident, t_data = data\<rparr>
    \<and> (\<forall>i < timer_data_num s. i \<noteq> tid \<longrightarrow> timer_data s' ! i = timer_data s ! i)
    \<and> (timers_sorted base s \<longrightarrow> tick_off base tick < 2147483648 \<longrightarrow> timers_sorted base s')"
  by (rule add_timer_ok [OF assms])

theorem add_timer_fresh_witness:
  "fst (add_timer test_timers 150 (Some 3) 1 2) \<notin> {0, 1, 2}"
  using add_timer_fresh [OF test_timers_wf prod.collapse [symmetric], of 150 "Some 3" 1 2]
  by (auto simp: test_timers_def)

text \<open>\<open>settick_timer\<close> refuses an id that is not pending and changes nothing; for a pending id it
  sets that timer's tick (0 in place of the reserved value) and nothing else, keeps the set of pending
  timers and the order of the heap, and never answers the error code.\<close>

theorem settick_timer_exact:
  assumes "timers_wf busy s" "settick_timer s (int tid) tick = (r, s')" "0 \<le> tick" "tick < 4294967296"
  shows "timers_wf busy s' \<and> set (timer_heap s') = set (timer_heap s)
    \<and> (if tid \<in> set (timer_heap s)
       then timer_data s' = (timer_data s)[tid := (timer_data s ! tid)\<lparr>t_tick := (if tick = 4294967295 then 0 else tick)\<rparr>]
         \<and> r = s32 (if tick = 4294967295 then 0 else tick) \<and> r \<noteq> -1
         \<and> (timers_sorted base s \<longrightarrow> tick_off base (if tick = 4294967295 then 0 else tick) < 2147483648 \<longrightarrow> timers_sorted base s')
       else s' = s \<and> r = -1)"
  by (rule settick_timer_ok [OF assms])

theorem settick_timer_exact_witness:
  "fst (settick_timer test_timers (int 9) 300) = -1 \<and> fst (settick_timer test_timers (int 2) 300) \<noteq> -1"
proof -
  have h: "set (timer_heap test_timers) = {0, 1, 2}" by (simp add: test_timers_def)
  have "fst (settick_timer test_timers (int 9) 300) = -1"
    using settick_timer_exact [OF test_timers_wf prod.collapse [symmetric], of 300 9 0] unfolding h by simp
  moreover have "fst (settick_timer test_timers (int 2) 300) \<noteq> -1"
    using settick_timer_exact [OF test_timers_wf prod.collapse [symmetric], of 300 2 0] unfolding h by simp
  ultimately show ?thesis by simp
qed

text \<open>\<open>delete_timer\<close> answers -1 for an id outside the table and -2 when another function is
  registered, changing nothing; otherwise the timer keeps its place in the heap but has no function
  any more and is single-use, so that it is released without a call when its tick comes.\<close>

theorem delete_timer_exact:
  "delete_timer s tid f =
     (if get_timer s tid = None then (-1, s)
      else if t_func (the (get_timer s tid)) \<noteq> f then (-2, s)
      else (0, set_timer s (nat tid) ((timer_data s ! nat tid)\<lparr>t_func := None, t_type := TIMER_ONCE_AUTODEL\<rparr>)))"
  by (auto simp: delete_timer_def get_timer_def set_timer_def)

text \<open>C6: the timer loop ends. The timer functions may add, delete and move timers, but ask for later ticks only;
  pending timers are single-use or have a positive interval, and ticks lie within half the range of the clock.
  Then \<open>do_timer\<close> returns a wait between 20 and 1000 milliseconds. It has run a number of rounds, each for a timer
  that was due; every timer that was pending at first has been run or is still pending, and nothing that is pending
  at the end is due.\<close>

theorem do_timer_runs:
  assumes "later_cb base now cb" "calm_ok base now s"
  shows "\<exists>d s' w' n. do_timer cb now (s, w) = Some (d, s', w') \<and> 20 \<le> d \<and> d \<le> 1000 \<and> calm_ok base now s' \<and>
     (\<forall>i \<in> set (timer_heap s'). \<not> due now s' i) \<and>
     timer_rounds cb now n (s, w) = (s', w') \<and> (\<forall>k < n. due_top now (fst (timer_rounds cb now k (s, w)))) \<and>
     set (timer_heap s) \<subseteq> set (timer_heap s') \<union> ran cb now n (s, w)"
proof -
  obtain d s' w' n where l: "timer_loop cb now TIMER_MAX_INTERVAL (s, w) = Some (d, s', w')" "calm_ok base now s'" "\<not> due_top now s'"
    "timer_rounds cb now n (s, w) = (s', w')" "\<forall>k < n. due_top now (fst (timer_rounds cb now k (s, w)))"
    "set (timer_heap s) \<subseteq> set (timer_heap s') \<union> ran cb now n (s, w)"
    using later_loop [OF assms, of TIMER_MAX_INTERVAL w] by blast
  have "do_timer cb now (s, w) = Some (cap_value d 20 1000, s', w')"
    using l(1) by (simp add: do_timer_def TIMER_MIN_INTERVAL_def TIMER_MAX_INTERVAL_def)
  moreover have "20 \<le> cap_value d 20 1000" "cap_value d 20 1000 \<le> 1000"
    by (simp_all add: cap_value_def)
  ultimately show ?thesis
    using l none_due [OF l(2,3)] by blast
qed

definition test_cb :: "(nat, nat) timer_cb" where
  "test_cb f tid t i d sw = (snd (delete_timer (snd (add_timer (fst sw) 500 (Some f) i d)) 2 (Some 9)), snd sw + 1)"

theorem do_timer_runs_witness:
  "\<exists>d s' w' n. do_timer test_cb 100 (test_timers, 0) = Some (d, s', w') \<and> 20 \<le> d \<and> d \<le> 1000 \<and> calm_ok 0 100 s' \<and>
     {0, 1, 2} \<subseteq> set (timer_heap s') \<union> ran test_cb 100 n (test_timers, 0)"
proof -
  have "later 0 100 500"
    by (simp add: later_def tick_off_def u32_def)
  then have "later_steps 0 100 s (fst (test_cb f tid t i d (s, w)))" for f tid t i d s w
    using later_more [OF later_more [OF later_none later_add [of 0 100 500 s "Some f" i d]] later_delete [of 0 100 _ 2 "Some 9"]]
    by (simp add: test_cb_def)
  then have "later_cb 0 100 test_cb"
    by (simp add: later_cb_def)
  moreover have "set (timer_heap test_timers) = {0, 1, 2}"
    by (simp add: test_timers_def)
  ultimately show ?thesis
    using do_timer_runs [OF \<open>later_cb 0 100 test_cb\<close> test_timers_calm, of 0] by (elim exE conjE) (intro exI conjI, assumption+, simp)
qed

text \<open>With timer functions that leave the timers alone, pending timers
  that are single-use or have a positive interval, and ticks within half the clock's range,
  \<open>do_timer\<close> returns a wait between 20 and 1000 milliseconds; every timer that was due has been
  called, single-use ones are free again, repeating ones are pending at a later tick, timers not due
  are as they were, and nothing that is left is due.\<close>

theorem do_timer_calm:
  assumes "calm_ok base tick s"
  shows "\<exists>d s' l. do_timer (calm_cb upd) tick (s, w) = Some (d, s', run_calls upd s l w)
     \<and> 20 \<le> d \<and> d \<le> 1000 \<and> calm_ok base tick s' \<and> loop_done tick s s' l"
proof -
  obtain d s' l where "timer_loop (calm_cb upd) tick TIMER_MAX_INTERVAL (s, w) = Some (d, s', run_calls upd s l w)"
    "calm_ok base tick s'" "loop_done tick s s' l" using calm_loop [OF assms, of upd TIMER_MAX_INTERVAL w] by blast
  then have "do_timer (calm_cb upd) tick (s, w) = Some (cap_value d 20 1000, s', run_calls upd s l w)"
    by (simp add: do_timer_def TIMER_MIN_INTERVAL_def TIMER_MAX_INTERVAL_def)
  moreover have "20 \<le> cap_value d 20 1000" "cap_value d 20 1000 \<le> 1000" by (simp_all add: cap_value_def)
  ultimately show ?thesis using \<open>calm_ok base tick s'\<close> \<open>loop_done tick s s' l\<close> by blast
qed

theorem do_timer_calm_witness:
  "\<exists>d s' l. do_timer (calm_cb (\<lambda>f tid t i x w. w + 1)) 100 (test_timers, 0::nat)
        = Some (d, s', run_calls (\<lambda>f tid t i x w. w + 1) test_timers l 0)
     \<and> 20 \<le> d \<and> d \<le> 1000 \<and> calm_ok 0 100 s' \<and> loop_done 100 test_timers s' l"
  by (rule do_timer_calm [OF test_timers_calm])

text \<open>C27: whatever timers a timer function adds, deletes or moves, a round of the loop keeps the
  table well formed: pending, free and running ids stay apart, in range and without repetition.\<close>

theorem timer_round_keeps:
  assumes "\<And>f tid t i d s w. api_steps s (fst (cb f tid t i d (s, w)))"
    and "timers_wf [] (fst sw)" "timer_heap (fst sw) \<noteq> []"
  shows "timers_wf [] (fst (timer_round cb tick sw))"
  by (rule timer_round_wf [OF assms])

theorem timer_round_keeps_witness:
  "timers_wf [] (fst (timer_round (\<lambda>f tid t i d sw. (snd (add_timer (fst sw) 500 (Some f) i d), snd sw)) 100 (test_timers, ())))"
proof (rule timer_round_keeps)
  show "api_steps s (fst (snd (add_timer (fst (s, w)) 500 (Some f) i d), snd (s, w)))" for f :: nat and i d and s and w :: unit
    using api_more [OF api_none api_add, of s 500 "Some f" i d] by simp
qed (use test_timers_wf in \<open>simp_all add: test_timers_def\<close>)

text \<open>C40: a timer function that deletes its own timer leaks the table slot: afterwards the id is
  neither pending nor free, its entry still has a type, and no later timer can use it.\<close>

theorem self_delete_leak:
  assumes "timers_wf [] s" "timer_heap s \<noteq> []" "tid = BHEAP_PEEK (timer_heap s)"
    and "t_func (timer_data s ! tid) = Some f" "timer_round self_delete_cb tick (s, w) = (s', w')"
  shows "tid \<notin> set (timer_heap s') \<and> tid \<notin> set (free_timer_list s') \<and> tid < timer_data_num s' \<and> t_type (timer_data s' ! tid) \<noteq> 0"
  by (rule self_delete_leaks [OF assms])

theorem self_delete_leak_witness:
  "0 \<notin> set (timer_heap (fst (timer_round self_delete_cb 100 (test_timers, ()))))
   \<and> 0 \<notin> set (free_timer_list (fst (timer_round self_delete_cb 100 (test_timers, ()))))"
  using self_delete_leak [OF test_timers_wf _ refl _ prod.collapse [symmetric], of 7 100 "()"]
  by (simp add: test_timers_def BHEAP_PEEK_def)

text \<open>\<open>split_time\<close> of a time that is not negative loses nothing: its parts add up to the time
  again, with the minutes, hours and days below the next unit's length.\<close>

theorem split_time_sum:
  assumes "0 \<le> t" "split_time t = (y, mo, d, h, mi, s)"
  shows "y * 31556926 + mo * 2629743 + d * 86400 + h * 3600 + mi * 60 + s = t
    \<and> 0 \<le> y \<and> 0 \<le> mo \<and> mo \<le> 12 \<and> 0 \<le> d \<and> d \<le> 30 \<and> 0 \<le> h \<and> h < 24 \<and> 0 \<le> mi \<and> mi < 60 \<and> 0 \<le> s \<and> s < 60"
proof -
  define r1 where "r1 = t mod 31556926"
  define r2 where "r2 = r1 mod 2629743"
  define r3 where "r3 = r2 mod 86400"
  define r4 where "r4 = r3 mod 3600"
  have b: "0 \<le> r1" "r1 < 31556926" "0 \<le> r2" "r2 < 2629743" "0 \<le> r3" "r3 < 86400" "0 \<le> r4" "r4 < 3600"
    by (simp_all add: r1_def r2_def r3_def r4_def)
  have c: "0 \<le> a \<Longrightarrow> 0 < k \<Longrightarrow> c_div a k = a div k" for a k :: int by (cases "a = 0") (simp_all add: c_div_def)
  have m: "t - t div 31556926 * 31556926 = r1" "r1 - r1 div 2629743 * 2629743 = r2" "r2 - r2 div 86400 * 86400 = r3"
    "r3 - r3 div 3600 * 3600 = r4" by (simp_all add: r1_def r2_def r3_def r4_def minus_div_mult_eq_mod)
  have "split_time t = (t div 31556926, r1 div 2629743, r2 div 86400, r3 div 3600, r4 div 60, r4 mod 60)"
    using assms(1) by (simp add: split_time_def Let_def c minus_div_mult_eq_mod r1_def r2_def r3_def r4_def)
  then have e: "y = t div 31556926" "mo = r1 div 2629743" "d = r2 div 86400" "h = r3 div 3600" "mi = r4 div 60" "s = r4 mod 60"
    using assms(2) by simp_all
  have "0 \<le> r4 div 60 \<and> r4 div 60 < 60" using b(7,8) by presburger
  then show ?thesis unfolding e using b m assms(1) by simp
qed

theorem split_time_sum_witness: "split_time 90061 = (0, 0, 1, 1, 1, 1) \<and> (1::int) * 86400 + 1 * 3600 + 1 * 60 + 1 = 90061"
proof -
  have e: "split_time 90061 = (0, 0, 1, 1, 1, 1)" by code_simp
  show ?thesis using split_time_sum [OF _ e] e by simp
qed

end
