(* ===== verification/Item.thy ===== *)
theory Item imports Rathena_Prelude begin

text \<open>
  Items (\<^verbatim>\<open>src/common/mmo.h\<close>) and the item database
  (\<^verbatim>\<open>src/map/itemdb.c\<close>): the kinds of items that stack, and the trade restrictions
  of an item and of the cards in it. The database is the map that \<open>uidb_get\<close> searches; the
  fields of \<open>item_data\<close> are those the modelled code reads.
\<close>

unbundle bit_operations_syntax

definition MAX_INVENTORY :: nat where "MAX_INVENTORY = 100"
definition MAX_CART :: nat where "MAX_CART = 100"
definition MAX_STORAGE :: nat where "MAX_STORAGE = 600"
definition MAX_GUILD_STORAGE :: nat where "MAX_GUILD_STORAGE = 600"
definition MAX_SLOTS :: nat where "MAX_SLOTS = 4"
definition MAX_AMOUNT :: int where "MAX_AMOUNT = 30000"
definition MAX_ZENY :: int where "MAX_ZENY = 1000000000"
definition MAX_BANK_ZENY :: int where "MAX_BANK_ZENY = 2147483647"

definition BOUND_ACCOUNT :: int where "BOUND_ACCOUNT = 1"
definition BOUND_GUILD :: int where "BOUND_GUILD = 2"

definition CARD0_FORGE :: int where "CARD0_FORGE = 255"
definition CARD0_CREATE :: int where "CARD0_CREATE = 254"
definition CARD0_PET :: int where "CARD0_PET = 256"

record item =
  item_id :: int
  nameid :: int
  amount :: int
  equip :: int
  identify :: int
  refine :: int
  attribute :: int
  card :: "int list"
  expire_time :: int
  favorite :: int
  bound :: int
  unique_id :: int

datatype item_types = IT_HEALING | IT_UNKNOWN | IT_USABLE | IT_ETC | IT_ARMOR | IT_WEAPON | IT_CARD
  | IT_PETEGG | IT_PETARMOR | IT_UNKNOWN2 | IT_AMMO | IT_DELAYCONSUME | IT_SHADOWGEAR | IT_CASH

record item_data =
  id_nameid :: int
  id_type :: item_types
  value_sell :: int
  id_weight :: int
  id_slot :: int
  id_equip :: int
  trade_restriction :: int
  gm_lv_trade_override :: int
  flag_autoequip :: bool
  flag_guid :: bool
  stack_amount :: int
  stack_inventory :: bool
  stack_cart :: bool
  stack_storage :: bool
  stack_guildstorage :: bool
  flag_buyingstore :: bool

text \<open>\<open>memset(&item, 0, sizeof(struct item))\<close>.\<close>

definition zero_item :: item where
  "zero_item = \<lparr>item_id = 0, nameid = 0, amount = 0, equip = 0, identify = 0, refine = 0,
     attribute = 0, card = [0, 0, 0, 0], expire_time = 0, favorite = 0, bound = 0, unique_id = 0\<rparr>"

definition dummy_item :: item_data where
  "dummy_item = \<lparr>id_nameid = 500, id_type = IT_ETC, value_sell = 1, id_weight = 1, id_slot = 0, id_equip = 0,
     trade_restriction = 0, gm_lv_trade_override = 0, flag_autoequip = False, flag_guid = False,
     stack_amount = 0, stack_inventory = False, stack_cart = False, stack_storage = False,
     stack_guildstorage = False, flag_buyingstore = False\<rparr>"

type_synonym itemdb = "int \<Rightarrow> item_data option"

definition itemdb_exists :: "itemdb \<Rightarrow> int \<Rightarrow> item_data option" where
  "itemdb_exists db n = db n"

definition itemdb_search :: "itemdb \<Rightarrow> int \<Rightarrow> item_data" where
  "itemdb_search db n =
     (if n = id_nameid dummy_item then dummy_item
      else (case db n of None \<Rightarrow> dummy_item | Some d \<Rightarrow> d))"

fun itemdb_isequip2 :: "item_types \<Rightarrow> bool" where
  "itemdb_isequip2 IT_WEAPON = True"
| "itemdb_isequip2 IT_ARMOR = True"
| "itemdb_isequip2 IT_AMMO = True"
| "itemdb_isequip2 IT_SHADOWGEAR = True"
| "itemdb_isequip2 _ = False"

fun itemdb_isstackable2 :: "item_types \<Rightarrow> bool" where
  "itemdb_isstackable2 IT_WEAPON = False"
| "itemdb_isstackable2 IT_ARMOR = False"
| "itemdb_isstackable2 IT_PETEGG = False"
| "itemdb_isstackable2 IT_PETARMOR = False"
| "itemdb_isstackable2 IT_SHADOWGEAR = False"
| "itemdb_isstackable2 _ = True"

fun itemdb_isidentified :: "item_types \<Rightarrow> int" where
  "itemdb_isidentified IT_WEAPON = 0"
| "itemdb_isidentified IT_ARMOR = 0"
| "itemdb_isidentified IT_PETARMOR = 0"
| "itemdb_isidentified IT_SHADOWGEAR = 0"
| "itemdb_isidentified _ = 1"

section \<open>Trade restrictions\<close>

type_synonym trade_check_fn = "item_data \<Rightarrow> int \<Rightarrow> int \<Rightarrow> bool"

definition itemdb_isdropable_sub :: trade_check_fn where
  "itemdb_isdropable_sub d gmlv unused \<longleftrightarrow> trade_restriction d AND 1 = 0 \<or> gmlv \<ge> gm_lv_trade_override d"

definition itemdb_cantrade_sub :: trade_check_fn where
  "itemdb_cantrade_sub d gmlv gmlv2 \<longleftrightarrow>
     trade_restriction d AND 2 = 0 \<or> gmlv \<ge> gm_lv_trade_override d \<or> gmlv2 \<ge> gm_lv_trade_override d"

definition itemdb_canpartnertrade_sub :: trade_check_fn where
  "itemdb_canpartnertrade_sub d gmlv gmlv2 \<longleftrightarrow>
     trade_restriction d AND 4 \<noteq> 0 \<or> gmlv \<ge> gm_lv_trade_override d \<or> gmlv2 \<ge> gm_lv_trade_override d"

definition itemdb_cansell_sub :: trade_check_fn where
  "itemdb_cansell_sub d gmlv unused \<longleftrightarrow> trade_restriction d AND 8 = 0 \<or> gmlv \<ge> gm_lv_trade_override d"

definition itemdb_cancartstore_sub :: trade_check_fn where
  "itemdb_cancartstore_sub d gmlv unused \<longleftrightarrow> trade_restriction d AND 16 = 0 \<or> gmlv \<ge> gm_lv_trade_override d"

definition itemdb_canstore_sub :: trade_check_fn where
  "itemdb_canstore_sub d gmlv unused \<longleftrightarrow> trade_restriction d AND 32 = 0 \<or> gmlv \<ge> gm_lv_trade_override d"

definition itemdb_canguildstore_sub :: trade_check_fn where
  "itemdb_canguildstore_sub d gmlv unused \<longleftrightarrow> trade_restriction d AND 64 = 0 \<or> gmlv \<ge> gm_lv_trade_override d"

definition itemdb_canmail_sub :: trade_check_fn where
  "itemdb_canmail_sub d gmlv unused \<longleftrightarrow> trade_restriction d AND 128 = 0 \<or> gmlv \<ge> gm_lv_trade_override d"

definition itemdb_canauction_sub :: trade_check_fn where
  "itemdb_canauction_sub d gmlv unused \<longleftrightarrow> trade_restriction d AND 256 = 0 \<or> gmlv \<ge> gm_lv_trade_override d"

definition itemdb_isspecial :: "int \<Rightarrow> bool" where
  "itemdb_isspecial i \<longleftrightarrow> i = CARD0_FORGE \<or> i = CARD0_CREATE \<or> i = CARD0_PET"

definition itemdb_isrestricted :: "itemdb \<Rightarrow> item \<Rightarrow> int \<Rightarrow> int \<Rightarrow> trade_check_fn \<Rightarrow> bool" where
  "itemdb_isrestricted db it gmlv gmlv2 fn =
     (let d = itemdb_search db (nameid it) in
      if \<not> fn d gmlv gmlv2 then False
      else if id_slot d = 0 \<or> itemdb_isspecial (card it ! 0) then True
      else (\<forall>i \<in> set [0..<nat (id_slot d)]. card it ! i = 0 \<or> fn (itemdb_search db (card it ! i)) gmlv gmlv2))"

section \<open>What a list of item slots holds\<close>

text \<open>The number of items of one kind, and the weight of everything.\<close>

definition count_item :: "int \<Rightarrow> item list \<Rightarrow> int" where
  "count_item n l = (\<Sum>it\<leftarrow>l. if nameid it = n then amount it else 0)"

definition items_weight :: "itemdb \<Rightarrow> item list \<Rightarrow> int" where
  "items_weight db l = (\<Sum>it\<leftarrow>l. id_weight (itemdb_search db (nameid it)) * amount it)"

text \<open>A slot is empty, all of it, or holds a positive amount of something.\<close>

definition slot_ok :: "item \<Rightarrow> bool" where
  "slot_ok it \<longleftrightarrow> length (card it) = 4 \<and> (if nameid it = 0 then amount it = 0 else 0 < amount it \<and> amount it \<le> MAX_AMOUNT)"

lemma sum_list_upd:
  fixes f :: "'a \<Rightarrow> int"
  shows "i < length l \<Longrightarrow> sum_list (map f (l[i := x])) = sum_list (map f l) - f (l ! i) + f x"
proof (induction l arbitrary: i)
  case (Cons a l)
  then show ?case by (cases i) auto
qed simp

lemma count_item_upd:
  assumes "i < length l"
  shows "count_item n (l[i := x]) = count_item n l
    - (if nameid (l ! i) = n then amount (l ! i) else 0) + (if nameid x = n then amount x else 0)"
  using sum_list_upd [OF assms, of "\<lambda>it. if nameid it = n then amount it else 0" x] by (simp add: count_item_def)

lemma items_weight_upd:
  assumes "i < length l"
  shows "items_weight db (l[i := x]) = items_weight db l
    - id_weight (itemdb_search db (nameid (l ! i))) * amount (l ! i)
    + id_weight (itemdb_search db (nameid x)) * amount x"
  using sum_list_upd [OF assms, of "\<lambda>it. id_weight (itemdb_search db (nameid it)) * amount it" x]
  by (simp add: items_weight_def)

lemma zero_item_ok [simp]: "slot_ok zero_item" "nameid zero_item = 0" "amount zero_item = 0"
  by (simp_all add: slot_ok_def zero_item_def)

end
