(* ===== verification/Inventory.thy ===== *)
theory Inventory imports Item begin

text \<open>
  A player's inventory, zeny, cash points and bank (\<^verbatim>\<open>src/map/pc.c\<close>).

  \<open>map_session_data\<close> holds the fields the modelled code uses; \<open>inventory\<close> and \<open>cart\<close> are the
  whole fixed-size slot arrays. Equipping, unequipping (they run the status calculation and the
  item scripts) and the clock are the parameter \<open>env\<close>. A function that
  changes the item its caller passes by pointer returns it for the caller to store back.
\<close>

unbundle bit_operations_syntax

record deal_item =
  deal_index :: int
  deal_amount :: int

record map_session_data =
  account_id :: int
  char_id :: int
  guild_id :: int
  uniqueitem_counter :: int
  inventory :: "item list"
  inventory_data :: "item_data option list"
  last_addeditem_index :: int
  weight :: int
  max_weight :: int
  cart :: "item list"
  cart_num :: int
  cart_weight :: int
  cart_weight_max :: int
  storage_items :: "item list"
  storage_amount :: int
  storage_size :: int
  zeny :: int
  bank_vault :: int
  cashPoints :: int
  kafraPoints :: int
  st_trading :: bool
  st_deal_locked :: int
  st_vending :: bool
  st_buyingstore :: bool
  st_storage_flag :: int
  st_isBoundTrading :: int
  trade_partner :: int
  npc_id :: int
  deal_items :: "deal_item list"
  deal_zeny :: int
  deal_weight :: int
  group_level :: int
  can_give_items :: bool
  can_give_bounded_items :: bool
  cant_drop :: bool

record env =
  env_db :: itemdb
  env_equip :: "map_session_data \<Rightarrow> nat \<Rightarrow> int \<Rightarrow> map_session_data"
  env_unequip :: "map_session_data \<Rightarrow> nat \<Rightarrow> map_session_data"
  env_now :: int

definition ADDITEM_SUCCESS :: int where "ADDITEM_SUCCESS = 0"
definition ADDITEM_INVALID :: int where "ADDITEM_INVALID = 1"
definition ADDITEM_OVERWEIGHT :: int where "ADDITEM_OVERWEIGHT = 2"
definition ADDITEM_OVERITEM :: int where "ADDITEM_OVERITEM = 4"
definition ADDITEM_OVERAMOUNT :: int where "ADDITEM_OVERAMOUNT = 5"
definition ADDITEM_STACKLIMIT :: int where "ADDITEM_STACKLIMIT = 7"

datatype chkitem = CHKADDITEM_EXIST | CHKADDITEM_NEW | CHKADDITEM_OVERAMOUNT

section \<open>Items\<close>

definition pc_generate_unique_id :: "map_session_data \<Rightarrow> int \<times> map_session_data" where
  "pc_generate_unique_id sd =
     ((char_id sd * 4294967296) OR uniqueitem_counter sd,
      sd\<lparr>uniqueitem_counter := u32 (uniqueitem_counter sd + 1)\<rparr>)"

definition pc_checkadditem :: "env \<Rightarrow> map_session_data \<Rightarrow> int \<Rightarrow> int \<Rightarrow> chkitem" where
  "pc_checkadditem e sd nid amt =
     (if amt > MAX_AMOUNT then CHKADDITEM_OVERAMOUNT
      else let data = itemdb_search (env_db e) nid in
        if \<not> itemdb_isstackable2 (id_type data) then CHKADDITEM_NEW
        else if stack_inventory data \<and> amt > stack_amount data then CHKADDITEM_OVERAMOUNT
        else let i = arr_find 0 MAX_INVENTORY (\<lambda>i. nameid (inventory sd ! i) = nid) in
          if i < MAX_INVENTORY then
            (if amt > MAX_AMOUNT - amount (inventory sd ! i)
                \<or> (stack_inventory data \<and> amt > stack_amount data - amount (inventory sd ! i))
             then CHKADDITEM_OVERAMOUNT else CHKADDITEM_EXIST)
          else CHKADDITEM_NEW)"

definition pc_inventoryblank :: "map_session_data \<Rightarrow> int" where
  "pc_inventoryblank sd = u8 (\<Sum>i\<leftarrow>[0..<MAX_INVENTORY]. if nameid (inventory sd ! i) = 0 then 1 else 0)"

definition pc_search_inventory :: "map_session_data \<Rightarrow> int \<Rightarrow> int" where
  "pc_search_inventory sd nid =
     (let i = arr_find 0 MAX_INVENTORY
        (\<lambda>i. nameid (inventory sd ! i) = nid \<and> (amount (inventory sd ! i) > 0 \<or> nid = 0))
      in if i < MAX_INVENTORY then int i else -1)"

definition pc_delitem :: "env \<Rightarrow> map_session_data \<Rightarrow> int \<Rightarrow> int \<Rightarrow> int \<times> map_session_data" where
  "pc_delitem e sd n amt =
     (if n < 0 \<or> nameid (inventory sd ! nat n) = 0 \<or> amt \<le> 0 \<or> amount (inventory sd ! nat n) < amt
         \<or> inventory_data sd ! nat n = None then (1, sd)
      else
        (let it = inventory sd ! nat n;
             it = it\<lparr>amount := s16 (amount it - amt)\<rparr>;
             sd = sd\<lparr>inventory := (inventory sd)[nat n := it],
                     weight := u32 (weight sd - id_weight (the (inventory_data sd ! nat n)) * amt)\<rparr>
         in if amount it \<le> 0 then
              (let sd = (if equip it \<noteq> 0 then env_unequip e sd (nat n) else sd)
               in (0, sd\<lparr>inventory := (inventory sd)[nat n := zero_item],
                         inventory_data := (inventory_data sd)[nat n := None]\<rparr>))
            else (0, sd)))"

text \<open>The slot \<open>pc_additem\<close> stacks on: \<open>MAX_INVENTORY\<close> when there is none.\<close>

definition additem_slot :: "map_session_data \<Rightarrow> item_data \<Rightarrow> item \<Rightarrow> nat" where
  "additem_slot sd d it =
     (if itemdb_isstackable2 (id_type d) \<and> expire_time it = 0 then
        arr_find 0 MAX_INVENTORY (\<lambda>i. nameid (inventory sd ! i) = nameid it
          \<and> bound (inventory sd ! i) = bound it \<and> expire_time (inventory sd ! i) = 0
          \<and> unique_id (inventory sd ! i) = unique_id it \<and> card (inventory sd ! i) = card it)
      else MAX_INVENTORY)"

text \<open>The copy into a free slot.\<close>

definition additem_place :: "map_session_data \<Rightarrow> item_data \<Rightarrow> item \<Rightarrow> nat \<Rightarrow> int \<Rightarrow> map_session_data" where
  "additem_place sd d it i amt =
     sd\<lparr>inventory := (inventory sd)[i := it\<lparr>equip := 0, favorite := 0, amount := s16 amt\<rparr>],
        inventory_data := (inventory_data sd)[i := Some d], last_addeditem_index := int i\<rparr>"

text \<open>The end of \<open>pc_additem\<close>: weight, automatic equipping, rentals that are over.\<close>

definition additem_finish :: "env \<Rightarrow> map_session_data \<Rightarrow> item_data \<Rightarrow> item \<Rightarrow> nat \<Rightarrow> int \<Rightarrow> map_session_data" where
  "additem_finish e sd d it i w =
     (let sd = sd\<lparr>weight := u32 (weight sd + w)\<rparr>;
          sd = (if flag_autoequip d then env_equip e sd i (id_equip d) else sd)
      in if expire_time it \<noteq> 0 \<and> env_now e > expire_time it
         then snd (pc_delitem e sd (int i) (amount (inventory sd ! i))) else sd)"

text \<open>A fresh id for the item when \<open>c\<close> holds.\<close>

definition additem_guid :: "bool \<Rightarrow> item \<Rightarrow> map_session_data \<Rightarrow> item \<times> map_session_data" where
  "additem_guid c it sd =
     (if c then (let (uid, sd) = pc_generate_unique_id sd in (it\<lparr>unique_id := uid\<rparr>, sd)) else (it, sd))"

text \<open>From the slot on: stack on \<open>i\<close>, or fill slot \<open>j\<close>.\<close>

definition additem_store ::
  "env \<Rightarrow> map_session_data \<Rightarrow> item_data \<Rightarrow> item \<Rightarrow> nat \<Rightarrow> nat \<Rightarrow> int \<Rightarrow> int \<Rightarrow> int \<times> item \<times> map_session_data" where
  "additem_store e sd d it i j amt w =
     (let sd = (if i < MAX_INVENTORY
                then sd\<lparr>inventory := (inventory sd)[i := (inventory sd ! i)
                          \<lparr>amount := s16 (amount (inventory sd ! i) + amt)\<rparr>]\<rparr>
                else additem_place sd d it j amt);
          (it, sd) = additem_guid (\<not> itemdb_isstackable2 (id_type d) \<and> unique_id it = 0) it sd
      in (ADDITEM_SUCCESS, it, additem_finish e sd d it j w))"

definition additem_put ::
  "env \<Rightarrow> map_session_data \<Rightarrow> item_data \<Rightarrow> item \<Rightarrow> int \<Rightarrow> int \<Rightarrow> int \<times> item \<times> map_session_data" where
  "additem_put e sd d it amt w =
     (let i = additem_slot sd d it in
      if i < MAX_INVENTORY then
        (if amt > MAX_AMOUNT - amount (inventory sd ! i)
            \<or> (stack_inventory d \<and> amt > stack_amount d - amount (inventory sd ! i))
         then (ADDITEM_OVERAMOUNT, it, sd)
         else additem_store e sd d it i i amt w)
      else
        (let j = pc_search_inventory sd 0 in
         if j < 0 then (ADDITEM_OVERITEM, it, sd) else additem_store e sd d it i (nat j) amt w))"

definition pc_additem :: "env \<Rightarrow> map_session_data \<Rightarrow> item \<Rightarrow> int \<Rightarrow> int \<times> item \<times> map_session_data" where
  "pc_additem e sd it amt =
     (if nameid it = 0 \<or> amt \<le> 0 then (ADDITEM_INVALID, it, sd)
      else if amt > MAX_AMOUNT then (ADDITEM_OVERAMOUNT, it, sd)
      else let d = itemdb_search (env_db e) (nameid it) in
        if stack_inventory d \<and> amt > stack_amount d then (ADDITEM_STACKLIMIT, it, sd)
        else let w = u32 (id_weight d * amt) in
          if u32 (weight sd + w) > max_weight sd then (ADDITEM_OVERWEIGHT, it, sd)
          else (let (it, sd) = additem_guid (flag_guid d \<and> unique_id it = 0) it sd
                in additem_put e sd d it amt w))"

section \<open>Zeny, cash points and the bank\<close>

definition pc_payzeny :: "map_session_data \<Rightarrow> int \<Rightarrow> int \<times> map_session_data" where
  "pc_payzeny sd z =
     (let z = cap_value z (- MAX_ZENY) MAX_ZENY in
      if z < 0 then (1, sd)
      else if zeny sd < z then (1, sd)
      else (0, sd\<lparr>zeny := zeny sd - z\<rparr>))"

definition pc_getzeny :: "map_session_data \<Rightarrow> int \<Rightarrow> int \<times> map_session_data" where
  "pc_getzeny sd z =
     (let z = cap_value z (- MAX_ZENY) MAX_ZENY in
      if z < 0 then (1, sd)
      else
        (let z = (if z > MAX_ZENY - zeny sd then MAX_ZENY - zeny sd else z)
         in (0, sd\<lparr>zeny := zeny sd + z\<rparr>)))"

definition pc_paycash :: "map_session_data \<Rightarrow> int \<Rightarrow> int \<Rightarrow> int \<times> map_session_data" where
  "pc_paycash sd price points =
     (let points = cap_value points (- MAX_ZENY) MAX_ZENY in
      if price < 0 \<or> points < 0 then (-2, sd)
      else
        (let points = (if points > price then price else points); cash = price - points in
         if cashPoints sd < cash \<or> kafraPoints sd < points then (-1, sd)
         else (cash + points, sd\<lparr>cashPoints := cashPoints sd - cash, kafraPoints := kafraPoints sd - points\<rparr>)))"

definition pc_getcash :: "map_session_data \<Rightarrow> int \<Rightarrow> int \<Rightarrow> int \<times> map_session_data" where
  "pc_getcash sd cash points =
     (let cash = cap_value cash (- MAX_ZENY) MAX_ZENY; points = cap_value points (- MAX_ZENY) MAX_ZENY in
      if cash > 0 then
        (let cash = (if cash > MAX_ZENY - cashPoints sd then MAX_ZENY - cashPoints sd else cash)
         in (cash, sd\<lparr>cashPoints := cashPoints sd + cash\<rparr>))
      else if cash < 0 then (-1, sd)
      else if points > 0 then
        (let points = (if points > MAX_ZENY - kafraPoints sd then MAX_ZENY - kafraPoints sd else points)
         in (points, sd\<lparr>kafraPoints := kafraPoints sd + points\<rparr>))
      else if points < 0 then (-1, sd)
      else (-2, sd))"

datatype bank_ack = BDA_SUCCESS | BDA_ERROR | BDA_NO_MONEY | BDA_OVERFLOW
datatype bank_withdraw_ack = BWA_SUCCESS | BWA_NO_MONEY | BWA_UNKNOWN_ERROR

definition pc_bank_deposit :: "map_session_data \<Rightarrow> int \<Rightarrow> bank_ack \<times> map_session_data" where
  "pc_bank_deposit sd money =
     (let limit_check = u32 (money + bank_vault sd) in
      if money \<le> 0 \<or> limit_check > MAX_BANK_ZENY then (BDA_OVERFLOW, sd)
      else if money > zeny sd then (BDA_NO_MONEY, sd)
      else
        (let (r, sd) = pc_payzeny sd money in
         if r \<noteq> 0 then (BDA_NO_MONEY, sd)
         else (BDA_SUCCESS, sd\<lparr>bank_vault := s32 (bank_vault sd + money)\<rparr>)))"

definition pc_bank_withdraw :: "map_session_data \<Rightarrow> int \<Rightarrow> bank_withdraw_ack \<times> map_session_data" where
  "pc_bank_withdraw sd money =
     (let limit_check = u32 (money + zeny sd) in
      if money \<le> 0 then (BWA_UNKNOWN_ERROR, sd)
      else if money > bank_vault sd then (BWA_NO_MONEY, sd)
      else if limit_check > MAX_ZENY then (BWA_UNKNOWN_ERROR, sd)
      else
        (let (r, sd) = pc_getzeny sd money in
         if r \<noteq> 0 then (BWA_NO_MONEY, sd)
         else (BWA_SUCCESS, sd\<lparr>bank_vault := s32 (bank_vault sd - money)\<rparr>)))"

section \<open>Busy players\<close>

definition pc_istrading :: "map_session_data \<Rightarrow> bool" where
  "pc_istrading sd \<longleftrightarrow> npc_id sd \<noteq> 0 \<or> st_vending sd \<or> st_buyingstore sd \<or> st_trading sd"

section \<open>Dropping items\<close>

definition pc_candrop :: "env \<Rightarrow> map_session_data \<Rightarrow> item \<Rightarrow> bool" where
  "pc_candrop e sd it =
     (if expire_time it \<noteq> 0 \<or> (bound it \<noteq> 0 \<and> \<not> can_give_bounded_items sd) then False
      else if \<not> can_give_items sd \<or> cant_drop sd then False
      else itemdb_isrestricted (env_db e) it (group_level sd) 0 itemdb_isdropable_sub)"

text \<open>
  \<open>nodrop\<close> is the map's flag; \<open>floor_ok\<close> whether \<open>map_addflooritem\<close> finds a cell. The third
  component is the item that lies on the floor then.
\<close>

definition pc_dropitem :: "env \<Rightarrow> bool \<Rightarrow> bool \<Rightarrow> map_session_data \<Rightarrow> int \<Rightarrow> int \<Rightarrow> bool \<times> map_session_data \<times> item option" where
  "pc_dropitem e nodrop floor_ok sd n amt =
     (if n < 0 \<or> n \<ge> int MAX_INVENTORY then (False, sd, None)
      else if amt \<le> 0 then (False, sd, None)
      else let it = inventory sd ! nat n in
        if nameid it \<le> 0 \<or> amount it \<le> 0 \<or> amount it < amt \<or> st_trading sd \<or> st_vending sd
           \<or> inventory_data sd ! nat n = None then (False, sd, None)
        else if nodrop then (False, sd, None)
        else if \<not> pc_candrop e sd it then (False, sd, None)
        else if \<not> floor_ok then (False, sd, None)
        else (True, snd (pc_delitem e sd n amt), Some (it\<lparr>amount := s16 amt\<rparr>)))"

text \<open>The indices of the items of a bind type, in slot order.\<close>

definition pc_bound_chk :: "map_session_data \<Rightarrow> int \<Rightarrow> nat list" where
  "pc_bound_chk sd ty = filter (\<lambda>i. nameid (inventory sd ! i) > 0 \<and> amount (inventory sd ! i) > 0
      \<and> bound (inventory sd ! i) = ty) [0..<MAX_INVENTORY]"

section \<open>The well-formed inventory\<close>

text \<open>
  Every slot is empty or full in range, its cached item data is the database's, and the carried
  weight is what the slots weigh, modulo the width of the field.
\<close>

definition inv_ok :: "env \<Rightarrow> map_session_data \<Rightarrow> bool" where
  "inv_ok e sd \<longleftrightarrow> length (inventory sd) = MAX_INVENTORY \<and> length (inventory_data sd) = MAX_INVENTORY
     \<and> (\<forall>i < MAX_INVENTORY. slot_ok (inventory sd ! i)
          \<and> inventory_data sd ! i = (if nameid (inventory sd ! i) = 0 then None
               else Some (itemdb_search (env_db e) (nameid (inventory sd ! i)))))
     \<and> weight sd = u32 (items_weight (env_db e) (inventory sd))"

text \<open>
  What the equipment code may change: where an item is worn and what it is bound to, and the
  weight limit.
\<close>

definition equip_eq :: "map_session_data \<Rightarrow> map_session_data \<Rightarrow> bool" where
  "equip_eq sd sd' \<longleftrightarrow> length (inventory sd') = length (inventory sd)
     \<and> (\<forall>i < length (inventory sd). \<exists>eq b. inventory sd' ! i = (inventory sd ! i)\<lparr>equip := eq, bound := b\<rparr>)
     \<and> sd' = sd\<lparr>inventory := inventory sd', max_weight := max_weight sd'\<rparr>"

definition env_ok :: "env \<Rightarrow> bool" where
  "env_ok e \<longleftrightarrow> (\<forall>sd n p. equip_eq sd (env_equip e sd n p)) \<and> (\<forall>sd n. equip_eq sd (env_unequip e sd n))"

end
