(* ===== verification/InventoryOps.thy ===== *)
theory InventoryOps imports Inventory begin

text \<open>
  Lemmas on the inventory operations: frames, and the inventory as an instance of the container interface.
\<close>

section \<open>What the inventory operations leave alone\<close>

text \<open>Everything but the fields \<open>inv_erase\<close> blanks out.\<close>

definition inv_erase :: "map_session_data \<Rightarrow> map_session_data" where
  "inv_erase sd = sd\<lparr>inventory := [], inventory_data := [], weight := 0, max_weight := 0,
     last_addeditem_index := 0, uniqueitem_counter := 0\<rparr>"

definition inv_frame :: "map_session_data \<Rightarrow> map_session_data \<Rightarrow> bool" where
  "inv_frame sd sd' \<longleftrightarrow> inv_erase sd' = inv_erase sd"

lemma inv_frame_refl [simp]: "inv_frame sd sd"
  by (simp add: inv_frame_def)

lemma inv_frame_trans: "inv_frame a b \<Longrightarrow> inv_frame b c \<Longrightarrow> inv_frame a c"
  by (simp add: inv_frame_def)

lemma inv_frame_upd [simp]:
  "inv_frame sd (sd'\<lparr>inventory := x\<rparr>) = inv_frame sd sd'"
  "inv_frame sd (sd'\<lparr>inventory_data := y\<rparr>) = inv_frame sd sd'"
  "inv_frame sd (sd'\<lparr>weight := w\<rparr>) = inv_frame sd sd'"
  "inv_frame sd (sd'\<lparr>max_weight := w\<rparr>) = inv_frame sd sd'"
  "inv_frame sd (sd'\<lparr>last_addeditem_index := w\<rparr>) = inv_frame sd sd'"
  "inv_frame sd (sd'\<lparr>uniqueitem_counter := w\<rparr>) = inv_frame sd sd'"
  by (simp_all add: inv_frame_def inv_erase_def)

lemma inv_frame_sel [frame_simps]:
  assumes "inv_frame sd sd'"
  shows "account_id sd' = account_id sd" "char_id sd' = char_id sd" "guild_id sd' = guild_id sd"
    "cart sd' = cart sd" "cart_num sd' = cart_num sd" "cart_weight sd' = cart_weight sd"
    "cart_weight_max sd' = cart_weight_max sd" "storage_items sd' = storage_items sd"
    "storage_amount sd' = storage_amount sd" "storage_size sd' = storage_size sd" "zeny sd' = zeny sd"
    "bank_vault sd' = bank_vault sd" "st_trading sd' = st_trading sd" "st_deal_locked sd' = st_deal_locked sd"
    "st_vending sd' = st_vending sd" "trade_partner sd' = trade_partner sd" "deal_items sd' = deal_items sd"
    "deal_zeny sd' = deal_zeny sd" "deal_weight sd' = deal_weight sd" "st_storage_flag sd' = st_storage_flag sd"
  using assms by (cases sd; cases sd'; simp add: inv_frame_def inv_erase_def)+

section \<open>Equipping changes no amounts\<close>

lemma count_item_cong:
  assumes "length l' = length l" "\<And>i. i < length l \<Longrightarrow> nameid (l' ! i) = nameid (l ! i) \<and> amount (l' ! i) = amount (l ! i)"
  shows "count_item n l' = count_item n l" "items_weight db l' = items_weight db l"
proof -
  have "map f l' = map f l" if "\<And>i. i < length l \<Longrightarrow> f (l' ! i) = f (l ! i)" for f :: "item \<Rightarrow> int"
    using that assms(1) by (intro nth_equalityI) auto
  then show "count_item n l' = count_item n l" "items_weight db l' = items_weight db l"
    using assms(2) by (simp_all add: count_item_def items_weight_def)
qed

lemma equip_eq_nth:
  assumes "equip_eq sd sd'" "i < length (inventory sd)"
  shows "nameid (inventory sd' ! i) = nameid (inventory sd ! i)" "amount (inventory sd' ! i) = amount (inventory sd ! i)"
    "card (inventory sd' ! i) = card (inventory sd ! i)" "expire_time (inventory sd' ! i) = expire_time (inventory sd ! i)"
    "unique_id (inventory sd' ! i) = unique_id (inventory sd ! i)"
  using assms by (fastforce simp: equip_eq_def)+

lemma equip_eq_sel:
  assumes "equip_eq sd sd'"
  shows "length (inventory sd') = length (inventory sd)" "inventory_data sd' = inventory_data sd"
    "weight sd' = weight sd" "inv_frame sd sd'" "count_item n (inventory sd') = count_item n (inventory sd)"
    "items_weight db (inventory sd') = items_weight db (inventory sd)"
proof -
  show len: "length (inventory sd') = length (inventory sd)" using assms by (simp add: equip_eq_def)
  have eq: "sd' = sd\<lparr>inventory := inventory sd', max_weight := max_weight sd'\<rparr>" using assms by (simp add: equip_eq_def)
  show "inventory_data sd' = inventory_data sd" "weight sd' = weight sd" by (subst eq, simp)+
  show "inv_frame sd sd'" by (subst eq) simp
  show "count_item n (inventory sd') = count_item n (inventory sd)"
    "items_weight db (inventory sd') = items_weight db (inventory sd)"
    using count_item_cong [OF len] equip_eq_nth [OF assms] by simp_all
qed

lemma equip_eq_refl [simp]: "equip_eq sd sd"
proof -
  have "\<exists>eq b. x = x\<lparr>equip := eq, bound := b\<rparr>" for x :: item
    by (rule exI [of _ "equip x"], rule exI [of _ "bound x"]) simp
  then show ?thesis by (simp add: equip_eq_def)
qed

lemma equip_eq_inv_ok: "equip_eq sd sd' \<Longrightarrow> inv_ok e sd \<Longrightarrow> inv_ok e sd'"
  by (auto simp: inv_ok_def equip_eq_sel equip_eq_nth slot_ok_def)

section \<open>Taking items out\<close>

lemma inv_okD:
  assumes "inv_ok e sd" "i < MAX_INVENTORY"
  shows "i < length (inventory sd)" "i < length (inventory_data sd)" "slot_ok (inventory sd ! i)"
    "inventory_data sd ! i = (if nameid (inventory sd ! i) = 0 then None
               else Some (itemdb_search (env_db e) (nameid (inventory sd ! i))))"
  using assms by (simp_all add: inv_ok_def)

lemma delitem_fail: "pc_delitem e sd n amt = (r, sd') \<Longrightarrow> r \<noteq> 0 \<Longrightarrow> sd' = sd"
  by (auto simp: pc_delitem_def Let_def split: if_splits)

text \<open>\<open>pc_delitem\<close> refuses exactly what is not there.\<close>

lemma delitem_result:
  assumes "inv_ok e sd" "n < int MAX_INVENTORY" "pc_delitem e sd n amt = (r, sd')"
  shows "r = 0 \<longleftrightarrow> 0 \<le> n \<and> nameid (inventory sd ! nat n) \<noteq> 0 \<and> 0 < amt \<and> amt \<le> amount (inventory sd ! nat n)"
proof (cases "0 \<le> n")
  case True
  then have "nat n < MAX_INVENTORY" using assms(2) by simp
  then show ?thesis using inv_okD [OF assms(1)] assms(3) by (auto simp: pc_delitem_def Let_def split: if_splits)
next
  case False
  then show ?thesis using assms(3) by (auto simp: pc_delitem_def)
qed

lemma delitem_ok:
  assumes ok: "inv_ok e sd" and env: "env_ok e" and n: "n < int MAX_INVENTORY" and d: "pc_delitem e sd n amt = (0, sd')"
  shows "inv_ok e sd' \<and> inv_frame sd sd'
    \<and> (\<forall>k. count_item k (inventory sd') = count_item k (inventory sd) - (if k = nameid (inventory sd ! nat n) then amt else 0))
    \<and> (\<forall>j < MAX_INVENTORY. amount (inventory sd' ! j) = amount (inventory sd ! j) - (if j = nat n then amt else 0)
          \<and> (j \<noteq> nat n \<or> amount (inventory sd ! j) \<noteq> amt \<longrightarrow> expire_time (inventory sd' ! j) = expire_time (inventory sd ! j)))
    \<and> weight sd' = u32 (weight sd - id_weight (itemdb_search (env_db e) (nameid (inventory sd ! nat n))) * amt)"
proof -
  let ?i = "nat n" and ?it = "inventory sd ! nat n"
  have g: "0 \<le> n" "nameid ?it \<noteq> 0" "0 < amt" "amt \<le> amount ?it" using delitem_result [OF ok n d] by auto
  then have il: "?i < MAX_INVENTORY" using n by simp
  note I = inv_okD [OF ok il]
  have am: "amount ?it \<le> 30000" using I(3) g by (auto simp: slot_ok_def MAX_AMOUNT_def)
  then have s: "s16 (amount ?it - amt) = amount ?it - amt" using g by (intro s16_id) auto
  let ?w = "id_weight (itemdb_search (env_db e) (nameid ?it))"
  define sd1 where "sd1 = sd\<lparr>inventory := (inventory sd)[?i := ?it\<lparr>amount := amount ?it - amt\<rparr>], weight := u32 (weight sd - ?w * amt)\<rparr>"
  have data: "inventory_data sd ! ?i = Some (itemdb_search (env_db e) (nameid ?it))" using I(4) g by simp
  have ws: "u32 (weight sd - ?w * amt) = u32 (items_weight (env_db e) (inventory sd) - ?w * amt)"
    using ok by (simp add: inv_ok_def u32_def mod_diff_left_eq)
  have base: "\<not> (n < 0 \<or> nameid ?it = 0 \<or> amt \<le> 0 \<or> amount ?it < amt \<or> inventory_data sd ! ?i = None)"
    using g data by simp
  show ?thesis
  proof (cases "amount ?it = amt")
    case False
    then have "sd' = sd1" using d base g s data unfolding pc_delitem_def Let_def by (simp add: sd1_def split: if_splits)
    moreover have "inv_ok e sd1" using ok I g False am ws il
      by (auto simp: sd1_def inv_ok_def nth_list_update slot_ok_def items_weight_upd algebra_simps)
    ultimately show ?thesis using I(1) by (auto simp: sd1_def count_item_upd nth_list_update)
  next
    case True
    define sd2 where "sd2 = (if equip ?it \<noteq> 0 then env_unequip e sd1 ?i else sd1)"
    have s': "sd' = sd2\<lparr>inventory := (inventory sd2)[?i := zero_item], inventory_data := (inventory_data sd2)[?i := None]\<rparr>"
      using d base g s data True unfolding pc_delitem_def Let_def by (simp add: sd1_def sd2_def split: if_splits)
    have eq: "equip_eq sd1 sd2"
    proof (cases "equip ?it = 0")
      case True
      then show ?thesis by (simp add: sd2_def)
    next
      case False
      then show ?thesis using env by (simp add: sd2_def env_ok_def)
    qed
    note E = equip_eq_sel [OF eq] and N = equip_eq_nth [OF eq]
    have len1: "length (inventory sd1) = MAX_INVENTORY" using ok by (simp add: sd1_def inv_ok_def)
    have i2: "?i < length (inventory sd2)" using E(1) len1 il by simp
    have at: "nameid (inventory sd2 ! ?i) = nameid ?it" "amount (inventory sd2 ! ?i) = 0"
      using N [of ?i] len1 il True I(1) by (simp_all add: sd1_def)
    have other: "nameid (inventory sd2 ! j) = nameid (inventory sd ! j) \<and> amount (inventory sd2 ! j) = amount (inventory sd ! j)
        \<and> card (inventory sd2 ! j) = card (inventory sd ! j) \<and> expire_time (inventory sd2 ! j) = expire_time (inventory sd ! j)"
      if "j < MAX_INVENTORY" "j \<noteq> ?i" for j using N [of j] len1 that by (simp add: sd1_def)
    have cnt: "count_item k (inventory sd') = count_item k (inventory sd) - (if k = nameid ?it then amt else 0)" for k
      using i2 at I(1) True by (simp add: s' count_item_upd E(5)) (simp add: sd1_def count_item_upd)
    have "items_weight (env_db e) (inventory sd') = items_weight (env_db e) (inventory sd) - ?w * amt"
      using i2 at I(1) True by (simp add: s' items_weight_upd E(6)) (simp add: sd1_def items_weight_upd)
    moreover have "weight sd' = u32 (weight sd - ?w * amt)" by (simp add: s' E(3)) (simp add: sd1_def)
    ultimately have wt: "weight sd' = u32 (items_weight (env_db e) (inventory sd'))" "weight sd' = u32 (weight sd - ?w * amt)" using ws by simp_all
    have dat: "inventory_data sd2 = inventory_data sd" using E(2) by (simp add: sd1_def)
    have "slot_ok (inventory sd' ! j) \<and> inventory_data sd' ! j = (if nameid (inventory sd' ! j) = 0 then None
         else Some (itemdb_search (env_db e) (nameid (inventory sd' ! j))))" if j: "j < MAX_INVENTORY" for j
      using inv_okD [OF ok j] other [OF j] i2 dat I(2) by (cases "j = ?i") (auto simp: s' slot_ok_def zero_item_def)
    then have "inv_ok e sd'" using wt ok E(1) len1 dat by (auto simp: inv_ok_def s')
    moreover have "inv_frame sd sd'" using E(4) by (simp add: s') (simp add: sd1_def inv_frame_def inv_erase_def)
    moreover have "amount (inventory sd' ! ?i) = amount ?it - amt" using i2 True by (simp add: s')
    moreover have "inventory sd' ! j = inventory sd2 ! j" if "j \<noteq> ?i" for j using that by (simp add: s')
    ultimately show ?thesis using cnt other wt True by auto
  qed
qed


section \<open>Putting items in\<close>

text \<open>Items as callers pass them: four card words, and not a rental that is over.\<close>

definition item_ok :: "env \<Rightarrow> item \<Rightarrow> bool" where
  "item_ok e it \<longleftrightarrow> length (card it) = 4 \<and> (expire_time it = 0 \<or> env_now e \<le> expire_time it)"

lemma additem_slot_less:
  assumes "additem_slot sd d it < MAX_INVENTORY"
  shows "nameid (inventory sd ! additem_slot sd d it) = nameid it"
    "bound (inventory sd ! additem_slot sd d it) = bound it"
    "card (inventory sd ! additem_slot sd d it) = card it"
    "unique_id (inventory sd ! additem_slot sd d it) = unique_id it"
    "itemdb_isstackable2 (id_type d) \<and> expire_time it = 0"
proof -
  let ?P = "\<lambda>i. nameid (inventory sd ! i) = nameid it
          \<and> bound (inventory sd ! i) = bound it \<and> expire_time (inventory sd ! i) = 0
          \<and> unique_id (inventory sd ! i) = unique_id it \<and> card (inventory sd ! i) = card it"
  have st: "itemdb_isstackable2 (id_type d) \<and> expire_time it = 0"
    using assms by (auto simp: additem_slot_def split: if_splits)
  then have e: "additem_slot sd d it = arr_find 0 MAX_INVENTORY ?P" by (simp add: additem_slot_def)
  then have "?P (additem_slot sd d it)" using arr_find_holds [of 0 MAX_INVENTORY ?P] assms by simp
  then show "nameid (inventory sd ! additem_slot sd d it) = nameid it"
    "bound (inventory sd ! additem_slot sd d it) = bound it"
    "card (inventory sd ! additem_slot sd d it) = card it"
    "unique_id (inventory sd ! additem_slot sd d it) = unique_id it" by auto
  show "itemdb_isstackable2 (id_type d) \<and> expire_time it = 0" by (rule st)
qed

lemma search_blank:
  "pc_search_inventory sd 0 \<ge> 0 \<Longrightarrow> nat (pc_search_inventory sd 0) < MAX_INVENTORY
     \<and> nameid (inventory sd ! nat (pc_search_inventory sd 0)) = 0"
  "pc_search_inventory sd 0 < 0 \<longleftrightarrow> (\<forall>i < MAX_INVENTORY. nameid (inventory sd ! i) \<noteq> 0)"
proof -
  let ?P = "\<lambda>i. nameid (inventory sd ! i) = 0 \<and> (amount (inventory sd ! i) > 0 \<or> (0::int) = 0)"
  let ?i = "arr_find 0 MAX_INVENTORY ?P"
  have le: "?i \<le> MAX_INVENTORY" by (rule arr_find_le) simp
  show "pc_search_inventory sd 0 \<ge> 0 \<Longrightarrow> nat (pc_search_inventory sd 0) < MAX_INVENTORY
     \<and> nameid (inventory sd ! nat (pc_search_inventory sd 0)) = 0"
    using arr_find_holds [of 0 MAX_INVENTORY ?P] by (simp add: pc_search_inventory_def Let_def split: if_splits)
  show "pc_search_inventory sd 0 < 0 \<longleftrightarrow> (\<forall>i < MAX_INVENTORY. nameid (inventory sd ! i) \<noteq> 0)"
    using arr_find_none_iff [of 0 MAX_INVENTORY ?P] le
    by (simp add: pc_search_inventory_def Let_def) (metis le_neq_implies_less less_irrefl)
qed

lemma finish_ok:
  assumes env: "env_ok e" and live: "expire_time it = 0 \<or> env_now e \<le> expire_time it"
    and len: "length (inventory sd) = MAX_INVENTORY"
  shows "equip_eq (sd\<lparr>weight := u32 (weight sd + w)\<rparr>) (additem_finish e sd d it i w)"
proof -
  have "additem_finish e sd d it i w =
      (if flag_autoequip d then env_equip e (sd\<lparr>weight := u32 (weight sd + w)\<rparr>) i (id_equip d) else sd\<lparr>weight := u32 (weight sd + w)\<rparr>)"
    using live by (auto simp: additem_finish_def Let_def)
  then show ?thesis using env by (simp add: env_ok_def)
qed

text \<open>A slot that takes \<open>amt\<close> more of an item, before the weight is updated.\<close>

lemma inv_ok_fill:
  assumes ok: "inv_ok e sd" and i: "i < MAX_INVENTORY" and x: "slot_ok x" "nameid x \<noteq> 0"
    and slot: "(nameid (inventory sd ! i) = 0 \<and> amount x = amt) \<or> (nameid (inventory sd ! i) = nameid x \<and> amount x = amount (inventory sd ! i) + amt)"
    and s1: "inventory s1 = (inventory sd)[i := x]" "inventory_data s1 = (inventory_data sd)[i := Some (itemdb_search (env_db e) (nameid x))]"
    and w: "weight s1 = u32 (weight sd + u32 (id_weight (itemdb_search (env_db e) (nameid x)) * amt))"
  shows "inv_ok e s1 \<and> (\<forall>k. count_item k (inventory s1) = count_item k (inventory sd) + (if k = nameid x then amt else 0))"
proof -
  note I = inv_okD [OF ok i]
  have z: "nameid (inventory sd ! i) = 0 \<Longrightarrow> amount (inventory sd ! i) = 0" using I(3) by (simp add: slot_ok_def)
  have "items_weight (env_db e) (inventory s1) = items_weight (env_db e) (inventory sd) + id_weight (itemdb_search (env_db e) (nameid x)) * amt"
    using slot z I(1) by (auto simp: s1 items_weight_upd algebra_simps)
  then have "weight s1 = u32 (items_weight (env_db e) (inventory s1))"
    using ok by (simp add: w inv_ok_def u32_def mod_simps)
  moreover have "count_item k (inventory s1) = count_item k (inventory sd) + (if k = nameid x then amt else 0)" for k
    using slot z I(1) x by (auto simp: s1 count_item_upd)
  ultimately show ?thesis using ok x I by (auto simp: inv_ok_def s1 nth_list_update)
qed


lemma additem_guid_ok:
  assumes "additem_guid c it sd = (it', sd')"
  shows "(\<exists>u. it' = it\<lparr>unique_id := u\<rparr>) \<and> (\<exists>n. sd' = sd\<lparr>uniqueitem_counter := n\<rparr>)"
proof (cases c)
  case True
  then show ?thesis using assms by (auto simp: additem_guid_def pc_generate_unique_id_def)
next
  case False
  then have "it' = it\<lparr>unique_id := unique_id it\<rparr>" "sd' = sd\<lparr>uniqueitem_counter := uniqueitem_counter sd\<rparr>"
    using assms by (simp_all add: additem_guid_def)
  then show ?thesis by blast
qed

lemmas additem_codes = ADDITEM_SUCCESS_def ADDITEM_INVALID_def ADDITEM_OVERWEIGHT_def ADDITEM_OVERITEM_def
  ADDITEM_OVERAMOUNT_def ADDITEM_STACKLIMIT_def

lemma additem_put_fail:
  assumes "additem_put e sd d it amt w = (r, it', sd')" "r \<noteq> 0"
  shows "it' = it \<and> sd' = sd"
  using assms by (auto simp: additem_put_def additem_store_def Let_def additem_codes split: if_splits prod.splits)

lemma additem_fail:
  assumes a: "pc_additem e sd it amt = (r, it', sd')" and r: "r \<noteq> 0"
  shows "(\<exists>u. it' = it\<lparr>unique_id := u\<rparr>) \<and> (\<exists>n. sd' = sd\<lparr>uniqueitem_counter := n\<rparr>)"
proof -
  let ?d = "itemdb_search (env_db e) (nameid it)"
  obtain it1 sd1 where g: "additem_guid (flag_guid ?d \<and> unique_id it = 0) it sd = (it1, sd1)" by fastforce
  consider "it' = it" "sd' = sd" | "additem_put e sd1 ?d it1 amt (u32 (id_weight ?d * amt)) = (r, it', sd')"
    using a g by (auto simp: pc_additem_def Let_def split: if_splits)
  then show ?thesis
  proof cases
    case 1
    then have "it' = it\<lparr>unique_id := unique_id it\<rparr>" "sd' = sd\<lparr>uniqueitem_counter := uniqueitem_counter sd\<rparr>" by simp_all
    then show ?thesis by blast
  next
    case 2
    then show ?thesis using additem_put_fail r additem_guid_ok [OF g] by blast
  qed
qed

lemma additem_store_ok:
  assumes ok: "inv_ok e sd" and env: "env_ok e" and it: "item_ok e it" "nameid it \<noteq> 0" and amt: "0 < amt" "amt \<le> 30000"
    and slot: "(i < MAX_INVENTORY \<and> j = i \<and> i = additem_slot sd (itemdb_search (env_db e) (nameid it)) it
          \<and> amt \<le> MAX_AMOUNT - amount (inventory sd ! i))
       \<or> (\<not> i < MAX_INVENTORY \<and> j < MAX_INVENTORY \<and> nameid (inventory sd ! j) = 0)"
    and s: "additem_store e sd (itemdb_search (env_db e) (nameid it)) it i j amt
        (u32 (id_weight (itemdb_search (env_db e) (nameid it)) * amt)) = (r, it', sd')"
  shows "inv_ok e sd' \<and> inv_frame sd sd' \<and> (\<exists>u. it' = it\<lparr>unique_id := u\<rparr>) \<and> r = 0
    \<and> (\<forall>k. count_item k (inventory sd') = count_item k (inventory sd) + (if k = nameid it then amt else 0))
    \<and> weight sd' = u32 (weight sd + u32 (id_weight (itemdb_search (env_db e) (nameid it)) * amt))
    \<and> (\<forall>m < MAX_INVENTORY. amount (inventory sd ! m) \<le> amount (inventory sd' ! m)
          \<and> (nameid (inventory sd ! m) \<noteq> 0 \<longrightarrow> expire_time (inventory sd' ! m) = expire_time (inventory sd ! m)))"
proof -
  let ?d = "itemdb_search (env_db e) (nameid it)"
  let ?w = "u32 (id_weight ?d * amt)"
  have jl: "j < MAX_INVENTORY" using slot by auto
  note J = inv_okD [OF ok jl]
  define x where "x = (if i < MAX_INVENTORY then (inventory sd ! i)\<lparr>amount := s16 (amount (inventory sd ! i) + amt)\<rparr>
      else it\<lparr>equip := 0, favorite := 0, amount := s16 amt\<rparr>)"
  define sd2 where "sd2 = (if i < MAX_INVENTORY then sd\<lparr>inventory := (inventory sd)[i := x]\<rparr> else additem_place sd ?d it j amt)"
  obtain it3 sd3 where g: "additem_guid (\<not> itemdb_isstackable2 (id_type ?d) \<and> unique_id it = 0) it sd2 = (it3, sd3)" by fastforce
  have res: "r = 0" "it' = it3" "sd' = additem_finish e sd3 ?d it3 j ?w"
    using s g by (auto simp: additem_store_def Let_def sd2_def x_def additem_codes split: if_splits)
  obtain u n where un: "it3 = it\<lparr>unique_id := u\<rparr>" "sd3 = sd2\<lparr>uniqueitem_counter := n\<rparr>" using additem_guid_ok [OF g] by blast
  have sx: "slot_ok x \<and> nameid x = nameid it \<and> ((nameid (inventory sd ! j) = 0 \<and> amount x = amt)
      \<or> (nameid (inventory sd ! j) = nameid x \<and> amount x = amount (inventory sd ! j) + amt))"
  proof (cases "i < MAX_INVENTORY")
    case True
    then have sl: "j = i" "i = additem_slot sd ?d it" "amt \<le> 30000 - amount (inventory sd ! i)" using slot by (auto simp: MAX_AMOUNT_def)
    then have nm: "nameid (inventory sd ! i) = nameid it" using additem_slot_less(1) True by metis
    have so: "length (card (inventory sd ! i)) = 4" "0 < amount (inventory sd ! i)" using J(3) sl(1) nm it by (auto simp: slot_ok_def)
    have s16: "s16 (amount (inventory sd ! i) + amt) = amount (inventory sd ! i) + amt" using so sl(3) amt by (intro s16_id) auto
    show ?thesis using True nm so s16 sl amt it by (simp add: x_def slot_ok_def MAX_AMOUNT_def)
  next
    case False
    have "s16 amt = amt" using amt by (intro s16_id) auto
    then show ?thesis using False slot it amt by (auto simp: x_def slot_ok_def MAX_AMOUNT_def item_ok_def)
  qed
  have inv3: "inventory sd3 = (inventory sd)[j := x]" "inventory_data sd3 = (inventory_data sd)[j := Some ?d]" "weight sd3 = weight sd" "inv_frame sd sd3"
  proof -
    have dat: "inventory_data sd = (inventory_data sd)[i := Some ?d]" if "i < MAX_INVENTORY"
    proof -
      have e: "j = i" "i = additem_slot sd ?d it" using slot that by auto
      then have "nameid (inventory sd ! i) = nameid it" using additem_slot_less(1) that by metis
      then have "inventory_data sd ! i = Some ?d" using J(4) e(1) it by simp
      then show ?thesis by (metis list_update_id)
    qed
    show "inventory sd3 = (inventory sd)[j := x]" "inventory_data sd3 = (inventory_data sd)[j := Some ?d]" "weight sd3 = weight sd" "inv_frame sd sd3"
      using slot dat by (auto simp: un(2) sd2_def x_def additem_place_def)
  qed
  let ?s = "sd3\<lparr>weight := u32 (weight sd3 + ?w)\<rparr>"
  have nx: "nameid x \<noteq> 0" "slot_ok x" using sx it by auto
  have fill: "inv_ok e ?s \<and> (\<forall>k. count_item k (inventory ?s) = count_item k (inventory sd) + (if k = nameid x then amt else 0))"
    by (rule inv_ok_fill [OF ok jl nx(2,1)]) (use sx inv3 in auto)
  have live: "expire_time it3 = 0 \<or> env_now e \<le> expire_time it3" using it(1) by (simp add: un item_ok_def)
  have len3: "length (inventory sd3) = MAX_INVENTORY" using ok inv3 by (simp add: inv_ok_def)
  have eq: "equip_eq ?s sd'" unfolding res(3) by (rule finish_ok [OF env live len3])
  have "inv_frame ?s sd'" by (rule equip_eq_sel(4) [OF eq])
  then have fr: "inv_frame sd sd'" using inv3(4) inv_frame_trans by (metis inv_frame_upd(3))
  have "inv_ok e sd'" using equip_eq_inv_ok [OF eq] fill by blast
  moreover have "amount (inventory sd ! m) \<le> amount (inventory sd' ! m)
      \<and> (nameid (inventory sd ! m) \<noteq> 0 \<longrightarrow> expire_time (inventory sd' ! m) = expire_time (inventory sd ! m))"
    if m: "m < MAX_INVENTORY" for m
  proof -
    have ml: "m < length (inventory ?s)" using m len3 by simp
    have "amount (inventory sd' ! m) = amount ((inventory sd)[j := x] ! m)" "expire_time (inventory sd' ! m) = expire_time ((inventory sd)[j := x] ! m)"
      using equip_eq_nth [OF eq ml] inv3(1) by simp_all
    moreover have "nameid (inventory sd ! j) \<noteq> 0 \<Longrightarrow> expire_time x = expire_time (inventory sd ! j)"
      using slot by (auto simp: x_def)
    moreover have "amount (inventory sd ! j) \<le> amount x" using sx J(3) amt by (auto simp: slot_ok_def)
    ultimately show ?thesis using J(1) by (cases "m = j") auto
  qed
  ultimately show ?thesis using fill fr res un sx equip_eq_sel(3,5) [OF eq] inv3(3) by auto
qed

theorem additem_ok:
  assumes ok: "inv_ok e sd" and env: "env_ok e" and it: "item_ok e it" and a: "pc_additem e sd it amt = (0, it', sd')"
  shows "inv_ok e sd' \<and> inv_frame sd sd' \<and> (\<exists>u. it' = it\<lparr>unique_id := u\<rparr>)
    \<and> nameid it \<noteq> 0 \<and> 0 < amt \<and> amt \<le> MAX_AMOUNT
    \<and> (\<forall>k. count_item k (inventory sd') = count_item k (inventory sd) + (if k = nameid it then amt else 0))
    \<and> weight sd' = u32 (weight sd + u32 (id_weight (itemdb_search (env_db e) (nameid it)) * amt))
    \<and> weight sd' \<le> max_weight sd
    \<and> (\<forall>m < MAX_INVENTORY. amount (inventory sd ! m) \<le> amount (inventory sd' ! m)
          \<and> (nameid (inventory sd ! m) \<noteq> 0 \<longrightarrow> expire_time (inventory sd' ! m) = expire_time (inventory sd ! m)))"
proof -
  let ?d = "itemdb_search (env_db e) (nameid it)"
  let ?w = "u32 (id_weight ?d * amt)"
  obtain it1 sd1 where g: "additem_guid (flag_guid ?d \<and> unique_id it = 0) it sd = (it1, sd1)" by fastforce
  have c: "nameid it \<noteq> 0" "0 < amt" "amt \<le> 30000" "u32 (weight sd + ?w) \<le> max_weight sd"
    "additem_put e sd1 ?d it1 amt ?w = (0, it', sd')"
    using a g by (auto simp: pc_additem_def Let_def additem_codes MAX_AMOUNT_def split: if_splits)
  obtain u n where un: "it1 = it\<lparr>unique_id := u\<rparr>" "sd1 = sd\<lparr>uniqueitem_counter := n\<rparr>" using additem_guid_ok [OF g] by blast
  have ok1: "inv_ok e sd1" "inv_frame sd sd1" using ok by (simp_all add: un inv_ok_def)
  have it1: "item_ok e it1" "nameid it1 = nameid it" using it by (simp_all add: un item_ok_def)
  let ?i = "additem_slot sd1 ?d it1"
  obtain j where j: "additem_store e sd1 ?d it1 ?i j amt ?w = (0, it', sd')"
    "(?i < MAX_INVENTORY \<and> j = ?i \<and> amt \<le> MAX_AMOUNT - amount (inventory sd1 ! ?i))
       \<or> (\<not> ?i < MAX_INVENTORY \<and> j < MAX_INVENTORY \<and> nameid (inventory sd1 ! j) = 0)"
  proof (cases "?i < MAX_INVENTORY")
    case True
    then show ?thesis using that [of ?i] c(5) by (auto simp: additem_put_def Let_def additem_codes split: if_splits)
  next
    case False
    then show ?thesis using that [of "nat (pc_search_inventory sd1 0)"] c(5) search_blank(1) [of sd1]
      by (auto simp: additem_put_def Let_def additem_codes split: if_splits)
  qed
  have "inv_ok e sd' \<and> inv_frame sd1 sd' \<and> (\<exists>u. it' = it1\<lparr>unique_id := u\<rparr>) \<and> (0::int) = 0
    \<and> (\<forall>k. count_item k (inventory sd') = count_item k (inventory sd1) + (if k = nameid it1 then amt else 0))
    \<and> weight sd' = u32 (weight sd1 + u32 (id_weight (itemdb_search (env_db e) (nameid it1)) * amt))
    \<and> (\<forall>m < MAX_INVENTORY. amount (inventory sd1 ! m) \<le> amount (inventory sd' ! m)
          \<and> (nameid (inventory sd1 ! m) \<noteq> 0 \<longrightarrow> expire_time (inventory sd' ! m) = expire_time (inventory sd1 ! m)))"
    by (rule additem_store_ok [OF ok1(1) env it1(1)]) (use c j it1 in auto)
  then show ?thesis using c(1-4) inv_frame_trans [OF ok1(2)] by (auto simp: un MAX_AMOUNT_def)
qed

end
