(* ===== verification/ItemMove.thy ===== *)
theory ItemMove imports InventoryOps begin

text \<open>
  The contract between two item containers and the code that moves items from one into the
  other. Every transfer of the map server has the same shape: the item at a source index is
  passed by pointer to the destination's add function, which may change it, and when that
  succeeds the amount is deleted from the source. The locale \<open>item_move\<close> states what the add,
  the write through the pointer, and the delete must promise, and proves once that a transfer
  neither creates nor destroys items and leaves the rest of the state alone; the containers
  interpret it pairwise.
\<close>

text \<open>What an add function may change of the item passed to it: ids only.\<close>

definition same_kind :: "item \<Rightarrow> item \<Rightarrow> bool" where
  "same_kind a b \<longleftrightarrow> nameid b = nameid a \<and> amount b = amount a \<and> card b = card a \<and> expire_time b = expire_time a
     \<and> equip b = equip a"

lemma same_kind_refl [simp]: "same_kind a a"
  by (simp add: same_kind_def)

lemma same_kind_upd [simp]: "same_kind a (a\<lparr>unique_id := u\<rparr>)" "same_kind a (a\<lparr>item_id := u\<rparr>)"
  by (simp_all add: same_kind_def)

lemma same_kind_trans: "same_kind a b \<Longrightarrow> same_kind b c \<Longrightarrow> same_kind a c"
  by (simp add: same_kind_def)

lemma count_same_kind: "i < length l \<Longrightarrow> same_kind (l ! i) x \<Longrightarrow> count_item k (l[i := x]) = count_item k l"
  by (simp add: count_item_upd same_kind_def)

lemma weight_same_kind: "i < length l \<Longrightarrow> same_kind (l ! i) x \<Longrightarrow> items_weight db (l[i := x]) = items_weight db l"
  by (simp add: items_weight_upd same_kind_def)

lemma slot_ok_same_kind: "same_kind a b \<Longrightarrow> slot_ok b = slot_ok a"
  by (simp add: same_kind_def slot_ok_def)

text \<open>The transfer, over the operations of the two containers.\<close>

definition move_item ::
  "('s \<Rightarrow> item list) \<Rightarrow> ('s \<Rightarrow> item \<Rightarrow> int \<Rightarrow> bool \<times> item \<times> 's) \<Rightarrow> ('s \<Rightarrow> nat \<Rightarrow> item \<Rightarrow> 's)
     \<Rightarrow> ('s \<Rightarrow> nat \<Rightarrow> int \<Rightarrow> 's) \<Rightarrow> 's \<Rightarrow> nat \<Rightarrow> int \<Rightarrow> bool \<times> 's" where
  "move_item src add put del s i amt =
     (let (r, it, s) = add s (src s ! i) amt; s = put s i it
      in (r, if r then del s i amt else s))"

locale item_move =
  fixes src dst :: "'s \<Rightarrow> item list"
    and ok_src ok_dst :: "'s \<Rightarrow> bool"
    and fit :: "item \<Rightarrow> bool"
    and add :: "'s \<Rightarrow> item \<Rightarrow> int \<Rightarrow> bool \<times> item \<times> 's"
    and put :: "'s \<Rightarrow> nat \<Rightarrow> item \<Rightarrow> 's"
    and del :: "'s \<Rightarrow> nat \<Rightarrow> int \<Rightarrow> 's"
    and rest :: "'s \<Rightarrow> 'r"
  assumes src_slots: "ok_src s \<Longrightarrow> i < length (src s) \<Longrightarrow> slot_ok (src s ! i)"
    and add_law: "ok_src s \<Longrightarrow> ok_dst s \<Longrightarrow> slot_ok it \<Longrightarrow> fit it \<Longrightarrow> 0 < amt \<Longrightarrow> amt \<le> amount it \<Longrightarrow> add s it amt = (r, it', s') \<Longrightarrow>
      ok_src s' \<and> ok_dst s' \<and> src s' = src s \<and> rest s' = rest s \<and> same_kind it it' \<and>
      (\<forall>k. count_item k (dst s') = count_item k (dst s) + (if r \<and> k = nameid it then amt else 0))"
    and put_law: "ok_src s \<Longrightarrow> ok_dst s \<Longrightarrow> i < length (src s) \<Longrightarrow> same_kind (src s ! i) it \<Longrightarrow>
      ok_src (put s i it) \<and> ok_dst (put s i it) \<and> src (put s i it) = (src s)[i := it] \<and> dst (put s i it) = dst s
      \<and> rest (put s i it) = rest s"
    and del_law: "ok_src s \<Longrightarrow> ok_dst s \<Longrightarrow> i < length (src s) \<Longrightarrow> nameid (src s ! i) \<noteq> 0 \<Longrightarrow> 0 < amt \<Longrightarrow>
      amt \<le> amount (src s ! i) \<Longrightarrow> ok_src (del s i amt) \<and> ok_dst (del s i amt) \<and> dst (del s i amt) = dst s \<and>
      rest (del s i amt) = rest s \<and> (\<forall>k. count_item k (src (del s i amt)) = count_item k (src s) - (if k = nameid (src s ! i) then amt else 0))"
begin

theorem move_ok:
  assumes ok: "ok_src s" "ok_dst s" and i: "i < length (src s)" "nameid (src s ! i) \<noteq> 0" "fit (src s ! i)"
    and amt: "0 < amt" "amt \<le> amount (src s ! i)" and m: "move_item src add put del s i amt = (r, s')"
  shows "ok_src s' \<and> ok_dst s' \<and> rest s' = rest s \<and>
    (\<forall>k. count_item k (src s') = count_item k (src s) - (if r \<and> k = nameid (src s ! i) then amt else 0)) \<and>
    (\<forall>k. count_item k (dst s') = count_item k (dst s) + (if r \<and> k = nameid (src s ! i) then amt else 0))"
proof -
  let ?it = "src s ! i"
  obtain r1 it s1 where a: "add s ?it amt = (r1, it, s1)" by (metis prod_cases3)
  note A = add_law [OF ok src_slots [OF ok(1) i(1)] i(3) amt a]
  have i1: "i < length (src s1)" "same_kind (src s1 ! i) it" using A i by auto
  have P: "ok_src (put s1 i it) \<and> ok_dst (put s1 i it) \<and> src (put s1 i it) = (src s1)[i := it] \<and> dst (put s1 i it) = dst s1
      \<and> rest (put s1 i it) = rest s1"
    using put_law [of s1 i it] A i1 by blast
  have "(r1, if r1 then del (put s1 i it) i amt else put s1 i it) = (r, s')"
    using m by (simp only: move_item_def a Let_def prod.case)
  then have res: "r = r1" "s' = (if r1 then del (put s1 i it) i amt else put s1 i it)" by blast+
  have cs: "count_item k (src (put s1 i it)) = count_item k (src s)" for k
    using P A i1 count_same_kind [of i "src s1" it k] by simp
  show ?thesis
  proof (cases r1)
    case False
    then show ?thesis using res P A cs by simp
  next
    case True
    have at: "nameid (src (put s1 i it) ! i) = nameid ?it" "amount (src (put s1 i it) ! i) = amount ?it" "i < length (src (put s1 i it))"
      using P A i by (auto simp: same_kind_def)
    have "ok_src (del (put s1 i it) i amt) \<and> ok_dst (del (put s1 i it) i amt) \<and> dst (del (put s1 i it) i amt) = dst (put s1 i it) \<and>
      rest (del (put s1 i it) i amt) = rest (put s1 i it) \<and> (\<forall>k. count_item k (src (del (put s1 i it) i amt)) = count_item k (src (put s1 i it)) - (if k = nameid ?it then amt else 0))"
      using del_law [of "put s1 i it" i amt] P at i(2) amt by simp
    then show ?thesis using res True cs P A by simp
  qed
qed

theorem move_conserves:
  assumes "ok_src s" "ok_dst s" "i < length (src s)" "nameid (src s ! i) \<noteq> 0" "fit (src s ! i)"
    and "0 < amt" "amt \<le> amount (src s ! i)" "move_item src add put del s i amt = (r, s')"
  shows "count_item k (src s') + count_item k (dst s') = count_item k (src s) + count_item k (dst s)"
  using move_ok [OF assms] by simp

end

section \<open>The parts of a player the transfers work on\<close>

definition inv_part :: "map_session_data \<Rightarrow> item list \<times> item_data option list \<times> int \<times> int" where
  "inv_part s = (inventory s, inventory_data s, weight s, zeny s)"

definition cart_part :: "map_session_data \<Rightarrow> item list \<times> int \<times> int \<times> int" where
  "cart_part s = (cart s, cart_num s, cart_weight s, zeny s)"

definition stor_part :: "map_session_data \<Rightarrow> item list \<times> int \<times> int \<times> int" where
  "stor_part s = (storage_items s, storage_amount s, storage_size s, zeny s)"

lemma inv_frame_parts [frame_simps]:
  "inv_frame s s' \<Longrightarrow> cart_part s' = cart_part s" "inv_frame s s' \<Longrightarrow> stor_part s' = stor_part s"
  by (simp_all add: cart_part_def stor_part_def inv_frame_sel)

section \<open>The inventory as a container\<close>

definition inv_src_ok :: "env \<Rightarrow> map_session_data \<Rightarrow> bool" where
  "inv_src_ok e s \<longleftrightarrow> inv_ok e s \<and> env_ok e"

definition inv_put :: "map_session_data \<Rightarrow> nat \<Rightarrow> item \<Rightarrow> map_session_data" where
  "inv_put s i it = s\<lparr>inventory := (inventory s)[i := it]\<rparr>"

definition inv_del :: "env \<Rightarrow> map_session_data \<Rightarrow> nat \<Rightarrow> int \<Rightarrow> map_session_data" where
  "inv_del e s i amt = snd (pc_delitem e s (int i) amt)"

definition inv_add :: "env \<Rightarrow> map_session_data \<Rightarrow> item \<Rightarrow> int \<Rightarrow> bool \<times> item \<times> map_session_data" where
  "inv_add e s it amt = (case pc_additem e s it amt of (r, it, s) \<Rightarrow> (r = 0, it, s))"

text \<open>An item that may enter the inventory and stay there.\<close>

definition not_expired :: "env \<Rightarrow> item \<Rightarrow> bool" where
  "not_expired e it \<longleftrightarrow> expire_time it = 0 \<or> env_now e \<le> expire_time it"

lemma inv_length: "inv_src_ok e s \<Longrightarrow> length (inventory s) = MAX_INVENTORY"
  by (simp add: inv_src_ok_def inv_ok_def)

lemma inv_slots: "inv_src_ok e s \<Longrightarrow> i < length (inventory s) \<Longrightarrow> slot_ok (inventory s ! i)"
  by (simp add: inv_src_ok_def inv_ok_def)

lemma inv_put_ok:
  assumes "inv_src_ok e s" "i < length (inventory s)" "same_kind (inventory s ! i) it"
  shows "inv_src_ok e (inv_put s i it) \<and> inv_frame s (inv_put s i it)"
  using assms weight_same_kind [OF assms(2,3)]
  by (auto simp: inv_src_ok_def inv_ok_def inv_put_def nth_list_update slot_ok_same_kind) (auto simp: same_kind_def)

lemma inv_del_ok:
  assumes "inv_src_ok e s" "i < length (inventory s)" "nameid (inventory s ! i) \<noteq> 0" "0 < amt" "amt \<le> amount (inventory s ! i)"
  shows "inv_src_ok e (inv_del e s i amt) \<and> inv_frame s (inv_del e s i amt) \<and>
    (\<forall>k. count_item k (inventory (inv_del e s i amt)) = count_item k (inventory s) - (if k = nameid (inventory s ! i) then amt else 0))"
proof -
  have ok: "inv_ok e s" "env_ok e" "int i < int MAX_INVENTORY" using assms by (auto simp: inv_src_ok_def inv_ok_def)
  obtain r s' where d: "pc_delitem e s (int i) amt = (r, s')" by fastforce
  then have "r = 0" using delitem_result [OF ok(1,3) d] assms by simp
  then have d0: "pc_delitem e s (int i) amt = (0, s')" using d by simp
  show ?thesis using delitem_ok [OF ok d0] ok d0 by (simp add: inv_del_def inv_src_ok_def)
qed

lemma inv_add_ok:
  assumes ok: "inv_src_ok e s" and it: "slot_ok it" "not_expired e it" and a: "inv_add e s it amt = (r, it', s')"
  shows "inv_src_ok e s' \<and> inv_frame s s' \<and> same_kind it it' \<and>
    (\<forall>k. count_item k (inventory s') = count_item k (inventory s) + (if r \<and> k = nameid it then amt else 0))"
proof -
  obtain c where c: "pc_additem e s it amt = (c, it', s')" "r = (c = 0)"
    using a by (auto simp: inv_add_def split: prod.splits)
  show ?thesis
  proof (cases "c = 0")
    case True
    have "item_ok e it" using it by (simp add: item_ok_def not_expired_def slot_ok_def)
    then show ?thesis using additem_ok [of e s it amt it' s'] ok c True by (auto simp: inv_src_ok_def)
  next
    case False
    then show ?thesis using additem_fail [OF c(1) False] ok c(2) by (auto simp: inv_src_ok_def inv_ok_def)
  qed
qed

end
