(* ===== verification/Cart.thy ===== *)
theory Cart imports ItemMove begin

text \<open>
  The cart (\<^verbatim>\<open>src/map/pc.c\<close>, the \<open>pc_cart_*\<close> functions) and the moves between it
  and the inventory.
\<close>

definition cart_slot :: "map_session_data \<Rightarrow> item_data \<Rightarrow> item \<Rightarrow> nat" where
  "cart_slot sd d it =
     (if itemdb_isstackable2 (id_type d) \<and> expire_time it = 0 then
        arr_find 0 MAX_CART (\<lambda>i. nameid (cart sd ! i) = nameid it \<and> bound (cart sd ! i) = bound it
          \<and> unique_id (cart sd ! i) = unique_id it \<and> card (cart sd ! i) = card it)
      else MAX_CART)"

text \<open>The slot write with the favorite flag cleared, and the new weight.\<close>

definition cart_store :: "map_session_data \<Rightarrow> nat \<Rightarrow> item \<Rightarrow> int \<Rightarrow> int \<Rightarrow> map_session_data" where
  "cart_store sd i x new w =
     sd\<lparr>cart := (cart sd)[i := x\<lparr>favorite := 0\<rparr>], cart_num := cart_num sd + new,
        cart_weight := s32 (cart_weight sd + w)\<rparr>"

definition cart_put :: "env \<Rightarrow> map_session_data \<Rightarrow> item_data \<Rightarrow> item \<Rightarrow> int \<Rightarrow> int \<Rightarrow> int \<times> item \<times> map_session_data" where
  "cart_put e sd data it amt w =
     (let i = cart_slot sd data it in
      if i < MAX_CART then
        (if amt > MAX_AMOUNT - amount (cart sd ! i)
            \<or> (stack_cart data \<and> amt > stack_amount data - amount (cart sd ! i)) then (2, it, sd)
         else (0, it, cart_store sd i ((cart sd ! i)\<lparr>amount := s16 (amount (cart sd ! i) + amt)\<rparr>) 0 w))
      else
        (let i = arr_find 0 MAX_CART (\<lambda>i. nameid (cart sd ! i) = 0) in
         if i = MAX_CART then (2, it, sd)
         else (0, it, cart_store sd i (it\<lparr>amount := s16 amt\<rparr>) 1 w)))"

definition pc_cart_additem :: "env \<Rightarrow> map_session_data \<Rightarrow> item \<Rightarrow> int \<Rightarrow> int \<times> item \<times> map_session_data" where
  "pc_cart_additem e sd it amt =
     (if nameid it = 0 \<or> amt \<le> 0 then (1, it, sd)
      else let data = itemdb_search (env_db e) (nameid it) in
        if stack_cart data \<and> amt > stack_amount data then (1, it, sd)
        else if \<not> itemdb_isrestricted (env_db e) it (group_level sd) 0 itemdb_cancartstore_sub
            \<or> (bound it > BOUND_ACCOUNT \<and> \<not> can_give_bounded_items sd) then (1, it, sd)
        else let w = s32 (id_weight data * amt) in
          if s32 (w + cart_weight sd) > cart_weight_max sd then (1, it, sd)
          else cart_put e sd data (it\<lparr>item_id := 0\<rparr>) amt w)"

definition pc_cart_delitem :: "env \<Rightarrow> map_session_data \<Rightarrow> nat \<Rightarrow> int \<Rightarrow> map_session_data" where
  "pc_cart_delitem e sd n amt =
     (let it = cart sd ! n in
      if nameid it = 0 \<or> amount it < amt then sd
      else
        (let it' = it\<lparr>amount := s16 (amount it - amt)\<rparr>;
             sd = sd\<lparr>cart := (cart sd)[n := it'],
                     cart_weight := s32 (cart_weight sd - id_weight (itemdb_search (env_db e) (nameid it)) * amt)\<rparr>
         in if amount it' \<le> 0 then sd\<lparr>cart := (cart sd)[n := zero_item], cart_num := cart_num sd - 1\<rparr> else sd))"

definition pc_putitemtocart :: "env \<Rightarrow> map_session_data \<Rightarrow> int \<Rightarrow> int \<Rightarrow> map_session_data" where
  "pc_putitemtocart e sd idx amt =
     (if idx < 0 \<or> idx \<ge> int MAX_INVENTORY then sd
      else let it = inventory sd ! nat idx in
        if nameid it = 0 \<or> amt < 1 \<or> amount it < amt \<or> st_vending sd then sd
        else
          (let (flag, it, sd) = pc_cart_additem e sd it amt;
               sd = sd\<lparr>inventory := (inventory sd)[nat idx := it]\<rparr>
           in if flag = 0 then snd (pc_delitem e sd idx amt) else sd))"

definition pc_cartitem_amount :: "map_session_data \<Rightarrow> nat \<Rightarrow> int \<Rightarrow> int" where
  "pc_cartitem_amount sd idx amt =
     (let it = cart sd ! idx in if nameid it = 0 \<or> amount it = 0 then -1 else s32 (amount it - amt))"

definition pc_getitemfromcart :: "env \<Rightarrow> map_session_data \<Rightarrow> int \<Rightarrow> int \<Rightarrow> map_session_data" where
  "pc_getitemfromcart e sd idx amt =
     (if idx < 0 \<or> idx \<ge> int MAX_CART then sd
      else let it = cart sd ! nat idx in
        if nameid it = 0 \<or> amt < 1 \<or> amount it < amt \<or> st_vending sd then sd
        else
          (let (flag, it, sd) = pc_additem e sd it amt;
               sd = sd\<lparr>cart := (cart sd)[nat idx := it]\<rparr>
           in if flag = 0 then pc_cart_delitem e sd (nat idx) amt else sd))"

section \<open>The cart as a container\<close>

definition used_slots :: "item list \<Rightarrow> int" where
  "used_slots l = (\<Sum>it\<leftarrow>l. if nameid it = 0 then 0 else 1)"

definition cart_ok :: "env \<Rightarrow> map_session_data \<Rightarrow> bool" where
  "cart_ok e sd \<longleftrightarrow> length (cart sd) = MAX_CART \<and> (\<forall>i < MAX_CART. slot_ok (cart sd ! i))
     \<and> cart_num sd = used_slots (cart sd) \<and> cart_weight sd = s32 (items_weight (env_db e) (cart sd))"

definition cart_erase :: "map_session_data \<Rightarrow> map_session_data" where
  "cart_erase sd = sd\<lparr>cart := [], cart_num := 0, cart_weight := 0\<rparr>"

definition cart_frame :: "map_session_data \<Rightarrow> map_session_data \<Rightarrow> bool" where
  "cart_frame sd sd' \<longleftrightarrow> cart_erase sd' = cart_erase sd"

lemma cart_frame_upd [simp]:
  "cart_frame sd (sd'\<lparr>cart := x\<rparr>) = cart_frame sd sd'" "cart_frame sd (sd'\<lparr>cart_num := y\<rparr>) = cart_frame sd sd'"
  "cart_frame sd (sd'\<lparr>cart_weight := w\<rparr>) = cart_frame sd sd'" "cart_frame sd sd"
  by (simp_all add: cart_frame_def cart_erase_def)

lemma cart_frame_trans: "cart_frame a b \<Longrightarrow> cart_frame b c \<Longrightarrow> cart_frame a c"
  by (simp add: cart_frame_def)

lemma cart_frame_sel [frame_simps]:
  assumes "cart_frame sd sd'"
  shows "inventory sd' = inventory sd" "inventory_data sd' = inventory_data sd" "weight sd' = weight sd"
    "storage_items sd' = storage_items sd" "storage_amount sd' = storage_amount sd" "storage_size sd' = storage_size sd"
    "zeny sd' = zeny sd" "bank_vault sd' = bank_vault sd"
  using assms by (cases sd; cases sd'; simp add: cart_frame_def cart_erase_def)+

lemma cart_frame_parts [frame_simps]:
  "cart_frame s s' \<Longrightarrow> inv_part s' = inv_part s" "cart_frame s s' \<Longrightarrow> stor_part s' = stor_part s"
  by (simp_all add: inv_part_def stor_part_def cart_frame_sel)

lemma used_slots_upd:
  assumes "i < length l"
  shows "used_slots (l[i := x]) = used_slots l - (if nameid (l ! i) = 0 then 0 else 1) + (if nameid x = 0 then 0 else 1)"
  using sum_list_upd [OF assms, of "\<lambda>it. if nameid it = 0 then 0 else 1" x] by (simp add: used_slots_def)

lemma cart_ok_store:
  assumes ok: "cart_ok e sd" and i: "i < MAX_CART" and x: "slot_ok x" "nameid x \<noteq> 0"
    and slot: "(nameid (cart sd ! i) = 0 \<and> amount x = amt \<and> new = 1)
      \<or> (nameid (cart sd ! i) = nameid x \<and> amount x = amount (cart sd ! i) + amt \<and> new = 0)"
    and w: "w = s32 (id_weight (itemdb_search (env_db e) (nameid x)) * amt)"
  shows "cart_ok e (cart_store sd i x new w) \<and> cart_frame sd (cart_store sd i x new w) \<and>
    (\<forall>k. count_item k (cart (cart_store sd i x new w)) = count_item k (cart sd) + (if k = nameid x then amt else 0))"
proof -
  have len: "i < length (cart sd)" using ok i by (simp add: cart_ok_def)
  have z: "nameid (cart sd ! i) = 0 \<Longrightarrow> amount (cart sd ! i) = 0" using ok i by (auto simp: cart_ok_def slot_ok_def)
  have "items_weight (env_db e) (cart (cart_store sd i x new w))
    = items_weight (env_db e) (cart sd) + id_weight (itemdb_search (env_db e) (nameid x)) * amt"
    using slot z len by (auto simp: cart_store_def items_weight_upd algebra_simps)
  then have "cart_weight (cart_store sd i x new w) = s32 (items_weight (env_db e) (cart (cart_store sd i x new w)))"
    using ok by (simp add: cart_store_def cart_ok_def w s32_add)
  moreover have "count_item k (cart (cart_store sd i x new w)) = count_item k (cart sd) + (if k = nameid x then amt else 0)" for k
    using slot z len x by (auto simp: cart_store_def count_item_upd)
  moreover have "cart_num (cart_store sd i x new w) = used_slots (cart (cart_store sd i x new w))"
    using slot len x ok by (auto simp: cart_store_def used_slots_upd cart_ok_def)
  moreover have "cart_frame sd (cart_store sd i x new w)" by (simp add: cart_store_def)
  ultimately show ?thesis using ok x len by (auto simp: cart_ok_def cart_store_def nth_list_update slot_ok_def)
qed

lemma cart_additem_cases:
  "pc_cart_additem e sd it amt = (1, it, sd) \<or>
   pc_cart_additem e sd it amt = cart_put e sd (itemdb_search (env_db e) (nameid it)) (it\<lparr>item_id := 0\<rparr>) amt
     (s32 (id_weight (itemdb_search (env_db e) (nameid it)) * amt))"
  by (simp add: pc_cart_additem_def Let_def)

lemma cart_additem_ok:
  assumes ok: "cart_ok e sd" and it: "slot_ok it" and amt: "0 < amt" "amt \<le> amount it"
    and a: "pc_cart_additem e sd it amt = (r, it', sd')"
  shows "cart_ok e sd' \<and> cart_frame sd sd' \<and> same_kind it it' \<and>
    (\<forall>k. count_item k (cart sd') = count_item k (cart sd) + (if r = 0 \<and> k = nameid it then amt else 0))"
proof -
  let ?d = "itemdb_search (env_db e) (nameid it)" and ?it = "it\<lparr>item_id := 0\<rparr>"
  let ?w = "s32 (id_weight ?d * amt)"
  let ?i = "cart_slot sd ?d ?it"
  have am: "amt \<le> 30000" "nameid it \<noteq> 0" using it amt by (auto simp: slot_ok_def MAX_AMOUNT_def split: if_splits)
  consider (none) "r \<noteq> 0" "sd' = sd" "it' = it \<or> it' = ?it"
    | (stack) "?i < MAX_CART" "amt \<le> MAX_AMOUNT - amount (cart sd ! ?i)" "r = 0" "it' = ?it"
        "sd' = cart_store sd ?i ((cart sd ! ?i)\<lparr>amount := s16 (amount (cart sd ! ?i) + amt)\<rparr>) 0 ?w"
    | (new) i where "i < MAX_CART" "nameid (cart sd ! i) = 0" "r = 0" "it' = ?it"
        "sd' = cart_store sd i (?it\<lparr>amount := s16 amt\<rparr>) 1 ?w"
  proof -
    let ?P = "\<lambda>i. nameid (cart sd ! i) = 0"
    have le: "arr_find 0 MAX_CART ?P \<le> MAX_CART" by (rule arr_find_le) simp
    have p: "arr_find 0 MAX_CART ?P \<noteq> MAX_CART \<Longrightarrow> arr_find 0 MAX_CART ?P < MAX_CART \<and> ?P (arr_find 0 MAX_CART ?P)"
      using le arr_find_holds [of 0 MAX_CART ?P] by simp
    consider "r = 1" "it' = it" "sd' = sd" | "cart_put e sd ?d ?it amt ?w = (r, it', sd')"
      using a cart_additem_cases [of e sd it amt] by (metis prod.inject)
    then show ?thesis
    proof cases
      case 1
      then show ?thesis using none by simp
    next
      case 2
      show ?thesis
      proof (cases "?i < MAX_CART")
        case True
        note i = True
        show ?thesis
        proof (cases "amt > MAX_AMOUNT - amount (cart sd ! ?i) \<or> (stack_cart ?d \<and> amt > stack_amount ?d - amount (cart sd ! ?i))")
          case True
          then have "(2, ?it, sd) = (r, it', sd')" using 2 i by (auto simp: cart_put_def Let_def)
          then show ?thesis by (intro none) auto
        next
          case False
          then have "(0, ?it, cart_store sd ?i ((cart sd ! ?i)\<lparr>amount := s16 (amount (cart sd ! ?i) + amt)\<rparr>) 0 ?w) = (r, it', sd')"
            using 2 i by (auto simp: cart_put_def Let_def)
          then show ?thesis using False i by (intro stack) auto
        qed
      next
        case i: False
        show ?thesis
        proof (cases "arr_find 0 MAX_CART ?P = MAX_CART")
          case True
          then have "(2, ?it, sd) = (r, it', sd')" using 2 i by (auto simp: cart_put_def Let_def)
          then show ?thesis by (intro none) auto
        next
          case False
          then have "(0, ?it, cart_store sd (arr_find 0 MAX_CART ?P) (?it\<lparr>amount := s16 amt\<rparr>) 1 ?w) = (r, it', sd')"
            using 2 i by (auto simp: cart_put_def Let_def)
          then show ?thesis using p [OF False] by (intro new [of "arr_find 0 MAX_CART ?P"]) auto
        qed
      qed
    qed
  qed
  then show ?thesis
  proof cases
    case none
    then show ?thesis using ok by auto
  next
    case stack
    let ?x = "(cart sd ! ?i)\<lparr>amount := s16 (amount (cart sd ! ?i) + amt)\<rparr>"
    let ?P = "\<lambda>i. nameid (cart sd ! i) = nameid ?it \<and> bound (cart sd ! i) = bound ?it
          \<and> unique_id (cart sd ! i) = unique_id ?it \<and> card (cart sd ! i) = card ?it"
    have "?i = arr_find 0 MAX_CART ?P" using stack(1) by (auto simp: cart_slot_def)
    then have nm: "nameid (cart sd ! ?i) = nameid it" using arr_find_holds [of 0 MAX_CART ?P] stack(1) by simp
    have so: "slot_ok (cart sd ! ?i)" using ok stack(1) by (simp add: cart_ok_def)
    have pos: "0 < amount (cart sd ! ?i)" using so nm am by (simp add: slot_ok_def)
    have s: "s16 (amount (cart sd ! ?i) + amt) = amount (cart sd ! ?i) + amt"
      using pos stack(2) amt by (intro s16_id) (auto simp: MAX_AMOUNT_def)
    have "slot_ok ?x" using so pos nm am stack(2) amt by (simp add: slot_ok_def s)
    from cart_ok_store [OF ok stack(1) this, of amt 0 ?w]
    show ?thesis using nm am s stack by simp
  next
    case new
    let ?x = "?it\<lparr>amount := s16 amt\<rparr>"
    have s: "s16 amt = amt" using am amt by (intro s16_id) auto
    have "slot_ok ?x" using it am amt by (simp add: slot_ok_def s MAX_AMOUNT_def)
    from cart_ok_store [OF ok new(1) this, of amt 1 ?w]
    show ?thesis using new am s by simp
  qed
qed

lemma cart_delitem_ok:
  assumes ok: "cart_ok e sd" and n: "n < MAX_CART" "nameid (cart sd ! n) \<noteq> 0" and amt: "0 < amt" "amt \<le> amount (cart sd ! n)"
  shows "cart_ok e (pc_cart_delitem e sd n amt) \<and> cart_frame sd (pc_cart_delitem e sd n amt) \<and>
    (\<forall>k. count_item k (cart (pc_cart_delitem e sd n amt)) = count_item k (cart sd) - (if k = nameid (cart sd ! n) then amt else 0))"
proof -
  let ?it = "cart sd ! n" and ?sd = "pc_cart_delitem e sd n amt"
  have so: "slot_ok ?it" and len: "n < length (cart sd)" using ok n by (simp_all add: cart_ok_def)
  have s: "s16 (amount ?it - amt) = amount ?it - amt"
    using so n amt by (intro s16_id) (auto simp: slot_ok_def MAX_AMOUNT_def)
  let ?w = "id_weight (itemdb_search (env_db e) (nameid ?it)) * amt"
  have eq: "?sd = (if amount ?it = amt
      then sd\<lparr>cart := (cart sd)[n := zero_item], cart_num := cart_num sd - 1, cart_weight := s32 (cart_weight sd - ?w)\<rparr>
      else sd\<lparr>cart := (cart sd)[n := ?it\<lparr>amount := amount ?it - amt\<rparr>], cart_weight := s32 (cart_weight sd - ?w)\<rparr>)"
    using n amt s by (simp add: pc_cart_delitem_def Let_def)
  have iw: "items_weight (env_db e) (cart ?sd) = items_weight (env_db e) (cart sd) - ?w"
    using len by (auto simp: eq items_weight_upd algebra_simps)
  have "cart_weight ?sd = s32 (cart_weight sd - ?w)" by (simp add: eq)
  also have "\<dots> = s32 (items_weight (env_db e) (cart ?sd))" using ok iw by (simp add: cart_ok_def s32_add)
  finally have w: "cart_weight ?sd = s32 (items_weight (env_db e) (cart ?sd))" .
  have "cart_num ?sd = used_slots (cart ?sd)" using ok len n by (auto simp: eq used_slots_upd cart_ok_def)
  moreover have "count_item k (cart ?sd) = count_item k (cart sd) - (if k = nameid ?it then amt else 0)" for k
    using len by (auto simp: eq count_item_upd)
  moreover have "slot_ok (cart ?sd ! j)" if "j < MAX_CART" for j
    using that ok so amt n by (auto simp: eq nth_list_update slot_ok_def cart_ok_def zero_item_def)
  moreover have "length (cart ?sd) = MAX_CART" "cart_frame sd ?sd" using ok by (auto simp: eq cart_ok_def)
  ultimately show ?thesis using w by (simp add: cart_ok_def)
qed


section \<open>Moves between the inventory and the cart\<close>

definition cart_add :: "env \<Rightarrow> map_session_data \<Rightarrow> item \<Rightarrow> int \<Rightarrow> bool \<times> item \<times> map_session_data" where
  "cart_add e s it amt = (case pc_cart_additem e s it amt of (r, it, s) \<Rightarrow> (r = 0, it, s))"

definition cart_write :: "map_session_data \<Rightarrow> nat \<Rightarrow> item \<Rightarrow> map_session_data" where
  "cart_write s i it = s\<lparr>cart := (cart s)[i := it]\<rparr>"

lemma inv_ok_cart_frame: "cart_frame s s' \<Longrightarrow> inv_src_ok e s' = inv_src_ok e s"
  by (simp add: inv_src_ok_def inv_ok_def cart_frame_sel)

lemma cart_ok_inv_frame: "inv_frame s s' \<Longrightarrow> cart_ok e s' = cart_ok e s"
  by (simp add: cart_ok_def inv_frame_sel)

lemma cart_write_ok:
  assumes "cart_ok e s" "i < length (cart s)" "same_kind (cart s ! i) it"
  shows "cart_ok e (cart_write s i it) \<and> cart_frame s (cart_write s i it)"
proof -
  have "used_slots ((cart s)[i := it]) = used_slots (cart s)"
    using used_slots_upd [OF assms(2)] assms(3) by (simp add: same_kind_def)
  then show ?thesis using assms weight_same_kind [OF assms(2,3)]
    by (auto simp: cart_ok_def cart_write_def nth_list_update slot_ok_same_kind)
qed

lemma cart_add_ok:
  assumes "cart_ok e s" "slot_ok it" "0 < amt" "amt \<le> amount it" "cart_add e s it amt = (r, it', s')"
  shows "cart_ok e s' \<and> cart_frame s s' \<and> same_kind it it' \<and>
    (\<forall>k. count_item k (cart s') = count_item k (cart s) + (if r \<and> k = nameid it then amt else 0))"
proof -
  obtain c where c: "pc_cart_additem e s it amt = (c, it', s')" "r = (c = 0)"
    using assms(5) by (auto simp: cart_add_def split: prod.splits)
  show ?thesis using cart_additem_ok [OF assms(1-4) c(1)] c(2) by simp
qed

interpretation inv_cart: item_move inventory cart "inv_src_ok e" "cart_ok e" "\<lambda>_. True" "cart_add e" inv_put "inv_del e" stor_part for e
proof
  show "inv_src_ok e s \<Longrightarrow> i < length (inventory s) \<Longrightarrow> slot_ok (inventory s ! i)" for s i by (rule inv_slots)
next
  fix s it amt r it' s'
  assume "inv_src_ok e s" "cart_ok e s" "slot_ok it" "0 < amt" "amt \<le> amount it" "cart_add e s it amt = (r, it', s')"
  then show "inv_src_ok e s' \<and> cart_ok e s' \<and> inventory s' = inventory s \<and> stor_part s' = stor_part s \<and> same_kind it it' \<and>
      (\<forall>k. count_item k (cart s') = count_item k (cart s) + (if r \<and> k = nameid it then amt else 0))"
    using cart_add_ok [of e s it amt r it' s'] inv_ok_cart_frame [of s s'] cart_frame_sel(1) [of s s'] cart_frame_parts(2) [of s s'] by blast
next
  fix s i it
  assume "inv_src_ok e s" "cart_ok e s" "i < length (inventory s)" "same_kind (inventory s ! i) it"
  then show "inv_src_ok e (inv_put s i it) \<and> cart_ok e (inv_put s i it)
      \<and> inventory (inv_put s i it) = (inventory s)[i := it] \<and> cart (inv_put s i it) = cart s \<and> stor_part (inv_put s i it) = stor_part s"
    using inv_put_ok [of e s i it] cart_ok_inv_frame [of s "inv_put s i it" e] by (auto simp: inv_put_def stor_part_def)
next
  fix s i amt
  assume "inv_src_ok e s" "cart_ok e s" "i < length (inventory s)" "nameid (inventory s ! i) \<noteq> 0" "0 < amt" "amt \<le> amount (inventory s ! i)"
  then show "inv_src_ok e (inv_del e s i amt) \<and> cart_ok e (inv_del e s i amt) \<and> cart (inv_del e s i amt) = cart s \<and>
      stor_part (inv_del e s i amt) = stor_part s \<and> (\<forall>k. count_item k (inventory (inv_del e s i amt)) = count_item k (inventory s) - (if k = nameid (inventory s ! i) then amt else 0))"
    using inv_del_ok [of e s i amt] cart_ok_inv_frame [of s "inv_del e s i amt" e] inv_frame_sel(4) [of s "inv_del e s i amt"]
      inv_frame_parts(2) [of s "inv_del e s i amt"] by blast
qed

interpretation cart_inv: item_move cart inventory "cart_ok e" "inv_src_ok e" "not_expired e" "inv_add e" cart_write "pc_cart_delitem e" stor_part for e
proof
  show "cart_ok e s \<Longrightarrow> i < length (cart s) \<Longrightarrow> slot_ok (cart s ! i)" for s i by (simp add: cart_ok_def)
next
  fix s it amt r it' s'
  assume "cart_ok e s" "inv_src_ok e s" "slot_ok it" "not_expired e it" "inv_add e s it amt = (r, it', s')"
  then show "cart_ok e s' \<and> inv_src_ok e s' \<and> cart s' = cart s \<and> stor_part s' = stor_part s \<and> same_kind it it' \<and>
      (\<forall>k. count_item k (inventory s') = count_item k (inventory s) + (if r \<and> k = nameid it then amt else 0))"
    using inv_add_ok [of e s it amt r it' s'] cart_ok_inv_frame [of s s' e] inv_frame_sel(4) [of s s'] inv_frame_parts(2) [of s s'] by blast
next
  fix s i it
  assume "cart_ok e s" "inv_src_ok e s" "i < length (cart s)" "same_kind (cart s ! i) it"
  then show "cart_ok e (cart_write s i it) \<and> inv_src_ok e (cart_write s i it)
      \<and> cart (cart_write s i it) = (cart s)[i := it] \<and> inventory (cart_write s i it) = inventory s
      \<and> stor_part (cart_write s i it) = stor_part s"
    using cart_write_ok [of e s i it] inv_ok_cart_frame [of s "cart_write s i it" e] by (auto simp: cart_write_def stor_part_def)
next
  fix s i amt
  assume a: "cart_ok e s" "inv_src_ok e s" "i < length (cart s)" "nameid (cart s ! i) \<noteq> 0" "0 < amt" "amt \<le> amount (cart s ! i)"
  then have "i < MAX_CART" by (simp add: cart_ok_def)
  with a show "cart_ok e (pc_cart_delitem e s i amt) \<and> inv_src_ok e (pc_cart_delitem e s i amt)
      \<and> inventory (pc_cart_delitem e s i amt) = inventory s \<and>
      stor_part (pc_cart_delitem e s i amt) = stor_part s \<and> (\<forall>k. count_item k (cart (pc_cart_delitem e s i amt)) = count_item k (cart s) - (if k = nameid (cart s ! i) then amt else 0))"
    using cart_delitem_ok [of e s i amt] inv_ok_cart_frame [of s "pc_cart_delitem e s i amt" e]
      cart_frame_sel(1) [of s "pc_cart_delitem e s i amt"] cart_frame_parts(2) [of s "pc_cart_delitem e s i amt"] by blast
qed

text \<open>The two handlers are guarded transfers.\<close>

lemma putitemtocart_move:
  "pc_putitemtocart e sd idx amt =
     (if 0 \<le> idx \<and> idx < int MAX_INVENTORY \<and> nameid (inventory sd ! nat idx) \<noteq> 0 \<and> 1 \<le> amt
         \<and> amt \<le> amount (inventory sd ! nat idx) \<and> \<not> st_vending sd
      then snd (move_item inventory (cart_add e) inv_put (inv_del e) sd (nat idx) amt) else sd)"
  by (auto simp: pc_putitemtocart_def move_item_def cart_add_def inv_put_def inv_del_def Let_def split: prod.splits)

lemma getitemfromcart_move:
  "pc_getitemfromcart e sd idx amt =
     (if 0 \<le> idx \<and> idx < int MAX_CART \<and> nameid (cart sd ! nat idx) \<noteq> 0 \<and> 1 \<le> amt
         \<and> amt \<le> amount (cart sd ! nat idx) \<and> \<not> st_vending sd
      then snd (move_item cart (inv_add e) cart_write (pc_cart_delitem e) sd (nat idx) amt) else sd)"
  by (auto simp: pc_getitemfromcart_def move_item_def inv_add_def cart_write_def Let_def split: prod.splits)

lemma putitemtocart_ok:
  assumes "inv_src_ok e sd" "cart_ok e sd"
  shows "inv_src_ok e (pc_putitemtocart e sd idx amt) \<and> cart_ok e (pc_putitemtocart e sd idx amt) \<and>
    stor_part (pc_putitemtocart e sd idx amt) = stor_part sd \<and> count_item k (inventory (pc_putitemtocart e sd idx amt)) + count_item k (cart (pc_putitemtocart e sd idx amt))
      = count_item k (inventory sd) + count_item k (cart sd)"
proof (cases "0 \<le> idx \<and> idx < int MAX_INVENTORY \<and> nameid (inventory sd ! nat idx) \<noteq> 0 \<and> 1 \<le> amt
         \<and> amt \<le> amount (inventory sd ! nat idx) \<and> \<not> st_vending sd")
  case True
  obtain r s' where m: "move_item inventory (cart_add e) inv_put (inv_del e) sd (nat idx) amt = (r, s')" by fastforce
  have i: "nat idx < length (inventory sd)" using True assms(1) by (simp add: inv_length nat_less_iff)
  have g: "nameid (inventory sd ! nat idx) \<noteq> 0" "0 < amt" "amt \<le> amount (inventory sd ! nat idx)" using True by auto
  show ?thesis using inv_cart.move_ok [OF assms i g(1) TrueI g(2,3) m] inv_cart.move_conserves [OF assms i g(1) TrueI g(2,3) m] True m
    by (simp add: putitemtocart_move)
next
  case False
  then have "pc_putitemtocart e sd idx amt = sd" by (simp only: putitemtocart_move if_False)
  then show ?thesis using assms by simp
qed

lemma getitemfromcart_ok:
  assumes "cart_ok e sd" "inv_src_ok e sd" and live: "\<forall>it \<in> set (cart sd). not_expired e it"
  shows "cart_ok e (pc_getitemfromcart e sd idx amt) \<and> inv_src_ok e (pc_getitemfromcart e sd idx amt) \<and>
    stor_part (pc_getitemfromcart e sd idx amt) = stor_part sd \<and> count_item k (cart (pc_getitemfromcart e sd idx amt)) + count_item k (inventory (pc_getitemfromcart e sd idx amt))
      = count_item k (cart sd) + count_item k (inventory sd)"
proof (cases "0 \<le> idx \<and> idx < int MAX_CART \<and> nameid (cart sd ! nat idx) \<noteq> 0 \<and> 1 \<le> amt
         \<and> amt \<le> amount (cart sd ! nat idx) \<and> \<not> st_vending sd")
  case True
  obtain r s' where m: "move_item cart (inv_add e) cart_write (pc_cart_delitem e) sd (nat idx) amt = (r, s')" by fastforce
  have i: "nat idx < length (cart sd)" using True assms(1) by (simp add: cart_ok_def nat_less_iff)
  have g: "nameid (cart sd ! nat idx) \<noteq> 0" "0 < amt" "amt \<le> amount (cart sd ! nat idx)" using True by auto
  have f: "not_expired e (cart sd ! nat idx)" using live i by simp
  show ?thesis using cart_inv.move_ok [OF assms(1,2) i g(1) f g(2,3) m] cart_inv.move_conserves [OF assms(1,2) i g(1) f g(2,3) m] True m
    by (simp add: getitemfromcart_move)
next
  case False
  then have "pc_getitemfromcart e sd idx amt = sd" by (simp only: getitemfromcart_move if_False)
  then show ?thesis using assms by simp
qed

end
