(* ===== verification/Storage.thy ===== *)
theory Storage imports Cart Bheap begin

text \<open>
  A player's storage and the guild storage (\<^verbatim>\<open>src/map/storage.c\<close>). Both are fixed
  arrays of slots with the number of used slots beside them; the shared part of their add and
  delete functions is \<open>box_add\<close> and \<open>box_del\<close>. Items move between a storage and the inventory or
  the cart. A guild storage is opened by one character at a time and can be locked.
\<close>

text \<open>The \<open>qsort\<close> comparator of \<open>storage_sortitem\<close>.\<close>

definition storage_comp_item :: "item \<Rightarrow> item \<Rightarrow> int" where
  "storage_comp_item i1 i2 =
     (if nameid i1 = nameid i2 then 0
      else if nameid i1 = 0 \<or> amount i1 = 0 then 1
      else if nameid i2 = 0 \<or> amount i2 = 0 then -1
      else nameid i1 - nameid i2)"

definition compare_item :: "item \<Rightarrow> item \<Rightarrow> bool" where
  "compare_item a b \<longleftrightarrow> nameid a = nameid b \<and> identify a = identify b \<and> refine a = refine b
     \<and> attribute a = attribute b \<and> expire_time a = expire_time b \<and> bound a = bound b
     \<and> unique_id a = unique_id b
     \<and> arr_find 0 MAX_SLOTS (\<lambda>i. card a ! i \<noteq> card b ! i) = MAX_SLOTS"

text \<open>
  Adding to the first \<open>size\<close> slots: \<open>None\<close> when a stack would overflow or no slot is free, else
  the number of slots newly used and the slots. \<open>lim\<close> says whether the item's stack is limited to
  \<open>mx\<close> in this storage.
\<close>

definition box_add :: "bool \<Rightarrow> bool \<Rightarrow> int \<Rightarrow> nat \<Rightarrow> item list \<Rightarrow> item \<Rightarrow> int \<Rightarrow> (int \<times> item list) option" where
  "box_add stackable lim mx sz items it amt =
     (let i = (if stackable then arr_find 0 sz (\<lambda>i. compare_item (items ! i) it) else sz) in
      if i < sz then
        (if amt > MAX_AMOUNT - amount (items ! i) \<or> (lim \<and> amt > mx - amount (items ! i)) then None
         else Some (0, items[i := (items ! i)\<lparr>amount := s16 (amount (items ! i) + amt)\<rparr>]))
      else
        (let j = arr_find 0 sz (\<lambda>i. nameid (items ! i) = 0) in
         if j \<ge> sz then None else Some (1, items[j := it\<lparr>amount := s16 amt\<rparr>])))"

definition box_del :: "item list \<Rightarrow> nat \<Rightarrow> int \<Rightarrow> (int \<times> item list) option" where
  "box_del items n amt =
     (let it = items ! n in
      if nameid it = 0 \<or> amount it < amt then None
      else
        (let it' = it\<lparr>amount := s16 (amount it - amt)\<rparr> in
         if amount it' = 0 then Some (1, items[n := zero_item]) else Some (0, items[n := it'])))"

section \<open>The personal storage\<close>

definition storage_additem :: "env \<Rightarrow> map_session_data \<Rightarrow> item \<Rightarrow> int \<Rightarrow> int \<times> map_session_data" where
  "storage_additem e sd it amt =
     (if nameid it = 0 \<or> amt \<le> 0 then (1, sd)
      else let data = itemdb_search (env_db e) (nameid it) in
        if stack_storage data \<and> amt > stack_amount data then (1, sd)
        else if \<not> itemdb_isrestricted (env_db e) it (group_level sd) 0 itemdb_canstore_sub then (1, sd)
        else if bound it > BOUND_ACCOUNT \<and> \<not> can_give_bounded_items sd then (1, sd)
        else
          (case box_add (itemdb_isstackable2 (id_type data)) (stack_storage data) (stack_amount data)
                  (nat (storage_size sd)) (storage_items sd) it amt of
             None \<Rightarrow> (1, sd)
           | Some (d, items) \<Rightarrow> (0, sd\<lparr>storage_items := items, storage_amount := storage_amount sd + d\<rparr>)))"

definition storage_delitem :: "map_session_data \<Rightarrow> nat \<Rightarrow> int \<Rightarrow> int \<times> map_session_data" where
  "storage_delitem sd n amt =
     (case box_del (storage_items sd) n amt of
        None \<Rightarrow> (1, sd)
      | Some (d, items) \<Rightarrow> (0, sd\<lparr>storage_items := items, storage_amount := storage_amount sd - d\<rparr>))"

text \<open>
  Sorting an opened storage: \<open>cs\<close> is the setting \<open>client_sort_storage\<close> and \<open>qs\<close> the C library's
  \<open>qsort\<close> with a comparator, of which \<open>qsort_ok\<close> states the documented behaviour: the array is
  permuted so that it is in order whenever the comparator is an order on its elements.
\<close>

type_synonym qsort_fn = "(item \<Rightarrow> item \<Rightarrow> int) \<Rightarrow> item list \<Rightarrow> item list"

definition qsort_ok :: "qsort_fn \<Rightarrow> bool" where
  "qsort_ok qs \<longleftrightarrow> (\<forall>cmp xs. mset (qs cmp xs) = mset xs
     \<and> ((\<forall>a \<in> set xs. \<forall>b \<in> set xs. (cmp a b < 0 \<longleftrightarrow> 0 < cmp b a)
           \<and> (\<forall>c \<in> set xs. cmp a b \<le> 0 \<longrightarrow> cmp b c \<le> 0 \<longrightarrow> cmp a c \<le> 0))
         \<longrightarrow> sorted_wrt (\<lambda>a b. cmp a b \<le> 0) (qs cmp xs)))"

definition storage_sortitem :: "qsort_fn \<Rightarrow> bool \<Rightarrow> item list \<Rightarrow> item list" where
  "storage_sortitem qs cs items = (if cs then qs storage_comp_item items else items)"

definition storage_storageopen :: "qsort_fn \<Rightarrow> bool \<Rightarrow> map_session_data \<Rightarrow> int \<times> map_session_data" where
  "storage_storageopen qs cs sd =
     (if st_storage_flag sd \<noteq> 0 then (1, sd)
      else if \<not> can_give_items sd then (1, sd)
      else (0, sd\<lparr>st_storage_flag := 1, storage_items := storage_sortitem qs cs (storage_items sd)\<rparr>))"

definition storage_storageclose :: "map_session_data \<Rightarrow> map_session_data" where
  "storage_storageclose sd = sd\<lparr>st_storage_flag := 0\<rparr>"

definition storage_storage_quit :: "map_session_data \<Rightarrow> map_session_data" where
  "storage_storage_quit sd = sd\<lparr>st_storage_flag := 0\<rparr>"

definition storage_storageadd :: "env \<Rightarrow> map_session_data \<Rightarrow> int \<Rightarrow> int \<Rightarrow> map_session_data" where
  "storage_storageadd e sd idx amt =
     (if storage_amount sd > storage_size sd then sd
      else if idx < 0 \<or> idx \<ge> int MAX_INVENTORY then sd
      else if nameid (inventory sd ! nat idx) \<le> 0 then sd
      else if amt < 1 \<or> amt > amount (inventory sd ! nat idx) then sd
      else
        (let (r, sd) = storage_additem e sd (inventory sd ! nat idx) amt
         in if r = 0 then snd (pc_delitem e sd idx amt) else sd))"

definition storage_storageget :: "env \<Rightarrow> map_session_data \<Rightarrow> int \<Rightarrow> int \<Rightarrow> map_session_data" where
  "storage_storageget e sd idx amt =
     (if idx < 0 \<or> idx \<ge> storage_size sd then sd
      else if nameid (storage_items sd ! nat idx) \<le> 0 then sd
      else if amt < 1 \<or> amt > amount (storage_items sd ! nat idx) then sd
      else
        (let (flag, it, sd) = pc_additem e sd (storage_items sd ! nat idx) amt;
             sd = sd\<lparr>storage_items := (storage_items sd)[nat idx := it]\<rparr>
         in if flag = 0 then snd (storage_delitem sd (nat idx) amt) else sd))"

definition storage_storageaddfromcart :: "env \<Rightarrow> map_session_data \<Rightarrow> int \<Rightarrow> int \<Rightarrow> map_session_data" where
  "storage_storageaddfromcart e sd idx amt =
     (if storage_amount sd > storage_size sd then sd
      else if idx < 0 \<or> idx \<ge> int MAX_CART then sd
      else if nameid (cart sd ! nat idx) \<le> 0 then sd
      else if amt < 1 \<or> amt > amount (cart sd ! nat idx) then sd
      else
        (let (r, sd) = storage_additem e sd (cart sd ! nat idx) amt
         in if r = 0 then pc_cart_delitem e sd (nat idx) amt else sd))"

definition storage_storagegettocart :: "env \<Rightarrow> map_session_data \<Rightarrow> int \<Rightarrow> int \<Rightarrow> map_session_data" where
  "storage_storagegettocart e sd idx amt =
     (if idx < 0 \<or> idx \<ge> storage_size sd then sd
      else if nameid (storage_items sd ! nat idx) \<le> 0 then sd
      else if amt < 1 \<or> amt > amount (storage_items sd ! nat idx) then sd
      else
        (let (flag, it, sd) = pc_cart_additem e sd (storage_items sd ! nat idx) amt;
             sd = sd\<lparr>storage_items := (storage_items sd)[nat idx := it]\<rparr>
         in if flag = 0 then snd (storage_delitem sd (nat idx) amt) else sd))"

section \<open>The guild storage\<close>

record guild_storage =
  gs_dirty :: bool
  gs_storage_amount :: int
  gs_items :: "item list"
  gs_locked :: bool
  gs_opened :: int

definition gstorage_storageopen :: "qsort_fn \<Rightarrow> bool \<Rightarrow> map_session_data \<Rightarrow> guild_storage option \<Rightarrow> int \<times> map_session_data \<times> guild_storage option" where
  "gstorage_storageopen qs cs sd gstor =
     (if guild_id sd \<le> 0 then (2, sd, gstor)
      else if st_storage_flag sd \<noteq> 0 then (1, sd, gstor)
      else if \<not> can_give_items sd then (1, sd, gstor)
      else (case gstor of
              None \<Rightarrow> (0, sd, gstor)
            | Some g \<Rightarrow>
                if gs_opened g \<noteq> 0 then (1, sd, gstor)
                else if gs_locked g then (1, sd, gstor)
                else (0, sd\<lparr>st_storage_flag := 2\<rparr>, Some (g\<lparr>gs_opened := char_id sd, gs_items := storage_sortitem qs cs (gs_items g)\<rparr>))))"

definition gstorage_additem :: "env \<Rightarrow> map_session_data \<Rightarrow> guild_storage \<Rightarrow> item \<Rightarrow> int \<Rightarrow> bool \<times> guild_storage" where
  "gstorage_additem e sd stor it amt =
     (if nameid it = 0 \<or> amt \<le> 0 then (False, stor)
      else let data = itemdb_search (env_db e) (nameid it) in
        if stack_guildstorage data \<and> amt > stack_amount data then (False, stor)
        else if \<not> itemdb_isrestricted (env_db e) it (group_level sd) 0 itemdb_canguildstore_sub \<or> expire_time it \<noteq> 0 then (False, stor)
        else if (bound it = BOUND_ACCOUNT \<or> bound it > BOUND_GUILD) \<and> \<not> can_give_bounded_items sd then (False, stor)
        else
          (case box_add (itemdb_isstackable2 (id_type data)) (stack_guildstorage data) (stack_amount data)
                  MAX_GUILD_STORAGE (gs_items stor) it amt of
             None \<Rightarrow> (False, stor)
           | Some (d, items) \<Rightarrow> (True, stor\<lparr>gs_items := items, gs_storage_amount := gs_storage_amount stor + d, gs_dirty := True\<rparr>)))"

text \<open>
  Putting items back without a player (bound items of a member who left): a full stack swallows
  what does not fit.
\<close>

definition gstorage_additem2 :: "env \<Rightarrow> guild_storage \<Rightarrow> item \<Rightarrow> int \<Rightarrow> bool \<times> guild_storage" where
  "gstorage_additem2 e stor it amt =
     (case itemdb_exists (env_db e) (nameid it) of
        None \<Rightarrow> (False, stor)
      | Some data \<Rightarrow>
          if nameid it = 0 \<or> amt \<le> 0 then (False, stor)
          else if expire_time it \<noteq> 0 then (False, stor)
          else
            (let items = gs_items stor;
                 i = (if itemdb_isstackable2 (id_type data)
                      then arr_find 0 MAX_GUILD_STORAGE (\<lambda>i. compare_item (items ! i) it) else MAX_GUILD_STORAGE) in
             if i < MAX_GUILD_STORAGE then
               (let amt = min amt ((if stack_guildstorage data then stack_amount data else MAX_AMOUNT) - amount (items ! i))
                in (True, stor\<lparr>gs_items := items[i := (items ! i)\<lparr>amount := s16 (amount (items ! i) + amt)\<rparr>], gs_dirty := True\<rparr>))
             else
               (let j = arr_find 0 MAX_GUILD_STORAGE (\<lambda>i. nameid (items ! i) = 0) in
                if j \<ge> MAX_GUILD_STORAGE then (False, stor)
                else (True, stor\<lparr>gs_items := items[j := it\<lparr>amount := s16 amt\<rparr>],
                        gs_storage_amount := gs_storage_amount stor + 1, gs_dirty := True\<rparr>))))"

definition gstorage_delitem :: "guild_storage \<Rightarrow> nat \<Rightarrow> int \<Rightarrow> bool \<times> guild_storage" where
  "gstorage_delitem stor n amt =
     (case box_del (gs_items stor) n amt of
        None \<Rightarrow> (False, stor)
      | Some (d, items) \<Rightarrow> (True, stor\<lparr>gs_items := items, gs_storage_amount := gs_storage_amount stor - d, gs_dirty := True\<rparr>))"

text \<open>Closing; the save requests go to the character server.\<close>

definition gstorage_storageclose :: "map_session_data \<Rightarrow> guild_storage \<Rightarrow> map_session_data \<times> guild_storage" where
  "gstorage_storageclose sd stor =
     (sd\<lparr>st_storage_flag := 0\<rparr>, if gs_opened stor \<noteq> 0 then stor\<lparr>gs_opened := 0\<rparr> else stor)"

definition gstorage_storage_quit :: "map_session_data \<Rightarrow> guild_storage \<Rightarrow> map_session_data \<times> guild_storage" where
  "gstorage_storage_quit sd stor = (sd\<lparr>st_storage_flag := 0\<rparr>, stor\<lparr>gs_opened := 0\<rparr>)"

definition gstorage_storagesaved :: "guild_storage \<Rightarrow> guild_storage" where
  "gstorage_storagesaved stor = (if gs_dirty stor \<and> gs_opened stor = 0 then stor\<lparr>gs_dirty := False\<rparr> else stor)"

type_synonym gstate = "map_session_data \<times> guild_storage"

definition gstorage_storageadd :: "env \<Rightarrow> gstate \<Rightarrow> int \<Rightarrow> int \<Rightarrow> gstate" where
  "gstorage_storageadd e st idx amt =
     (let (sd, stor) = st in
      if gs_opened stor = 0 \<or> gs_opened stor \<noteq> char_id sd \<or> gs_storage_amount stor > int MAX_GUILD_STORAGE then st
      else if idx < 0 \<or> idx \<ge> int MAX_INVENTORY then st
      else if nameid (inventory sd ! nat idx) = 0 then st
      else if amt < 1 \<or> amt > amount (inventory sd ! nat idx) then st
      else if gs_locked stor then gstorage_storageclose sd stor
      else
        (let (ok, stor) = gstorage_additem e sd stor (inventory sd ! nat idx) amt
         in if ok then (snd (pc_delitem e sd idx amt), stor) else (sd, stor)))"

definition gstorage_storageget :: "env \<Rightarrow> gstate \<Rightarrow> int \<Rightarrow> int \<Rightarrow> gstate" where
  "gstorage_storageget e st idx amt =
     (let (sd, stor) = st in
      if gs_opened stor = 0 \<or> gs_opened stor \<noteq> char_id sd then st
      else if idx < 0 \<or> idx \<ge> int MAX_GUILD_STORAGE then st
      else if nameid (gs_items stor ! nat idx) = 0 then st
      else if amt < 1 \<or> amt > amount (gs_items stor ! nat idx) then st
      else if gs_locked stor then gstorage_storageclose sd stor
      else
        (let (flag, it, sd) = pc_additem e sd (gs_items stor ! nat idx) amt;
             stor = stor\<lparr>gs_items := (gs_items stor)[nat idx := it]\<rparr>
         in if flag = 0 then (sd, snd (gstorage_delitem stor (nat idx) amt)) else (sd, stor)))"

definition gstorage_storageaddfromcart :: "env \<Rightarrow> gstate \<Rightarrow> int \<Rightarrow> int \<Rightarrow> gstate" where
  "gstorage_storageaddfromcart e st idx amt =
     (let (sd, stor) = st in
      if gs_opened stor = 0 \<or> gs_opened stor \<noteq> char_id sd \<or> gs_storage_amount stor > int MAX_GUILD_STORAGE then st
      else if idx < 0 \<or> idx \<ge> int MAX_CART then st
      else if nameid (cart sd ! nat idx) = 0 then st
      else if amt < 1 \<or> amt > amount (cart sd ! nat idx) then st
      else
        (let (ok, stor) = gstorage_additem e sd stor (cart sd ! nat idx) amt
         in if ok then (pc_cart_delitem e sd (nat idx) amt, stor) else (sd, stor)))"

definition gstorage_storagegettocart :: "env \<Rightarrow> gstate \<Rightarrow> int \<Rightarrow> int \<Rightarrow> gstate" where
  "gstorage_storagegettocart e st idx amt =
     (let (sd, stor) = st in
      if gs_opened stor = 0 \<or> gs_opened stor \<noteq> char_id sd then st
      else if idx < 0 \<or> idx \<ge> int MAX_GUILD_STORAGE then st
      else if nameid (gs_items stor ! nat idx) = 0 then st
      else if amt < 1 \<or> amt > amount (gs_items stor ! nat idx) then st
      else
        (let (flag, it, sd) = pc_cart_additem e sd (gs_items stor ! nat idx) amt;
             stor = stor\<lparr>gs_items := (gs_items stor)[nat idx := it]\<rparr>
         in if flag = 0 then (sd, snd (gstorage_delitem stor (nat idx) amt)) else (sd, stor)))"


section \<open>Slots of a storage\<close>

definition box_ok :: "nat \<Rightarrow> nat \<Rightarrow> item list \<Rightarrow> int \<Rightarrow> bool" where
  "box_ok cap sz items n \<longleftrightarrow> length items = cap \<and> sz \<le> cap \<and> (\<forall>i < cap. slot_ok (items ! i)) \<and> n = used_slots items"

lemma box_add_ok:
  assumes ok: "box_ok cap sz items n" and it: "slot_ok it" and amt: "0 < amt" "amt \<le> amount it"
    and a: "box_add st lim mx sz items it amt = Some (d, items')"
  shows "box_ok cap sz items' (n + d) \<and> (\<forall>k. count_item k items' = count_item k items + (if k = nameid it then amt else 0))"
proof -
  let ?P = "\<lambda>i. compare_item (items ! i) it" and ?Q = "\<lambda>i. nameid (items ! i) = 0"
  let ?i = "if st then arr_find 0 sz ?P else sz" and ?j = "arr_find 0 sz ?Q"
  have nm: "nameid it \<noteq> 0" "amt \<le> 30000" using it amt by (auto simp: slot_ok_def MAX_AMOUNT_def split: if_splits)
  have len: "length items = cap" "sz \<le> cap" using ok by (simp_all add: box_ok_def)
  show ?thesis
  proof (cases "?i < sz")
    case True
    then have i: "?i = arr_find 0 sz ?P" "compare_item (items ! ?i) it"
      using arr_find_holds [of 0 sz ?P] by (auto split: if_splits)
    let ?x = "(items ! ?i)\<lparr>amount := s16 (amount (items ! ?i) + amt)\<rparr>"
    have c: "\<not> amt > MAX_AMOUNT - amount (items ! ?i)" "d = 0" "items' = items[?i := ?x]"
      using a True unfolding box_add_def Let_def by (simp_all split: if_splits)
    have il: "?i < length items" "slot_ok (items ! ?i)" using True len ok by (auto simp: box_ok_def)
    have ni: "nameid (items ! ?i) = nameid it" using i(2) by (simp add: compare_item_def)
    have pos: "0 < amount (items ! ?i)" using il ni nm by (simp add: slot_ok_def)
    have s: "s16 (amount (items ! ?i) + amt) = amount (items ! ?i) + amt"
      using pos c(1) amt by (intro s16_id) (auto simp: MAX_AMOUNT_def)
    have "slot_ok ?x" using il(2) pos amt c(1) ni nm by (simp add: slot_ok_def s)
    then have "box_ok cap sz items' (n + d)"
      using ok il ni nm by (auto simp: box_ok_def c(2,3) used_slots_upd nth_list_update)
    then show ?thesis using il ni by (auto simp: c(3) count_item_upd s)
  next
    case False
    let ?x = "it\<lparr>amount := s16 amt\<rparr>"
    have c: "?j < sz" "d = 1" "items' = items[?j := ?x]"
      using a False unfolding box_add_def Let_def by (simp_all split: if_splits)
    have jl: "?j < length items" "nameid (items ! ?j) = 0" "slot_ok (items ! ?j)"
      using c(1) len arr_find_holds [of 0 sz ?Q] ok by (auto simp: box_ok_def)
    have z: "amount (items ! ?j) = 0" using jl by (simp add: slot_ok_def)
    have s: "s16 amt = amt" using nm amt by (intro s16_id) auto
    have "slot_ok ?x" using it nm amt by (simp add: slot_ok_def s MAX_AMOUNT_def)
    then have "box_ok cap sz items' (n + d)"
      using ok jl nm by (auto simp: box_ok_def c(2,3) used_slots_upd nth_list_update)
    then show ?thesis using jl z by (auto simp: c(3) count_item_upd s)
  qed
qed

lemma box_del_ok:
  assumes ok: "box_ok cap sz items n" and i: "i < cap" "nameid (items ! i) \<noteq> 0" and amt: "0 < amt" "amt \<le> amount (items ! i)"
  shows "\<exists>d items'. box_del items i amt = Some (d, items') \<and> box_ok cap sz items' (n - d)
    \<and> (\<forall>k. count_item k items' = count_item k items - (if k = nameid (items ! i) then amt else 0))"
proof -
  let ?it = "items ! i"
  have len: "i < length items" and so: "slot_ok ?it" using ok i by (simp_all add: box_ok_def)
  have s: "s16 (amount ?it - amt) = amount ?it - amt"
    using so i amt by (intro s16_id) (auto simp: slot_ok_def MAX_AMOUNT_def)
  show ?thesis
  proof (cases "amount ?it = amt")
    case True
    then have "box_del items i amt = Some (1, items[i := zero_item])" using i amt s by (simp add: box_del_def Let_def)
    moreover have "box_ok cap sz (items[i := zero_item]) (n - 1)"
      using ok len i by (auto simp: box_ok_def used_slots_upd nth_list_update)
    ultimately show ?thesis using len True by (auto simp: count_item_upd)
  next
    case False
    let ?x = "?it\<lparr>amount := amount ?it - amt\<rparr>"
    have "box_del items i amt = Some (0, items[i := ?x])" using i amt s False by (simp add: box_del_def Let_def)
    moreover have "box_ok cap sz (items[i := ?x]) (n - 0)"
      using ok len i so amt False by (auto simp: box_ok_def used_slots_upd nth_list_update slot_ok_def)
    ultimately show ?thesis using len by (auto simp: count_item_upd)
  qed
qed

lemma box_write_ok:
  assumes "box_ok cap sz items n" "i < length items" "same_kind (items ! i) it"
  shows "box_ok cap sz (items[i := it]) n"
  using assms used_slots_upd [OF assms(2), of it]
  by (auto simp: box_ok_def nth_list_update slot_ok_same_kind) (auto simp: same_kind_def)

text \<open>On well-formed slots the sort's comparator is a consistent order.\<close>

interpretation stor_order: topcmp storage_comp_item "{it. slot_ok it \<and> 0 \<le> nameid it}"
proof
  fix a b
  assume "a \<in> {it. slot_ok it \<and> 0 \<le> nameid it}" "b \<in> {it. slot_ok it \<and> 0 \<le> nameid it}"
  then show "(storage_comp_item a b < 0) = (0 < storage_comp_item b a)"
    by (auto simp: storage_comp_item_def slot_ok_def split: if_splits)
next
  fix a b c
  assume "a \<in> {it. slot_ok it \<and> 0 \<le> nameid it}" "b \<in> {it. slot_ok it \<and> 0 \<le> nameid it}" "c \<in> {it. slot_ok it \<and> 0 \<le> nameid it}"
    and "storage_comp_item a b \<le> 0" "storage_comp_item b c \<le> 0"
  then show "storage_comp_item a c \<le> 0"
    by (auto simp: storage_comp_item_def slot_ok_def split: if_splits)
qed

text \<open>Sorting loses no item and keeps the storage well formed; with the setting on, the used slots come
  first, in the order of their item ids.\<close>

lemma sum_list_mset:
  fixes f :: "'a \<Rightarrow> int"
  assumes "mset l = mset l'"
  shows "sum_list (map f l) = sum_list (map f l')"
proof -
  have "mset (map f l) = mset (map f l')" by (simp add: assms)
  then have "sum_mset (mset (map f l)) = sum_mset (mset (map f l'))" by simp
  then show ?thesis by (simp only: sum_mset_sum_list)
qed

lemma used_slots_mset: "mset l = mset l' \<Longrightarrow> used_slots l = used_slots l'"
  unfolding used_slots_def by (rule sum_list_mset)

lemma count_item_mset: "mset l = mset l' \<Longrightarrow> count_item k l = count_item k l'"
  unfolding count_item_def by (rule sum_list_mset)

lemma sortitem_ok:
  assumes q: "qsort_ok qs" and b: "box_ok cap sz items n"
  shows "mset (storage_sortitem qs cs items) = mset items \<and> box_ok cap sz (storage_sortitem qs cs items) n"
proof -
  have m: "mset (storage_sortitem qs cs items) = mset items" using q by (simp add: storage_sortitem_def qsort_ok_def)
  then have "set (storage_sortitem qs cs items) = set items" "length (storage_sortitem qs cs items) = length items"
    by (metis set_mset_mset, metis size_mset)
  moreover have "\<forall>it \<in> set items. slot_ok it" using b by (auto simp: box_ok_def in_set_conv_nth)
  ultimately show ?thesis using m b used_slots_mset [OF m] by (auto simp: box_ok_def)
qed

lemma sortitem_sorted:
  assumes q: "qsort_ok qs" and s: "\<forall>it \<in> set items. slot_ok it \<and> 0 \<le> nameid it"
  shows "sorted_wrt (\<lambda>a b. storage_comp_item a b \<le> 0) (storage_sortitem qs True items)"
proof -
  have S: "x \<in> {it. slot_ok it \<and> 0 \<le> nameid it}" if "x \<in> set items" for x using s that by simp
  have "\<forall>a \<in> set items. \<forall>b \<in> set items. (storage_comp_item a b < 0 \<longleftrightarrow> 0 < storage_comp_item b a)
     \<and> (\<forall>c \<in> set items. storage_comp_item a b \<le> 0 \<longrightarrow> storage_comp_item b c \<le> 0 \<longrightarrow> storage_comp_item a c \<le> 0)"
    by (intro ballI conjI impI) (rule stor_order.cmp_sign, (rule S, assumption)+, rule stor_order.cmp_trans, (rule S, assumption)+, assumption+)
  from mp [OF conjunct2 [OF spec [OF spec [OF q [unfolded qsort_ok_def], of storage_comp_item], of items]] this]
  show ?thesis by (simp add: storage_sortitem_def)
qed

end
