(* ===== verification/StorageOps.thy ===== *)
theory StorageOps imports Storage begin

text \<open>
  The personal storage of \<^verbatim>\<open>src/map/storage.c\<close> as an instance of the container interface, and its handlers.
\<close>

section \<open>The personal storage as a container\<close>

definition stor_ok :: "map_session_data \<Rightarrow> bool" where
  "stor_ok sd \<longleftrightarrow> 0 \<le> storage_size sd \<and> box_ok MAX_STORAGE (nat (storage_size sd)) (storage_items sd) (storage_amount sd)"

definition stor_add :: "env \<Rightarrow> map_session_data \<Rightarrow> item \<Rightarrow> int \<Rightarrow> bool \<times> item \<times> map_session_data" where
  "stor_add e s it amt = (case storage_additem e s it amt of (r, s) \<Rightarrow> (r = 0, it, s))"

definition stor_write :: "map_session_data \<Rightarrow> nat \<Rightarrow> item \<Rightarrow> map_session_data" where
  "stor_write s i it = s\<lparr>storage_items := (storage_items s)[i := it]\<rparr>"

definition stor_del :: "map_session_data \<Rightarrow> nat \<Rightarrow> int \<Rightarrow> map_session_data" where
  "stor_del s i amt = snd (storage_delitem s i amt)"

definition stor_frame :: "map_session_data \<Rightarrow> map_session_data \<Rightarrow> bool" where
  "stor_frame sd sd' \<longleftrightarrow> (\<exists>items n. sd' = sd\<lparr>storage_items := items, storage_amount := n\<rparr>)"

lemma stor_frameI [simp]: "stor_frame s (s\<lparr>storage_items := items, storage_amount := n\<rparr>)"
  unfolding stor_frame_def by blast

lemma stor_frame_sel [frame_simps]:
  assumes "stor_frame s s'"
  shows "inventory s' = inventory s" "cart s' = cart s" "inv_src_ok e s' = inv_src_ok e s" "cart_ok e s' = cart_ok e s"
    "storage_size s' = storage_size s"
  using assms by (auto simp: stor_frame_def inv_src_ok_def inv_ok_def cart_ok_def)

lemma stor_frame_parts [frame_simps]:
  "stor_frame s s' \<Longrightarrow> inv_part s' = inv_part s" "stor_frame s s' \<Longrightarrow> cart_part s' = cart_part s"
  by (auto simp: inv_part_def cart_part_def stor_frame_def)

lemma ok_parts:
  "inv_part s' = inv_part s \<Longrightarrow> inv_src_ok e s' = inv_src_ok e s"
  "cart_part s' = cart_part s \<Longrightarrow> cart_ok e s' = cart_ok e s"
  "stor_part s' = stor_part s \<Longrightarrow> stor_ok s' = stor_ok s"
  by (simp_all add: inv_part_def cart_part_def stor_part_def inv_src_ok_def inv_ok_def cart_ok_def stor_ok_def)

lemma stor_ok_inv_frame: "inv_frame s s' \<Longrightarrow> stor_ok s' = stor_ok s"
  by (simp add: stor_ok_def inv_frame_sel)

lemma stor_ok_cart_frame: "cart_frame s s' \<Longrightarrow> stor_ok s' = stor_ok s"
  by (simp add: stor_ok_def cart_frame_sel)

lemma stor_add_ok:
  assumes ok: "stor_ok s" and it: "slot_ok it" and amt: "0 < amt" "amt \<le> amount it" and a: "stor_add e s it amt = (r, it', s')"
  shows "stor_ok s' \<and> stor_frame s s' \<and> it' = it \<and>
    (\<forall>k. count_item k (storage_items s') = count_item k (storage_items s) + (if r \<and> k = nameid it then amt else 0))"
proof -
  let ?d = "itemdb_search (env_db e) (nameid it)"
  let ?b = "box_add (itemdb_isstackable2 (id_type ?d)) (stack_storage ?d) (stack_amount ?d) (nat (storage_size s)) (storage_items s) it amt"
  have refl: "stor_frame s s" unfolding stor_frame_def by (intro exI [of _ "storage_items s"] exI [of _ "storage_amount s"]) simp
  have e: "storage_additem e s it amt = (1, s) \<or> (\<exists>d items. ?b = Some (d, items) \<and>
      storage_additem e s it amt = (0, s\<lparr>storage_items := items, storage_amount := storage_amount s + d\<rparr>))"
    by (cases ?b) (auto simp: storage_additem_def Let_def)
  then show ?thesis
  proof
    assume "storage_additem e s it amt = (1, s)"
    then show ?thesis using a ok refl by (simp add: stor_add_def)
  next
    assume "\<exists>d items. ?b = Some (d, items) \<and>
      storage_additem e s it amt = (0, s\<lparr>storage_items := items, storage_amount := storage_amount s + d\<rparr>)"
    then obtain d items where b: "?b = Some (d, items)"
      "storage_additem e s it amt = (0, s\<lparr>storage_items := items, storage_amount := storage_amount s + d\<rparr>)" by blast
    have "box_ok MAX_STORAGE (nat (storage_size s)) (storage_items s) (storage_amount s)" using ok by (simp add: stor_ok_def)
    from box_add_ok [OF this it amt b(1)] show ?thesis using a b ok by (auto simp: stor_add_def stor_ok_def)
  qed
qed

lemma stor_del_ok:
  assumes ok: "stor_ok s" and i: "i < length (storage_items s)" "nameid (storage_items s ! i) \<noteq> 0" "0 < amt" "amt \<le> amount (storage_items s ! i)"
  shows "stor_ok (stor_del s i amt) \<and> stor_frame s (stor_del s i amt) \<and>
    (\<forall>k. count_item k (storage_items (stor_del s i amt)) = count_item k (storage_items s) - (if k = nameid (storage_items s ! i) then amt else 0))"
proof -
  have b: "box_ok MAX_STORAGE (nat (storage_size s)) (storage_items s) (storage_amount s)" using ok by (simp add: stor_ok_def)
  then have il: "i < MAX_STORAGE" using i by (simp add: box_ok_def)
  from box_del_ok [OF b il i(2-4)] show ?thesis using ok
    by (auto simp: stor_del_def storage_delitem_def stor_ok_def)
qed

lemma stor_write_ok:
  assumes "stor_ok s" "i < length (storage_items s)" "same_kind (storage_items s ! i) it"
  shows "stor_ok (stor_write s i it) \<and> stor_frame s (stor_write s i it)"
proof -
  have "stor_frame s (stor_write s i it)"
    unfolding stor_frame_def stor_write_def by (intro exI [of _ "(storage_items s)[i := it]"] exI [of _ "storage_amount s"]) simp
  then show ?thesis using assms box_write_ok by (simp add: stor_ok_def stor_write_def)
qed

interpretation inv_stor: item_move inventory storage_items "inv_src_ok e" stor_ok "\<lambda>_. True" "stor_add e" inv_put "inv_del e" cart_part for e
proof
  show "inv_src_ok e s \<Longrightarrow> i < length (inventory s) \<Longrightarrow> slot_ok (inventory s ! i)" for s i by (rule inv_slots)
next
  fix s it amt r it' s'
  assume "inv_src_ok e s" "stor_ok s" "slot_ok it" "0 < amt" "amt \<le> amount it" "stor_add e s it amt = (r, it', s')"
  then show "inv_src_ok e s' \<and> stor_ok s' \<and> inventory s' = inventory s \<and> cart_part s' = cart_part s \<and> same_kind it it' \<and>
      (\<forall>k. count_item k (storage_items s') = count_item k (storage_items s) + (if r \<and> k = nameid it then amt else 0))"
    using stor_add_ok [of s it amt e r it' s'] stor_frame_sel(1,3) [of s s'] stor_frame_parts [of s s'] by auto
next
  fix s i it
  assume "inv_src_ok e s" "stor_ok s" "i < length (inventory s)" "same_kind (inventory s ! i) it"
  then show "inv_src_ok e (inv_put s i it) \<and> stor_ok (inv_put s i it)
      \<and> inventory (inv_put s i it) = (inventory s)[i := it] \<and> storage_items (inv_put s i it) = storage_items s
      \<and> cart_part (inv_put s i it) = cart_part s"
    using inv_put_ok [of e s i it] stor_ok_inv_frame [of s "inv_put s i it"] by (auto simp: inv_put_def cart_part_def)
next
  fix s i amt
  assume "inv_src_ok e s" "stor_ok s" "i < length (inventory s)" "nameid (inventory s ! i) \<noteq> 0" "0 < amt" "amt \<le> amount (inventory s ! i)"
  then show "inv_src_ok e (inv_del e s i amt) \<and> stor_ok (inv_del e s i amt) \<and> storage_items (inv_del e s i amt) = storage_items s \<and>
      cart_part (inv_del e s i amt) = cart_part s \<and> (\<forall>k. count_item k (inventory (inv_del e s i amt)) = count_item k (inventory s) - (if k = nameid (inventory s ! i) then amt else 0))"
    using inv_del_ok [of e s i amt] stor_ok_inv_frame [of s "inv_del e s i amt"] inv_frame_sel(8) [of s "inv_del e s i amt"]
      inv_frame_parts [of s "inv_del e s i amt"] by blast
qed

interpretation stor_inv: item_move storage_items inventory stor_ok "inv_src_ok e" "not_expired e" "inv_add e" stor_write stor_del cart_part for e
proof
  show "stor_ok s \<Longrightarrow> i < length (storage_items s) \<Longrightarrow> slot_ok (storage_items s ! i)" for s i
    by (simp add: stor_ok_def box_ok_def)
next
  fix s it amt r it' s'
  assume "stor_ok s" "inv_src_ok e s" "slot_ok it" "not_expired e it" "inv_add e s it amt = (r, it', s')"
  then show "stor_ok s' \<and> inv_src_ok e s' \<and> storage_items s' = storage_items s \<and> cart_part s' = cart_part s \<and> same_kind it it' \<and>
      (\<forall>k. count_item k (inventory s') = count_item k (inventory s) + (if r \<and> k = nameid it then amt else 0))"
    using inv_add_ok [of e s it amt r it' s'] stor_ok_inv_frame [of s s'] inv_frame_sel(8) [of s s'] inv_frame_parts [of s s'] by blast
next
  fix s i it
  assume "stor_ok s" "inv_src_ok e s" "i < length (storage_items s)" "same_kind (storage_items s ! i) it"
  then show "stor_ok (stor_write s i it) \<and> inv_src_ok e (stor_write s i it)
      \<and> storage_items (stor_write s i it) = (storage_items s)[i := it] \<and> inventory (stor_write s i it) = inventory s
      \<and> cart_part (stor_write s i it) = cart_part s"
    using stor_write_ok [of s i it] stor_frame_sel(3) [of s "stor_write s i it" e] by (auto simp: stor_write_def cart_part_def)
next
  fix s i amt
  assume "stor_ok s" "inv_src_ok e s" "i < length (storage_items s)" "nameid (storage_items s ! i) \<noteq> 0" "0 < amt" "amt \<le> amount (storage_items s ! i)"
  then show "stor_ok (stor_del s i amt) \<and> inv_src_ok e (stor_del s i amt) \<and> inventory (stor_del s i amt) = inventory s \<and>
      cart_part (stor_del s i amt) = cart_part s \<and> (\<forall>k. count_item k (storage_items (stor_del s i amt)) = count_item k (storage_items s) - (if k = nameid (storage_items s ! i) then amt else 0))"
    using stor_del_ok [of s i amt] stor_frame_sel(1,3) [of s "stor_del s i amt"] stor_frame_parts [of s "stor_del s i amt"] by auto
qed

interpretation cart_stor: item_move cart storage_items "cart_ok e" stor_ok "\<lambda>_. True" "stor_add e" cart_write "pc_cart_delitem e" inv_part for e
proof
  show "cart_ok e s \<Longrightarrow> i < length (cart s) \<Longrightarrow> slot_ok (cart s ! i)" for s i by (simp add: cart_ok_def)
next
  fix s it amt r it' s'
  assume "cart_ok e s" "stor_ok s" "slot_ok it" "0 < amt" "amt \<le> amount it" "stor_add e s it amt = (r, it', s')"
  then show "cart_ok e s' \<and> stor_ok s' \<and> cart s' = cart s \<and> inv_part s' = inv_part s \<and> same_kind it it' \<and>
      (\<forall>k. count_item k (storage_items s') = count_item k (storage_items s) + (if r \<and> k = nameid it then amt else 0))"
    using stor_add_ok [of s it amt e r it' s'] stor_frame_sel(2,4) [of s s'] stor_frame_parts [of s s'] by auto
next
  fix s i it
  assume "cart_ok e s" "stor_ok s" "i < length (cart s)" "same_kind (cart s ! i) it"
  then show "cart_ok e (cart_write s i it) \<and> stor_ok (cart_write s i it)
      \<and> cart (cart_write s i it) = (cart s)[i := it] \<and> storage_items (cart_write s i it) = storage_items s
      \<and> inv_part (cart_write s i it) = inv_part s"
    using cart_write_ok [of e s i it] stor_ok_cart_frame [of s "cart_write s i it"] by (auto simp: cart_write_def inv_part_def)
next
  fix s i amt
  assume a: "cart_ok e s" "stor_ok s" "i < length (cart s)" "nameid (cart s ! i) \<noteq> 0" "0 < amt" "amt \<le> amount (cart s ! i)"
  then have "i < MAX_CART" by (simp add: cart_ok_def)
  with a show "cart_ok e (pc_cart_delitem e s i amt) \<and> stor_ok (pc_cart_delitem e s i amt)
      \<and> storage_items (pc_cart_delitem e s i amt) = storage_items s \<and>
      inv_part (pc_cart_delitem e s i amt) = inv_part s \<and> (\<forall>k. count_item k (cart (pc_cart_delitem e s i amt)) = count_item k (cart s) - (if k = nameid (cart s ! i) then amt else 0))"
    using cart_delitem_ok [of e s i amt] stor_ok_cart_frame [of s "pc_cart_delitem e s i amt"]
      cart_frame_sel(4) [of s "pc_cart_delitem e s i amt"] cart_frame_parts [of s "pc_cart_delitem e s i amt"] by blast
qed

interpretation stor_cart: item_move storage_items cart stor_ok "cart_ok e" "\<lambda>_. True" "cart_add e" stor_write stor_del inv_part for e
proof
  show "stor_ok s \<Longrightarrow> i < length (storage_items s) \<Longrightarrow> slot_ok (storage_items s ! i)" for s i
    by (simp add: stor_ok_def box_ok_def)
next
  fix s it amt r it' s'
  assume "stor_ok s" "cart_ok e s" "slot_ok it" "0 < amt" "amt \<le> amount it" "cart_add e s it amt = (r, it', s')"
  then show "stor_ok s' \<and> cart_ok e s' \<and> storage_items s' = storage_items s \<and> inv_part s' = inv_part s \<and> same_kind it it' \<and>
      (\<forall>k. count_item k (cart s') = count_item k (cart s) + (if r \<and> k = nameid it then amt else 0))"
    using cart_add_ok [of e s it amt r it' s'] stor_ok_cart_frame [of s s'] cart_frame_sel(4) [of s s'] cart_frame_parts [of s s'] by blast
next
  fix s i it
  assume "stor_ok s" "cart_ok e s" "i < length (storage_items s)" "same_kind (storage_items s ! i) it"
  then show "stor_ok (stor_write s i it) \<and> cart_ok e (stor_write s i it)
      \<and> storage_items (stor_write s i it) = (storage_items s)[i := it] \<and> cart (stor_write s i it) = cart s
      \<and> inv_part (stor_write s i it) = inv_part s"
    using stor_write_ok [of s i it] stor_frame_sel(4) [of s "stor_write s i it" e] by (auto simp: stor_write_def inv_part_def)
next
  fix s i amt
  assume "stor_ok s" "cart_ok e s" "i < length (storage_items s)" "nameid (storage_items s ! i) \<noteq> 0" "0 < amt" "amt \<le> amount (storage_items s ! i)"
  then show "stor_ok (stor_del s i amt) \<and> cart_ok e (stor_del s i amt) \<and> cart (stor_del s i amt) = cart s \<and>
      inv_part (stor_del s i amt) = inv_part s \<and> (\<forall>k. count_item k (storage_items (stor_del s i amt)) = count_item k (storage_items s) - (if k = nameid (storage_items s ! i) then amt else 0))"
    using stor_del_ok [of s i amt] stor_frame_sel(2,4) [of s "stor_del s i amt"] stor_frame_parts [of s "stor_del s i amt"] by auto
qed

section \<open>The storage handlers are guarded transfers\<close>

definition slot_has :: "item list \<Rightarrow> int \<Rightarrow> int \<Rightarrow> int \<Rightarrow> bool" where
  "slot_has l cap idx amt \<longleftrightarrow> 0 \<le> idx \<and> idx < cap \<and> nameid (l ! nat idx) \<noteq> 0 \<and> 1 \<le> amt \<and> amt \<le> amount (l ! nat idx)"

lemma slot_hasD:
  assumes "slot_has l cap idx amt" "cap \<le> int (length l)"
  shows "nat idx < length l" "nameid (l ! nat idx) \<noteq> 0" "0 < amt" "amt \<le> amount (l ! nat idx)"
  using assms by (auto simp: slot_has_def nat_less_iff)

lemma storageadd_move:
  "storage_storageadd e sd idx amt = sd \<or> (slot_has (inventory sd) (int MAX_INVENTORY) idx amt \<and>
     storage_storageadd e sd idx amt = snd (move_item inventory (stor_add e) inv_put (inv_del e) sd (nat idx) amt))"
proof (cases "storage_amount sd > storage_size sd \<or> idx < 0 \<or> idx \<ge> int MAX_INVENTORY
    \<or> nameid (inventory sd ! nat idx) \<le> 0 \<or> amt < 1 \<or> amt > amount (inventory sd ! nat idx)")
  case True
  then show ?thesis by (auto simp: storage_storageadd_def)
next
  case False
  obtain r s' where r: "storage_additem e sd (inventory sd ! nat idx) amt = (r, s')" by fastforce
  then have "inventory s' = inventory sd"
    by (auto simp: storage_additem_def Let_def split: if_splits option.splits prod.splits)
  then have "inv_put s' (nat idx) (inventory sd ! nat idx) = s'" by (simp add: inv_put_def)
  then show ?thesis using False r
    by (auto simp: storage_storageadd_def slot_has_def move_item_def stor_add_def inv_del_def Let_def)
qed


lemma storageget_move:
  "storage_storageget e sd idx amt = sd \<or> (slot_has (storage_items sd) (storage_size sd) idx amt \<and>
     storage_storageget e sd idx amt = snd (move_item storage_items (inv_add e) stor_write stor_del sd (nat idx) amt))"
proof (cases "idx < 0 \<or> idx \<ge> storage_size sd \<or> nameid (storage_items sd ! nat idx) \<le> 0 \<or> amt < 1 \<or> amt > amount (storage_items sd ! nat idx)")
  case True
  then show ?thesis by (auto simp: storage_storageget_def)
next
  case False
  then show ?thesis
    by (auto simp: storage_storageget_def slot_has_def move_item_def inv_add_def stor_write_def stor_del_def Let_def split: prod.splits)
qed

lemma storageaddfromcart_move:
  "storage_storageaddfromcart e sd idx amt = sd \<or> (slot_has (cart sd) (int MAX_CART) idx amt \<and>
     storage_storageaddfromcart e sd idx amt = snd (move_item cart (stor_add e) cart_write (pc_cart_delitem e) sd (nat idx) amt))"
proof (cases "storage_amount sd > storage_size sd \<or> idx < 0 \<or> idx \<ge> int MAX_CART
    \<or> nameid (cart sd ! nat idx) \<le> 0 \<or> amt < 1 \<or> amt > amount (cart sd ! nat idx)")
  case True
  then show ?thesis by (auto simp: storage_storageaddfromcart_def)
next
  case False
  obtain r s' where r: "storage_additem e sd (cart sd ! nat idx) amt = (r, s')" by fastforce
  then have "cart s' = cart sd"
    by (auto simp: storage_additem_def Let_def split: if_splits option.splits prod.splits)
  then have "cart_write s' (nat idx) (cart sd ! nat idx) = s'" by (simp add: cart_write_def)
  then show ?thesis using False r
    by (auto simp: storage_storageaddfromcart_def slot_has_def move_item_def stor_add_def Let_def)
qed

lemma storagegettocart_move:
  "storage_storagegettocart e sd idx amt = sd \<or> (slot_has (storage_items sd) (storage_size sd) idx amt \<and>
     storage_storagegettocart e sd idx amt = snd (move_item storage_items (cart_add e) stor_write stor_del sd (nat idx) amt))"
proof (cases "idx < 0 \<or> idx \<ge> storage_size sd \<or> nameid (storage_items sd ! nat idx) \<le> 0 \<or> amt < 1 \<or> amt > amount (storage_items sd ! nat idx)")
  case True
  then show ?thesis by (auto simp: storage_storagegettocart_def)
next
  case False
  then show ?thesis
    by (auto simp: storage_storagegettocart_def slot_has_def move_item_def cart_add_def stor_write_def stor_del_def Let_def split: prod.splits)
qed

text \<open>What every transfer of a player between inventory, cart and storage keeps.\<close>

definition player_ok :: "env \<Rightarrow> map_session_data \<Rightarrow> bool" where
  "player_ok e sd \<longleftrightarrow> inv_src_ok e sd \<and> cart_ok e sd \<and> stor_ok sd"

definition owned :: "int \<Rightarrow> map_session_data \<Rightarrow> int" where
  "owned k sd = count_item k (inventory sd) + count_item k (cart sd) + count_item k (storage_items sd)"

lemma stor_cap: "stor_ok sd \<Longrightarrow> storage_size sd \<le> int (length (storage_items sd))"
  by (auto simp: stor_ok_def box_ok_def)

lemma storageadd_ok:
  assumes p: "player_ok e sd"
  shows "player_ok e (storage_storageadd e sd idx amt) \<and> owned k (storage_storageadd e sd idx amt) = owned k sd"
  using storageadd_move [of e sd idx amt]
proof
  assume m: "slot_has (inventory sd) (int MAX_INVENTORY) idx amt \<and>
     storage_storageadd e sd idx amt = snd (move_item inventory (stor_add e) inv_put (inv_del e) sd (nat idx) amt)"
  obtain r s' where mv: "move_item inventory (stor_add e) inv_put (inv_del e) sd (nat idx) amt = (r, s')" by fastforce
  have ok: "inv_src_ok e sd" "cart_ok e sd" "stor_ok sd" using p by (simp_all add: player_ok_def)
  have cap: "(int MAX_INVENTORY) \<le> int (length (inventory sd))" using ok(1) by (simp add: inv_length)
  note g = slot_hasD [OF conjunct1 [OF m] cap]
  have fit: "True" using TrueI by simp
  note M = inv_stor.move_ok [OF ok(1) ok(3) g(1,2) fit g(3,4) mv] inv_stor.move_conserves [OF ok(1) ok(3) g(1,2) fit g(3,4) mv, of k]
  show ?thesis using M ok m mv ok_parts [of s' sd] by (auto simp: player_ok_def owned_def cart_part_def)
qed (use p in simp)

lemma storageget_ok:
  assumes p: "player_ok e sd" and live: "\<forall>it \<in> set (storage_items sd). not_expired e it"
  shows "player_ok e (storage_storageget e sd idx amt) \<and> owned k (storage_storageget e sd idx amt) = owned k sd"
  using storageget_move [of e sd idx amt]
proof
  assume m: "slot_has (storage_items sd) (storage_size sd) idx amt \<and>
     storage_storageget e sd idx amt = snd (move_item storage_items (inv_add e) stor_write stor_del sd (nat idx) amt)"
  obtain r s' where mv: "move_item storage_items (inv_add e) stor_write stor_del sd (nat idx) amt = (r, s')" by fastforce
  have ok: "inv_src_ok e sd" "cart_ok e sd" "stor_ok sd" using p by (simp_all add: player_ok_def)
  have cap: "(storage_size sd) \<le> int (length (storage_items sd))" using stor_cap ok(3) by blast
  note g = slot_hasD [OF conjunct1 [OF m] cap]
  have fit: "not_expired e (storage_items sd ! nat idx)" using live g(1) by simp
  note M = stor_inv.move_ok [OF ok(3) ok(1) g(1,2) fit g(3,4) mv] stor_inv.move_conserves [OF ok(3) ok(1) g(1,2) fit g(3,4) mv, of k]
  show ?thesis using M ok m mv ok_parts [of s' sd] by (auto simp: player_ok_def owned_def cart_part_def)
qed (use p in simp)

lemma storageaddfromcart_ok:
  assumes p: "player_ok e sd"
  shows "player_ok e (storage_storageaddfromcart e sd idx amt) \<and> owned k (storage_storageaddfromcart e sd idx amt) = owned k sd"
  using storageaddfromcart_move [of e sd idx amt]
proof
  assume m: "slot_has (cart sd) (int MAX_CART) idx amt \<and>
     storage_storageaddfromcart e sd idx amt = snd (move_item cart (stor_add e) cart_write (pc_cart_delitem e) sd (nat idx) amt)"
  obtain r s' where mv: "move_item cart (stor_add e) cart_write (pc_cart_delitem e) sd (nat idx) amt = (r, s')" by fastforce
  have ok: "inv_src_ok e sd" "cart_ok e sd" "stor_ok sd" using p by (simp_all add: player_ok_def)
  have cap: "(int MAX_CART) \<le> int (length (cart sd))" using ok(2) by (simp add: cart_ok_def)
  note g = slot_hasD [OF conjunct1 [OF m] cap]
  have fit: "True" using TrueI by simp
  note M = cart_stor.move_ok [OF ok(2) ok(3) g(1,2) fit g(3,4) mv] cart_stor.move_conserves [OF ok(2) ok(3) g(1,2) fit g(3,4) mv, of k]
  show ?thesis using M ok m mv ok_parts [of s' sd] by (auto simp: player_ok_def owned_def inv_part_def)
qed (use p in simp)

lemma storagegettocart_ok:
  assumes p: "player_ok e sd"
  shows "player_ok e (storage_storagegettocart e sd idx amt) \<and> owned k (storage_storagegettocart e sd idx amt) = owned k sd"
  using storagegettocart_move [of e sd idx amt]
proof
  assume m: "slot_has (storage_items sd) (storage_size sd) idx amt \<and>
     storage_storagegettocart e sd idx amt = snd (move_item storage_items (cart_add e) stor_write stor_del sd (nat idx) amt)"
  obtain r s' where mv: "move_item storage_items (cart_add e) stor_write stor_del sd (nat idx) amt = (r, s')" by fastforce
  have ok: "inv_src_ok e sd" "cart_ok e sd" "stor_ok sd" using p by (simp_all add: player_ok_def)
  have cap: "(storage_size sd) \<le> int (length (storage_items sd))" using stor_cap ok(3) by blast
  note g = slot_hasD [OF conjunct1 [OF m] cap]
  have fit: "True" using TrueI by simp
  note M = stor_cart.move_ok [OF ok(3) ok(2) g(1,2) fit g(3,4) mv] stor_cart.move_conserves [OF ok(3) ok(2) g(1,2) fit g(3,4) mv, of k]
  show ?thesis using M ok m mv ok_parts [of s' sd] by (auto simp: player_ok_def owned_def inv_part_def)
qed (use p in simp)

end
