(* ===== verification/GuildStorage.thy ===== *)
theory GuildStorage imports StorageOps begin

text \<open>
  The guild storage of \<^verbatim>\<open>src/map/storage.c\<close> as an instance of the container interface of \<open>ItemMove\<close>.
\<close>

section \<open>The guild storage as a container\<close>

text \<open>The state is the player with the storage: \<open>first\<close> lifts an operation on the player.\<close>

definition gs_ok :: "guild_storage \<Rightarrow> bool" where
  "gs_ok g \<longleftrightarrow> box_ok MAX_GUILD_STORAGE MAX_GUILD_STORAGE (gs_items g) (gs_storage_amount g)"

definition gs_add :: "env \<Rightarrow> gstate \<Rightarrow> item \<Rightarrow> int \<Rightarrow> bool \<times> item \<times> gstate" where
  "gs_add e s it amt = (case gstorage_additem e (fst s) (snd s) it amt of (ok, g) \<Rightarrow> (ok, it, (fst s, g)))"

definition gs_write :: "gstate \<Rightarrow> nat \<Rightarrow> item \<Rightarrow> gstate" where
  "gs_write s i it = (fst s, (snd s)\<lparr>gs_items := (gs_items (snd s))[i := it]\<rparr>)"

definition gs_del :: "gstate \<Rightarrow> nat \<Rightarrow> int \<Rightarrow> gstate" where
  "gs_del s i amt = (fst s, snd (gstorage_delitem (snd s) i amt))"

definition first_add :: "(map_session_data \<Rightarrow> item \<Rightarrow> int \<Rightarrow> bool \<times> item \<times> map_session_data) \<Rightarrow> gstate \<Rightarrow> item \<Rightarrow> int \<Rightarrow> bool \<times> item \<times> gstate" where
  "first_add f s it amt = (case f (fst s) it amt of (r, it, sd) \<Rightarrow> (r, it, (sd, snd s)))"

definition first :: "(map_session_data \<Rightarrow> 'a \<Rightarrow> 'b \<Rightarrow> map_session_data) \<Rightarrow> gstate \<Rightarrow> 'a \<Rightarrow> 'b \<Rightarrow> gstate" where
  "first f s a b = (f (fst s) a b, snd s)"

lemma gs_add_ok:
  assumes ok: "gs_ok (snd s)" and it: "slot_ok it" and amt: "0 < amt" "amt \<le> amount it" and a: "gs_add e s it amt = (r, it', s')"
  shows "gs_ok (snd s') \<and> fst s' = fst s \<and> it' = it \<and>
    (\<forall>k. count_item k (gs_items (snd s')) = count_item k (gs_items (snd s)) + (if r \<and> k = nameid it then amt else 0))"
proof -
  let ?d = "itemdb_search (env_db e) (nameid it)" and ?g = "snd s"
  let ?b = "box_add (itemdb_isstackable2 (id_type ?d)) (stack_guildstorage ?d) (stack_amount ?d) MAX_GUILD_STORAGE (gs_items ?g) it amt"
  have e: "gstorage_additem e (fst s) ?g it amt = (False, ?g) \<or> (\<exists>d items. ?b = Some (d, items) \<and>
      gstorage_additem e (fst s) ?g it amt = (True, ?g\<lparr>gs_items := items, gs_storage_amount := gs_storage_amount ?g + d, gs_dirty := True\<rparr>))"
    by (cases ?b) (auto simp: gstorage_additem_def Let_def)
  then show ?thesis
  proof
    assume "gstorage_additem e (fst s) ?g it amt = (False, ?g)"
    then show ?thesis using a ok by (auto simp: gs_add_def)
  next
    assume "\<exists>d items. ?b = Some (d, items) \<and>
      gstorage_additem e (fst s) ?g it amt = (True, ?g\<lparr>gs_items := items, gs_storage_amount := gs_storage_amount ?g + d, gs_dirty := True\<rparr>)"
    then obtain d items where b: "?b = Some (d, items)"
      "gstorage_additem e (fst s) ?g it amt = (True, ?g\<lparr>gs_items := items, gs_storage_amount := gs_storage_amount ?g + d, gs_dirty := True\<rparr>)" by blast
    from box_add_ok [OF ok [unfolded gs_ok_def] it amt b(1)] show ?thesis using a b by (auto simp: gs_add_def gs_ok_def)
  qed
qed

lemma gs_del_ok:
  assumes ok: "gs_ok (snd s)" and i: "i < length (gs_items (snd s))" "nameid (gs_items (snd s) ! i) \<noteq> 0" "0 < amt" "amt \<le> amount (gs_items (snd s) ! i)"
  shows "gs_ok (snd (gs_del s i amt)) \<and> fst (gs_del s i amt) = fst s \<and>
    (\<forall>k. count_item k (gs_items (snd (gs_del s i amt))) = count_item k (gs_items (snd s)) - (if k = nameid (gs_items (snd s) ! i) then amt else 0))"
proof -
  have il: "i < MAX_GUILD_STORAGE" using ok i by (simp add: box_ok_def gs_ok_def)
  from box_del_ok [OF ok [unfolded gs_ok_def] il i(2-4)] show ?thesis
    by (auto simp: gs_del_def gstorage_delitem_def gs_ok_def)
qed

lemma gs_write_ok:
  "gs_ok (snd s) \<Longrightarrow> i < length (gs_items (snd s)) \<Longrightarrow> same_kind (gs_items (snd s) ! i) it \<Longrightarrow> gs_ok (snd (gs_write s i it))"
  using box_write_ok by (simp add: gs_ok_def gs_write_def)

definition inv_rest :: "gstate \<Rightarrow> (item list \<times> int \<times> int \<times> int) \<times> (item list \<times> int \<times> int \<times> int)" where
  "inv_rest s = (cart_part (fst s), stor_part (fst s))"

definition cart_rest :: "gstate \<Rightarrow> (item list \<times> item_data option list \<times> int \<times> int) \<times> (item list \<times> int \<times> int \<times> int)" where
  "cart_rest s = (inv_part (fst s), stor_part (fst s))"

interpretation inv_gs: item_move "\<lambda>s. inventory (fst s)" "\<lambda>s. gs_items (snd s)" "\<lambda>s. inv_src_ok e (fst s)" "\<lambda>s. gs_ok (snd s)"
    "\<lambda>_. True" "gs_add e" "first inv_put" "first (inv_del e)" inv_rest for e
proof
  show "inv_src_ok e (fst s) \<Longrightarrow> i < length (inventory (fst s)) \<Longrightarrow> slot_ok (inventory (fst s) ! i)" for s :: gstate and i by (rule inv_slots)
next
  fix s :: gstate and it amt r it' s'
  assume "inv_src_ok e (fst s)" "gs_ok (snd s)" "slot_ok it" "0 < amt" "amt \<le> amount it" "gs_add e s it amt = (r, it', s')"
  then show "inv_src_ok e (fst s') \<and> gs_ok (snd s') \<and> inventory (fst s') = inventory (fst s) \<and> inv_rest s' = inv_rest s \<and> same_kind it it' \<and>
      (\<forall>k. count_item k (gs_items (snd s')) = count_item k (gs_items (snd s)) + (if r \<and> k = nameid it then amt else 0))"
    using gs_add_ok [of s it amt e r it' s'] by (auto simp: inv_rest_def)
next
  fix s :: gstate and i it
  assume "inv_src_ok e (fst s)" "gs_ok (snd s)" "i < length (inventory (fst s))" "same_kind (inventory (fst s) ! i) it"
  then show "inv_src_ok e (fst (first inv_put s i it)) \<and> gs_ok (snd (first inv_put s i it))
      \<and> inventory (fst (first inv_put s i it)) = (inventory (fst s))[i := it] \<and> gs_items (snd (first inv_put s i it)) = gs_items (snd s)
      \<and> inv_rest (first inv_put s i it) = inv_rest s"
    using inv_put_ok [of e "fst s" i it] inv_frame_parts [of "fst s" "inv_put (fst s) i it"]
    by (auto simp: first_def inv_rest_def) (simp_all add: inv_put_def)
next
  fix s :: gstate and i amt
  assume "inv_src_ok e (fst s)" "gs_ok (snd s)" "i < length (inventory (fst s))" "nameid (inventory (fst s) ! i) \<noteq> 0" "0 < amt" "amt \<le> amount (inventory (fst s) ! i)"
  then show "inv_src_ok e (fst (first (inv_del e) s i amt)) \<and> gs_ok (snd (first (inv_del e) s i amt)) \<and> gs_items (snd (first (inv_del e) s i amt)) = gs_items (snd s) \<and>
      inv_rest (first (inv_del e) s i amt) = inv_rest s \<and>
      (\<forall>k. count_item k (inventory (fst (first (inv_del e) s i amt))) = count_item k (inventory (fst s)) - (if k = nameid (inventory (fst s) ! i) then amt else 0))"
    using inv_del_ok [of e "fst s" i amt] inv_frame_parts [of "fst s" "inv_del e (fst s) i amt"] by (simp add: first_def inv_rest_def)
qed

interpretation gs_inv: item_move "\<lambda>s. gs_items (snd s)" "\<lambda>s. inventory (fst s)" "\<lambda>s. gs_ok (snd s)" "\<lambda>s. inv_src_ok e (fst s)"
    "not_expired e" "first_add (inv_add e)" gs_write gs_del inv_rest for e
proof
  show "gs_ok (snd s) \<Longrightarrow> i < length (gs_items (snd s)) \<Longrightarrow> slot_ok (gs_items (snd s) ! i)" for s :: gstate and i
    by (simp add: gs_ok_def box_ok_def)
next
  fix s :: gstate and it amt r it' s'
  assume a: "gs_ok (snd s)" "inv_src_ok e (fst s)" "slot_ok it" "not_expired e it" "first_add (inv_add e) s it amt = (r, it', s')"
  then obtain sd where sd: "inv_add e (fst s) it amt = (r, it', sd)" "s' = (sd, snd s)"
    by (auto simp: first_add_def split: prod.splits)
  show "gs_ok (snd s') \<and> inv_src_ok e (fst s') \<and> gs_items (snd s') = gs_items (snd s) \<and> inv_rest s' = inv_rest s \<and> same_kind it it' \<and>
      (\<forall>k. count_item k (inventory (fst s')) = count_item k (inventory (fst s)) + (if r \<and> k = nameid it then amt else 0))"
    using inv_add_ok [OF a(2,3,4) sd(1)] inv_frame_parts [of "fst s" sd] a(1) by (simp add: sd(2) inv_rest_def)
next
  fix s :: gstate and i it
  assume "gs_ok (snd s)" "inv_src_ok e (fst s)" "i < length (gs_items (snd s))" "same_kind (gs_items (snd s) ! i) it"
  then show "gs_ok (snd (gs_write s i it)) \<and> inv_src_ok e (fst (gs_write s i it)) \<and> gs_items (snd (gs_write s i it)) = (gs_items (snd s))[i := it]
      \<and> inventory (fst (gs_write s i it)) = inventory (fst s) \<and> inv_rest (gs_write s i it) = inv_rest s"
    using gs_write_ok [of s i it] by (simp add: gs_write_def inv_rest_def)
next
  fix s :: gstate and i amt
  assume "gs_ok (snd s)" "inv_src_ok e (fst s)" "i < length (gs_items (snd s))" "nameid (gs_items (snd s) ! i) \<noteq> 0" "0 < amt" "amt \<le> amount (gs_items (snd s) ! i)"
  then show "gs_ok (snd (gs_del s i amt)) \<and> inv_src_ok e (fst (gs_del s i amt)) \<and> inventory (fst (gs_del s i amt)) = inventory (fst s) \<and>
      inv_rest (gs_del s i amt) = inv_rest s \<and>
      (\<forall>k. count_item k (gs_items (snd (gs_del s i amt))) = count_item k (gs_items (snd s)) - (if k = nameid (gs_items (snd s) ! i) then amt else 0))"
    using gs_del_ok [of s i amt] by (simp add: inv_rest_def)
qed

interpretation cart_gs: item_move "\<lambda>s. cart (fst s)" "\<lambda>s. gs_items (snd s)" "\<lambda>s. cart_ok e (fst s)" "\<lambda>s. gs_ok (snd s)"
    "\<lambda>_. True" "gs_add e" "first cart_write" "first (pc_cart_delitem e)" cart_rest for e
proof
  show "cart_ok e (fst s) \<Longrightarrow> i < length (cart (fst s)) \<Longrightarrow> slot_ok (cart (fst s) ! i)" for s :: gstate and i by (simp add: cart_ok_def)
next
  fix s :: gstate and it amt r it' s'
  assume "cart_ok e (fst s)" "gs_ok (snd s)" "slot_ok it" "0 < amt" "amt \<le> amount it" "gs_add e s it amt = (r, it', s')"
  then show "cart_ok e (fst s') \<and> gs_ok (snd s') \<and> cart (fst s') = cart (fst s) \<and> cart_rest s' = cart_rest s \<and> same_kind it it' \<and>
      (\<forall>k. count_item k (gs_items (snd s')) = count_item k (gs_items (snd s)) + (if r \<and> k = nameid it then amt else 0))"
    using gs_add_ok [of s it amt e r it' s'] by (auto simp: cart_rest_def)
next
  fix s :: gstate and i it
  assume "cart_ok e (fst s)" "gs_ok (snd s)" "i < length (cart (fst s))" "same_kind (cart (fst s) ! i) it"
  then show "cart_ok e (fst (first cart_write s i it)) \<and> gs_ok (snd (first cart_write s i it))
      \<and> cart (fst (first cart_write s i it)) = (cart (fst s))[i := it] \<and> gs_items (snd (first cart_write s i it)) = gs_items (snd s)
      \<and> cart_rest (first cart_write s i it) = cart_rest s"
    using cart_write_ok [of e "fst s" i it] cart_frame_parts [of "fst s" "cart_write (fst s) i it"]
    by (auto simp: first_def cart_rest_def) (simp_all add: cart_write_def)
next
  fix s :: gstate and i amt
  assume a: "cart_ok e (fst s)" "gs_ok (snd s)" "i < length (cart (fst s))" "nameid (cart (fst s) ! i) \<noteq> 0" "0 < amt" "amt \<le> amount (cart (fst s) ! i)"
  then have "i < MAX_CART" by (simp add: cart_ok_def)
  with a show "cart_ok e (fst (first (pc_cart_delitem e) s i amt)) \<and> gs_ok (snd (first (pc_cart_delitem e) s i amt)) \<and> gs_items (snd (first (pc_cart_delitem e) s i amt)) = gs_items (snd s) \<and>
      cart_rest (first (pc_cart_delitem e) s i amt) = cart_rest s \<and>
      (\<forall>k. count_item k (cart (fst (first (pc_cart_delitem e) s i amt))) = count_item k (cart (fst s)) - (if k = nameid (cart (fst s) ! i) then amt else 0))"
    using cart_delitem_ok [of e "fst s" i amt] cart_frame_parts [of "fst s" "pc_cart_delitem e (fst s) i amt"] by (simp add: first_def cart_rest_def)
qed

interpretation gs_cart: item_move "\<lambda>s. gs_items (snd s)" "\<lambda>s. cart (fst s)" "\<lambda>s. gs_ok (snd s)" "\<lambda>s. cart_ok e (fst s)"
    "\<lambda>_. True" "first_add (cart_add e)" gs_write gs_del cart_rest for e
proof
  show "gs_ok (snd s) \<Longrightarrow> i < length (gs_items (snd s)) \<Longrightarrow> slot_ok (gs_items (snd s) ! i)" for s :: gstate and i
    by (simp add: gs_ok_def box_ok_def)
next
  fix s :: gstate and it amt r it' s'
  assume a: "gs_ok (snd s)" "cart_ok e (fst s)" "slot_ok it" "0 < amt" "amt \<le> amount it" "first_add (cart_add e) s it amt = (r, it', s')"
  then obtain sd where sd: "cart_add e (fst s) it amt = (r, it', sd)" "s' = (sd, snd s)"
    by (auto simp: first_add_def split: prod.splits)
  show "gs_ok (snd s') \<and> cart_ok e (fst s') \<and> gs_items (snd s') = gs_items (snd s) \<and> cart_rest s' = cart_rest s \<and> same_kind it it' \<and>
      (\<forall>k. count_item k (cart (fst s')) = count_item k (cart (fst s)) + (if r \<and> k = nameid it then amt else 0))"
    using cart_add_ok [OF a(2-5) sd(1)] cart_frame_parts [of "fst s" sd] a(1) by (simp add: sd(2) cart_rest_def)
next
  fix s :: gstate and i it
  assume "gs_ok (snd s)" "cart_ok e (fst s)" "i < length (gs_items (snd s))" "same_kind (gs_items (snd s) ! i) it"
  then show "gs_ok (snd (gs_write s i it)) \<and> cart_ok e (fst (gs_write s i it)) \<and> gs_items (snd (gs_write s i it)) = (gs_items (snd s))[i := it]
      \<and> cart (fst (gs_write s i it)) = cart (fst s) \<and> cart_rest (gs_write s i it) = cart_rest s"
    using gs_write_ok [of s i it] by (simp add: gs_write_def cart_rest_def)
next
  fix s :: gstate and i amt
  assume "gs_ok (snd s)" "cart_ok e (fst s)" "i < length (gs_items (snd s))" "nameid (gs_items (snd s) ! i) \<noteq> 0" "0 < amt" "amt \<le> amount (gs_items (snd s) ! i)"
  then show "gs_ok (snd (gs_del s i amt)) \<and> cart_ok e (fst (gs_del s i amt)) \<and> cart (fst (gs_del s i amt)) = cart (fst s) \<and>
      cart_rest (gs_del s i amt) = cart_rest s \<and>
      (\<forall>k. count_item k (gs_items (snd (gs_del s i amt))) = count_item k (gs_items (snd s)) - (if k = nameid (gs_items (snd s) ! i) then amt else 0))"
    using gs_del_ok [of s i amt] by (simp add: cart_rest_def)
qed

end
