(* ===== verification/GuildStorageOps.thy ===== *)
theory GuildStorageOps imports GuildStorage begin

text \<open>
  The handlers of the guild storage: each is a guarded transfer between two containers, or changes nothing.
\<close>

section \<open>The guild storage handlers are guarded transfers\<close>

text \<open>A handler that moves nothing may still close the storage.\<close>

definition gs_idle :: "gstate \<Rightarrow> gstate \<Rightarrow> bool" where
  "gs_idle s s' \<longleftrightarrow> inv_part (fst s') = inv_part (fst s) \<and> cart_part (fst s') = cart_part (fst s) \<and> stor_part (fst s') = stor_part (fst s)
     \<and> gs_items (snd s') = gs_items (snd s) \<and> gs_storage_amount (snd s') = gs_storage_amount (snd s)"

lemma gs_idle_refl [simp]: "gs_idle s s"
  by (simp add: gs_idle_def)

lemma gs_idle_close [simp]: "gs_idle (sd, g) (gstorage_storageclose sd g)"
  by (simp add: gs_idle_def gstorage_storageclose_def inv_part_def cart_part_def stor_part_def)

lemma gadd_move:
  "gs_idle (sd, g) (gstorage_storageadd e (sd, g) idx amt) \<or> (slot_has (inventory sd) (int MAX_INVENTORY) idx amt \<and>
     gstorage_storageadd e (sd, g) idx amt = snd (move_item (\<lambda>s. inventory (fst s)) (gs_add e) (first inv_put) (first (inv_del e)) (sd, g) (nat idx) amt))"
proof (cases "gs_opened g = 0 \<or> gs_opened g \<noteq> char_id sd \<or> gs_storage_amount g > int MAX_GUILD_STORAGE \<or> idx < 0 \<or> idx \<ge> int MAX_INVENTORY
    \<or> nameid (inventory sd ! nat idx) = 0 \<or> amt < 1 \<or> amt > amount (inventory sd ! nat idx) \<or> gs_locked g")
  case True
  then show ?thesis by (auto simp: gstorage_storageadd_def)
next
  case False
  have "inv_put sd (nat idx) (inventory sd ! nat idx) = sd" by (simp add: inv_put_def)
  then show ?thesis using False
    by (auto simp: gstorage_storageadd_def slot_has_def move_item_def gs_add_def first_def inv_del_def Let_def split: prod.splits)
qed

lemma gget_move:
  "gs_idle (sd, g) (gstorage_storageget e (sd, g) idx amt) \<or> (slot_has (gs_items g) (int MAX_GUILD_STORAGE) idx amt \<and>
     gstorage_storageget e (sd, g) idx amt = snd (move_item (\<lambda>s. gs_items (snd s)) (first_add (inv_add e)) gs_write gs_del (sd, g) (nat idx) amt))"
proof (cases "gs_opened g = 0 \<or> gs_opened g \<noteq> char_id sd \<or> idx < 0 \<or> idx \<ge> int MAX_GUILD_STORAGE
    \<or> nameid (gs_items g ! nat idx) = 0 \<or> amt < 1 \<or> amt > amount (gs_items g ! nat idx) \<or> gs_locked g")
  case True
  then show ?thesis by (auto simp: gstorage_storageget_def)
next
  case False
  then show ?thesis
    by (auto simp: gstorage_storageget_def slot_has_def move_item_def first_add_def inv_add_def gs_write_def gs_del_def Let_def split: prod.splits)
qed

lemma gaddcart_move:
  "gs_idle (sd, g) (gstorage_storageaddfromcart e (sd, g) idx amt) \<or> (slot_has (cart sd) (int MAX_CART) idx amt \<and>
     gstorage_storageaddfromcart e (sd, g) idx amt = snd (move_item (\<lambda>s. cart (fst s)) (gs_add e) (first cart_write) (first (pc_cart_delitem e)) (sd, g) (nat idx) amt))"
proof (cases "gs_opened g = 0 \<or> gs_opened g \<noteq> char_id sd \<or> gs_storage_amount g > int MAX_GUILD_STORAGE \<or> idx < 0 \<or> idx \<ge> int MAX_CART
    \<or> nameid (cart sd ! nat idx) = 0 \<or> amt < 1 \<or> amt > amount (cart sd ! nat idx)")
  case True
  then show ?thesis by (auto simp: gstorage_storageaddfromcart_def)
next
  case False
  have "cart_write sd (nat idx) (cart sd ! nat idx) = sd" by (simp add: cart_write_def)
  then show ?thesis using False
    by (auto simp: gstorage_storageaddfromcart_def slot_has_def move_item_def gs_add_def first_def Let_def split: prod.splits)
qed

lemma ggetcart_move:
  "gs_idle (sd, g) (gstorage_storagegettocart e (sd, g) idx amt) \<or> (slot_has (gs_items g) (int MAX_GUILD_STORAGE) idx amt \<and>
     gstorage_storagegettocart e (sd, g) idx amt = snd (move_item (\<lambda>s. gs_items (snd s)) (first_add (cart_add e)) gs_write gs_del (sd, g) (nat idx) amt))"
proof (cases "gs_opened g = 0 \<or> gs_opened g \<noteq> char_id sd \<or> idx < 0 \<or> idx \<ge> int MAX_GUILD_STORAGE
    \<or> nameid (gs_items g ! nat idx) = 0 \<or> amt < 1 \<or> amt > amount (gs_items g ! nat idx)")
  case True
  then show ?thesis by (auto simp: gstorage_storagegettocart_def)
next
  case False
  then show ?thesis
    by (auto simp: gstorage_storagegettocart_def slot_has_def move_item_def first_add_def cart_add_def gs_write_def gs_del_def Let_def split: prod.splits)
qed

definition guild_ok :: "env \<Rightarrow> gstate \<Rightarrow> bool" where
  "guild_ok e s \<longleftrightarrow> player_ok e (fst s) \<and> gs_ok (snd s)"

definition guild_owned :: "int \<Rightarrow> gstate \<Rightarrow> int" where
  "guild_owned k s = owned k (fst s) + count_item k (gs_items (snd s))"

lemma gs_idle_ok:
  "gs_idle s s' \<Longrightarrow> guild_ok e s \<Longrightarrow> guild_ok e s' \<and> guild_owned k s' = guild_owned k s"
  using ok_parts [of "fst s'" "fst s"]
  by (auto simp: gs_idle_def guild_ok_def player_ok_def gs_ok_def guild_owned_def owned_def) (auto simp: inv_part_def cart_part_def stor_part_def)

lemma gadd_ok:
  assumes p: "guild_ok e (sd, g)"
  shows "guild_ok e (gstorage_storageadd e (sd, g) idx amt) \<and> guild_owned k (gstorage_storageadd e (sd, g) idx amt) = guild_owned k (sd, g)"
  using gadd_move [of sd g e idx amt]
proof
  assume "gs_idle (sd, g) (gstorage_storageadd e (sd, g) idx amt)"
  then show ?thesis using gs_idle_ok p by blast
next
  assume m: "slot_has (inventory sd) (int MAX_INVENTORY) idx amt \<and>
     gstorage_storageadd e (sd, g) idx amt = snd (move_item (\<lambda>s. inventory (fst s)) (gs_add e) (first inv_put) (first (inv_del e)) (sd, g) (nat idx) amt)"
  obtain r s' where mv: "move_item (\<lambda>s. inventory (fst s)) (gs_add e) (first inv_put) (first (inv_del e)) (sd, g) (nat idx) amt = (r, s')" by (rule prod.exhaust)
  have ok: "inv_src_ok e (fst (sd, g))" "cart_ok e (fst (sd, g))" "gs_ok (snd (sd, g))" "stor_ok sd" using p by (simp_all add: player_ok_def guild_ok_def)
  have cap: "int MAX_INVENTORY \<le> int (length (inventory sd))" using ok(1) by (simp add: inv_length)
  note g = slot_hasD [OF conjunct1 [OF m] cap]
  have g': "nat idx < length ((\<lambda>s. inventory (fst s)) (sd, g))" "nameid ((\<lambda>s. inventory (fst s)) (sd, g) ! nat idx) \<noteq> 0" "amt \<le> amount ((\<lambda>s. inventory (fst s)) (sd, g) ! nat idx)" using g by simp_all
  have fit: "True" using TrueI by simp
  note M = inv_gs.move_ok [OF ok(1) ok(3) g'(1,2) fit g(3) g'(3) mv] inv_gs.move_conserves [OF ok(1) ok(3) g'(1,2) fit g(3) g'(3) mv, of k]
  show ?thesis using M ok m mv ok_parts [of "fst s'" sd]
    by (auto simp: player_ok_def guild_ok_def guild_owned_def owned_def inv_rest_def) (auto simp: inv_part_def cart_part_def stor_part_def)
qed

lemma gget_ok:
  assumes p: "guild_ok e (sd, g)" and live: "\<forall>it \<in> set (gs_items g). not_expired e it"
  shows "guild_ok e (gstorage_storageget e (sd, g) idx amt) \<and> guild_owned k (gstorage_storageget e (sd, g) idx amt) = guild_owned k (sd, g)"
  using gget_move [of sd g e idx amt]
proof
  assume "gs_idle (sd, g) (gstorage_storageget e (sd, g) idx amt)"
  then show ?thesis using gs_idle_ok p by blast
next
  assume m: "slot_has (gs_items g) (int MAX_GUILD_STORAGE) idx amt \<and>
     gstorage_storageget e (sd, g) idx amt = snd (move_item (\<lambda>s. gs_items (snd s)) (first_add (inv_add e)) gs_write gs_del (sd, g) (nat idx) amt)"
  obtain r s' where mv: "move_item (\<lambda>s. gs_items (snd s)) (first_add (inv_add e)) gs_write gs_del (sd, g) (nat idx) amt = (r, s')" by (rule prod.exhaust)
  have ok: "inv_src_ok e (fst (sd, g))" "cart_ok e (fst (sd, g))" "gs_ok (snd (sd, g))" "stor_ok sd" using p by (simp_all add: player_ok_def guild_ok_def)
  have cap: "int MAX_GUILD_STORAGE \<le> int (length (gs_items g))" using ok(3) by (simp add: gs_ok_def box_ok_def)
  note g = slot_hasD [OF conjunct1 [OF m] cap]
  have g': "nat idx < length ((\<lambda>s. gs_items (snd s)) (sd, g))" "nameid ((\<lambda>s. gs_items (snd s)) (sd, g) ! nat idx) \<noteq> 0" "amt \<le> amount ((\<lambda>s. gs_items (snd s)) (sd, g) ! nat idx)" using g by simp_all
  have fit: "not_expired e ((\<lambda>s. gs_items (snd s)) (sd, g) ! nat idx)" using live g(1) by simp
  note M = gs_inv.move_ok [OF ok(3) ok(1) g'(1,2) fit g(3) g'(3) mv] gs_inv.move_conserves [OF ok(3) ok(1) g'(1,2) fit g(3) g'(3) mv, of k]
  show ?thesis using M ok m mv ok_parts [of "fst s'" sd]
    by (auto simp: player_ok_def guild_ok_def guild_owned_def owned_def inv_rest_def) (auto simp: inv_part_def cart_part_def stor_part_def)
qed

lemma gaddcart_ok:
  assumes p: "guild_ok e (sd, g)"
  shows "guild_ok e (gstorage_storageaddfromcart e (sd, g) idx amt) \<and> guild_owned k (gstorage_storageaddfromcart e (sd, g) idx amt) = guild_owned k (sd, g)"
  using gaddcart_move [of sd g e idx amt]
proof
  assume "gs_idle (sd, g) (gstorage_storageaddfromcart e (sd, g) idx amt)"
  then show ?thesis using gs_idle_ok p by blast
next
  assume m: "slot_has (cart sd) (int MAX_CART) idx amt \<and>
     gstorage_storageaddfromcart e (sd, g) idx amt = snd (move_item (\<lambda>s. cart (fst s)) (gs_add e) (first cart_write) (first (pc_cart_delitem e)) (sd, g) (nat idx) amt)"
  obtain r s' where mv: "move_item (\<lambda>s. cart (fst s)) (gs_add e) (first cart_write) (first (pc_cart_delitem e)) (sd, g) (nat idx) amt = (r, s')" by (rule prod.exhaust)
  have ok: "inv_src_ok e (fst (sd, g))" "cart_ok e (fst (sd, g))" "gs_ok (snd (sd, g))" "stor_ok sd" using p by (simp_all add: player_ok_def guild_ok_def)
  have cap: "int MAX_CART \<le> int (length (cart sd))" using ok(2) by (simp add: cart_ok_def)
  note g = slot_hasD [OF conjunct1 [OF m] cap]
  have g': "nat idx < length ((\<lambda>s. cart (fst s)) (sd, g))" "nameid ((\<lambda>s. cart (fst s)) (sd, g) ! nat idx) \<noteq> 0" "amt \<le> amount ((\<lambda>s. cart (fst s)) (sd, g) ! nat idx)" using g by simp_all
  have fit: "True" using TrueI by simp
  note M = cart_gs.move_ok [OF ok(2) ok(3) g'(1,2) fit g(3) g'(3) mv] cart_gs.move_conserves [OF ok(2) ok(3) g'(1,2) fit g(3) g'(3) mv, of k]
  show ?thesis using M ok m mv ok_parts [of "fst s'" sd]
    by (auto simp: player_ok_def guild_ok_def guild_owned_def owned_def cart_rest_def) (auto simp: inv_part_def cart_part_def stor_part_def)
qed

lemma ggetcart_ok:
  assumes p: "guild_ok e (sd, g)"
  shows "guild_ok e (gstorage_storagegettocart e (sd, g) idx amt) \<and> guild_owned k (gstorage_storagegettocart e (sd, g) idx amt) = guild_owned k (sd, g)"
  using ggetcart_move [of sd g e idx amt]
proof
  assume "gs_idle (sd, g) (gstorage_storagegettocart e (sd, g) idx amt)"
  then show ?thesis using gs_idle_ok p by blast
next
  assume m: "slot_has (gs_items g) (int MAX_GUILD_STORAGE) idx amt \<and>
     gstorage_storagegettocart e (sd, g) idx amt = snd (move_item (\<lambda>s. gs_items (snd s)) (first_add (cart_add e)) gs_write gs_del (sd, g) (nat idx) amt)"
  obtain r s' where mv: "move_item (\<lambda>s. gs_items (snd s)) (first_add (cart_add e)) gs_write gs_del (sd, g) (nat idx) amt = (r, s')" by (rule prod.exhaust)
  have ok: "inv_src_ok e (fst (sd, g))" "cart_ok e (fst (sd, g))" "gs_ok (snd (sd, g))" "stor_ok sd" using p by (simp_all add: player_ok_def guild_ok_def)
  have cap: "int MAX_GUILD_STORAGE \<le> int (length (gs_items g))" using ok(3) by (simp add: gs_ok_def box_ok_def)
  note g = slot_hasD [OF conjunct1 [OF m] cap]
  have g': "nat idx < length ((\<lambda>s. gs_items (snd s)) (sd, g))" "nameid ((\<lambda>s. gs_items (snd s)) (sd, g) ! nat idx) \<noteq> 0" "amt \<le> amount ((\<lambda>s. gs_items (snd s)) (sd, g) ! nat idx)" using g by simp_all
  have fit: "True" using TrueI by simp
  note M = gs_cart.move_ok [OF ok(3) ok(2) g'(1,2) fit g(3) g'(3) mv] gs_cart.move_conserves [OF ok(3) ok(2) g'(1,2) fit g(3) g'(3) mv, of k]
  show ?thesis using M ok m mv ok_parts [of "fst s'" sd]
    by (auto simp: player_ok_def guild_ok_def guild_owned_def owned_def cart_rest_def) (auto simp: inv_part_def cart_part_def stor_part_def)
qed

end
