(* ===== verification/Trade.thy ===== *)
theory Trade imports GuildStorageOps begin

text \<open>
  Trading between two players (\<^verbatim>\<open>src/map/trade.c\<close>). The world maps an account id to
  the player that \<open>map_id2sd\<close> finds; \<open>sd->trade_partner\<close> is such an id, \<open>0\<close> for none. The checks on
  maps, distances, pending invitations, commands and marriage are the booleans of \<open>trade_ctx\<close>.
\<close>

unbundle bit_operations_syntax

definition EQP_AMMO :: int where "EQP_AMMO = 32768"

type_synonym world = "int \<Rightarrow> map_session_data option"

record trade_ctx =
  tc_notrade :: bool
  tc_invited :: bool
  tc_command :: bool
  tc_near :: bool
  tc_partner :: bool

definition upd :: "world \<Rightarrow> int \<Rightarrow> (map_session_data \<Rightarrow> map_session_data) \<Rightarrow> world" where
  "upd w i f = (case w i of None \<Rightarrow> w | Some p \<Rightarrow> w(i \<mapsto> f p))"

definition zero_deals :: "deal_item list" where
  "zero_deals = replicate 10 \<lparr>deal_index = 0, deal_amount = 0\<rparr>"

section \<open>Starting a trade\<close>

definition trade_traderequest :: "trade_ctx \<Rightarrow> world \<Rightarrow> int \<Rightarrow> int \<Rightarrow> world" where
  "trade_traderequest c w a t =
     (case (w a, w t) of
        (Some sd, Some target) \<Rightarrow>
          if tc_notrade c then w
          else if a = t then w
          else if npc_id target \<noteq> 0 then w
          else if tc_invited c then w
          else
            (let w1 = (if trade_partner sd \<noteq> 0
                       then upd (upd w (trade_partner sd) (\<lambda>p. p\<lparr>trade_partner := 0\<rparr>)) a (\<lambda>p. p\<lparr>trade_partner := 0\<rparr>)
                       else w) in
             if (case w1 t of None \<Rightarrow> False | Some target \<Rightarrow> trade_partner target \<noteq> 0) then w1
             else if \<not> can_give_items sd \<or> \<not> can_give_items target then w1
             else if \<not> tc_command c \<and> \<not> tc_near c then w1
             else upd (upd w1 t (\<lambda>p. p\<lparr>trade_partner := a\<rparr>)) a (\<lambda>p. p\<lparr>trade_partner := t\<rparr>))
      | _ \<Rightarrow> w)"

text \<open>The reset that ends a request, and the start of the trade window.\<close>

definition trade_reset :: "map_session_data \<Rightarrow> map_session_data" where
  "trade_reset p = p\<lparr>st_deal_locked := 0, trade_partner := 0\<rparr>"

definition trade_begin :: "map_session_data \<Rightarrow> map_session_data" where
  "trade_begin p = p\<lparr>st_trading := True, deal_items := zero_deals, deal_zeny := 0, deal_weight := 0\<rparr>"

definition trade_busy :: "map_session_data \<Rightarrow> bool" where
  "trade_busy p \<longleftrightarrow> npc_id p \<noteq> 0 \<or> st_vending p \<or> st_buyingstore p \<or> st_storage_flag p \<noteq> 0"

definition trade_tradeack :: "trade_ctx \<Rightarrow> world \<Rightarrow> int \<Rightarrow> int \<Rightarrow> world" where
  "trade_tradeack c w a ty =
     (case w a of None \<Rightarrow> w
      | Some sd \<Rightarrow>
          if st_trading sd \<or> trade_partner sd = 0 then w
          else
            (case w (trade_partner sd) of
               None \<Rightarrow> upd w a (\<lambda>p. p\<lparr>trade_partner := 0\<rparr>)
             | Some tsd \<Rightarrow>
                 if st_trading tsd \<or> trade_partner tsd \<noteq> a then upd w a (\<lambda>p. p\<lparr>trade_partner := 0\<rparr>)
                 else if ty = 4 then upd (upd w a trade_reset) (trade_partner sd) trade_reset
                 else if ty \<noteq> 3 then w
                 else if \<not> tc_command c \<and> \<not> tc_near c then
                   upd (upd w a (\<lambda>p. p\<lparr>trade_partner := 0\<rparr>)) (trade_partner sd) (\<lambda>p. p\<lparr>trade_partner := 0\<rparr>)
                 else if trade_busy sd \<or> trade_busy tsd then
                   upd (upd w a trade_reset) (trade_partner sd) trade_reset
                 else upd (upd w a trade_begin) (trade_partner sd) trade_begin))"

section \<open>The trade window\<close>

text \<open>The loop that takes an offer back, and the state of a player without a trade.\<close>

definition trade_clear :: "map_session_data \<Rightarrow> map_session_data" where
  "trade_clear p =
     p\<lparr>deal_items := map (\<lambda>d. if deal_amount d = 0 then d else \<lparr>deal_index = 0, deal_amount = 0\<rparr>) (deal_items p),
       deal_zeny := 0, st_deal_locked := 0, st_trading := False, trade_partner := 0\<rparr>"

definition trade_tradecancel :: "world \<Rightarrow> int \<Rightarrow> world" where
  "trade_tradecancel w a =
     (case w a of None \<Rightarrow> w
      | Some sd \<Rightarrow>
          (let t = trade_partner sd; w = upd w a (\<lambda>p. p\<lparr>st_isBoundTrading := 0\<rparr>) in
           if \<not> st_trading sd then upd (upd w t (\<lambda>p. p\<lparr>trade_partner := 0\<rparr>)) a (\<lambda>p. p\<lparr>trade_partner := 0\<rparr>)
           else upd (upd w a trade_clear) t trade_clear))"

definition trade_may_offer :: "env \<Rightarrow> trade_ctx \<Rightarrow> map_session_data \<Rightarrow> map_session_data \<Rightarrow> item \<Rightarrow> bool" where
  "trade_may_offer e c sd target it \<longleftrightarrow>
     (itemdb_isrestricted (env_db e) it (group_level sd) (group_level target) itemdb_cantrade_sub
        \<or> (tc_partner c \<and> itemdb_isrestricted (env_db e) it (group_level sd) (group_level target) itemdb_canpartnertrade_sub))
     \<and> expire_time it = 0
     \<and> \<not> (((bound it = BOUND_ACCOUNT \<or> bound it > BOUND_GUILD) \<or> (bound it = BOUND_GUILD \<and> guild_id sd \<noteq> guild_id target))
          \<and> \<not> can_give_bounded_items sd)"

text \<open>The item at \<open>idx\<close> goes into the first entry for it, or the first empty one.\<close>

definition deal_put :: "map_session_data \<Rightarrow> int \<Rightarrow> int \<Rightarrow> map_session_data \<Rightarrow> map_session_data" where
  "deal_put sd idx amt target =
     (let i = arr_find 0 10 (\<lambda>i. deal_index (deal_items sd ! i) = idx \<or> deal_amount (deal_items sd ! i) = 0) in
      if i = 10 then sd
      else
        (let wt = id_weight (the (inventory_data sd ! nat idx)); w = wt * amt in
         if u32 (weight target + deal_weight sd + w) > max_weight target then sd
         else
           (let d = deal_items sd ! i; have = amount (inventory sd ! nat idx);
                amt' = (if deal_index d = idx \<and> deal_amount d + amt > have then s16 (have - deal_amount d) else amt);
                d' = (if deal_index d = idx then d\<lparr>deal_amount := s16 (deal_amount d + amt')\<rparr>
                      else \<lparr>deal_index = idx, deal_amount = amt'\<rparr>)
            in sd\<lparr>deal_items := (deal_items sd)[i := d'], deal_weight := s32 (deal_weight sd + wt * amt')\<rparr>)))"

definition trade_tradeadditem :: "env \<Rightarrow> trade_ctx \<Rightarrow> world \<Rightarrow> int \<Rightarrow> int \<Rightarrow> int \<Rightarrow> world" where
  "trade_tradeadditem e c w a idx amt =
     (case w a of None \<Rightarrow> w
      | Some sd \<Rightarrow>
          if \<not> st_trading sd \<or> st_deal_locked sd > 0 then w
          else
            (case w (trade_partner sd) of
               None \<Rightarrow> trade_tradecancel w a
             | Some target \<Rightarrow>
                 if amt = 0 then w
                 else let idx = s16 (idx - 2) in
                   if idx < 0 \<or> idx \<ge> int MAX_INVENTORY then w
                   else if amt < 0 \<or> amt > amount (inventory sd ! nat idx) then w
                   else let it = inventory sd ! nat idx in
                     if \<not> trade_may_offer e c sd target it then w
                     else
                       (let sd = (if bound it \<noteq> 0
                                  then sd\<lparr>st_isBoundTrading := st_isBoundTrading sd OR 2 ^ nat (bound it)\<rparr> else sd)
                        in w(a \<mapsto> deal_put sd idx amt target))))"

definition trade_tradeaddzeny :: "world \<Rightarrow> int \<Rightarrow> int \<Rightarrow> world" where
  "trade_tradeaddzeny w a amt =
     (case w a of None \<Rightarrow> w
      | Some sd \<Rightarrow>
          if \<not> st_trading sd \<or> st_deal_locked sd > 0 then w
          else
            (case w (trade_partner sd) of
               None \<Rightarrow> trade_tradecancel w a
             | Some target \<Rightarrow>
                 if amt < 0 \<or> amt > zeny sd \<or> amt > MAX_ZENY - zeny target then trade_tradecancel w a
                 else w(a \<mapsto> sd\<lparr>deal_zeny := amt\<rparr>)))"

definition trade_tradeok :: "world \<Rightarrow> int \<Rightarrow> world" where
  "trade_tradeok w a =
     (case w a of None \<Rightarrow> w
      | Some sd \<Rightarrow>
          if st_deal_locked sd \<noteq> 0 \<or> \<not> st_trading sd then w
          else
            (case w (trade_partner sd) of
               None \<Rightarrow> trade_tradecancel w a
             | Some target \<Rightarrow> w(a \<mapsto> sd\<lparr>st_deal_locked := 1\<rparr>)))"

section \<open>Executing the trade\<close>

text \<open>\<open>impossible_trade_check\<close>: the loop over the offers takes them out of a copy of the slots.\<close>

fun offers_covered :: "item list \<Rightarrow> deal_item list \<Rightarrow> bool" where
  "offers_covered sl [] = True"
| "offers_covered sl (d # ds) =
     (if deal_amount d = 0 then offers_covered sl ds
      else let i = nat (deal_index d) in
        if amount (sl ! i) < deal_amount d then False
        else offers_covered (sl[i := (sl ! i)\<lparr>amount := s16 (amount (sl ! i) - deal_amount d)\<rparr>]) ds)"

definition unequipped :: "item list \<Rightarrow> item list" where
  "unequipped sl = map (\<lambda>it. if nameid it > 0 \<and> equip it \<noteq> 0 \<and> equip it AND EQP_AMMO = 0 then zero_item else it) sl"

definition impossible_trade_check :: "map_session_data \<Rightarrow> int" where
  "impossible_trade_check sd =
     (if deal_zeny sd > zeny sd then -1
      else if offers_covered (unequipped (inventory sd)) (deal_items sd) then 0 else 1)"

text \<open>
  \<open>trade_check\<close> moves the offers between copies of the two inventories. One offer: \<open>None\<close> when the
  receiver has no room, else the giver's and the receiver's slots.
\<close>

definition check_offer :: "env \<Rightarrow> item list \<Rightarrow> item list \<Rightarrow> deal_item \<Rightarrow> (item list \<times> item list) option" where
  "check_offer e sl sl2 d =
     (let amt = deal_amount d; n = nat (deal_index d) in
      if amt = 0 then Some (sl, sl2)
      else if amt > amount (sl ! n) then None
      else
        (let data = itemdb_search (env_db e) (nameid (sl ! n));
             i = (if itemdb_isstackable2 (id_type data)
                  then arr_find 0 MAX_INVENTORY (\<lambda>i. nameid (sl2 ! i) = nameid (sl ! n) \<and> card (sl2 ! i) = card (sl ! n))
                  else MAX_INVENTORY);
             sl' = sl[n := (sl ! n)\<lparr>amount := s16 (amount (sl ! n) - amt)\<rparr>] in
         if i < MAX_INVENTORY then
           (if amount (sl2 ! i) + amt > MAX_AMOUNT then None
            else Some (sl', sl2[i := (sl2 ! i)\<lparr>amount := s16 (amount (sl2 ! i) + amt)\<rparr>]))
         else
           (let j = arr_find 0 MAX_INVENTORY (\<lambda>i. nameid (sl2 ! i) = 0) in
            if j = MAX_INVENTORY then None
            else Some (sl', sl2[j := (sl ! n)\<lparr>amount := s16 amt\<rparr>]))))"

fun check_offers :: "env \<Rightarrow> item list \<Rightarrow> item list \<Rightarrow> (deal_item \<times> deal_item) list \<Rightarrow> bool" where
  "check_offers e sl sl2 [] = True"
| "check_offers e sl sl2 ((d, d2) # ds) =
     (case check_offer e sl sl2 d of
        None \<Rightarrow> False
      | Some (sl, sl2) \<Rightarrow>
          (case check_offer e sl2 sl d2 of
             None \<Rightarrow> False
           | Some (sl2, sl) \<Rightarrow> check_offers e sl sl2 ds))"

definition trade_check :: "env \<Rightarrow> map_session_data \<Rightarrow> map_session_data \<Rightarrow> bool" where
  "trade_check e sd tsd =
     (if deal_zeny sd > zeny sd \<or> zeny tsd > MAX_ZENY - deal_zeny sd then False
      else if deal_zeny tsd > zeny tsd \<or> zeny sd > MAX_ZENY - deal_zeny tsd then False
      else check_offers e (inventory sd) (inventory tsd) (zip (deal_items sd) (deal_items tsd)))"

text \<open>The first player gives offer \<open>i\<close> to the second.\<close>

definition trade_give :: "env \<Rightarrow> nat \<Rightarrow> map_session_data \<times> map_session_data \<Rightarrow> map_session_data \<times> map_session_data" where
  "trade_give e i st =
     (let (sd, tsd) = st; d = deal_items sd ! i; n = nat (deal_index d) in
      if deal_amount d = 0 then st
      else
        (let (flag, it, tsd) = pc_additem e tsd (inventory sd ! n) (deal_amount d);
             sd = sd\<lparr>inventory := (inventory sd)[n := it]\<rparr>;
             sd = (if flag = 0 then snd (pc_delitem e sd (deal_index d) (deal_amount d)) else sd)
         in (sd\<lparr>deal_items := (deal_items sd)[i := \<lparr>deal_index = 0, deal_amount = 0\<rparr>]\<rparr>, tsd)))"

definition trade_round :: "env \<Rightarrow> nat \<Rightarrow> map_session_data \<times> map_session_data \<Rightarrow> map_session_data \<times> map_session_data" where
  "trade_round e i st = prod.swap (trade_give e i (prod.swap (trade_give e i st)))"

definition trade_zeny :: "map_session_data \<times> map_session_data \<Rightarrow> map_session_data \<times> map_session_data" where
  "trade_zeny st =
     (let (sd, tsd) = st; z = deal_zeny sd in
      if z = 0 then st
      else ((snd (pc_payzeny sd z))\<lparr>deal_zeny := 0\<rparr>, snd (pc_getzeny tsd z)))"

definition trade_done :: "map_session_data \<Rightarrow> map_session_data" where
  "trade_done p = p\<lparr>st_deal_locked := 0, trade_partner := 0, st_trading := False, st_isBoundTrading := 0\<rparr>"

definition trade_exec :: "env \<Rightarrow> map_session_data \<times> map_session_data \<Rightarrow> map_session_data \<times> map_session_data" where
  "trade_exec e st =
     (let st = foldl (\<lambda>st i. trade_round e i st) st [0..<10];
          (sd, tsd) = prod.swap (trade_zeny (prod.swap (trade_zeny st)))
      in (trade_done sd, trade_done tsd))"

definition trade_tradecommit :: "env \<Rightarrow> world \<Rightarrow> int \<Rightarrow> world" where
  "trade_tradecommit e w a =
     (case w a of None \<Rightarrow> w
      | Some sd \<Rightarrow>
          if \<not> st_trading sd \<or> st_deal_locked sd = 0 then w
          else
            (case w (trade_partner sd) of
               None \<Rightarrow> trade_tradecancel w a
             | Some tsd \<Rightarrow>
                 (let t = trade_partner sd; sd = sd\<lparr>st_deal_locked := 2\<rparr>; w = w(a \<mapsto> sd) in
                  if st_deal_locked tsd < 2 then w
                  else if impossible_trade_check sd \<noteq> 0 then trade_tradecancel w a
                  else if impossible_trade_check tsd \<noteq> 0 then trade_tradecancel w t
                  else if \<not> trade_check e sd tsd then trade_tradecancel w a
                  else (let (sd', tsd') = trade_exec e (sd, tsd) in w(a \<mapsto> sd', t \<mapsto> tsd')))))"

end
