(* ===== verification/TradeOps.thy ===== *)
theory TradeOps imports Trade begin

text \<open>
  Trading keeps what it should: an exchange never loses or makes an item or zeny, whatever the two
  windows hold, and no sequence of trade packets of any number of players changes what all players
  own together.
\<close>

section \<open>Offers that are there\<close>

text \<open>What the offers \<open>ds\<close> still take from slot \<open>n\<close>.\<close>

definition pend :: "deal_item list \<Rightarrow> nat \<Rightarrow> int" where
  "pend ds n = (\<Sum>d\<leftarrow>ds. if deal_index d = int n then deal_amount d else 0)"

definition offers_ok :: "deal_item list \<Rightarrow> item list \<Rightarrow> bool" where
  "offers_ok ds sl \<longleftrightarrow>
     (\<forall>d \<in> set ds. 0 \<le> deal_amount d \<and> (deal_amount d \<noteq> 0 \<longrightarrow> 0 \<le> deal_index d \<and> deal_index d < int MAX_INVENTORY
        \<and> expire_time (sl ! nat (deal_index d)) = 0))
     \<and> (\<forall>n < MAX_INVENTORY. pend ds n \<le> amount (sl ! n))"

lemma pend_Cons: "pend (d # ds) n = (if deal_index d = int n then deal_amount d else 0) + pend ds n"
  by (simp add: pend_def)

lemma pend_nonneg: "\<forall>d \<in> set ds. 0 \<le> deal_amount d \<Longrightarrow> 0 \<le> pend ds n"
  by (induction ds) (auto simp: pend_def)

lemma pend_ge:
  assumes "\<forall>d \<in> set ds. 0 \<le> deal_amount d" "d \<in> set ds" "deal_index d = int n"
  shows "deal_amount d \<le> pend ds n"
  using assms(2,3,1)
proof (induction ds)
  case (Cons a ds)
  then have "0 \<le> deal_amount a" "0 \<le> pend ds n" using pend_nonneg by auto
  then show ?case using Cons by (auto simp: pend_Cons)
qed simp

lemma offers_amount:
  assumes "offers_ok ds sl" "d \<in> set ds" "deal_amount d \<noteq> 0"
  shows "nat (deal_index d) < MAX_INVENTORY" "0 < deal_amount d" "deal_amount d \<le> amount (sl ! nat (deal_index d))"
    "expire_time (sl ! nat (deal_index d)) = 0" "0 \<le> deal_index d"
proof -
  have d: "0 \<le> deal_index d" "deal_index d < int MAX_INVENTORY" "0 < deal_amount d" "expire_time (sl ! nat (deal_index d)) = 0"
    using assms by (auto simp: offers_ok_def order_le_less)
  then show n: "nat (deal_index d) < MAX_INVENTORY" by (simp add: nat_less_iff)
  show "0 < deal_amount d" "expire_time (sl ! nat (deal_index d)) = 0" "0 \<le> deal_index d" using d by simp_all
  have "deal_amount d \<le> pend ds (nat (deal_index d))" by (rule pend_ge) (use assms d in \<open>auto simp: offers_ok_def\<close>)
  also have "\<dots> \<le> amount (sl ! nat (deal_index d))" using assms(1) n by (simp add: offers_ok_def)
  finally show "deal_amount d \<le> amount (sl ! nat (deal_index d))" .
qed

lemma offers_gain:
  assumes o: "offers_ok ds sl" and so: "\<forall>m < MAX_INVENTORY. slot_ok (sl ! m)"
    and g: "\<forall>m < MAX_INVENTORY. amount (sl ! m) \<le> amount (sl' ! m) \<and> (nameid (sl ! m) \<noteq> 0 \<longrightarrow> expire_time (sl' ! m) = expire_time (sl ! m))"
  shows "offers_ok ds sl'"
proof -
  have "expire_time (sl' ! nat (deal_index d)) = 0" if d: "d \<in> set ds" "deal_amount d \<noteq> 0" for d
  proof -
    note A = offers_amount [OF o d]
    have "nameid (sl ! nat (deal_index d)) \<noteq> 0" using so A by (auto simp: slot_ok_def)
    then show ?thesis using g A by simp
  qed
  moreover have "pend ds n \<le> amount (sl' ! n)" if "n < MAX_INVENTORY" for n
  proof -
    have "pend ds n \<le> amount (sl ! n)" using o that by (simp add: offers_ok_def)
    also have "\<dots> \<le> amount (sl' ! n)" using g that by blast
    finally show ?thesis .
  qed
  ultimately show ?thesis using o by (auto simp: offers_ok_def)
qed

lemma offers_take:
  assumes o: "offers_ok (d # ds) sl"
    and t: "\<forall>m < MAX_INVENTORY. amount (sl' ! m) = amount (sl ! m) - (if m = nat (deal_index d) then deal_amount d else 0)
      \<and> (m \<noteq> nat (deal_index d) \<or> amount (sl ! m) \<noteq> deal_amount d \<longrightarrow> expire_time (sl' ! m) = expire_time (sl ! m))"
    and dn: "deal_amount d \<noteq> 0"
  shows "offers_ok ds sl'"
proof -
  let ?n = "nat (deal_index d)"
  have nn: "\<forall>d \<in> set ds. 0 \<le> deal_amount d" using o by (simp add: offers_ok_def)
  note A = offers_amount [OF o _ dn]
  have i: "deal_index d = int ?n" using A(5) by simp
  have p: "pend ds m \<le> amount (sl' ! m)" if m: "m < MAX_INVENTORY" for m
  proof -
    have "pend (d # ds) m \<le> amount (sl ! m)" using o m by (simp add: offers_ok_def)
    moreover have "deal_index d = int m \<longleftrightarrow> m = ?n" using A(5) by auto
    ultimately show ?thesis using t m by (auto simp: pend_Cons)
  qed
  have "expire_time (sl' ! nat (deal_index x)) = 0" if x: "x \<in> set ds" "deal_amount x \<noteq> 0" for x
  proof -
    note X = offers_amount [OF o _ x(2)]
    have xi: "x \<in> set (d # ds)" using x by simp
    have "deal_amount x \<le> pend ds (nat (deal_index x))" by (rule pend_ge [OF nn x(1)]) (use X(5) [OF xi] in simp)
    then have "0 < amount (sl' ! nat (deal_index x))" using p [OF X(1) [OF xi]] X(2) [OF xi] by simp
    then have "nat (deal_index x) \<noteq> ?n \<or> amount (sl ! nat (deal_index x)) \<noteq> deal_amount d" using t X(1) [OF xi] by auto
    then show ?thesis using t X(1,4) [OF xi] by simp
  qed
  then show ?thesis using o p by (auto simp: offers_ok_def)
qed

lemma offers_skip:
  assumes "offers_ok (d # ds) sl" "deal_amount d = 0"
  shows "offers_ok ds sl"
proof -
  have "pend (d # ds) n = pend ds n" for n using assms(2) by (simp add: pend_Cons)
  then show ?thesis using assms(1) by (simp add: offers_ok_def)
qed

section \<open>Giving one offer\<close>

lemma trade_give_ok:
  assumes ok: "inv_src_ok e sd" "inv_src_ok e tsd" and len: "length (deal_items sd) = 10" "i < 10"
    and o1: "offers_ok (drop i (deal_items sd)) (inventory sd)" and o2: "offers_ok ds (inventory tsd)"
    and g: "trade_give e i (sd, tsd) = (sd', tsd')"
  shows "inv_src_ok e sd' \<and> inv_src_ok e tsd'
    \<and> offers_ok (drop (Suc i) (deal_items sd')) (inventory sd') \<and> offers_ok ds (inventory tsd')
    \<and> length (deal_items sd') = 10 \<and> deal_items tsd' = deal_items tsd
    \<and> (\<exists>d. deal_amount d = 0 \<and> deal_items sd' = (deal_items sd)[i := d])
    \<and> zeny sd' = zeny sd \<and> zeny tsd' = zeny tsd \<and> deal_zeny sd' = deal_zeny sd \<and> deal_zeny tsd' = deal_zeny tsd
    \<and> (\<forall>k. count_item k (inventory sd') + count_item k (inventory tsd') = count_item k (inventory sd) + count_item k (inventory tsd))"
proof -
  let ?d = "deal_items sd ! i"
  let ?n = "nat (deal_index ?d)" and ?a = "deal_amount ?d"
  have dr: "drop i (deal_items sd) = ?d # drop (Suc i) (deal_items sd)" using len by (simp add: Cons_nth_drop_Suc)
  show ?thesis
  proof (cases "?a = 0")
    case True
    have "offers_ok (drop (Suc i) (deal_items sd)) (inventory sd)"
      by (rule offers_skip [OF _ True]) (use o1 dr in simp)
    moreover have "deal_items sd = (deal_items sd)[i := ?d]" by simp
    ultimately show ?thesis using g True ok len o2 by (fastforce simp: trade_give_def Let_def)
  next
    case False
    have oc: "offers_ok (?d # drop (Suc i) (deal_items sd)) (inventory sd)" using o1 dr by simp
    note A = offers_amount [OF oc list.set_intros(1) False]
    have nl: "?n < length (inventory sd)" using A(1) ok(1) by (simp add: inv_length)
    let ?it = "inventory sd ! ?n"
    have so: "slot_ok ?it" using inv_slots [OF ok(1) nl] .
    have nm: "nameid ?it \<noteq> 0" using so A by (auto simp: slot_ok_def)
    obtain flag it tsd1 where add: "pc_additem e tsd ?it ?a = (flag, it, tsd1)" by (metis prod_cases3)
    define sd1 where "sd1 = inv_put sd ?n it"
    define sd2 where "sd2 = (if flag = 0 then snd (pc_delitem e sd1 (deal_index ?d) ?a) else sd1)"
    have res: "sd' = sd2\<lparr>deal_items := (deal_items sd2)[i := \<lparr>deal_index = 0, deal_amount = 0\<rparr>]\<rparr>" "tsd' = tsd1"
      using g False add by (auto simp: trade_give_def Let_def sd1_def sd2_def inv_put_def)
    have iok: "item_ok e ?it" using so A(4) by (simp add: item_ok_def slot_ok_def)
    have env: "env_ok e" "inv_ok e tsd" using ok by (simp_all add: inv_src_ok_def)
    have sk: "same_kind ?it it"
    proof (cases "flag = 0")
      case True
      then obtain u where "it = ?it\<lparr>unique_id := u\<rparr>" using additem_ok [OF env(2,1) iok, of ?a it tsd1] add by blast
      then show ?thesis by simp
    next
      case False
      then show ?thesis using additem_fail [OF add] by auto
    qed
    have put: "inv_src_ok e sd1" "inv_frame sd sd1" using inv_put_ok [OF ok(1) nl sk] by (simp_all add: sd1_def)
    have i1: "inventory sd1 = (inventory sd)[?n := it]" by (simp add: sd1_def inv_put_def)
    have cnt1: "count_item k (inventory sd1) = count_item k (inventory sd)" for k
      using i1 count_same_kind [OF nl sk] by simp
    have at1: "amount (inventory sd1 ! m) = amount (inventory sd ! m)" "expire_time (inventory sd1 ! m) = expire_time (inventory sd ! m)" for m
      using i1 nl sk by (cases "m = ?n"; simp add: same_kind_def)+
    have oc1: "offers_ok (?d # drop (Suc i) (deal_items sd)) (inventory sd1)"
      using oc at1 by (simp add: offers_ok_def)
    have dz: "\<exists>d. deal_amount d = 0 \<and> deal_items sd' = (deal_items sd2)[i := d]"
      by (rule exI [of _ "\<lparr>deal_index = 0, deal_amount = 0\<rparr>"]) (simp add: res(1))
    have tail: "drop (Suc i) (deal_items sd') = drop (Suc i) (deal_items sd2)" "length (deal_items sd') = length (deal_items sd2)"
      "inventory sd' = inventory sd2" "inv_src_ok e sd' = inv_src_ok e sd2" "zeny sd' = zeny sd2" "deal_zeny sd' = deal_zeny sd2"
      by (simp_all add: res(1) inv_src_ok_def inv_ok_def)
    show ?thesis
    proof (cases "flag = 0")
      case False
      note F = additem_fail [OF add False]
      have "offers_ok (drop (Suc i) (deal_items sd)) (inventory sd1)"
      proof -
        have "pend (drop (Suc i) (deal_items sd)) m \<le> pend (?d # drop (Suc i) (deal_items sd)) m" for m
          using A(2) by (simp add: pend_Cons)
        then show ?thesis using oc1 by (auto simp: offers_ok_def intro: order_trans)
      qed
      moreover have "sd2 = sd1" using False by (simp add: sd2_def)
      moreover have "inv_src_ok e tsd1 \<and> inventory tsd1 = inventory tsd \<and> deal_items tsd1 = deal_items tsd \<and> zeny tsd1 = zeny tsd \<and> deal_zeny tsd1 = deal_zeny tsd"
        using F ok(2) by (auto simp: inv_src_ok_def inv_ok_def)
      ultimately show ?thesis using dz put tail cnt1 len o2 res(2) inv_frame_sel(11,17,18) [OF put(2)] by simp
    next
      case True
      then have add0: "pc_additem e tsd ?it ?a = (0, it, tsd1)" using add by simp
      note G = additem_ok [OF env(2,1) iok add0]
      have t1: "inv_src_ok e tsd1" "inv_frame tsd tsd1" using G env by (simp_all add: inv_src_ok_def)
      have "\<forall>m < MAX_INVENTORY. slot_ok (inventory tsd ! m)" using env(2) by (simp add: inv_ok_def)
      then have o2': "offers_ok ds (inventory tsd1)" using offers_gain [OF o2] G by blast
      have nl1: "?n < length (inventory sd1)" using i1 nl by simp
      have ix: "deal_index ?d = int ?n" using A(5) by simp
      have n1: "nameid (inventory sd1 ! ?n) = nameid ?it" using i1 nl sk by (simp add: same_kind_def)
      obtain r sd3 where del: "pc_delitem e sd1 (deal_index ?d) ?a = (r, sd3)" by fastforce
      have lt: "deal_index ?d < int MAX_INVENTORY" using A(1,5) by (simp add: nat_less_iff)
      have ok1: "inv_ok e sd1" using put by (simp add: inv_src_ok_def)
      have "r = 0" using delitem_result [OF ok1 lt del] nm n1 A at1 by simp
      then have del0: "pc_delitem e sd1 (deal_index ?d) ?a = (0, sd3)" using del by simp
      note D = delitem_ok [OF ok1 env(1) lt del0]
      have s2: "sd2 = sd3" using True del by (simp add: sd2_def)
      have "offers_ok (drop (Suc i) (deal_items sd)) (inventory sd3)"
        by (rule offers_take [OF oc1 _ False]) (use D in blast)
      moreover have "inv_frame sd sd3" using inv_frame_trans [OF put(2)] D by blast
      moreover have "inv_src_ok e sd3" using D env by (simp add: inv_src_ok_def)
      moreover have "count_item k (inventory sd3) + count_item k (inventory tsd1) = count_item k (inventory sd) + count_item k (inventory tsd)" for k
        using D G cnt1 n1 by simp
      ultimately show ?thesis using dz tail t1 o2' len res(2) s2 inv_frame_sel(11,17,18) [of sd sd3] inv_frame_sel(11,17,18) [OF t1(2)] by simp
    qed
  qed
qed


section \<open>The whole exchange\<close>

text \<open>The two traders between rounds, with what they own together and their zeny.\<close>

definition trade_state :: "env \<Rightarrow> nat \<Rightarrow> (int \<Rightarrow> int) \<Rightarrow> int \<times> int \<times> int \<times> int \<Rightarrow> map_session_data \<times> map_session_data \<Rightarrow> bool" where
  "trade_state e i tot z st \<longleftrightarrow>
     inv_src_ok e (fst st) \<and> inv_src_ok e (snd st)
     \<and> length (deal_items (fst st)) = 10 \<and> length (deal_items (snd st)) = 10
     \<and> offers_ok (drop i (deal_items (fst st))) (inventory (fst st))
     \<and> offers_ok (drop i (deal_items (snd st))) (inventory (snd st))
     \<and> (\<forall>j < i. deal_amount (deal_items (fst st) ! j) = 0 \<and> deal_amount (deal_items (snd st) ! j) = 0)
     \<and> z = (zeny (fst st), zeny (snd st), deal_zeny (fst st), deal_zeny (snd st))
     \<and> (\<forall>k. count_item k (inventory (fst st)) + count_item k (inventory (snd st)) = tot k)"

lemma trade_round_ok:
  assumes t: "trade_state e i tot z st" and i: "i < 10"
  shows "trade_state e (Suc i) tot z (trade_round e i st)"
proof -
  obtain sd tsd where st: "st = (sd, tsd)" by (rule prod.exhaust)
  have ok: "inv_src_ok e sd" "inv_src_ok e tsd" "length (deal_items sd) = 10" "length (deal_items tsd) = 10"
    "offers_ok (drop i (deal_items sd)) (inventory sd)" "offers_ok (drop i (deal_items tsd)) (inventory tsd)"
    "z = (zeny sd, zeny tsd, deal_zeny sd, deal_zeny tsd)" "\<forall>k. count_item k (inventory sd) + count_item k (inventory tsd) = tot k"
    using t by (simp_all add: trade_state_def st)
  obtain sd1 tsd1 where g1: "trade_give e i (sd, tsd) = (sd1, tsd1)" by (rule prod.exhaust)
  note G = trade_give_ok [OF ok(1,2,3) i ok(5,6) g1]
  obtain tsd2 sd2 where g2: "trade_give e i (tsd1, sd1) = (tsd2, sd2)" by (rule prod.exhaust)
  have o2: "offers_ok (drop i (deal_items tsd1)) (inventory tsd1)" "length (deal_items tsd1) = 10" using G ok(4) by auto
  have "inv_src_ok e tsd1" "inv_src_ok e sd1" "offers_ok (drop (Suc i) (deal_items sd1)) (inventory sd1)" using G by auto
  note H = trade_give_ok [OF this(1,2) o2(2) i o2(1) this(3) g2]
  have "trade_round e i st = (sd2, tsd2)" using g1 g2 by (simp add: trade_round_def st)
  moreover have "deal_amount (deal_items sd2 ! j) = 0 \<and> deal_amount (deal_items tsd2 ! j) = 0" if j: "j < Suc i" for j
  proof -
    obtain d d2 where d: "deal_amount d = 0" "deal_items sd1 = (deal_items sd)[i := d]"
      "deal_amount d2 = 0" "deal_items tsd2 = (deal_items tsd1)[i := d2]" using G H by metis
    have "deal_items sd2 = (deal_items sd)[i := d]" "deal_items tsd2 = (deal_items tsd)[i := d2]" using G H d by metis+
    moreover have "j = i \<or> deal_amount (deal_items sd ! j) = 0 \<and> deal_amount (deal_items tsd ! j) = 0"
      using t j by (auto simp: trade_state_def st less_Suc_eq)
    ultimately show ?thesis using d ok(3,4) i by (cases "j = i") simp_all
  qed
  ultimately show ?thesis using G H ok(7,8) by (simp add: trade_state_def add.commute)
qed

lemma trade_rounds_ok:
  "trade_state e 0 tot z st \<Longrightarrow> n \<le> 10 \<Longrightarrow> trade_state e n tot z (foldl (\<lambda>st i. trade_round e i st) st [0..<n])"
proof (induction n)
  case (Suc n)
  then show ?case using trade_round_ok [of e n tot z] by simp
qed simp

text \<open>Paying and receiving exact amounts.\<close>

lemma payzeny_exact: "0 \<le> z \<Longrightarrow> z \<le> MAX_ZENY \<Longrightarrow> pc_payzeny sd z = (if zeny sd < z then (1, sd) else (0, sd\<lparr>zeny := zeny sd - z\<rparr>))"
  by (simp add: pc_payzeny_def cap_value_def Let_def MAX_ZENY_def)

lemma getzeny_exact: "0 \<le> z \<Longrightarrow> z \<le> MAX_ZENY \<Longrightarrow> z \<le> MAX_ZENY - zeny sd \<Longrightarrow> pc_getzeny sd z = (0, sd\<lparr>zeny := zeny sd + z\<rparr>)"
  by (simp add: pc_getzeny_def cap_value_def Let_def MAX_ZENY_def)

lemma trade_zeny_exact:
  assumes "0 \<le> deal_zeny sd" "deal_zeny sd \<le> zeny sd" "0 \<le> zeny tsd" "deal_zeny sd \<le> MAX_ZENY - zeny tsd"
  shows "trade_zeny (sd, tsd) = (sd\<lparr>zeny := zeny sd - deal_zeny sd, deal_zeny := 0\<rparr>, tsd\<lparr>zeny := zeny tsd + deal_zeny sd\<rparr>)"
proof -
  have "deal_zeny sd \<le> MAX_ZENY" using assms by simp
  then show ?thesis using assms payzeny_exact getzeny_exact by (simp add: trade_zeny_def Let_def)
qed

definition zeny_ok :: "map_session_data \<Rightarrow> bool" where
  "zeny_ok sd \<longleftrightarrow> 0 \<le> zeny sd \<and> zeny sd \<le> MAX_ZENY"

definition no_deals :: "map_session_data \<Rightarrow> bool" where
  "no_deals sd \<longleftrightarrow> length (deal_items sd) = 10 \<and> (\<forall>d \<in> set (deal_items sd). deal_amount d = 0) \<and> deal_zeny sd = 0 \<and> trade_partner sd = 0"

lemma trade_exec_ok:
  assumes ok: "inv_src_ok e sd" "inv_src_ok e tsd" "length (deal_items sd) = 10" "length (deal_items tsd) = 10"
    and off: "offers_ok (deal_items sd) (inventory sd)" "offers_ok (deal_items tsd) (inventory tsd)"
    and z: "zeny_ok sd" "zeny_ok tsd" "0 \<le> deal_zeny sd" "0 \<le> deal_zeny tsd"
    and c: "deal_zeny sd \<le> zeny sd" "deal_zeny tsd \<le> zeny tsd" "zeny tsd \<le> MAX_ZENY - deal_zeny sd" "zeny sd \<le> MAX_ZENY - deal_zeny tsd"
    and x: "trade_exec e (sd, tsd) = (sd', tsd')"
  shows "inv_src_ok e sd' \<and> inv_src_ok e tsd' \<and>
    (\<forall>k. count_item k (inventory sd') + count_item k (inventory tsd') = count_item k (inventory sd) + count_item k (inventory tsd)) \<and>
    zeny sd' = zeny sd - deal_zeny sd + deal_zeny tsd \<and> zeny tsd' = zeny tsd - deal_zeny tsd + deal_zeny sd \<and>
    no_deals sd' \<and> no_deals tsd'"
proof -
  obtain s1 t1 where f: "foldl (\<lambda>st i. trade_round e i st) (sd, tsd) [0..<10] = (s1, t1)" by (rule prod.exhaust)
  have "trade_state e 0 (\<lambda>k. count_item k (inventory sd) + count_item k (inventory tsd))
      (zeny sd, zeny tsd, deal_zeny sd, deal_zeny tsd) (sd, tsd)"
    using ok off by (simp add: trade_state_def)
  from trade_rounds_ok [OF this order_refl] have T: "inv_src_ok e s1" "inv_src_ok e t1"
      "zeny s1 = zeny sd" "zeny t1 = zeny tsd" "deal_zeny s1 = deal_zeny sd" "deal_zeny t1 = deal_zeny tsd"
      "\<forall>k. count_item k (inventory s1) + count_item k (inventory t1) = count_item k (inventory sd) + count_item k (inventory tsd)"
      "length (deal_items s1) = 10" "length (deal_items t1) = 10"
      "\<forall>j < 10. deal_amount (deal_items s1 ! j) = 0 \<and> deal_amount (deal_items t1 ! j) = 0"
    unfolding f by (simp_all add: trade_state_def)
  let ?s2 = "s1\<lparr>zeny := zeny sd - deal_zeny sd, deal_zeny := 0\<rparr>" and ?t2 = "t1\<lparr>zeny := zeny tsd + deal_zeny sd\<rparr>"
  have z1: "trade_zeny (s1, t1) = (?s2, ?t2)"
    using trade_zeny_exact [of s1 t1] T z c by (simp add: zeny_ok_def)
  have z2: "trade_zeny (?t2, ?s2) = (?t2\<lparr>zeny := zeny tsd + deal_zeny sd - deal_zeny tsd, deal_zeny := 0\<rparr>,
      ?s2\<lparr>zeny := zeny sd - deal_zeny sd + deal_zeny tsd\<rparr>)"
    using trade_zeny_exact [of ?t2 ?s2] T z c by (simp add: zeny_ok_def)
  have "sd' = trade_done (?s2\<lparr>zeny := zeny sd - deal_zeny sd + deal_zeny tsd\<rparr>)"
    "tsd' = trade_done (?t2\<lparr>zeny := zeny tsd + deal_zeny sd - deal_zeny tsd, deal_zeny := 0\<rparr>)"
    using x z1 z2 f by (simp_all add: trade_exec_def Let_def)
  then show ?thesis using T by (simp add: trade_done_def inv_src_ok_def inv_ok_def no_deals_def all_set_conv_all_nth)
qed

section \<open>The checks before the exchange\<close>

text \<open>Entries of the trade window: amounts are not negative, and what is offered is a slot without a time limit.\<close>

definition deals_wf :: "map_session_data \<Rightarrow> bool" where
  "deals_wf sd \<longleftrightarrow> length (deal_items sd) = 10 \<and> 0 \<le> deal_zeny sd
     \<and> (\<forall>d \<in> set (deal_items sd). 0 \<le> deal_amount d \<and> (deal_amount d \<noteq> 0 \<longrightarrow> 0 \<le> deal_index d \<and> deal_index d < int MAX_INVENTORY
          \<and> expire_time (inventory sd ! nat (deal_index d)) = 0))"

lemma offers_covered_pend:
  "offers_covered sl ds \<Longrightarrow> (\<forall>m < length sl. 0 \<le> amount (sl ! m) \<and> amount (sl ! m) \<le> 30000) \<Longrightarrow>
   (\<forall>d \<in> set ds. 0 \<le> deal_amount d \<and> (deal_amount d \<noteq> 0 \<longrightarrow> 0 \<le> deal_index d \<and> deal_index d < int (length sl))) \<Longrightarrow>
   n < length sl \<Longrightarrow> pend ds n \<le> amount (sl ! n)"
proof (induction sl ds rule: offers_covered.induct)
  case (1 sl)
  then show ?case by (simp add: pend_def)
next
  case (2 sl d ds)
  let ?i = "nat (deal_index d)"
  show ?case
  proof (cases "deal_amount d = 0")
    case True
    then have "pend (d # ds) n = pend ds n" by (simp add: pend_Cons)
    then show ?thesis using 2 True by simp
  next
    case False
    have d: "0 \<le> deal_index d" "?i < length sl" "0 < deal_amount d"
      using 2(5) False by (auto simp: nat_less_iff order_le_less)
    have c: "deal_amount d \<le> amount (sl ! ?i)" using 2(3) False by (auto simp: Let_def split: if_splits)
    have s: "s16 (amount (sl ! ?i) - deal_amount d) = amount (sl ! ?i) - deal_amount d"
      using 2(4) c d by (intro s16_id) force+
    let ?sl = "sl[?i := (sl ! ?i)\<lparr>amount := amount (sl ! ?i) - deal_amount d\<rparr>]"
    have oc: "offers_covered ?sl ds" using 2(3) False c by (simp add: Let_def s)
    have am: "\<forall>m < length ?sl. 0 \<le> amount (?sl ! m) \<and> amount (?sl ! m) \<le> 30000"
      using 2(4) c d by (auto simp: nth_list_update)
    have "pend ds n \<le> amount (?sl ! n)"
      using 2(2) [OF False refl _ ] oc am 2(5,6) c by (simp add: s)
    then show ?thesis using d 2(6) by (cases "n = ?i") (auto simp: pend_Cons)
  qed
qed

lemma unequipped_amount:
  assumes "n < length sl" "slot_ok (sl ! n)"
  shows "amount (unequipped sl ! n) \<le> amount (sl ! n)" "0 \<le> amount (unequipped sl ! n)" "amount (unequipped sl ! n) \<le> 30000"
  using assms by (auto simp: unequipped_def slot_ok_def zero_item_def MAX_AMOUNT_def split: if_splits)

lemma impossible_trade_check_ok:
  assumes ok: "inv_src_ok e sd" and d: "deals_wf sd" and i: "impossible_trade_check sd = 0"
  shows "offers_ok (deal_items sd) (inventory sd) \<and> deal_zeny sd \<le> zeny sd"
proof -
  have l: "length (inventory sd) = MAX_INVENTORY" using ok by (simp add: inv_length)
  have ul: "length (unequipped (inventory sd)) = MAX_INVENTORY" using l by (simp add: unequipped_def)
  have so: "slot_ok (inventory sd ! n)" if "n < MAX_INVENTORY" for n using inv_slots [OF ok] that l by simp
  have oc: "offers_covered (unequipped (inventory sd)) (deal_items sd)" and z: "deal_zeny sd \<le> zeny sd"
    using i by (auto simp: impossible_trade_check_def split: if_splits)
  have am: "\<forall>m < length (unequipped (inventory sd)). 0 \<le> amount (unequipped (inventory sd) ! m) \<and> amount (unequipped (inventory sd) ! m) \<le> 30000"
    using unequipped_amount so l ul by simp
  have "pend (deal_items sd) n \<le> amount (inventory sd ! n)" if n: "n < MAX_INVENTORY" for n
  proof -
    have "pend (deal_items sd) n \<le> amount (unequipped (inventory sd) ! n)"
      by (rule offers_covered_pend [OF oc am]) (use d n ul in \<open>auto simp: deals_wf_def\<close>)
    also have "\<dots> \<le> amount (inventory sd ! n)" using unequipped_amount(1) n l so by simp
    finally show ?thesis .
  qed
  then show ?thesis using d z by (auto simp: offers_ok_def deals_wf_def)
qed

lemma trade_check_zeny:
  "trade_check e sd tsd \<Longrightarrow> deal_zeny sd \<le> zeny sd \<and> deal_zeny tsd \<le> zeny tsd
     \<and> zeny tsd \<le> MAX_ZENY - deal_zeny sd \<and> zeny sd \<le> MAX_ZENY - deal_zeny tsd"
  by (auto simp: trade_check_def split: if_splits)

section \<open>A player's belongings\<close>

text \<open>What a world operation leaves alone when it only closes trade windows.\<close>

definition same_goods :: "map_session_data \<Rightarrow> map_session_data \<Rightarrow> bool" where
  "same_goods p p' \<longleftrightarrow> inventory p' = inventory p \<and> inventory_data p' = inventory_data p \<and> weight p' = weight p \<and> zeny p' = zeny p"

definition world_goods :: "world \<Rightarrow> world \<Rightarrow> bool" where
  "world_goods w w' \<longleftrightarrow> (\<forall>i. case w i of None \<Rightarrow> w' i = None | Some p \<Rightarrow> (\<exists>p'. w' i = Some p' \<and> same_goods p p'))"

lemma same_goods_trans: "same_goods p q \<Longrightarrow> same_goods q r \<Longrightarrow> same_goods p r"
  by (simp add: same_goods_def)

lemma world_goods_refl: "world_goods w w"
  by (simp add: world_goods_def same_goods_def split: option.splits)

lemma world_goodsI:
  "(\<And>i. w i = None \<Longrightarrow> w' i = None) \<Longrightarrow> (\<And>i p. w i = Some p \<Longrightarrow> \<exists>p'. w' i = Some p' \<and> same_goods p p') \<Longrightarrow> world_goods w w'"
  by (simp add: world_goods_def split: option.splits)

lemma world_goodsD: "world_goods w w' \<Longrightarrow> w i = Some p \<Longrightarrow> \<exists>p'. w' i = Some p' \<and> same_goods p p'"
  by (auto simp: world_goods_def split: option.splits)

lemma world_goodsN: "world_goods w w' \<Longrightarrow> w i = None \<Longrightarrow> w' i = None"
  unfolding world_goods_def by (drule spec [of _ i]) simp

lemma world_goods_trans: "world_goods w v \<Longrightarrow> world_goods v u \<Longrightarrow> world_goods w u"
  by (rule world_goodsI) (blast dest: world_goodsD world_goodsN intro: same_goods_trans)+

lemma upd_goods: "(\<And>p. same_goods p (f p)) \<Longrightarrow> world_goods w (upd w i f)"
  by (rule world_goodsI) (auto simp: upd_def same_goods_def split: option.splits)

lemma world_goods_upd: "world_goods w w' \<Longrightarrow> (\<And>p. same_goods p (f p)) \<Longrightarrow> world_goods w (upd w' i f)"
  by (rule world_goods_trans) (auto intro: upd_goods)

lemma trade_tradecancel_goods: "world_goods w (trade_tradecancel w a)"
  by (simp add: trade_tradecancel_def Let_def world_goods_refl split: option.splits)
    (auto intro!: world_goods_upd world_goods_refl simp: same_goods_def trade_clear_def)

lemma same_goods_ok: "same_goods p p' \<Longrightarrow> inv_src_ok e p' = inv_src_ok e p"
  by (simp add: same_goods_def inv_src_ok_def inv_ok_def)

text \<open>
  The two traders after an operation: nothing of what they own together is lost or made, and both
  keep the well-formedness of inventories and the range of zeny.
\<close>

definition trade_fair :: "env \<Rightarrow> map_session_data \<Rightarrow> map_session_data \<Rightarrow> map_session_data \<Rightarrow> map_session_data \<Rightarrow> bool" where
  "trade_fair e p q p' q' \<longleftrightarrow> inv_src_ok e p' \<and> inv_src_ok e q' \<and> zeny_ok p' \<and> zeny_ok q'
     \<and> (\<forall>k. count_item k (inventory p') + count_item k (inventory q') = count_item k (inventory p) + count_item k (inventory q))
     \<and> zeny p' + zeny q' = zeny p + zeny q"

lemma same_goods_fair:
  "inv_src_ok e p \<Longrightarrow> inv_src_ok e q \<Longrightarrow> zeny_ok p \<Longrightarrow> zeny_ok q \<Longrightarrow> same_goods p p' \<Longrightarrow> same_goods q q' \<Longrightarrow> trade_fair e p q p' q'"
  using same_goods_ok [of p p' e] same_goods_ok [of q q' e] by (simp add: trade_fair_def same_goods_def zeny_ok_def)

lemma trade_exec_fair:
  assumes ok: "inv_src_ok e sd" "inv_src_ok e tsd" "zeny_ok sd" "zeny_ok tsd" and d: "deals_wf sd" "deals_wf tsd"
    and c: "impossible_trade_check sd = 0" "impossible_trade_check tsd = 0" "trade_check e sd tsd"
    and x: "trade_exec e (sd, tsd) = (sd', tsd')"
  shows "trade_fair e sd tsd sd' tsd' \<and> no_deals sd' \<and> no_deals tsd'"
proof -
  note I = impossible_trade_check_ok [OF ok(1) d(1) c(1)] impossible_trade_check_ok [OF ok(2) d(2) c(2)]
  note Z = trade_check_zeny [OF c(3)]
  have w: "length (deal_items sd) = 10" "length (deal_items tsd) = 10" "0 \<le> deal_zeny sd" "0 \<le> deal_zeny tsd"
    using d by (simp_all add: deals_wf_def)
  note E = trade_exec_ok [OF ok(1,2) w(1,2) _ _ ok(3,4) w(3,4) _ _ _ _ x]
  have "inv_src_ok e sd' \<and> inv_src_ok e tsd' \<and>
    (\<forall>k. count_item k (inventory sd') + count_item k (inventory tsd') = count_item k (inventory sd) + count_item k (inventory tsd)) \<and>
    zeny sd' = zeny sd - deal_zeny sd + deal_zeny tsd \<and> zeny tsd' = zeny tsd - deal_zeny tsd + deal_zeny sd \<and>
    no_deals sd' \<and> no_deals tsd'"
    by (rule E) (use I Z in auto)
  then show ?thesis using ok(3,4) Z w by (simp add: trade_fair_def zeny_ok_def)
qed

lemma commit_goods:
  assumes w: "w a = Some sd" "w (trade_partner sd) = Some tsd" and at: "trade_partner sd \<noteq> a"
    and ok: "inv_src_ok e sd" "inv_src_ok e tsd" "zeny_ok sd" "zeny_ok tsd" and d: "deals_wf sd" "deals_wf tsd"
  shows "\<exists>sd' tsd'. trade_tradecommit e w a a = Some sd' \<and> trade_tradecommit e w a (trade_partner sd) = Some tsd'
     \<and> trade_fair e sd tsd sd' tsd'"
proof -
  let ?t = "trade_partner sd" and ?sd = "sd\<lparr>st_deal_locked := 2\<rparr>"
  let ?w = "w(a \<mapsto> ?sd)"
  have g: "world_goods w ?w" using w by (auto simp: world_goods_def same_goods_def split: option.splits)
  have keep: "\<exists>sd' tsd'. v a = Some sd' \<and> v ?t = Some tsd' \<and> trade_fair e sd tsd sd' tsd'" if v: "world_goods w v" for v
    using world_goodsD [OF v w(1)] world_goodsD [OF v w(2)] same_goods_fair ok by blast
  have cancel: "world_goods w (trade_tradecancel ?w i)" for i
    by (rule world_goods_trans [OF g trade_tradecancel_goods])
  show ?thesis
  proof (cases "\<not> st_trading sd \<or> st_deal_locked sd = 0")
    case True
    then show ?thesis using w keep [OF world_goods_refl] by (simp add: trade_tradecommit_def)
  next
    case nl: False
    show ?thesis
    proof (cases "st_deal_locked tsd < 2 \<or> impossible_trade_check ?sd \<noteq> 0 \<or> impossible_trade_check tsd \<noteq> 0 \<or> \<not> trade_check e ?sd tsd")
      case True
      then have "trade_tradecommit e w a \<in> {?w, trade_tradecancel ?w a, trade_tradecancel ?w ?t}"
        using w nl at by (auto simp: trade_tradecommit_def Let_def)
      then show ?thesis using keep [OF g] keep [OF cancel [of a]] keep [OF cancel [of ?t]] by (elim insertE emptyE) simp_all
    next
      case False
      obtain sd' tsd' where x: "trade_exec e (?sd, tsd) = (sd', tsd')" by (rule prod.exhaust)
      have "trade_fair e ?sd tsd sd' tsd' \<and> no_deals sd' \<and> no_deals tsd'"
        by (rule trade_exec_fair [OF _ _ _ _ _ _ _ _ _ x])
          (use False ok d in \<open>simp_all add: inv_src_ok_def inv_ok_def zeny_ok_def deals_wf_def\<close>)
      moreover have "trade_tradecommit e w a = ?w(a \<mapsto> sd', ?t \<mapsto> tsd')"
        using w nl at False x by (simp add: trade_tradecommit_def Let_def)
      ultimately show ?thesis using at by (simp add: trade_fair_def)
    qed
  qed
qed

lemma trade_exec_zeny:
  assumes ok: "inv_src_ok e sd" "inv_src_ok e tsd" "zeny_ok sd" "zeny_ok tsd" and d: "deals_wf sd" "deals_wf tsd"
    and c: "impossible_trade_check sd = 0" "impossible_trade_check tsd = 0" "trade_check e sd tsd"
    and x: "trade_exec e (sd, tsd) = (sd', tsd')"
  shows "zeny sd' = zeny sd - deal_zeny sd + deal_zeny tsd \<and> zeny tsd' = zeny tsd - deal_zeny tsd + deal_zeny sd"
proof -
  note I = impossible_trade_check_ok [OF ok(1) d(1) c(1)] impossible_trade_check_ok [OF ok(2) d(2) c(2)]
  have w: "length (deal_items sd) = 10" "length (deal_items tsd) = 10" "0 \<le> deal_zeny sd" "0 \<le> deal_zeny tsd"
    using d by (simp_all add: deals_wf_def)
  show ?thesis
    using trade_exec_ok [OF ok(1,2) w(1,2) _ _ ok(3,4) w(3,4) _ _ _ _ x] I trade_check_zeny [OF c(3)] by blast
qed

section \<open>What may be offered\<close>

lemma deal_put_cases: "(i::nat) \<le> 10 \<Longrightarrow> x = (if i = 10 then u else if C then u else v) \<Longrightarrow> x = u \<or> (i < 10 \<and> x = v)"
  by (simp split: if_splits)

lemma deal_put_wf:
  assumes "deals_wf sd" "0 \<le> idx" "idx < int MAX_INVENTORY" "0 < amt" "amt \<le> amount (inventory sd ! nat idx)"
    "slot_ok (inventory sd ! nat idx)" "expire_time (inventory sd ! nat idx) = 0"
    "\<forall>d \<in> set (deal_items sd). deal_amount d \<le> 30000"
  shows "deals_wf (deal_put sd idx amt target) \<and> same_goods sd (deal_put sd idx amt target)
    \<and> (\<forall>d \<in> set (deal_items (deal_put sd idx amt target)). deal_amount d \<le> 30000)
    \<and> trade_partner (deal_put sd idx amt target) = trade_partner sd"
proof -
  have h: "amount (inventory sd ! nat idx) \<le> 30000" using assms(6) by (auto simp: slot_ok_def MAX_AMOUNT_def split: if_splits)
  define i where "i = arr_find 0 10 (\<lambda>i. deal_index (deal_items sd ! i) = idx \<or> deal_amount (deal_items sd ! i) = 0)"
  define d where "d = deal_items sd ! i"
  define have' where "have' = amount (inventory sd ! nat idx)"
  define amt' where "amt' = (if deal_index d = idx \<and> deal_amount d + amt > have' then s16 (have' - deal_amount d) else amt)"
  define d' where "d' = (if deal_index d = idx then d\<lparr>deal_amount := s16 (deal_amount d + amt')\<rparr> else \<lparr>deal_index = idx, deal_amount = amt'\<rparr>)"
  have dp: "deal_put sd idx amt target = sd \<or> (i < 10 \<and> (\<exists>x. deal_put sd idx amt target = sd\<lparr>deal_items := (deal_items sd)[i := d'], deal_weight := x\<rparr>))"
  proof -
    have i: "i \<le> 10" unfolding i_def by (rule arr_find_le) simp
    have "deal_put sd idx amt target = (if i = 10 then sd else
        if u32 (weight target + deal_weight sd + id_weight (the (inventory_data sd ! nat idx)) * amt) > max_weight target then sd
        else sd\<lparr>deal_items := (deal_items sd)[i := d'], deal_weight := s32 (deal_weight sd + id_weight (the (inventory_data sd ! nat idx)) * amt')\<rparr>)"
      unfolding deal_put_def Let_def d'_def amt'_def have'_def d_def i_def by (rule refl)
    from deal_put_cases [OF i this] show ?thesis by blast
  qed
  show ?thesis
  proof (cases "deal_put sd idx amt target = sd")
    case False
    then obtain x where r: "i < 10" "deal_put sd idx amt target = sd\<lparr>deal_items := (deal_items sd)[i := d'], deal_weight := x\<rparr>" using dp by blast
    have di: "d \<in> set (deal_items sd)" using assms(1) r(1) by (simp add: d_def deals_wf_def)
    then have db: "0 \<le> deal_amount d" "deal_amount d \<le> 30000" using assms(1,8) by (auto simp: deals_wf_def)
    have s: "s16 (have' - deal_amount d) = have' - deal_amount d" 
      by (rule s16_id) (use db h assms(4,5) in \<open>auto simp: have'_def\<close>)
    have a: "deal_index d' = idx" "0 \<le> deal_amount d'" "deal_amount d' \<le> 30000"
    proof -
      have "deal_index d = idx \<Longrightarrow> s16 (deal_amount d + amt') = deal_amount d + amt' \<and> 0 \<le> deal_amount d + amt' \<and> deal_amount d + amt' \<le> 30000"
        using db h assms(4,5) s by (auto simp: amt'_def have'_def intro!: s16_id)
      then show "deal_index d' = idx" "0 \<le> deal_amount d'" "deal_amount d' \<le> 30000"
        using assms(4,5) h by (auto simp: d'_def amt'_def have'_def)
    qed
    have sub: "set ((deal_items sd)[i := d']) \<subseteq> insert d' (set (deal_items sd))" by (rule set_update_subset_insert)
    have "\<forall>y \<in> insert d' (set (deal_items sd)). 0 \<le> deal_amount y \<and> (deal_amount y \<noteq> 0 \<longrightarrow> 0 \<le> deal_index y \<and> deal_index y < int MAX_INVENTORY
          \<and> expire_time (inventory sd ! nat (deal_index y)) = 0) \<and> deal_amount y \<le> 30000"
      using assms a by (simp add: deals_wf_def)
    then show ?thesis using r(2) assms(1) sub by (auto simp: deals_wf_def same_goods_def)
  qed (use assms in \<open>simp add: same_goods_def\<close>)
qed

end
