(* ===== verification/TradeWorld.thy ===== *)
theory TradeWorld imports TradeOps begin

text \<open>
  Any number of players trade at once: the packets of \<^verbatim>\<open>src/map/trade.c\<close> are the steps of a
  transition system on the world, and what all players own together is an invariant of it.
\<close>

section \<open>Any sequence of trade packets\<close>

text \<open>One packet: the client decides who and what, the context is what the checks of other parts answer.\<close>

inductive trade_step :: "env \<Rightarrow> world \<Rightarrow> world \<Rightarrow> bool" for e where
  request: "trade_step e w (trade_traderequest c w a t)"
| ack: "trade_step e w (trade_tradeack c w a ty)"
| additem: "trade_step e w (trade_tradeadditem e c w a idx amt)"
| addzeny: "trade_step e w (trade_tradeaddzeny w a amt)"
| ok: "trade_step e w (trade_tradeok w a)"
| cancel: "trade_step e w (trade_tradecancel w a)"
| commit: "trade_step e w (trade_tradecommit e w a)"

inductive trade_steps :: "env \<Rightarrow> world \<Rightarrow> world \<Rightarrow> bool" for e where
  refl: "trade_steps e w w"
| step: "trade_steps e w v \<Longrightarrow> trade_step e v u \<Longrightarrow> trade_steps e w u"

definition trader_ok :: "env \<Rightarrow> int \<Rightarrow> map_session_data \<Rightarrow> bool" where
  "trader_ok e a p \<longleftrightarrow> inv_src_ok e p \<and> zeny_ok p \<and> deals_wf p \<and> (\<forall>d \<in> set (deal_items p). deal_amount d \<le> 30000) \<and> trade_partner p \<noteq> a"

definition world_ok :: "env \<Rightarrow> world \<Rightarrow> bool" where
  "world_ok e w \<longleftrightarrow> finite (dom w) \<and> w 0 = None \<and> (\<forall>a p. w a = Some p \<longrightarrow> trader_ok e a p)"

text \<open>The sum of a quantity over all players.\<close>

definition total :: "(map_session_data \<Rightarrow> int) \<Rightarrow> world \<Rightarrow> int" where
  "total f w = (\<Sum>a \<in> dom w. f (the (w a)))"

definition world_keeps :: "env \<Rightarrow> world \<Rightarrow> world \<Rightarrow> bool" where
  "world_keeps e w w' \<longleftrightarrow> (world_ok e w \<longrightarrow> world_ok e w' \<and> dom w' = dom w \<and> total zeny w' = total zeny w
     \<and> (\<forall>k. total (\<lambda>p. count_item k (inventory p)) w' = total (\<lambda>p. count_item k (inventory p)) w))"

lemma world_keeps_refl: "world_keeps e w w"
  by (simp add: world_keeps_def)

lemma world_keeps_trans: "world_keeps e w v \<Longrightarrow> world_keeps e v u \<Longrightarrow> world_keeps e w u"
  by (simp add: world_keeps_def)

lemma total_set: "finite (dom w) \<Longrightarrow> w a = Some p \<Longrightarrow> total f (w(a \<mapsto> q)) = total f w - f p + f q"
proof -
  assume a: "finite (dom w)" "w a = Some p"
  then have d: "a \<in> dom w" by blast
  have "total f (w(a \<mapsto> q)) = f q + (\<Sum>x \<in> dom w - {a}. f (the ((w(a \<mapsto> q)) x)))"
    unfolding total_def using a(1) by (simp add: sum.insert_remove)
  also have "(\<Sum>x \<in> dom w - {a}. f (the ((w(a \<mapsto> q)) x))) = (\<Sum>x \<in> dom w - {a}. f (the (w x)))"
    by (rule sum.cong) auto
  also have "\<dots> = total f w - f p" unfolding total_def using sum.remove [OF a(1) d, of "\<lambda>x. f (the (w x))"] a(2) by simp
  finally show ?thesis by linarith
qed

lemma keeps_set:
  assumes "w a = Some p" "trader_ok e a p \<Longrightarrow> trader_ok e a q" "same_goods p q"
  shows "world_keeps e w (w(a \<mapsto> q))"
proof -
  have "dom (w(a \<mapsto> q)) = dom w" using assms(1) by auto
  then show ?thesis using assms total_set [of w a p] by (auto simp: world_keeps_def world_ok_def same_goods_def)
qed

lemma keeps_upd:
  assumes "\<And>p. a \<noteq> 0 \<Longrightarrow> trader_ok e a p \<Longrightarrow> trader_ok e a (f p)" "\<And>p. same_goods p (f p)"
  shows "world_keeps e w (upd w a f)"
proof (cases "w a")
  case (Some p)
  then have "world_ok e w \<Longrightarrow> a \<noteq> 0" by (auto simp: world_ok_def)
  then show ?thesis using keeps_set [of w a p e "f p"] assms Some by (auto simp: upd_def world_keeps_def)
qed (simp add: upd_def world_keeps_refl)

lemma keeps_upd2:
  "world_keeps e w v \<Longrightarrow> (\<And>p. a \<noteq> 0 \<Longrightarrow> trader_ok e a p \<Longrightarrow> trader_ok e a (f p)) \<Longrightarrow> (\<And>p. same_goods p (f p))
    \<Longrightarrow> world_keeps e w (upd v a f)"
  by (rule world_keeps_trans) (auto intro: keeps_upd)

lemma trader_okI:
  assumes "trader_ok e a p" "same_goods p q" "length (deal_items q) = 10" "0 \<le> deal_zeny q"
    "\<forall>d \<in> set (deal_items q). deal_amount d = 0 \<or> d \<in> set (deal_items p)" "trade_partner q \<noteq> a"
  shows "trader_ok e a q"
  using assms same_goods_ok [OF assms(2), of e]
  by (auto simp: trader_ok_def same_goods_def zeny_ok_def deals_wf_def)

lemma trader_parts: "trader_ok e a p \<Longrightarrow> length (deal_items p) = 10 \<and> 0 \<le> deal_zeny p \<and> trade_partner p \<noteq> a"
  by (simp add: trader_ok_def deals_wf_def)

lemma no_partner_keeps: "a \<noteq> 0 \<Longrightarrow> trader_ok e a p \<Longrightarrow> trader_ok e a (p\<lparr>trade_partner := 0\<rparr>)"
  by (rule trader_okI) (auto simp: same_goods_def dest: trader_parts)

lemma reset_keeps: "a \<noteq> 0 \<Longrightarrow> trader_ok e a p \<Longrightarrow> trader_ok e a (trade_reset p)"
  by (rule trader_okI) (auto simp: same_goods_def trade_reset_def dest: trader_parts)

lemma begin_keeps: "trader_ok e a p \<Longrightarrow> trader_ok e a (trade_begin p)"
  by (rule trader_okI) (auto simp: same_goods_def trade_begin_def zero_deals_def dest: trader_parts)

lemma clear_keeps: "a \<noteq> 0 \<Longrightarrow> trader_ok e a p \<Longrightarrow> trader_ok e a (trade_clear p)"
  by (rule trader_okI) (auto simp: same_goods_def trade_clear_def dest: trader_parts)

lemma partner_keeps: "t \<noteq> a \<Longrightarrow> trader_ok e a p \<Longrightarrow> trader_ok e a (p\<lparr>trade_partner := t\<rparr>)"
  by (rule trader_okI) (auto simp: same_goods_def dest: trader_parts)

lemma same_goods_trade [simp]: "same_goods p (p\<lparr>trade_partner := t\<rparr>)" "same_goods p (trade_reset p)" "same_goods p (trade_begin p)"
  "same_goods p (trade_clear p)" "same_goods p (p\<lparr>st_isBoundTrading := b\<rparr>)"
  by (simp_all add: same_goods_def trade_reset_def trade_begin_def trade_clear_def)

lemma bound_keeps: "trader_ok e a p \<Longrightarrow> trader_ok e a (p\<lparr>st_isBoundTrading := b\<rparr>)"
  by (rule trader_okI) (auto simp: same_goods_def dest: trader_parts)

lemmas window_keeps = no_partner_keeps reset_keeps begin_keeps clear_keeps partner_keeps bound_keeps

lemma request_keeps: "world_keeps e w (trade_traderequest c w a t)"
proof -
  have u: "world_keeps e w v \<Longrightarrow> a \<noteq> t \<Longrightarrow> world_keeps e w (upd (upd v t (\<lambda>p. p\<lparr>trade_partner := a\<rparr>)) a (\<lambda>p. p\<lparr>trade_partner := t\<rparr>))" for v
    by (intro keeps_upd2) (auto intro: window_keeps)
  have n: "world_keeps e w (upd (upd w i (\<lambda>p. p\<lparr>trade_partner := 0\<rparr>)) a (\<lambda>p. p\<lparr>trade_partner := 0\<rparr>))" for i
    by (intro keeps_upd2 world_keeps_refl) (auto intro: window_keeps)
  show ?thesis unfolding trade_traderequest_def Let_def
    by (auto simp: world_keeps_refl n u split: option.splits)
qed

lemma ack_keeps: "world_keeps e w (trade_tradeack c w a ty)"
  unfolding trade_tradeack_def
  by (auto intro!: keeps_upd2 world_keeps_refl intro: window_keeps split: option.splits)

lemma cancel_keeps: "world_keeps e w (trade_tradecancel w a)"
  unfolding trade_tradecancel_def Let_def
  by (auto intro!: keeps_upd2 world_keeps_refl intro: window_keeps split: option.splits)

lemma addzeny_keeps: "world_keeps e w (trade_tradeaddzeny w a amt)"
proof -
  have "0 \<le> z \<Longrightarrow> trader_ok e a p \<Longrightarrow> trader_ok e a (p\<lparr>deal_zeny := z\<rparr>)" for z p
    by (rule trader_okI) (auto simp: same_goods_def dest: trader_parts)
  then show ?thesis unfolding trade_tradeaddzeny_def
    by (auto intro!: cancel_keeps world_keeps_refl keeps_set simp: same_goods_def split: option.splits)
qed

lemma locked_keeps: "trader_ok e a p \<Longrightarrow> trader_ok e a (p\<lparr>st_deal_locked := n\<rparr>)"
  by (rule trader_okI) (auto simp: same_goods_def dest: trader_parts)

lemma ok_keeps: "world_keeps e w (trade_tradeok w a)"
  unfolding trade_tradeok_def
  by (auto intro!: cancel_keeps world_keeps_refl keeps_set locked_keeps simp: same_goods_def split: option.splits)

lemma deal_put_goods: "same_goods p (deal_put p idx amt target)"
  unfolding deal_put_def Let_def same_goods_def by (intro conjI; split if_split; simp)

lemma deal_put_keeps:
  assumes "trader_ok e a p" "0 \<le> idx" "idx < int MAX_INVENTORY" "0 < amt" "amt \<le> amount (inventory p ! nat idx)"
    "expire_time (inventory p ! nat idx) = 0"
  shows "trader_ok e a (deal_put p idx amt target) \<and> same_goods p (deal_put p idx amt target)"
proof -
  have ok: "inv_src_ok e p" "deals_wf p" "\<forall>d \<in> set (deal_items p). deal_amount d \<le> 30000" "zeny_ok p"
    using assms(1) by (simp_all add: trader_ok_def)
  have "nat idx < length (inventory p)" using assms(2,3) ok(1) by (simp add: inv_length nat_less_iff)
  note D = deal_put_wf [OF ok(2) assms(2-5) inv_slots [OF ok(1) this] assms(6) ok(3), of target]
  have g: "same_goods p (deal_put p idx amt target)" using D by (rule conjunct1 [OF conjunct2])
  have "inv_src_ok e (deal_put p idx amt target)" "zeny_ok (deal_put p idx amt target)"
    using same_goods_ok [OF g, of e] g ok by (simp_all add: zeny_ok_def same_goods_def)
  then show ?thesis using D assms(1) by (simp add: trader_ok_def)
qed

lemma additem_keeps: "world_keeps e w (trade_tradeadditem e c w a idx amt)"
proof (cases "trade_tradeadditem e c w a idx amt = w \<or> trade_tradeadditem e c w a idx amt = trade_tradecancel w a")
  case True
  then show ?thesis by (auto simp: world_keeps_refl cancel_keeps)
next
  case False
  obtain sd where sd: "w a = Some sd" using False by (auto simp: trade_tradeadditem_def split: option.splits)
  obtain target where ta: "w (trade_partner sd) = Some target" using False sd by (auto simp: trade_tradeadditem_def split: option.splits if_splits)
  let ?i = "s16 (idx - 2)"
  let ?sd = "if bound (inventory sd ! nat ?i) \<noteq> 0
     then sd\<lparr>st_isBoundTrading := st_isBoundTrading sd OR 2 ^ nat (bound (inventory sd ! nat ?i))\<rparr> else sd"
  have c: "0 \<le> ?i" "?i < int MAX_INVENTORY" "0 < amt" "amt \<le> amount (inventory sd ! nat ?i)" "expire_time (inventory sd ! nat ?i) = 0"
    and r: "trade_tradeadditem e c w a idx amt = w(a \<mapsto> deal_put ?sd ?i amt target)"
    using False sd ta by (auto simp: trade_tradeadditem_def Let_def trade_may_offer_def split: if_splits)
  have i: "inventory ?sd = inventory sd" by simp
  show ?thesis unfolding r
  proof (rule keeps_set [of w a sd])
    show "w a = Some sd" by (rule sd)
  next
    assume "trader_ok e a sd"
    then have "trader_ok e a ?sd" using bound_keeps by simp
    from deal_put_keeps [OF this c(1-3)] c i show "trader_ok e a (deal_put ?sd ?i amt target)" by simp
  next
    have "same_goods ?sd (deal_put ?sd ?i amt target)" by (rule deal_put_goods)
    then show "same_goods sd (deal_put ?sd ?i amt target)" by (rule same_goods_trans [rotated]) (simp add: same_goods_def)
  qed
qed

lemma commit_keeps: "world_keeps e w (trade_tradecommit e w a)"
  unfolding world_keeps_def
proof (rule impI)
  assume wo: "world_ok e w"
  let ?g = "\<lambda>w'. world_ok e w' \<and> dom w' = dom w \<and> total zeny w' = total zeny w
     \<and> (\<forall>k. total (\<lambda>p. count_item k (inventory p)) w' = total (\<lambda>p. count_item k (inventory p)) w)"
  have keep: "world_keeps e w w' \<Longrightarrow> ?g w'" for w' using wo by (simp add: world_keeps_def)
  show "?g (trade_tradecommit e w a)"
  proof (cases "w a")
    case None
    then show ?thesis using keep [OF world_keeps_refl] by (simp add: trade_tradecommit_def)
  next
    case sd: (Some sd)
    let ?t = "trade_partner sd" and ?sd = "sd\<lparr>st_deal_locked := 2\<rparr>"
    let ?w = "w(a \<mapsto> ?sd)"
    have lk: "world_keeps e w ?w"
      by (rule keeps_set [of w a sd, OF sd]) (simp_all add: locked_keeps same_goods_def)
    have cl: "world_keeps e w (trade_tradecancel ?w i)" for i by (rule world_keeps_trans [OF lk cancel_keeps])
    have old: "trade_tradecommit e w a \<in> {w, trade_tradecancel w a, ?w, trade_tradecancel ?w a, trade_tradecancel ?w ?t} \<Longrightarrow> ?thesis"
      using keep [OF world_keeps_refl] keep [OF cancel_keeps] keep [OF lk] keep [OF cl] by (elim insertE emptyE) simp_all
    show ?thesis
    proof (cases "\<not> st_trading sd \<or> st_deal_locked sd = 0 \<or> w ?t = None")
      case True
      then show ?thesis by (intro old) (auto simp: trade_tradecommit_def sd)
    next
      case nl: False
      then obtain tsd where tsd: "w ?t = Some tsd" by auto
      have ta: "?t \<noteq> a" and ok: "trader_ok e a sd" "trader_ok e ?t tsd" using wo sd tsd by (auto simp: world_ok_def trader_ok_def)
      show ?thesis
      proof (cases "st_deal_locked tsd < 2 \<or> impossible_trade_check ?sd \<noteq> 0 \<or> impossible_trade_check tsd \<noteq> 0 \<or> \<not> trade_check e ?sd tsd")
        case True
        then show ?thesis using sd tsd nl by (intro old) (auto simp: trade_tradecommit_def Let_def)
      next
        case False
        obtain sd' tsd' where x: "trade_exec e (?sd, tsd) = (sd', tsd')" by (rule prod.exhaust)
        have F: "trade_fair e ?sd tsd sd' tsd' \<and> no_deals sd' \<and> no_deals tsd'"
          by (rule trade_exec_fair [OF _ _ _ _ _ _ _ _ _ x])
            (use False ok in \<open>simp_all add: trader_ok_def inv_src_ok_def inv_ok_def zeny_ok_def deals_wf_def\<close>)
        have r: "trade_tradecommit e w a = w(a \<mapsto> sd', ?t \<mapsto> tsd')"
          using sd tsd nl ta False x by (simp add: trade_tradecommit_def Let_def)
        have nz: "a \<noteq> 0" "?t \<noteq> 0" using wo sd tsd by (auto simp: world_ok_def)
        have ok': "trader_ok e a sd'" "trader_ok e ?t tsd'"
          using F nz by (auto simp: trade_fair_def trader_ok_def no_deals_def deals_wf_def)
        have fin: "finite (dom w)" using wo by (simp add: world_ok_def)
        have tot: "total f (w(a \<mapsto> sd', ?t \<mapsto> tsd')) = total f w - f sd + f sd' - f tsd + f tsd'" for f
          using total_set [OF fin sd, of f sd'] total_set [of "w(a \<mapsto> sd')" ?t tsd f tsd'] fin tsd ta by simp
        have "world_ok e (w(a \<mapsto> sd', ?t \<mapsto> tsd'))" using wo ok' nz by (auto simp: world_ok_def)
        moreover have "dom (w(a \<mapsto> sd', ?t \<mapsto> tsd')) = dom w" using sd tsd by auto
        moreover have "zeny sd' + zeny tsd' = zeny sd + zeny tsd"
          "count_item k (inventory sd') + count_item k (inventory tsd') = count_item k (inventory sd) + count_item k (inventory tsd)" for k
          using F by (simp_all add: trade_fair_def)
        ultimately show ?thesis unfolding r tot by (simp add: algebra_simps)
      qed
    qed
  qed
qed

lemma trade_step_keeps: "trade_step e w w' \<Longrightarrow> world_keeps e w w'"
  by (induction rule: trade_step.induct)
    (blast intro: request_keeps ack_keeps additem_keeps addzeny_keeps ok_keeps cancel_keeps commit_keeps)+

lemma trade_steps_keep: "trade_steps e w w' \<Longrightarrow> world_keeps e w w'"
  by (induction rule: trade_steps.induct) (blast intro: world_keeps_refl world_keeps_trans trade_step_keeps)+

end
