(* ===== verification/TestPlayer.thy ===== *)
theory TestPlayer imports TradeWorld begin

text \<open>
  A concrete player for the witnesses: ten apples in the first inventory slot and five in the first
  cart and storage slots, a database of one item, and equipment code that changes nothing.
\<close>

definition apple_data :: item_data where
  "apple_data = dummy_item\<lparr>id_nameid := 512, id_type := IT_HEALING, id_weight := 20\<rparr>"

definition apples :: "int \<Rightarrow> item" where
  "apples n = zero_item\<lparr>nameid := 512, amount := n\<rparr>"

definition test_env :: env where
  "test_env = \<lparr>env_db = [512 \<mapsto> apple_data], env_equip = (\<lambda>sd n p. sd), env_unequip = (\<lambda>sd n. sd), env_now = 1000\<rparr>"

definition test_player :: "int \<Rightarrow> map_session_data" where
  "test_player a = \<lparr>account_id = a, char_id = a + 1000, guild_id = 1, uniqueitem_counter = 0,
     inventory = apples 10 # replicate 99 zero_item, inventory_data = Some apple_data # replicate 99 None,
     last_addeditem_index = 0, weight = 200, max_weight = 20000,
     cart = apples 5 # replicate 99 zero_item, cart_num = 1, cart_weight = 100, cart_weight_max = 80000,
     storage_items = apples 5 # replicate 599 zero_item, storage_amount = 1, storage_size = 600,
     zeny = 1000, bank_vault = 500, cashPoints = 10, kafraPoints = 20,
     st_trading = False, st_deal_locked = 0, st_vending = False, st_buyingstore = False, st_storage_flag = 0,
     st_isBoundTrading = 0, trade_partner = 0, npc_id = 0, deal_items = zero_deals, deal_zeny = 0, deal_weight = 0,
     group_level = 0, can_give_items = True, can_give_bounded_items = False, cant_drop = False\<rparr>"

definition test_guild :: guild_storage where
  "test_guild = \<lparr>gs_dirty = False, gs_storage_amount = 1, gs_items = apples 5 # replicate 599 zero_item,
     gs_locked = False, gs_opened = 1001\<rparr>"

lemma apples_sel [simp]: "nameid (apples n) = 512" "amount (apples n) = n" "card (apples n) = [0, 0, 0, 0]"
  "expire_time (apples n) = 0" "bound (apples n) = 0"
  by (simp_all add: apples_def zero_item_def)

lemma apples_ok: "0 < n \<Longrightarrow> n \<le> 30000 \<Longrightarrow> slot_ok (apples n)"
  by (simp add: slot_ok_def MAX_AMOUNT_def)

lemma test_search [simp]: "itemdb_search (env_db test_env) 512 = apple_data"
  by (simp add: test_env_def itemdb_search_def dummy_item_def)

lemma apple_weight [simp]: "id_weight apple_data = 20"
  by (simp add: apple_data_def)

lemma slots_nth: "i < Suc n \<Longrightarrow> (a # replicate n z) ! i = (if i = 0 then a else z)"
  by (cases i) auto

lemma test_count: "count_item k (apples n # replicate m zero_item) = (if k = 512 then n else 0)"
  by (simp add: count_item_def sum_list_replicate)

lemma test_weight: "items_weight (env_db test_env) (apples n # replicate m zero_item) = 20 * n"
  by (simp add: items_weight_def sum_list_replicate)

lemma test_used: "used_slots (apples n # replicate m zero_item) = 1"
  by (simp add: used_slots_def sum_list_replicate)

lemma test_env_ok: "env_ok test_env"
  by (simp add: env_ok_def test_env_def)

lemma test_inv_ok: "inv_src_ok test_env (test_player a)"
proof -
  have "slot_ok ((apples 10 # replicate 99 zero_item) ! i)
      \<and> (Some apple_data # replicate 99 None) ! i = (if nameid ((apples 10 # replicate 99 zero_item) ! i) = 0 then None
         else Some (itemdb_search (env_db test_env) (nameid ((apples 10 # replicate 99 zero_item) ! i))))"
    if "i < MAX_INVENTORY" for i
    using that apples_ok [of 10] by (simp add: slots_nth MAX_INVENTORY_def)
  then show ?thesis using test_env_ok
    by (simp add: inv_src_ok_def inv_ok_def test_player_def test_weight MAX_INVENTORY_def u32_def)
qed

lemma test_cart_ok: "cart_ok test_env (test_player a)"
proof -
  have "slot_ok ((apples 5 # replicate 99 zero_item) ! i)" if "i < MAX_CART" for i
    using that apples_ok [of 5] by (simp add: slots_nth MAX_CART_def)
  then show ?thesis by (simp add: cart_ok_def test_player_def test_weight test_used MAX_CART_def s32_def)
qed

lemma test_box_ok: "box_ok 600 600 (apples 5 # replicate 599 zero_item) 1"
proof -
  have "slot_ok ((apples 5 # replicate 599 zero_item) ! i)" if "i < 600" for i
    using that apples_ok [of 5] by (simp add: slots_nth)
  then show ?thesis by (simp add: box_ok_def test_used)
qed

lemma test_player_ok: "player_ok test_env (test_player a)"
  using test_inv_ok test_cart_ok test_box_ok by (simp add: player_ok_def stor_ok_def test_player_def MAX_STORAGE_def)

lemma test_guild_ok: "guild_ok test_env (test_player a, test_guild)"
  using test_player_ok test_box_ok by (simp add: guild_ok_def gs_ok_def test_guild_def MAX_GUILD_STORAGE_def)

lemma test_player_sel [simp]: "zeny (test_player a) = 1000" "bank_vault (test_player a) = 500"
  "cashPoints (test_player a) = 10" "kafraPoints (test_player a) = 20" "trade_partner (test_player a) = 0"
  "inventory (test_player a) = apples 10 # replicate 99 zero_item" "cart (test_player a) = apples 5 # replicate 99 zero_item"
  "storage_items (test_player a) = apples 5 # replicate 599 zero_item" "deal_items (test_player a) = zero_deals"
  "deal_zeny (test_player a) = 0"
  by (simp_all add: test_player_def)

lemma test_trader_ok: "a \<noteq> 0 \<Longrightarrow> trader_ok test_env a (test_player a)"
  using test_inv_ok by (simp add: trader_ok_def zeny_ok_def MAX_ZENY_def deals_wf_def zero_deals_def)

lemma test_world_ok: "world_ok test_env [1 \<mapsto> test_player 1, 2 \<mapsto> test_player 2]"
  using test_trader_ok by (auto simp: world_ok_def)

end
