(* ===== verification/GoodsProps.thy ===== *)
theory GoodsProps imports TestPlayer begin

text \<open>
  The properties of inventories, money, carts and storages, each with an instance on the test player.
\<close>

section \<open>The inventory\<close>

text \<open>C19: \<open>pc_delitem\<close> succeeds exactly when the slot holds at least the positive amount asked for;
  then precisely that amount of that kind of item is gone from precisely that slot, its weight is taken
  off, and nothing outside the inventory changes; a refusal changes nothing.\<close>

theorem delitem_exact:
  assumes ok: "inv_ok e sd" "env_ok e" and n: "n < int MAX_INVENTORY" and d: "pc_delitem e sd n amt = (r, sd')"
  shows "(r = 0 \<longleftrightarrow> 0 \<le> n \<and> nameid (inventory sd ! nat n) \<noteq> 0 \<and> 0 < amt \<and> amt \<le> amount (inventory sd ! nat n))
    \<and> (if r \<noteq> 0 then sd' = sd
       else inv_ok e sd' \<and> inv_frame sd sd'
         \<and> (\<forall>k. count_item k (inventory sd') = count_item k (inventory sd) - (if k = nameid (inventory sd ! nat n) then amt else 0))
         \<and> (\<forall>j < MAX_INVENTORY. amount (inventory sd' ! j) = amount (inventory sd ! j) - (if j = nat n then amt else 0))
         \<and> weight sd' = u32 (weight sd - id_weight (itemdb_search (env_db e) (nameid (inventory sd ! nat n))) * amt))"
proof (cases "r = 0")
  case True
  then show ?thesis using delitem_result [OF ok(1) n d] delitem_ok [OF ok n, of amt sd'] d by simp
next
  case False
  then show ?thesis using delitem_result [OF ok(1) n d] delitem_fail [OF d] by simp
qed

theorem delitem_exact_witness:
  "fst (pc_delitem test_env (test_player 1) 0 3) = 0 \<and> fst (pc_delitem test_env (test_player 1) 0 11) \<noteq> 0"
  using delitem_exact [OF _ test_env_ok _ prod.collapse [symmetric], of "test_player 1" 0 3]
    delitem_exact [OF _ test_env_ok _ prod.collapse [symmetric], of "test_player 1" 0 11] test_inv_ok [of 1]
  by (simp add: inv_src_ok_def MAX_INVENTORY_def)

text \<open>C18: \<open>pc_additem\<close> of an item that is not an expired rental either refuses, leaving the player as it
  was but for the counter of unique ids, or adds exactly the amount of exactly that kind of item, keeps
  every slot well formed, never lowers another slot, and stays within the weight limit.\<close>

theorem additem_exact:
  assumes ok: "inv_ok e sd" "env_ok e" "item_ok e it" and a: "pc_additem e sd it amt = (r, it', sd')"
  shows "(\<exists>u. it' = it\<lparr>unique_id := u\<rparr>) \<and>
    (if r \<noteq> 0 then \<exists>n. sd' = sd\<lparr>uniqueitem_counter := n\<rparr>
     else inv_ok e sd' \<and> inv_frame sd sd' \<and> 0 < amt \<and> amt \<le> MAX_AMOUNT \<and> weight sd' \<le> max_weight sd
       \<and> (\<forall>k. count_item k (inventory sd') = count_item k (inventory sd) + (if k = nameid it then amt else 0))
       \<and> (\<forall>m < MAX_INVENTORY. amount (inventory sd ! m) \<le> amount (inventory sd' ! m)))"
proof (cases "r = 0")
  case True
  then show ?thesis using additem_ok [OF ok, of amt it' sd'] a by simp
next
  case False
  then show ?thesis using additem_fail [OF a] by simp
qed

theorem additem_exact_witness:
  "\<exists>it sd. pc_additem test_env (test_player 1) (apples 5) 5 = (0, it, sd) \<and> count_item 512 (inventory sd) = 15"
proof -
  obtain r it' sd' where a: "pc_additem test_env (test_player 1) (apples 5) 5 = (r, it', sd')" by (metis prod_cases3)
  have "fst (pc_additem test_env (test_player 1) (apples 5) 5) = 0" by code_simp
  then have r: "r = 0" using a by simp
  have "inv_ok test_env (test_player 1)" "item_ok test_env (apples 5)"
    using test_inv_ok by (simp_all add: inv_src_ok_def item_ok_def)
  then show ?thesis using additem_exact [OF _ test_env_ok _ a] a r by (auto simp: test_count)
qed

text \<open>C31: dropping conserves items: what \<open>pc_dropitem\<close> takes from the inventory lies on the floor, of
  the same kind and in the amount asked for, and when it refuses nothing changes at all.\<close>

theorem dropitem_conserves:
  assumes ok: "inv_ok e sd" "env_ok e" and d: "pc_dropitem e nodrop floor_ok sd n amt = (r, sd', fl)"
  shows "if \<not> r then sd' = sd \<and> fl = None
    else inv_ok e sd' \<and> (\<exists>it. fl = Some it \<and> amount it = amt \<and> nameid it = nameid (inventory sd ! nat n)
         \<and> card it = card (inventory sd ! nat n)
         \<and> (\<forall>k. count_item k (inventory sd') + count_item k [it] = count_item k (inventory sd)))"
proof (cases r)
  case False
  then show ?thesis using d by (auto simp: pc_dropitem_def Let_def split: if_splits)
next
  case True
  let ?it = "inventory sd ! nat n"
  have c: "0 \<le> n" "n < int MAX_INVENTORY" "0 < amt" "0 < nameid ?it" "amt \<le> amount ?it"
    and r: "sd' = snd (pc_delitem e sd n amt)" "fl = Some (?it\<lparr>amount := s16 amt\<rparr>)"
    using d True by (auto simp: pc_dropitem_def Let_def split: if_splits)
  obtain q where q: "pc_delitem e sd n amt = (q, sd')" using r(1) by (metis prod.collapse)
  have "q = 0" using delitem_result [OF ok(1) c(2) q] c by simp
  then have D: "pc_delitem e sd n amt = (0, sd')" using q by simp
  have "nat n < MAX_INVENTORY" using c by simp
  then have "slot_ok ?it" using inv_okD(3) [OF ok(1)] by blast
  then have "amount ?it \<le> 30000" using c(4) by (simp add: slot_ok_def MAX_AMOUNT_def)
  then have s: "s16 amt = amt" using c by (intro s16_id) auto
  show ?thesis using delitem_ok [OF ok c(2) D] r True s by (auto simp: count_item_def)
qed

theorem dropitem_conserves_witness:
  "\<exists>sd' it. pc_dropitem test_env False True (test_player 1) 0 4 = (True, sd', Some it)
     \<and> count_item 512 (inventory sd') + count_item 512 [it] = 10"
proof -
  have i: "inv_ok test_env (test_player 1)" using test_inv_ok by (simp add: inv_src_ok_def)
  obtain r sd' fl where d: "pc_dropitem test_env False True (test_player 1) 0 4 = (r, sd', fl)" by (metis prod_cases3)
  have "fst (pc_dropitem test_env False True (test_player 1) 0 4)" by code_simp
  then have r using d by simp
  then show ?thesis using dropitem_conserves [OF i test_env_ok d] d by (auto simp: test_count)
qed

section \<open>Money\<close>

text \<open>Paying and receiving zeny keep the purse between 0 and the limit; paying succeeds exactly when
  the amount is not negative and the player has it (an amount above the limit counts as the limit),
  receiving saturates at the limit, and refusals change nothing.\<close>

theorem zeny_exact:
  assumes "zeny_ok sd"
  shows "zeny_ok (snd (pc_payzeny sd z)) \<and> zeny_ok (snd (pc_getzeny sd z))
    \<and> (fst (pc_payzeny sd z) = 0 \<longleftrightarrow> 0 \<le> z \<and> min z MAX_ZENY \<le> zeny sd)
    \<and> snd (pc_payzeny sd z) = (if 0 \<le> z \<and> min z MAX_ZENY \<le> zeny sd then sd\<lparr>zeny := zeny sd - min z MAX_ZENY\<rparr> else sd)
    \<and> (fst (pc_getzeny sd z) = 0 \<longleftrightarrow> 0 \<le> z)
    \<and> snd (pc_getzeny sd z) = (if 0 \<le> z then sd\<lparr>zeny := min (zeny sd + z) MAX_ZENY\<rparr> else sd)"
  using assms by (auto simp: zeny_ok_def pc_payzeny_def pc_getzeny_def cap_value_def MAX_ZENY_def Let_def min_def)

theorem zeny_exact_witness: "zeny (snd (pc_payzeny (test_player 1) 300)) = 700 \<and> fst (pc_payzeny (test_player 1) 1001) \<noteq> 0"
  using zeny_exact [of "test_player 1" 300] zeny_exact [of "test_player 1" 1001] by (simp add: zeny_ok_def MAX_ZENY_def)

text \<open>C30: the bank never makes or loses zeny: a deposit or withdrawal succeeds exactly when the amount is
  positive, the paying side has it and the receiving side has room; it then moves the amount, the sum
  of purse and vault stays the same, and both stay within their limits although the code adds in
  32-bit arithmetic.\<close>

theorem bank_conserves:
  assumes "zeny_ok sd" "0 \<le> bank_vault sd" "bank_vault sd \<le> MAX_BANK_ZENY" "-2147483648 \<le> m" "m \<le> 2147483647"
  shows "(fst (pc_bank_deposit sd m) = BDA_SUCCESS \<longleftrightarrow> 0 < m \<and> m \<le> zeny sd \<and> bank_vault sd + m \<le> MAX_BANK_ZENY)
    \<and> snd (pc_bank_deposit sd m) = (if 0 < m \<and> m \<le> zeny sd \<and> bank_vault sd + m \<le> MAX_BANK_ZENY
         then sd\<lparr>zeny := zeny sd - m, bank_vault := bank_vault sd + m\<rparr> else sd)
    \<and> (fst (pc_bank_withdraw sd m) = BWA_SUCCESS \<longleftrightarrow> 0 < m \<and> m \<le> bank_vault sd \<and> zeny sd + m \<le> MAX_ZENY)
    \<and> snd (pc_bank_withdraw sd m) = (if 0 < m \<and> m \<le> bank_vault sd \<and> zeny sd + m \<le> MAX_ZENY
         then sd\<lparr>zeny := zeny sd + m, bank_vault := bank_vault sd - m\<rparr> else sd)"
proof -
  have z: "0 \<le> zeny sd" "zeny sd \<le> MAX_ZENY" using assms(1) by (simp_all add: zeny_ok_def)
  have b: "0 \<le> bank_vault sd" "bank_vault sd \<le> 2147483647" using assms(2,3) by (simp_all add: MAX_BANK_ZENY_def)
  have "0 < m \<Longrightarrow> u32 (m + bank_vault sd) = m + bank_vault sd" "0 < m \<Longrightarrow> u32 (m + zeny sd) = m + zeny sd"
    using z b assms(5) by (simp_all add: u32_def MAX_ZENY_def)
  moreover have "0 < m \<Longrightarrow> m \<le> zeny sd \<Longrightarrow> pc_payzeny sd m = (0, sd\<lparr>zeny := zeny sd - m\<rparr>)"
    using z by (simp add: payzeny_exact)
  moreover have "0 < m \<Longrightarrow> zeny sd + m \<le> MAX_ZENY \<Longrightarrow> pc_getzeny sd m = (0, sd\<lparr>zeny := zeny sd + m\<rparr>)"
    using z by (simp add: getzeny_exact)
  moreover have "0 < m \<Longrightarrow> bank_vault sd + m \<le> 2147483647 \<Longrightarrow> s32 (bank_vault sd + m) = bank_vault sd + m"
    "0 < m \<Longrightarrow> m \<le> bank_vault sd \<Longrightarrow> s32 (bank_vault sd - m) = bank_vault sd - m"
    using b by (simp_all add: s32_def)
  ultimately show ?thesis
    by (cases "0 < m") (auto simp: pc_bank_deposit_def pc_bank_withdraw_def Let_def MAX_BANK_ZENY_def add.commute)
qed

theorem bank_conserves_witness:
  "bank_vault (snd (pc_bank_deposit (test_player 1) 400)) = 900 \<and> zeny (snd (pc_bank_withdraw (test_player 1) 400)) = 1400"
  using bank_conserves [of "test_player 1" 400] by (simp add: zeny_ok_def MAX_ZENY_def MAX_BANK_ZENY_def)

text \<open>Cash points never go below zero or above the limit. A purchase that \<open>pc_paycash\<close> accepts
  takes exactly the price, from both accounts together, and a refused one takes nothing; \<open>pc_getcash\<close>
  reports what it added to an account.\<close>

theorem cash_exact:
  assumes c: "0 \<le> cashPoints sd" "cashPoints sd \<le> MAX_ZENY" "0 \<le> kafraPoints sd" "kafraPoints sd \<le> MAX_ZENY"
    and p: "pc_paycash sd price points = (r, sd')" and g: "pc_getcash sd cash pts = (q, sd'')"
  shows "0 \<le> cashPoints sd' \<and> 0 \<le> kafraPoints sd' \<and> (if r < 0 then sd' = sd else r = price
      \<and> cashPoints sd' + kafraPoints sd' = cashPoints sd + kafraPoints sd - price)
    \<and> cashPoints sd'' \<le> MAX_ZENY \<and> kafraPoints sd'' \<le> MAX_ZENY \<and> (if q < 0 then sd'' = sd
      else cashPoints sd'' + kafraPoints sd'' = cashPoints sd + kafraPoints sd + q)"
proof (rule conjI)
  show "0 \<le> cashPoints sd'" using p c by (auto simp: pc_paycash_def Let_def split: if_splits)
next
  have a: "0 \<le> kafraPoints sd' \<and> (if r < 0 then sd' = sd else r = price
      \<and> cashPoints sd' + kafraPoints sd' = cashPoints sd + kafraPoints sd - price)"
    using p c by (auto simp: pc_paycash_def Let_def split: if_splits)
  have "cashPoints sd'' \<le> MAX_ZENY \<and> kafraPoints sd'' \<le> MAX_ZENY \<and> (if q < 0 then sd'' = sd
      else cashPoints sd'' + kafraPoints sd'' = cashPoints sd + kafraPoints sd + q)"
    using g c by (auto simp: pc_getcash_def Let_def split: if_splits)
  then show "0 \<le> kafraPoints sd' \<and> (if r < 0 then sd' = sd else r = price
      \<and> cashPoints sd' + kafraPoints sd' = cashPoints sd + kafraPoints sd - price)
    \<and> cashPoints sd'' \<le> MAX_ZENY \<and> kafraPoints sd'' \<le> MAX_ZENY \<and> (if q < 0 then sd'' = sd
      else cashPoints sd'' + kafraPoints sd'' = cashPoints sd + kafraPoints sd + q)" using a by blast
qed

theorem cash_exact_witness: "cashPoints (snd (pc_paycash (test_player 1) 25 18)) = 3"
proof -
  have e: "pc_paycash (test_player 1) 25 18 = (25, (test_player 1)\<lparr>cashPoints := 3, kafraPoints := 2\<rparr>)"
    by (simp add: pc_paycash_def cap_value_def MAX_ZENY_def)
  have "cashPoints ((test_player 1)\<lparr>cashPoints := 3, kafraPoints := 2\<rparr>) + 2 = cashPoints (test_player 1) + kafraPoints (test_player 1) - 25"
    using cash_exact [OF _ _ _ _ e prod.collapse [symmetric], of 0 0] by (simp add: MAX_ZENY_def)
  then show ?thesis using e by simp
qed

end
