(* ===== verification/TradeProps.thy ===== *)
theory TradeProps imports TestPlayer begin

text \<open>
  The properties of carts, storages and trades, each with an instance on the test players.
\<close>

section \<open>Cart and storages\<close>

text \<open>As long as the cart holds no rental that has expired, moving items between inventory and cart
  conserves every kind of item, with both sides kept
  well formed and the storage untouched, whatever index and amount the client sends and whichever of
  the two operations refuses halfway.\<close>

theorem cart_moves_conserve:
  assumes "inv_src_ok e sd" "cart_ok e sd" "\<forall>it \<in> set (cart sd). not_expired e it"
  shows "inv_src_ok e (pc_putitemtocart e sd idx amt) \<and> cart_ok e (pc_putitemtocart e sd idx amt)
    \<and> storage_items (pc_putitemtocart e sd idx amt) = storage_items sd
    \<and> count_item k (inventory (pc_putitemtocart e sd idx amt)) + count_item k (cart (pc_putitemtocart e sd idx amt))
        = count_item k (inventory sd) + count_item k (cart sd)
    \<and> inv_src_ok e (pc_getitemfromcart e sd idx amt) \<and> cart_ok e (pc_getitemfromcart e sd idx amt)
    \<and> storage_items (pc_getitemfromcart e sd idx amt) = storage_items sd
    \<and> count_item k (inventory (pc_getitemfromcart e sd idx amt)) + count_item k (cart (pc_getitemfromcart e sd idx amt))
        = count_item k (inventory sd) + count_item k (cart sd)"
  using putitemtocart_ok [OF assms(1,2), of idx amt k] getitemfromcart_ok [OF assms(2,1,3), of idx amt k]
  by (simp add: stor_part_def)

theorem cart_moves_conserve_witness:
  "count_item 512 (inventory (pc_putitemtocart test_env (test_player 1) 0 4)) + count_item 512 (cart (pc_putitemtocart test_env (test_player 1) 0 4)) = 15"
proof -
  have l: "\<forall>it \<in> set (cart (test_player 1)). not_expired test_env it"
    by (auto simp: not_expired_def zero_item_def)
  show ?thesis using cart_moves_conserve [OF test_inv_ok test_cart_ok l, of 0 4 512] by (simp add: test_count)
qed

text \<open>C17: as long as no item in the storage is a rental that has expired (which \<open>pc_additem\<close> destroys), the
  four transfers of the personal storage keep inventory, cart and storage well formed and conserve every
  kind of item over the three of them, for any index and amount.\<close>

theorem storage_moves_conserve:
  assumes p: "player_ok e sd" and live: "\<forall>it \<in> set (storage_items sd). not_expired e it"
    and s: "sd' \<in> {storage_storageadd e sd idx amt, storage_storageget e sd idx amt,
                    storage_storageaddfromcart e sd idx amt, storage_storagegettocart e sd idx amt}"
  shows "player_ok e sd' \<and> owned k sd' = owned k sd"
  using s storageadd_ok [OF p, of idx amt k] storageget_ok [OF p live, of idx amt k]
    storageaddfromcart_ok [OF p, of idx amt k] storagegettocart_ok [OF p, of idx amt k] by blast

theorem storage_moves_conserve_witness:
  "owned 512 (storage_storageadd test_env (test_player 1) 0 4) = 20"
proof -
  have l: "\<forall>it \<in> set (storage_items (test_player 1)). not_expired test_env it"
    by (auto simp: not_expired_def zero_item_def)
  show ?thesis
    using storage_moves_conserve [OF test_player_ok l, of "storage_storageadd test_env (test_player 1) 0 4" 0 4 512]
    by (simp add: owned_def test_count)
qed

text \<open>C16: the same for the storage a guild shares: the four transfers conserve every kind of item over
  the player's inventory, cart, storage and the guild's, and keep all of them well formed; its items are
  not expired because it accepts no rentals.\<close>

theorem guild_moves_conserve:
  assumes p: "guild_ok e (sd, g)" and live: "\<forall>it \<in> set (gs_items g). not_expired e it"
    and s: "s' \<in> {gstorage_storageadd e (sd, g) idx amt, gstorage_storageget e (sd, g) idx amt,
                   gstorage_storageaddfromcart e (sd, g) idx amt, gstorage_storagegettocart e (sd, g) idx amt}"
  shows "guild_ok e s' \<and> guild_owned k s' = guild_owned k (sd, g)"
  using s gadd_ok [OF p, of idx amt k] gget_ok [OF p live, of idx amt k]
    gaddcart_ok [OF p, of idx amt k] ggetcart_ok [OF p, of idx amt k] by blast

theorem guild_moves_conserve_witness:
  "guild_owned 512 (gstorage_storageadd test_env (test_player 1, test_guild) 0 4) = 25"
proof -
  have l: "\<forall>it \<in> set (gs_items test_guild). not_expired test_env it"
    by (auto simp: not_expired_def zero_item_def test_guild_def)
  show ?thesis
    using guild_moves_conserve [OF test_guild_ok l, of "gstorage_storageadd test_env (test_player 1, test_guild) 0 4" 1 0 4 512]
    by (simp add: guild_owned_def owned_def test_count) (simp add: test_guild_def test_count)
qed

text \<open>While a guild storage is locked for the retrieval of bound items, the transfers through the
  inventory change none of its items, but those through the cart work as if it were not locked.\<close>

theorem guild_lock_only_inventory:
  assumes "gs_locked g"
  shows "gs_items (snd (gstorage_storageget e (sd, g) idx amt)) = gs_items g
    \<and> gs_items (snd (gstorage_storageadd e (sd, g) idx amt)) = gs_items g
    \<and> gstorage_storagegettocart e (sd, g) idx amt
        = apsnd (\<lambda>g. g\<lparr>gs_locked := True\<rparr>) (gstorage_storagegettocart e (sd, g\<lparr>gs_locked := False\<rparr>) idx amt)
    \<and> gstorage_storageaddfromcart e (sd, g) idx amt
        = apsnd (\<lambda>g. g\<lparr>gs_locked := True\<rparr>) (gstorage_storageaddfromcart e (sd, g\<lparr>gs_locked := False\<rparr>) idx amt)"
proof -
  have g: "g = g\<lparr>gs_locked := True\<rparr>" using assms by (cases g) simp
  have "gs_items (snd (gstorage_storageget e (sd, g) idx amt)) = gs_items g"
    "gs_items (snd (gstorage_storageadd e (sd, g) idx amt)) = gs_items g"
    using assms by (simp_all add: gstorage_storageget_def gstorage_storageadd_def gstorage_storageclose_def)
  moreover have "gstorage_storagegettocart e (sd, g\<lparr>gs_locked := True\<rparr>) idx amt
        = apsnd (\<lambda>g. g\<lparr>gs_locked := True\<rparr>) (gstorage_storagegettocart e (sd, g\<lparr>gs_locked := False\<rparr>) idx amt)"
    by (simp add: gstorage_storagegettocart_def gstorage_delitem_def Let_def split: option.split prod.split)
  moreover have "gstorage_storageaddfromcart e (sd, g\<lparr>gs_locked := True\<rparr>) idx amt
        = apsnd (\<lambda>g. g\<lparr>gs_locked := True\<rparr>) (gstorage_storageaddfromcart e (sd, g\<lparr>gs_locked := False\<rparr>) idx amt)"
    by (simp add: gstorage_storageaddfromcart_def gstorage_additem_def Let_def split: option.split prod.split)
  ultimately show ?thesis using g by simp
qed

theorem guild_lock_only_inventory_witness:
  "gs_items (snd (gstorage_storageget test_env (test_player 1, test_guild\<lparr>gs_locked := True\<rparr>) 0 2)) = gs_items test_guild"
  using guild_lock_only_inventory [of "test_guild\<lparr>gs_locked := True\<rparr>" test_env "test_player 1" 0 2] by simp

section \<open>Trades\<close>

definition test_ctx :: trade_ctx where
  "test_ctx = \<lparr>tc_notrade = False, tc_invited = False, tc_command = False, tc_near = True, tc_partner = False\<rparr>"

text \<open>C1: no sequence of trade packets, of any number of players trading with whomever they like, makes
  or loses an item or zeny: from a well-formed world the total of every kind of item and of zeny over
  all players is the same in every reachable world, which is well formed again.\<close>

theorem trades_conserve:
  assumes "world_ok e w" "trade_steps e w w'"
  shows "world_ok e w' \<and> dom w' = dom w \<and> total zeny w' = total zeny w
    \<and> (\<forall>k. total (\<lambda>p. count_item k (inventory p)) w' = total (\<lambda>p. count_item k (inventory p)) w)"
  using trade_steps_keep [OF assms(2)] assms(1) by (simp add: world_keeps_def)

theorem trades_conserve_witness:
  "total zeny (trade_tradeok (trade_traderequest test_ctx [1 \<mapsto> test_player 1, 2 \<mapsto> test_player 2] 1 2) 1) = 2000"
proof -
  let ?w = "[1 \<mapsto> test_player 1, 2 \<mapsto> test_player 2]"
  have s: "trade_steps test_env ?w (trade_tradeok (trade_traderequest test_ctx ?w 1 2) 1)"
    by (rule trade_steps.step [OF trade_steps.step [OF trade_steps.refl trade_step.request] trade_step.ok])
  have "total zeny ?w = 2000" by (simp add: total_def)
  then show ?thesis using trades_conserve [OF test_world_ok s] by simp
qed

text \<open>C14: a trade that both sides committed and that passes the checks exchanges exactly the offered
  zeny, leaves both windows empty and both players free, and moves items only between the two.\<close>

theorem trade_commit_exact:
  assumes w: "w a = Some sd" "w (trade_partner sd) = Some tsd" "trade_partner sd \<noteq> a"
    and ok: "trader_ok e a sd" "trader_ok e (trade_partner sd) tsd"
    and go: "st_trading sd" "st_deal_locked sd \<noteq> 0" "2 \<le> st_deal_locked tsd"
      "impossible_trade_check sd = 0" "impossible_trade_check tsd = 0" "trade_check e sd tsd"
  shows "\<exists>sd' tsd'. trade_tradecommit e w a = w(a \<mapsto> sd', trade_partner sd \<mapsto> tsd')
    \<and> trade_fair e sd tsd sd' tsd' \<and> no_deals sd' \<and> no_deals tsd'
    \<and> zeny sd' = zeny sd - deal_zeny sd + deal_zeny tsd \<and> zeny tsd' = zeny tsd - deal_zeny tsd + deal_zeny sd"
proof -
  let ?sd = "sd\<lparr>st_deal_locked := 2\<rparr>"
  have "impossible_trade_check ?sd = impossible_trade_check sd" "trade_check e ?sd tsd = trade_check e sd tsd"
    by (simp_all add: impossible_trade_check_def trade_check_def)
  then have go2: "impossible_trade_check ?sd = 0" "trade_check e ?sd tsd" using go by simp_all
  have ok2: "inv_src_ok e ?sd" "inv_src_ok e tsd" "zeny_ok ?sd" "zeny_ok tsd" "deals_wf ?sd" "deals_wf tsd"
    using ok by (simp_all add: trader_ok_def inv_src_ok_def inv_ok_def zeny_ok_def deals_wf_def)
  obtain sd' tsd' where x: "trade_exec e (?sd, tsd) = (sd', tsd')" by (rule prod.exhaust)
  have F: "trade_fair e ?sd tsd sd' tsd' \<and> no_deals sd' \<and> no_deals tsd'"
    by (rule trade_exec_fair [OF ok2 go2(1) go(5) go2(2) x])
  have "trade_tradecommit e w a = w(a \<mapsto> sd', trade_partner sd \<mapsto> tsd')"
    using w go go2 x by (simp add: trade_tradecommit_def Let_def)
  moreover have "zeny sd' = zeny ?sd - deal_zeny ?sd + deal_zeny tsd \<and> zeny tsd' = zeny tsd - deal_zeny tsd + deal_zeny ?sd"
    by (rule trade_exec_zeny [OF ok2 go2(1) go(5) go2(2) x])
  moreover have "trade_fair e sd tsd sd' tsd'" using F by (simp add: trade_fair_def)
  ultimately show ?thesis using F by (intro exI [of _ sd'] exI [of _ tsd']) simp
qed

text \<open>Two players who offer ten zeny and three apples for nothing, and have both committed.\<close>

definition seller :: map_session_data where
  "seller = (test_player 1)\<lparr>trade_partner := 2, st_trading := True, st_deal_locked := 1, deal_zeny := 10,
     deal_items := zero_deals[0 := \<lparr>deal_index = 0, deal_amount = 3\<rparr>]\<rparr>"

definition buyer :: map_session_data where
  "buyer = (test_player 2)\<lparr>trade_partner := 1, st_trading := True, st_deal_locked := 2\<rparr>"

lemma traders_ok: "trader_ok test_env 1 seller" "trader_ok test_env 2 buyer"
  using test_trader_ok [of 1] test_trader_ok [of 2] 
  by (auto simp: seller_def buyer_def trader_ok_def inv_src_ok_def inv_ok_def zeny_ok_def deals_wf_def zero_deals_def
      MAX_INVENTORY_def numeral_eq_Suc)

theorem trade_commit_exact_witness:
  "\<exists>sd' tsd'. trade_tradecommit test_env [1 \<mapsto> seller, 2 \<mapsto> buyer] 1 = [1 \<mapsto> seller, 2 \<mapsto> buyer](1 \<mapsto> sd', 2 \<mapsto> tsd') \<and> zeny sd' = 990 \<and> zeny tsd' = 1010"
proof -
  have c: "impossible_trade_check seller = 0" "impossible_trade_check buyer = 0" "trade_check test_env seller buyer"
    by code_simp+
  have p: "trade_partner seller = 2" "st_trading seller" "st_deal_locked seller \<noteq> 0" "2 \<le> st_deal_locked buyer"
    "zeny seller = 1000" "zeny buyer = 1000" "deal_zeny seller = 10" "deal_zeny buyer = 0"
    by (simp_all add: seller_def buyer_def)
  let ?w = "[1 \<mapsto> seller, 2 \<mapsto> buyer] :: world"
  have "?w 1 = Some seller" "?w (trade_partner seller) = Some buyer" "trade_partner seller \<noteq> 1" by (simp_all add: p)
  from trade_commit_exact [OF this traders_ok(1) _ p(2-4) c] traders_ok(2)
  show ?thesis unfolding p by (simp del: fun_upd_apply) blast
qed


text \<open>A function that behaves as \<open>qsort\<close> is documented to: insertion.\<close>

fun insert_by :: "(item \<Rightarrow> item \<Rightarrow> int) \<Rightarrow> item \<Rightarrow> item list \<Rightarrow> item list" where
  "insert_by cmp x [] = [x]"
| "insert_by cmp x (y # ys) = (if cmp x y \<le> 0 then x # y # ys else y # insert_by cmp x ys)"

lemma insert_by_set: "mset (insert_by cmp x ys) = add_mset x (mset ys)" "set (insert_by cmp x ys) = insert x (set ys)"
  by (induction ys) auto

lemma insert_by_sorted:
  assumes "\<And>a b. a \<in> insert x (set ys) \<Longrightarrow> b \<in> insert x (set ys) \<Longrightarrow> cmp a b < 0 \<longleftrightarrow> 0 < cmp b a"
    and "\<And>a b c. a \<in> insert x (set ys) \<Longrightarrow> b \<in> insert x (set ys) \<Longrightarrow> c \<in> insert x (set ys) \<Longrightarrow> cmp a b \<le> 0 \<Longrightarrow> cmp b c \<le> 0 \<Longrightarrow> cmp a c \<le> 0"
    and "sorted_wrt (\<lambda>a b. cmp a b \<le> 0) ys"
  shows "sorted_wrt (\<lambda>a b. cmp a b \<le> 0) (insert_by cmp x ys)"
  using assms
proof (induction ys)
  case (Cons y ys)
  have IH: "sorted_wrt (\<lambda>a b. cmp a b \<le> 0) (insert_by cmp x ys)"
  proof (rule Cons.IH)
    show "cmp a b < 0 \<longleftrightarrow> 0 < cmp b a" if "a \<in> insert x (set ys)" "b \<in> insert x (set ys)" for a b
      using Cons.prems(1) [of a b] that by auto
    show "cmp a c \<le> 0" if "a \<in> insert x (set ys)" "b \<in> insert x (set ys)" "c \<in> insert x (set ys)" "cmp a b \<le> 0" "cmp b c \<le> 0" for a b c
      using Cons.prems(2) [of a b c] that by auto
  qed (use Cons.prems(3) in simp)
  show ?case
  proof (cases "cmp x y \<le> 0")
    case True
    have "cmp x z \<le> 0" if z: "z \<in> set ys" for z
      using Cons.prems(2) [of x y z] Cons.prems(3) True z by simp
    then show ?thesis using Cons.prems(3) True by simp
  next
    case False
    then have "cmp y x \<le> 0" using Cons.prems(1) [of y x] by simp
    then show ?thesis using IH Cons.prems(3) False by (simp add: insert_by_set)
  qed
qed simp

lemma insertion_qsort: "qsort_ok (\<lambda>cmp xs. foldr (insert_by cmp) xs [])"
proof -
  have m: "mset (foldr (insert_by cmp) xs []) = mset xs" "set (foldr (insert_by cmp) xs []) = set xs" for cmp xs
    by (induction xs) (simp_all add: insert_by_set)
  have "(\<forall>a \<in> set xs. \<forall>b \<in> set xs. (cmp a b < 0 \<longleftrightarrow> 0 < cmp b a)
           \<and> (\<forall>c \<in> set xs. cmp a b \<le> 0 \<longrightarrow> cmp b c \<le> 0 \<longrightarrow> cmp a c \<le> 0)) \<Longrightarrow>
        sorted_wrt (\<lambda>a b. cmp a b \<le> 0) (foldr (insert_by cmp) xs [])" for cmp xs
  proof (induction xs)
    case (Cons x xs)
    have "\<forall>a \<in> set xs. \<forall>b \<in> set xs. (cmp a b < 0 \<longleftrightarrow> 0 < cmp b a)
           \<and> (\<forall>c \<in> set xs. cmp a b \<le> 0 \<longrightarrow> cmp b c \<le> 0 \<longrightarrow> cmp a c \<le> 0)"
      using Cons.prems unfolding list.set(2) by blast
    then have "sorted_wrt (\<lambda>a b. cmp a b \<le> 0) (foldr (insert_by cmp) xs [])" by (rule Cons.IH)
    then have "sorted_wrt (\<lambda>a b. cmp a b \<le> 0) (insert_by cmp x (foldr (insert_by cmp) xs []))"
    proof (rule insert_by_sorted [rotated 2])
      show "cmp a b < 0 \<longleftrightarrow> 0 < cmp b a"
        if "a \<in> insert x (set (foldr (insert_by cmp) xs []))" "b \<in> insert x (set (foldr (insert_by cmp) xs []))" for a b
        using bspec [OF bspec [OF Cons.prems, of a], of b] that by (simp add: m)
      show "cmp a c \<le> 0"
        if "a \<in> insert x (set (foldr (insert_by cmp) xs []))" "b \<in> insert x (set (foldr (insert_by cmp) xs []))"
          "c \<in> insert x (set (foldr (insert_by cmp) xs []))" "cmp a b \<le> 0" "cmp b c \<le> 0" for a b c
        using bspec [OF conjunct2 [OF bspec [OF bspec [OF Cons.prems, of a], of b]], of c] that by (simp add: m)
    qed
    then show ?case by simp
  qed simp
  then show ?thesis unfolding qsort_ok_def by (intro allI conjI impI) (rule m(1))
qed

text \<open>C39: opening a storage puts its slots in order without losing anything: the slots are a
  permutation of what they were, the storage stays well formed, and with the sort setting on the used
  slots come first, by ascending item id, whatever \<open>qsort\<close> does with equal ones.\<close>

theorem storage_open_sorts:
  assumes q: "qsort_ok qs" and ok: "stor_ok sd" "\<forall>it \<in> set (storage_items sd). 0 \<le> nameid it"
    and o: "storage_storageopen qs cs sd = (0, sd')"
  shows "mset (storage_items sd') = mset (storage_items sd) \<and> stor_ok sd' \<and> st_storage_flag sd' = 1
    \<and> (cs \<longrightarrow> (\<forall>i j. i < j \<longrightarrow> j < length (storage_items sd') \<longrightarrow>
          (nameid (storage_items sd' ! i) = 0 \<longrightarrow> nameid (storage_items sd' ! j) = 0)
          \<and> (nameid (storage_items sd' ! j) \<noteq> 0 \<longrightarrow> nameid (storage_items sd' ! i) \<le> nameid (storage_items sd' ! j))))"
proof -
  let ?l = "storage_sortitem qs cs (storage_items sd)"
  have sd': "sd' = sd\<lparr>st_storage_flag := 1, storage_items := ?l\<rparr>" using o by (auto simp: storage_storageopen_def split: if_splits)
  have b: "box_ok MAX_STORAGE (nat (storage_size sd)) (storage_items sd) (storage_amount sd)" using ok(1) by (simp add: stor_ok_def)
  note S = sortitem_ok [OF q b, of cs]
  have so: "\<forall>it \<in> set (storage_items sd). slot_ok it \<and> 0 \<le> nameid it"
    using b ok(2) by (auto simp: box_ok_def in_set_conv_nth)
  have "(nameid (?l ! i) = 0 \<longrightarrow> nameid (?l ! j) = 0) \<and> (nameid (?l ! j) \<noteq> 0 \<longrightarrow> nameid (?l ! i) \<le> nameid (?l ! j))"
    if cs and ij: "i < j" "j < length ?l" for i j
  proof -
    have c: "storage_comp_item (?l ! i) (?l ! j) \<le> 0"
      using sortitem_sorted [OF q so] that by (simp add: sorted_wrt_iff_nth_less)
    have "?l ! i \<in> set ?l" "?l ! j \<in> set ?l" using ij by simp_all
    moreover have "set ?l = set (storage_items sd)" using S by (metis set_mset_mset)
    ultimately have "slot_ok (?l ! i)" "slot_ok (?l ! j)" using so by auto
    then show ?thesis using c by (auto simp: storage_comp_item_def slot_ok_def split: if_splits)
  qed
  then show ?thesis using S ok(1) sd' by (simp add: stor_ok_def)
qed

theorem storage_open_sorts_witness:
  "\<exists>sd'. storage_storageopen (\<lambda>cmp xs. foldr (insert_by cmp) xs []) True (test_player 1) = (0, sd')
     \<and> mset (storage_items sd') = mset (storage_items (test_player 1))"
proof -
  obtain sd' where o: "storage_storageopen (\<lambda>cmp xs. foldr (insert_by cmp) xs []) True (test_player 1) = (0, sd')"
    by (simp add: storage_storageopen_def test_player_def)
  have "stor_ok (test_player 1)" using test_player_ok by (simp add: player_ok_def)
  from storage_open_sorts [OF insertion_qsort this _ o] o show ?thesis by auto
qed

end
