(* ===== verification/Quest.thy ===== *)
theory Quest imports Rathena_Prelude begin

text \<open>
  The quest log of a player (\<^verbatim>\<open>src/map/quest.c\<close>, and \<open>intif_parse_questlog\<close> of
  \<^verbatim>\<open>src/map/intif.c\<close>, which fills it at login). The log is one array with \<open>num_quests\<close>
  entries; the first \<open>avail_quests\<close> are not complete and the complete ones follow. The database is
  the map that \<open>idb_get\<close> searches; \<open>now\<close> is \<open>time(NULL)\<close>; \<open>junk\<close> is what a grown array
  holds before it is written.
\<close>

definition MAX_QUEST_OBJECTIVES :: nat where "MAX_QUEST_OBJECTIVES = 3"

datatype quest_state = Q_INACTIVE | Q_ACTIVE | Q_COMPLETE

datatype quest_check_type = HAVEQUEST | PLAYTIME | HUNTING

record quest =
  qu_id :: int
  qu_time :: int
  qu_count :: "int list"
  qu_state :: quest_state

record quest_db =
  qd_id :: int
  qd_time :: int
  qd_mob :: "int list"
  qd_count :: "int list"
  qd_num_objectives :: nat

record quest_pc =
  num_quests :: nat
  avail_quests :: nat
  quest_log :: "quest list"
  save_quest :: bool

type_synonym questdb = "int \<Rightarrow> quest_db option"

definition zero_quest :: quest where
  "zero_quest = \<lparr>qu_id = 0, qu_time = 0, qu_count = [0, 0, 0], qu_state = Q_INACTIVE\<rparr>"

definition quest_dummy :: quest_db where
  "quest_dummy = \<lparr>qd_id = 0, qd_time = 0, qd_mob = [0, 0, 0], qd_count = [0, 0, 0], qd_num_objectives = 0\<rparr>"

definition quest_search :: "questdb \<Rightarrow> int \<Rightarrow> quest_db" where
  "quest_search db qid = (case db qid of None \<Rightarrow> quest_dummy | Some q \<Rightarrow> q)"

text \<open>\<open>RECREATE\<close> and \<open>memmove\<close> on the array.\<close>

definition recreate :: "quest \<Rightarrow> quest list \<Rightarrow> nat \<Rightarrow> quest list" where
  "recreate junk l n = take n l @ replicate (n - length l) junk"

definition mem_move :: "'a list \<Rightarrow> nat \<Rightarrow> nat \<Rightarrow> nat \<Rightarrow> 'a list" where
  "mem_move l dst src cnt = take dst l @ take cnt (drop src l) @ drop (dst + cnt) l"

section \<open>The operations\<close>

definition state_val :: "quest_state \<Rightarrow> int" where
  "state_val s = (case s of Q_INACTIVE \<Rightarrow> 0 | Q_ACTIVE \<Rightarrow> 1 | Q_COMPLETE \<Rightarrow> 2)"

definition quest_check :: "questdb \<Rightarrow> int \<Rightarrow> quest_pc \<Rightarrow> int \<Rightarrow> quest_check_type \<Rightarrow> int" where
  "quest_check db now sd qid ty =
     (let i = arr_find 0 (num_quests sd) (\<lambda>i. qu_id (quest_log sd ! i) = qid); q = quest_log sd ! i in
      if i = num_quests sd then -1
      else
        (case ty of
           HAVEQUEST \<Rightarrow> state_val (qu_state q)
         | PLAYTIME \<Rightarrow> (if qu_time q < u32 now then 2 else if qu_state q = Q_COMPLETE then 1 else 0)
         | HUNTING \<Rightarrow>
             (if qu_state q = Q_INACTIVE \<or> qu_state q = Q_ACTIVE then
                (let j = arr_find 0 MAX_QUEST_OBJECTIVES (\<lambda>j. qu_count q ! j < qd_count (quest_search db (qu_id q)) ! j) in
                 if j = MAX_QUEST_OBJECTIVES then 2 else if qu_time q < u32 now then 1 else 0)
              else 0)))"

text \<open>An entry for a quest that starts now.\<close>

definition new_quest :: "int \<Rightarrow> quest_db \<Rightarrow> quest" where
  "new_quest now qi = zero_quest\<lparr>qu_id := qd_id qi, qu_time := (if qd_time qi \<noteq> 0 then u32 (now + qd_time qi) else 0),
     qu_state := Q_ACTIVE\<rparr>"

definition quest_add :: "quest \<Rightarrow> questdb \<Rightarrow> int \<Rightarrow> quest_pc \<Rightarrow> int \<Rightarrow> int \<times> quest_pc" where
  "quest_add junk db now sd qid =
     (case db qid of
        None \<Rightarrow> (-1, sd)
      | Some qi \<Rightarrow>
          if quest_check db now sd qid HAVEQUEST \<ge> 0 then (-1, sd)
          else
            (let n = avail_quests sd; num = num_quests sd + 1; avail = avail_quests sd + 1;
                 l = recreate junk (quest_log sd) num;
                 l = (if avail \<noteq> num then mem_move l (n + 1) n (num - avail) else l);
                 l = l[n := new_quest now qi]
             in (0, \<lparr>num_quests = num, avail_quests = avail, quest_log = l, save_quest = True\<rparr>)))"

definition quest_change :: "questdb \<Rightarrow> int \<Rightarrow> quest_pc \<Rightarrow> int \<Rightarrow> int \<Rightarrow> int \<times> quest_pc" where
  "quest_change db now sd qid1 qid2 =
     (case db qid2 of
        None \<Rightarrow> (-1, sd)
      | Some qi \<Rightarrow>
          if quest_check db now sd qid2 HAVEQUEST \<ge> 0 then (-1, sd)
          else if quest_check db now sd qid1 HAVEQUEST < 0 then (-1, sd)
          else
            (let i = arr_find 0 (avail_quests sd) (\<lambda>i. qu_id (quest_log sd ! i) = qid1) in
             if i = avail_quests sd then (-1, sd)
             else (0, sd\<lparr>quest_log := (quest_log sd)[i := new_quest now qi], save_quest := True\<rparr>)))"

definition quest_delete :: "quest \<Rightarrow> quest_pc \<Rightarrow> int \<Rightarrow> int \<times> quest_pc" where
  "quest_delete junk sd qid =
     (let i = arr_find 0 (num_quests sd) (\<lambda>i. qu_id (quest_log sd ! i) = qid) in
      if i = num_quests sd then (-1, sd)
      else
        (let avail = (if qu_state (quest_log sd ! i) \<noteq> Q_COMPLETE then avail_quests sd - 1 else avail_quests sd);
             num = num_quests sd - 1;
             l = (if i < num then mem_move (quest_log sd) i (i + 1) (num - i) else quest_log sd);
             l = (if num = 0 then [] else recreate junk l num)
         in (0, \<lparr>num_quests = num, avail_quests = avail, quest_log = l, save_quest = True\<rparr>)))"

text \<open>One objective, one quest, all quests: a kill of \<open>mob\<close>.\<close>

definition objective_step :: "quest_db \<Rightarrow> int \<Rightarrow> nat \<Rightarrow> quest_pc \<Rightarrow> nat \<Rightarrow> quest_pc" where
  "objective_step qi mob i sd j =
     (let q = quest_log sd ! i in
      if qd_mob qi ! j = mob \<and> qu_count q ! j < qd_count qi ! j
      then sd\<lparr>quest_log := (quest_log sd)[i := q\<lparr>qu_count := (qu_count q)[j := qu_count q ! j + 1]\<rparr>], save_quest := True\<rparr>
      else sd)"

definition quest_step :: "questdb \<Rightarrow> int \<Rightarrow> quest_pc \<Rightarrow> nat \<Rightarrow> quest_pc" where
  "quest_step db mob sd i =
     (if qu_state (quest_log sd ! i) \<noteq> Q_ACTIVE then sd
      else let qi = quest_search db (qu_id (quest_log sd ! i))
           in foldl (objective_step qi mob i) sd [0..<qd_num_objectives qi])"

definition quest_update_objective :: "questdb \<Rightarrow> int \<Rightarrow> quest_pc \<Rightarrow> quest_pc" where
  "quest_update_objective db mob sd = foldl (quest_step db mob) sd [0..<avail_quests sd]"

definition quest_update_objective_sub :: "questdb \<Rightarrow> int \<Rightarrow> bool \<Rightarrow> quest_pc \<Rightarrow> int \<times> quest_pc" where
  "quest_update_objective_sub db mob same_party sd =
     (if avail_quests sd = 0 then (0, sd)
      else if \<not> same_party then (0, sd)
      else (1, quest_update_objective db mob sd))"

definition quest_update_status :: "quest_pc \<Rightarrow> int \<Rightarrow> quest_state \<Rightarrow> int \<times> quest_pc" where
  "quest_update_status sd qid status =
     (let i = arr_find 0 (avail_quests sd) (\<lambda>i. qu_id (quest_log sd ! i) = qid) in
      if i = avail_quests sd then (-1, sd)
      else
        (let sd = sd\<lparr>quest_log := (quest_log sd)[i := (quest_log sd ! i)\<lparr>qu_state := status\<rparr>], save_quest := True\<rparr> in
         if status \<noteq> Q_COMPLETE then (0, sd)
         else
           (let a = avail_quests sd - 1; l = quest_log sd;
                l = (if i < a then l[i := l ! a, a := l ! i] else l)
            in (0, sd\<lparr>avail_quests := a, quest_log := l\<rparr>))))"

text \<open>After the database was reloaded, entries without a database entry are squeezed out.\<close>

fun reload_loop :: "questdb \<Rightarrow> nat \<Rightarrow> nat \<Rightarrow> nat \<Rightarrow> quest list \<Rightarrow> nat \<times> quest list" where
  "reload_loop db 0 i j l = (j, l)"
| "reload_loop db (Suc n) i j l =
     (if db (qu_id (l ! i)) = None then reload_loop db n (Suc i) j l
      else reload_loop db n (Suc i) (Suc j) (if i \<noteq> j then l[j := l ! i] else l))"

definition quest_reload_check_sub :: "questdb \<Rightarrow> quest_pc \<Rightarrow> quest_pc" where
  "quest_reload_check_sub db sd =
     (let (j, l) = reload_loop db (num_quests sd) 0 0 (quest_log sd)
      in sd\<lparr>num_quests := j, quest_log := l, avail_quests := arr_find 0 j (\<lambda>i. qu_state (l ! i) = Q_COMPLETE)\<rparr>)"

section \<open>The log that arrives at login\<close>

text \<open>The loop over the received entries: those not complete fill the array from the front, the
  complete ones from the back.\<close>

fun parse_loop :: "questdb \<Rightarrow> quest list \<Rightarrow> nat \<Rightarrow> nat \<Rightarrow> nat \<Rightarrow> quest list \<Rightarrow> nat \<times> nat \<times> nat \<times> quest list" where
  "parse_loop db [] avail k num l = (avail, k, num, l)"
| "parse_loop db (q # qs) avail k num l =
     (if db (qu_id q) = None then parse_loop db qs avail k num l
      else if qu_state q \<noteq> Q_COMPLETE then parse_loop db qs (Suc avail) k (Suc num) (l[avail := q])
      else parse_loop db qs avail (k - 1) (Suc num) (l[k - 1 := q]))"

definition intif_parse_questlog :: "quest \<Rightarrow> questdb \<Rightarrow> quest_pc \<Rightarrow> quest list \<Rightarrow> quest_pc" where
  "intif_parse_questlog junk db sd received =
     (if received = [] then sd\<lparr>num_quests := 0, avail_quests := 0, quest_log := []\<rparr>
      else
        (let n = length received;
             l0 = (if quest_log sd \<noteq> [] then recreate junk (quest_log sd) n else replicate n zero_quest);
             (avail, k, num, l) = parse_loop db received 0 n 0 l0;
             l = (if avail < k then take num (if k < n then mem_move l k avail (n - k) else l) else l)
         in sd\<lparr>num_quests := num, avail_quests := avail, quest_log := l\<rparr>))"

end
