(* ===== verification/QuestOps.thy ===== *)
theory QuestOps imports Quest begin

text \<open>
  The quest log implements a map from quest ids to entries: its array layout is an invariant of every
  operation, and every operation is the map operation it stands for.
\<close>

section \<open>The layout\<close>

definition quests :: "quest_pc \<Rightarrow> quest list" where
  "quests sd = take (num_quests sd) (quest_log sd)"

definition layout :: "quest list \<Rightarrow> nat \<Rightarrow> bool" where
  "layout l a \<longleftrightarrow> a \<le> length l \<and> distinct (map qu_id l) \<and> (\<forall>i < length l. qu_state (l ! i) = Q_COMPLETE \<longleftrightarrow> a \<le> i)"

definition quest_ok :: "quest_pc \<Rightarrow> bool" where
  "quest_ok sd \<longleftrightarrow> num_quests sd \<le> length (quest_log sd) \<and> layout (quests sd) (avail_quests sd)"

definition questdb_ok :: "questdb \<Rightarrow> bool" where
  "questdb_ok db \<longleftrightarrow> (\<forall>k q. db k = Some q \<longrightarrow> qd_id q = k)"

text \<open>The abstract log.\<close>

definition quest_map :: "quest_pc \<Rightarrow> int \<Rightarrow> quest option" where
  "quest_map sd = map_of (map (\<lambda>q. (qu_id q, q)) (quests sd))"

lemma length_quests: "quest_ok sd \<Longrightarrow> length (quests sd) = num_quests sd"
  by (simp add: quest_ok_def quests_def)

lemma nth_quests: "quest_ok sd \<Longrightarrow> i < num_quests sd \<Longrightarrow> quests sd ! i = quest_log sd ! i"
  by (simp add: quest_ok_def quests_def)

lemma avail_le: "quest_ok sd \<Longrightarrow> avail_quests sd \<le> num_quests sd"
  by (metis layout_def length_quests quest_ok_def)

lemma map_some_iff: "distinct (map qu_id l) \<Longrightarrow> map_of (map (\<lambda>q. (qu_id q, q)) l) k = Some q \<longleftrightarrow> q \<in> set l \<and> qu_id q = k"
  by (subst map_of_eq_Some_iff) (auto simp: comp_def)

lemma quest_map_iff: "quest_ok sd \<Longrightarrow> quest_map sd k = Some q \<longleftrightarrow> q \<in> set (quests sd) \<and> qu_id q = k"
  unfolding quest_map_def by (rule map_some_iff) (simp add: quest_ok_def layout_def)

lemma quest_map_none: "quest_map sd k = None \<longleftrightarrow> (\<forall>q \<in> set (quests sd). qu_id q \<noteq> k)"
  by (simp add: quest_map_def map_of_eq_None_iff image_image) (auto simp: image_iff)

lemma quest_map_eqI:
  assumes "quest_ok sd'" "\<And>q. q \<in> set (quests sd') \<longleftrightarrow> m (qu_id q) = Some q" "\<And>k q. m k = Some q \<Longrightarrow> qu_id q = k"
  shows "quest_map sd' = m"
proof
  fix k
  show "quest_map sd' k = m k"
  proof (cases "m k")
    case None
    then have "quest_map sd' k = None" using assms(2) by (auto simp: quest_map_none)
    then show ?thesis using None by simp
  next
    case (Some q)
    then show ?thesis using quest_map_iff [OF assms(1), of k q] assms(2,3) by simp
  qed
qed

text \<open>The search for an id among the first \<open>n\<close> entries.\<close>

lemma find_quest:
  assumes ok: "quest_ok sd" and n: "n \<le> num_quests sd"
  shows "arr_find 0 n (\<lambda>i. qu_id (quest_log sd ! i) = k) = n \<longleftrightarrow> (\<forall>i < n. qu_id (quests sd ! i) \<noteq> k)"
    and "arr_find 0 n (\<lambda>i. qu_id (quest_log sd ! i) = k) \<noteq> n \<Longrightarrow>
      arr_find 0 n (\<lambda>i. qu_id (quest_log sd ! i) = k) < n
      \<and> quest_map sd k = Some (quests sd ! arr_find 0 n (\<lambda>i. qu_id (quest_log sd ! i) = k))"
proof -
  let ?P = "\<lambda>i. qu_id (quest_log sd ! i) = k"
  show "arr_find 0 n ?P = n \<longleftrightarrow> (\<forall>i < n. qu_id (quests sd ! i) \<noteq> k)"
    using arr_find_none_iff [of 0 n ?P] nth_quests [OF ok] n by auto
  assume ne: "arr_find 0 n ?P \<noteq> n"
  have "arr_find 0 n ?P \<le> n" by (rule arr_find_le) simp
  then have lt: "arr_find 0 n ?P < n" using ne by simp
  have "?P (arr_find 0 n ?P)" by (rule arr_find_holds [OF _ lt]) simp
  moreover have "arr_find 0 n ?P < num_quests sd" using lt n by simp
  ultimately have "qu_id (quests sd ! arr_find 0 n ?P) = k" "quests sd ! arr_find 0 n ?P \<in> set (quests sd)"
    using nth_quests [OF ok] length_quests [OF ok] nth_mem [of "arr_find 0 n ?P" "quests sd"] by simp_all
  then show "arr_find 0 n ?P < n \<and> quest_map sd k = Some (quests sd ! arr_find 0 n ?P)"
    using lt quest_map_iff [OF ok] by blast
qed

lemma quest_check_have:
  assumes ok: "quest_ok sd"
  shows "quest_check db now sd k HAVEQUEST = (case quest_map sd k of None \<Rightarrow> -1 | Some q \<Rightarrow> state_val (qu_state q))"
proof (cases "arr_find 0 (num_quests sd) (\<lambda>i. qu_id (quest_log sd ! i) = k) = num_quests sd")
  case True
  then have "\<forall>i < num_quests sd. qu_id (quests sd ! i) \<noteq> k" using find_quest(1) [OF ok order_refl] by simp
  then have "quest_map sd k = None" using length_quests [OF ok] by (auto simp: quest_map_none in_set_conv_nth)
  then show ?thesis using True by (simp add: quest_check_def Let_def)
next
  case False
  then show ?thesis using find_quest(2) [OF ok order_refl False] nth_quests [OF ok] by (simp add: quest_check_def Let_def)
qed

lemma state_val_pos: "0 \<le> state_val s"
  by (simp add: state_val_def split: quest_state.split)

lemma have_iff: "quest_ok sd \<Longrightarrow> quest_check db now sd k HAVEQUEST \<ge> 0 \<longleftrightarrow> quest_map sd k \<noteq> None"
  by (simp add: quest_check_have state_val_pos split: option.splits)

text \<open>An id among the entries that are not complete.\<close>

lemma avail_find:
  assumes ok: "quest_ok sd"
  shows "arr_find 0 (avail_quests sd) (\<lambda>i. qu_id (quest_log sd ! i) = k) \<noteq> avail_quests sd
    \<longleftrightarrow> (\<exists>q. quest_map sd k = Some q \<and> qu_state q \<noteq> Q_COMPLETE)"
proof -
  let ?P = "\<lambda>i. qu_id (quest_log sd ! i) = k" and ?a = "avail_quests sd"
  have le: "?a \<le> num_quests sd" by (rule avail_le [OF ok])
  have st: "i < num_quests sd \<Longrightarrow> qu_state (quests sd ! i) = Q_COMPLETE \<longleftrightarrow> ?a \<le> i" for i
    using ok length_quests [OF ok] by (simp add: quest_ok_def layout_def)
  show ?thesis
  proof (cases "arr_find 0 ?a ?P = ?a")
    case True
    then have no: "\<forall>i < ?a. qu_id (quests sd ! i) \<noteq> k" using find_quest(1) [OF ok le] by simp
    have "qu_state q = Q_COMPLETE" if q: "quest_map sd k = Some q" for q
    proof -
      have "q \<in> set (quests sd)" "qu_id q = k" using q quest_map_iff [OF ok] by auto
      then obtain i where "i < num_quests sd" "quests sd ! i = q" using length_quests [OF ok] by (metis in_set_conv_nth)
      then show ?thesis using st no \<open>qu_id q = k\<close> by (metis not_le)
    qed
    then show ?thesis using True by auto
  next
    case False
    then show ?thesis using find_quest(2) [OF ok le False] st [of "arr_find 0 ?a ?P"] le by auto
  qed
qed

section \<open>Lists with the layout\<close>

lemma layout_states: "layout l a \<Longrightarrow> i < length l \<Longrightarrow> qu_state (l ! i) = Q_COMPLETE \<longleftrightarrow> a \<le> i"
  by (simp add: layout_def)

lemma layout_insert:
  assumes l: "layout l a" and q: "qu_id q \<notin> qu_id ` set l" "qu_state q \<noteq> Q_COMPLETE"
  shows "layout (take a l @ q # drop a l) (Suc a)"
proof -
  have a: "a \<le> length l" and d: "distinct (map qu_id l)" using l by (simp_all add: layout_def)
  have "map qu_id l = map qu_id (take a l) @ map qu_id (drop a l)" by (metis append_take_drop_id map_append)
  then have "distinct (map qu_id (take a l) @ map qu_id (drop a l))" using d by simp
  moreover have "qu_id q \<notin> set (map qu_id (take a l))" "qu_id q \<notin> set (map qu_id (drop a l))"
    using q(1) set_take_subset [of a l] set_drop_subset [of a l] by auto
  ultimately have "distinct (map qu_id (take a l @ q # drop a l))" by simp
  moreover have "qu_state ((take a l @ q # drop a l) ! i) = Q_COMPLETE \<longleftrightarrow> Suc a \<le> i" if i: "i < Suc (length l)" for i
    using a i q(2) layout_states [OF l] by (cases "i < a"; cases "i = a") (auto simp: nth_append nth_Cons')
  ultimately show ?thesis using a by (simp add: layout_def)
qed

lemma layout_delete:
  assumes l: "layout l a" and i: "i < length l"
  shows "layout (take i l @ drop (Suc i) l) (if qu_state (l ! i) \<noteq> Q_COMPLETE then a - 1 else a)"
proof -
  have a: "a \<le> length l" and d: "distinct (map qu_id l)" using l by (simp_all add: layout_def)
  have "map qu_id l = map qu_id (take i l) @ qu_id (l ! i) # map qu_id (drop (Suc i) l)"
    using id_take_nth_drop [OF i] by (metis map_append list.map(2))
  then have "distinct (map qu_id (take i l @ drop (Suc i) l))" using d by (metis distinct.simps(2) distinct_append map_append disjoint_insert(1) list.simps(15))
  moreover have "qu_state ((take i l @ drop (Suc i) l) ! j) = Q_COMPLETE \<longleftrightarrow> (if qu_state (l ! i) \<noteq> Q_COMPLETE then a - 1 else a) \<le> j"
    if j: "j < length l - 1" for j
  proof -
    have "(take i l @ drop (Suc i) l) ! j = l ! (if j < i then j else Suc j)" using i j by (auto simp: nth_append)
    moreover have "qu_state (l ! (if j < i then j else Suc j)) = Q_COMPLETE \<longleftrightarrow> a \<le> (if j < i then j else Suc j)"
      using layout_states [OF l, of "if j < i then j else Suc j"] i j by auto
    ultimately show ?thesis using layout_states [OF l i] i j by auto
  qed
  ultimately show ?thesis using a i layout_states [OF l i] by (auto simp: layout_def)
qed

lemma layout_upd:
  assumes l: "layout l a" and i: "i < length l" and q: "qu_id q \<notin> qu_id ` (set l - {l ! i})" "qu_state q = Q_COMPLETE \<longleftrightarrow> a \<le> i"
  shows "layout (l[i := q]) a"
proof -
  have d: "distinct (map qu_id l)" using l by (simp add: layout_def)
  have "distinct ((map qu_id l)[i := qu_id q])"
  proof (rule distinct_list_update [OF d])
    have "l ! j \<noteq> l ! i" if "j < length l" "j \<noteq> i" for j using d that i by (metis distinct_map nth_eq_iff_index_eq)
    then show "qu_id q \<notin> set (map qu_id l) - {map qu_id l ! i}" using q(1) i by (auto simp: in_set_conv_nth)
  qed
  then show ?thesis using l i q(2) by (auto simp: layout_def nth_list_update map_update)
qed

section \<open>The operations are map operations\<close>

lemma pair_eqD:
  assumes "f = (r, s)" "f = (r', s')"
  shows "r = r'" "s = s'"
  using assms by simp_all

lemma quest_okI: "num_quests sd \<le> length (quest_log sd) \<Longrightarrow> layout (quests sd) (avail_quests sd) \<Longrightarrow> quest_ok sd"
  by (simp add: quest_ok_def)

lemma insert_gap:
  assumes "length r = n + 1" "a \<le> n"
  shows "(if a + 1 \<noteq> n + 1 then mem_move r (a + 1) a (n + 1 - (a + 1)) else r)[a := q] = take a (take n r) @ q # drop a (take n r)"
  using assms by (cases "a = n") (simp_all add: mem_move_def upd_conv_take_nth_drop drop_take min_def)

lemma delete_gap:
  assumes "n \<le> length l" "i < n"
  shows "take (n - 1) (if n - 1 = 0 then [] else recreate junk (if i < n - 1 then mem_move l i (i + 1) (n - 1 - i) else l) (n - 1))
    = take i (take n l) @ drop (Suc i) (take n l)"
proof (cases "i < n - 1")
  case True
  then show ?thesis using assms by (auto simp: mem_move_def recreate_def drop_take min_def)
next
  case False
  then have "n = Suc i" using assms by simp
  then show ?thesis using assms by (auto simp: recreate_def min_def)
qed

lemma quest_add_ok:
  assumes ok: "quest_ok sd" and db: "questdb_ok db" and a: "quest_add junk db now sd k = (r, sd')"
  shows "quest_ok sd' \<and> (r = 0 \<longleftrightarrow> db k \<noteq> None \<and> quest_map sd k = None)
    \<and> quest_map sd' = (if db k \<noteq> None \<and> quest_map sd k = None then (quest_map sd)(k \<mapsto> new_quest now (the (db k))) else quest_map sd)"
proof (cases "db k \<noteq> None \<and> quest_map sd k = None")
  case False
  then have "r = -1 \<and> sd' = sd" using a have_iff [OF ok, of db now k] by (auto simp: quest_add_def split: option.splits if_splits)
  then show ?thesis using False ok by auto
next
  case True
  then obtain qi where qi: "db k = Some qi" by auto
  let ?q = "new_quest now qi" and ?l = "quests sd" and ?a = "avail_quests sd" and ?n = "num_quests sd"
  have id: "qu_id ?q = k" "qu_state ?q \<noteq> Q_COMPLETE" using db qi by (auto simp: new_quest_def questdb_ok_def)
  have ln: "?n \<le> length (quest_log sd)" "length ?l = ?n" "?a \<le> ?n" using ok length_quests avail_le by (auto simp: quest_ok_def)
  have nh: "\<not> quest_check db now sd k HAVEQUEST \<ge> 0" using True have_iff [OF ok] by simp
  let ?r = "recreate junk (quest_log sd) (?n + 1)"
  let ?m = "if ?a + 1 \<noteq> ?n + 1 then mem_move ?r (?a + 1) ?a (?n + 1 - (?a + 1)) else ?r"
  let ?sd = "\<lparr>num_quests = ?n + 1, avail_quests = ?a + 1, quest_log = ?m[?a := ?q], save_quest = True\<rparr>"
  have "quest_add junk db now sd k = (0, ?sd)" unfolding quest_add_def qi option.case if_not_P [OF nh] Let_def by (rule refl)
  then have sd': "r = 0" "sd' = ?sd" by (rule pair_eqD [OF a])+
  have rl: "length ?r = ?n + 1" "take ?n ?r = ?l" using ln by (simp_all add: recreate_def quests_def)
  have m: "?m[?a := ?q] = take ?a ?l @ ?q # drop ?a ?l" using insert_gap [OF rl(1) ln(3)] unfolding rl(2) by blast
  have fresh: "qu_id ?q \<notin> qu_id ` set ?l" using True id quest_map_none by auto
  have fresh': "q' \<in> set ?l \<Longrightarrow> qu_id q' \<noteq> k" for q' using True by (auto simp: quest_map_none)
  have nl: "num_quests sd' = ?n + 1" "quest_log sd' = take ?a ?l @ ?q # drop ?a ?l"
    by (simp_all only: sd'(2) quest_pc.select_convs m)
  have qs: "quests sd' = take ?a ?l @ ?q # drop ?a ?l" unfolding quests_def [of sd'] nl using ln by simp
  have "quest_ok sd'"
  proof (rule quest_okI)
    show "num_quests sd' \<le> length (quest_log sd')" unfolding nl using ln by simp
    have "layout (take ?a ?l @ ?q # drop ?a ?l) (Suc ?a)" by (rule layout_insert [OF _ fresh id(2)]) (use ok in \<open>simp add: quest_ok_def\<close>)
    then show "layout (quests sd') (avail_quests sd')" unfolding qs by (simp add: sd'(2))
  qed
  moreover have "set (quests sd') = insert ?q (set ?l)"
    unfolding qs by (metis append_take_drop_id list.simps(15) set_append Un_insert_right)
  then have "quest_map sd' = (quest_map sd)(k \<mapsto> ?q)"
    by (intro quest_map_eqI [OF \<open>quest_ok sd'\<close>]) (use id fresh' quest_map_iff [OF ok] in \<open>auto split: if_splits\<close>)
  ultimately show ?thesis using True qi sd'(1) by simp
qed

lemma quest_delete_ok:
  assumes ok: "quest_ok sd" and a: "quest_delete junk sd k = (r, sd')"
  shows "quest_ok sd' \<and> (r = 0 \<longleftrightarrow> quest_map sd k \<noteq> None) \<and> quest_map sd' = (quest_map sd)(k := None)"
proof -
  let ?n = "num_quests sd" and ?l = "quests sd"
  let ?i = "arr_find 0 ?n (\<lambda>i. qu_id (quest_log sd ! i) = k)"
  have ln: "?n \<le> length (quest_log sd)" "length ?l = ?n" using ok length_quests by (auto simp: quest_ok_def)
  show ?thesis
  proof (cases "?i = ?n")
    case True
    then have "\<forall>i < ?n. qu_id (?l ! i) \<noteq> k" using find_quest(1) [OF ok order_refl] by simp
    then have "quest_map sd k = None" using ln by (auto simp: quest_map_none in_set_conv_nth)
    moreover have "r = -1" "sd' = sd" using a True by (simp_all add: quest_delete_def Let_def)
    ultimately show ?thesis using ok by auto
  next
    case False
    have i: "?i < ?n" "quest_map sd k = Some (?l ! ?i)" using find_quest(2) [OF ok order_refl False] by auto
    have qi: "quest_log sd ! ?i = ?l ! ?i" using nth_quests [OF ok i(1)] by simp
    let ?a = "if qu_state (?l ! ?i) \<noteq> Q_COMPLETE then avail_quests sd - 1 else avail_quests sd"
    let ?m = "if ?i < ?n - 1 then mem_move (quest_log sd) ?i (?i + 1) (?n - 1 - ?i) else quest_log sd"
    let ?m' = "if ?n - 1 = 0 then [] else recreate junk ?m (?n - 1)"
    let ?sd = "\<lparr>num_quests = ?n - 1, avail_quests = ?a, quest_log = ?m', save_quest = True\<rparr>"
    have "quest_delete junk sd k = (0, ?sd)" unfolding quest_delete_def Let_def if_not_P [OF False] qi by (rule refl)
    then have sd': "r = 0" "sd' = ?sd" by (rule pair_eqD [OF a])+
    have qs: "quests sd' = take ?i ?l @ drop (Suc ?i) ?l"
      using delete_gap [OF ln(1) i(1), of junk] unfolding quests_def [of sd, symmetric] by (simp only: sd'(2) quests_def [of ?sd] quest_pc.select_convs)
    have lay: "layout (take ?i ?l @ drop (Suc ?i) ?l) ?a"
      by (rule layout_delete) (use ok i ln in \<open>simp_all add: quest_ok_def\<close>)
    have okd: "quest_ok sd'"
    proof (rule quest_okI)
      show "num_quests sd' \<le> length (quest_log sd')" using ln i by (auto simp: sd'(2) recreate_def mem_move_def)
      show "layout (quests sd') (avail_quests sd')" unfolding qs using lay by (simp add: sd'(2))
    qed
    have d: "distinct (map qu_id ?l)" using ok by (simp add: quest_ok_def layout_def)
    have spl: "?l = take ?i ?l @ ?l ! ?i # drop (Suc ?i) ?l" using id_take_nth_drop i ln by metis
    have idk: "qu_id (?l ! ?i) = k" using i quest_map_iff [OF ok] by blast
    have "q \<in> set (quests sd') \<longleftrightarrow> q \<in> set ?l \<and> qu_id q \<noteq> k" for q
    proof -
      have "distinct (map qu_id (take ?i ?l @ ?l ! ?i # drop (Suc ?i) ?l))" using d spl by metis
      then have "k \<notin> qu_id ` set (take ?i ?l)" "k \<notin> qu_id ` set (drop (Suc ?i) ?l)" using idk by auto
      moreover have "set ?l = set (take ?i ?l) \<union> insert (?l ! ?i) (set (drop (Suc ?i) ?l))" using spl by (metis list.simps(15) set_append)
      ultimately show ?thesis unfolding qs using idk by auto
    qed
    then have "quest_map sd' = (quest_map sd)(k := None)"
      by (intro quest_map_eqI [OF okd]) (use quest_map_iff [OF ok] in \<open>auto split: if_splits\<close>)
    then show ?thesis using okd sd'(1) i by simp
  qed
qed

text \<open>Writing one entry.\<close>

lemma upd_map:
  assumes ok: "quest_ok sd" and i: "i < num_quests sd" and q: "qu_id q = qu_id (quests sd ! i) \<or> quest_map sd (qu_id q) = None"
  shows "qu_id q \<notin> qu_id ` (set (quests sd) - {quests sd ! i})"
    and "quest_ok sd' \<Longrightarrow> set (quests sd') = set ((quests sd)[i := q])
      \<Longrightarrow> quest_map sd' = (quest_map sd)(qu_id (quests sd ! i) := None, qu_id q \<mapsto> q)"
proof -
  let ?l = "quests sd"
  have il: "i < length ?l" using i length_quests [OF ok] by simp
  have d: "distinct (map qu_id ?l)" using ok by (simp add: quest_ok_def layout_def)
  have inj: "q' \<in> set ?l \<Longrightarrow> qu_id q' = qu_id (?l ! i) \<Longrightarrow> q' = ?l ! i" for q'
    using d il by (metis distinct_map inj_onD nth_mem)
  have fresh: "q' = ?l ! i" if "q' \<in> set ?l" "qu_id q' = qu_id q" for q'
    using q inj [of q'] that by (auto simp: quest_map_none)
  show "qu_id q \<notin> qu_id ` (set ?l - {?l ! i})"
  proof
    assume "qu_id q \<in> qu_id ` (set ?l - {?l ! i})"
    then obtain q' where "qu_id q = qu_id q'" "q' \<in> set ?l - {?l ! i}" by (rule imageE)
    then show False using fresh [of q'] by simp
  qed
  assume okd: "quest_ok sd'" and "set (quests sd') = set (?l[i := q])"
  then have s: "q' \<in> set (quests sd') \<longleftrightarrow> q' = q \<or> q' \<in> set ?l \<and> q' \<noteq> ?l ! i" for q'
    using il d by (simp add: set_update_distinct distinct_map)
  show "quest_map sd' = (quest_map sd)(qu_id (?l ! i) := None, qu_id q \<mapsto> q)"
  proof (rule quest_map_eqI [OF okd])
    fix q'
    show "q' \<in> set (quests sd') \<longleftrightarrow> ((quest_map sd)(qu_id (?l ! i) := None, qu_id q \<mapsto> q)) (qu_id q') = Some q'"
      using s [of q'] fresh [of q'] inj [of q'] quest_map_iff [OF ok, of "qu_id q'" q'] il by (auto simp del: split_paired_Ex)
  next
    fix k q'
    show "((quest_map sd)(qu_id (?l ! i) := None, qu_id q \<mapsto> q)) k = Some q' \<Longrightarrow> qu_id q' = k"
      using quest_map_iff [OF ok, of k q'] by (auto split: if_splits)
  qed
qed

lemma upd_ok:
  assumes ok: "quest_ok sd" and i: "i < num_quests sd" and q: "qu_id q = qu_id (quests sd ! i) \<or> quest_map sd (qu_id q) = None"
      "qu_state q = Q_COMPLETE \<longleftrightarrow> qu_state (quests sd ! i) = Q_COMPLETE"
  shows "quest_ok (sd\<lparr>quest_log := (quest_log sd)[i := q], save_quest := b\<rparr>)
    \<and> quest_map (sd\<lparr>quest_log := (quest_log sd)[i := q], save_quest := b\<rparr>) = (quest_map sd)(qu_id (quests sd ! i) := None, qu_id q \<mapsto> q)"
proof -
  let ?l = "quests sd" and ?sd = "sd\<lparr>quest_log := (quest_log sd)[i := q], save_quest := b\<rparr>"
  have lay: "layout ?l (avail_quests sd)" using ok by (simp add: quest_ok_def)
  have il: "i < length ?l" using i length_quests [OF ok] by simp
  have qs: "quests ?sd = ?l[i := q]" by (simp add: quests_def take_update_swap)
  have "quest_ok ?sd"
  proof (rule quest_okI)
    show "num_quests ?sd \<le> length (quest_log ?sd)" using ok by (simp add: quest_ok_def)
    show "layout (quests ?sd) (avail_quests ?sd)"
      unfolding qs using layout_upd [OF lay il upd_map(1) [OF ok i q(1)]] q(2) layout_states [OF lay il] by simp
  qed
  then show ?thesis using upd_map(2) [OF ok i q(1)] qs by metis
qed

lemma quest_change_ok:
  assumes ok: "quest_ok sd" and db: "questdb_ok db" and c: "quest_change db now sd k1 k2 = (r, sd')"
  defines "can \<equiv> db k2 \<noteq> None \<and> quest_map sd k2 = None \<and> (\<exists>q. quest_map sd k1 = Some q \<and> qu_state q \<noteq> Q_COMPLETE)"
  shows "quest_ok sd' \<and> (r = 0 \<longleftrightarrow> can)
    \<and> quest_map sd' = (if can then (quest_map sd)(k1 := None, k2 \<mapsto> new_quest now (the (db k2))) else quest_map sd)"
proof -
  let ?a = "avail_quests sd"
  let ?i = "arr_find 0 ?a (\<lambda>i. qu_id (quest_log sd ! i) = k1)"
  show ?thesis
  proof (cases can)
    case False
    then have "db k2 = None \<or> quest_check db now sd k2 HAVEQUEST \<ge> 0 \<or> ?i = ?a"
      unfolding can_def using have_iff [OF ok, of db now k2] avail_find [OF ok, of k1] by blast
    then have "r = -1 \<and> sd' = sd" using c by (auto simp: quest_change_def Let_def split: option.splits if_splits)
    then show ?thesis using False ok by simp
  next
    case True
    then obtain qi where qi: "db k2 = Some qi" unfolding can_def by auto
    have n2: "\<not> quest_check db now sd k2 HAVEQUEST \<ge> 0" using True have_iff [OF ok] unfolding can_def by simp
    have n1: "\<not> quest_check db now sd k1 HAVEQUEST < 0" using True have_iff [OF ok, of db now k1] unfolding can_def by auto
    have ni: "?i \<noteq> ?a" using True avail_find [OF ok] unfolding can_def by simp
    have i: "?i < ?a" "quest_map sd k1 = Some (quests sd ! ?i)"
      using find_quest(2) [OF ok avail_le [OF ok] ni] by auto
    have id1: "qu_id (quests sd ! ?i) = k1" using i quest_map_iff [OF ok] by blast
    have st: "qu_state (quests sd ! ?i) \<noteq> Q_COMPLETE" using True i unfolding can_def by auto
    have id2: "qu_id (new_quest now qi) = k2" using db qi by (auto simp: new_quest_def questdb_ok_def)
    have "quest_change db now sd k1 k2 = (0, sd\<lparr>quest_log := (quest_log sd)[?i := new_quest now qi], save_quest := True\<rparr>)"
      unfolding quest_change_def qi option.case if_not_P [OF n2] if_not_P [OF n1] Let_def if_not_P [OF ni] by (rule refl)
    then have sd': "r = 0" "sd' = sd\<lparr>quest_log := (quest_log sd)[?i := new_quest now qi], save_quest := True\<rparr>" by (rule pair_eqD [OF c])+
    have ip: "?i < num_quests sd" using i avail_le [OF ok] by simp
    have "quest_ok sd' \<and> quest_map sd' = (quest_map sd)(k1 := None, k2 \<mapsto> new_quest now qi)"
      using upd_ok [OF ok ip, of "new_quest now qi" True] True st unfolding id1 id2 sd'(2) can_def by (simp add: new_quest_def)
    then show ?thesis using True qi sd'(1) by simp
  qed
qed

text \<open>A change of the state; completing swaps the entry with the last one that was not complete.\<close>

lemma mset_swap_last:
  assumes "i < a" "a \<le> length l"
  shows "mset ((l[i := q])[i := (l[i := q]) ! (a - 1), a - 1 := q]) = mset (l[i := q])"
proof -
  have "(l[i := q]) ! i = q" using assms by simp
  then show ?thesis using mset_swap [of "a - 1" "l[i := q]" i] assms by simp
qed

lemma set_swap_last:
  "i < a \<Longrightarrow> a \<le> length l \<Longrightarrow> set ((l[i := q])[i := (l[i := q]) ! (a - 1), a - 1 := q]) = set (l[i := q])"
  by (rule mset_eq_setD) (rule mset_swap_last)

lemma swap_if:
  "i < a \<Longrightarrow> a \<le> length l \<Longrightarrow> (if i < a - 1 then (l[i := q])[i := (l[i := q]) ! (a - 1), a - 1 := (l[i := q]) ! i] else l[i := q])
    = (l[i := q])[i := (l[i := q]) ! (a - 1), a - 1 := q]"
  by (cases "i = a - 1") auto

lemma take_swap_last:
  "i < a \<Longrightarrow> a \<le> n \<Longrightarrow> n \<le> length l \<Longrightarrow> take n ((l[i := q])[i := (l[i := q]) ! (a - 1), a - 1 := q])
    = ((take n l)[i := q])[i := ((take n l)[i := q]) ! (a - 1), a - 1 := q]"
  using nth_take [of "a - 1" n "l[i := q]"] by (simp add: take_update_swap)

lemma layout_complete:
  assumes l: "layout l a" and i: "i < a" and q: "qu_id q = qu_id (l ! i)" "qu_state q = Q_COMPLETE"
  shows "layout ((l[i := q])[i := (l[i := q]) ! (a - 1), a - 1 := q]) (a - 1)" (is "layout ?s _")
proof -
  have a: "a \<le> length l" using l by (simp add: layout_def)
  have "map qu_id (l[i := q]) = map qu_id l" using q(1) i a by (metis list_update_id map_update order_less_le_trans nth_map)
  then have "mset (map qu_id ?s) = mset (map qu_id l)" using mset_swap_last [OF i a, of q] by (metis mset_map)
  then have "distinct (map qu_id ?s)" using l by (metis layout_def mset_eq_imp_distinct_iff)
  moreover have "qu_state (?s ! j) = Q_COMPLETE \<longleftrightarrow> a - 1 \<le> j" if j: "j < length l" for j
    using layout_states [OF l, of j] layout_states [OF l, of "a - 1"] i a j q(2)
    by (cases "j = a - 1"; cases "j = i"; cases "i = a - 1") (auto simp: nth_list_update)
  ultimately show ?thesis using a by (simp add: layout_def)
qed

lemma quest_update_status_ok:
  assumes ok: "quest_ok sd" and u: "quest_update_status sd k st = (r, sd')"
  defines "can \<equiv> \<exists>q. quest_map sd k = Some q \<and> qu_state q \<noteq> Q_COMPLETE"
  shows "quest_ok sd' \<and> (r = 0 \<longleftrightarrow> can)
    \<and> quest_map sd' = (if can then (quest_map sd)(k \<mapsto> (the (quest_map sd k))\<lparr>qu_state := st\<rparr>) else quest_map sd)"
proof -
  let ?a = "avail_quests sd" and ?l = "quests sd"
  let ?i = "arr_find 0 ?a (\<lambda>i. qu_id (quest_log sd ! i) = k)"
  let ?q = "(?l ! ?i)\<lparr>qu_state := st\<rparr>"
  let ?sd = "sd\<lparr>quest_log := (quest_log sd)[?i := ?q], save_quest := True\<rparr>"
  show ?thesis
  proof (cases can)
    case False
    then have "?i = ?a" using avail_find [OF ok, of k] unfolding can_def by blast
    then have "r = -1" "sd' = sd" using u by (simp_all add: quest_update_status_def Let_def)
    then show ?thesis using False ok by simp
  next
    case True
    have ni: "?i \<noteq> ?a" using True avail_find [OF ok] unfolding can_def by simp
    have i: "?i < ?a" "quest_map sd k = Some (?l ! ?i)" using find_quest(2) [OF ok avail_le [OF ok] ni] by auto
    have id1: "qu_id (?l ! ?i) = k" using i quest_map_iff [OF ok] by blast
    have st: "qu_state (?l ! ?i) \<noteq> Q_COMPLETE" using True i unfolding can_def by auto
    have ip: "?i < num_quests sd" using i avail_le [OF ok] by simp
    have qi: "quest_log sd ! ?i = ?l ! ?i" using nth_quests [OF ok ip] by simp
    show ?thesis
    proof (cases "st = Q_COMPLETE")
      case False
      have "quest_update_status sd k st = (0, ?sd)" unfolding quest_update_status_def Let_def if_not_P [OF ni] qi if_P [OF False] by (rule refl)
      then have sd': "r = 0" "sd' = ?sd" by (rule pair_eqD [OF u])+
      then show ?thesis using upd_ok [OF ok ip, of ?q True] True False st i(2) id1 by simp
    next
      case c: True
      then have c': "\<not> st \<noteq> Q_COMPLETE" by simp
      let ?L = "quest_log ?sd"
      let ?A = "avail_quests ?sd"
      let ?L' = "if ?i < ?A - 1 then ?L[?i := ?L ! (?A - 1), ?A - 1 := ?L ! ?i] else ?L"
      have "quest_update_status sd k st = (0, ?sd\<lparr>avail_quests := ?A - 1, quest_log := ?L'\<rparr>)"
        unfolding quest_update_status_def Let_def if_not_P [OF ni] qi if_not_P [OF c'] by (rule refl)
      then have sd': "r = 0" "sd' = ?sd\<lparr>avail_quests := ?A - 1, quest_log := ?L'\<rparr>" by (rule pair_eqD [OF u])+
      have len: "?a \<le> length (quest_log sd)" "?a \<le> num_quests sd" using ok avail_le [OF ok] by (simp_all add: quest_ok_def)
      let ?M = "(quest_log sd)[?i := ?q]"
      have f: "num_quests sd' = num_quests sd" "avail_quests sd' = ?a - 1" unfolding sd'(2) by simp_all
      have "quest_log sd' = (if ?i < ?a - 1 then ?M[?i := ?M ! (?a - 1), ?a - 1 := ?M ! ?i] else ?M)"
        unfolding sd'(2) by simp
      also have "\<dots> = ?M[?i := ?M ! (?a - 1), ?a - 1 := ?q]"
        by (rule swap_if [OF i(1)]) (use len in simp)
      finally have g: "quest_log sd' = ?M[?i := ?M ! (?a - 1), ?a - 1 := ?q]" .
      let ?s = "(?l[?i := ?q])[?i := (?l[?i := ?q]) ! (?a - 1), ?a - 1 := ?q]"
      have nl: "num_quests sd \<le> length (quest_log sd)" using ok by (simp add: quest_ok_def)
      have qs: "quests sd' = ?s"
        using take_swap_last [OF i(1) len(2) nl, of ?q] by (simp only: quests_def [of sd'] f g quests_def [of sd, symmetric])
      have okd: "quest_ok sd'"
      proof (rule quest_okI)
        show "num_quests sd' \<le> length (quest_log sd')" unfolding f g using nl by simp
        have "layout ?s (?a - 1)" by (rule layout_complete [OF _ i(1)]) (use ok c in \<open>simp_all add: quest_ok_def\<close>)
        then show "layout (quests sd') (avail_quests sd')" unfolding qs f .
      qed
      have "set (quests sd') = set (?l[?i := ?q])" unfolding qs by (rule set_swap_last) (use i len length_quests [OF ok] in simp_all)
      then have "quest_map sd' = (quest_map sd)(qu_id (?l ! ?i) := None, qu_id ?q \<mapsto> ?q)"
        by (intro upd_map(2) [OF ok ip _ okd]) simp_all
      then show ?thesis using okd sd'(1) True i(2) id1 by simp
    qed
  qed
qed

section \<open>Kills\<close>

text \<open>A kill advances every objective of an active quest that asks for the monster and is not met.\<close>

definition kill_entry :: "questdb \<Rightarrow> int \<Rightarrow> quest \<Rightarrow> quest" where
  "kill_entry db mob q =
     (let qi = quest_search db (qu_id q) in
      if qu_state q \<noteq> Q_ACTIVE then q
      else q\<lparr>qu_count := map (\<lambda>j. if j < qd_num_objectives qi \<and> qd_mob qi ! j = mob \<and> qu_count q ! j < qd_count qi ! j
               then qu_count q ! j + 1 else qu_count q ! j) [0..<length (qu_count q)]\<rparr>)"

lemma kill_entry_sel [simp]: "qu_id (kill_entry db mob q) = qu_id q" "qu_state (kill_entry db mob q) = qu_state q"
  by (simp_all add: kill_entry_def Let_def)

lemma kill_entry_complete [simp]: "qu_state q = Q_COMPLETE \<Longrightarrow> kill_entry db mob q = q"
  by (simp add: kill_entry_def)

lemma objective_fold:
  assumes "i < length (quest_log sd)"
  shows "\<exists>b. foldl (objective_step qi mob i) sd [0..<n] = sd\<lparr>quest_log := (quest_log sd)[i := (quest_log sd ! i)\<lparr>qu_count :=
    map (\<lambda>j. if j < n \<and> qd_mob qi ! j = mob \<and> qu_count (quest_log sd ! i) ! j < qd_count qi ! j
      then qu_count (quest_log sd ! i) ! j + 1 else qu_count (quest_log sd ! i) ! j) [0..<length (qu_count (quest_log sd ! i))]\<rparr>], save_quest := b\<rparr>"
proof (induction n)
  case 0
  show ?case by (rule exI [of _ "save_quest sd"]) (simp add: map_nth)
next
  case (Suc n)
  let ?q = "quest_log sd ! i" and ?c = "qu_count (quest_log sd ! i)"
  let ?M = "\<lambda>n. map (\<lambda>j. if j < n \<and> qd_mob qi ! j = mob \<and> ?c ! j < qd_count qi ! j then ?c ! j + 1 else ?c ! j) [0..<length ?c]"
  obtain b where b: "foldl (objective_step qi mob i) sd [0..<n] = sd\<lparr>quest_log := (quest_log sd)[i := ?q\<lparr>qu_count := ?M n\<rparr>], save_quest := b\<rparr>"
    using Suc by blast
  have step: "foldl (objective_step qi mob i) sd [0..<Suc n]
      = objective_step qi mob i (sd\<lparr>quest_log := (quest_log sd)[i := ?q\<lparr>qu_count := ?M n\<rparr>], save_quest := b\<rparr>) n"
    by (simp add: b)
  show ?case
  proof (cases "qd_mob qi ! n = mob \<and> ?M n ! n < qd_count qi ! n")
    case True
    have "(?M n)[n := ?M n ! n + 1] = ?M (Suc n)" if "n < length ?c"
      using True that by (intro nth_equalityI) (auto simp: nth_list_update less_Suc_eq)
    moreover have "(?M n)[n := ?M n ! n + 1] = ?M (Suc n)" if "\<not> n < length ?c"
      using that by (auto intro!: nth_equalityI simp: less_Suc_eq)
    ultimately have "(?M n)[n := ?M n ! n + 1] = ?M (Suc n)" by blast
    then show ?thesis unfolding step using assms True by (intro exI [of _ True]) (simp add: objective_step_def Let_def)
  next
    case False
    have m: "?M (Suc n) = ?M n" using False by (auto intro!: nth_equalityI simp: less_Suc_eq)
    show ?thesis unfolding step m using assms False by (intro exI [of _ b]) (auto simp: objective_step_def Let_def)
  qed
qed

lemma quest_step_kill:
  assumes "i < length (quest_log sd)"
  shows "\<exists>b. quest_step db mob sd i = sd\<lparr>quest_log := (quest_log sd)[i := kill_entry db mob (quest_log sd ! i)], save_quest := b\<rparr>"
proof (cases "qu_state (quest_log sd ! i) = Q_ACTIVE")
  case True
  then show ?thesis using objective_fold [OF assms] by (simp add: quest_step_def Let_def kill_entry_def)
next
  case False
  then show ?thesis by (intro exI [of _ "save_quest sd"]) (simp add: quest_step_def kill_entry_def)
qed

lemma quest_fold:
  "n \<le> length (quest_log sd) \<Longrightarrow>
    \<exists>b. foldl (quest_step db mob) sd [0..<n] = sd\<lparr>quest_log := map (kill_entry db mob) (take n (quest_log sd)) @ drop n (quest_log sd), save_quest := b\<rparr>"
proof (induction n)
  case 0
  show ?case by (rule exI [of _ "save_quest sd"]) simp
next
  case (Suc n)
  let ?K = "kill_entry db mob" and ?L = "quest_log sd"
  let ?l = "map ?K (take n ?L) @ drop n ?L"
  obtain b where b: "foldl (quest_step db mob) sd [0..<n] = sd\<lparr>quest_log := ?l, save_quest := b\<rparr>"
    using Suc by auto
  have n: "?l ! n = ?L ! n" "n < length ?l" using Suc.prems by (simp_all add: nth_append)
  have "?l[n := ?K (?L ! n)] = map ?K (take (Suc n) ?L) @ drop (Suc n) ?L"
    using Suc.prems by (simp add: list_update_append take_Suc_conv_app_nth Cons_nth_drop_Suc [symmetric])
  then show ?case using quest_step_kill [of n "sd\<lparr>quest_log := ?l, save_quest := b\<rparr>" db mob] n by (simp add: b)
qed

lemma quest_update_objective_ok:
  assumes ok: "quest_ok sd"
  shows "quest_ok (quest_update_objective db mob sd)
    \<and> quest_map (quest_update_objective db mob sd) k = map_option (kill_entry db mob) (quest_map sd k)"
proof -
  let ?K = "kill_entry db mob" and ?a = "avail_quests sd" and ?n = "num_quests sd" and ?L = "quest_log sd"
  let ?sd = "quest_update_objective db mob sd"
  have le: "?a \<le> length ?L" "?n \<le> length ?L" "?a \<le> ?n" using ok avail_le [OF ok] by (simp_all add: quest_ok_def)
  obtain b where sd: "?sd = sd\<lparr>quest_log := map ?K (take ?a ?L) @ drop ?a ?L, save_quest := b\<rparr>"
    using quest_fold [OF le(1)] unfolding quest_update_objective_def by blast
  have "map ?K (drop ?a (take ?n ?L)) = drop ?a (take ?n ?L)"
  proof (rule map_idI)
    fix q assume "q \<in> set (drop ?a (take ?n ?L))"
    then obtain j where "j < ?n - ?a" "q = quests sd ! (?a + j)" using le by (auto simp: in_set_conv_nth quests_def)
    then show "?K q = q" using ok length_quests [OF ok] by (simp add: quest_ok_def layout_def)
  qed
  then have "map ?K (take ?n ?L) = map ?K (take ?a (take ?n ?L)) @ drop ?a (take ?n ?L)" by (metis append_take_drop_id map_append)
  then have qs: "quests ?sd = map ?K (quests sd)" unfolding sd using le by (simp add: quests_def min_def drop_take)
  have f: "num_quests ?sd = ?n" "avail_quests ?sd = ?a" "length (quest_log ?sd) = length ?L" unfolding sd using le by simp_all
  have "layout (map ?K l) a" if "layout l a" for l a using that by (simp add: layout_def comp_def)
  then have "quest_ok ?sd" using ok unfolding quest_ok_def f qs by simp
  moreover have mo: "map_of (map (\<lambda>q. (qu_id q, ?K q)) l) k = map_option ?K (map_of (map (\<lambda>q. (qu_id q, q)) l) k)" for l
    by (induction l) simp_all
  have "quest_map ?sd k = map_option ?K (quest_map sd k)"
    unfolding quest_map_def qs map_map comp_def kill_entry_sel by (rule mo)
  ultimately show ?thesis by blast
qed

section \<open>Reloading the database\<close>

lemma layout_parts:
  "layout l a \<longleftrightarrow> distinct (map qu_id l) \<and> a \<le> length l
    \<and> (\<forall>q \<in> set (take a l). qu_state q \<noteq> Q_COMPLETE) \<and> (\<forall>q \<in> set (drop a l). qu_state q = Q_COMPLETE)"
proof -
  have "(\<forall>i < length l. qu_state (l ! i) = Q_COMPLETE \<longleftrightarrow> a \<le> i)
    \<longleftrightarrow> (\<forall>q \<in> set (take a l). qu_state q \<noteq> Q_COMPLETE) \<and> (\<forall>q \<in> set (drop a l). qu_state q = Q_COMPLETE)" if a: "a \<le> length l"
  proof
    assume "\<forall>i < length l. qu_state (l ! i) = Q_COMPLETE \<longleftrightarrow> a \<le> i"
    then show "(\<forall>q \<in> set (take a l). qu_state q \<noteq> Q_COMPLETE) \<and> (\<forall>q \<in> set (drop a l). qu_state q = Q_COMPLETE)"
      using a by (auto simp: in_set_conv_nth)
  next
    assume r: "(\<forall>q \<in> set (take a l). qu_state q \<noteq> Q_COMPLETE) \<and> (\<forall>q \<in> set (drop a l). qu_state q = Q_COMPLETE)"
    show "\<forall>i < length l. qu_state (l ! i) = Q_COMPLETE \<longleftrightarrow> a \<le> i"
    proof (intro allI impI)
      fix i assume i: "i < length l"
      show "qu_state (l ! i) = Q_COMPLETE \<longleftrightarrow> a \<le> i"
      proof (cases "a \<le> i")
        case True
        then have "l ! i \<in> set (drop a l)" using i by (metis in_set_conv_nth length_drop le_add_diff_inverse nth_drop diff_less_mono a)
        then show ?thesis using r True by simp
      next
        case False
        then have "l ! i \<in> set (take a l)" using i by (auto simp: in_set_conv_nth)
        then show ?thesis using r False by simp
      qed
    qed
  qed
  then show ?thesis unfolding layout_def by blast
qed

lemma layout_append:
  assumes "distinct (map qu_id (xs @ ys))" "\<forall>q \<in> set xs. qu_state q \<noteq> Q_COMPLETE" "\<forall>q \<in> set ys. qu_state q = Q_COMPLETE"
  shows "layout (xs @ ys) (length xs)"
  using assms by (simp add: layout_parts)

lemma reload_loop_eq:
  "i + n \<le> length l \<Longrightarrow> j \<le> i \<Longrightarrow> reload_loop db n i j l = (j', l') \<Longrightarrow>
    take j' l' = take j l @ filter (\<lambda>q. db (qu_id q) \<noteq> None) (take n (drop i l)) \<and> length l' = length l \<and> j' \<le> i + n"
proof (induction n arbitrary: i j l)
  case 0
  then show ?case by simp
next
  case (Suc n)
  let ?P = "\<lambda>q. db (qu_id q) \<noteq> None"
  have i: "i < length l" using Suc.prems by simp
  have d: "take (Suc n) (drop i l) = l ! i # take n (drop (Suc i) l)" using i by (metis Cons_nth_drop_Suc take_Suc_Cons)
  show ?case
  proof (cases "?P (l ! i)")
    case False
    then show ?thesis using Suc.IH [of "Suc i" l j] Suc.prems d by simp
  next
    case True
    let ?l = "if i \<noteq> j then l[j := l ! i] else l"
    have "take (Suc j) ?l = take j l @ [l ! i]" using Suc.prems i by (simp add: take_Suc_conv_app_nth)
    moreover have "drop (Suc i) ?l = drop (Suc i) l" using Suc.prems by simp
    moreover have "length ?l = length l" by simp
    ultimately show ?thesis using Suc.IH [of "Suc i" ?l "Suc j"] Suc.prems d True by simp
  qed
qed

lemma filter_layout:
  assumes "layout l a"
  shows "layout (filter P l) (length (filter P (take a l)))"
proof -
  have "filter P l = filter P (take a l) @ filter P (drop a l)" by (metis append_take_drop_id filter_append)
  moreover have "distinct (map qu_id (filter P l))" using assms by (simp add: layout_def distinct_map_filter)
  ultimately show ?thesis using assms layout_append [of "filter P (take a l)" "filter P (drop a l)"] by (auto simp: layout_parts [of l a])
qed

lemma layout_first_complete:
  assumes "layout l a"
  shows "arr_find 0 (length l) (\<lambda>i. qu_state (l ! i) = Q_COMPLETE) = a"
proof (cases "a = length l")
  case True
  then show ?thesis using assms by (auto simp: arr_find_none_iff layout_def)
next
  case False
  have "a < length l" using assms False by (simp add: layout_def)
  then show ?thesis using assms by (intro arr_find_eqI) (auto simp: layout_def)
qed

lemma quest_reload_ok:
  fixes db :: questdb
  assumes ok: "quest_ok sd"
  defines "sd' \<equiv> quest_reload_check_sub db sd"
  shows "quest_ok sd' \<and> quest_map sd' = (\<lambda>k. if db k = None then None else quest_map sd k)"
proof -
  let ?P = "\<lambda>q. db (qu_id q) \<noteq> None" and ?n = "num_quests sd"
  obtain j l where jl: "reload_loop db ?n 0 0 (quest_log sd) = (j, l)" by (rule prod.exhaust)
  have r: "take j l = filter ?P (quests sd)" "length l = length (quest_log sd)" "j \<le> ?n"
    using reload_loop_eq [OF _ _ jl] ok by (simp_all add: quest_ok_def quests_def)
  have jl': "j \<le> length l" using r ok by (simp add: quest_ok_def)
  have lay: "layout (take j l) (length (filter ?P (take (avail_quests sd) (quests sd))))"
    unfolding r by (rule filter_layout) (use ok in \<open>simp add: quest_ok_def\<close>)
  have "arr_find 0 j (\<lambda>i. qu_state (l ! i) = Q_COMPLETE) = arr_find 0 j (\<lambda>i. qu_state (take j l ! i) = Q_COMPLETE)"
    by (rule arr_find_cong) simp
  also have "\<dots> = length (filter ?P (take (avail_quests sd) (quests sd)))"
    using layout_first_complete [OF lay] jl' by simp
  finally have f: "num_quests sd' = j" "quest_log sd' = l" "avail_quests sd' = length (filter ?P (take (avail_quests sd) (quests sd)))"
    unfolding sd'_def quest_reload_check_sub_def jl by simp_all
  have qs: "quests sd' = filter ?P (quests sd)" unfolding quests_def [of sd'] f r ..
  have okd: "quest_ok sd'" using jl' lay by (intro quest_okI) (simp_all add: f qs r(1))
  moreover have "quest_map sd' = (\<lambda>k. if db k = None then None else quest_map sd k)"
    by (rule quest_map_eqI [OF okd]) (use quest_map_iff [OF ok] in \<open>auto simp: qs split: if_splits\<close>)
  ultimately show ?thesis by blast
qed

section \<open>The log that arrives at login\<close>

lemma parse_loop_eq:
  "(\<forall>q \<in> set qs. db (qu_id q) \<noteq> None) \<Longrightarrow> avail + length qs = k \<Longrightarrow> k \<le> length l \<Longrightarrow>
    parse_loop db qs avail k num l
      = (let a = filter (\<lambda>q. qu_state q \<noteq> Q_COMPLETE) qs; c = filter (\<lambda>q. qu_state q = Q_COMPLETE) qs
         in (avail + length a, avail + length a, num + length qs, take avail l @ a @ rev c @ drop k l))"
proof (induction qs arbitrary: avail k num l)
  case Nil
  then show ?case by simp
next
  case (Cons q qs)
  show ?case
  proof (cases "qu_state q = Q_COMPLETE")
    case True
    have "drop (k - 1) (l[k - 1 := q]) = q # drop k l" using Cons.prems
      by (metis Cons_nth_drop_Suc Suc_pred' drop_update_cancel length_list_update lessI less_le_trans nth_list_update_eq zero_less_Suc add_Suc_right length_Cons diff_Suc_1)
    then show ?thesis using Cons.IH [of avail "k - 1" "l[k - 1 := q]" "Suc num"] Cons.prems True by (auto simp: Let_def)
  next
    case False
    have "take (Suc avail) (l[avail := q]) = take avail l @ [q]" using Cons.prems by (simp add: take_Suc_conv_app_nth)
    then show ?thesis using Cons.IH [of "Suc avail" k "l[avail := q]" "Suc num"] Cons.prems False by (auto simp: Let_def)
  qed
qed

lemma quest_parse_ok:
  fixes db :: questdb and sd :: quest_pc and junk :: quest
  assumes known: "\<forall>q \<in> set qs. db (qu_id q) \<noteq> None" and d: "distinct (map qu_id qs)"
  defines "sd' \<equiv> intif_parse_questlog junk db sd qs"
  shows "quest_ok sd' \<and> quest_map sd' = map_of (map (\<lambda>q. (qu_id q, q)) qs)"
proof (cases "qs = []")
  case True
  then show ?thesis by (auto simp: sd'_def intif_parse_questlog_def quest_ok_def quests_def layout_def quest_map_def)
next
  case False
  let ?a = "filter (\<lambda>q. qu_state q \<noteq> Q_COMPLETE) qs" and ?c = "filter (\<lambda>q. qu_state q = Q_COMPLETE) qs"
  let ?l = "?a @ rev ?c"
  let ?arr = "if quest_log sd \<noteq> [] then recreate junk (quest_log sd) (length qs) else replicate (length qs) zero_quest"
  have l0: "length ?arr = length qs" by (auto simp: recreate_def)
  have p: "parse_loop db qs 0 (length qs) 0 ?arr = (length ?a, length ?a, length qs, ?l)"
    using parse_loop_eq [OF known, of 0 "length qs" ?arr 0] l0 by (simp add: Let_def)
  have sd': "sd' = sd\<lparr>num_quests := length qs, avail_quests := length ?a, quest_log := ?l\<rparr>"
    unfolding sd'_def intif_parse_questlog_def Let_def p prod.case using False by simp
  have len: "length ?l = length qs" using sum_length_filter_compl [of "\<lambda>q. qu_state q \<noteq> Q_COMPLETE" qs] by simp
  have m: "mset ?l = mset qs" using multiset_partition [of "mset qs" "\<lambda>q. qu_state q \<noteq> Q_COMPLETE"] by (simp add: mset_filter)
  have qs': "quests sd' = ?l" using len by (simp add: sd' quests_def)
  have "distinct (map qu_id ?l)" using d m by (metis mset_map mset_eq_imp_distinct_iff)
  then have "layout ?l (length ?a)" by (rule layout_append) auto
  then have okd: "quest_ok sd'" by (intro quest_okI) (use len qs' in \<open>simp_all add: sd'\<close>)
  moreover have "set ?l = set qs" using m by (rule mset_eq_setD)
  then have "quest_map sd' = map_of (map (\<lambda>q. (qu_id q, q)) qs)"
    by (intro quest_map_eqI [OF okd]) (simp_all only: qs' map_some_iff [OF d], auto)
  ultimately show ?thesis by blast
qed

end
