(* ===== verification/QuestProps.thy ===== *)
theory QuestProps imports QuestOps begin

text \<open>
  The properties of the quest log: the operations are map operations and keep the layout, a log
  whose entries are all known arrives complete, and one with unknown entries does not.
\<close>

section \<open>A small database and log\<close>

definition test_questdb :: questdb where
  "test_questdb k = (if k = 1001 then Some \<lparr>qd_id = 1001, qd_time = 0, qd_mob = [1002, 0, 0], qd_count = [2, 0, 0], qd_num_objectives = 1\<rparr>
     else if k = 1002 \<or> k = 1003 then Some \<lparr>qd_id = k, qd_time = 60, qd_mob = [0, 0, 0], qd_count = [0, 0, 0], qd_num_objectives = 0\<rparr>
     else None)"

definition test_quest :: "int \<Rightarrow> quest_state \<Rightarrow> quest" where
  "test_quest k st = \<lparr>qu_id = k, qu_time = 0, qu_count = [0, 0, 0], qu_state = st\<rparr>"

definition test_log :: quest_pc where
  "test_log = \<lparr>num_quests = 2, avail_quests = 1, quest_log = [test_quest 1001 Q_ACTIVE, test_quest 1002 Q_COMPLETE], save_quest = False\<rparr>"

lemma test_questdb_ok: "questdb_ok test_questdb"
  by (simp add: questdb_ok_def test_questdb_def)

lemma test_log_ok: "quest_ok test_log"
  by (simp add: quest_ok_def layout_def quests_def test_log_def test_quest_def less_Suc_eq)

lemma test_log_map: "quest_map test_log 1001 = Some (test_quest 1001 Q_ACTIVE)"
  by (simp add: quest_map_def quests_def test_log_def test_quest_def)

section \<open>The properties\<close>

text \<open>C33: the quest log of a player implements a map from quest ids to entries: adding, changing,
  deleting and completing a quest succeed exactly when the map says so and are the map operations
  they stand for, a refusal changes nothing, and all of them keep the layout of the array (complete
  entries last, no id twice).\<close>

theorem quest_log_map:
  assumes ok: "quest_ok sd" and db: "questdb_ok db"
  shows "(let can = db k \<noteq> None \<and> quest_map sd k = None; (r, sd') = quest_add junk db now sd k in
      quest_ok sd' \<and> (r = 0) = can
      \<and> quest_map sd' = (if can then (quest_map sd)(k \<mapsto> new_quest now (the (db k))) else quest_map sd))
    \<and> (let can = db k \<noteq> None \<and> quest_map sd k = None \<and> (\<exists>q. quest_map sd k1 = Some q \<and> qu_state q \<noteq> Q_COMPLETE);
          (r, sd') = quest_change db now sd k1 k in
      quest_ok sd' \<and> (r = 0) = can
      \<and> quest_map sd' = (if can then (quest_map sd)(k1 := None, k \<mapsto> new_quest now (the (db k))) else quest_map sd))
    \<and> (let (r, sd') = quest_delete junk sd k in
      quest_ok sd' \<and> (r = 0) = (quest_map sd k \<noteq> None) \<and> quest_map sd' = (quest_map sd)(k := None))
    \<and> (let can = (\<exists>q. quest_map sd k = Some q \<and> qu_state q \<noteq> Q_COMPLETE); (r, sd') = quest_update_status sd k st in
      quest_ok sd' \<and> (r = 0) = can
      \<and> quest_map sd' = (if can then (quest_map sd)(k \<mapsto> (the (quest_map sd k))\<lparr>qu_state := st\<rparr>) else quest_map sd))"
  unfolding Let_def
  by (intro conjI; split prod.split; intro allI impI)
     (use quest_add_ok [OF ok db] quest_change_ok [OF ok db] quest_delete_ok [OF ok] quest_update_status_ok [OF ok] in metis)+

theorem quest_log_map_witness:
  "\<exists>sd'. quest_update_status test_log 1001 Q_COMPLETE = (0, sd') \<and> quest_ok sd'
    \<and> quest_map sd' = (quest_map test_log)(1001 \<mapsto> test_quest 1001 Q_COMPLETE)"
proof -
  have "quest_map test_log 1001 = Some (test_quest 1001 Q_ACTIVE)" "qu_state (test_quest 1001 Q_ACTIVE) \<noteq> Q_COMPLETE"
    "(test_quest 1001 Q_ACTIVE)\<lparr>qu_state := Q_COMPLETE\<rparr> = test_quest 1001 Q_COMPLETE"
    by (simp_all add: test_log_map) (simp_all add: test_quest_def)
  then show ?thesis
    using quest_log_map [OF test_log_ok test_questdb_ok, of 1001 undefined 0 1001 Q_COMPLETE]
    by (cases "quest_update_status test_log 1001 Q_COMPLETE") (simp add: Let_def)
qed

text \<open>C34: a kill advances exactly the objectives of active quests that ask for the monster and are
  not met yet, each by one and so never past its goal, and a reload of the database drops exactly the
  entries it no longer knows; both keep the layout.\<close>

theorem quest_kill_reload:
  assumes ok: "quest_ok sd"
  shows "quest_ok (quest_update_objective db mob sd)
    \<and> quest_map (quest_update_objective db mob sd) = map_option (kill_entry db mob) \<circ> quest_map sd
    \<and> quest_ok (quest_reload_check_sub db sd)
    \<and> quest_map (quest_reload_check_sub db sd) = quest_map sd |` {k. db k \<noteq> None}"
  using quest_update_objective_ok [OF ok, of db mob] quest_reload_ok [OF ok, of db]
  by (auto simp: fun_eq_iff restrict_map_def)

theorem quest_kill_reload_witness:
  "quest_map (quest_update_objective test_questdb 1002 test_log) 1001 = Some \<lparr>qu_id = 1001, qu_time = 0, qu_count = [1, 0, 0], qu_state = Q_ACTIVE\<rparr>"
proof -
  have "kill_entry test_questdb 1002 (test_quest 1001 Q_ACTIVE) = \<lparr>qu_id = 1001, qu_time = 0, qu_count = [1, 0, 0], qu_state = Q_ACTIVE\<rparr>"
    by (simp add: kill_entry_def quest_search_def test_questdb_def test_quest_def upt_conv_Cons)
  then show ?thesis
    using quest_kill_reload [OF test_log_ok, of test_questdb 1002] test_log_map by simp
qed

text \<open>C35: when every entry that the character server sends is known to the database, the log holds
  exactly the entries sent, in the layout the other operations rely on.\<close>

theorem questlog_arrives:
  assumes "\<forall>q \<in> set received. db (qu_id q) \<noteq> None" "distinct (map qu_id received)"
  shows "quest_ok (intif_parse_questlog junk db sd received)
    \<and> quest_map (intif_parse_questlog junk db sd received) = map_of (map (\<lambda>q. (qu_id q, q)) received)"
  using assms by (rule quest_parse_ok)

theorem questlog_arrives_witness:
  "quest_ok (intif_parse_questlog zero_quest test_questdb test_log [test_quest 1002 Q_COMPLETE, test_quest 1001 Q_ACTIVE])
    \<and> quest_map (intif_parse_questlog zero_quest test_questdb test_log [test_quest 1002 Q_COMPLETE, test_quest 1001 Q_ACTIVE]) 1002
      = Some (test_quest 1002 Q_COMPLETE)"
  using questlog_arrives [of "[test_quest 1002 Q_COMPLETE, test_quest 1001 Q_ACTIVE]" test_questdb zero_quest test_log]
  by (simp add: test_questdb_def test_quest_def)

text \<open>When an unknown entry is skipped, the move that should close the gap overwrites the complete
  entries instead. Of one unknown and two complete quests both complete ones are lost and two blank entries
  take their place.\<close>

theorem questlog_gap_loses:
  assumes "quest_log sd = []" "db (qu_id u) = None" "db (qu_id q1) \<noteq> None" "db (qu_id q2) \<noteq> None"
    "qu_state q1 = Q_COMPLETE" "qu_state q2 = Q_COMPLETE"
  shows "intif_parse_questlog junk db sd [u, q1, q2] = sd\<lparr>num_quests := 2, avail_quests := 0, quest_log := [zero_quest, zero_quest]\<rparr>"
  using assms by (auto simp: intif_parse_questlog_def mem_move_def numeral_eq_Suc)

theorem questlog_gap_loses_witness:
  "intif_parse_questlog zero_quest test_questdb (test_log\<lparr>quest_log := []\<rparr>)
      [test_quest 7 Q_ACTIVE, test_quest 1002 Q_COMPLETE, test_quest 1003 Q_COMPLETE]
    = test_log\<lparr>num_quests := 2, avail_quests := 0, quest_log := [zero_quest, zero_quest]\<rparr>"
  using questlog_gap_loses [of "test_log\<lparr>quest_log := []\<rparr>" test_questdb "test_quest 7 Q_ACTIVE"
    "test_quest 1002 Q_COMPLETE" "test_quest 1003 Q_COMPLETE" zero_quest]
  by (simp add: test_questdb_def test_quest_def)

end
