(* ===== verification/Buyingstore.thy ===== *)
theory Buyingstore imports Cart begin

text \<open>
  Buying stores (\<^verbatim>\<open>src/map/buyingstore.c\<close>): a player offers to buy items up to an amount
  each and a limit of zeny over all of them. The buyer's session is his \<open>map_session_data\<close> and the
  fields of his store. All sums are kept at the width the source has: weights are \<open>unsigned int\<close>,
  prices \<open>int\<close>, amounts of an offer \<open>unsigned short\<close>.
\<close>

definition MAX_BUYINGSTORE_SLOTS :: nat where "MAX_BUYINGSTORE_SLOTS = 5"
definition BUYINGSTORE_MAX_PRICE :: int where "BUYINGSTORE_MAX_PRICE = 99990000"
definition BUYINGSTORE_MAX_AMOUNT :: int where "BUYINGSTORE_MAX_AMOUNT = 9999"

record s_buyingstore_item =
  bi_price :: int
  bi_amount :: int
  bi_nameid :: int

record s_buyingstore =
  bs_items :: "s_buyingstore_item list"
  bs_zenylimit :: int
  bs_slots :: nat
  bs_id :: int

text \<open>What the code looks up elsewhere: the feature switch, a mute, the flags of the map and the cell,
  whether the shop is in reach, whether the buyer is an automatic trader.\<close>

record buy_ctx =
  bx_feature :: bool
  bx_muted :: bool
  bx_novending_map :: bool
  bx_novending_cell :: bool
  bx_near :: bool

definition zero_offers :: "s_buyingstore_item list" where
  "zero_offers = replicate MAX_BUYINGSTORE_SLOTS \<lparr>bi_price = 0, bi_amount = 0, bi_nameid = 0\<rparr>"

section \<open>Opening and closing\<close>

definition buyingstore_setup :: "buy_ctx \<Rightarrow> map_session_data \<Rightarrow> s_buyingstore \<Rightarrow> nat \<Rightarrow> int \<times> s_buyingstore" where
  "buyingstore_setup c sd bs slots =
     (if \<not> bx_feature c \<or> st_vending sd \<or> st_buyingstore sd \<or> st_trading sd \<or> slots = 0 then (1, bs)
      else if bx_muted c then (2, bs)
      else if bx_novending_map c then (3, bs)
      else if bx_novending_cell c then (4, bs)
      else (0, bs\<lparr>bs_slots := (if slots > MAX_BUYINGSTORE_SLOTS then MAX_BUYINGSTORE_SLOTS else slots)\<rparr>))"

text \<open>The loop over the offers (item id, amount, price) from the \<open>i\<close>-th on: how far it came, the
  weight and the offers stored.\<close>

fun buy_offers :: "env \<Rightarrow> map_session_data \<Rightarrow> (int \<times> int \<times> int) list \<Rightarrow> nat \<Rightarrow> int \<Rightarrow> s_buyingstore_item list
    \<Rightarrow> nat \<times> int \<times> s_buyingstore_item list" where
  "buy_offers e sd [] i w l = (i, w, l)"
| "buy_offers e sd ((nid, amt, price) # ds) i w l =
     (case itemdb_exists (env_db e) nid of
        None \<Rightarrow> (i, w, l)
      | Some d \<Rightarrow>
          (let idx = pc_search_inventory sd nid in
           if amt = 0 then (i, w, l)
           else if price \<le> 0 \<or> price > BUYINGSTORE_MAX_PRICE then (i, w, l)
           else if \<not> flag_buyingstore d \<or> \<not> itemdb_cantrade_sub d (group_level sd) (group_level sd) \<or> idx = -1 then (i, w, l)
           else if amount (inventory sd ! nat idx) + amt > BUYINGSTORE_MAX_AMOUNT then (i, w, l)
           else if i \<noteq> 0 \<and> arr_find 0 i (\<lambda>x. bi_nameid (l ! x) = nid) \<noteq> i then (i, w, l)
           else buy_offers e sd ds (Suc i) (u32 (w + id_weight d * amt))
                  (l[i := \<lparr>bi_price = price, bi_amount = amt, bi_nameid = nid\<rparr>])))"

definition buyingstore_create ::
  "env \<Rightarrow> buy_ctx \<Rightarrow> int \<Rightarrow> map_session_data \<Rightarrow> s_buyingstore \<Rightarrow> int \<Rightarrow> int \<Rightarrow> string \<Rightarrow> (int \<times> int \<times> int) list
    \<Rightarrow> int \<times> map_session_data \<times> s_buyingstore \<times> int" where
  "buyingstore_create e c nextid sd bs limit result name items =
     (if result = 0 \<or> items = [] then (5, sd, bs, nextid)
      else if \<not> bx_feature c \<or> pc_istrading sd \<or> bs_slots bs = 0 \<or> length items > bs_slots bs \<or> limit \<le> 0 \<or> limit > zeny sd
        \<or> name = [] then (1, sd, bs\<lparr>bs_slots := 0\<rparr>, nextid)
      else if \<not> can_give_items sd then (6, sd, bs\<lparr>bs_slots := 0\<rparr>, nextid)
      else if bx_muted c then (2, sd, bs, nextid)
      else if bx_novending_map c then (3, sd, bs, nextid)
      else if bx_novending_cell c then (4, sd, bs, nextid)
      else
        (let (i, w, l) = buy_offers e sd items 0 (weight sd) (bs_items bs); bs = bs\<lparr>bs_items := l\<rparr> in
         if i \<noteq> length items then (5, sd, bs\<lparr>bs_slots := 0\<rparr>, nextid)
         else if u32 (max_weight sd * 90) div 100 < w then (7, sd, bs\<lparr>bs_slots := 0\<rparr>, nextid)
         else (0, sd\<lparr>st_buyingstore := True\<rparr>, bs\<lparr>bs_zenylimit := limit, bs_slots := i, bs_id := u32 (nextid + 1)\<rparr>, u32 (nextid + 1))))"

definition buyingstore_close :: "map_session_data \<Rightarrow> s_buyingstore \<Rightarrow> map_session_data \<times> s_buyingstore" where
  "buyingstore_close sd bs =
     (if st_buyingstore sd
      then (sd\<lparr>st_buyingstore := False\<rparr>, \<lparr>bs_items = zero_offers, bs_zenylimit = 0, bs_slots = 0, bs_id = 0\<rparr>)
      else (sd, bs))"

text \<open>Whether a store's list is shown to \<open>sd\<close>.\<close>

definition buyingstore_open :: "buy_ctx \<Rightarrow> map_session_data \<Rightarrow> map_session_data option \<Rightarrow> bool" where
  "buyingstore_open c sd pl =
     (if \<not> bx_feature c \<or> pc_istrading sd then False
      else if \<not> can_give_items sd then False
      else case pl of None \<Rightarrow> False | Some pl \<Rightarrow> st_buyingstore pl \<and> bx_near c)"

definition buyingstore_search :: "map_session_data \<Rightarrow> s_buyingstore \<Rightarrow> int \<Rightarrow> bool" where
  "buyingstore_search sd bs nid =
     (if \<not> st_buyingstore sd then False
      else arr_find 0 (bs_slots bs) (\<lambda>i. bi_nameid (bs_items bs ! i) = nid \<and> bi_amount (bs_items bs ! i) \<noteq> 0) \<noteq> bs_slots bs)"

section \<open>Selling to a store\<close>

datatype buy_reply = BUY_NONE | BUY_FAILED | BUY_COUNT | BUY_ZENY | BUY_DONE

definition buy_slot :: "s_buyingstore \<Rightarrow> int \<Rightarrow> nat" where
  "buy_slot bs nid = arr_find 0 (bs_slots bs) (\<lambda>i. bi_nameid (bs_items bs ! i) = nid)"

text \<open>The checks over the entries (inventory index plus two, item id, amount); \<open>seen\<close> holds the indices
  of the entries before. \<open>None\<close> when all pass.\<close>

fun buy_check :: "env \<Rightarrow> map_session_data \<Rightarrow> map_session_data \<Rightarrow> s_buyingstore \<Rightarrow> (int \<times> int \<times> int) list
    \<Rightarrow> int list \<Rightarrow> int \<Rightarrow> int \<Rightarrow> buy_reply option" where
  "buy_check e sd pl bs [] seen w z = None"
| "buy_check e sd pl bs ((ix, nid, amt) # ds) seen w z =
     (let index = ix - 2; it = inventory sd ! nat index; listidx = buy_slot bs nid; price = bi_price (bs_items bs ! listidx) in
      if index \<in> set seen then Some BUY_FAILED
      else if index < 0 \<or> index \<ge> int MAX_INVENTORY then Some BUY_FAILED
      else if inventory_data sd ! nat index = None \<or> nameid it \<noteq> nid \<or> amount it < amt then Some BUY_FAILED
      else if expire_time it \<noteq> 0 \<or> (bound it \<noteq> 0 \<and> \<not> can_give_bounded_items sd)
        \<or> \<not> itemdb_isrestricted (env_db e) it (group_level sd) (group_level pl) itemdb_cantrade_sub
        \<or> card it \<noteq> replicate MAX_SLOTS 0 then Some BUY_FAILED
      else if listidx = bs_slots bs \<or> bi_amount (bs_items bs ! listidx) = 0 then Some BUY_FAILED
      else if bi_amount (bs_items bs ! listidx) < amt then Some BUY_COUNT
      else if pc_checkadditem e pl nid amt = CHKADDITEM_OVERAMOUNT then Some BUY_FAILED
      else if u32 (amt * id_weight (the (inventory_data sd ! nat index))) > u32 (max_weight pl - w) then Some BUY_FAILED
      else if s32 (amt * price) > s32 (bs_zenylimit bs - z) then Some BUY_ZENY
      else buy_check e sd pl bs ds (seen @ [index]) (u32 (w + amt * id_weight (the (inventory_data sd ! nat index)))) (s32 (z + s32 (amt * price))))"

text \<open>One entry: the item moves (what \<open>pc_additem\<close> answers is not looked at), the offer shrinks, the
  buyer pays.\<close>

definition buy_move :: "env \<Rightarrow> int \<Rightarrow> int \<Rightarrow> map_session_data \<Rightarrow> map_session_data \<Rightarrow> map_session_data \<times> map_session_data" where
  "buy_move e index amt sd pl =
     (let (r, it, pl) = pc_additem e pl (inventory sd ! nat index) amt;
          sd = sd\<lparr>inventory := (inventory sd)[nat index := it]\<rparr>
      in (snd (pc_delitem e sd index amt), pl))"

definition buy_pay :: "int \<Rightarrow> map_session_data \<Rightarrow> map_session_data \<Rightarrow> map_session_data \<times> map_session_data" where
  "buy_pay z sd pl = (let pl = snd (pc_payzeny pl z) in (snd (pc_getzeny sd z), pl))"

definition buy_entry :: "env \<Rightarrow> int \<times> int \<times> int \<Rightarrow> map_session_data \<times> map_session_data \<times> s_buyingstore
    \<Rightarrow> map_session_data \<times> map_session_data \<times> s_buyingstore" where
  "buy_entry e = (\<lambda>(ix, nid, amt) (sd, pl, bs).
     (let j = buy_slot bs nid; o' = bs_items bs ! j; z = s32 (amt * bi_price o');
          (sd, pl) = buy_move e (ix - 2) amt sd pl;
          bs = bs\<lparr>bs_items := (bs_items bs)[j := o'\<lparr>bi_amount := u16 (bi_amount o' - amt)\<rparr>]\<rparr>;
          (sd, pl) = buy_pay z sd pl
      in (sd, pl, bs\<lparr>bs_zenylimit := s32 (bs_zenylimit bs - z)\<rparr>)))"

definition buyingstore_trade ::
  "env \<Rightarrow> buy_ctx \<Rightarrow> map_session_data \<Rightarrow> map_session_data \<Rightarrow> s_buyingstore \<Rightarrow> int \<Rightarrow> (int \<times> int \<times> int) list
    \<Rightarrow> buy_reply \<times> map_session_data \<times> map_session_data \<times> s_buyingstore" where
  "buyingstore_trade e c sd pl bs buyer_id items =
     (if items = [] then (BUY_NONE, sd, pl, bs)
      else if \<not> bx_feature c \<or> pc_istrading sd then (BUY_FAILED, sd, pl, bs)
      else if \<not> can_give_items sd then (BUY_FAILED, sd, pl, bs)
      else if \<not> st_buyingstore pl \<or> bs_id bs \<noteq> buyer_id then (BUY_FAILED, sd, pl, bs)
      else if \<not> bx_near c then (BUY_FAILED, sd, pl, bs)
      else
        (let bs = (if zeny pl < bs_zenylimit bs then bs\<lparr>bs_zenylimit := zeny pl\<rparr> else bs) in
         case buy_check e sd pl bs items [] (weight pl) 0 of
           Some r \<Rightarrow> (r, sd, pl, bs)
         | None \<Rightarrow>
             (let (sd, pl, bs) = foldl (\<lambda>st en. buy_entry e en st) (sd, pl, bs) items;
                  i = arr_find 0 (bs_slots bs) (\<lambda>i. bi_amount (bs_items bs ! i) \<noteq> 0);
                  (pl, bs) = (if i = bs_slots bs \<or> bs_zenylimit bs = 0 then buyingstore_close pl bs else (pl, bs))
              in (BUY_DONE, sd, pl, bs))))"

end
