(* ===== verification/Vending.thy ===== *)
theory Vending imports Cart begin

text \<open>
  Player shops (\<^verbatim>\<open>src/map/vending.c\<close>). A vender's session is his
  \<open>map_session_data\<close> and the fields of his shop: the offers in the slots of \<open>sd->vending\<close>, their
  number, the shop's id (\<open>vender_id\<close>) and the flag of the vending skill. The price a buyer pays is
  added up in a \<open>double\<close> in the source, exactly for the values that pass the checks, so it is an
  \<open>int\<close> here; what the tax leaves of it is computed with fractions and is the parameter \<open>vx_net\<close>.
\<close>

definition MAX_VENDING :: nat where "MAX_VENDING = 12"

record s_vending =
  ve_index :: int
  ve_amount :: int
  ve_value :: int

record shop =
  sh_items :: "s_vending list"
  sh_num :: nat
  sh_id :: int
  sh_prevend :: bool

record vend_ctx =
  vx_near :: bool
  vx_over_max :: bool
  vx_net :: "int \<Rightarrow> int"
  vx_autotrade :: bool

datatype vend_reply = VEND_NONE | VEND_FAIL int | VEND_SOLD

section \<open>Closing and searching\<close>

definition vending_closevending :: "map_session_data \<Rightarrow> shop \<Rightarrow> map_session_data \<times> shop" where
  "vending_closevending sd sh =
     (if st_vending sd then (sd\<lparr>st_vending := False\<rparr>, sh\<lparr>sh_id := 0\<rparr>) else (sd, sh))"

definition vending_search :: "map_session_data \<Rightarrow> shop \<Rightarrow> int \<Rightarrow> bool" where
  "vending_search sd sh nid =
     (if \<not> st_vending sd then False
      else arr_find 0 (sh_num sh) (\<lambda>i. nameid (cart sd ! nat (ve_index (sh_items sh ! i))) = s16 nid) \<noteq> sh_num sh)"

text \<open>Asking for the list of a shop registers its id with the buyer; \<open>None\<close> when nothing is sent.\<close>

definition vending_vendinglistreq :: "map_session_data \<Rightarrow> map_session_data option \<Rightarrow> shop \<Rightarrow> int option" where
  "vending_vendinglistreq sd vsd sh =
     (case vsd of None \<Rightarrow> None
      | Some vsd \<Rightarrow>
          if \<not> st_vending vsd then None
          else if \<not> can_give_items sd \<or> \<not> can_give_items vsd then None
          else Some (sh_id sh))"

section \<open>Buying\<close>

text \<open>One entry of the packet: two 16 bit words, amount and cart index plus two.\<close>

definition vend_entry :: "int \<times> int \<Rightarrow> int \<times> int" where
  "vend_entry = (\<lambda>(a, i). (s16 a, s16 (s16 i - 2)))"

text \<open>The checks over the entries: price \<open>z\<close>, weight \<open>w\<close>, new slots needed, the copy of the offers
  that keeps the amounts still for sale, and the offer found for each entry.\<close>

fun vend_check :: "env \<Rightarrow> vend_ctx \<Rightarrow> map_session_data \<Rightarrow> map_session_data \<Rightarrow> shop \<Rightarrow> int
    \<Rightarrow> (int \<times> int) list \<Rightarrow> int \<Rightarrow> int \<Rightarrow> int \<Rightarrow> s_vending list \<Rightarrow> nat list \<Rightarrow> vend_reply + int \<times> nat list" where
  "vend_check e c sd vsd sh blank [] z w new vl js = Inr (z, js)"
| "vend_check e c sd vsd sh blank ((amt, idx) # ds) z w new vl js =
     (if amt \<le> 0 then Inl VEND_NONE
      else if idx < 0 \<or> idx \<ge> int MAX_CART then Inl VEND_NONE
      else let j = arr_find 0 (sh_num sh) (\<lambda>j. ve_index (sh_items sh ! j) = idx) in
        if j = sh_num sh then Inl VEND_NONE
        else let z = z + ve_value (sh_items sh ! j) * amt in
          if z > zeny sd \<or> z < 0 \<or> z > MAX_ZENY then Inl (VEND_FAIL 1)
          else if z + zeny vsd > MAX_ZENY \<and> \<not> vx_over_max c then Inl (VEND_FAIL 4)
          else let it = cart vsd ! nat idx; w = s32 (w + id_weight (itemdb_search (env_db e) (nameid it)) * amt) in
            if u32 (w + weight sd) > max_weight sd then Inl (VEND_FAIL 2)
            else let left = (if ve_amount (vl ! j) > amount it then amount it else ve_amount (vl ! j)) in
              if left < amt then Inl (VEND_FAIL 4)
              else let vl = vl[j := (vl ! j)\<lparr>ve_amount := left - amt\<rparr>] in
                (case pc_checkadditem e sd (nameid it) amt of
                   CHKADDITEM_EXIST \<Rightarrow> vend_check e c sd vsd sh blank ds z w new vl (js @ [j])
                 | CHKADDITEM_NEW \<Rightarrow>
                     if new + 1 > blank then Inl VEND_NONE
                     else vend_check e c sd vsd sh blank ds z w (new + 1) vl (js @ [j])
                 | CHKADDITEM_OVERAMOUNT \<Rightarrow> Inl VEND_NONE))"

text \<open>The transfer of one entry. What \<open>pc_additem\<close> answers is not looked at.\<close>

definition vend_give :: "env \<Rightarrow> int \<Rightarrow> nat \<Rightarrow> map_session_data \<Rightarrow> map_session_data \<Rightarrow> map_session_data \<times> map_session_data" where
  "vend_give e amt n sd vsd =
     (let (r, it, sd) = pc_additem e sd (cart vsd ! n) amt
      in (sd, pc_cart_delitem e (vsd\<lparr>cart := (cart vsd)[n := it]\<rparr>) n amt))"

fun vend_exec :: "env \<Rightarrow> ((int \<times> int) \<times> nat) list \<Rightarrow> map_session_data \<Rightarrow> map_session_data \<Rightarrow> s_vending list
    \<Rightarrow> map_session_data \<times> map_session_data \<times> s_vending list" where
  "vend_exec e [] sd vsd vl = (sd, vsd, vl)"
| "vend_exec e (((amt, idx), j) # ds) sd vsd vl =
     (let (sd, vsd) = vend_give e amt (nat idx) sd vsd
      in vend_exec e ds sd vsd (vl[j := (vl ! j)\<lparr>ve_amount := s16 (ve_amount (vl ! j) - amt)\<rparr>]))"

text \<open>The offers that are left move to the front.\<close>

fun vend_compact :: "nat \<Rightarrow> nat \<Rightarrow> nat \<Rightarrow> s_vending list \<Rightarrow> nat \<times> s_vending list" where
  "vend_compact 0 i cursor vl = (cursor, vl)"
| "vend_compact (Suc n) i cursor vl =
     (if ve_amount (vl ! i) = 0 then vend_compact n (Suc i) cursor vl
      else vend_compact n (Suc i) (Suc cursor) (if cursor \<noteq> i then vl[cursor := vl ! i] else vl))"

definition vending_purchasereq ::
  "env \<Rightarrow> vend_ctx \<Rightarrow> map_session_data \<Rightarrow> map_session_data \<Rightarrow> shop \<Rightarrow> int \<Rightarrow> (int \<times> int) list
    \<Rightarrow> vend_reply \<times> map_session_data \<times> map_session_data \<times> shop" where
  "vending_purchasereq e c sd vsd sh uid data =
     (if \<not> st_vending vsd \<or> account_id vsd = account_id sd then (VEND_NONE, sd, vsd, sh)
      else if sh_id sh \<noteq> uid then (VEND_FAIL 6, sd, vsd, sh)
      else if \<not> vx_near c then (VEND_NONE, sd, vsd, sh)
      else if length data < 1 \<or> length data > MAX_VENDING \<or> length data > sh_num sh then (VEND_NONE, sd, vsd, sh)
      else let ds = map vend_entry data in
        (case vend_check e c sd vsd sh (pc_inventoryblank sd) ds 0 0 0 (sh_items sh) [] of
           Inl r \<Rightarrow> (r, sd, vsd, sh)
         | Inr (z, js) \<Rightarrow>
             (let sd = snd (pc_payzeny sd z);
                  vsd = snd (pc_getzeny vsd (vx_net c z));
                  (sd, vsd, vl) = vend_exec e (zip ds js) sd vsd (sh_items sh);
                  (num, vl) = vend_compact (sh_num sh) 0 0 vl;
                  sh = sh\<lparr>sh_items := vl, sh_num := num\<rparr>;
                  (vsd, sh) = (if vx_autotrade c \<and> arr_find 0 num (\<lambda>i. ve_amount (vl ! i) > 0) = num
                               then vending_closevending vsd sh else (vsd, sh))
              in (VEND_SOLD, sd, vsd, sh))))"

section \<open>Opening a shop\<close>

definition vend_offer_ok :: "env \<Rightarrow> map_session_data \<Rightarrow> int \<Rightarrow> int \<Rightarrow> bool" where
  "vend_offer_ok e sd idx amt =
     (if idx < 0 \<or> idx \<ge> int MAX_CART then False
      else let it = cart sd ! nat idx in
        \<not> (pc_cartitem_amount sd (nat idx) amt < 0 \<or> identify it = 0 \<or> attribute it = 1 \<or> expire_time it \<noteq> 0
           \<or> (bound it \<noteq> 0 \<and> \<not> can_give_bounded_items sd)
           \<or> \<not> itemdb_isrestricted (env_db e) it (group_level sd) (group_level sd) itemdb_cantrade_sub))"

text \<open>The loop over the offers of the packet (index word, amount word, value): the offers taken so
  far, and whether an item without a database id stopped it.\<close>

fun vend_filter :: "env \<Rightarrow> map_session_data \<Rightarrow> int \<Rightarrow> (int \<times> int \<times> int) list \<Rightarrow> nat \<Rightarrow> s_vending list \<Rightarrow> bool \<times> nat \<times> s_vending list" where
  "vend_filter e sd maxv [] i vl = (True, i, vl)"
| "vend_filter e sd maxv ((x, a, v) # ds) i vl =
     (let idx = s16 (s16 x - 2); amt = s16 a in
      if \<not> vend_offer_ok e sd idx amt then vend_filter e sd maxv ds i vl
      else let vl = vl[i := \<lparr>ve_index = idx, ve_amount = amt, ve_value = min v maxv\<rparr>] in
        if item_id (cart sd ! nat idx) = 0 then (False, i, vl)
        else vend_filter e sd maxv ds (Suc i) vl)"

text \<open>The rows of the offers written to the database: as many as the packet had, whatever was
  filtered out.\<close>

definition vend_rows :: "map_session_data \<Rightarrow> shop \<Rightarrow> nat \<Rightarrow> (nat \<times> int \<times> int \<times> int) list" where
  "vend_rows sd sh n = map (\<lambda>i. let o' = sh_items sh ! i in (i, item_id (cart sd ! nat (ve_index o')), ve_amount o', ve_value o')) [0..<n]"

text \<open>\<open>skill_lvl\<close> is the vending skill, \<open>nextid\<close> the id counter, \<open>maxv\<close> the configured highest price.\<close>

definition vending_openvending ::
  "env \<Rightarrow> bool \<Rightarrow> int \<Rightarrow> bool \<Rightarrow> int \<Rightarrow> int \<Rightarrow> map_session_data \<Rightarrow> shop \<Rightarrow> (int \<times> int \<times> int) list
    \<Rightarrow> int \<times> map_session_data \<times> shop \<times> int \<times> (nat \<times> int \<times> int \<times> int) list" where
  "vending_openvending e dead skill_lvl carton maxv nextid sd sh data =
     (if dead \<or> \<not> sh_prevend sh \<or> pc_istrading sd then (1, sd, sh, nextid, [])
      else if skill_lvl = 0 \<or> \<not> carton then (2, sd, sh, nextid, [])
      else if length data < 1 \<or> length data > MAX_VENDING \<or> int (length data) > 2 + skill_lvl then (3, sd, sh, nextid, [])
      else
        (let (ids, i, vl) = vend_filter e sd maxv data 0 (sh_items sh); sh = sh\<lparr>sh_items := vl\<rparr> in
         if \<not> ids then (4, sd, sh, nextid, [])
         else if i = 0 then (5, sd, sh, nextid, [])
         else
           (let sh = sh\<lparr>sh_prevend := False, sh_id := nextid + 1, sh_num := i\<rparr>; sd = sd\<lparr>st_vending := True\<rparr>
            in (0, sd, sh, nextid + 1, vend_rows sd sh (length data)))))"

end
