(* ===== verification/VendingOps.thy ===== *)
theory VendingOps imports Vending TradeOps begin

text \<open>
  Purchases from a shop: what the checks guarantee, and what the transfer does with the goods of the
  two players. Items that \<open>pc_additem\<close> refuses are the only ones that disappear.
\<close>

section \<open>Entries\<close>

text \<open>How much of a cart slot the entries ask for.\<close>

definition vend_need :: "(int \<times> int) list \<Rightarrow> nat \<Rightarrow> int" where
  "vend_need ds n = (\<Sum>(a, i)\<leftarrow>ds. if i = int n then a else 0)"

definition vend_entries :: "(int \<times> int) list \<Rightarrow> bool" where
  "vend_entries ds \<longleftrightarrow> (\<forall>(a, i) \<in> set ds. 0 < a \<and> 0 \<le> i \<and> i < int MAX_CART)"

definition vend_first :: "shop \<Rightarrow> int \<Rightarrow> nat" where
  "vend_first sh idx = arr_find 0 (sh_num sh) (\<lambda>j. ve_index (sh_items sh ! j) = idx)"

text \<open>The price of the entries.\<close>

definition vend_price :: "shop \<Rightarrow> (int \<times> int) list \<Rightarrow> int" where
  "vend_price sh ds = (\<Sum>(a, i)\<leftarrow>ds. ve_value (sh_items sh ! vend_first sh i) * a)"

lemma vend_need_simps [simp]:
  "vend_need [] n = 0" "vend_need ((a, i) # ds) n = (if i = int n then a else 0) + vend_need ds n"
  by (simp_all add: vend_need_def)

lemma vend_entries_simps [simp]:
  "vend_entries []" "vend_entries ((a, i) # ds) \<longleftrightarrow> 0 < a \<and> 0 \<le> i \<and> i < int MAX_CART \<and> vend_entries ds"
  by (simp_all add: vend_entries_def)

lemma vend_price_simps [simp]:
  "vend_price sh [] = 0" "vend_price sh ((a, i) # ds) = ve_value (sh_items sh ! vend_first sh i) * a + vend_price sh ds"
  by (simp_all add: vend_price_def)

lemma vend_need_nonneg: "vend_entries ds \<Longrightarrow> 0 \<le> vend_need ds n"
  by (induction ds) auto

lemma vend_need_out: "int n \<notin> snd ` set ds \<Longrightarrow> vend_need ds n = 0"
  by (induction ds) auto

section \<open>The checks\<close>

lemma vend_check_step:
  assumes "vend_check e c sd vsd sh blank ((a, i) # ds) z w new vl js = Inr (z', js')"
  obtains w' new' where "0 < a" "0 \<le> i" "i < int MAX_CART" "vend_first sh i < sh_num sh"
    "0 \<le> z + ve_value (sh_items sh ! vend_first sh i) * a" "z + ve_value (sh_items sh ! vend_first sh i) * a \<le> zeny sd"
    "z + ve_value (sh_items sh ! vend_first sh i) * a \<le> MAX_ZENY"
    "vx_over_max c \<or> z + ve_value (sh_items sh ! vend_first sh i) * a + zeny vsd \<le> MAX_ZENY"
    "a \<le> min (ve_amount (vl ! vend_first sh i)) (amount (cart vsd ! nat i))"
    "vend_check e c sd vsd sh blank ds (z + ve_value (sh_items sh ! vend_first sh i) * a) w' new'
       (vl[vend_first sh i := (vl ! vend_first sh i)\<lparr>ve_amount := min (ve_amount (vl ! vend_first sh i)) (amount (cart vsd ! nat i)) - a\<rparr>])
       (js @ [vend_first sh i]) = Inr (z', js')"
proof -
  have le: "vend_first sh i \<le> sh_num sh" unfolding vend_first_def by (rule arr_find_le) simp
  have m: "(if x > y then y else x) = min x y" for x y :: int by auto
  let ?j = "vend_first sh i" and ?left = "min (ve_amount (vl ! vend_first sh i)) (amount (cart vsd ! nat i))"
  let ?z = "z + ve_value (sh_items sh ! ?j) * a"
  have "0 < a \<and> 0 \<le> i \<and> i < int MAX_CART \<and> ?j \<noteq> sh_num sh \<and> 0 \<le> ?z \<and> ?z \<le> zeny sd \<and> ?z \<le> MAX_ZENY
      \<and> (vx_over_max c \<or> ?z + zeny vsd \<le> MAX_ZENY) \<and> a \<le> ?left
      \<and> (\<exists>w' new'. vend_check e c sd vsd sh blank ds ?z w' new' (vl[?j := (vl ! ?j)\<lparr>ve_amount := ?left - a\<rparr>]) (js @ [?j]) = Inr (z', js'))"
    using assms unfolding vend_check.simps Let_def vend_first_def [symmetric] m
    by (auto simp del: min_less_iff_conj min.bounded_iff simp: not_less not_le split: if_splits chkitem.splits)
  then show ?thesis using that le by (metis le_neq_implies_less)
qed

lemma vend_check_ok:
  assumes "vend_check e c sd vsd sh blank ds z w new vl js = Inr (z', js')" "sh_num sh \<le> length vl"
  shows "js' = js @ map (\<lambda>(a, i). vend_first sh i) ds \<and> vend_entries ds \<and> z' = z + vend_price sh ds
    \<and> (ds \<noteq> [] \<longrightarrow> 0 \<le> z' \<and> z' \<le> zeny sd \<and> z' \<le> MAX_ZENY \<and> (vx_over_max c \<or> z' + zeny vsd \<le> MAX_ZENY))
    \<and> (\<forall>(a, i) \<in> set ds. vend_first sh i < sh_num sh
        \<and> vend_need ds (nat i) \<le> min (ve_amount (vl ! vend_first sh i)) (amount (cart vsd ! nat i)))"
  using assms
proof (induction ds arbitrary: z w new vl js)
  case Nil
  then show ?case by simp
next
  case (Cons d ds)
  obtain a i where d: "d = (a, i)" by (rule prod.exhaust)
  let ?j = "vend_first sh i" and ?left = "min (ve_amount (vl ! vend_first sh i)) (amount (cart vsd ! nat i))"
  let ?vl = "vl[?j := (vl ! ?j)\<lparr>ve_amount := ?left - a\<rparr>]" and ?z = "z + ve_value (sh_items sh ! ?j) * a"
  obtain w' new' where s: "0 < a" "0 \<le> i" "i < int MAX_CART" "?j < sh_num sh" "0 \<le> ?z" "?z \<le> zeny sd" "?z \<le> MAX_ZENY"
      "vx_over_max c \<or> ?z + zeny vsd \<le> MAX_ZENY" "a \<le> ?left"
      "vend_check e c sd vsd sh blank ds ?z w' new' ?vl (js @ [?j]) = Inr (z', js')"
    using vend_check_step [OF Cons.prems(1) [unfolded d]] by metis
  have IH: "js' = (js @ [?j]) @ map (\<lambda>(a, i). vend_first sh i) ds \<and> vend_entries ds \<and> z' = ?z + vend_price sh ds
    \<and> (ds \<noteq> [] \<longrightarrow> 0 \<le> z' \<and> z' \<le> zeny sd \<and> z' \<le> MAX_ZENY \<and> (vx_over_max c \<or> z' + zeny vsd \<le> MAX_ZENY))
    \<and> (\<forall>(a, i) \<in> set ds. vend_first sh i < sh_num sh
        \<and> vend_need ds (nat i) \<le> min (ve_amount (?vl ! vend_first sh i)) (amount (cart vsd ! nat i)))"
    by (rule Cons.IH [OF s(10)]) (use Cons.prems(2) in simp)
  then have en: "vend_entries ds" by blast
  have ji: "ve_index (sh_items sh ! vend_first sh x) = x" if "vend_first sh x < sh_num sh" for x
    using arr_find_holds [OF _ that [unfolded vend_first_def]] by (simp add: vend_first_def)
  have head: "vend_need ds (nat i) + a \<le> ?left"
  proof (cases "i \<in> snd ` set ds")
    case True
    then obtain b where "(b, i) \<in> set ds" by auto
    then have "vend_need ds (nat i) \<le> ve_amount (?vl ! ?j)" using IH by fastforce
    then have "vend_need ds (nat i) \<le> ?left - a" using s(4) Cons.prems(2) by simp
    then show ?thesis by linarith
  next
    case False
    then show ?thesis using s(2,9) by (simp add: vend_need_out)
  qed
  have tail: "vend_first sh x < sh_num sh \<and> vend_need (d # ds) (nat x) \<le> min (ve_amount (vl ! vend_first sh x)) (amount (cart vsd ! nat x))"
    if "(b, x) \<in> set ds" for b x
  proof -
    have x: "vend_first sh x < sh_num sh" "0 \<le> x"
        "vend_need ds (nat x) \<le> min (ve_amount (?vl ! vend_first sh x)) (amount (cart vsd ! nat x))"
      using IH that by (fastforce simp: vend_entries_def)+
    show ?thesis
    proof (cases "x = i")
      case True
      then show ?thesis using x head s(2) d by simp
    next
      case False
      then have "vend_first sh x \<noteq> ?j" using ji [OF x(1)] ji [OF s(4)] by metis
      then show ?thesis using x s(2) False d by simp
    qed
  qed
  have "vend_need (d # ds) (nat i) \<le> ?left" using head s(2) d by simp
  then have all: "\<forall>(b, x) \<in> set (d # ds). vend_first sh x < sh_num sh
      \<and> vend_need (d # ds) (nat x) \<le> min (ve_amount (vl ! vend_first sh x)) (amount (cart vsd ! nat x))"
    using s(4) tail unfolding d by (simp only: list.set ball_simps prod.case) blast
  have z: "0 \<le> z' \<and> z' \<le> zeny sd \<and> z' \<le> MAX_ZENY \<and> (vx_over_max c \<or> z' + zeny vsd \<le> MAX_ZENY)"
  proof (cases "ds = []")
    case True
    then have "z' = ?z" using IH by simp
    then show ?thesis using s(5-8) by simp
  next
    case False
    then show ?thesis using IH by blast
  qed
  have p: "js' = js @ map (\<lambda>(a, i). vend_first sh i) (d # ds)" "vend_entries (d # ds)" "z' = z + vend_price sh (d # ds)"
    using IH s(1-3) by (simp_all add: d)
  show ?case by (intro conjI impI p all z [THEN conjunct1] z [THEN conjunct2, THEN conjunct1] z [THEN conjunct2, THEN conjunct2, THEN conjunct1] z [THEN conjunct2, THEN conjunct2, THEN conjunct2])
qed

section \<open>The transfer\<close>

definition vend_state :: "env \<Rightarrow> map_session_data \<Rightarrow> map_session_data \<Rightarrow> bool" where
  "vend_state e sd vsd \<longleftrightarrow> inv_src_ok e sd \<and> cart_ok e vsd \<and> (\<forall>it \<in> set (cart vsd). not_expired e it)"

text \<open>What disappears in the transfer: the entries that \<open>pc_additem\<close> refuses.\<close>

fun vend_lost :: "env \<Rightarrow> int \<Rightarrow> (int \<times> int) list \<Rightarrow> map_session_data \<Rightarrow> map_session_data \<Rightarrow> int" where
  "vend_lost e k [] sd vsd = 0"
| "vend_lost e k ((amt, idx) # ds) sd vsd =
     (if fst (pc_additem e sd (cart vsd ! nat idx) amt) \<noteq> 0 \<and> k = nameid (cart vsd ! nat idx) then amt else 0)
     + (case vend_give e amt (nat idx) sd vsd of (sd', vsd') \<Rightarrow> vend_lost e k ds sd' vsd')"

lemma cart_delitem_at:
  assumes ok: "cart_ok e sd" and n: "n < MAX_CART" "nameid (cart sd ! n) \<noteq> 0" and amt: "0 < amt" "amt \<le> amount (cart sd ! n)" and m: "m < MAX_CART"
  shows "amount (cart (pc_cart_delitem e sd n amt) ! m) = amount (cart sd ! m) - (if m = n then amt else 0)
    \<and> (not_expired e (cart sd ! m) \<longrightarrow> not_expired e (cart (pc_cart_delitem e sd n amt) ! m))"
proof -
  have so: "slot_ok (cart sd ! n)" and len: "length (cart sd) = MAX_CART" using ok n by (simp_all add: cart_ok_def)
  have s: "s16 (amount (cart sd ! n) - amt) = amount (cart sd ! n) - amt"
    using so n amt by (intro s16_id) (auto simp: slot_ok_def MAX_AMOUNT_def)
  show ?thesis using n amt m len by (auto simp: pc_cart_delitem_def Let_def s nth_list_update not_expired_def zero_item_def)
qed

lemma vend_give_ok:
  assumes st: "vend_state e sd vsd" and n: "n < MAX_CART" and amt: "0 < amt" "amt \<le> amount (cart vsd ! n)"
    and g: "vend_give e amt n sd vsd = (sd', vsd')"
  shows "vend_state e sd' vsd' \<and> inv_frame sd sd' \<and> cart_frame vsd vsd'
    \<and> (\<forall>m < MAX_CART. amount (cart vsd' ! m) = amount (cart vsd ! m) - (if m = n then amt else 0))
    \<and> (\<forall>k. count_item k (inventory sd') + count_item k (cart vsd')
        + (if fst (pc_additem e sd (cart vsd ! n) amt) \<noteq> 0 \<and> k = nameid (cart vsd ! n) then amt else 0)
        = count_item k (inventory sd) + count_item k (cart vsd))"
proof -
  let ?x = "cart vsd ! n"
  have ok: "inv_src_ok e sd" "cart_ok e vsd" "\<forall>it \<in> set (cart vsd). not_expired e it" using st by (simp_all add: vend_state_def)
  have len: "length (cart vsd) = MAX_CART" and so: "slot_ok ?x" and ne: "not_expired e ?x" using ok n by (simp_all add: cart_ok_def)
  obtain r it s where a: "pc_additem e sd ?x amt = (r, it, s)" by (rule prod_cases3)
  let ?v = "cart_write vsd n it"
  have g': "sd' = s" "vsd' = pc_cart_delitem e ?v n amt" using g a by (simp_all add: vend_give_def cart_write_def)
  have i: "inv_src_ok e s \<and> inv_frame sd s \<and> same_kind ?x it
      \<and> (\<forall>k. count_item k (inventory s) = count_item k (inventory sd) + (if (r = 0) \<and> k = nameid ?x then amt else 0))"
    by (rule inv_add_ok [OF ok(1) so ne]) (simp add: inv_add_def a)
  then have sk: "nameid it = nameid ?x" "amount it = amount ?x" "expire_time it = expire_time ?x" by (simp_all add: same_kind_def)
  have w: "cart_ok e ?v" "cart_frame vsd ?v" using cart_write_ok [OF ok(2), of n it] i n len by simp_all
  have vn: "cart ?v ! n = it" "\<And>m. m \<noteq> n \<Longrightarrow> cart ?v ! m = cart vsd ! m" using n len by (simp_all add: cart_write_def)
  have x: "nameid ?x \<noteq> 0" using so amt by (auto simp: slot_ok_def)
  have del: "cart_ok e vsd'" "cart_frame ?v vsd'"
    "count_item k (cart vsd') = count_item k (cart ?v) - (if k = nameid ?x then amt else 0)" for k
    using cart_delitem_ok [OF w(1) n _ amt(1)] vn(1) sk x amt by (simp_all add: g')
  have at: "amount (cart vsd' ! m) = amount (cart ?v ! m) - (if m = n then amt else 0)
      \<and> (not_expired e (cart ?v ! m) \<longrightarrow> not_expired e (cart vsd' ! m))" if "m < MAX_CART" for m
    using cart_delitem_at [OF w(1) n _ amt(1) _ that] vn(1) sk x amt by (simp add: g')
  have ev: "amount (cart ?v ! m) = amount (cart vsd ! m)" "not_expired e (cart ?v ! m)" if "m < MAX_CART" for m
    using vn sk that ok(3) len by (cases "m = n"; simp add: not_expired_def; metis nth_mem)+
  have ck: "count_item k (cart ?v) = count_item k (cart vsd)" for k
    using count_same_kind [of n "cart vsd" it k] n len i by (simp add: cart_write_def)
  have "not_expired e it'" if "it' \<in> set (cart vsd')" for it'
    using that del(1) at ev by (auto simp: in_set_conv_nth cart_ok_def)
  then have "vend_state e sd' vsd'" using i del(1) by (simp add: vend_state_def g'(1))
  moreover have "cart_frame vsd vsd'" by (rule cart_frame_trans [OF w(2) del(2)])
  ultimately show ?thesis using i at ev del(3) ck by (simp add: g'(1) a)
qed

lemma vend_exec_ok:
  assumes "vend_state e sd vsd" "vend_entries (map fst ds)" "\<forall>n < MAX_CART. vend_need (map fst ds) n \<le> amount (cart vsd ! n)"
    "vend_exec e ds sd vsd vl = (sd', vsd', vl')"
  shows "vend_state e sd' vsd' \<and> inv_frame sd sd' \<and> cart_frame vsd vsd'
    \<and> (\<forall>k. count_item k (inventory sd') + count_item k (cart vsd') + vend_lost e k (map fst ds) sd vsd
        = count_item k (inventory sd) + count_item k (cart vsd))"
  using assms
proof (induction ds arbitrary: sd vsd vl)
  case Nil
  then show ?case by simp
next
  case (Cons d ds)
  obtain a i j where d: "d = ((a, i), j)" by (metis prod.exhaust)
  obtain s v where g: "vend_give e a (nat i) sd vsd = (s, v)" by (rule prod.exhaust)
  have e: "0 < a" "0 \<le> i" "i < int MAX_CART" "vend_entries (map fst ds)" using Cons.prems(2) d by simp_all
  have ni: "nat i < MAX_CART" "int (nat i) = i" using e by simp_all
  have nd: "a \<le> amount (cart vsd ! nat i)"
    using Cons.prems(3) [rule_format, OF ni(1)] ni(2) vend_need_nonneg [OF e(4), of "nat i"] by (simp add: d)
  have st: "vend_state e s v \<and> inv_frame sd s \<and> cart_frame vsd v
    \<and> (\<forall>m < MAX_CART. amount (cart v ! m) = amount (cart vsd ! m) - (if m = nat i then a else 0))
    \<and> (\<forall>k. count_item k (inventory s) + count_item k (cart v)
        + (if fst (pc_additem e sd (cart vsd ! nat i) a) \<noteq> 0 \<and> k = nameid (cart vsd ! nat i) then a else 0)
        = count_item k (inventory sd) + count_item k (cart vsd))"
    by (rule vend_give_ok [OF Cons.prems(1) ni(1) e(1) nd g])
  have need: "\<forall>n < MAX_CART. vend_need (map fst ds) n \<le> amount (cart v ! n)"
  proof (intro allI impI)
    fix n assume n: "n < MAX_CART"
    show "vend_need (map fst ds) n \<le> amount (cart v ! n)"
      using Cons.prems(3) [rule_format, OF n] st n ni(2) by (auto simp: d split: if_splits)
  qed
  have "vend_exec e ds s v (vl[j := (vl ! j)\<lparr>ve_amount := s16 (ve_amount (vl ! j) - a)\<rparr>]) = (sd', vsd', vl')"
    using Cons.prems(4) by (simp add: d g)
  note IH = Cons.IH [OF _ e(4) need this]
  have "count_item k (inventory sd') + count_item k (cart vsd') + vend_lost e k (map fst (d # ds)) sd vsd
      = count_item k (inventory sd) + count_item k (cart vsd)" for k
  proof -
    have "count_item k (inventory sd') + count_item k (cart vsd') + vend_lost e k (map fst ds) s v
      = count_item k (inventory s) + count_item k (cart v)" using IH st by blast
    moreover have "count_item k (inventory s) + count_item k (cart v)
        + (if fst (pc_additem e sd (cart vsd ! nat i) a) \<noteq> 0 \<and> k = nameid (cart vsd ! nat i) then a else 0)
        = count_item k (inventory sd) + count_item k (cart vsd)" using st by blast
    ultimately show ?thesis unfolding d list.map fst_conv vend_lost.simps g prod.case by linarith
  qed
  then show ?case using IH st inv_frame_trans [of sd s sd'] cart_frame_trans [of vsd v vsd'] by blast
qed

section \<open>The offers that are left\<close>

lemma vend_compact_eq:
  "i + n \<le> length l \<Longrightarrow> j \<le> i \<Longrightarrow> vend_compact n i j l = (j', l') \<Longrightarrow>
    take j' l' = take j l @ filter (\<lambda>o'. ve_amount o' \<noteq> 0) (take n (drop i l)) \<and> length l' = length l \<and> j' \<le> i + n"
proof (induction n arbitrary: i j l)
  case 0
  then show ?case by simp
next
  case (Suc n)
  have i: "i < length l" using Suc.prems by simp
  have d: "take (Suc n) (drop i l) = l ! i # take n (drop (Suc i) l)" using i by (metis Cons_nth_drop_Suc take_Suc_Cons)
  show ?case
  proof (cases "ve_amount (l ! i) = 0")
    case True
    then show ?thesis using Suc.IH [of "Suc i" l j] Suc.prems d by simp
  next
    case False
    let ?l = "if j \<noteq> i then l[j := l ! i] else l"
    have "take (Suc j) ?l = take j l @ [l ! i]" using Suc.prems i by (simp add: take_Suc_conv_app_nth)
    moreover have "drop (Suc i) ?l = drop (Suc i) l" using Suc.prems by simp
    moreover have "length ?l = length l" by simp
    ultimately show ?thesis using Suc.IH [of "Suc i" ?l "Suc j"] Suc.prems d False by simp
  qed
qed

section \<open>A whole purchase\<close>

lemma zeny_upd_state: "vend_state e (sd\<lparr>zeny := z\<rparr>) (vsd\<lparr>zeny := y\<rparr>) = vend_state e sd vsd"
  by (simp add: vend_state_def inv_src_ok_def inv_ok_def cart_ok_def)

lemma getzeny_caps: "zeny_ok sd \<Longrightarrow> 0 \<le> z \<Longrightarrow> z \<le> MAX_ZENY \<Longrightarrow> snd (pc_getzeny sd z) = sd\<lparr>zeny := min MAX_ZENY (zeny sd + z)\<rparr>"
  by (simp add: pc_getzeny_def cap_value_def zeny_ok_def Let_def min_def)

lemma compact_nonzero:
  assumes "vend_compact n 0 0 l = (j, l')" "n \<le> length l" "i < j"
  shows "ve_amount (l' ! i) \<noteq> 0"
proof -
  have t: "take j l' = filter (\<lambda>o'. ve_amount o' \<noteq> 0) (take n l)" "length l' = length l" "j \<le> n"
    using vend_compact_eq [OF _ _ assms(1)] assms(2) by simp_all
  have "l' ! i = take j l' ! i" using assms(3) by simp
  moreover have "i < length (take j l')" using assms(2,3) t(2,3) by (simp del: t(1))
  ultimately have "l' ! i \<in> set (take j l')" by (metis nth_mem)
  then show ?thesis unfolding t(1) by simp
qed

lemma vend_exec_length: "vend_exec e ds sd vsd vl = (sd', vsd', vl') \<Longrightarrow> length vl' = length vl"
  by (induction ds arbitrary: sd vsd vl) (auto simp: Let_def split: prod.splits)

lemma closevending_sel [simp]:
  "inventory (fst (vending_closevending sd sh)) = inventory sd" "cart (fst (vending_closevending sd sh)) = cart sd"
  "zeny (fst (vending_closevending sd sh)) = zeny sd"
  "sh_num (snd (vending_closevending sd sh)) = sh_num sh" "sh_items (snd (vending_closevending sd sh)) = sh_items sh"
  by (simp_all add: vending_closevending_def)

lemma closevending_vend [simp]: "vend_state e b (fst (vending_closevending sd sh)) = vend_state e b sd"
  by (simp add: vending_closevending_def vend_state_def cart_ok_def)

lemma vend_check_not_sold: "vend_check e c sd vsd sh b ds z w n vl js = Inl q \<Longrightarrow> q \<noteq> VEND_SOLD"
proof (induction ds arbitrary: z w n vl js)
  case (Cons d ds)
  obtain a i where d: "d = (a, i)" by (rule prod.exhaust)
  show ?case using Cons unfolding d vend_check.simps Let_def by (auto split: if_split_asm chkitem.split_asm)
qed simp

lemma vending_purchase_ok:
  assumes st: "vend_state e sd vsd" and z: "zeny_ok sd" "zeny_ok vsd" and num: "sh_num sh \<le> length (sh_items sh)"
    and net: "\<forall>z \<ge> 0. 0 \<le> vx_net c z \<and> vx_net c z \<le> z"
    and p: "vending_purchasereq e c sd vsd sh uid data = (r, sd', vsd', sh')"
  defines "ds \<equiv> map vend_entry data"
  defines "pr \<equiv> vend_price sh ds"
  shows "(r \<noteq> VEND_SOLD \<longrightarrow> sd' = sd \<and> vsd' = vsd \<and> sh' = sh)
    \<and> (r = VEND_SOLD \<longrightarrow> 0 \<le> pr \<and> pr \<le> zeny sd \<and> zeny sd' = zeny sd - pr \<and> zeny vsd' = min MAX_ZENY (zeny vsd + vx_net c pr)
        \<and> vend_state e sd' vsd' \<and> cart sd' = cart sd \<and> inventory vsd' = inventory vsd
        \<and> (\<forall>k. count_item k (inventory sd') + count_item k (cart vsd')
              + vend_lost e k ds (sd\<lparr>zeny := zeny sd - pr\<rparr>) (vsd\<lparr>zeny := min MAX_ZENY (zeny vsd + vx_net c pr)\<rparr>)
              = count_item k (inventory sd) + count_item k (cart vsd))
        \<and> (\<forall>i < sh_num sh'. ve_amount (sh_items sh' ! i) \<noteq> 0))"
proof -
  let ?chk = "vend_check e c sd vsd sh (pc_inventoryblank sd) ds 0 0 0 (sh_items sh) []"
  consider (no) "r \<noteq> VEND_SOLD" "sd' = sd" "vsd' = vsd" "sh' = sh"
    | (sold) z' js where "data \<noteq> []" "?chk = Inr (z', js)"
  proof (cases "\<exists>z' js. data \<noteq> [] \<and> ?chk = Inr (z', js)")
    case True
    then show ?thesis using sold by blast
  next
    case False
    show ?thesis
    proof (cases ?chk)
      case (Inl q)
      then have "q \<noteq> VEND_SOLD" by (rule vend_check_not_sold)
      then show ?thesis using no p Inl unfolding vending_purchasereq_def ds_def [symmetric] by (auto simp: Let_def split: if_splits)
    next
      case (Inr x)
      then have "data = []" using False by (metis prod.exhaust)
      then show ?thesis using no p unfolding vending_purchasereq_def by (auto split: if_splits)
    qed
  qed
  then show ?thesis
  proof cases
    case no
    then show ?thesis by blast
  next
    case sold
    show ?thesis
    proof (cases "r = VEND_SOLD")
      case False
      then have "sd' = sd \<and> vsd' = vsd \<and> sh' = sh" using p sold
        unfolding vending_purchasereq_def ds_def [symmetric] by (simp add: Let_def split: if_splits prod.splits)
      then show ?thesis using False by blast
    next
      case True
      have dn: "ds \<noteq> []" using sold(1) by (simp add: ds_def)
      note chk = vend_check_ok [OF sold(2) num]
      have pr: "z' = pr" "0 \<le> pr" "pr \<le> zeny sd" "pr \<le> MAX_ZENY" and js: "js = map (\<lambda>(a, i). vend_first sh i) ds" and en: "vend_entries ds"
        using chk dn by (simp_all add: pr_def)
      have need: "\<forall>n < MAX_CART. vend_need ds n \<le> amount (cart vsd ! n)"
      proof (intro allI impI)
        fix n assume n: "n < MAX_CART"
        show "vend_need ds n \<le> amount (cart vsd ! n)"
        proof (cases "int n \<in> snd ` set ds")
          case True
          then show ?thesis using chk by fastforce
        next
          case False
          have "slot_ok (cart vsd ! n)" using st n by (simp add: vend_state_def cart_ok_def)
          then show ?thesis using False by (auto simp: vend_need_out slot_ok_def split: if_splits)
        qed
      qed
      let ?sd = "sd\<lparr>zeny := zeny sd - pr\<rparr>" and ?v = "vsd\<lparr>zeny := min MAX_ZENY (zeny vsd + vx_net c pr)\<rparr>"
      have pay: "snd (pc_payzeny sd pr) = ?sd" using pr payzeny_exact by simp
      have nb: "0 \<le> vx_net c pr" "vx_net c pr \<le> MAX_ZENY" using net pr by force+
      have get: "snd (pc_getzeny vsd (vx_net c pr)) = ?v" by (rule getzeny_caps [OF z(2) nb])
      obtain s v vl where ex: "vend_exec e (zip ds js) ?sd ?v (sh_items sh) = (s, v, vl)" by (rule prod_cases3)
      obtain n vl' where co: "vend_compact (sh_num sh) 0 0 vl = (n, vl')" by (rule prod.exhaust)
      have fz: "map fst (zip ds js) = ds" by (simp add: js)
      have E: "vend_state e s v \<and> inv_frame ?sd s \<and> cart_frame ?v v \<and> (\<forall>k. count_item k (inventory s) + count_item k (cart v) + vend_lost e k ds ?sd ?v
          = count_item k (inventory sd) + count_item k (cart vsd))"
        using vend_exec_ok [OF _ _ _ ex, unfolded fz zeny_upd_state, OF st en] need by simp
      let ?sh = "sh\<lparr>sh_items := vl', sh_num := n\<rparr>"
      have out: "sd' = s \<and> (vsd', sh') \<in> {(v, ?sh), vending_closevending v ?sh}"
        using p True unfolding vending_purchasereq_def ds_def [symmetric]
        by (simp add: Let_def sold(2) pr(1) pay get ex co split: if_splits prod.splits)
      have nz: "\<forall>i < n. ve_amount (vl' ! i) \<noteq> 0"
        using compact_nonzero [OF co] vend_exec_length [OF ex] num by simp
      have f: "zeny vsd' = zeny v" "cart vsd' = cart v" "inventory vsd' = inventory v" "vend_state e s vsd' = vend_state e s v"
        "sh_num sh' = n" "sh_items sh' = vl'"
      proof -
        consider "vsd' = v" "sh' = ?sh" | "vsd' = fst (vending_closevending v ?sh)" "sh' = snd (vending_closevending v ?sh)"
          using out by (metis insertE singletonD fst_conv snd_conv)
        then show "zeny vsd' = zeny v" "cart vsd' = cart v" "inventory vsd' = inventory v" "vend_state e s vsd' = vend_state e s v"
          "sh_num sh' = n" "sh_items sh' = vl'" by (cases; simp)+
      qed
      have "zeny s = zeny sd - pr" "cart s = cart sd" "zeny v = min MAX_ZENY (zeny vsd + vx_net c pr)" "inventory v = inventory vsd"
        using E by (auto simp: inv_frame_sel cart_frame_sel)
      then show ?thesis using True out E f nz pr by simp
    qed
  qed
qed

section \<open>Opening\<close>

lemma vend_filter_ok:
  "vend_filter e sd maxv ds i vl = (ok, n, vl') \<Longrightarrow> i + length ds \<le> length vl \<Longrightarrow>
    i \<le> n \<and> n \<le> i + length ds \<and> length vl' = length vl \<and> take i vl' = take i vl
    \<and> (\<forall>m. i \<le> m \<and> m < n \<longrightarrow> vend_offer_ok e sd (ve_index (vl' ! m)) (ve_amount (vl' ! m)) \<and> ve_value (vl' ! m) \<le> maxv
          \<and> item_id (cart sd ! nat (ve_index (vl' ! m))) \<noteq> 0 \<and> -32768 \<le> ve_amount (vl' ! m) \<and> ve_amount (vl' ! m) \<le> 32767)"
proof (induction ds arbitrary: i vl)
  case Nil
  then show ?case by simp
next
  case (Cons d ds)
  obtain x a v where d: "d = (x, a, v)" by (rule prod_cases3)
  let ?idx = "s16 (s16 x - 2)" and ?amt = "s16 a"
  let ?o = "\<lparr>ve_index = ?idx, ve_amount = ?amt, ve_value = min v maxv\<rparr>"
  consider (skip) "\<not> vend_offer_ok e sd ?idx ?amt" "vend_filter e sd maxv ds i vl = (ok, n, vl')"
    | (noid) "n = i" "vl' = vl[i := ?o]"
    | (take) "vend_offer_ok e sd ?idx ?amt" "item_id (cart sd ! nat ?idx) \<noteq> 0" "vend_filter e sd maxv ds (Suc i) (vl[i := ?o]) = (ok, n, vl')"
    using Cons.prems(1) by (auto simp: d Let_def split: if_splits)
  then show ?case
  proof cases
    case skip
    then show ?thesis using Cons.IH [OF skip(2)] Cons.prems(2) by auto
  next
    case noid
    then show ?thesis by simp
  next
    case take
    have len: "Suc i + length ds \<le> length (vl[i := ?o])" using Cons.prems(2) by simp
    note IH = Cons.IH [OF take(3) len]
    have "vl' ! i = take (Suc i) vl' ! i" "take i vl' = take i (take (Suc i) vl')" by simp_all
    then have o': "vl' ! i = ?o" "take i vl' = take i vl" using IH Cons.prems(2) by simp_all
    have "vend_offer_ok e sd (ve_index (vl' ! m)) (ve_amount (vl' ! m)) \<and> ve_value (vl' ! m) \<le> maxv
          \<and> item_id (cart sd ! nat (ve_index (vl' ! m))) \<noteq> 0 \<and> -32768 \<le> ve_amount (vl' ! m) \<and> ve_amount (vl' ! m) \<le> 32767"
      if "i \<le> m" "m < n" for m
      using IH o' take that s16_range [of a] by (cases "m = i") simp_all
    then show ?thesis using IH o' by auto
  qed
qed

definition vend_offer_sound :: "env \<Rightarrow> map_session_data \<Rightarrow> int \<Rightarrow> s_vending \<Rightarrow> bool" where
  "vend_offer_sound e sd maxv o' \<longleftrightarrow>
     (let it = cart sd ! nat (ve_index o') in
      0 \<le> ve_index o' \<and> ve_index o' < int MAX_CART \<and> nameid it \<noteq> 0 \<and> ve_amount o' \<le> amount it \<and> ve_value o' \<le> maxv
      \<and> identify it \<noteq> 0 \<and> expire_time it = 0 \<and> item_id it \<noteq> 0
      \<and> itemdb_isrestricted (env_db e) it (group_level sd) (group_level sd) itemdb_cantrade_sub)"

lemma vend_offer_okD:
  assumes "vend_offer_ok e sd (ve_index o') (ve_amount o')" "cart_ok e sd" "ve_value o' \<le> maxv" "item_id (cart sd ! nat (ve_index o')) \<noteq> 0"
    "-32768 \<le> ve_amount o'" "ve_amount o' \<le> 32767"
  shows "vend_offer_sound e sd maxv o'"
proof -
  let ?it = "cart sd ! nat (ve_index o')"
  have i: "0 \<le> ve_index o'" "ve_index o' < int MAX_CART" using assms(1) by (auto simp: vend_offer_ok_def split: if_splits)
  then have "slot_ok ?it" using assms(2) by (simp add: cart_ok_def)
  then have "0 \<le> amount ?it" "amount ?it \<le> 30000" by (auto simp: slot_ok_def MAX_AMOUNT_def split: if_splits)
  then have "s32 (amount ?it - ve_amount o') = amount ?it - ve_amount o'" using assms(5,6) by (intro s32_id) auto
  then show ?thesis using assms(1,3,4) i by (auto simp: vend_offer_ok_def vend_offer_sound_def pc_cartitem_amount_def Let_def split: if_splits)
qed

lemma vending_open_ok:
  assumes ok: "cart_ok e sd" and len: "length (sh_items sh) = MAX_VENDING"
    and v: "vending_openvending e dead lvl carton maxv nextid sd sh data = (r, sd', sh', nextid', rows)"
  shows "(r \<noteq> 0 \<longrightarrow> sd' = sd \<and> sh_num sh' = sh_num sh \<and> sh_id sh' = sh_id sh \<and> sh_prevend sh' = sh_prevend sh \<and> nextid' = nextid \<and> rows = [])
    \<and> (r = 0 \<longrightarrow> sd' = sd\<lparr>st_vending := True\<rparr> \<and> \<not> pc_istrading sd \<and> sh_prevend sh \<and> \<not> sh_prevend sh'
        \<and> sh_id sh' = nextid + 1 \<and> nextid' = nextid + 1 \<and> 0 < sh_num sh' \<and> sh_num sh' \<le> length data \<and> length rows = length data
        \<and> (\<forall>i < sh_num sh'. vend_offer_sound e sd maxv (sh_items sh' ! i)))"
proof -
  obtain ids i vl where f: "vend_filter e sd maxv data 0 (sh_items sh) = (ids, i, vl)" by (rule prod_cases3)
  show ?thesis
  proof (cases "r = 0")
    case False
    then show ?thesis using v unfolding vending_openvending_def f by (auto simp: Let_def split: if_splits)
  next
    case True
    have g: "sh_prevend sh" "\<not> pc_istrading sd" "length data \<le> MAX_VENDING" "i \<noteq> 0" "sd' = sd\<lparr>st_vending := True\<rparr>"
      "sh' = sh\<lparr>sh_items := vl, sh_prevend := False, sh_id := nextid + 1, sh_num := i\<rparr>" "nextid' = nextid + 1"
      "rows = vend_rows sd' sh' (length data)"
      using v True unfolding vending_openvending_def f by (auto simp: Let_def split: if_splits)
    note F = vend_filter_ok [OF f]
    have "vend_offer_sound e sd maxv (vl ! m)" if "m < i" for m
      by (rule vend_offer_okD [OF _ ok]) (use F that g(3) len in simp_all)
    then show ?thesis using True g F len by (simp add: vend_rows_def)
  qed
qed

end
