(* ===== verification/BuyOps.thy ===== *)
theory BuyOps imports Buyingstore VendingOps begin

text \<open>
  Sales to a buying store: what the checks guarantee and what the transfer does with the goods and
  the zeny of seller and buyer, as long as no product of price and amount leaves the range of an
  \<open>int\<close>.
\<close>

section \<open>Entries\<close>

definition buy_entries :: "map_session_data \<Rightarrow> (int \<times> int \<times> int) list \<Rightarrow> bool" where
  "buy_entries sd ds \<longleftrightarrow> distinct (map fst ds) \<and> (\<forall>(ix, nid, amt) \<in> set ds. 2 \<le> ix \<and> ix - 2 < int MAX_INVENTORY
     \<and> amt \<le> amount (inventory sd ! nat (ix - 2)) \<and> expire_time (inventory sd ! nat (ix - 2)) = 0)"

text \<open>The price of an entry, of all entries, and that each fits into an \<open>int\<close>.\<close>

definition buy_cost :: "s_buyingstore \<Rightarrow> int \<times> int \<times> int \<Rightarrow> int" where
  "buy_cost bs = (\<lambda>(ix, nid, amt). amt * bi_price (bs_items bs ! buy_slot bs nid))"

definition buy_price :: "s_buyingstore \<Rightarrow> (int \<times> int \<times> int) list \<Rightarrow> int" where
  "buy_price bs ds = sum_list (map (buy_cost bs) ds)"

definition buy_fits :: "s_buyingstore \<Rightarrow> (int \<times> int \<times> int) list \<Rightarrow> bool" where
  "buy_fits bs ds \<longleftrightarrow> (\<forall>d \<in> set ds. 0 \<le> snd (snd d) \<and> 0 \<le> buy_cost bs d \<and> buy_cost bs d < 2147483648)"

lemma buy_fits_price: "buy_fits bs ds \<Longrightarrow> 0 \<le> buy_price bs ds"
  unfolding buy_price_def buy_fits_def by (rule sum_list_nonneg) auto

lemma s32_pos: "0 \<le> x \<Longrightarrow> x < 2147483648 \<Longrightarrow> s32 x = x"
  by (rule s32_id) auto

section \<open>The checks\<close>

lemma buy_check_ok:
  assumes "buy_check e sd pl bs ds seen w z = None" "buy_fits bs ds" "0 \<le> z" "z \<le> bs_zenylimit bs" "bs_zenylimit bs \<le> MAX_ZENY"
  shows "buy_entries sd ds \<and> (\<lambda>x. x - 2) ` fst ` set ds \<inter> set seen = {} \<and> z + buy_price bs ds \<le> bs_zenylimit bs"
  using assms
proof (induction ds arbitrary: seen w z)
  case Nil
  then show ?case by (simp add: buy_entries_def buy_price_def)
next
  case (Cons d ds)
  obtain ix nid amt where d: "d = (ix, nid, amt)" by (rule prod_cases3)
  let ?p = "amt * bi_price (bs_items bs ! buy_slot bs nid)" and ?it = "inventory sd ! nat (ix - 2)"
  have p: "0 \<le> ?p" "?p < 2147483648" using Cons.prems(2) by (simp_all add: d buy_fits_def buy_cost_def)
  have s: "s32 ?p = ?p" "s32 (bs_zenylimit bs - z) = bs_zenylimit bs - z"
    using p Cons.prems(3-5) by (simp_all add: s32_pos MAX_ZENY_def)
  obtain w' where c: "ix - 2 \<notin> set seen" "0 \<le> ix - 2" "ix - 2 < int MAX_INVENTORY" "amt \<le> amount ?it" "expire_time ?it = 0"
      "?p \<le> bs_zenylimit bs - z" "buy_check e sd pl bs ds (seen @ [ix - 2]) w' (s32 (z + ?p)) = None"
    using Cons.prems(1) unfolding d buy_check.simps Let_def s by (auto split: if_splits)
  have z: "s32 (z + ?p) = z + ?p" using p c(6) Cons.prems(3-5) by (simp add: s32_pos MAX_ZENY_def)
  have IH: "buy_entries sd ds \<and> (\<lambda>x. x - 2) ` fst ` set ds \<inter> set (seen @ [ix - 2]) = {} \<and> z + ?p + buy_price bs ds \<le> bs_zenylimit bs"
    by (rule Cons.IH [of "seen @ [ix - 2]" w']) (use c z p Cons.prems in \<open>simp_all add: buy_fits_def\<close>)
  have "ix \<notin> fst ` set ds" using IH by auto
  then show ?case using IH c by (auto simp: d buy_entries_def buy_price_def buy_cost_def)
qed

section \<open>The transfer\<close>

definition buy_lost1 :: "env \<Rightarrow> int \<Rightarrow> int \<times> int \<times> int \<Rightarrow> map_session_data \<Rightarrow> map_session_data \<Rightarrow> int" where
  "buy_lost1 e k = (\<lambda>(ix, nid, amt) sd pl.
     if fst (pc_additem e pl (inventory sd ! nat (ix - 2)) amt) \<noteq> 0 \<and> k = nameid (inventory sd ! nat (ix - 2)) then amt else 0)"

text \<open>What disappears: the entries that \<open>pc_additem\<close> refuses.\<close>

fun buy_lost :: "env \<Rightarrow> int \<Rightarrow> (int \<times> int \<times> int) list \<Rightarrow> map_session_data \<times> map_session_data \<times> s_buyingstore \<Rightarrow> int" where
  "buy_lost e k [] st = 0"
| "buy_lost e k (d # ds) st = buy_lost1 e k d (fst st) (fst (snd st)) + buy_lost e k ds (buy_entry e d st)"

lemma buy_move_ok:
  assumes ok: "inv_src_ok e sd" "inv_src_ok e pl" and i: "0 \<le> i" "i < int MAX_INVENTORY"
    and a: "0 \<le> amt" "amt \<le> amount (inventory sd ! nat i)" "expire_time (inventory sd ! nat i) = 0"
    and m: "buy_move e i amt sd pl = (sd', pl')"
  shows "inv_src_ok e sd' \<and> inv_src_ok e pl' \<and> inv_frame sd sd' \<and> inv_frame pl pl'
    \<and> (\<forall>j < MAX_INVENTORY. j \<noteq> nat i \<longrightarrow> amount (inventory sd' ! j) = amount (inventory sd ! j) \<and> expire_time (inventory sd' ! j) = expire_time (inventory sd ! j))
    \<and> (\<forall>k. count_item k (inventory sd') + count_item k (inventory pl') + buy_lost1 e k (i + 2, nid, amt) sd pl
        = count_item k (inventory sd) + count_item k (inventory pl))"
proof -
  let ?x = "inventory sd ! nat i"
  have il: "nat i < length (inventory sd)" using ok(1) i by (simp add: inv_length nat_less_iff)
  have so: "slot_ok ?x" by (rule inv_slots [OF ok(1) il])
  obtain r it p where add: "pc_additem e pl ?x amt = (r, it, p)" by (rule prod_cases3)
  let ?s = "inv_put sd (nat i) it"
  have out: "pl' = p" "sd' = snd (pc_delitem e ?s i amt)" using m add by (simp_all add: buy_move_def inv_put_def)
  have A: "inv_src_ok e p \<and> inv_frame pl p \<and> same_kind ?x it
      \<and> (\<forall>k. count_item k (inventory p) = count_item k (inventory pl) + (if (r = 0) \<and> k = nameid ?x then amt else 0))"
    by (rule inv_add_ok [OF ok(2) so]) (simp_all add: inv_add_def add not_expired_def a(3))
  then have put: "inv_src_ok e ?s" "inv_frame sd ?s" using inv_put_ok [OF ok(1) il] by simp_all
  have n: "inventory ?s = (inventory sd)[nat i := it]" by (simp add: inv_put_def)
  have sk: "nameid it = nameid ?x" "amount it = amount ?x" "expire_time it = expire_time ?x" using A by (simp_all add: same_kind_def)
  have c: "count_item k (inventory ?s) = count_item k (inventory sd)" for k
    using count_same_kind [OF il, of it k] A by (simp add: n)
  obtain q s where del: "pc_delitem e ?s i amt = (q, s)" by (rule prod.exhaust)
  have io: "inv_ok e ?s" "env_ok e" using put ok(1) by (simp_all add: inv_src_ok_def)
  show ?thesis
  proof (cases "amt = 0")
    case True
    then have "q \<noteq> 0" using delitem_result [OF io(1) i(2) del] by simp
    then have "s = ?s" by (rule delitem_fail [OF del])
    then show ?thesis using A put c True out del by (simp add: n buy_lost1_def)
  next
    case False
    then have "0 < amt" using a by simp
    moreover have "nameid ?x \<noteq> 0" using so a \<open>0 < amt\<close> by (auto simp: slot_ok_def)
    ultimately have "q = 0" using delitem_result [OF io(1) i(2) del] i a il sk by (simp add: n)
    then have D: "inv_ok e s \<and> inv_frame ?s s
      \<and> (\<forall>k. count_item k (inventory s) = count_item k (inventory ?s) - (if k = nameid (inventory ?s ! nat i) then amt else 0))
      \<and> (\<forall>j < MAX_INVENTORY. amount (inventory s ! j) = amount (inventory ?s ! j) - (if j = nat i then amt else 0)
          \<and> (j \<noteq> nat i \<or> amount (inventory ?s ! j) \<noteq> amt \<longrightarrow> expire_time (inventory s ! j) = expire_time (inventory ?s ! j)))"
      using delitem_ok [OF io i(2)] del by blast
    have "inv_frame sd s" using inv_frame_trans [OF put(2)] D by blast
    then show ?thesis using A D c io(2) il sk(1) out del add
      by (simp add: n buy_lost1_def inv_src_ok_def)
  qed
qed

lemma buy_pay_ok:
  assumes "zeny_ok sd" "zeny_ok pl" "0 \<le> z" "z \<le> zeny pl"
  shows "buy_pay z sd pl = (sd\<lparr>zeny := min MAX_ZENY (zeny sd + z)\<rparr>, pl\<lparr>zeny := zeny pl - z\<rparr>)"
proof -
  have "z \<le> MAX_ZENY" using assms by (simp add: zeny_ok_def)
  then show ?thesis using assms payzeny_exact getzeny_caps [of sd z] by (simp add: buy_pay_def Let_def)
qed

text \<open>The sums over the rest of the entries do not see the changes an entry makes to the store.\<close>

lemma nth_upd_same: "f x = f (l ! j) \<Longrightarrow> f (l[j := x] ! i) = f (l ! i)"
  by (cases "j < length l"; cases "i = j") (simp_all add: list_update_beyond)

lemma buy_slot_upd:
  assumes "bs_items bs' = (bs_items bs)[j := (bs_items bs ! j)\<lparr>bi_amount := a\<rparr>]" "bs_slots bs' = bs_slots bs"
  shows "buy_slot bs' nid = buy_slot bs nid" "buy_cost bs' = buy_cost bs"
proof -
  have n: "bi_nameid (bs_items bs' ! i) = bi_nameid (bs_items bs ! i)" "bi_price (bs_items bs' ! i) = bi_price (bs_items bs ! i)" for i
    unfolding assms(1) by (rule nth_upd_same, simp)+
  show b: "buy_slot bs' nid = buy_slot bs nid" for nid unfolding buy_slot_def n assms(2) ..
  show "buy_cost bs' = buy_cost bs" by (rule ext) (simp add: buy_cost_def b n split: prod.split)
qed

definition buy_inv :: "env \<Rightarrow> (int \<times> int \<times> int) list \<Rightarrow> map_session_data \<times> map_session_data \<times> s_buyingstore \<Rightarrow> bool" where
  "buy_inv e ds = (\<lambda>(sd, pl, bs). inv_src_ok e sd \<and> inv_src_ok e pl \<and> zeny_ok sd \<and> zeny_ok pl \<and> buy_entries sd ds \<and> buy_fits bs ds
     \<and> buy_price bs ds \<le> bs_zenylimit bs \<and> bs_zenylimit bs \<le> zeny pl)"

text \<open>What both own of one kind.\<close>

definition buy_total :: "int \<Rightarrow> map_session_data \<times> map_session_data \<times> s_buyingstore \<Rightarrow> int" where
  "buy_total k = (\<lambda>(sd, pl, bs). count_item k (inventory sd) + count_item k (inventory pl))"

lemma buy_entry_ok:
  assumes "buy_inv e (d # ds) (sd, pl, bs)" "buy_entry e d (sd, pl, bs) = (sd', pl', bs')"
  shows "buy_inv e ds (sd', pl', bs') \<and> zeny sd' = min MAX_ZENY (zeny sd + buy_cost bs d) \<and> zeny pl' = zeny pl - buy_cost bs d
    \<and> bs_zenylimit bs' = bs_zenylimit bs - buy_cost bs d \<and> buy_cost bs' = buy_cost bs
    \<and> buy_total k (sd', pl', bs') + buy_lost1 e k d sd pl = buy_total k (sd, pl, bs)"
proof -
  obtain ix nid amt where d: "d = (ix, nid, amt)" by (rule prod_cases3)
  let ?j = "buy_slot bs nid" and ?i = "ix - 2"
  let ?o = "bs_items bs ! ?j" and ?z = "buy_cost bs d"
  have I: "inv_src_ok e sd" "inv_src_ok e pl" "zeny_ok sd" "zeny_ok pl" "buy_entries sd (d # ds)" "buy_fits bs (d # ds)"
    "buy_price bs (d # ds) \<le> bs_zenylimit bs" "bs_zenylimit bs \<le> zeny pl" using assms(1) by (simp_all add: buy_inv_def)
  have en: "0 \<le> ?i" "?i < int MAX_INVENTORY" "amt \<le> amount (inventory sd ! nat ?i)" "expire_time (inventory sd ! nat ?i) = 0"
    "ix \<notin> fst ` set ds" "buy_entries sd ds" using I(5) by (auto simp: buy_entries_def d)
  have fits: "0 \<le> amt" "0 \<le> ?z" "?z < 2147483648" "buy_fits bs ds" using I(6) by (simp_all add: buy_fits_def d)
  have z: "s32 (amt * bi_price ?o) = ?z" using fits by (simp add: buy_cost_def d s32_pos)
  have pr: "buy_price bs (d # ds) = ?z + buy_price bs ds" "0 \<le> buy_price bs ds" using buy_fits_price [OF fits(4)] by (simp_all add: buy_price_def)
  obtain s p where mv: "buy_move e ?i amt sd pl = (s, p)" by (rule prod.exhaust)
  have M: "inv_src_ok e s \<and> inv_src_ok e p \<and> inv_frame sd s \<and> inv_frame pl p
    \<and> (\<forall>j < MAX_INVENTORY. j \<noteq> nat ?i \<longrightarrow> amount (inventory s ! j) = amount (inventory sd ! j) \<and> expire_time (inventory s ! j) = expire_time (inventory sd ! j))
    \<and> (\<forall>k. count_item k (inventory s) + count_item k (inventory p) + buy_lost1 e k (?i + 2, nid, amt) sd pl
        = count_item k (inventory sd) + count_item k (inventory pl))"
    by (rule buy_move_ok [OF I(1,2) en(1,2) fits(1) en(3,4) mv])
  then have zs: "zeny s = zeny sd" "zeny p = zeny pl" by (simp_all add: inv_frame_sel)
  have pay: "buy_pay ?z s p = (s\<lparr>zeny := min MAX_ZENY (zeny s + ?z)\<rparr>, p\<lparr>zeny := zeny p - ?z\<rparr>)"
    by (rule buy_pay_ok) (use I pr fits zs in \<open>simp_all add: zeny_ok_def\<close>)
  have lim: "s32 (bs_zenylimit bs - ?z) = bs_zenylimit bs - ?z"
    using I(4,7,8) pr fits by (intro s32_pos) (simp_all add: zeny_ok_def MAX_ZENY_def)
  have out: "sd' = s\<lparr>zeny := min MAX_ZENY (zeny s + ?z)\<rparr>" "pl' = p\<lparr>zeny := zeny p - ?z\<rparr>"
    "bs_items bs' = (bs_items bs)[?j := ?o\<lparr>bi_amount := u16 (bi_amount ?o - amt)\<rparr>]" "bs_slots bs' = bs_slots bs"
    "bs_zenylimit bs' = bs_zenylimit bs - ?z"
    using assms(2) by (auto simp: d buy_entry_def Let_def mv z [unfolded d] pay [unfolded d] lim [unfolded d])
  note same = buy_slot_upd [OF out(3,4)]
  have "buy_entries s ds"
    unfolding buy_entries_def
  proof (intro conjI ballI)
    show "distinct (map fst ds)" using en(6) by (simp add: buy_entries_def)
    fix d' assume d': "d' \<in> set ds"
    obtain ix' nid' amt' where t: "d' = (ix', nid', amt')" by (rule prod_cases3)
    have e': "2 \<le> ix'" "ix' - 2 < int MAX_INVENTORY" "amt' \<le> amount (inventory sd ! nat (ix' - 2))" "expire_time (inventory sd ! nat (ix' - 2)) = 0"
      using en(6) d' by (auto simp: buy_entries_def t)
    have "ix' \<noteq> ix" using en(5) d' t by force
    then have "nat (ix' - 2) \<noteq> nat ?i" "nat (ix' - 2) < MAX_INVENTORY" using e' en(1) by auto
    then show "case d' of (ix, nid, amt) \<Rightarrow> 2 \<le> ix \<and> ix - 2 < int MAX_INVENTORY \<and> amt \<le> amount (inventory s ! nat (ix - 2)) \<and> expire_time (inventory s ! nat (ix - 2)) = 0"
      using M e' by (simp add: t)
  qed
  then have "buy_entries sd' ds" by (simp add: out(1) buy_entries_def)
  moreover have "inv_src_ok e sd'" "inv_src_ok e pl'" using M by (simp_all add: out inv_src_ok_def inv_ok_def)
  moreover have "zeny_ok sd'" "zeny_ok pl'" using I pr fits zs by (simp_all add: out zeny_ok_def MAX_ZENY_def)
  moreover have "buy_fits bs' ds" using fits(4) same(2) by (simp add: buy_fits_def)
  moreover have "buy_price bs' ds = buy_price bs ds" by (simp add: buy_price_def same(2))
  ultimately show ?thesis using I pr zs M same(2) out by (simp add: buy_inv_def buy_total_def d)
qed

lemma buy_exec_ok:
  "buy_inv e ds (sd, pl, bs) \<Longrightarrow> foldl (\<lambda>st en. buy_entry e en st) (sd, pl, bs) ds = (sd', pl', bs') \<Longrightarrow>
    buy_inv e [] (sd', pl', bs') \<and> zeny sd' = min MAX_ZENY (zeny sd + buy_price bs ds) \<and> zeny pl' = zeny pl - buy_price bs ds
    \<and> bs_zenylimit bs' = bs_zenylimit bs - buy_price bs ds
    \<and> buy_total k (sd', pl', bs') + buy_lost e k ds (sd, pl, bs) = buy_total k (sd, pl, bs)"
proof (induction ds arbitrary: sd pl bs)
  case Nil
  then show ?case by (simp add: buy_inv_def buy_price_def zeny_ok_def)
next
  case (Cons d ds)
  obtain s p b where st: "buy_entry e d (sd, pl, bs) = (s, p, b)" by (rule prod_cases3)
  note E = buy_entry_ok [OF Cons.prems(1) st, of k]
  have fit: "0 \<le> buy_cost bs d" "buy_fits bs ds" using Cons.prems(1) by (simp_all add: buy_inv_def buy_fits_def)
  have pr: "buy_price b ds = buy_price bs ds" "buy_price bs (d # ds) = buy_cost bs d + buy_price bs ds" using E by (simp_all add: buy_price_def)
  have "foldl (\<lambda>st en. buy_entry e en st) (s, p, b) ds = (sd', pl', bs')" using Cons.prems(2) st by simp
  note IH = Cons.IH [OF _ this]
  show ?case using IH E pr fit buy_fits_price [OF fit(2)] by (simp add: st)
qed

section \<open>A whole sale\<close>

lemma buyingstore_close_sel [simp]:
  "inventory (fst (buyingstore_close pl bs)) = inventory pl" "zeny (fst (buyingstore_close pl bs)) = zeny pl"
  by (simp_all add: buyingstore_close_def)

lemma buyingstore_close_ok [simp]: "inv_src_ok e (fst (buyingstore_close pl bs)) = inv_src_ok e pl"
  by (simp add: buyingstore_close_def inv_src_ok_def inv_ok_def)

lemma buyingstore_trade_ok:
  assumes ok: "inv_src_ok e sd" "inv_src_ok e pl" and z: "zeny_ok sd" "zeny_ok pl" "0 \<le> bs_zenylimit bs" and fits: "buy_fits bs items"
    and t: "buyingstore_trade e c sd pl bs uid items = (r, sd', pl', bs')"
  defines "bs0 \<equiv> bs\<lparr>bs_zenylimit := min (bs_zenylimit bs) (zeny pl)\<rparr>"
  shows "(r \<noteq> BUY_DONE \<longrightarrow> sd' = sd \<and> pl' = pl \<and> bs' \<in> {bs, bs0})
    \<and> (r = BUY_DONE \<longrightarrow> inv_src_ok e sd' \<and> inv_src_ok e pl' \<and> buy_price bs items \<le> bs_zenylimit bs0
        \<and> zeny sd' = min MAX_ZENY (zeny sd + buy_price bs items) \<and> zeny pl' = zeny pl - buy_price bs items
        \<and> (\<forall>k. count_item k (inventory sd') + count_item k (inventory pl') + buy_lost e k items (sd, pl, bs0)
              = count_item k (inventory sd) + count_item k (inventory pl)))"
proof -
  have cost: "buy_cost bs0 = buy_cost bs" by (rule ext) (simp add: bs0_def buy_cost_def buy_slot_def split: prod.split)
  have b0: "(if zeny pl < bs_zenylimit bs then bs\<lparr>bs_zenylimit := zeny pl\<rparr> else bs) = bs0" by (auto simp: bs0_def min_def)
  consider (no) "r \<noteq> BUY_DONE" "sd' = sd" "pl' = pl" "bs' \<in> {bs, bs0}"
    | (sale) "buy_check e sd pl bs0 items [] (weight pl) 0 = None" "st_buyingstore pl"
  proof (cases "buy_check e sd pl bs0 items [] (weight pl) 0")
    case None
    then show ?thesis using t no sale unfolding buyingstore_trade_def b0 by (auto split: if_splits)
  next
    case (Some q)
    then have "q \<noteq> BUY_DONE"
    proof -
      have "buy_check e sd pl b ds seen w z = Some q \<Longrightarrow> q \<noteq> BUY_DONE" for b ds seen w z
      proof (induction ds arbitrary: seen w z)
        case (Cons d ds)
        obtain ix nid amt where d: "d = (ix, nid, amt)" by (rule prod_cases3)
        show ?case using Cons unfolding d buy_check.simps Let_def by (auto split: if_split_asm)
      qed simp
      then show ?thesis using Some by blast
    qed
    then show ?thesis using t Some no unfolding buyingstore_trade_def b0 by (auto simp: Let_def split: if_splits)
  qed
  then show ?thesis
  proof cases
    case no
    then show ?thesis by blast
  next
    case sale
    show ?thesis
    proof (cases "r = BUY_DONE")
      case False
      then have "sd' = sd \<and> pl' = pl \<and> bs' \<in> {bs, bs0}" using t sale
        unfolding buyingstore_trade_def b0 by (simp add: Let_def split: if_splits prod.splits)
      then show ?thesis using False by blast
    next
      case True
      have lim: "0 \<le> bs_zenylimit bs0" "bs_zenylimit bs0 \<le> zeny pl" "bs_zenylimit bs0 \<le> MAX_ZENY"
        using z by (auto simp: bs0_def zeny_ok_def)
      have fits0: "buy_fits bs0 items" using fits by (simp add: buy_fits_def cost)
      note C = buy_check_ok [OF sale(1) fits0 order_refl lim(1,3)]
      have inv: "buy_inv e items (sd, pl, bs0)" using C ok z fits0 lim(2) by (simp add: buy_inv_def)
      obtain s p b where ex: "foldl (\<lambda>st en. buy_entry e en st) (sd, pl, bs0) items = (s, p, b)" by (rule prod_cases3)
      note E = buy_exec_ok [OF inv ex]
      have out: "sd' = s" "pl' = p \<or> pl' = fst (buyingstore_close p b)"
        using t True unfolding buyingstore_trade_def b0 by (auto simp: Let_def sale(1) ex split: if_splits prod.splits)
      have "inventory pl' = inventory p" "zeny pl' = zeny p" "inv_src_ok e pl' = inv_src_ok e p" using out(2) by auto
      moreover have "buy_price bs0 items = buy_price bs items" by (simp add: buy_price_def cost)
      ultimately show ?thesis using True C E out(1) by (simp add: buy_inv_def buy_total_def)
    qed
  qed
qed

section \<open>Opening a store\<close>

definition buy_offer_ok :: "env \<Rightarrow> map_session_data \<Rightarrow> s_buyingstore_item \<Rightarrow> bool" where
  "buy_offer_ok e sd o' \<longleftrightarrow> 0 < bi_price o' \<and> bi_price o' \<le> BUYINGSTORE_MAX_PRICE \<and> bi_amount o' \<noteq> 0
     \<and> (\<exists>d. itemdb_exists (env_db e) (bi_nameid o') = Some d \<and> flag_buyingstore d)
     \<and> pc_search_inventory sd (bi_nameid o') \<noteq> -1
     \<and> amount (inventory sd ! nat (pc_search_inventory sd (bi_nameid o'))) + bi_amount o' \<le> BUYINGSTORE_MAX_AMOUNT"

lemma buy_offers_ok:
  "buy_offers e sd ds i w l = (n, w', l') \<Longrightarrow> i + length ds \<le> length l \<Longrightarrow> distinct (map bi_nameid (take i l))
    \<Longrightarrow> \<forall>o' \<in> set (take i l). buy_offer_ok e sd o' \<Longrightarrow>
    n \<le> i + length ds \<and> length l' = length l \<and> distinct (map bi_nameid (take n l')) \<and> (\<forall>o' \<in> set (take n l'). buy_offer_ok e sd o')"
proof (induction ds arbitrary: i w l)
  case Nil
  then show ?case by simp
next
  case (Cons d ds)
  obtain nid amt price where d: "d = (nid, amt, price)" by (rule prod_cases3)
  let ?o = "\<lparr>bi_price = price, bi_amount = amt, bi_nameid = nid\<rparr>"
  consider (stop) "n = i" "l' = l"
    | (go) w1 where "buy_offer_ok e sd ?o" "i = 0 \<or> arr_find 0 i (\<lambda>x. bi_nameid (l ! x) = nid) = i"
        "buy_offers e sd ds (Suc i) w1 (l[i := ?o]) = (n, w', l')"
    using Cons.prems(1) unfolding d buy_offers.simps Let_def
    by (auto simp: buy_offer_ok_def split: option.splits if_splits)
  then show ?case
  proof cases
    case stop
    then show ?thesis using Cons.prems by simp
  next
    case go
    have il: "i < length l" using Cons.prems(2) by simp
    have t: "take (Suc i) (l[i := ?o]) = take i l @ [?o]" using il by (simp add: take_Suc_conv_app_nth)
    have "nid \<notin> bi_nameid ` set (take i l)"
    proof
      assume "nid \<in> bi_nameid ` set (take i l)"
      then obtain x where x: "x < i" "bi_nameid (l ! x) = nid" using il by (auto simp: in_set_conv_nth)
      then have "arr_find 0 i (\<lambda>x. bi_nameid (l ! x) = nid) = i" using go(2) by auto
      then show False using x arr_find_none_iff [of 0 i "\<lambda>x. bi_nameid (l ! x) = nid"] by auto
    qed
    then show ?thesis using Cons.IH [OF go(3)] Cons.prems(2-4) go(1) t by simp
  qed
qed

lemma buyingstore_create_ok:
  assumes c: "buyingstore_create e c nextid sd bs limit result name items = (r, sd', bs', nextid')"
    and len: "length (bs_items bs) = MAX_BUYINGSTORE_SLOTS" "bs_slots bs \<le> MAX_BUYINGSTORE_SLOTS"
  shows "(r \<noteq> 0 \<longrightarrow> sd' = sd \<and> nextid' = nextid)
    \<and> (r = 0 \<longrightarrow> sd' = sd\<lparr>st_buyingstore := True\<rparr> \<and> \<not> pc_istrading sd \<and> bs_id bs' = nextid' \<and> 0 < limit \<and> limit \<le> zeny sd
        \<and> bs_zenylimit bs' = limit \<and> bs_slots bs' = length items \<and> 0 < bs_slots bs' \<and> bs_slots bs' \<le> bs_slots bs
        \<and> distinct (map bi_nameid (take (bs_slots bs') (bs_items bs'))) \<and> (\<forall>o' \<in> set (take (bs_slots bs') (bs_items bs')). buy_offer_ok e sd o'))"
proof -
  obtain i w l where o': "buy_offers e sd items 0 (weight sd) (bs_items bs) = (i, w, l)" by (rule prod_cases3)
  show ?thesis
  proof (cases "r = 0")
    case False
    then show ?thesis using c unfolding buyingstore_create_def o' by (simp add: Let_def split: if_splits)
  next
    case True
    have g: "items \<noteq> []" "\<not> pc_istrading sd" "length items \<le> bs_slots bs" "0 < limit" "limit \<le> zeny sd" "i = length items"
      "sd' = sd\<lparr>st_buyingstore := True\<rparr>" "bs' = bs\<lparr>bs_items := l, bs_zenylimit := limit, bs_slots := i, bs_id := u32 (nextid + 1)\<rparr>"
      "nextid' = u32 (nextid + 1)"
      using c True unfolding buyingstore_create_def o' by (auto simp: Let_def split: if_splits)
    have "distinct (map bi_nameid (take i l)) \<and> (\<forall>o' \<in> set (take i l). buy_offer_ok e sd o')"
      using buy_offers_ok [OF o'] g(3) len by simp
    then show ?thesis using True g by simp
  qed
qed

end
