(* ===== verification/ShopProps.thy ===== *)
theory ShopProps imports BuyOps TestPlayer begin

text \<open>The properties of vending shops and buying stores.\<close>

section \<open>Test shops\<close>

definition test_vend_ctx :: vend_ctx where
  "test_vend_ctx = \<lparr>vx_near = True, vx_over_max = False, vx_net = (\<lambda>z. z), vx_autotrade = False\<rparr>"

definition test_vender :: map_session_data where
  "test_vender = (test_player 2)\<lparr>st_vending := True\<rparr>"

text \<open>Five apples in the first cart slot, at ten zeny each.\<close>

definition test_shop :: shop where
  "test_shop = \<lparr>sh_items = \<lparr>ve_index = 0, ve_amount = 5, ve_value = 10\<rparr> # replicate 11 \<lparr>ve_index = 0, ve_amount = 0, ve_value = 0\<rparr>,
     sh_num = 1, sh_id = 7, sh_prevend = False\<rparr>"

text \<open>The same slot offered twice.\<close>

definition test_shop2 :: shop where
  "test_shop2 = test_shop\<lparr>sh_items := (sh_items test_shop)[1 := \<lparr>ve_index = 0, ve_amount = 5, ve_value = 10\<rparr>], sh_num := 2\<rparr>"

text \<open>A player with \<open>n\<close> apples who can carry them.\<close>

definition test_carrier :: "int \<Rightarrow> int \<Rightarrow> map_session_data" where
  "test_carrier a n = (test_player a)\<lparr>inventory := apples n # replicate 99 zero_item, weight := 20 * n, max_weight := 1000000\<rparr>"

definition test_buy_ctx :: buy_ctx where
  "test_buy_ctx = \<lparr>bx_feature = True, bx_muted = False, bx_novending_map = False, bx_novending_cell = False, bx_near = True\<rparr>"

definition test_store :: "int \<Rightarrow> int \<Rightarrow> int \<Rightarrow> s_buyingstore" where
  "test_store price amt limit = \<lparr>bs_items = zero_offers[0 := \<lparr>bi_price = price, bi_amount = amt, bi_nameid = 512\<rparr>],
     bs_zenylimit = limit, bs_slots = 1, bs_id = 9\<rparr>"

definition test_buyer :: map_session_data where
  "test_buyer = (test_player 2)\<lparr>st_buyingstore := True\<rparr>"

lemma test_vend_state: "vend_state test_env (test_player 1) test_vender"
  using test_inv_ok [of 1] test_cart_ok [of 2]
  by (auto simp: vend_state_def test_vender_def cart_ok_def not_expired_def zero_item_def)

section \<open>Vending\<close>

text \<open>C25: the cart of the vender holds no expired rentals (\<open>vend_state\<close>). A purchase that is refused changes
  nothing. One that goes through takes exactly the price of
  the entries from the buyer, who could pay it, and gives the vender what the tax leaves of it, up to
  the zeny limit; inventory and cart stay well formed, no offer with nothing left remains, and the
  items of the buyer and the cart are conserved except for the entries that \<open>pc_additem\<close> refuses,
  which \<open>vend_lost\<close> counts.\<close>

theorem vending_purchase_fair:
  assumes st: "vend_state e sd vsd" and z: "zeny_ok sd" "zeny_ok vsd" and num: "sh_num sh \<le> length (sh_items sh)"
    and net: "\<forall>z \<ge> 0. 0 \<le> vx_net c z \<and> vx_net c z \<le> z"
    and p: "vending_purchasereq e c sd vsd sh uid data = (r, sd', vsd', sh')"
    and ds: "ds = map vend_entry data" and pr: "pr = vend_price sh ds" and got: "got = min MAX_ZENY (zeny vsd + vx_net c pr)"
  shows "(r \<noteq> VEND_SOLD \<longrightarrow> sd' = sd \<and> vsd' = vsd \<and> sh' = sh)
    \<and> (r = VEND_SOLD \<longrightarrow> 0 \<le> pr \<and> pr \<le> zeny sd \<and> zeny sd' = zeny sd - pr \<and> zeny vsd' = got
        \<and> vend_state e sd' vsd' \<and> cart sd' = cart sd \<and> inventory vsd' = inventory vsd
        \<and> (\<forall>k. count_item k (inventory sd') + count_item k (cart vsd')
              + vend_lost e k ds (sd\<lparr>zeny := zeny sd - pr\<rparr>) (vsd\<lparr>zeny := got\<rparr>)
              = count_item k (inventory sd) + count_item k (cart vsd))
        \<and> (\<forall>i < sh_num sh'. ve_amount (sh_items sh' ! i) \<noteq> 0))"
  using vending_purchase_ok [OF st z num net p] unfolding ds pr got .

theorem vending_purchase_fair_witness:
  "\<exists>sd' vsd' sh'. vending_purchasereq test_env test_vend_ctx (test_player 1) test_vender test_shop 7 [(2, 2)] = (VEND_SOLD, sd', vsd', sh')
    \<and> zeny sd' = 980 \<and> zeny vsd' = 1020"
proof -
  let ?T = "vending_purchasereq test_env test_vend_ctx (test_player 1) test_vender test_shop 7 [(2, 2)]"
  obtain r sd' vsd' sh' where T: "?T = (r, sd', vsd', sh')" by (rule prod_cases4)
  have "fst ?T = VEND_SOLD" by code_simp
  then have r: "r = VEND_SOLD" using T by simp
  have pr: "vend_price test_shop (map vend_entry [(2, 2)]) = 20" by code_simp
  have z: "zeny_ok (test_player 1)" "zeny_ok test_vender" "zeny test_vender = 1000"
    by (simp_all add: zeny_ok_def test_vender_def MAX_ZENY_def)
  have "zeny sd' = 980 \<and> zeny vsd' = 1020"
    using vending_purchase_fair [OF test_vend_state z(1,2) _ _ T HOL.refl HOL.refl HOL.refl] r
    unfolding pr by (simp add: test_shop_def test_vend_ctx_def z(3) MAX_ZENY_def)
  then show ?thesis using T r by blast
qed

text \<open>The answer of \<open>pc_additem\<close> is ignored: a buyer one short of a full stack who asks twice for
  an amount that fits once pays for both, the cart loses both, and he receives one.\<close>

theorem vending_purchase_loses:
  "case vending_purchasereq test_env test_vend_ctx (test_carrier 1 29997) test_vender test_shop2 7 [(2, 2), (2, 2)] of
     (r, sd', vsd', sh') \<Rightarrow> r = VEND_SOLD \<and> zeny sd' = 960 \<and> zeny vsd' = 1040
       \<and> count_item 512 (inventory sd') = 29999 \<and> count_item 512 (cart vsd') = 1"
  by code_simp

text \<open>C36: a shop opens only for an idle player who used the skill, and then every one of its offers is
  a cart slot that holds at least the amount offered of an identified, tradable item that is no rental,
  at no more than the highest price; a refusal leaves the player and the shop closed as they were.\<close>

theorem vending_open_sound:
  assumes "cart_ok e sd" "length (sh_items sh) = MAX_VENDING"
    "vending_openvending e dead lvl carton maxv nextid sd sh data = (r, sd', sh', nextid', rows)"
  shows "(r \<noteq> 0 \<longrightarrow> sd' = sd \<and> sh_num sh' = sh_num sh \<and> sh_id sh' = sh_id sh \<and> sh_prevend sh' = sh_prevend sh \<and> nextid' = nextid \<and> rows = [])
    \<and> (r = 0 \<longrightarrow> sd' = sd\<lparr>st_vending := True\<rparr> \<and> \<not> pc_istrading sd \<and> sh_prevend sh \<and> \<not> sh_prevend sh'
        \<and> sh_id sh' = nextid + 1 \<and> nextid' = nextid + 1 \<and> 0 < sh_num sh' \<and> sh_num sh' \<le> length data \<and> length rows = length data
        \<and> (\<forall>i < sh_num sh'. vend_offer_sound e sd maxv (sh_items sh' ! i)))"
  using assms by (rule vending_open_ok)

definition test_seller :: map_session_data where
  "test_seller = (test_player 2)\<lparr>cart := (apples 5)\<lparr>item_id := 1, identify := 1\<rparr> # replicate 99 zero_item\<rparr>"

theorem vending_open_sound_witness:
  "\<exists>sd' sh' rows. vending_openvending test_env False 1 True 1000 6 test_seller (test_shop\<lparr>sh_prevend := True, sh_num := 0\<rparr>) [(2, 5, 10), (3, 1, 10)]
      = (0, sd', sh', 7, rows) \<and> vend_offer_sound test_env test_seller 1000 (sh_items sh' ! 0) \<and> length rows = 2 \<and> sh_num sh' = 1"
proof -
  let ?sh = "test_shop\<lparr>sh_prevend := True, sh_num := 0\<rparr>"
  let ?T = "vending_openvending test_env False 1 True 1000 6 test_seller ?sh [(2, 5, 10), (3, 1, 10)]"
  obtain r sd' sh' n rows where T: "?T = (r, sd', sh', n, rows)" by (rule prod_cases5)
  have c: "cart_ok test_env test_seller"
  proof -
    have "slot_ok (cart test_seller ! i)" if "i < MAX_CART" for i
      using that by (simp add: test_seller_def slots_nth MAX_CART_def slot_ok_def MAX_AMOUNT_def zero_item_def)
    then show ?thesis using test_cart_ok [of 2]
      by (simp add: cart_ok_def) (simp add: test_seller_def used_slots_def items_weight_def)
  qed
  have "fst ?T = 0 \<and> sh_num (fst (snd (snd ?T))) = 1" by code_simp
  then have r: "r = 0" "sh_num sh' = 1" using T by simp_all
  have "length (sh_items ?sh) = MAX_VENDING" by (simp add: test_shop_def MAX_VENDING_def)
  from vending_open_sound [OF c this T] r T show ?thesis by auto
qed

section \<open>Buying stores\<close>

text \<open>C26: as long as every product of price and amount fits into an \<open>int\<close>, a sale to a buying store
  costs the buyer exactly the sum of the prices, never more than his limit or his zeny, the seller
  receives it up to the zeny limit, both inventories stay well formed, and items are conserved except
  for the entries that \<open>pc_additem\<close> refuses, which \<open>buy_lost\<close> counts; a refused sale changes at most
  the limit of the store.\<close>

theorem buyingstore_sale_fair:
  assumes "inv_src_ok e sd" "inv_src_ok e pl" "zeny_ok sd" "zeny_ok pl" "0 \<le> bs_zenylimit bs" "buy_fits bs items"
    and t: "buyingstore_trade e c sd pl bs uid items = (r, sd', pl', bs')"
    and bs0: "bs0 = bs\<lparr>bs_zenylimit := min (bs_zenylimit bs) (zeny pl)\<rparr>"
  shows "(r \<noteq> BUY_DONE \<longrightarrow> sd' = sd \<and> pl' = pl \<and> bs' \<in> {bs, bs0})
    \<and> (r = BUY_DONE \<longrightarrow> inv_src_ok e sd' \<and> inv_src_ok e pl' \<and> buy_price bs items \<le> bs_zenylimit bs0
        \<and> zeny sd' = min MAX_ZENY (zeny sd + buy_price bs items) \<and> zeny pl' = zeny pl - buy_price bs items
        \<and> (\<forall>k. count_item k (inventory sd') + count_item k (inventory pl') + buy_lost e k items (sd, pl, bs0)
              = count_item k (inventory sd) + count_item k (inventory pl)))"
  using buyingstore_trade_ok [OF assms(1-6) t] unfolding bs0 .

theorem buyingstore_sale_fair_witness:
  "\<exists>sd' pl' bs'. buyingstore_trade test_env test_buy_ctx (test_player 1) test_buyer (test_store 30 8 500) 9 [(2, 512, 4)] = (BUY_DONE, sd', pl', bs')
    \<and> zeny sd' = 1120 \<and> zeny pl' = 880"
proof -
  let ?T = "buyingstore_trade test_env test_buy_ctx (test_player 1) test_buyer (test_store 30 8 500) 9 [(2, 512, 4)]"
  obtain r sd' pl' bs' where T: "?T = (r, sd', pl', bs')" by (rule prod_cases4)
  have "fst ?T = BUY_DONE" by code_simp
  then have r: "r = BUY_DONE" using T by simp
  have pr: "buy_price (test_store 30 8 500) [(2, 512, 4)] = 120" by code_simp
  have f: "buy_fits (test_store 30 8 500) [(2, 512, 4)]" by code_simp
  have i: "inv_src_ok test_env test_buyer" using test_inv_ok [of 2] by (simp add: test_buyer_def inv_src_ok_def inv_ok_def)
  have z: "zeny_ok (test_player 1)" "zeny_ok test_buyer" "zeny test_buyer = 1000" "0 \<le> bs_zenylimit (test_store 30 8 500)"
    by (simp_all add: zeny_ok_def test_buyer_def test_store_def MAX_ZENY_def)
  have "zeny sd' = 1120 \<and> zeny pl' = 880"
    using buyingstore_sale_fair [OF test_inv_ok i z(1,2,4) f T HOL.refl] r unfolding pr by (simp add: z(3) MAX_ZENY_def)
  then show ?thesis using T r by blast
qed

text \<open>The product of price and amount is an \<open>int\<close>: a store that offers the highest price for
  more than 21 pieces receives 22 of them for nothing, however little zeny its owner has, because the
  product wraps to a negative number, which passes the check against the limit and which neither
  payment accepts; the limit of the store grows.\<close>

theorem buyingstore_overflow_free:
  "case buyingstore_trade test_env test_buy_ctx (test_carrier 1 25) test_buyer (test_store BUYINGSTORE_MAX_PRICE 25 1) 9 [(2, 512, 22)] of
     (r, sd', pl', bs') \<Rightarrow> r = BUY_DONE \<and> zeny sd' = 1000 \<and> zeny pl' = 1000
       \<and> count_item 512 (inventory sd') = 3 \<and> count_item 512 (inventory pl') = 32 \<and> bs_zenylimit bs' = 2095187297"
  by code_simp

text \<open>C37: a buying store opens only for an idle player with the zeny of its limit, and then its offers
  are different items of the database that may be bought this way, of each of which he owns a stack
  that the amount asked for does not take over 9999, at a price in range; a refusal leaves the player
  as he was.\<close>

theorem buyingstore_create_sound:
  assumes "buyingstore_create e c nextid sd bs limit result name items = (r, sd', bs', nextid')"
    and "length (bs_items bs) = MAX_BUYINGSTORE_SLOTS" "bs_slots bs \<le> MAX_BUYINGSTORE_SLOTS"
  shows "(r \<noteq> 0 \<longrightarrow> sd' = sd \<and> nextid' = nextid)
    \<and> (r = 0 \<longrightarrow> sd' = sd\<lparr>st_buyingstore := True\<rparr> \<and> \<not> pc_istrading sd \<and> bs_id bs' = nextid' \<and> 0 < limit \<and> limit \<le> zeny sd
        \<and> bs_zenylimit bs' = limit \<and> bs_slots bs' = length items \<and> 0 < bs_slots bs' \<and> bs_slots bs' \<le> bs_slots bs
        \<and> distinct (map bi_nameid (take (bs_slots bs') (bs_items bs'))) \<and> (\<forall>o' \<in> set (take (bs_slots bs') (bs_items bs')). buy_offer_ok e sd o'))"
  using assms by (rule buyingstore_create_ok)

definition buying_env :: env where
  "buying_env = test_env\<lparr>env_db := [512 \<mapsto> apple_data\<lparr>flag_buyingstore := True\<rparr>]\<rparr>"

theorem buyingstore_create_sound_witness:
  "\<exists>sd' bs'. buyingstore_create buying_env test_buy_ctx 3 (test_player 1) (test_store 0 0 0) 200 1 ''store'' [(512, 5, 30)] = (0, sd', bs', 4)
    \<and> bs_zenylimit bs' = 200 \<and> bs_slots bs' = 1"
proof -
  let ?T = "buyingstore_create buying_env test_buy_ctx 3 (test_player 1) (test_store 0 0 0) 200 1 ''store'' [(512, 5, 30)]"
  obtain r sd' bs' n where T: "?T = (r, sd', bs', n)" by (rule prod_cases4)
  have "fst ?T = 0 \<and> snd (snd (snd ?T)) = 4" by code_simp
  then have r: "r = 0" "n = 4" using T by simp_all
  have "length (bs_items (test_store 0 0 0)) = MAX_BUYINGSTORE_SLOTS" "bs_slots (test_store 0 0 0) \<le> MAX_BUYINGSTORE_SLOTS"
    by (simp_all add: test_store_def zero_offers_def MAX_BUYINGSTORE_SLOTS_def)
  from buyingstore_create_sound [OF T this] r T show ?thesis by auto
qed

end
