(* ===== verification/DbTree.thy ===== *)
theory DbTree imports Rathena_Prelude "HOL-Library.Monad_Syntax" begin

text \<open>
  The red-black trees of the database system (\<^verbatim>\<open>src/common/db.c\<close>), on a heap of nodes.

  An address is a \<open>nat\<close>, \<open>0\<close> is \<open>NULL\<close>. The heap maps the addresses of allocated nodes to their
  contents; reading or writing through any other address is \<open>None\<close>, so a result \<open>Some\<close> means that
  no null or dangling pointer was followed. A function that takes \<open>DBNode *root\<close> takes the root and
  returns it. The loops are \<open>partial_function\<close>s: \<open>None\<close> also stands for a loop that does not end.
\<close>

datatype node_color = RED | BLACK

datatype db_key = Key_i int | Key_ui int | Key_str "string option"

datatype db_data = DB_DATA_INT int | DB_DATA_UINT int | DB_DATA_PTR nat

record dbn =
  dn_parent :: nat
  dn_left :: nat
  dn_right :: nat
  dn_key :: db_key
  dn_data :: db_data
  dn_color :: node_color
  dn_deleted :: bool

type_synonym heap = "nat \<Rightarrow> dbn option"

text \<open>A write to a field of the node at \<open>a\<close>.\<close>

definition upd_node :: "nat \<Rightarrow> (dbn \<Rightarrow> dbn) \<Rightarrow> heap \<Rightarrow> heap option" where
  "upd_node a f h = (case h a of None \<Rightarrow> None | Some n \<Rightarrow> Some (h(a \<mapsto> f n)))"

text \<open>\<open>if (a) a->f = \<dots>\<close>\<close>

definition upd_opt :: "nat \<Rightarrow> (dbn \<Rightarrow> dbn) \<Rightarrow> heap \<Rightarrow> heap option" where
  "upd_opt a f h = (if a = 0 then Some h else upd_node a f h)"

text \<open>The color that the tests \<open>a == NULL || a->color == BLACK\<close> look at.\<close>

definition node_black :: "nat \<Rightarrow> heap \<Rightarrow> bool option" where
  "node_black a h = (if a = 0 then Some True else do { n \<leftarrow> h a; Some (dn_color n = BLACK) })"

section \<open>Rotations\<close>

text \<open>Link \<open>y\<close> to the parent of \<open>node\<close>, which it replaces: as the left child when \<open>node\<close> is the left
  one, or tested the other way round.\<close>

definition link_left :: "nat \<Rightarrow> nat \<Rightarrow> heap \<times> nat \<Rightarrow> (heap \<times> nat) option" where
  "link_left node y = (\<lambda>(h, root).
     if node = root then Some (h, y)
     else do {
       n \<leftarrow> h node;
       p \<leftarrow> h (dn_parent n);
       h \<leftarrow> (if node = dn_left p then upd_node (dn_parent n) (\<lambda>p. p\<lparr>dn_left := y\<rparr>) h
            else upd_node (dn_parent n) (\<lambda>p. p\<lparr>dn_right := y\<rparr>) h);
       Some (h, root)
     })"

definition link_right :: "nat \<Rightarrow> nat \<Rightarrow> heap \<times> nat \<Rightarrow> (heap \<times> nat) option" where
  "link_right node y = (\<lambda>(h, root).
     if node = root then Some (h, y)
     else do {
       n \<leftarrow> h node;
       p \<leftarrow> h (dn_parent n);
       h \<leftarrow> (if node = dn_right p then upd_node (dn_parent n) (\<lambda>p. p\<lparr>dn_right := y\<rparr>) h
            else upd_node (dn_parent n) (\<lambda>p. p\<lparr>dn_left := y\<rparr>) h);
       Some (h, root)
     })"

definition db_rotate_left :: "nat \<Rightarrow> heap \<times> nat \<Rightarrow> (heap \<times> nat) option" where
  "db_rotate_left node = (\<lambda>(h, root). do {
     n \<leftarrow> h node;
     let y = dn_right n;
     yn \<leftarrow> h y;
     h \<leftarrow> upd_node node (\<lambda>n. n\<lparr>dn_right := dn_left yn\<rparr>) h;
     h \<leftarrow> upd_opt (dn_left yn) (\<lambda>m. m\<lparr>dn_parent := node\<rparr>) h;
     h \<leftarrow> upd_node y (\<lambda>m. m\<lparr>dn_parent := dn_parent n\<rparr>) h;
     (h, root) \<leftarrow> link_left node y (h, root);
     h \<leftarrow> upd_node y (\<lambda>m. m\<lparr>dn_left := node\<rparr>) h;
     h \<leftarrow> upd_node node (\<lambda>n. n\<lparr>dn_parent := y\<rparr>) h;
     Some (h, root)
   })"

definition db_rotate_right :: "nat \<Rightarrow> heap \<times> nat \<Rightarrow> (heap \<times> nat) option" where
  "db_rotate_right node = (\<lambda>(h, root). do {
     n \<leftarrow> h node;
     let y = dn_left n;
     yn \<leftarrow> h y;
     h \<leftarrow> upd_node node (\<lambda>n. n\<lparr>dn_left := dn_right yn\<rparr>) h;
     h \<leftarrow> upd_opt (dn_right yn) (\<lambda>m. m\<lparr>dn_parent := node\<rparr>) h;
     h \<leftarrow> upd_node y (\<lambda>m. m\<lparr>dn_parent := dn_parent n\<rparr>) h;
     (h, root) \<leftarrow> link_right node y (h, root);
     h \<leftarrow> upd_node y (\<lambda>m. m\<lparr>dn_right := node\<rparr>) h;
     h \<leftarrow> upd_node node (\<lambda>n. n\<lparr>dn_parent := y\<rparr>) h;
     Some (h, root)
   })"

section \<open>Rebalancing after an insertion\<close>

text \<open>One round of the loop, for a parent that is a left child and one that is a right child.\<close>

definition set_color :: "node_color \<Rightarrow> dbn \<Rightarrow> dbn" where
  "set_color c n = n\<lparr>dn_color := c\<rparr>"

definition rebalance_left :: "nat \<Rightarrow> nat \<Rightarrow> nat \<Rightarrow> heap \<times> nat \<Rightarrow> (nat \<times> heap \<times> nat) option" where
  "rebalance_left node p g = (\<lambda>(h, root). do {
     gn \<leftarrow> h g;
     let y = dn_right gn;
     black \<leftarrow> node_black y h;
     if \<not> black then do {
       h \<leftarrow> upd_node p (set_color BLACK) h;
       h \<leftarrow> upd_node y (set_color BLACK) h;
       h \<leftarrow> upd_node g (set_color RED) h;
       Some (g, h, root)
     } else do {
       pn \<leftarrow> h p;
       (node, h, root) \<leftarrow> (if node = dn_right pn
          then do { (h, root) \<leftarrow> db_rotate_left p (h, root); Some (p, h, root) } else Some (node, h, root));
       n \<leftarrow> h node;
       h \<leftarrow> upd_node (dn_parent n) (set_color BLACK) h;
       pn \<leftarrow> h (dn_parent n);
       h \<leftarrow> upd_node (dn_parent pn) (set_color RED) h;
       (h, root) \<leftarrow> db_rotate_right (dn_parent pn) (h, root);
       Some (node, h, root)
     }
   })"

definition rebalance_right :: "nat \<Rightarrow> nat \<Rightarrow> nat \<Rightarrow> heap \<times> nat \<Rightarrow> (nat \<times> heap \<times> nat) option" where
  "rebalance_right node p g = (\<lambda>(h, root). do {
     gn \<leftarrow> h g;
     let y = dn_left gn;
     black \<leftarrow> node_black y h;
     if \<not> black then do {
       h \<leftarrow> upd_node p (set_color BLACK) h;
       h \<leftarrow> upd_node y (set_color BLACK) h;
       h \<leftarrow> upd_node g (set_color RED) h;
       Some (g, h, root)
     } else do {
       pn \<leftarrow> h p;
       (node, h, root) \<leftarrow> (if node = dn_left pn
          then do { (h, root) \<leftarrow> db_rotate_right p (h, root); Some (p, h, root) } else Some (node, h, root));
       n \<leftarrow> h node;
       h \<leftarrow> upd_node (dn_parent n) (set_color BLACK) h;
       pn \<leftarrow> h (dn_parent n);
       h \<leftarrow> upd_node (dn_parent pn) (set_color RED) h;
       (h, root) \<leftarrow> db_rotate_left (dn_parent pn) (h, root);
       Some (node, h, root)
     }
   })"

definition rebalance_step :: "nat \<Rightarrow> nat \<Rightarrow> heap \<times> nat \<Rightarrow> (nat \<times> heap \<times> nat) option" where
  "rebalance_step node p = (\<lambda>(h, root). do {
     pn \<leftarrow> h p;
     gn \<leftarrow> h (dn_parent pn);
     if p = dn_left gn then rebalance_left node p (dn_parent pn) (h, root)
     else rebalance_right node p (dn_parent pn) (h, root)
   })"

partial_function (option) rebalance_loop :: "nat \<Rightarrow> heap \<Rightarrow> nat \<Rightarrow> (heap \<times> nat) option" where
  "rebalance_loop node h root =
     (if node = root then Some (h, root)
      else do {
        n \<leftarrow> h node;
        pn \<leftarrow> h (dn_parent n);
        if dn_color pn \<noteq> RED then Some (h, root)
        else do {
          s \<leftarrow> rebalance_step node (dn_parent n) (h, root);
          rebalance_loop (fst s) (fst (snd s)) (snd (snd s))
        }
      })"

declare rebalance_loop.simps [code]

definition db_rebalance :: "nat \<Rightarrow> heap \<times> nat \<Rightarrow> (heap \<times> nat) option" where
  "db_rebalance node = (\<lambda>(h, root). do {
     h \<leftarrow> upd_node node (set_color RED) h;
     (h, root) \<leftarrow> rebalance_loop node h root;
     h \<leftarrow> upd_node root (set_color BLACK) h;
     Some (h, root)
   })"

section \<open>Erasing a node\<close>

text \<open>\<open>while (y->left != NULL) y = y->left;\<close>\<close>

partial_function (option) leftmost :: "heap \<Rightarrow> nat \<Rightarrow> nat option" where
  "leftmost h y = do { n \<leftarrow> h y; if dn_left n = 0 then Some y else leftmost h (dn_left n) }"

declare leftmost.simps [code]

text \<open>A node with at most one child: \<open>x\<close>, the child, takes its place. The results are the color that
  disappears, \<open>x\<close> and its parent.\<close>

definition erase_one :: "nat \<Rightarrow> nat \<Rightarrow> heap \<times> nat \<Rightarrow> (node_color \<times> nat \<times> nat \<times> heap \<times> nat) option" where
  "erase_one node x = (\<lambda>(h, root). do {
     n \<leftarrow> h node;
     h \<leftarrow> upd_opt x (\<lambda>m. m\<lparr>dn_parent := dn_parent n\<rparr>) h;
     (h, root) \<leftarrow> link_left node x (h, root);
     Some (dn_color n, x, dn_parent n, h, root)
   })"

text \<open>A node with two children: its successor \<open>y\<close>, the leftmost node of its right subtree, takes its
  place and its color.\<close>

definition erase_two :: "nat \<Rightarrow> heap \<times> nat \<Rightarrow> (node_color \<times> nat \<times> nat \<times> heap \<times> nat) option" where
  "erase_two node = (\<lambda>(h, root). do {
     n \<leftarrow> h node;
     y \<leftarrow> leftmost h (dn_right n);
     yn \<leftarrow> h y;
     let x = dn_right yn;
     h \<leftarrow> upd_node (dn_left n) (\<lambda>m. m\<lparr>dn_parent := y\<rparr>) h;
     h \<leftarrow> upd_node y (\<lambda>m. m\<lparr>dn_left := dn_left n\<rparr>) h;
     (x_parent, h) \<leftarrow> (if y \<noteq> dn_right n then do {
         h \<leftarrow> upd_opt x (\<lambda>m. m\<lparr>dn_parent := dn_parent yn\<rparr>) h;
         h \<leftarrow> upd_node (dn_parent yn) (\<lambda>m. m\<lparr>dn_left := x\<rparr>) h;
         h \<leftarrow> upd_node y (\<lambda>m. m\<lparr>dn_right := dn_right n\<rparr>) h;
         h \<leftarrow> upd_node (dn_right n) (\<lambda>m. m\<lparr>dn_parent := y\<rparr>) h;
         Some (dn_parent yn, h)
       } else Some (y, h));
     (h, root) \<leftarrow> link_left node y (h, root);
     h \<leftarrow> upd_node y (\<lambda>m. m\<lparr>dn_parent := dn_parent n\<rparr>) h;
     h \<leftarrow> upd_node y (set_color (dn_color n)) h;
     h \<leftarrow> upd_node node (set_color (dn_color yn)) h;
     Some (dn_color yn, x, x_parent, h, root)
   })"

text \<open>One round of the loop that restores the balance, for \<open>x\<close> a left and a right child: either \<open>x\<close>
  and its parent for the next round, or the end (\<open>break\<close>).\<close>

definition erase_left :: "nat \<Rightarrow> nat \<Rightarrow> heap \<times> nat \<Rightarrow> ((nat \<times> nat) option \<times> heap \<times> nat) option" where
  "erase_left x xp = (\<lambda>(h, root). do {
     pn \<leftarrow> h xp;
     let w = dn_right pn;
     wn \<leftarrow> h w;
     (w, h, root) \<leftarrow> (if dn_color wn = RED then do {
         h \<leftarrow> upd_node w (set_color BLACK) h;
         h \<leftarrow> upd_node xp (set_color RED) h;
         (h, root) \<leftarrow> db_rotate_left xp (h, root);
         pn \<leftarrow> h xp;
         Some (dn_right pn, h, root)
       } else Some (w, h, root));
     wn \<leftarrow> h w;
     lb \<leftarrow> node_black (dn_left wn) h;
     rb \<leftarrow> node_black (dn_right wn) h;
     if lb \<and> rb then do {
       h \<leftarrow> upd_node w (set_color RED) h;
       pn \<leftarrow> h xp;
       Some (Some (xp, dn_parent pn), h, root)
     } else do {
       (w, h, root) \<leftarrow> (if rb then do {
           h \<leftarrow> upd_opt (dn_left wn) (set_color BLACK) h;
           h \<leftarrow> upd_node w (set_color RED) h;
           (h, root) \<leftarrow> db_rotate_right w (h, root);
           pn \<leftarrow> h xp;
           Some (dn_right pn, h, root)
         } else Some (w, h, root));
       pn \<leftarrow> h xp;
       h \<leftarrow> upd_node w (set_color (dn_color pn)) h;
       h \<leftarrow> upd_node xp (set_color BLACK) h;
       wn \<leftarrow> h w;
       h \<leftarrow> upd_opt (dn_right wn) (set_color BLACK) h;
       (h, root) \<leftarrow> db_rotate_left xp (h, root);
       Some (None, h, root)
     }
   })"

definition erase_right :: "nat \<Rightarrow> nat \<Rightarrow> heap \<times> nat \<Rightarrow> ((nat \<times> nat) option \<times> heap \<times> nat) option" where
  "erase_right x xp = (\<lambda>(h, root). do {
     pn \<leftarrow> h xp;
     let w = dn_left pn;
     wn \<leftarrow> h w;
     (w, h, root) \<leftarrow> (if dn_color wn = RED then do {
         h \<leftarrow> upd_node w (set_color BLACK) h;
         h \<leftarrow> upd_node xp (set_color RED) h;
         (h, root) \<leftarrow> db_rotate_right xp (h, root);
         pn \<leftarrow> h xp;
         Some (dn_left pn, h, root)
       } else Some (w, h, root));
     wn \<leftarrow> h w;
     rb \<leftarrow> node_black (dn_right wn) h;
     lb \<leftarrow> node_black (dn_left wn) h;
     if rb \<and> lb then do {
       h \<leftarrow> upd_node w (set_color RED) h;
       pn \<leftarrow> h xp;
       Some (Some (xp, dn_parent pn), h, root)
     } else do {
       (w, h, root) \<leftarrow> (if lb then do {
           h \<leftarrow> upd_opt (dn_right wn) (set_color BLACK) h;
           h \<leftarrow> upd_node w (set_color RED) h;
           (h, root) \<leftarrow> db_rotate_left w (h, root);
           pn \<leftarrow> h xp;
           Some (dn_left pn, h, root)
         } else Some (w, h, root));
       pn \<leftarrow> h xp;
       h \<leftarrow> upd_node w (set_color (dn_color pn)) h;
       h \<leftarrow> upd_node xp (set_color BLACK) h;
       wn \<leftarrow> h w;
       h \<leftarrow> upd_opt (dn_left wn) (set_color BLACK) h;
       (h, root) \<leftarrow> db_rotate_right xp (h, root);
       Some (None, h, root)
     }
   })"

definition erase_step :: "nat \<Rightarrow> nat \<Rightarrow> heap \<times> nat \<Rightarrow> ((nat \<times> nat) option \<times> heap \<times> nat) option" where
  "erase_step x xp = (\<lambda>(h, root). do {
     pn \<leftarrow> h xp;
     if x = dn_left pn then erase_left x xp (h, root) else erase_right x xp (h, root)
   })"

text \<open>The loop; the last thing it does is to make \<open>x\<close> black.\<close>

partial_function (option) erase_loop :: "nat \<Rightarrow> nat \<Rightarrow> heap \<Rightarrow> nat \<Rightarrow> (heap \<times> nat) option" where
  "erase_loop x xp h root = do {
     black \<leftarrow> node_black x h;
     if x = root \<or> \<not> black then do { h \<leftarrow> upd_opt x (set_color BLACK) h; Some (h, root) }
     else do {
       s \<leftarrow> erase_step x xp (h, root);
       (case fst s of
          Some (x, xp) \<Rightarrow> erase_loop x xp (fst (snd s)) (snd (snd s))
        | None \<Rightarrow> do { h \<leftarrow> upd_opt x (set_color BLACK) (fst (snd s)); Some (h, snd (snd s)) })
     }
   }"

declare erase_loop.simps [code]

definition db_rebalance_erase :: "nat \<Rightarrow> heap \<times> nat \<Rightarrow> (heap \<times> nat) option" where
  "db_rebalance_erase node = (\<lambda>(h, root). do {
     n \<leftarrow> h node;
     (c, x, xp, h, root) \<leftarrow> (if dn_left n = 0 then erase_one node (dn_right n) (h, root)
        else if dn_right n = 0 then erase_one node (dn_left n) (h, root)
        else erase_two node (h, root));
     if c \<noteq> RED then erase_loop x xp h root else Some (h, root)
   })"

end
