(* ===== verification/DbKey.thy ===== *)
theory DbKey imports DbTree "HOL-Library.Word" "HOL-Library.List_Lexorder" "HOL-Library.Char_ord" begin

text \<open>
  Keys, options and releasers of the database of \<^verbatim>\<open>src/common/db.c\<close>: the comparison and the hash
  of each key type. The locale \<open>key_order\<close> states what the trees need of them; it is interpreted on the
  four key types and on the defaults that \<^verbatim>\<open>db_alloc\<close> installs.
\<close>

unbundle bit_operations_syntax

text \<open>
  Keys, data, options, comparators, hashers and releasers of the database system
  (\<^verbatim>\<open>src/common/db.c\<close>, \<^verbatim>\<open>src/common/db.h\<close>).

  A string key holds the characters before the terminating NUL; \<open>Key_str None\<close> is the null pointer.
  Reading a key as a type it was not made for, and reading through a null pointer, is \<open>None\<close>.
  The C locale is assumed for \<open>tolower\<close>.
\<close>

datatype DBType = DB_INT | DB_UINT | DB_STRING | DB_ISTRING

type_synonym DBOptions = int

definition DB_OPT_DUP_KEY :: int where "DB_OPT_DUP_KEY = 1"
definition DB_OPT_RELEASE_KEY :: int where "DB_OPT_RELEASE_KEY = 2"
definition DB_OPT_RELEASE_DATA :: int where "DB_OPT_RELEASE_DATA = 4"
definition DB_OPT_ALLOW_NULL_KEY :: int where "DB_OPT_ALLOW_NULL_KEY = 8"
definition DB_OPT_ALLOW_NULL_DATA :: int where "DB_OPT_ALLOW_NULL_DATA = 16"

definition has_opt :: "DBOptions \<Rightarrow> int \<Rightarrow> bool" where
  "has_opt options flag \<longleftrightarrow> options AND flag \<noteq> 0"

definition db_fix_options :: "DBType \<Rightarrow> DBOptions \<Rightarrow> DBOptions" where
  "db_fix_options type options = (case type of
     DB_INT \<Rightarrow> options AND NOT (DB_OPT_DUP_KEY OR DB_OPT_RELEASE_KEY)
   | DB_UINT \<Rightarrow> options AND NOT (DB_OPT_DUP_KEY OR DB_OPT_RELEASE_KEY)
   | DB_STRING \<Rightarrow> options
   | DB_ISTRING \<Rightarrow> options)"

fun db_is_key_null :: "DBType \<Rightarrow> db_key \<Rightarrow> bool" where
  "db_is_key_null DB_STRING key = (key = Key_str None)"
| "db_is_key_null DB_ISTRING key = (key = Key_str None)"
| "db_is_key_null _ key = False"

definition data_null :: "db_data \<Rightarrow> bool" where
  "data_null data \<longleftrightarrow> data = DB_DATA_PTR 0"

fun key_i :: "db_key \<Rightarrow> int option" where
  "key_i (Key_i i) = Some i" | "key_i _ = None"

fun key_ui :: "db_key \<Rightarrow> int option" where
  "key_ui (Key_ui i) = Some i" | "key_ui _ = None"

fun key_str :: "db_key \<Rightarrow> string option" where
  "key_str (Key_str s) = s" | "key_str _ = None"

section \<open>Comparators\<close>

definition cmp3 :: "int \<Rightarrow> int \<Rightarrow> int" where
  "cmp3 a b = (if a < b then - 1 else if a > b then 1 else 0)"

definition db_int_cmp :: "db_key \<Rightarrow> db_key \<Rightarrow> nat \<Rightarrow> int option" where
  "db_int_cmp key1 key2 maxlen = (case (key_i key1, key_i key2) of (Some a, Some b) \<Rightarrow> Some (cmp3 a b) | _ \<Rightarrow> None)"

definition db_uint_cmp :: "db_key \<Rightarrow> db_key \<Rightarrow> nat \<Rightarrow> int option" where
  "db_uint_cmp key1 key2 maxlen = (case (key_ui key1, key_ui key2) of (Some a, Some b) \<Rightarrow> Some (cmp3 a b) | _ \<Rightarrow> None)"

definition tolower :: "char \<Rightarrow> char" where
  "tolower c = (if CHR ''A'' \<le> c \<and> c \<le> CHR ''Z'' then char_of (of_char c + 32 :: nat) else c)"

text \<open>\<open>strncmp\<close> compares the characters as \<open>unsigned char\<close>, the end of a string as \<open>0\<close>.\<close>

fun strncmp :: "string \<Rightarrow> string \<Rightarrow> nat \<Rightarrow> int" where
  "strncmp s t 0 = 0"
| "strncmp [] [] (Suc n) = 0"
| "strncmp [] (d # t) (Suc n) = - of_char d"
| "strncmp (c # s) [] (Suc n) = of_char c"
| "strncmp (c # s) (d # t) (Suc n) = (if c = d then strncmp s t n else of_char c - of_char d)"

definition strncasecmp :: "string \<Rightarrow> string \<Rightarrow> nat \<Rightarrow> int" where
  "strncasecmp s t n = strncmp (List.map tolower s) (List.map tolower t) n"

definition db_string_cmp :: "db_key \<Rightarrow> db_key \<Rightarrow> nat \<Rightarrow> int option" where
  "db_string_cmp key1 key2 maxlen = (case (key_str key1, key_str key2) of (Some s, Some t) \<Rightarrow> Some (strncmp s t maxlen) | _ \<Rightarrow> None)"

definition db_istring_cmp :: "db_key \<Rightarrow> db_key \<Rightarrow> nat \<Rightarrow> int option" where
  "db_istring_cmp key1 key2 maxlen = (case (key_str key1, key_str key2) of (Some s, Some t) \<Rightarrow> Some (strncasecmp s t maxlen) | _ \<Rightarrow> None)"

definition db_default_cmp :: "DBType \<Rightarrow> db_key \<Rightarrow> db_key \<Rightarrow> nat \<Rightarrow> int option" where
  "db_default_cmp type = (case type of DB_INT \<Rightarrow> db_int_cmp | DB_UINT \<Rightarrow> db_uint_cmp | DB_STRING \<Rightarrow> db_string_cmp | DB_ISTRING \<Rightarrow> db_istring_cmp)"

section \<open>Hashers\<close>

definition db_int_hash :: "db_key \<Rightarrow> nat \<Rightarrow> 32 word option" where
  "db_int_hash key maxlen = map_option word_of_int (key_i key)"

definition db_uint_hash :: "db_key \<Rightarrow> nat \<Rightarrow> 32 word option" where
  "db_uint_hash key maxlen = map_option word_of_int (key_ui key)"

definition hash_char :: "32 word \<Rightarrow> char \<Rightarrow> 32 word" where
  "hash_char hash k = (hash * 33 + of_char k) XOR drop_bit 24 hash"

text \<open>The loop stops at the end of the string or after the round with \<open>i = maxlen\<close>.\<close>

fun hash_loop :: "nat \<Rightarrow> nat \<Rightarrow> 32 word \<Rightarrow> string \<Rightarrow> 32 word" where
  "hash_loop maxlen i hash [] = hash"
| "hash_loop maxlen i hash (k # ks) =
     (if i = maxlen then hash_char hash k else hash_loop maxlen (Suc i) (hash_char hash k) ks)"

definition db_string_hash :: "db_key \<Rightarrow> nat \<Rightarrow> 32 word option" where
  "db_string_hash key maxlen = map_option (hash_loop maxlen 0 0) (key_str key)"

definition db_istring_hash :: "db_key \<Rightarrow> nat \<Rightarrow> 32 word option" where
  "db_istring_hash key maxlen = map_option (\<lambda>s. hash_loop maxlen 0 0 (List.map tolower s)) (key_str key)"

definition db_default_hash :: "DBType \<Rightarrow> db_key \<Rightarrow> nat \<Rightarrow> 32 word option" where
  "db_default_hash type = (case type of DB_INT \<Rightarrow> db_int_hash | DB_UINT \<Rightarrow> db_uint_hash | DB_STRING \<Rightarrow> db_string_hash | DB_ISTRING \<Rightarrow> db_istring_hash)"

section \<open>Releasers\<close>

text \<open>What a releaser passes to \<open>aFree\<close>.\<close>

datatype freed = Free_key db_key | Free_data nat

datatype DBReleaser = db_release_nothing | db_release_key | db_release_data | db_release_both

definition DB_RELEASE_NOTHING :: int where "DB_RELEASE_NOTHING = 0"
definition DB_RELEASE_KEY :: int where "DB_RELEASE_KEY = 1"
definition DB_RELEASE_DATA :: int where "DB_RELEASE_DATA = 2"
definition DB_RELEASE_BOTH :: int where "DB_RELEASE_BOTH = 3"

definition free_key :: "db_key \<Rightarrow> int \<Rightarrow> freed list" where
  "free_key key which = (if which AND DB_RELEASE_KEY \<noteq> 0 then [Free_key key] else [])"

fun free_data :: "db_data \<Rightarrow> int \<Rightarrow> freed list" where
  "free_data (DB_DATA_PTR p) which = (if which AND DB_RELEASE_DATA \<noteq> 0 then [Free_data p] else [])"
| "free_data _ which = []"

fun releases :: "DBReleaser \<Rightarrow> db_key \<Rightarrow> db_data \<Rightarrow> int \<Rightarrow> freed list" where
  "releases db_release_nothing key data which = []"
| "releases db_release_key key data which = free_key key which"
| "releases db_release_data key data which = free_data data which"
| "releases db_release_both key data which = free_key key which @ free_data data which"

definition db_default_release :: "DBType \<Rightarrow> DBOptions \<Rightarrow> DBReleaser" where
  "db_default_release type options = (let options = db_fix_options type options in
     if has_opt options DB_OPT_RELEASE_DATA then
       if has_opt options (DB_OPT_DUP_KEY OR DB_OPT_RELEASE_KEY) then db_release_both else db_release_data
     else if has_opt options (DB_OPT_DUP_KEY OR DB_OPT_RELEASE_KEY) then db_release_key
     else db_release_nothing)"

definition db_custom_release :: "int \<Rightarrow> DBReleaser option" where
  "db_custom_release which =
     (if which = DB_RELEASE_NOTHING then Some db_release_nothing
      else if which = DB_RELEASE_KEY then Some db_release_key
      else if which = DB_RELEASE_DATA then Some db_release_data
      else if which = DB_RELEASE_BOTH then Some db_release_both
      else None)"

section \<open>Orders\<close>

text \<open>What the trees rely on: the comparator orders the keys of the database by a key of the order,
  and keys that compare equal have the same hash.\<close>

locale key_order =
  fixes cmp :: "db_key \<Rightarrow> db_key \<Rightarrow> nat \<Rightarrow> int option"
    and hash :: "db_key \<Rightarrow> nat \<Rightarrow> 32 word option"
    and maxlen :: nat
    and keys :: "db_key set"
    and norm :: "db_key \<Rightarrow> int list"
  assumes cmp_some: "k \<in> keys \<Longrightarrow> k' \<in> keys \<Longrightarrow> cmp k k' maxlen \<noteq> None"
    and cmp_eq: "k \<in> keys \<Longrightarrow> k' \<in> keys \<Longrightarrow> cmp k k' maxlen = Some c \<Longrightarrow> c = 0 \<longleftrightarrow> norm k = norm k'"
    and cmp_less: "k \<in> keys \<Longrightarrow> k' \<in> keys \<Longrightarrow> cmp k k' maxlen = Some c \<Longrightarrow> c < 0 \<longleftrightarrow> norm k < norm k'"
    and hash_some: "k \<in> keys \<Longrightarrow> hash k maxlen \<noteq> None"
    and hash_eq: "k \<in> keys \<Longrightarrow> k' \<in> keys \<Longrightarrow> norm k = norm k' \<Longrightarrow> hash k maxlen = hash k' maxlen"

text \<open>The keys a database may hold: numbers of the type, strings of at most \<open>maxlen\<close> characters.\<close>

fun db_keys :: "DBType \<Rightarrow> nat \<Rightarrow> db_key set" where
  "db_keys DB_INT n = {Key_i i | i. - (2 ^ 31) \<le> i \<and> i < 2 ^ 31}"
| "db_keys DB_UINT n = {Key_ui i | i. 0 \<le> i \<and> i < 2 ^ 32}"
| "db_keys _ n = {Key_str (Some s) | s. length s \<le> n \<and> CHR 0x00 \<notin> set s}"

fun db_norm :: "DBType \<Rightarrow> db_key \<Rightarrow> int list" where
  "db_norm DB_ISTRING (Key_str (Some s)) = List.map (of_char \<circ> tolower) s"
| "db_norm _ (Key_str (Some s)) = List.map of_char s"
| "db_norm _ (Key_i i) = [i]"
| "db_norm _ (Key_ui i) = [i]"
| "db_norm _ _ = []"

lemma of_char_int [simp]:
  "(of_char c = (0 :: int)) \<longleftrightarrow> c = CHR 0x00"
  "\<not> of_char c < (0 :: int)"
  "(0 :: int) < of_char c \<longleftrightarrow> c \<noteq> CHR 0x00"
proof -
  have nat: "(of_char c = (0 :: nat)) \<longleftrightarrow> c = CHR 0x00"
    by (cases c) (auto simp: of_char_def split: if_splits)
  have "(of_char c :: int) = of_nat (of_char c)"
    by (rule of_nat_of_char [symmetric])
  then show "(of_char c = (0 :: int)) \<longleftrightarrow> c = CHR 0x00" "\<not> of_char c < (0 :: int)"
    "(0 :: int) < of_char c \<longleftrightarrow> c \<noteq> CHR 0x00"
    using nat by linarith+
qed

lemma strncmp_norm:
  assumes "length s \<le> n" "length t \<le> n" "CHR 0x00 \<notin> set s" "CHR 0x00 \<notin> set t"
  shows "strncmp s t n = 0 \<longleftrightarrow> s = t" "strncmp s t n < 0 \<longleftrightarrow> List.map of_char s < (List.map of_char t :: int list)"
  using assms by (induction s t n rule: strncmp.induct) auto

lemma tolower_nz: "c \<noteq> CHR 0x00 \<Longrightarrow> tolower c \<noteq> CHR 0x00"
proof
  assume c: "c \<noteq> CHR 0x00" "tolower c = CHR 0x00"
  then have r: "CHR ''A'' \<le> c \<and> c \<le> CHR ''Z''"
    by (auto simp: tolower_def split: if_split_asm)
  then have "of_char (char_of (of_char c + 32 :: nat)) = (0 :: nat)"
    using c by (simp add: tolower_def)
  then show False
    using r by (simp add: less_eq_char_def)
qed

lemma map_of_char_eq [simp]: "List.map of_char s = (List.map of_char t :: int list) \<longleftrightarrow> s = t"
  by (simp add: inj_map_eq_map inj_def)

interpretation int_keys: key_order db_int_cmp db_int_hash n "db_keys DB_INT n" "db_norm DB_INT" for n
  by unfold_locales (auto simp: db_int_cmp_def cmp3_def db_int_hash_def split: if_split_asm)

interpretation uint_keys: key_order db_uint_cmp db_uint_hash n "db_keys DB_UINT n" "db_norm DB_UINT" for n
  by unfold_locales (auto simp: db_uint_cmp_def cmp3_def db_uint_hash_def split: if_split_asm)

interpretation string_keys: key_order db_string_cmp db_string_hash n "db_keys DB_STRING n" "db_norm DB_STRING" for n
  by unfold_locales (auto simp: db_string_cmp_def db_string_hash_def strncmp_norm)

lemma tolower_ok: "CHR 0x00 \<notin> set s \<Longrightarrow> CHR 0x00 \<notin> set (List.map tolower s)"
  by (metis (no_types, lifting) imageE list.set_map tolower_nz)

lemma strncasecmp_norm:
  assumes "length s \<le> n" "length t \<le> n" "CHR 0x00 \<notin> set s" "CHR 0x00 \<notin> set t"
  shows "strncasecmp s t n = 0 \<longleftrightarrow> List.map tolower s = List.map tolower t"
    "strncasecmp s t n < 0 \<longleftrightarrow> List.map (of_char \<circ> tolower) s < (List.map (of_char \<circ> tolower) t :: int list)"
  using strncmp_norm [of "List.map tolower s" n "List.map tolower t"] assms tolower_ok
  unfolding strncasecmp_def List.map.compositionality length_map by blast+

lemma map_of_tolower_eq:
  "List.map (of_char \<circ> tolower) s = (List.map (of_char \<circ> tolower) t :: int list) \<longleftrightarrow> List.map tolower s = List.map tolower t"
  using map_of_char_eq [of "List.map tolower s" "List.map tolower t"] unfolding List.map.compositionality .

interpretation istring_keys: key_order db_istring_cmp db_istring_hash n "db_keys DB_ISTRING n" "db_norm DB_ISTRING" for n
  by unfold_locales (auto simp: db_istring_cmp_def db_istring_hash_def strncasecmp_norm map_of_tolower_eq)

lemma default_order: "key_order (db_default_cmp type) (db_default_hash type) n (db_keys type n) (db_norm type)"
  unfolding db_default_cmp_def db_default_hash_def
  using int_keys.key_order_axioms uint_keys.key_order_axioms string_keys.key_order_axioms istring_keys.key_order_axioms
  by (cases type) simp_all

interpretation db_order: key_order "db_default_cmp type" "db_default_hash type" n "db_keys type n" "db_norm type" for type n
  by (rule default_order)

end
