(* ===== verification/DbZip.thy ===== *)
theory DbZip imports DbTree "HOL-Library.Tree" "HOL-Library.Multiset" begin

text \<open>
  The trees that a heap of nodes represents. A tree holds addresses and colors; a context is the path
  from a position up to the root, with the sibling subtrees.
\<close>

datatype dir = Lft | Rgt

primrec opp :: "dir \<Rightarrow> dir" where
  "opp Lft = Rgt" | "opp Rgt = Lft"

type_synonym rbtree = "(nat \<times> node_color) tree"

primrec dnode :: "dir \<Rightarrow> nat \<Rightarrow> node_color \<Rightarrow> rbtree \<Rightarrow> rbtree \<Rightarrow> rbtree" where
  "dnode Lft a c t s = Node t (a, c) s"
| "dnode Rgt a c t s = Node s (a, c) t"

datatype frame = Fr dir nat node_color rbtree

fun plug :: "frame list \<Rightarrow> rbtree \<Rightarrow> rbtree" where
  "plug [] t = t"
| "plug (Fr d a c s # cs) t = plug cs (dnode d a c t s)"

primrec child :: "dir \<Rightarrow> dbn \<Rightarrow> nat" where
  "child Lft n = dn_left n"
| "child Rgt n = dn_right n"

primrec set_child :: "dir \<Rightarrow> nat \<Rightarrow> dbn \<Rightarrow> dbn" where
  "set_child Lft y n = n\<lparr>dn_left := y\<rparr>"
| "set_child Rgt y n = n\<lparr>dn_right := y\<rparr>"

fun ptr :: "rbtree \<Rightarrow> nat" where
  "ptr Leaf = 0"
| "ptr (Node l (a, c) r) = a"

fun rep :: "heap \<Rightarrow> nat \<Rightarrow> rbtree \<Rightarrow> bool" where
  "rep h pa Leaf = True"
| "rep h pa (Node l (a, c) r) = (a \<noteq> 0 \<and>
     (\<exists>n. h a = Some n \<and> dn_parent n = pa \<and> dn_left n = ptr l \<and> dn_right n = ptr r \<and> dn_color n = c) \<and>
     rep h a l \<and> rep h a r)"

fun cpar :: "frame list \<Rightarrow> nat" where
  "cpar [] = 0"
| "cpar (Fr d a c s # cs) = a"

fun repc :: "heap \<Rightarrow> nat \<Rightarrow> frame list \<Rightarrow> bool" where
  "repc h p [] = True"
| "repc h p (Fr d a c s # cs) = (a \<noteq> 0 \<and>
     (\<exists>n. h a = Some n \<and> dn_parent n = cpar cs \<and> child d n = p \<and> child (opp d) n = ptr s \<and> dn_color n = c) \<and>
     rep h a s \<and> repc h a cs)"

fun croot :: "nat \<Rightarrow> frame list \<Rightarrow> nat" where
  "croot p [] = p"
| "croot p (Fr d a c s # cs) = croot a cs"

definition addrs :: "rbtree \<Rightarrow> nat list" where
  "addrs t = map fst (inorder t)"

fun caddrs :: "frame list \<Rightarrow> nat list" where
  "caddrs [] = []"
| "caddrs (Fr d a c s # cs) = a # addrs s @ caddrs cs"

lemma addrs_simps [simp]:
  "addrs Leaf = []"
  "addrs (Node l ac r) = addrs l @ fst ac # addrs r"
  by (simp_all add: addrs_def)

lemma opp_opp [simp]: "opp (opp d) = d"
  by (cases d) auto

lemma ptr_dnode [simp]: "ptr (dnode d a c t s) = a"
  by (cases d) auto

lemma dnode_neq [simp]: "dnode d a c t s \<noteq> Leaf"
  by (cases d) auto

lemma plug_Leaf [simp]: "plug cs t = Leaf \<longleftrightarrow> cs = [] \<and> t = Leaf"
  by (induction cs t rule: plug.induct) auto

lemma set_addrs_dnode [simp]: "set (addrs (dnode d a c t s)) = insert a (set (addrs t) \<union> set (addrs s))"
  by (cases d) auto

lemma mset_addrs_dnode [simp]: "mset (addrs (dnode d a c t s)) = add_mset a (mset (addrs t) + mset (addrs s))"
  by (cases d) auto

lemma mset_addrs_plug: "mset (addrs (plug cs t)) = mset (addrs t) + mset (caddrs cs)"
  by (induction cs t rule: plug.induct) auto

lemma set_addrs_plug [simp]: "set (addrs (plug cs t)) = set (addrs t) \<union> set (caddrs cs)"
  using arg_cong [OF mset_addrs_plug [of cs t], of set_mset] by simp

lemma distinct_dnode [simp]:
  "distinct (addrs (dnode d a c t s)) \<longleftrightarrow> a \<notin> set (addrs t) \<and> a \<notin> set (addrs s) \<and>
     distinct (addrs t) \<and> distinct (addrs s) \<and> set (addrs t) \<inter> set (addrs s) = {}"
  by (cases d) auto

lemma distinct_plug [simp]:
  "distinct (addrs (plug cs t)) \<longleftrightarrow> distinct (addrs t) \<and> distinct (caddrs cs) \<and> set (addrs t) \<inter> set (caddrs cs) = {}"
proof -
  have "mset (addrs (plug cs t)) = mset (addrs t @ caddrs cs)"
    by (simp add: mset_addrs_plug)
  then have "distinct (addrs (plug cs t)) = distinct (addrs t @ caddrs cs)"
    by (rule mset_eq_imp_distinct_iff)
  then show ?thesis
    by simp
qed

lemma rep_dnode [simp]:
  "rep h pa (dnode d a c t s) = (a \<noteq> 0 \<and>
     (\<exists>n. h a = Some n \<and> dn_parent n = pa \<and> child d n = ptr t \<and> child (opp d) n = ptr s \<and> dn_color n = c) \<and>
     rep h a t \<and> rep h a s)"
  by (cases d) auto

lemma rep_upd [simp]: "a \<notin> set (addrs t) \<Longrightarrow> rep (h(a \<mapsto> n)) pa t = rep h pa t"
  by (induction h pa t rule: rep.induct) auto

lemma repc_upd [simp]: "a \<notin> set (caddrs cs) \<Longrightarrow> repc (h(a \<mapsto> n)) p cs = repc h p cs"
  by (induction h p cs rule: repc.induct) auto

lemma rep_plug: "rep h 0 (plug cs t) \<longleftrightarrow> rep h (cpar cs) t \<and> repc h (ptr t) cs"
  by (induction cs t rule: plug.induct) auto

lemma ptr_plug: "ptr (plug cs t) = croot (ptr t) cs"
  by (induction cs t rule: plug.induct) auto

lemma rep_0: "rep h pa t \<Longrightarrow> 0 \<notin> set (addrs t)"
  by (induction h pa t rule: rep.induct) auto

lemma repc_0: "repc h p cs \<Longrightarrow> 0 \<notin> set (caddrs cs)"
  by (induction h p cs rule: repc.induct) (auto dest: rep_0)

lemma ptr_0 [simp]: "rep h pa t \<Longrightarrow> ptr t = 0 \<longleftrightarrow> t = Leaf"
  by (cases t rule: ptr.cases) auto

lemma ptr_in: "t \<noteq> Leaf \<Longrightarrow> ptr t \<in> set (addrs t)"
  by (cases t rule: ptr.cases) auto

lemma croot_in: "cs \<noteq> [] \<Longrightarrow> croot p cs \<in> set (caddrs cs)"
proof (induction p cs rule: croot.induct)
  case (2 p d a c s cs)
  then show ?case
    by (cases "cs = []") auto
qed simp

lemma croot_root [simp]:
  assumes "a \<notin> set (caddrs cs)"
  shows "a = croot a cs \<longleftrightarrow> cs = []" "croot a cs = a \<longleftrightarrow> cs = []"
  using assms croot_in [of cs a] by (cases "cs = []"; auto)+

lemma par_in: "cs \<noteq> [] \<Longrightarrow> cpar cs \<in> set (caddrs cs)"
  by (cases cs rule: cpar.cases) auto

text \<open>The part of a node that is not tree structure.\<close>

definition core :: "dbn \<Rightarrow> db_key \<times> db_data \<times> bool" where
  "core n = (dn_key n, dn_data n, dn_deleted n)"

definition cores :: "heap \<Rightarrow> nat \<Rightarrow> (db_key \<times> db_data \<times> bool) option" where
  "cores h = (\<lambda>a. map_option core (h a))"

lemma cores_upd [simp]: "h a = Some n \<Longrightarrow> core n' = core n \<Longrightarrow> cores (h(a \<mapsto> n')) = cores h"
  by (auto simp: cores_def)

text \<open>The heap \<open>h\<close> and \<open>root\<close> represent \<open>T\<close>, whose nodes are those at the addresses \<open>S\<close>; compared with
  \<open>h0\<close> only the tree structure of these nodes has changed.\<close>

definition ok :: "heap \<Rightarrow> nat set \<Rightarrow> heap \<times> nat \<Rightarrow> rbtree \<Rightarrow> bool" where
  "ok h0 S hr T \<longleftrightarrow> rep (fst hr) 0 T \<and> snd hr = ptr T \<and> distinct (addrs T) \<and> set (addrs T) = S \<and>
     (\<forall>a. a \<notin> S \<longrightarrow> fst hr a = h0 a) \<and> cores (fst hr) = cores h0"

lemma ok_plug:
  "ok h0 S (h, root) (plug cs t) \<longleftrightarrow>
     rep h (cpar cs) t \<and> repc h (ptr t) cs \<and> root = croot (ptr t) cs \<and>
     distinct (addrs t) \<and> distinct (caddrs cs) \<and> set (addrs t) \<inter> set (caddrs cs) = {} \<and>
     S = set (addrs t) \<union> set (caddrs cs) \<and>
     (\<forall>a. a \<notin> S \<longrightarrow> h a = h0 a) \<and> cores h = cores h0"
  by (auto simp: ok_def rep_plug ptr_plug)

lemma child_simps [simp]:
  "child d (n\<lparr>dn_color := k\<rparr>) = child d n"
  "child d (n\<lparr>dn_parent := p\<rparr>) = child d n"
  "child d (set_child d y n) = y"
  "child (opp d) (set_child d y n) = child (opp d) n"
  "child d (set_child (opp d) y n) = child d n"
  "dn_parent (set_child d y n) = dn_parent n"
  "dn_color (set_child d y n) = dn_color n"
  "core (n\<lparr>dn_color := k\<rparr>) = core n"
  "core (n\<lparr>dn_parent := p\<rparr>) = core n"
  "core (set_child d y n) = core n"
  by (cases d; simp add: core_def)+

lemma ok_color:
  assumes "ok h0 S (h, root) (plug cs (dnode d a c t s))"
  shows "\<exists>h'. upd_node a (set_color k) h = Some h' \<and> ok h0 S (h', root) (plug cs (dnode d a k t s))"
  using assms unfolding ok_plug
  by (auto simp: upd_node_def set_color_def)

lemma ok_read:
  assumes "ok h0 S (h, root) (plug cs (dnode d a c t s))"
  shows "\<exists>n. h a = Some n \<and> dn_parent n = cpar cs \<and> child d n = ptr t \<and> child (opp d) n = ptr s \<and> dn_color n = c"
  using assms unfolding ok_plug by auto

definition rot :: "dir \<Rightarrow> nat \<Rightarrow> heap \<times> nat \<Rightarrow> (heap \<times> nat) option" where
  "rot d = (if d = Lft then db_rotate_left else db_rotate_right)"

definition link :: "dir \<Rightarrow> nat \<Rightarrow> nat \<Rightarrow> heap \<times> nat \<Rightarrow> (heap \<times> nat) option" where
  "link d = (if d = Lft then link_left else link_right)"

lemma rot_def': "rot d node = (\<lambda>(h, root). do {
     n \<leftarrow> h node;
     let y = child (opp d) n;
     yn \<leftarrow> h y;
     h \<leftarrow> upd_node node (set_child (opp d) (child d yn)) h;
     h \<leftarrow> upd_opt (child d yn) (\<lambda>m. m\<lparr>dn_parent := node\<rparr>) h;
     h \<leftarrow> upd_node y (\<lambda>m. m\<lparr>dn_parent := dn_parent n\<rparr>) h;
     (h, root) \<leftarrow> link d node y (h, root);
     h \<leftarrow> upd_node y (set_child d node) h;
     h \<leftarrow> upd_node node (\<lambda>n. n\<lparr>dn_parent := y\<rparr>) h;
     Some (h, root)
   })"
  by (cases d) (simp_all add: rot_def link_def db_rotate_left_def db_rotate_right_def set_child_def[abs_def])

lemma upd_parent:
  assumes "rep h pa t" "distinct (addrs t)"
  shows "\<exists>h'. upd_opt (ptr t) (\<lambda>m. m\<lparr>dn_parent := q\<rparr>) h = Some h' \<and> rep h' q t \<and>
    (\<forall>a. a \<notin> set (addrs t) \<longrightarrow> h' a = h a) \<and> cores h' = cores h"
  using assms by (cases t rule: ptr.cases) (auto simp: upd_opt_def upd_node_def)

lemma rep_cong: "(\<And>a. a \<in> set (addrs t) \<Longrightarrow> h' a = h a) \<Longrightarrow> rep h' pa t = rep h pa t"
  by (induction h pa t rule: rep.induct) auto

lemma repc_cong: "(\<And>a. a \<in> set (caddrs cs) \<Longrightarrow> h' a = h a) \<Longrightarrow> repc h' p cs = repc h p cs"
proof (induction h p cs rule: repc.induct)
  case (2 h p d a c s cs)
  have "h' a = h a" "rep h' a s = rep h a s"
    using 2(2) by (simp, intro rep_cong, simp)
  then show ?case
    using 2 by simp
qed simp

lemma link_frame:
  assumes r: "repc h a (Fr e b c s # cs)" and n: "h a = Some n" "dn_parent n = b"
    and a: "a \<noteq> 0" "a \<notin> set (caddrs (Fr e b c s # cs))" "distinct (caddrs (Fr e b c s # cs))"
    and m: "h b = Some m"
  shows "link d a y (h, root) = (if a = root then Some (h, y) else Some (h(b \<mapsto> set_child e y m), root))"
proof -
  have "ptr s \<noteq> a"
    using a ptr_in [of s] by (cases "s = Leaf") auto
  then show ?thesis
    using r n m a by (cases d; cases e) (auto simp: link_def link_left_def link_right_def upd_node_def)
qed

lemma link_ctx:
  assumes r: "repc h a cs" and n: "h a = Some n" "dn_parent n = cpar cs"
    and a: "a \<noteq> 0" "a \<notin> set (caddrs cs)" "distinct (caddrs cs)"
  shows "\<exists>h'. link d a y (h, croot a cs) = Some (h', croot y cs) \<and> repc h' y cs \<and>
    (\<forall>b. b \<notin> set (caddrs cs) \<longrightarrow> h' b = h b) \<and> cores h' = cores h"
proof (cases cs rule: cpar.cases)
  case 1
  then show ?thesis
    by (auto simp: link_def link_left_def link_right_def)
next
  case (2 e b c s cs')
  obtain m where m: "h b = Some m" "dn_parent m = cpar cs'" "child e m = a" "child (opp e) m = ptr s" "dn_color m = c"
    using r 2 by auto
  have "croot a cs \<noteq> a"
    using croot_in [of cs a] a 2 by auto
  then show ?thesis
    using link_frame [OF r [unfolded 2] n(1) _ a [unfolded 2] m(1), of d y "croot a cs"] n r a m 2 by auto
qed

text \<open>A rotation turns the tree at its node, in any context, and follows no null pointer.\<close>

lemma ok_rot:
  assumes ok: "ok h0 S (h, root) (plug cs (dnode d a ca t1 (dnode d b cb t2 t3)))"
  shows "\<exists>h' root'. rot d a (h, root) = Some (h', root') \<and>
    ok h0 S (h', root') (plug cs (dnode d b cb (dnode d a ca t1 t2) t3))"
proof -
  obtain n m where
    n: "h a = Some n" "dn_parent n = cpar cs" "child d n = ptr t1" "child (opp d) n = b" "dn_color n = ca" and
    m: "h b = Some m" "dn_parent m = a" "child d m = ptr t2" "child (opp d) m = ptr t3" "dn_color m = cb"
    using ok [unfolded ok_plug] by auto
  have r: "rep h a t1" "rep h b t2" "rep h b t3" "repc h a cs" "root = croot a cs"
    using ok [unfolded ok_plug] by auto
  let ?A = "set (addrs t1)" and ?B = "set (addrs t2)" and ?C = "set (addrs t3)" and ?D = "set (caddrs cs)"
  have dis: "distinct (addrs t1)" "distinct (addrs t2)" "distinct (addrs t3)" "distinct (caddrs cs)"
    "?A \<inter> ?B = {}" "?A \<inter> ?C = {}" "?A \<inter> ?D = {}" "?B \<inter> ?C = {}" "?B \<inter> ?D = {}" "?C \<inter> ?D = {}"
    using ok [unfolded ok_plug] by auto
  have ab: "a \<noteq> b" "a \<noteq> 0" "b \<noteq> 0" "a \<notin> ?A" "a \<notin> ?B" "a \<notin> ?C" "a \<notin> ?D" "b \<notin> ?A" "b \<notin> ?B" "b \<notin> ?C" "b \<notin> ?D"
    using ok [unfolded ok_plug] by auto
  have h0: "S = insert a (insert b (?A \<union> ?B \<union> ?C \<union> ?D))" "\<And>x. x \<notin> S \<Longrightarrow> h x = h0 x" "cores h = cores h0"
    using ok [unfolded ok_plug] by auto
  define h1 where "h1 = h(a \<mapsto> set_child (opp d) (ptr t2) n)"
  have c1: "cores h1 = cores h"
    using n(1) by (simp add: h1_def)
  have r1: "rep h1 b t2"
    using r ab by (simp add: h1_def)
  obtain h2 where h2: "upd_opt (ptr t2) (\<lambda>m. m\<lparr>dn_parent := a\<rparr>) h1 = Some h2" "rep h2 a t2"
     "\<And>x. x \<notin> ?B \<Longrightarrow> h2 x = h1 x" "cores h2 = cores h1"
    using upd_parent [OF r1 dis(2), of a] by auto
  have h2b: "h2 b = Some m"
    using h2(3) ab m by (simp add: h1_def)
  define h3 where "h3 = h2(b \<mapsto> m\<lparr>dn_parent := cpar cs\<rparr>)"
  have c3: "cores h3 = cores h2"
    using h2b by (simp add: h3_def)
  have h3a: "h3 a = Some (set_child (opp d) (ptr t2) n)" "h3 b = Some (m\<lparr>dn_parent := cpar cs\<rparr>)"
    using ab h2(3) by (simp_all add: h3_def h1_def)
  have eq3: "h3 x = h x" if "x \<noteq> a" "x \<noteq> b" "x \<notin> ?B" for x
    using that h2(3) by (simp add: h3_def h1_def)
  have r3: "repc h3 a cs"
    using r(4) repc_cong [of cs h3 h a] eq3 dis ab by (metis disjoint_iff)
  obtain h4 where h4: "link d a b (h3, croot a cs) = Some (h4, croot b cs)" "repc h4 b cs"
     "\<And>x. x \<notin> ?D \<Longrightarrow> h4 x = h3 x" "cores h4 = cores h3"
    using link_ctx [OF r3 h3a(1) _ ab(2,7) dis(4), of d b] n(2) by auto
  have h4a: "h4 a = Some (set_child (opp d) (ptr t2) n)" "h4 b = Some (m\<lparr>dn_parent := cpar cs\<rparr>)"
    using ab h4(3) h3a by simp_all
  define h5 where "h5 = h4(b \<mapsto> set_child d a (m\<lparr>dn_parent := cpar cs\<rparr>), a \<mapsto> (set_child (opp d) (ptr t2) n)\<lparr>dn_parent := b\<rparr>)"
  have run: "rot d a (h, root) = Some (h5, croot b cs)"
    using n(1,2,4) m(1,3) ab(1) h2(1) h2b h4(1) h4a r(5)
    by (simp add: rot_def' upd_node_def h1_def [symmetric] h3_def [symmetric] h5_def)
  have c5: "cores h5 = cores h"
    using h4a ab c1 c3 h2(4) h4(4) by (simp add: h5_def)
  have eq5: "h5 x = h x" if "x \<noteq> a" "x \<noteq> b" "x \<notin> ?B" "x \<notin> ?D" for x
    using that h4(3) eq3 by (simp add: h5_def)
  have r5: "rep h5 a t1" "rep h5 b t3"
    using r(1) rep_cong [of t1 h5 h a] r(3) rep_cong [of t3 h5 h b] eq5 dis ab by (metis disjoint_iff)+
  have "h5 x = h2 x" if "x \<in> ?B" for x
  proof -
    have "x \<noteq> a" "x \<noteq> b" "x \<notin> ?D"
      using that ab dis by blast+
    then show ?thesis
      using h4(3) by (simp add: h5_def h3_def)
  qed
  then have r6: "rep h5 a t2"
    using rep_cong [of t2 h5 h2 a] h2(2) by simp
  have r7: "repc h5 b cs"
    using h4(2) ab by (simp add: h5_def)
  have "ok h0 S (h5, croot b cs) (plug cs (dnode d b cb (dnode d a ca t1 t2) t3))"
    using r5 r6 r7 dis ab h0 eq5 c5 n m
    unfolding ok_plug by (auto simp: h5_def)
  then show ?thesis
    using run by blast
qed

end
