(* ===== verification/DbInsert.thy ===== *)
theory DbInsert imports DbZip begin

text \<open>
  Red-black invariants of trees and contexts, and the rebalancing after an insertion
  (\<^verbatim>\<open>db_rebalance\<close>): it ends, follows no null pointer, keeps the nodes in their order and makes the
  tree a red-black tree again.
\<close>

section \<open>Red-black trees\<close>

fun colr :: "rbtree \<Rightarrow> node_color" where
  "colr Leaf = BLACK"
| "colr (Node l (a, c) r) = c"

fun bh :: "rbtree \<Rightarrow> nat" where
  "bh Leaf = 0"
| "bh (Node l (a, c) r) = bh l + (if c = BLACK then 1 else 0)"

fun invc :: "rbtree \<Rightarrow> bool" where
  "invc Leaf = True"
| "invc (Node l (a, c) r) = ((c = RED \<longrightarrow> colr l = BLACK \<and> colr r = BLACK) \<and> invc l \<and> invc r)"

fun invh :: "rbtree \<Rightarrow> bool" where
  "invh Leaf = True"
| "invh (Node l (a, c) r) = (bh l = bh r \<and> invh l \<and> invh r)"

definition rbt :: "rbtree \<Rightarrow> bool" where
  "rbt t \<longleftrightarrow> invc t \<and> invh t \<and> colr t = BLACK"

text \<open>The color above a position; a red root is not allowed, so it counts as red above the root.\<close>

fun ccol :: "frame list \<Rightarrow> node_color" where
  "ccol [] = RED"
| "ccol (Fr d a c s # cs) = c"

fun cinvc :: "frame list \<Rightarrow> bool" where
  "cinvc [] = True"
| "cinvc (Fr d a c s # cs) = ((c = RED \<longrightarrow> colr s = BLACK \<and> ccol cs = BLACK) \<and> invc s \<and> cinvc cs)"

text \<open>\<open>cinvh n cs\<close>: a tree of black height \<open>n\<close> fits.\<close>

fun cinvh :: "nat \<Rightarrow> frame list \<Rightarrow> bool" where
  "cinvh n [] = True"
| "cinvh n (Fr d a c s # cs) = (bh s = n \<and> invh s \<and> cinvh (n + (if c = BLACK then 1 else 0)) cs)"

lemma colr_dnode [simp]: "colr (dnode d a c t s) = c"
  by (cases d) auto

lemma invc_dnode [simp]:
  "invc (dnode d a c t s) \<longleftrightarrow> (c = RED \<longrightarrow> colr t = BLACK \<and> colr s = BLACK) \<and> invc t \<and> invc s"
  by (cases d) auto

lemma invh_dnode [simp]: "invh (dnode d a c t s) \<longleftrightarrow> bh t = bh s \<and> invh t \<and> invh s"
  by (cases d) auto

lemma bh_dnode' [simp]: "bh t = bh s \<Longrightarrow> bh (dnode d a c t s) = bh s + (if c = BLACK then 1 else 0)"
  by (cases d) auto

lemma not_RED: "c \<noteq> RED \<longleftrightarrow> c = BLACK" "c \<noteq> BLACK \<longleftrightarrow> c = RED"
  by (cases c; simp)+

lemma rbt_plug:
  "rbt (plug cs t) \<longleftrightarrow> invc t \<and> invh t \<and> cinvh (bh t) cs \<and> cinvc cs \<and> (colr t = RED \<longrightarrow> ccol cs = BLACK)"
proof (induction cs t rule: plug.induct)
  case (1 t)
  show ?case
    by (cases "colr t") (simp_all add: rbt_def)
next
  case (2 d a c s cs t)
  show ?case
    unfolding plug.simps 2 invc_dnode invh_dnode colr_dnode cinvh.simps cinvc.simps ccol.simps
    by (cases "bh t = bh s"; cases "colr t"; cases c) auto
qed

lemma red_dnode:
  assumes "colr t = RED"
  obtains a l r where "t = dnode d a RED l r"
proof -
  obtain l a r where t: "t = Node l (a, RED) r"
    using assms by (cases t rule: colr.cases) auto
  show thesis
  proof (cases d)
    case Lft
    show ?thesis
      by (rule that [of a l r]) (simp add: t Lft)
  next
    case Rgt
    show ?thesis
      by (rule that [of a r l]) (simp add: t Rgt)
  qed
qed

section \<open>The order of the nodes\<close>

text \<open>The addresses from left to right.\<close>

fun cleft :: "frame list \<Rightarrow> nat list" where
  "cleft [] = []"
| "cleft (Fr d a c s # cs) = cleft cs @ (if d = Lft then [] else addrs s @ [a])"

fun cright :: "frame list \<Rightarrow> nat list" where
  "cright [] = []"
| "cright (Fr d a c s # cs) = (if d = Lft then a # addrs s else []) @ cright cs"

lemma addrs_plug: "addrs (plug cs t) = cleft cs @ addrs t @ cright cs"
proof (induction cs t rule: plug.induct)
  case (2 d a c s cs t)
  then show ?case
    by (cases d) auto
qed simp

lemma addrs_dnode: "addrs (dnode d a c t s) = (if d = Lft then addrs t @ a # addrs s else addrs s @ a # addrs t)"
  by (cases d) auto

section \<open>One round\<close>

definition rebal :: "dir \<Rightarrow> nat \<Rightarrow> nat \<Rightarrow> nat \<Rightarrow> heap \<times> nat \<Rightarrow> (nat \<times> heap \<times> nat) option" where
  "rebal d node p g = (\<lambda>(h, root). do {
     gn \<leftarrow> h g;
     let y = child (opp d) gn;
     black \<leftarrow> node_black y h;
     if \<not> black then do {
       h \<leftarrow> upd_node p (set_color BLACK) h;
       h \<leftarrow> upd_node y (set_color BLACK) h;
       h \<leftarrow> upd_node g (set_color RED) h;
       Some (g, h, root)
     } else do {
       pn \<leftarrow> h p;
       (node, h, root) \<leftarrow> (if node = child (opp d) pn
          then do { (h, root) \<leftarrow> rot d p (h, root); Some (p, h, root) } else Some (node, h, root));
       n \<leftarrow> h node;
       h \<leftarrow> upd_node (dn_parent n) (set_color BLACK) h;
       pn \<leftarrow> h (dn_parent n);
       h \<leftarrow> upd_node (dn_parent pn) (set_color RED) h;
       (h, root) \<leftarrow> rot (opp d) (dn_parent pn) (h, root);
       Some (node, h, root)
     }
   })"

lemma rot_simps: "rot Lft = db_rotate_left" "rot Rgt = db_rotate_right"
  by (simp_all add: rot_def)

lemma rebalance_left: "rebalance_left = rebal Lft"
  unfolding rebalance_left_def [abs_def] rebal_def [abs_def] opp.simps child.simps rot_simps by (rule refl)

lemma rebalance_right: "rebalance_right = rebal Rgt"
  unfolding rebalance_right_def [abs_def] rebal_def [abs_def] opp.simps child.simps rot_simps by (rule refl)

lemma ok_black:
  assumes "ok h0 S (h, root) (plug cs t)"
  shows "node_black (ptr t) h = Some (colr t = BLACK)"
  using assms unfolding ok_plug by (cases t rule: colr.cases) (auto simp: node_black_def)

lemma dnode_opp: "dnode (opp d) a c t s = dnode d a c s t"
  by (cases d) auto

lemma dir_cases: "e = d \<or> e = opp d"
  by (cases d; cases e) auto

lemma rebal_red:
  assumes ok: "ok h0 S (h, root) (plug (Fr e p RED s # Fr d g BLACK (dnode k y RED ul ur) # cs) t)"
  shows "\<exists>h'. rebal d node p g (h, root) = Some (g, h', root) \<and>
    ok h0 S (h', root) (plug cs (dnode d g RED (dnode e p BLACK t s) (dnode k y BLACK ul ur)))"
proof -
  let ?U = "dnode k y RED ul ur"
  have o1: "ok h0 S (h, root) (plug cs (dnode d g BLACK (dnode e p RED t s) ?U))"
    using ok by simp
  obtain gn where gn: "h g = Some gn" "child (opp d) gn = y"
    using ok_read [OF o1] by auto
  have "ok h0 S (h, root) (plug (Fr (opp d) g BLACK (dnode e p RED t s) # cs) ?U)"
    using o1 by (simp add: dnode_opp)
  then have b: "node_black y h = Some False"
    using ok_black by fastforce
  have "ok h0 S (h, root) (plug (Fr d g BLACK ?U # cs) (dnode e p RED t s))"
    using o1 by simp
  then obtain h1 where h1: "upd_node p (set_color BLACK) h = Some h1"
      "ok h0 S (h1, root) (plug (Fr d g BLACK ?U # cs) (dnode e p BLACK t s))"
    using ok_color by blast
  then have "ok h0 S (h1, root) (plug (Fr (opp d) g BLACK (dnode e p BLACK t s) # cs) ?U)"
    by (simp add: dnode_opp)
  then obtain h2 where h2: "upd_node y (set_color BLACK) h1 = Some h2"
      "ok h0 S (h2, root) (plug (Fr (opp d) g BLACK (dnode e p BLACK t s) # cs) (dnode k y BLACK ul ur))"
    using ok_color by blast
  then have "ok h0 S (h2, root) (plug cs (dnode d g BLACK (dnode e p BLACK t s) (dnode k y BLACK ul ur)))"
    by (simp add: dnode_opp)
  then obtain h3 where h3: "upd_node g (set_color RED) h2 = Some h3"
      "ok h0 S (h3, root) (plug cs (dnode d g RED (dnode e p BLACK t s) (dnode k y BLACK ul ur)))"
    using ok_color by blast
  have "rebal d node p g (h, root) = Some (g, h3, root)"
    using gn b h1(1) h2(1) h3(1) by (simp add: rebal_def)
  then show ?thesis
    using h3(2) by blast
qed

lemma rebal_turn:
  assumes ok: "ok h0 S (h, root) (plug cs (dnode d g BLACK (dnode d p RED t s) u))"
    and t: "t \<noteq> Leaf"
  shows "\<exists>h' root'. do {
       n \<leftarrow> h (ptr t);
       h \<leftarrow> upd_node (dn_parent n) (set_color BLACK) h;
       pn \<leftarrow> h (dn_parent n);
       h \<leftarrow> upd_node (dn_parent pn) (set_color RED) h;
       (h, root) \<leftarrow> rot (opp d) (dn_parent pn) (h, root);
       Some (ptr t, h, root) } = Some (ptr t, h', root') \<and>
    ok h0 S (h', root') (plug cs (dnode d p BLACK t (dnode (opp d) g RED u s)))"
proof -
  have o1: "ok h0 S (h, root) (plug (Fr d g BLACK u # cs) (dnode d p RED t s))"
    using ok by simp
  have "ok h0 S (h, root) (plug (Fr d p RED s # Fr d g BLACK u # cs) t)"
    using ok by simp
  then obtain n where n: "h (ptr t) = Some n" "dn_parent n = p"
    using t unfolding ok_plug by (cases t rule: ptr.cases) auto
  obtain h1 where h1: "upd_node p (set_color BLACK) h = Some h1"
      "ok h0 S (h1, root) (plug (Fr d g BLACK u # cs) (dnode d p BLACK t s))"
    using ok_color [OF o1] by blast
  obtain pn where pn: "h1 p = Some pn" "dn_parent pn = g"
    using ok_read [OF h1(2)] by auto
  have "ok h0 S (h1, root) (plug cs (dnode d g BLACK (dnode d p BLACK t s) u))"
    using h1(2) by simp
  then obtain h2 where h2: "upd_node g (set_color RED) h1 = Some h2"
      "ok h0 S (h2, root) (plug cs (dnode d g RED (dnode d p BLACK t s) u))"
    using ok_color by blast
  have "ok h0 S (h2, root) (plug cs (dnode (opp d) g RED u (dnode (opp d) p BLACK s t)))"
    using h2(2) by (simp add: dnode_opp)
  then obtain h3 root3 where h3: "rot (opp d) g (h2, root) = Some (h3, root3)"
      "ok h0 S (h3, root3) (plug cs (dnode d p BLACK t (dnode (opp d) g RED u s)))"
    using ok_rot [of h0 S h2 root cs "opp d" g RED u p BLACK s t] by (auto simp: dnode_opp)
  show ?thesis
    using n h1(1) pn h2(1) h3 by simp
qed

lemma rebal_black:
  assumes ok: "ok h0 S (h, root) (plug (Fr e p RED s # Fr d g BLACK u # cs) t)"
    and t: "colr t = RED" and u: "colr u = BLACK"
    and inv: "invc t" "invh t" "cinvh (bh t) (Fr e p RED s # Fr d g BLACK u # cs)" "cinvc (Fr e p RED s # Fr d g BLACK u # cs)"
  shows "\<exists>h' root' q b v cs' t'. rebal d (ptr t) p g (h, root) = Some (ptr t', h', root') \<and> t' \<noteq> Leaf \<and>
    ok h0 S (h', root') (plug (Fr q b BLACK v # cs') t') \<and> rbt (plug (Fr q b BLACK v # cs') t') \<and>
    addrs (plug (Fr q b BLACK v # cs') t') = addrs (plug (Fr e p RED s # Fr d g BLACK u # cs) t)"
proof -
  have ok1: "ok h0 S (h, root) (plug cs (dnode d g BLACK (dnode e p RED t s) u))"
    using ok by simp
  obtain gn where gn: "h g = Some gn" "child (opp d) gn = ptr u"
    using ok_read [OF ok1] by auto
  have "ok h0 S (h, root) (plug (Fr (opp d) g BLACK (dnode e p RED t s) # cs) u)"
    using ok1 by (simp add: dnode_opp)
  then have b: "node_black (ptr u) h = Some True"
    using ok_black u by fastforce
  have ok2: "ok h0 S (h, root) (plug (Fr d g BLACK u # cs) (dnode e p RED t s))"
    using ok by simp
  obtain pn where pn: "h p = Some pn" "child e pn = ptr t" "child (opp e) pn = ptr s"
    using ok_read [OF ok2] by auto
  have t0: "t \<noteq> Leaf"
    using t by auto
  consider "e = d" | "e = opp d"
    using dir_cases by blast
  then show ?thesis
  proof cases
    case 1
    have "ptr t \<noteq> ptr s"
      using ok t0 ptr_in [OF t0] ptr_in [of s] unfolding ok_plug by (cases "s = Leaf") auto
    then have *: "rebal d (ptr t) p g (h, root) = do {
       n \<leftarrow> h (ptr t);
       h \<leftarrow> upd_node (dn_parent n) (set_color BLACK) h;
       pn \<leftarrow> h (dn_parent n);
       h \<leftarrow> upd_node (dn_parent pn) (set_color RED) h;
       (h, root) \<leftarrow> rot (opp d) (dn_parent pn) (h, root);
       Some (ptr t, h, root) }"
      using gn b pn 1 by (simp add: rebal_def)
    obtain h' root' where r: "rebal d (ptr t) p g (h, root) = Some (ptr t, h', root')"
       "ok h0 S (h', root') (plug (Fr d p BLACK (dnode (opp d) g RED u s) # cs) t)"
      using rebal_turn [of h0 S h root cs d g p t s u] ok 1 t0 unfolding * by auto
    moreover have "rbt (plug (Fr d p BLACK (dnode (opp d) g RED u s) # cs) t)"
      using inv u by (simp add: rbt_plug)
    moreover have "addrs (plug (Fr d p BLACK (dnode (opp d) g RED u s) # cs) t) = addrs (plug (Fr e p RED s # Fr d g BLACK u # cs) t)"
      using 1 by (cases d) (simp_all add: addrs_plug)
    ultimately show ?thesis
      using t0 by blast
  next
    case 2
    obtain x l r where x: "t = dnode d x RED l r"
      using red_dnode [OF t] by blast
    have o3: "ok h0 S (h, root) (plug (Fr d g BLACK u # cs) (dnode d p RED s (dnode d x RED l r)))"
      using ok 2 x by (simp add: dnode_opp)
    then obtain h1 root1 where r1: "rot d p (h, root) = Some (h1, root1)"
       "ok h0 S (h1, root1) (plug cs (dnode d g BLACK (dnode d x RED (dnode d p RED s l) r) u))"
      using ok_rot by fastforce
    have *: "rebal d (ptr t) p g (h, root) = do {
       n \<leftarrow> h1 (ptr (dnode d p RED s l));
       h \<leftarrow> upd_node (dn_parent n) (set_color BLACK) h1;
       pn \<leftarrow> h (dn_parent n);
       h \<leftarrow> upd_node (dn_parent pn) (set_color RED) h;
       (h, root) \<leftarrow> rot (opp d) (dn_parent pn) (h, root1);
       Some (ptr (dnode d p RED s l), h, root) }"
      using gn b pn 2 x r1(1) by (simp add: rebal_def)
    have "dnode d p RED s l \<noteq> Leaf"
      by (cases d) auto
    then obtain h' root' where r: "rebal d (ptr t) p g (h, root) = Some (ptr (dnode d p RED s l), h', root')"
       "ok h0 S (h', root') (plug (Fr d x BLACK (dnode (opp d) g RED u r) # cs) (dnode d p RED s l))"
      using rebal_turn [OF r1(2)] unfolding * by auto
    moreover have "rbt (plug (Fr d x BLACK (dnode (opp d) g RED u r) # cs) (dnode d p RED s l))"
      using inv u x by (simp add: rbt_plug)
    moreover have "addrs (plug (Fr d x BLACK (dnode (opp d) g RED u r) # cs) (dnode d p RED s l)) =
        addrs (plug (Fr e p RED s # Fr d g BLACK u # cs) t)"
      using 2 x by (cases d) (simp_all add: addrs_plug)
    ultimately show ?thesis
      using \<open>dnode d p RED s l \<noteq> Leaf\<close> by blast
  qed
qed

section \<open>The loop\<close>

lemma loop_stop:
  assumes "ok h0 S (h, root) (plug (Fr d a BLACK s # cs) t)" "t \<noteq> Leaf"
  shows "rebalance_loop (ptr t) h root = Some (h, root)"
proof -
  obtain n where n: "h (ptr t) = Some n" "dn_parent n = a"
    using assms unfolding ok_plug by (cases t rule: ptr.cases) auto
  obtain m where m: "h a = Some m" "dn_color m = BLACK"
    using assms unfolding ok_plug by auto
  show ?thesis
    using n m by (subst rebalance_loop.simps) simp
qed

lemma loop_step:
  assumes ok: "ok h0 S (h, root) (plug (Fr e p RED s # Fr d g c u # cs) t)" and t: "t \<noteq> Leaf"
  shows "rebalance_loop (ptr t) h root = do {
      s \<leftarrow> rebal d (ptr t) p g (h, root);
      rebalance_loop (fst s) (fst (snd s)) (snd (snd s)) }"
proof -
  obtain n where n: "h (ptr t) = Some n" "dn_parent n = p"
    using ok t unfolding ok_plug by (cases t rule: ptr.cases) auto
  have ok1: "ok h0 S (h, root) (plug (Fr d g c u # cs) (dnode e p RED t s))"
    using ok by simp
  then obtain pn where pn: "h p = Some pn" "dn_color pn = RED" "dn_parent pn = g"
    using ok_read by fastforce
  have "ok h0 S (h, root) (plug cs (dnode d g c (dnode e p RED t s) u))"
    using ok by simp
  then obtain gn where gn: "h g = Some gn" "child d gn = p" "child (opp d) gn = ptr u"
    using ok_read by fastforce
  have "ptr u \<noteq> p"
    using ok ptr_in [of u] unfolding ok_plug by (cases "u = Leaf") auto
  moreover have "ptr t \<noteq> root"
    using ok croot_in [of "Fr e p RED s # Fr d g c u # cs" "ptr t"] ptr_in [OF t] unfolding ok_plug by auto
  ultimately show ?thesis
    using n pn gn
    by (subst rebalance_loop.simps) (cases d; simp add: rebalance_step_def rebalance_left rebalance_right)
qed

lemma rebalance_loop_ok:
  assumes "ok h0 S (h, root) (plug cs t)" "colr t = RED" "invc t" "invh t" "cinvh (bh t) cs" "cinvc cs"
  shows "\<exists>h' root' T. rebalance_loop (ptr t) h root = Some (h', root') \<and> ok h0 S (h', root') T \<and>
    invc T \<and> invh T \<and> T \<noteq> Leaf \<and> addrs T = addrs (plug cs t)"
  using assms
proof (induction "length cs" arbitrary: cs t h root rule: less_induct)
  case less
  have t0: "t \<noteq> Leaf"
    using less.prems(2) by auto
  note IH = less.hyps and prems = less.prems
  consider "cs = []" | d a s cs' where "cs = Fr d a BLACK s # cs'"
    | e p s d g u cs' where "cs = Fr e p RED s # Fr d g BLACK u # cs'"
  proof (cases cs rule: ccol.cases)
    case (2 e p c s cs1)
    then show ?thesis
    proof (cases c)
      case RED
      then have "ccol cs1 = BLACK"
        using prems(6) 2 by simp
      then obtain d g u cs' where "cs1 = Fr d g BLACK u # cs'"
        by (cases cs1 rule: ccol.cases) auto
      then show ?thesis
        using that(3) 2 RED by blast
    qed (use that(2) 2 in blast)
  qed (use that in auto)
  then show ?case
  proof cases
    case 1
    then have "root = ptr t"
      using prems(1) by (simp add: ok_def)
    then have "rebalance_loop (ptr t) h root = Some (h, root)"
      by (subst rebalance_loop.simps) simp
    then show ?thesis
      using prems 1 t0 by (intro exI [of _ h] exI [of _ root] exI [of _ t]) simp
  next
    case (2 d a s cs')
    have "rbt (plug cs t)"
      using prems 2 by (simp add: rbt_plug)
    moreover have "plug cs t \<noteq> Leaf"
      using 2 by simp
    ultimately show ?thesis
      using loop_stop [of h0 S h root d a s cs' t] prems(1) t0 unfolding 2
      by (intro exI [of _ h] exI [of _ root] exI [of _ "plug cs t"]) (simp add: rbt_def 2)
  next
    case (3 e p s d g u cs')
    show ?thesis
    proof (cases "colr u")
      case RED
      then obtain y ul ur where u: "u = dnode Lft y RED ul ur"
        using red_dnode [of u Lft] by blast
      let ?t = "dnode d g RED (dnode e p BLACK t s) (dnode Lft y BLACK ul ur)"
      obtain h' where h': "rebal d (ptr t) p g (h, root) = Some (g, h', root)" "ok h0 S (h', root) (plug cs' ?t)"
        using rebal_red [of h0 S h root e p s d g Lft y ul ur cs' t "ptr t"] prems(1) unfolding 3 u by blast
      have "addrs (plug cs' ?t) = addrs (plug cs t)"
        unfolding 3 u by (simp add: addrs_plug addrs_dnode)
      moreover have "rebalance_loop (ptr t) h root = rebalance_loop (ptr ?t) h' root"
        using loop_step [OF prems(1) [unfolded 3] t0] h'(1) by simp
      moreover have "colr ?t = RED" "invc ?t" "invh ?t" "cinvh (bh ?t) cs'" "cinvc cs'" "length cs' < length cs"
        using prems 3 u RED by (auto split: if_split_asm)
      ultimately show ?thesis
        using IH [of cs' h' root ?t] h'(2) by simp
    next
      case BLACK
      obtain h' root' q b v cs2 t' where r: "rebal d (ptr t) p g (h, root) = Some (ptr t', h', root')" "t' \<noteq> Leaf"
          "ok h0 S (h', root') (plug (Fr q b BLACK v # cs2) t')" "rbt (plug (Fr q b BLACK v # cs2) t')"
          "addrs (plug (Fr q b BLACK v # cs2) t') = addrs (plug (Fr e p RED s # Fr d g BLACK u # cs') t)"
        using rebal_black [of h0 S h root e p s d g u cs' t] prems BLACK unfolding 3 by blast
      have "rebalance_loop (ptr t) h root = Some (h', root')"
        using loop_step [OF prems(1) [unfolded 3] t0] r(1) loop_stop [OF r(3,2)] by simp
      then show ?thesis
        using r(3-5) 3 unfolding rbt_def
        by (intro exI [of _ h'] exI [of _ root'] exI [of _ "plug (Fr q b BLACK v # cs2) t'"]) (cases q; auto)
    qed
  qed
qed

text \<open>A red leaf \<open>node\<close> below a black or red node of a red-black tree.\<close>

lemma db_rebalance_ok:
  assumes ok: "ok h0 S (h, root) (plug cs (Node Leaf (node, RED) Leaf))"
    and inv: "rbt (plug cs Leaf)"
  shows "\<exists>h' root' T. db_rebalance node (h, root) = Some (h', root') \<and> ok h0 S (h', root') T \<and>
    rbt T \<and> addrs T = addrs (plug cs (Node Leaf (node, RED) Leaf))"
proof -
  let ?t = "Node Leaf (node, RED) Leaf"
  obtain n where n: "h node = Some n" "dn_color n = RED"
    using ok unfolding ok_plug by auto
  then have "set_color RED n = n"
    by (cases n) (simp add: set_color_def)
  then have "upd_node node (set_color RED) h = Some h"
    using n by (simp add: upd_node_def fun_upd_idem)
  moreover obtain h1 root1 T where T: "rebalance_loop node h root = Some (h1, root1)" "ok h0 S (h1, root1) T"
     "invc T" "invh T" "T \<noteq> Leaf" "addrs T = addrs (plug cs ?t)"
    using rebalance_loop_ok [OF ok] inv unfolding rbt_plug by auto
  moreover obtain l a c r where N: "T = dnode Lft a c l r"
    using T(5) by (cases T) auto
  moreover obtain h2 where h2: "upd_node a (set_color BLACK) h1 = Some h2" "ok h0 S (h2, root1) (dnode Lft a BLACK l r)"
    using ok_color [of h0 S h1 root1 "[]" Lft a c l r] T(2) N by auto
  moreover have "root1 = a"
    using T(2) N by (simp add: ok_def)
  ultimately show ?thesis
    by (intro exI [of _ h2] exI [of _ root1] exI [of _ "dnode Lft a BLACK l r"]) (auto simp: db_rebalance_def rbt_def)
qed

end
