(* ===== verification/DbErase.thy ===== *)
theory DbErase imports DbInsert begin

text \<open>
  Erasing a node of a red-black tree (\<^verbatim>\<open>db_rebalance_erase\<close>): the loop that restores the balance
  ends, never looks at a missing sibling, and makes the tree a red-black tree again.
\<close>

section \<open>One round, for either side\<close>

definition e_sib :: "dir \<Rightarrow> nat \<Rightarrow> nat \<Rightarrow> dbn \<Rightarrow> heap \<Rightarrow> nat \<Rightarrow> (nat \<times> heap \<times> nat) option" where
  "e_sib d xp w wn h root = (if dn_color wn = RED then do {
         h \<leftarrow> upd_node w (set_color BLACK) h;
         h \<leftarrow> upd_node xp (set_color RED) h;
         (h, root) \<leftarrow> rot d xp (h, root);
         pn \<leftarrow> h xp;
         Some (child (opp d) pn, h, root)
       } else Some (w, h, root))"

definition e_turn :: "dir \<Rightarrow> nat \<Rightarrow> nat \<Rightarrow> dbn \<Rightarrow> bool \<Rightarrow> heap \<Rightarrow> nat \<Rightarrow> (nat \<times> heap \<times> nat) option" where
  "e_turn d xp w wn fb h root = (if fb then do {
           h \<leftarrow> upd_opt (child d wn) (set_color BLACK) h;
           h \<leftarrow> upd_node w (set_color RED) h;
           (h, root) \<leftarrow> rot (opp d) w (h, root);
           pn \<leftarrow> h xp;
           Some (child (opp d) pn, h, root)
         } else Some (w, h, root))"

definition e_last :: "dir \<Rightarrow> nat \<Rightarrow> nat \<Rightarrow> heap \<Rightarrow> nat \<Rightarrow> ((nat \<times> nat) option \<times> heap \<times> nat) option" where
  "e_last d xp w h root = do {
       pn \<leftarrow> h xp;
       h \<leftarrow> upd_node w (set_color (dn_color pn)) h;
       h \<leftarrow> upd_node xp (set_color BLACK) h;
       wn \<leftarrow> h w;
       h \<leftarrow> upd_opt (child (opp d) wn) (set_color BLACK) h;
       (h, root) \<leftarrow> rot d xp (h, root);
       Some (None, h, root) }"

definition e_rest :: "dir \<Rightarrow> nat \<Rightarrow> nat \<Rightarrow> heap \<Rightarrow> nat \<Rightarrow> ((nat \<times> nat) option \<times> heap \<times> nat) option" where
  "e_rest d xp w h root = do {
     wn \<leftarrow> h w;
     nb \<leftarrow> node_black (child d wn) h;
     fb \<leftarrow> node_black (child (opp d) wn) h;
     if nb \<and> fb then do {
       h \<leftarrow> upd_node w (set_color RED) h;
       pn \<leftarrow> h xp;
       Some (Some (xp, dn_parent pn), h, root)
     } else do {
       (w, h, root) \<leftarrow> e_turn d xp w wn fb h root;
       e_last d xp w h root
     }
   }"

definition e_dir :: "dir \<Rightarrow> nat \<Rightarrow> nat \<Rightarrow> heap \<times> nat \<Rightarrow> ((nat \<times> nat) option \<times> heap \<times> nat) option" where
  "e_dir d x xp = (\<lambda>(h, root). do {
     pn \<leftarrow> h xp;
     let w = child (opp d) pn;
     wn \<leftarrow> h w;
     (w, h, root) \<leftarrow> e_sib d xp w wn h root;
     e_rest d xp w h root
   })"

lemmas e_defs = e_dir_def [abs_def] e_rest_def e_sib_def e_turn_def e_last_def opp.simps child.simps rot_simps

lemma erase_left: "erase_left = e_dir Lft"
  unfolding erase_left_def [abs_def] e_defs by (rule refl)

lemma erase_right: "erase_right = e_dir Rgt"
  unfolding erase_right_def [abs_def] e_defs by (rule refl)

text \<open>A red sibling is turned above; the sibling is black then.\<close>

lemma ok_far:
  assumes "ok h0 S hr (plug cs (dnode d a c t s))"
  shows "ok h0 S hr (plug (Fr (opp d) a c t # cs) s)"
  using assms by (simp add: dnode_opp)

lemma ok_far': "ok h0 S hr (plug (Fr (opp d) a c t # cs) s) \<Longrightarrow> ok h0 S hr (plug cs (dnode d a c t s))"
  by (simp add: dnode_opp)

lemma ok_near: "ok h0 S hr (plug cs (dnode d a c t s)) \<Longrightarrow> ok h0 S hr (plug (Fr d a c s # cs) t)"
  by simp

lemma ok_near': "ok h0 S hr (plug (Fr d a c s # cs) t) \<Longrightarrow> ok h0 S hr (plug cs (dnode d a c t s))"
  by simp

lemma e_sib_red:
  assumes ok: "ok h0 S (h, root) (plug (Fr d a c (dnode d w RED s1 s2) # cs) x)"
    and wn: "dn_color wn = RED"
  shows "\<exists>h' root'. e_sib d a w wn h root = Some (ptr s1, h', root') \<and>
    ok h0 S (h', root') (plug (Fr d a RED s1 # Fr d w BLACK s2 # cs) x)"
proof -
  obtain h1 where h1: "upd_node w (set_color BLACK) h = Some h1"
     "ok h0 S (h1, root) (plug (Fr (opp d) a c x # cs) (dnode d w BLACK s1 s2))"
    using ok_color [OF ok_far [OF ok_near' [OF ok]]] by blast
  obtain h2 where h2: "upd_node a (set_color RED) h1 = Some h2"
     "ok h0 S (h2, root) (plug cs (dnode d a RED x (dnode d w BLACK s1 s2)))"
    using ok_color [OF ok_far' [OF h1(2)]] by blast
  obtain h3 root3 where h3: "rot d a (h2, root) = Some (h3, root3)"
     "ok h0 S (h3, root3) (plug cs (dnode d w BLACK (dnode d a RED x s1) s2))"
    using ok_rot [OF h2(2)] by blast
  obtain pn where "h3 a = Some pn" "child (opp d) pn = ptr s1"
    using ok_read [OF ok_near [OF h3(2)]] by auto
  then show ?thesis
    using h1(1) h2(1) h3 wn by (simp add: e_sib_def)
qed

text \<open>Both children of the sibling are black: it becomes red, and the round ends one level up.\<close>

lemma e_rest_up:
  assumes ok: "ok h0 S (h, root) (plug (Fr d a c (dnode d w BLACK s1 s2) # cs) x)"
    and b: "colr s1 = BLACK" "colr s2 = BLACK"
  shows "\<exists>h'. e_rest d a w h root = Some (Some (a, cpar cs), h', root) \<and>
    ok h0 S (h', root) (plug cs (dnode d a c x (dnode d w RED s1 s2)))"
proof -
  note ok1 = ok_far [OF ok_near' [OF ok]]
  obtain wn where wn: "h w = Some wn" "child d wn = ptr s1" "child (opp d) wn = ptr s2"
    using ok_read [OF ok1] by auto
  have nb: "node_black (ptr s1) h = Some True"
    using ok_black [OF ok_near [OF ok1]] b by simp
  have fb: "node_black (ptr s2) h = Some True"
    using ok_black [OF ok_far [OF ok1]] b by simp
  obtain h1 where h1: "upd_node w (set_color RED) h = Some h1"
     "ok h0 S (h1, root) (plug (Fr (opp d) a c x # cs) (dnode d w RED s1 s2))"
    using ok_color [OF ok1] by blast
  obtain pn where "h1 a = Some pn" "dn_parent pn = cpar cs"
    using ok_read [OF ok_far' [OF h1(2)]] by auto
  then show ?thesis
    using wn nb fb h1(1) ok_far' [OF h1(2)] by (simp add: e_rest_def)
qed

lemma e_last_ok:
  assumes ok: "ok h0 S (h, root) (plug cs (dnode d a c x (dnode d w k s1 (dnode e v RED v1 v2))))"
  shows "\<exists>h' root'. e_last d a w h root = Some (None, h', root') \<and>
    ok h0 S (h', root') (plug cs (dnode d w c (dnode d a BLACK x s1) (dnode e v BLACK v1 v2)))"
proof -
  let ?v = "dnode e v RED v1 v2" and ?v' = "dnode e v BLACK v1 v2"
  obtain pn where pn: "h a = Some pn" "dn_color pn = c"
    using ok_read [OF ok] by auto
  obtain h1 where h1: "upd_node w (set_color c) h = Some h1"
     "ok h0 S (h1, root) (plug (Fr (opp d) a c x # cs) (dnode d w c s1 ?v))"
    using ok_color [OF ok_far [OF ok]] by blast
  obtain h2 where h2: "upd_node a (set_color BLACK) h1 = Some h2"
     "ok h0 S (h2, root) (plug cs (dnode d a BLACK x (dnode d w c s1 ?v)))"
    using ok_color [OF ok_far' [OF h1(2)]] by blast
  note ok2 = ok_far [OF h2(2)]
  obtain wn where wn: "h2 w = Some wn" "child (opp d) wn = v"
    using ok_read [OF ok2] by auto
  have "v \<noteq> 0"
    using ok_far [OF ok2] unfolding ok_plug by simp
  moreover obtain h3 where "upd_node v (set_color BLACK) h2 = Some h3"
     "ok h0 S (h3, root) (plug (Fr (opp d) w c s1 # Fr (opp d) a BLACK x # cs) ?v')"
    using ok_color [OF ok_far [OF ok2], of BLACK] by blast
  ultimately have h3: "upd_opt v (set_color BLACK) h2 = Some h3"
     "ok h0 S (h3, root) (plug cs (dnode d a BLACK x (dnode d w c s1 ?v')))"
    by (simp add: upd_opt_def, metis ok_far')
  obtain h4 root4 where "rot d a (h3, root) = Some (h4, root4)"
     "ok h0 S (h4, root4) (plug cs (dnode d w c (dnode d a BLACK x s1) ?v'))"
    using ok_rot [OF h3(2)] by blast
  then show ?thesis
    using pn h1(1) h2(1) wn h3(1) by (simp add: e_last_def)
qed

lemma e_turn_ok:
  assumes ok: "ok h0 S (h, root) (plug cs (dnode d a c x (dnode d w BLACK (dnode e v RED v1 v2) s2)))"
    and e: "e = opp d" and wn: "child d wn = v"
  shows "\<exists>h' root'. e_turn d a w wn True h root = Some (v, h', root') \<and>
    ok h0 S (h', root') (plug cs (dnode d a c x (dnode d v BLACK v2 (dnode d w RED v1 s2))))"
proof -
  note ok1 = ok_near [OF ok_far [OF ok]]
  have "v \<noteq> 0"
    using ok1 unfolding ok_plug by simp
  then obtain h1 where h1: "upd_opt v (set_color BLACK) h = Some h1"
     "ok h0 S (h1, root) (plug (Fr (opp d) a c x # cs) (dnode d w BLACK (dnode e v BLACK v1 v2) s2))"
    using ok_color [OF ok1, of BLACK, THEN exE] ok_near' [of h0 S] by (auto simp: upd_opt_def)
  obtain h2 where h2: "upd_node w (set_color RED) h1 = Some h2"
     "ok h0 S (h2, root) (plug (Fr (opp d) a c x # cs) (dnode d w RED (dnode e v BLACK v1 v2) s2))"
    using ok_color [OF h1(2)] by blast
  then have "ok h0 S (h2, root) (plug (Fr (opp d) a c x # cs) (dnode e w RED s2 (dnode e v BLACK v1 v2)))"
    by (simp add: dnode_opp e)
  then obtain h3 root3 where h3: "rot e w (h2, root) = Some (h3, root3)"
     "ok h0 S (h3, root3) (plug (Fr (opp d) a c x # cs) (dnode e v BLACK (dnode e w RED s2 v1) v2))"
    using ok_rot by blast
  then have h4: "ok h0 S (h3, root3) (plug cs (dnode d a c x (dnode d v BLACK v2 (dnode d w RED v1 s2))))"
    by (simp add: dnode_opp e)
  obtain pn where "h3 a = Some pn" "child (opp d) pn = v"
    using ok_read [OF h4] by auto
  then show ?thesis
    using wn h1(1) h2(1) h3(1) h4 by (simp add: e_turn_def e)
qed

lemma black_nonleaf:
  assumes "colr t = BLACK" "bh t = Suc n"
  obtains a l r where "t = dnode d a BLACK l r"
proof -
  obtain l a r where t: "t = Node l (a, BLACK) r"
    using assms by (cases t rule: colr.cases) auto
  show thesis
  proof (cases d)
    case Lft
    show ?thesis
      by (rule that [of a l r]) (simp add: t Lft)
  next
    case Rgt
    show ?thesis
      by (rule that [of a r l]) (simp add: t Rgt)
  qed
qed

fun paint :: "node_color \<Rightarrow> rbtree \<Rightarrow> rbtree" where
  "paint k Leaf = Leaf"
| "paint k (Node l (a, c) r) = Node l (a, k) r"

lemma paint_simps [simp]:
  "paint k (dnode d a c t s) = dnode d a k t s"
  "addrs (paint k t) = addrs t"
  "ptr (paint k t) = ptr t"
  "invh t \<Longrightarrow> invh (paint k t)"
  "colr (paint BLACK t) = BLACK"
  by (cases d; simp) (cases t rule: colr.cases; simp)+

lemma paint_colr: "paint (colr t) t = t"
  by (cases t rule: colr.cases) auto

text \<open>The sibling is black: either the round ends one level up, at a position that lacks a black
  node, or the tree is repaired.\<close>

lemma e_rest_both:
  assumes ok: "ok h0 S (h, root) (plug (Fr d a c s # cs) x)"
    and x: "invc x" "invh x" "colr x = BLACK" and s: "s = dnode d w BLACK s1 s2" "colr s1 = BLACK" "colr s2 = BLACK"
    and inv: "cinvh (Suc (bh x)) (Fr d a c s # cs)" "cinvc (Fr d a c s # cs)"
  shows "\<exists>h' t. e_rest d a (ptr s) h root = Some (Some (ptr t, cpar cs), h', root) \<and>
      ok h0 S (h', root) (plug cs t) \<and> addrs (plug cs t) = addrs (plug (Fr d a c s # cs) x) \<and> t \<noteq> Leaf \<and> colr t = c \<and>
      invc (paint BLACK t) \<and> invh t \<and> cinvh (Suc (bh t)) cs"
proof -
  let ?t = "dnode d a c x (dnode d w RED s1 s2)"
  obtain h' where "e_rest d a w h root = Some (Some (a, cpar cs), h', root)" "ok h0 S (h', root) (plug cs ?t)"
    using e_rest_up [of h0 S h root d a c w s1 s2 cs x] ok s by auto
  moreover have "addrs (plug cs ?t) = addrs (plug (Fr d a c s # cs) x)"
    using s by (simp add: addrs_plug addrs_dnode)
  moreover have "invh ?t" "cinvh (Suc (bh ?t)) cs" "invc (paint BLACK ?t)"
    using inv x s by (auto split: if_split_asm)
  ultimately show ?thesis
    by (intro exI [of _ h'] exI [of _ ?t]) (simp add: s)
qed

lemma e_rest_done:
  assumes ok: "ok h0 S (h, root) (plug (Fr d a c s # cs) x)"
    and x: "invc x" "invh x" "colr x = BLACK" and s: "s = dnode d w BLACK s1 s2" "\<not> (colr s1 = BLACK \<and> colr s2 = BLACK)"
    and inv: "cinvh (Suc (bh x)) (Fr d a c s # cs)" "cinvc (Fr d a c s # cs)"
  shows "\<exists>h' root' cs'. e_rest d a (ptr s) h root = Some (None, h', root') \<and> ok h0 S (h', root') (plug cs' x) \<and>
      rbt (plug cs' x) \<and> addrs (plug cs' x) = addrs (plug (Fr d a c s # cs) x)"
proof -
  note ok1 = ok_far [OF ok_near' [OF ok [unfolded s(1)]]]
  obtain wn where wn: "h w = Some wn" "child d wn = ptr s1" "child (opp d) wn = ptr s2"
    using ok_read [OF ok1] by auto
  have nb: "node_black (ptr s1) h = Some (colr s1 = BLACK)"
    using ok_black [OF ok_near [OF ok1]] by simp
  have fb: "node_black (ptr s2) h = Some (colr s2 = BLACK)"
    using ok_black [OF ok_far [OF ok1]] by simp
  have run: "e_rest d a (ptr s) h root = do {
       (w, h, root) \<leftarrow> e_turn d a w wn (colr s2 = BLACK) h root;
       e_last d a w h root }"
    using wn nb fb s by (auto simp: e_rest_def)
  obtain w' k t1 v v1 v2 h1 root1 where
    turn: "e_turn d a w wn (colr s2 = BLACK) h root = Some (w', h1, root1)" and
    ok1: "ok h0 S (h1, root1) (plug cs (dnode d a c x (dnode d w' k t1 (dnode d v RED v1 v2))))" and
    a1: "addrs (dnode d w' k t1 (dnode d v RED v1 v2)) = addrs s" and
    i1: "invh (dnode d w' BLACK t1 (dnode d v RED v1 v2))" "invc (dnode d w' BLACK t1 (dnode d v BLACK v1 v2))" "bh t1 = bh x"
  proof (cases "colr s2 = BLACK")
    case True
    then have "colr s1 = RED"
      using s by (cases "colr s1") auto
    then obtain v v1 v2 where v: "s1 = dnode (opp d) v RED v1 v2"
      using red_dnode [of s1 "opp d"] by blast
    obtain h1 root1 where h1: "e_turn d a w wn True h root = Some (v, h1, root1)"
       "ok h0 S (h1, root1) (plug cs (dnode d a c x (dnode d v BLACK v2 (dnode d w RED v1 s2))))"
      using e_turn_ok [of h0 S h root cs d a c x w "opp d" v v1 v2 s2 wn] ok s v wn by auto
    show thesis
    proof (rule that [of v h1 root1 BLACK v2 w v1 s2])
      show "addrs (dnode d v BLACK v2 (dnode d w RED v1 s2)) = addrs s"
        by (simp add: s v addrs_dnode dnode_opp)
    qed (use h1 True inv x s v in \<open>auto simp: dnode_opp\<close>)
  next
    case False
    then have "colr s2 = RED"
      by (cases "colr s2") auto
    then obtain v v1 v2 where v: "s2 = dnode d v RED v1 v2"
      using red_dnode [of s2 d] by blast
    show thesis
      by (rule that [of w h root BLACK s1 v v1 v2]) (use ok inv x s v in \<open>auto simp: e_turn_def\<close>)
  qed
  obtain h' root' where last: "e_last d a w' h1 root1 = Some (None, h', root')"
     "ok h0 S (h', root') (plug cs (dnode d w' c (dnode d a BLACK x t1) (dnode d v BLACK v1 v2)))"
    using e_last_ok [OF ok1] by blast
  let ?cs = "Fr d a BLACK t1 # Fr d w' c (dnode d v BLACK v1 v2) # cs"
  have "addrs (plug ?cs x) = addrs (plug (Fr d a c s # cs) x)"
    using a1 by (cases d) (simp_all add: addrs_plug)
  moreover have "rbt (plug ?cs x)"
    using i1 x inv s unfolding rbt_plug by (auto split: if_split_asm)
  ultimately show ?thesis
    using run turn last by (intro exI [of _ h'] exI [of _ root'] exI [of _ ?cs]) simp
qed

section \<open>The loop\<close>

lemma ok_paint:
  assumes ok: "ok h0 S (h, root) (plug cs t)"
  shows "\<exists>h'. upd_opt (ptr t) (set_color BLACK) h = Some h' \<and> ok h0 S (h', root) (plug cs (paint BLACK t))"
proof (cases "t = Leaf")
  case True
  then show ?thesis
    using ok by (simp add: upd_opt_def)
next
  case False
  then obtain l a c r where t: "t = dnode Lft a c l r"
    by (cases t rule: colr.cases) auto
  have "a \<noteq> 0"
    using ok unfolding t ok_plug by simp
  then show ?thesis
    using ok_color [of h0 S h root cs Lft a c l r BLACK] ok by (simp add: t upd_opt_def)
qed

lemma ok_at_root:
  assumes "ok h0 S (h, root) (plug cs t)"
  shows "ptr t = root \<longleftrightarrow> cs = []"
proof (cases "t = Leaf")
  case True
  then show ?thesis
    using assms croot_in [of cs 0] repc_0 [of h 0 cs] unfolding ok_plug by (cases "cs = []") auto
next
  case False
  then show ?thesis
    using assms croot_in [of cs "ptr t"] ptr_in [of t] unfolding ok_plug by (cases "cs = []") auto
qed

lemma erase_loop_exit:
  assumes ok: "ok h0 S (h, root) (plug cs x)" and x: "cs = [] \<or> colr x = RED"
    and inv: "invc (paint BLACK x)" "invh x" "cinvh (Suc (bh x)) cs" "cinvc cs"
  shows "\<exists>h' root' T. erase_loop (ptr x) xp h root = Some (h', root') \<and> ok h0 S (h', root') T \<and> rbt T \<and>
    addrs T = addrs (plug cs x)"
proof -
  obtain h' where h': "upd_opt (ptr x) (set_color BLACK) h = Some h'" "ok h0 S (h', root) (plug cs (paint BLACK x))"
    using ok_paint [OF ok] by blast
  have "erase_loop (ptr x) xp h root = Some (h', root)"
    using x h'(1) ok_black [OF ok] ok_at_root [OF ok] by (subst erase_loop.simps) auto
  moreover have "rbt (plug cs (paint BLACK x))"
  proof (cases "colr x")
    case RED
    then obtain a l r where "x = dnode Lft a RED l r"
      using red_dnode by blast
    then show ?thesis
      using inv unfolding rbt_plug by auto
  next
    case BLACK
    then have "cs = []" "paint BLACK x = x"
      using x paint_colr [of x] by auto
    then show ?thesis
      using inv BLACK by (simp add: rbt_def)
  qed
  moreover have "addrs (plug cs (paint BLACK x)) = addrs (plug cs x)"
    by (simp add: addrs_plug)
  ultimately show ?thesis
    using h'(2) by blast
qed

lemma erase_loop_round:
  assumes ok: "ok h0 S (h, root) (plug (Fr d a c s # cs) x)" and x: "colr x = BLACK" and s: "s \<noteq> Leaf"
  shows "erase_loop (ptr x) a h root = do {
       s \<leftarrow> e_dir d (ptr x) a (h, root);
       (case fst s of
          Some (x, xp) \<Rightarrow> erase_loop x xp (fst (snd s)) (snd (snd s))
        | None \<Rightarrow> do { h \<leftarrow> upd_opt (ptr x) (set_color BLACK) (fst (snd s)); Some (h, snd (snd s)) }) }"
proof -
  obtain pn where pn: "h a = Some pn" "child d pn = ptr x" "child (opp d) pn = ptr s"
    using ok_read [of h0 S h root cs d a c x s] ok by auto
  have "ptr s \<noteq> ptr x"
  proof (cases "x = Leaf")
    case True
    have "rep h a s"
      using ok unfolding ok_plug by simp
    then show ?thesis
      using s True by simp
  next
    case False
    then show ?thesis
      using ok ptr_in [OF s] ptr_in [OF False] unfolding ok_plug by auto
  qed
  then have "erase_step (ptr x) a (h, root) = e_dir d (ptr x) a (h, root)"
    using pn by (cases d) (auto simp: erase_step_def erase_left erase_right)
  then show ?thesis
    using ok_black [OF ok] x ok_at_root [OF ok] by (subst erase_loop.simps) simp
qed

lemma erase_loop_end:
  assumes "e_dir d (ptr x) a (h, root) = Some (None, h', root')" "ok h0 S (h, root) (plug (Fr d a c s # cs) x)"
    "ok h0 S (h', root') (plug cs' x)" "rbt (plug cs' x)" "colr x = BLACK" "s \<noteq> Leaf"
  shows "\<exists>h' root' T. erase_loop (ptr x) a h root = Some (h', root') \<and> ok h0 S (h', root') T \<and> rbt T \<and>
    addrs T = addrs (plug cs' x)"
proof -
  obtain h2 where "upd_opt (ptr x) (set_color BLACK) h' = Some h2" "ok h0 S (h2, root') (plug cs' (paint BLACK x))"
    using ok_paint [OF assms(3)] by blast
  then show ?thesis
    using erase_loop_round [OF assms(2,5,6)] assms(1,4) paint_colr [of x] assms(5)
    by (intro exI [of _ h2] exI [of _ root'] exI [of _ "plug cs' x"]) simp
qed

lemma erase_loop_up:
  assumes "e_dir d (ptr x) a (h, root) = Some (Some (y, yp), h', root')" "ok h0 S (h, root) (plug (Fr d a c s # cs) x)"
    "colr x = BLACK" "s \<noteq> Leaf"
  shows "erase_loop (ptr x) a h root = erase_loop y yp h' root'"
  using erase_loop_round [OF assms(2-4)] assms(1) by simp

lemma e_dir_black:
  assumes ok: "ok h0 S (h, root) (plug (Fr d a c s # cs) x)" and s: "s = dnode d w BLACK s1 s2"
  shows "e_dir d (ptr x) a (h, root) = e_rest d a (ptr s) h root"
proof -
  obtain pn where pn: "h a = Some pn" "child (opp d) pn = w"
    using ok_read [of h0 S h root cs d a c x s] ok s by auto
  obtain wn where "h w = Some wn" "dn_color wn = BLACK"
    using ok_read [OF ok_far [OF ok_near' [OF ok [unfolded s]]]] by auto
  then show ?thesis
    using pn s by (simp add: e_dir_def e_sib_def)
qed

lemma e_dir_red:
  assumes ok: "ok h0 S (h, root) (plug (Fr d a c s # cs) x)" and s: "s = dnode d w RED s1 s2"
  shows "\<exists>h' root'. e_dir d (ptr x) a (h, root) = e_rest d a (ptr s1) h' root' \<and>
    ok h0 S (h', root') (plug (Fr d a RED s1 # Fr d w BLACK s2 # cs) x)"
proof -
  obtain pn where pn: "h a = Some pn" "child (opp d) pn = w"
    using ok_read [of h0 S h root cs d a c x s] ok s by auto
  obtain wn where "h w = Some wn" "dn_color wn = RED"
    using ok_read [OF ok_far [OF ok_near' [OF ok [unfolded s]]]] by auto
  moreover obtain h' root' where "e_sib d a w wn h root = Some (ptr s1, h', root')"
     "ok h0 S (h', root') (plug (Fr d a RED s1 # Fr d w BLACK s2 # cs) x)"
    using e_sib_red [OF ok [unfolded s]] calculation(2) by blast
  ultimately show ?thesis
    using pn by (intro exI [of _ h'] exI [of _ root']) (simp add: e_dir_def)
qed

lemma erase_loop_ok:
  assumes "ok h0 S (h, root) (plug cs x)" "invc (paint BLACK x)" "invh x" "cinvh (Suc (bh x)) cs" "cinvc cs"
  shows "\<exists>h' root' T. erase_loop (ptr x) (cpar cs) h root = Some (h', root') \<and> ok h0 S (h', root') T \<and> rbt T \<and>
    addrs T = addrs (plug cs x)"
  using assms
proof (induction "length cs" arbitrary: cs x h root rule: less_induct)
  case less
  note IH = less.hyps and prems = less.prems
  show ?case
  proof (cases "cs = [] \<or> colr x = RED")
    case True
    then show ?thesis
      using erase_loop_exit prems by blast
  next
    case False
    then have x: "colr x = BLACK" "invc x" "invh x"
      using prems paint_colr [of x] by (cases "colr x"; simp)+
    obtain d a c s cs' where cs: "cs = Fr d a c s # cs'"
      using False by (cases cs rule: cpar.cases) auto
    note ok = prems(1) [unfolded cs] and ch = prems(4) [unfolded cs] and cc = prems(5) [unfolded cs]
    have s0: "s \<noteq> Leaf"
      using ch by auto
    show ?thesis
    proof (cases "colr s")
      case BLACK
      then obtain w s1 s2 where w: "s = dnode d w BLACK s1 s2"
        using black_nonleaf [of s "bh x" d] ch by auto
      show ?thesis
      proof (cases "colr s1 = BLACK \<and> colr s2 = BLACK")
        case True
        then obtain h' t where t: "e_rest d a (ptr s) h root = Some (Some (ptr t, cpar cs'), h', root)"
           "ok h0 S (h', root) (plug cs' t)" "addrs (plug cs' t) = addrs (plug cs x)"
           "invc (paint BLACK t)" "invh t" "cinvh (Suc (bh t)) cs'"
          using e_rest_both [OF ok x(2,3,1) w _ _ ch cc] cs by blast
        have "erase_loop (ptr x) (cpar cs) h root = erase_loop (ptr t) (cpar cs') h' root"
          using erase_loop_up [OF _ ok x(1) s0] e_dir_black [OF ok w] t(1) cs by simp
        then show ?thesis
          using IH [of cs' h' root t] t cc cs by simp
      next
        case False
        then obtain h' root' cs2 where "e_rest d a (ptr s) h root = Some (None, h', root')"
            "ok h0 S (h', root') (plug cs2 x)" "rbt (plug cs2 x)" "addrs (plug cs2 x) = addrs (plug cs x)"
          using e_rest_done [OF ok x(2,3,1) w _ ch cc] cs by blast
        then show ?thesis
          using erase_loop_end [OF _ ok, of h' root' cs2] e_dir_black [OF ok w] x(1) s0 cs by simp
      qed
    next
      case RED
      then obtain w s1 s2 where w: "s = dnode d w RED s1 s2"
        using red_dnode [of s d] by blast
      obtain h1 root1 where r1: "e_dir d (ptr x) a (h, root) = e_rest d a (ptr s1) h1 root1"
          and ok1: "ok h0 S (h1, root1) (plug (Fr d a RED s1 # Fr d w BLACK s2 # cs') x)"
        using e_dir_red [OF ok w] by blast
      let ?cs = "Fr d w BLACK s2 # cs'"
      have i: "colr s1 = BLACK" "cinvh (Suc (bh x)) (Fr d a RED s1 # ?cs)" "cinvc (Fr d a RED s1 # ?cs)" "bh s1 = Suc (bh x)"
        using ch cc w by (cases c; auto)+
      have a1: "addrs (plug (Fr d a RED s1 # ?cs) x) = addrs (plug cs x)"
        unfolding cs w by (simp add: addrs_plug addrs_dnode)
      obtain v t1 t2 where v: "s1 = dnode d v BLACK t1 t2"
        using black_nonleaf [OF i(1,4)] by blast
      show ?thesis
      proof (cases "colr t1 = BLACK \<and> colr t2 = BLACK")
        case True
        then obtain h' t where t: "e_rest d a (ptr s1) h1 root1 = Some (Some (ptr t, cpar ?cs), h', root1)"
           "ok h0 S (h', root1) (plug ?cs t)" "addrs (plug ?cs t) = addrs (plug (Fr d a RED s1 # ?cs) x)"
           "colr t = RED" "invc (paint BLACK t)" "invh t" "cinvh (Suc (bh t)) ?cs"
          using e_rest_both [OF ok1 x(2,3,1) v _ _ i(2,3)] by blast
        have "erase_loop (ptr x) (cpar cs) h root = erase_loop (ptr t) (cpar ?cs) h' root1"
          using erase_loop_up [OF _ ok x(1) s0] r1 t(1) cs by simp
        then show ?thesis
          using erase_loop_exit [OF t(2) _ t(5-7)] i(3) t(3,4) a1 by simp
      next
        case False
        then obtain h' root' cs2 where "e_rest d a (ptr s1) h1 root1 = Some (None, h', root')"
            "ok h0 S (h', root') (plug cs2 x)" "rbt (plug cs2 x)"
            "addrs (plug cs2 x) = addrs (plug (Fr d a RED s1 # ?cs) x)"
          using e_rest_done [OF ok1 x(2,3,1) v _ i(2,3)] by blast
        then show ?thesis
          using erase_loop_end [OF _ ok, of h' root' cs2] r1 x(1) s0 cs a1 by simp
      qed
    qed
  qed
qed

end
