(* ===== verification/DbSplice.thy ===== *)
theory DbSplice imports DbErase begin

text \<open>
  Taking a node out of a tree (the first half of \<^verbatim>\<open>db_rebalance_erase\<close>).
\<close>

fun parq :: "nat \<Rightarrow> frame list \<Rightarrow> nat" where
  "parq q [] = q"
| "parq q (Fr d a c s # cs) = a"

fun repq :: "heap \<Rightarrow> nat \<Rightarrow> nat \<Rightarrow> frame list \<Rightarrow> bool" where
  "repq h q p [] = True"
| "repq h q p (Fr d a c s # cs) = (a \<noteq> 0 \<and>
     (\<exists>n. h a = Some n \<and> dn_parent n = parq q cs \<and> child d n = p \<and> child (opp d) n = ptr s \<and> dn_color n = c) \<and>
     rep h a s \<and> repq h q a cs)"

lemma rep_plugq: "rep h q (plug bs t) \<longleftrightarrow> rep h (parq q bs) t \<and> repq h q (ptr t) bs"
  by (induction bs t rule: plug.induct) auto

lemma repq_cong: "(\<And>a. a \<in> set (caddrs cs) \<Longrightarrow> h' a = h a) \<Longrightarrow> repq h' q p cs = repq h q p cs"
proof (induction h q p cs rule: repq.induct)
  case (2 h q p d a c s cs)
  have "h' a = h a" "rep h' a s = rep h a s"
    using 2(2) by (simp, intro rep_cong, simp)
  then show ?case
    using 2 by simp
qed simp

lemma ctx_append [simp]:
  "plug (bs @ cs) t = plug cs (plug bs t)"
  "cleft (bs @ cs) = cleft cs @ cleft bs"
  "cright (bs @ cs) = cright bs @ cright cs"
  "caddrs (bs @ cs) = caddrs bs @ caddrs cs"
  by (induction bs t rule: plug.induct) auto

text \<open>The leftmost node of a tree.\<close>

lemma leftmost_ok:
  assumes "rep h q r" "r \<noteq> Leaf"
  shows "\<exists>bs y k x. r = plug bs (Node Leaf (y, k) x) \<and> cleft bs = [] \<and> leftmost h (ptr r) = Some y"
  using assms
proof (induction h q r rule: rep.induct)
  case (2 h q l a c r)
  then obtain n where n: "h a = Some n" "dn_left n = ptr l"
    by auto
  show ?case
  proof (cases "l = Leaf")
    case True
    then show ?thesis
      using n by (intro exI [of _ "[]"] exI [of _ a] exI [of _ c] exI [of _ r]) (simp add: leftmost.simps)
  next
    case False
    then obtain bs y k x where l: "l = plug bs (Node Leaf (y, k) x)" "cleft bs = []"
        "leftmost h (ptr l) = Some y"
      using 2 by auto
    have "rep h a l"
      using 2 by simp
    then have "leftmost h a = leftmost h (ptr l)"
      using n False by (subst leftmost.simps) simp
    then show ?thesis
      using l by (intro exI [of _ "bs @ [Fr Lft a c r]"] exI [of _ y] exI [of _ k] exI [of _ x]) auto
  qed
qed simp

text \<open>The child \<open>x\<close> takes the place of \<open>y\<close> below its parent \<open>b\<close>.\<close>

lemma unlink_left:
  assumes r: "repq h q y (Fr Lft b k s # bs)" and x: "rep h y x" and d: "distinct (addrs x @ caddrs (Fr Lft b k s # bs))"
  shows "\<exists>h1 h2. upd_opt (ptr x) (\<lambda>m. m\<lparr>dn_parent := b\<rparr>) h = Some h1 \<and>
    upd_node b (\<lambda>m. m\<lparr>dn_left := ptr x\<rparr>) h1 = Some h2 \<and> rep h2 q (plug (Fr Lft b k s # bs) x) \<and>
    (\<forall>a. a \<notin> insert b (set (addrs x)) \<longrightarrow> h2 a = h a) \<and> cores h2 = cores h"
proof -
  have r': "repq h q b bs" "rep h b s" "b \<noteq> 0"
    using r by auto
  obtain n where n: "h b = Some n" "dn_parent n = parq q bs" "dn_right n = ptr s" "dn_color n = k"
    using r by auto
  have dis: "distinct (addrs x)" "b \<notin> set (addrs x)" "b \<notin> set (addrs s)" "b \<notin> set (caddrs bs)"
     "set (addrs x) \<inter> set (addrs s) = {}" "set (addrs x) \<inter> set (caddrs bs) = {}"
    using d by auto
  obtain h1 where h1: "upd_opt (ptr x) (\<lambda>m. m\<lparr>dn_parent := b\<rparr>) h = Some h1" "rep h1 b x"
     "\<And>a. a \<notin> set (addrs x) \<Longrightarrow> h1 a = h a" "cores h1 = cores h"
    using upd_parent [OF x, of b] dis(1) by auto
  define h2 where "h2 = h1(b \<mapsto> n\<lparr>dn_left := ptr x\<rparr>)"
  have b1: "h1 b = Some n"
    using h1(3) dis n by simp
  have eq: "h2 a = h a" if "a \<notin> insert b (set (addrs x))" for a
    using that h1(3) by (simp add: h2_def)
  have "rep h2 b s"
    using r'(2) rep_cong [of s h2 h b] eq dis by (metis disjoint_iff insert_iff)
  moreover have "repq h2 q b bs"
    using r'(1) repq_cong [of bs h2 h q b] eq dis by (metis disjoint_iff insert_iff)
  moreover have "rep h2 b x"
    using h1(2) dis by (simp add: h2_def)
  ultimately have "rep h2 q (plug (Fr Lft b k s # bs) x)"
    using r' n unfolding rep_plugq by (simp add: h2_def)
  moreover have "core (n\<lparr>dn_left := ptr x\<rparr>) = core n"
    by (simp add: core_def)
  then have "cores h2 = cores h"
    using b1 h1(4) by (simp add: h2_def)
  moreover have "upd_node b (\<lambda>m. m\<lparr>dn_left := ptr x\<rparr>) h1 = Some h2"
    using b1 by (simp add: upd_node_def h2_def)
  ultimately show ?thesis
    using h1(1) eq by blast
qed

section \<open>One child\<close>

lemma erase_one_ok:
  assumes z: "h z = Some n" "dn_parent n = cpar cs" "z \<noteq> 0"
    and x: "rep h z x" "distinct (addrs x)"
    and cs: "repc h z cs" "distinct (caddrs cs)" "set (addrs x) \<inter> set (caddrs cs) = {}"
    and out: "z \<notin> set (addrs x)" "z \<notin> set (caddrs cs)"
  shows "\<exists>h'. erase_one z (ptr x) (h, croot z cs) = Some (dn_color n, ptr x, cpar cs, h', croot (ptr x) cs) \<and>
    rep h' (cpar cs) x \<and> repc h' (ptr x) cs \<and> (\<forall>a. a \<notin> set (addrs x) \<union> set (caddrs cs) \<longrightarrow> h' a = h a) \<and> cores h' = cores h"
proof -
  obtain h1 where h1: "upd_opt (ptr x) (\<lambda>m. m\<lparr>dn_parent := cpar cs\<rparr>) h = Some h1" "rep h1 (cpar cs) x"
     "\<And>a. a \<notin> set (addrs x) \<Longrightarrow> h1 a = h a" "cores h1 = cores h"
    using upd_parent [OF x, of "cpar cs"] by auto
  have z1: "h1 z = Some n"
    using h1(3) out z by simp
  have c1: "repc h1 z cs"
    using cs(1) repc_cong [of cs h1 h z] h1(3) cs(3) by (metis disjoint_iff)
  obtain h2 where h2: "link Lft z (ptr x) (h1, croot z cs) = Some (h2, croot (ptr x) cs)" "repc h2 (ptr x) cs"
      "\<And>b. b \<notin> set (caddrs cs) \<Longrightarrow> h2 b = h1 b" "cores h2 = cores h1"
    using link_ctx [OF c1 z1 z(2,3) out(2) cs(2), of Lft "ptr x"] by auto
  have "rep h2 (cpar cs) x"
    using h1(2) rep_cong [of x h2 h1 "cpar cs"] h2(3) cs(3) by (metis disjoint_iff)
  moreover have "erase_one z (ptr x) (h, croot z cs) = Some (dn_color n, ptr x, cpar cs, h2, croot (ptr x) cs)"
    using z h1(1) h2(1) by (simp add: erase_one_def link_def)
  ultimately show ?thesis
    using h1 h2 by (intro exI [of _ h2]) auto
qed

section \<open>Two children\<close>

text \<open>The successor \<open>y\<close> leaves its place to its right child, when it is not the right child of the node.\<close>

lemma erase_mid:
  assumes bs: "bs \<noteq> []" "cleft bs = []" and r: "repq h z y bs" and x: "rep h y x"
    and y: "h y = Some m" "dn_parent m = parq z bs" "dn_right m = ptr x"
    and d: "distinct (y # addrs x @ caddrs bs)" and yn: "dn_parent yn = dn_parent m"
  shows "\<exists>h'. do {
      h \<leftarrow> upd_opt (ptr x) (\<lambda>m. m\<lparr>dn_parent := dn_parent yn\<rparr>) h;
      h \<leftarrow> upd_node (dn_parent yn) (\<lambda>p. p\<lparr>dn_left := ptr x\<rparr>) h;
      h \<leftarrow> upd_node y (\<lambda>m. m\<lparr>dn_right := croot y bs\<rparr>) h;
      h \<leftarrow> upd_node (croot y bs) (\<lambda>m. m\<lparr>dn_parent := y\<rparr>) h;
      Some (dn_parent yn, h) } = Some (parq z bs, h') \<and>
    rep h' y (plug bs x) \<and> h' y = Some (m\<lparr>dn_right := ptr (plug bs x)\<rparr>) \<and>
    (\<forall>a. a \<notin> insert y (set (addrs x) \<union> set (caddrs bs)) \<longrightarrow> h' a = h a) \<and> cores h' = cores h"
proof -
  obtain b k s bs' where b: "bs = Fr Lft b k s # bs'"
    using bs by (cases bs rule: cpar.cases) (auto split: if_split_asm)
  have dis: "distinct (addrs (plug bs x))" "y \<notin> set (addrs (plug bs x))" "y \<noteq> b" "y \<notin> set (addrs x)"
    using d b by auto
  have "distinct (addrs x @ caddrs (Fr Lft b k s # bs'))"
    using d b by simp
  then obtain h1 h2 where h2: "upd_opt (ptr x) (\<lambda>m. m\<lparr>dn_parent := b\<rparr>) h = Some h1"
     "upd_node b (\<lambda>m. m\<lparr>dn_left := ptr x\<rparr>) h1 = Some h2" "rep h2 z (plug bs x)"
     "\<And>a. a \<noteq> b \<Longrightarrow> a \<notin> set (addrs x) \<Longrightarrow> h2 a = h a" "cores h2 = cores h"
    using unlink_left [OF r [unfolded b] x] b by auto
  have y2: "h2 y = Some m"
    using h2(4) dis y by simp
  have p: "ptr (plug bs x) = croot y bs"
    by (simp add: ptr_plug b)
  define h3 where "h3 = h2(y \<mapsto> m\<lparr>dn_right := ptr (plug bs x)\<rparr>)"
  have r3: "rep h3 z (plug bs x)"
    unfolding h3_def using h2(3) dis by (simp del: set_addrs_plug)
  have c3: "cores h3 = cores h2"
    using y2 child_simps(10) [of Rgt "ptr (plug bs x)" m] by (simp add: h3_def)
  obtain h4 where h4: "upd_opt (ptr (plug bs x)) (\<lambda>m. m\<lparr>dn_parent := y\<rparr>) h3 = Some h4" "rep h4 y (plug bs x)"
     "\<And>a. a \<notin> set (addrs (plug bs x)) \<Longrightarrow> h4 a = h3 a" "cores h4 = cores h3"
    using upd_parent [OF r3 dis(1), of y] by blast
  have "croot y bs \<noteq> 0"
    using ptr_0 [OF r3] p b by auto
  then have "upd_node (croot y bs) (\<lambda>m. m\<lparr>dn_parent := y\<rparr>) h3 = Some h4"
    using h4(1) p by (simp add: upd_opt_def)
  moreover have "upd_node y (\<lambda>m. m\<lparr>dn_right := croot y bs\<rparr>) h2 = Some h3"
    using y2 p by (simp add: upd_node_def h3_def)
  moreover have "h4 y = Some (m\<lparr>dn_right := ptr (plug bs x)\<rparr>)"
    using h4(3) dis(2) by (simp add: h3_def)
  moreover have "h4 a = h a" if "a \<notin> insert y (set (addrs x) \<union> set (caddrs bs))" for a
    using that h4(3) h2(4) b by (simp add: h3_def)
  moreover have "dn_parent yn = b" "parq z bs = b"
    using yn y b by simp_all
  ultimately show ?thesis
    using h2(1,2,5) h4(2,4) c3 by (intro exI [of _ h4]) simp
qed

lemma erase_two_ok:
  assumes z: "h z = Some n" "dn_parent n = cpar cs" "dn_left n = ptr l" "dn_right n = ptr r" "z \<noteq> 0"
    and l: "rep h z l" "l \<noteq> Leaf" and r: "rep h z r" "r = plug bs (Node Leaf (y, ky) x)" "cleft bs = []"
    and lm: "leftmost h (ptr r) = Some y" and cs: "repc h z cs"
    and d: "distinct (z # addrs l @ addrs r @ caddrs cs)"
  shows "\<exists>h'. erase_two z (h, croot z cs) = Some (ky, ptr x, cpar (bs @ Fr Rgt y (dn_color n) l # cs), h', croot y cs) \<and>
    rep h' 0 (plug (bs @ Fr Rgt y (dn_color n) l # cs) x) \<and> ptr (plug (bs @ Fr Rgt y (dn_color n) l # cs) x) = croot y cs \<and>
    (\<forall>a. a \<notin> insert z (set (addrs l) \<union> set (addrs r) \<union> set (caddrs cs)) \<longrightarrow> h' a = h a) \<and> cores h' = cores h"
proof -
  let ?L = "set (addrs l)" and ?X = "set (addrs x)" and ?B = "set (caddrs bs)" and ?C = "set (caddrs cs)"
  have dis: "distinct (addrs l)" "distinct (addrs x)" "distinct (caddrs bs)" "distinct (caddrs cs)" "y \<notin> ?X" "y \<notin> ?B" "?X \<inter> ?B = {}"
     "z \<noteq> y" "z \<notin> ?L" "z \<notin> ?X" "z \<notin> ?B" "z \<notin> ?C" "y \<notin> ?L" "y \<notin> ?C" "?L \<inter> ?X = {}" "?L \<inter> ?B = {}" "?L \<inter> ?C = {}"
     "?X \<inter> ?C = {}" "?B \<inter> ?C = {}"
    using d r(2) by auto
  have r1: "rep h (parq z bs) (Node Leaf (y, ky) x)" "repq h z y bs"
    using r(1) unfolding r(2) rep_plugq by auto
  obtain m where m: "h y = Some m" "dn_parent m = parq z bs" "dn_right m = ptr x" "dn_color m = ky" "rep h y x" "y \<noteq> 0"
    using r1(1) by auto
  have pl: "ptr l \<noteq> 0"
    using l by simp
  obtain h1 where h1: "upd_node (ptr l) (\<lambda>m. m\<lparr>dn_parent := y\<rparr>) h = Some h1" "rep h1 y l"
     "\<And>a. a \<notin> ?L \<Longrightarrow> h1 a = h a" "cores h1 = cores h"
    using upd_parent [OF l(1) dis(1), of y] pl by (auto simp: upd_opt_def)
  define m2 where "m2 = m\<lparr>dn_left := ptr l\<rparr>"
  define h2 where "h2 = h1(y \<mapsto> m2)"
  have y1: "h1 y = Some m" and y2: "h2 y = Some m2"
    using h1(3) dis m by (simp_all add: h2_def)
  have c2: "cores h2 = cores h1"
    using y1 by (simp add: h2_def m2_def core_def)
  have up2: "upd_node y (\<lambda>m. m\<lparr>dn_left := dn_left n\<rparr>) h1 = Some h2"
    using y1 z by (simp add: upd_node_def h2_def m2_def)
  have eq2: "h2 a = h a" if "a \<notin> insert y ?L" for a
    using that h1(3) by (simp add: h2_def)
  have x2: "rep h2 y x"
    using m(5) rep_cong [of x h2 h y] eq2 dis by (metis disjoint_iff insert_iff)
  obtain h3 where h3: "(if y \<noteq> dn_right n then do {
         h \<leftarrow> upd_opt (dn_right m) (\<lambda>mm. mm\<lparr>dn_parent := dn_parent m\<rparr>) h2;
         h \<leftarrow> upd_node (dn_parent m) (\<lambda>p. p\<lparr>dn_left := dn_right m\<rparr>) h;
         h \<leftarrow> upd_node y (\<lambda>m. m\<lparr>dn_right := dn_right n\<rparr>) h;
         h \<leftarrow> upd_node (dn_right n) (\<lambda>m. m\<lparr>dn_parent := y\<rparr>) h;
         Some (dn_parent m, h)
       } else Some (y, h2)) = Some (cpar (bs @ Fr Rgt y (dn_color n) l # cs), h3)"
     "rep h3 y (plug bs x)" "h3 y = Some (m2\<lparr>dn_right := ptr (plug bs x)\<rparr>)"
     "\<And>a. a \<notin> insert y (?X \<union> ?B) \<Longrightarrow> h3 a = h2 a" "cores h3 = cores h2"
  proof (cases "bs = []")
    case True
    have "m2\<lparr>dn_right := ptr x\<rparr> = m2"
      using m(3) by (simp add: m2_def)
    then show thesis
      using that [of h2] x2 y2 z(4) r(2) True by simp
  next
    case False
    have "repq h2 z y bs"
      using r1(2) repq_cong [of bs h2 h z y] eq2 dis by (metis disjoint_iff insert_iff)
    moreover have "cpar (bs @ Fr Rgt y (dn_color n) l # cs) = parq z bs"
      using False by (cases bs rule: cpar.cases) auto
    moreover have "dn_right n = croot y bs" "y \<noteq> croot y bs"
      using z(4) r(2) dis False croot_in [of bs y] by (auto simp: ptr_plug)
    ultimately show thesis
      using erase_mid [OF False r(3) _ x2 y2, of z m] m(2,3) dis that by (auto simp: m2_def)
  qed
  have z3: "h3 z = Some n"
    using h3(4) eq2 dis z by simp
  have c3: "repc h3 z cs"
    using cs repc_cong [of cs h3 h z] h3(4) eq2 dis by (metis (no_types, lifting) UnE disjoint_iff insert_iff)
  obtain h4 where h4: "link Lft z y (h3, croot z cs) = Some (h4, croot y cs)" "repc h4 y cs"
      "\<And>b. b \<notin> ?C \<Longrightarrow> h4 b = h3 b" "cores h4 = cores h3"
    using link_ctx [OF c3 z3 z(2,5) dis(12,4), of Lft y] by auto
  define m5 where "m5 = m2\<lparr>dn_right := ptr (plug bs x), dn_parent := cpar cs, dn_color := dn_color n\<rparr>"
  define h6 where "h6 = h4(y \<mapsto> m5, z \<mapsto> n\<lparr>dn_color := ky\<rparr>)"
  have y4: "h4 y = Some (m2\<lparr>dn_right := ptr (plug bs x)\<rparr>)" "h4 z = Some n"
    using h4(3) h3(3) z3 dis by simp_all
  define h5 where "h5 = h4(y \<mapsto> m2\<lparr>dn_right := ptr (plug bs x), dn_parent := cpar cs\<rparr>)"
  have u5: "upd_node y (\<lambda>m. m\<lparr>dn_parent := dn_parent n\<rparr>) h4 = Some h5"
    using y4 z(2) by (simp add: upd_node_def h5_def)
  have u6: "upd_node y (set_color (dn_color n)) h5 = Some (h5(y \<mapsto> m5))"
    by (simp add: upd_node_def h5_def set_color_def m5_def)
  have u7: "upd_node z (set_color (dn_color m)) (h5(y \<mapsto> m5)) = Some h6"
    using y4 dis(8) m(4) by (simp add: upd_node_def h5_def set_color_def h6_def)
  have lm': "leftmost h (dn_right n) = Some y" and h1': "upd_node (dn_left n) (\<lambda>m. m\<lparr>dn_parent := y\<rparr>) h = Some h1"
    using lm h1(1) z by simp_all
  have h4': "link_left z y (h3, croot z cs) = Some (h4, croot y cs)"
    using h4(1) by (simp add: link_def)
  have "erase_two z (h, croot z cs) =
      Some (dn_color m, dn_right m, cpar (bs @ Fr Rgt y (dn_color n) l # cs), h6, croot y cs)"
    unfolding erase_two_def Let_def
    by (simp only: z(1) lm' m(1) h1' up2 h3(1) h4' u5 u6 u7 bind.bind_lunit prod.case)
  then have run: "erase_two z (h, croot z cs) = Some (ky, ptr x, cpar (bs @ Fr Rgt y (dn_color n) l # cs), h6, croot y cs)"
    by (simp only: m(3,4))
  have c6: "cores h6 = cores h"
    using y4 dis(8) h1(4) c2 h3(5) h4(4) by (simp add: h6_def m5_def core_def)
  have eq6: "h6 a = h a" if "a \<notin> insert z (insert y (?L \<union> ?X \<union> ?B \<union> ?C))" for a
    using that h4(3) h3(4) eq2 by (simp add: h6_def)
  have "h6 a = h1 a" if "a \<in> ?L" for a
  proof -
    have "a \<noteq> z" "a \<noteq> y" "a \<notin> ?C" "a \<notin> ?X \<union> ?B"
      using that dis by auto
    then show ?thesis
      using h4(3) h3(4) by (simp add: h6_def h2_def)
  qed
  then have r6: "rep h6 y l"
    using h1(2) rep_cong [of l h6 h1 y] by blast
  have "h6 a = h3 a" if "a \<in> set (addrs (plug bs x))" for a
  proof -
    have "a \<noteq> z" "a \<noteq> y" "a \<notin> ?C"
      using that dis by auto
    then show ?thesis
      using h4(3) by (simp add: h6_def)
  qed
  then have r7: "rep h6 y (plug bs x)"
    using h3(2) rep_cong [of "plug bs x" h6 h3 y] by blast
  have "repc h6 y cs"
    using h4(2) dis by (simp add: h6_def)
  then have "rep h6 0 (plug (bs @ Fr Rgt y (dn_color n) l # cs) x)"
    using r6 r7 m(6) dis(8) by (simp add: rep_plug h6_def m5_def m2_def)
  moreover have "ptr (plug (bs @ Fr Rgt y (dn_color n) l # cs) x) = croot y cs"
    by (simp add: ptr_plug)
  moreover have "h6 a = h a" if "a \<notin> insert z (?L \<union> set (addrs r) \<union> ?C)" for a
    using that eq6 r(2) by simp
  ultimately show ?thesis
    using run c6 by blast
qed

section \<open>Erasing a node\<close>

text \<open>The position where \<open>x\<close> stands lacks a node of color \<open>k\<close>.\<close>

definition lacks :: "node_color \<Rightarrow> rbtree \<Rightarrow> frame list \<Rightarrow> bool" where
  "lacks k x ds \<longleftrightarrow> invc x \<and> invh x \<and> cinvc ds \<and> cinvh (bh x + (if k = BLACK then 1 else 0)) ds \<and>
     (k = RED \<longrightarrow> colr x = RED \<longrightarrow> ccol ds = BLACK)"

lemma ctx_address:
  "cinvh n (bs @ Fr d z c s # cs) = cinvh n (bs @ Fr d y c s # cs)"
  "ccol (bs @ Fr d z c s # cs) = ccol (bs @ Fr d y c s # cs)"
  "cinvc (bs @ Fr d z c s # cs) = cinvc (bs @ Fr d y c s # cs)"
proof -
  show "cinvh n (bs @ Fr d z c s # cs) = cinvh n (bs @ Fr d y c s # cs)"
    by (induction n bs rule: cinvh.induct) auto
  have "ccol (bs @ Fr d z c s # cs) = ccol (bs @ Fr d y c s # cs)" for bs
    by (cases bs rule: ccol.cases) auto
  then show "ccol (bs @ Fr d z c s # cs) = ccol (bs @ Fr d y c s # cs)"
    "cinvc (bs @ Fr d z c s # cs) = cinvc (bs @ Fr d y c s # cs)"
    by (auto, (induction bs rule: cinvc.induct; auto)+)
qed

lemma lacks_one:
  assumes "rbt (plug cs (Node l (z, c) r))"
  shows "l = Leaf \<Longrightarrow> lacks c r cs" "r = Leaf \<Longrightarrow> lacks c l cs"
  using assms unfolding rbt_plug lacks_def by auto

lemma lacks_two:
  assumes "rbt (plug cs (Node l (z, c) (plug bs (Node Leaf (y, k) x))))"
  shows "lacks k x (bs @ Fr Rgt y c l # cs)"
proof -
  have "plug cs (Node l (z, c) (plug bs (Node Leaf (y, k) x))) = plug (bs @ Fr Rgt z c l # cs) (Node Leaf (y, k) x)"
    by simp
  then have "rbt (plug (bs @ Fr Rgt z c l # cs) (Node Leaf (y, k) x))"
    using assms by metis
  then show ?thesis
    unfolding rbt_plug lacks_def ctx_address(1) [of _ bs Rgt z c l cs y] ctx_address(2,3) [of bs Rgt z c l cs y] by auto
qed

text \<open>The first half: the node is out of the tree, and the context of \<open>x\<close> lacks its color or the color
  of its successor.\<close>

definition erase_out :: "nat \<Rightarrow> dbn \<Rightarrow> heap \<Rightarrow> nat \<Rightarrow> (node_color \<times> nat \<times> nat \<times> heap \<times> nat) option" where
  "erase_out z n h root = (if dn_left n = 0 then erase_one z (dn_right n) (h, root)
        else if dn_right n = 0 then erase_one z (dn_left n) (h, root)
        else erase_two z (h, root))"

lemma erase_out_ok:
  assumes rt: "rep h (cpar cs) (Node l (z, c) r)" "repc h z cs" "root = croot z cs" and n: "h z = Some n"
    and d: "distinct (z # addrs l @ addrs r @ caddrs cs)" and T: "rbt (plug cs (Node l (z, c) r))"
  shows "\<exists>h' k ds x. erase_out z n h root = Some (k, ptr x, cpar ds, h', ptr (plug ds x)) \<and>
    rep h' 0 (plug ds x) \<and> lacks k x ds \<and> addrs (plug ds x) = cleft cs @ addrs l @ addrs r @ cright cs \<and>
    (\<forall>a. a \<notin> insert z (set (addrs l) \<union> set (addrs r) \<union> set (caddrs cs)) \<longrightarrow> h' a = h a) \<and> cores h' = cores h"
proof -
  have n': "dn_parent n = cpar cs" "dn_left n = ptr l" "dn_right n = ptr r" "dn_color n = c" "z \<noteq> 0"
    and lr: "rep h z l" "rep h z r"
    using rt(1) n by auto
  have dis: "distinct (addrs l)" "distinct (addrs r)" "distinct (caddrs cs)" "z \<notin> set (addrs l)" "z \<notin> set (addrs r)"
     "z \<notin> set (caddrs cs)" "set (addrs l) \<inter> set (caddrs cs) = {}" "set (addrs r) \<inter> set (caddrs cs) = {}"
    using d by auto
  have one: ?thesis if x: "erase_out z n h root = erase_one z (ptr x) (h, croot z cs)" "rep h z x" "x = l \<or> x = r"
      "addrs (plug cs x) = cleft cs @ addrs l @ addrs r @ cright cs" "lacks c x cs" for x
  proof -
    have dx: "distinct (addrs x)" "set (addrs x) \<inter> set (caddrs cs) = {}" "z \<notin> set (addrs x)" "set (addrs x) \<subseteq> set (addrs l) \<union> set (addrs r)"
      using x(3) dis by auto
    obtain h' where h': "erase_one z (ptr x) (h, croot z cs) = Some (dn_color n, ptr x, cpar cs, h', croot (ptr x) cs)"
      "rep h' (cpar cs) x" "repc h' (ptr x) cs" "\<And>a. a \<notin> set (addrs x) \<union> set (caddrs cs) \<Longrightarrow> h' a = h a" "cores h' = cores h"
      using erase_one_ok [OF n n'(1,5) x(2) dx(1) rt(2) dis(3) dx(2,3) dis(6)] by auto
    have "erase_out z n h root = Some (c, ptr x, cpar cs, h', ptr (plug cs x))"
      using x(1) h'(1) n'(4) by (simp add: ptr_plug)
    moreover have "rep h' 0 (plug cs x)"
      using h'(2,3) by (simp add: rep_plug)
    moreover have "\<forall>a. a \<notin> insert z (set (addrs l) \<union> set (addrs r) \<union> set (caddrs cs)) \<longrightarrow> h' a = h a"
      using h'(4) dx(4) by blast
    ultimately show ?thesis
      using x(4,5) h'(5) by blast
  qed
  consider "l = Leaf" | "l \<noteq> Leaf" "r = Leaf" | "l \<noteq> Leaf" "r \<noteq> Leaf"
    by blast
  then show ?thesis
  proof cases
    case 1
    then show ?thesis
      using one [of r] n' rt lr lacks_one(1) [OF T] by (simp add: erase_out_def addrs_plug)
  next
    case 2
    then show ?thesis
      using one [of l] n' rt lr lacks_one(2) [OF T] by (simp add: erase_out_def addrs_plug)
  next
    case 3
    obtain bs y k x where b: "r = plug bs (Node Leaf (y, k) x)" "cleft bs = []" "leftmost h (ptr r) = Some y"
      using leftmost_ok [OF lr(2) 3(2)] by blast
    obtain h' where h': "erase_two z (h, croot z cs) = Some (k, ptr x, cpar (bs @ Fr Rgt y c l # cs), h', croot y cs)"
      "rep h' 0 (plug (bs @ Fr Rgt y c l # cs) x)" "ptr (plug (bs @ Fr Rgt y c l # cs) x) = croot y cs"
      "\<And>a. a \<notin> insert z (set (addrs l) \<union> set (addrs r) \<union> set (caddrs cs)) \<Longrightarrow> h' a = h a" "cores h' = cores h"
      using erase_two_ok [OF n n'(1,2,3,5) lr(1) 3(1) lr(2) b rt(2) d] n'(4) by auto
    have "erase_out z n h root = Some (k, ptr x, cpar (bs @ Fr Rgt y c l # cs), h', ptr (plug (bs @ Fr Rgt y c l # cs) x))"
      using h'(1,3) n' 3 lr rt(3) by (simp add: erase_out_def)
    moreover have "lacks k x (bs @ Fr Rgt y c l # cs)"
      using lacks_two T b(1) by blast
    moreover have "addrs (plug (bs @ Fr Rgt y c l # cs) x) = cleft cs @ addrs l @ addrs r @ cright cs"
      using b(1,2) by (simp add: addrs_plug)
    ultimately show ?thesis
      using h'(2,4,5) by blast
  qed
qed

text \<open>Erasing any node of a red-black tree ends, follows no null pointer, takes exactly this node out of
  the order, and leaves a red-black tree.\<close>

lemma db_rebalance_erase_ok:
  assumes r: "rep h 0 T" "distinct (addrs T)" and T: "rbt T" "T = plug cs (Node l (z, c) r)"
  shows "\<exists>h' T'. db_rebalance_erase z (h, ptr T) = Some (h', ptr T') \<and>
    rep h' 0 T' \<and> rbt T' \<and> addrs T' = cleft cs @ addrs l @ addrs r @ cright cs \<and>
    (\<forall>a. a \<notin> set (addrs T) \<longrightarrow> h' a = h a) \<and> cores h' = cores h"
proof -
  have rt: "ptr T = croot z cs" "rep h (cpar cs) (Node l (z, c) r)" "repc h z cs"
    using r(1) unfolding T(2) rep_plug by (simp_all add: ptr_plug)
  obtain n where n: "h z = Some n"
    using rt(2) by auto
  have aT: "addrs T = cleft cs @ addrs l @ z # addrs r @ cright cs"
    unfolding T(2) addrs_plug by simp
  have S: "set (addrs T) = insert z (set (addrs l) \<union> set (addrs r) \<union> set (caddrs cs))"
    unfolding T(2) by auto
  have d: "distinct (z # addrs l @ addrs r @ caddrs cs)"
    using r(2) unfolding T(2) by auto
  obtain h1 k ds x where 1: "erase_out z n h (ptr T) = Some (k, ptr x, cpar ds, h1, ptr (plug ds x))"
    "rep h1 0 (plug ds x)" "lacks k x ds" "addrs (plug ds x) = cleft cs @ addrs l @ addrs r @ cright cs"
    "\<And>a. a \<notin> set (addrs T) \<Longrightarrow> h1 a = h a" "cores h1 = cores h"
    using erase_out_ok [OF rt(2,3,1) n d T(1) [unfolded T(2)]] unfolding S by blast
  have run: "db_rebalance_erase z (h, ptr T) =
      (if k \<noteq> RED then erase_loop (ptr x) (cpar ds) h1 (ptr (plug ds x)) else Some (h1, ptr (plug ds x)))"
    using 1(1) n by (simp add: db_rebalance_erase_def erase_out_def [symmetric])
  show ?thesis
  proof (cases k)
    case RED
    then have "rbt (plug ds x)"
      using 1(3) by (simp add: rbt_plug lacks_def)
    then show ?thesis
      using run RED 1 by (intro exI [of _ h1] exI [of _ "plug ds x"]) simp
  next
    case BLACK
    have d1: "distinct (addrs (plug ds x))"
      using r(2) unfolding 1(4) aT by auto
    then have "ok h1 (set (addrs (plug ds x))) (h1, ptr (plug ds x)) (plug ds x)"
      using 1(2) by (simp add: ok_def del: set_addrs_plug distinct_plug)
    moreover have "invc (paint BLACK x)" "invh x" "cinvh (Suc (bh x)) ds" "cinvc ds"
      using 1(3) BLACK by (auto simp: lacks_def elim: invc.elims)
    ultimately obtain h' root' T' where T': "erase_loop (ptr x) (cpar ds) h1 (ptr (plug ds x)) = Some (h', root')"
        "ok h1 (set (addrs (plug ds x))) (h', root') T'" "rbt T'" "addrs T' = addrs (plug ds x)"
      using erase_loop_ok by blast
    have "set (addrs (plug ds x)) \<subseteq> set (addrs T)"
      unfolding 1(4) aT by auto
    then have "\<forall>a. a \<notin> set (addrs T) \<longrightarrow> h' a = h a"
      using T'(2) 1(5) unfolding ok_def by (metis fst_conv subset_iff)
    then show ?thesis
      using T' run BLACK 1(4,6) by (intro exI [of _ h'] exI [of _ T']) (simp add: ok_def)
  qed
qed

end
