(* ===== verification/Db.thy ===== *)
theory Db imports DbKey DbSplice begin

text \<open>
  The database (\<^verbatim>\<open>struct DBMap_impl\<close> of \<^verbatim>\<open>src/common/db.c\<close>): a table of red-black trees that
  share a heap of nodes, a cache, and a list of removed nodes that stay in their trees while the
  database is locked.

  A pointer to the data of an entry is the address of its node. The result \<open>None\<close> of an operation is a
  process that stops: a null or dangling pointer is followed, or \<open>exit\<close> is called. A node that \<open>ers_alloc\<close>
  returns is the argument \<open>fresh\<close> of the operations that allocate. Keys, data and callbacks are values;
  \<open>m_freed\<close> lists what has been passed to \<open>aFree\<close>.
\<close>

definition HASH_SIZE :: nat where "HASH_SIZE = 256 + 27"

record dbmap =
  m_free_list :: "(nat \<times> nat) list"
  m_free_max :: "32 word"
  m_free_lock :: "32 word"
  m_nodes :: heap
  m_ht :: "nat list"
  m_cache :: nat
  m_type :: DBType
  m_options :: DBOptions
  m_release :: DBReleaser
  m_item_count :: "32 word"
  m_maxlen :: nat
  m_global_lock :: bool
  m_freed :: "freed list"

definition UINT16_MAX :: nat where "UINT16_MAX = 65535"

definition db_alloc :: "DBType \<Rightarrow> DBOptions \<Rightarrow> nat \<Rightarrow> dbmap" where
  "db_alloc type options maxlen = (let options = db_fix_options type options in
     \<lparr>m_free_list = [], m_free_max = 0, m_free_lock = 0, m_nodes = Map.empty, m_ht = replicate HASH_SIZE 0, m_cache = 0,
      m_type = type, m_options = options, m_release = db_default_release type options, m_item_count = 0,
      m_maxlen = (if maxlen = 0 \<and> (type = DB_STRING \<or> type = DB_ISTRING) then UINT16_MAX else maxlen),
      m_global_lock = False, m_freed = []\<rparr>)"

definition db_cmp :: "dbmap \<Rightarrow> db_key \<Rightarrow> db_key \<Rightarrow> int option" where
  "db_cmp db key1 key2 = db_default_cmp (m_type db) key1 key2 (m_maxlen db)"

definition db_hash :: "dbmap \<Rightarrow> db_key \<Rightarrow> nat option" where
  "db_hash db key = map_option (\<lambda>w. unat w mod HASH_SIZE) (db_default_hash (m_type db) key (m_maxlen db))"

definition db_opt :: "dbmap \<Rightarrow> int \<Rightarrow> bool" where
  "db_opt db flag = has_opt (m_options db) flag"

definition db_release :: "db_key \<Rightarrow> db_data \<Rightarrow> int \<Rightarrow> dbmap \<Rightarrow> dbmap" where
  "db_release key data which db = db\<lparr>m_freed := m_freed db @ releases (m_release db) key data which\<rparr>"

definition upd_nodes :: "nat \<Rightarrow> (dbn \<Rightarrow> dbn) \<Rightarrow> dbmap \<Rightarrow> dbmap option" where
  "upd_nodes a f db = do { h \<leftarrow> upd_node a f (m_nodes db); Some (db\<lparr>m_nodes := h\<rparr>) }"

section \<open>Keys of the nodes\<close>

definition is_str_type :: "DBType \<Rightarrow> bool" where
  "is_str_type type \<longleftrightarrow> type = DB_STRING \<or> type = DB_ISTRING"

definition db_dup_key :: "dbmap \<Rightarrow> db_key \<Rightarrow> db_key option" where
  "db_dup_key db key = (if is_str_type (m_type db)
     then do { s \<leftarrow> key_str key; Some (Key_str (Some (take (m_maxlen db) s))) } else Some key)"

definition db_dup_key_free :: "db_key \<Rightarrow> dbmap \<Rightarrow> dbmap" where
  "db_dup_key_free key db = (if is_str_type (m_type db) then db\<lparr>m_freed := m_freed db @ [Free_key key]\<rparr> else db)"

section \<open>Removed nodes and locks\<close>

definition grow_free_list :: "dbmap \<Rightarrow> dbmap option" where
  "grow_free_list db = (if of_nat (length (m_free_list db)) = m_free_max db then
      let free_max = push_bit 2 (m_free_max db) + 3 in
      if unat free_max \<le> length (m_free_list db) then
        if length (m_free_list db) = 2 ^ 32 - 1 then None else Some (db\<lparr>m_free_max := - 1\<rparr>)
      else Some (db\<lparr>m_free_max := free_max\<rparr>)
    else Some db)"

definition own_key :: "nat \<Rightarrow> dbmap \<Rightarrow> dbmap option" where
  "own_key node db = (if db_opt db DB_OPT_DUP_KEY then Some db else do {
     n \<leftarrow> m_nodes db node;
     k \<leftarrow> db_dup_key db (dn_key n);
     db \<leftarrow> upd_nodes node (\<lambda>n. n\<lparr>dn_key := k\<rparr>) db;
     Some (db_release (dn_key n) (dn_data n) DB_RELEASE_KEY db)
   })"

definition db_free_add :: "nat \<Rightarrow> nat \<Rightarrow> dbmap \<Rightarrow> dbmap option" where
  "db_free_add node root db = (if m_free_lock db = - 1 then None else do {
     db \<leftarrow> own_key node db;
     db \<leftarrow> grow_free_list db;
     db \<leftarrow> upd_nodes node (\<lambda>n. n\<lparr>dn_deleted := True\<rparr>) db;
     Some (db\<lparr>m_free_list := m_free_list db @ [(node, root)], m_item_count := m_item_count db - 1\<rparr>)
   })"

fun free_index :: "nat \<Rightarrow> (nat \<times> nat) list \<Rightarrow> nat" where
  "free_index node [] = 0"
| "free_index node (f # fs) = (if fst f = node then 0 else Suc (free_index node fs))"

definition free_list_remove :: "nat \<Rightarrow> (nat \<times> nat) list \<Rightarrow> (nat \<times> nat) list" where
  "free_list_remove i fs = butlast (if i < length fs - 1 then fs[i := last fs] else fs)"

definition db_free_remove :: "nat \<Rightarrow> dbmap \<Rightarrow> dbmap option" where
  "db_free_remove node db = do {
     n \<leftarrow> m_nodes db node;
     let i = free_index node (m_free_list db);
     let db' = (if i < length (m_free_list db)
       then db_dup_key_free (dn_key n) (db\<lparr>m_free_list := free_list_remove i (m_free_list db)\<rparr>) else db);
     db' \<leftarrow> upd_nodes node (\<lambda>n. n\<lparr>dn_deleted := False\<rparr>) db';
     Some (db'\<lparr>m_item_count := m_item_count db' + 1\<rparr>)
   }"

definition db_free_lock :: "dbmap \<Rightarrow> dbmap option" where
  "db_free_lock db = (if m_free_lock db = - 1 then None else Some (db\<lparr>m_free_lock := m_free_lock db + 1\<rparr>))"

fun free_nodes :: "(nat \<times> nat) list \<Rightarrow> dbmap \<Rightarrow> dbmap option" where
  "free_nodes [] db = Some db"
| "free_nodes ((node, root) # fs) db = do {
     (h, r) \<leftarrow> db_rebalance_erase node (m_nodes db, m_ht db ! root);
     n \<leftarrow> h node;
     free_nodes fs (db_dup_key_free (dn_key n) (db\<lparr>m_nodes := h(node := None), m_ht := (m_ht db)[root := r]\<rparr>))
   }"

definition db_free_unlock :: "dbmap \<Rightarrow> dbmap option" where
  "db_free_unlock db = (let db = (if m_free_lock db = 0 then db else db\<lparr>m_free_lock := m_free_lock db - 1\<rparr>) in
     if m_free_lock db \<noteq> 0 then Some db
     else do { db \<leftarrow> free_nodes (m_free_list db) db; Some (db\<lparr>m_free_list := []\<rparr>) })"

section \<open>Looking up\<close>

text \<open>The search loop: the node, or \<open>0\<close>; its parent and the last comparison.\<close>

partial_function (option) find_loop :: "(db_key \<Rightarrow> int option) \<Rightarrow> heap \<Rightarrow> nat \<Rightarrow> nat \<Rightarrow> int \<Rightarrow> (nat \<times> nat \<times> int) option" where
  "find_loop f h node parent c = (if node = 0 then Some (0, parent, c) else do {
     n \<leftarrow> h node;
     c \<leftarrow> f (dn_key n);
     if c = 0 then Some (node, parent, 0)
     else find_loop f h (if c < 0 then dn_left n else dn_right n) node c
   })"

declare find_loop.simps [code]

definition db_find :: "dbmap \<Rightarrow> db_key \<Rightarrow> nat \<Rightarrow> (nat \<times> nat \<times> int) option" where
  "db_find db key i = find_loop (db_cmp db key) (m_nodes db) (m_ht db ! i) 0 0"

definition cache_hit :: "db_key \<Rightarrow> dbmap \<Rightarrow> bool option" where
  "cache_hit key db = (if m_cache db = 0 then Some False else do {
     n \<leftarrow> m_nodes db (m_cache db);
     c \<leftarrow> db_cmp db key (dn_key n);
     Some (c = 0) })"

definition null_key_refused :: "db_key \<Rightarrow> dbmap \<Rightarrow> bool" where
  "null_key_refused key db \<longleftrightarrow> \<not> db_opt db DB_OPT_ALLOW_NULL_KEY \<and> db_is_key_null (m_type db) key"

text \<open>The node of a key that is not deleted; it becomes the cache.\<close>

definition db_live :: "nat \<Rightarrow> dbmap \<Rightarrow> (nat \<times> dbmap) option" where
  "db_live node db = (if node = 0 then Some (0, db) else do {
     n \<leftarrow> m_nodes db node;
     if dn_deleted n then Some (0, db) else Some (node, db\<lparr>m_cache := node\<rparr>) })"

definition db_obj_exists :: "db_key \<Rightarrow> dbmap \<Rightarrow> (bool \<times> dbmap) option" where
  "db_obj_exists key db = (if null_key_refused key db then Some (False, db) else do {
     hit \<leftarrow> cache_hit key db;
     if hit then Some (True, db) else do {
       db \<leftarrow> db_free_lock db;
       i \<leftarrow> db_hash db key;
       (node, _, _) \<leftarrow> db_find db key i;
       (node, db) \<leftarrow> db_live node db;
       db \<leftarrow> db_free_unlock db;
       Some (node \<noteq> 0, db)
     }
   })"

definition db_obj_get :: "db_key \<Rightarrow> dbmap \<Rightarrow> (nat \<times> dbmap) option" where
  "db_obj_get key db = (if null_key_refused key db then Some (0, db) else do {
     hit \<leftarrow> cache_hit key db;
     if hit then Some (m_cache db, db) else do {
       db \<leftarrow> db_free_lock db;
       i \<leftarrow> db_hash db key;
       (node, _, _) \<leftarrow> db_find db key i;
       (node, db) \<leftarrow> db_live node db;
       db \<leftarrow> db_free_unlock db;
       Some (node, db)
     }
   })"

section \<open>Inserting\<close>

text \<open>A new node at the position that the search found. What \<open>ers_alloc\<close> left in the key and the data
  is not read before they are written.\<close>

definition new_node :: "nat \<Rightarrow> nat \<Rightarrow> int \<Rightarrow> nat \<Rightarrow> dbmap \<Rightarrow> dbmap option" where
  "new_node fresh parent c i db = (let
     node = \<lparr>dn_parent = 0, dn_left = 0, dn_right = 0, dn_key = Key_i 0, dn_data = DB_DATA_INT 0, dn_color = BLACK, dn_deleted = False\<rparr>;
     db = db\<lparr>m_item_count := m_item_count db + 1\<rparr> in
     if c = 0 then Some (db\<lparr>m_nodes := (m_nodes db)(fresh \<mapsto> node), m_ht := (m_ht db)[i := fresh]\<rparr>)
     else do {
       let h = (m_nodes db)(fresh \<mapsto> node\<lparr>dn_color := RED, dn_parent := parent\<rparr>);
       h \<leftarrow> upd_node parent (\<lambda>p. if c < 0 then p\<lparr>dn_left := fresh\<rparr> else p\<lparr>dn_right := fresh\<rparr>) h;
       p \<leftarrow> h parent;
       (h, root) \<leftarrow> (if dn_color p = RED then db_rebalance fresh (h, m_ht db ! i) else Some (h, m_ht db ! i));
       Some (db\<lparr>m_nodes := h, m_ht := (m_ht db)[i := root]\<rparr>)
     })"

definition put_key :: "nat \<Rightarrow> db_key \<Rightarrow> db_data \<Rightarrow> dbmap \<Rightarrow> dbmap option" where
  "put_key node key data db = (if db_opt db DB_OPT_DUP_KEY then do {
       k \<leftarrow> db_dup_key db key;
       db \<leftarrow> upd_nodes node (\<lambda>n. n\<lparr>dn_key := k\<rparr>) db;
       Some (if db_opt db DB_OPT_RELEASE_KEY then db_release key data DB_RELEASE_KEY db else db)
     } else upd_nodes node (\<lambda>n. n\<lparr>dn_key := key\<rparr>) db)"

definition put_refused :: "db_key \<Rightarrow> db_data \<Rightarrow> dbmap \<Rightarrow> bool" where
  "put_refused key data db \<longleftrightarrow> m_global_lock db \<or> null_key_refused key db \<or>
     (\<not> db_opt db DB_OPT_ALLOW_NULL_DATA \<and> data_null data) \<or> m_item_count db = - 1"

text \<open>The entry that was found is replaced, or revived when it was removed under a lock.\<close>

definition put_found :: "nat \<Rightarrow> dbmap \<Rightarrow> (int \<times> db_data option \<times> dbmap) option" where
  "put_found node db = do {
     n \<leftarrow> m_nodes db node;
     if dn_deleted n then do { db \<leftarrow> db_free_remove node db; Some (0, None, db) }
     else Some (1, Some (dn_data n), db_release (dn_key n) (dn_data n) DB_RELEASE_BOTH db) }"

definition db_obj_put :: "nat \<Rightarrow> db_key \<Rightarrow> db_data \<Rightarrow> dbmap \<Rightarrow> (int \<times> db_data option \<times> dbmap) option" where
  "db_obj_put fresh key data db = (if put_refused key data db then Some (0, None, db) else do {
     db \<leftarrow> db_free_lock db;
     i \<leftarrow> db_hash db key;
     (node, parent, c) \<leftarrow> db_find db key i;
     (retval, out, db) \<leftarrow> (if node \<noteq> 0 then put_found node db
       else do { db \<leftarrow> new_node fresh parent c i db; Some (0, None, db) });
     let node = (if node \<noteq> 0 then node else fresh);
     db \<leftarrow> put_key node key data db;
     db \<leftarrow> upd_nodes node (\<lambda>n. n\<lparr>dn_data := data\<rparr>) db;
     db \<leftarrow> db_free_unlock (db\<lparr>m_cache := node\<rparr>);
     Some (retval, out, db)
   })"

text \<open>\<open>*data\<close> is read through a null pointer when the key of a new entry is duplicated and released.\<close>

definition ensure_key :: "nat \<Rightarrow> db_key \<Rightarrow> dbmap \<Rightarrow> dbmap option" where
  "ensure_key node key db = (if db_opt db DB_OPT_DUP_KEY then do {
       k \<leftarrow> db_dup_key db key;
       db \<leftarrow> upd_nodes node (\<lambda>n. n\<lparr>dn_key := k\<rparr>) db;
       (if db_opt db DB_OPT_RELEASE_KEY then None else Some db)
     } else upd_nodes node (\<lambda>n. n\<lparr>dn_key := key\<rparr>) db)"

definition db_obj_vensure :: "nat \<Rightarrow> db_key \<Rightarrow> (db_key \<Rightarrow> db_data) \<Rightarrow> dbmap \<Rightarrow> (nat \<times> dbmap) option" where
  "db_obj_vensure fresh key create db = (if null_key_refused key db then Some (0, db) else do {
     hit \<leftarrow> cache_hit key db;
     if hit then Some (m_cache db, db) else do {
       db \<leftarrow> db_free_lock db;
       i \<leftarrow> db_hash db key;
       (node, parent, c) \<leftarrow> db_find db key i;
       if node = 0 \<and> m_item_count db = - 1 then Some (0, db)
       else do {
         db \<leftarrow> (if node \<noteq> 0 then Some db else do {
           db \<leftarrow> new_node fresh parent c i db;
           db \<leftarrow> ensure_key fresh key db;
           upd_nodes fresh (\<lambda>n. n\<lparr>dn_data := create key\<rparr>) db });
         let node = (if node \<noteq> 0 then node else fresh);
         db \<leftarrow> db_free_unlock (db\<lparr>m_cache := node\<rparr>);
         Some (node, db)
       }
     }
   })"

section \<open>Removing\<close>

definition remove_found :: "nat \<Rightarrow> nat \<Rightarrow> dbmap \<Rightarrow> (int \<times> db_data option \<times> dbmap) option" where
  "remove_found node i db = (if node = 0 then Some (0, None, db) else do {
     n \<leftarrow> m_nodes db node;
     if dn_deleted n then Some (0, None, db)
     else do {
       let db = (if m_cache db = node then db\<lparr>m_cache := 0\<rparr> else db);
       db \<leftarrow> db_free_add node i (db_release (dn_key n) (dn_data n) DB_RELEASE_DATA db);
       Some (1, Some (dn_data n), db)
     } })"

definition db_obj_remove :: "db_key \<Rightarrow> dbmap \<Rightarrow> (int \<times> db_data option \<times> dbmap) option" where
  "db_obj_remove key db = (if m_global_lock db \<or> null_key_refused key db then Some (0, None, db) else do {
     db \<leftarrow> db_free_lock db;
     i \<leftarrow> db_hash db key;
     (node, _, _) \<leftarrow> db_find db key i;
     (retval, out, db) \<leftarrow> remove_found node i db;
     db \<leftarrow> db_free_unlock db;
     Some (retval, out, db)
   })"

definition db_obj_size :: "dbmap \<Rightarrow> (32 word \<times> dbmap) option" where
  "db_obj_size db = do { db \<leftarrow> db_free_lock db; db' \<leftarrow> db_free_unlock db; Some (m_item_count db, db') }"

definition db_obj_type :: "dbmap \<Rightarrow> (DBType \<times> dbmap) option" where
  "db_obj_type db = do { db \<leftarrow> db_free_lock db; db' \<leftarrow> db_free_unlock db; Some (m_type db, db') }"

definition db_obj_options :: "dbmap \<Rightarrow> (DBOptions \<times> dbmap) option" where
  "db_obj_options db = do { db \<leftarrow> db_free_lock db; db' \<leftarrow> db_free_unlock db; Some (m_options db, db') }"

end
