(* ===== verification/DbInv.thy ===== *)
theory DbInv imports Db begin

text \<open>
  The invariant of a database, and the search in its trees.
\<close>

section \<open>Searching an ordered tree\<close>

definition key_at :: "heap \<Rightarrow> nat \<Rightarrow> db_key" where
  "key_at h a = dn_key (the (h a))"

text \<open>The parent and the comparison that the search loop holds at a position.\<close>

fun at_pos :: "frame list \<Rightarrow> nat \<Rightarrow> int \<Rightarrow> bool" where
  "at_pos [] parent c = (parent = 0 \<and> c = 0)"
| "at_pos (Fr d a k s # cs) parent c = (parent = a \<and> c \<noteq> 0 \<and> (c < 0 \<longleftrightarrow> d = Lft))"

context key_order
begin

text \<open>The nodes to the left of a position have smaller keys than \<open>k\<close>, those to the right larger ones.\<close>

definition between :: "heap \<Rightarrow> nat list \<Rightarrow> db_key \<Rightarrow> nat list \<Rightarrow> bool" where
  "between h xs k ys \<longleftrightarrow> (\<forall>a \<in> set xs. norm (key_at h a) < norm k) \<and> (\<forall>a \<in> set ys. norm k < norm (key_at h a))"

lemma find_loop_ok:
  assumes "rep h q t" "k \<in> keys" "\<And>a. a \<in> set (addrs t) \<Longrightarrow> key_at h a \<in> keys"
    "sorted_wrt (\<lambda>a b. norm (key_at h a) < norm (key_at h b)) (addrs t)"
    "between h (cleft cs) k (cright cs)" "at_pos cs parent c"
  shows "(\<exists>cs' l z col r p. plug cs t = plug cs' (Node l (z, col) r) \<and> norm (key_at h z) = norm k \<and>
      find_loop (\<lambda>k'. cmp k k' maxlen) h (ptr t) parent c = Some (z, p, 0) \<and> z \<noteq> 0) \<or>
    (\<exists>cs' p c'. plug cs t = plug cs' Leaf \<and> between h (cleft cs') k (cright cs') \<and> at_pos cs' p c' \<and>
      find_loop (\<lambda>k'. cmp k k' maxlen) h (ptr t) parent c = Some (0, p, c'))"
  using assms
proof (induction h q t arbitrary: cs parent c rule: rep.induct)
  case (1 h q)
  have "find_loop (\<lambda>k'. cmp k k' maxlen) h (ptr Leaf) parent c = Some (0, parent, c)"
    by (subst find_loop.simps) simp
  then show ?case
    using 1 by blast
next
  case (2 h q l a col r)
  obtain n where n: "h a = Some n" "dn_left n = ptr l" "dn_right n = ptr r" "a \<noteq> 0"
    using 2(3) by auto
  have ka: "dn_key n \<in> keys" "key_at h a = dn_key n"
    using 2(5) [of a] n by (simp_all add: key_at_def)
  obtain c' where c': "cmp k (dn_key n) maxlen = Some c'" "c' = 0 \<longleftrightarrow> norm k = norm (dn_key n)" "c' < 0 \<longleftrightarrow> norm k < norm (dn_key n)"
    using cmp_some cmp_eq cmp_less 2(4) ka by blast
  have run: "find_loop (\<lambda>k'. cmp k k' maxlen) h a parent c = (if c' = 0 then Some (a, parent, 0)
     else find_loop (\<lambda>k'. cmp k k' maxlen) h (if c' < 0 then ptr l else ptr r) a c')"
    using n c'(1) by (subst find_loop.simps) simp
  have s: "sorted_wrt (\<lambda>a b. norm (key_at h a) < norm (key_at h b)) (addrs l)"
      "sorted_wrt (\<lambda>a b. norm (key_at h a) < norm (key_at h b)) (addrs r)"
      "\<And>b. b \<in> set (addrs l) \<Longrightarrow> norm (key_at h b) < norm (key_at h a)"
      "\<And>b. b \<in> set (addrs r) \<Longrightarrow> norm (key_at h a) < norm (key_at h b)"
    using 2(6) by (auto simp: sorted_wrt_append)
  consider "c' = 0" | "c' < 0" | "0 < c'"
    by linarith
  then show ?case
  proof cases
    case 1
    then show ?thesis
      using run c'(2) ka n(4) by (intro disjI1 exI [of _ cs]) auto
  next
    case 2
    let ?cs = "Fr Lft a col r # cs"
    have "rep h a l"
      using "2.prems" by simp
    moreover have lt: "norm k < norm (key_at h a)"
      using c'(3) 2 ka(2) by simp
    have "norm k < norm (key_at h b)" if "b \<in> set (addrs r)" for b
      using lt s(4) [OF that] by (rule less_trans)
    then have "between h (cleft ?cs) k (cright ?cs)"
      using "2.prems"(5) lt unfolding between_def by auto
    ultimately show ?thesis
      using "2.IH"(1) [of ?cs a c'] "2.prems" s run 2 by auto
  next
    case 3
    let ?cs = "Fr Rgt a col l # cs"
    have lt: "norm (key_at h a) < norm k"
      using c'(2,3) 3 ka(2) by (metis less_asym neqE order_less_irrefl)
    have "norm (key_at h b) < norm k" if "b \<in> set (addrs l)" for b
      using s(3) [OF that] lt by (rule less_trans)
    then have "between h (cleft ?cs) k (cright ?cs)"
      using "2.prems"(5) lt unfolding between_def by auto
    moreover have "rep h a r"
      using "2.prems" by simp
    ultimately show ?thesis
      using "2.IH"(2) [of ?cs a c'] "2.prems" s run 3 by auto
  qed
qed

end

section \<open>The invariant\<close>

definition hash_of :: "DBType \<Rightarrow> nat \<Rightarrow> db_key \<Rightarrow> nat option" where
  "hash_of ty n key = map_option (\<lambda>w. unat w mod HASH_SIZE) (db_default_hash ty key n)"

text \<open>The red-black tree of bucket \<open>i\<close>: its nodes are ordered by their keys, which hash to \<open>i\<close>.\<close>

definition bucket_ok :: "DBType \<Rightarrow> nat \<Rightarrow> heap \<Rightarrow> nat \<Rightarrow> nat \<Rightarrow> rbtree \<Rightarrow> bool" where
  "bucket_ok ty n h i root T \<longleftrightarrow> root = ptr T \<and> rep h 0 T \<and> distinct (addrs T) \<and> rbt T \<and>
     sorted_wrt (\<lambda>a b. db_norm ty (key_at h a) < db_norm ty (key_at h b)) (addrs T) \<and>
     (\<forall>a \<in> set (addrs T). key_at h a \<in> db_keys ty n \<and> hash_of ty n (key_at h a) = Some i)"

definition forest :: "DBType \<Rightarrow> nat \<Rightarrow> heap \<Rightarrow> nat list \<Rightarrow> (nat \<Rightarrow> rbtree) \<Rightarrow> bool" where
  "forest ty n h ht ts \<longleftrightarrow> length ht = HASH_SIZE \<and> (\<forall>i < HASH_SIZE. bucket_ok ty n h i (ht ! i) (ts i)) \<and>
     dom h = (\<Union>i < HASH_SIZE. set (addrs (ts i)))"

definition live :: "heap \<Rightarrow> nat set" where
  "live h = {a. \<exists>n. h a = Some n \<and> \<not> dn_deleted n}"

definition dead :: "heap \<Rightarrow> nat set" where
  "dead h = {a. \<exists>n. h a = Some n \<and> dn_deleted n}"

text \<open>The nodes of \<open>fs\<close> are the removed ones, with the buckets they are in.\<close>

definition db_inv :: "(nat \<times> nat) list \<Rightarrow> dbmap \<Rightarrow> bool" where
  "db_inv fs db \<longleftrightarrow> (\<exists>ts. forest (m_type db) (m_maxlen db) (m_nodes db) (m_ht db) ts \<and>
     distinct (List.map fst fs) \<and> fst ` set fs = dead (m_nodes db) \<and>
     (\<forall>(a, r) \<in> set fs. r < HASH_SIZE \<and> a \<in> set (addrs (ts r))) \<and>
     (m_cache db = 0 \<or> m_cache db \<in> live (m_nodes db)) \<and> unat (m_item_count db) = card (live (m_nodes db)))"

definition db_ok :: "dbmap \<Rightarrow> bool" where
  "db_ok db \<longleftrightarrow> db_inv (m_free_list db) db \<and> (m_free_lock db = 0 \<longrightarrow> m_free_list db = [])"

text \<open>The database holds the entries of the map \<open>m\<close>, from keys of the order to keys and data.\<close>

definition db_abs :: "dbmap \<Rightarrow> (int list \<rightharpoonup> db_key \<times> db_data) \<Rightarrow> bool" where
  "db_abs db m \<longleftrightarrow> (\<forall>k key data. m k = Some (key, data) \<longleftrightarrow>
     (\<exists>a. cores (m_nodes db) a = Some (key, data, False) \<and> db_norm (m_type db) key = k))"

lemma key_at_cores: "cores h' a = cores h a \<Longrightarrow> key_at h' a = key_at h a"
  by (cases "h a"; cases "h' a") (auto simp: cores_def key_at_def core_def)

lemma live_cores: "live h = {a. \<exists>k d. cores h a = Some (k, d, False)}"
  by (auto simp: live_def cores_def core_def)

lemma dead_cores: "dead h = {a. \<exists>k d. cores h a = Some (k, d, True)}"
  by (auto simp: dead_def cores_def core_def)

lemma dom_cores: "dom (cores h) = dom h"
  by (auto simp: cores_def)

lemma tree_ok_cong:
  assumes "\<And>a. a \<in> set (addrs T) \<Longrightarrow> h' a = h a"
  shows "bucket_ok ty n h' i root T = bucket_ok ty n h i root T"
proof -
  have "rep h' 0 T = rep h 0 T"
    using assms by (rule rep_cong)
  moreover have "\<forall>a \<in> set (addrs T). key_at h' a = key_at h a"
    using assms by (simp add: key_at_def)
  moreover from this have "sorted_wrt (\<lambda>a b. db_norm ty (key_at h' a) < db_norm ty (key_at h' b)) (addrs T) =
      sorted_wrt (\<lambda>a b. db_norm ty (key_at h a) < db_norm ty (key_at h b)) (addrs T)"
    by (intro iffI; elim sorted_wrt_mono_rel [rotated]) simp_all
  ultimately show ?thesis
    by (simp add: bucket_ok_def)
qed

lemma forest_hash: "forest ty n h ht ts \<Longrightarrow> i < HASH_SIZE \<Longrightarrow> a \<in> set (addrs (ts i)) \<Longrightarrow> hash_of ty n (key_at h a) = Some i"
  by (auto simp: forest_def bucket_ok_def)

lemma forest_disjoint:
  "forest ty n h ht ts \<Longrightarrow> i < HASH_SIZE \<Longrightarrow> j < HASH_SIZE \<Longrightarrow> i \<noteq> j \<Longrightarrow> set (addrs (ts i)) \<inter> set (addrs (ts j)) = {}"
  using forest_hash [of ty n h ht ts i] forest_hash [of ty n h ht ts j] by (metis disjoint_iff option.inject)

lemma forest_update:
  assumes F: "forest ty n h ht ts" and i: "i < HASH_SIZE" and T: "bucket_ok ty n h' i root T"
    and out: "\<And>a. a \<in> dom h \<Longrightarrow> a \<notin> set (addrs (ts i)) \<Longrightarrow> h' a = h a"
    and d: "dom h' = dom h - set (addrs (ts i)) \<union> set (addrs T)"
  shows "forest ty n h' (ht[i := root]) (ts(i := T))"
proof -
  have eq: "h' a = h a" if "j < HASH_SIZE" "j \<noteq> i" "a \<in> set (addrs (ts j))" for j a
    using out [of a] forest_disjoint [OF F that(1) i that(2)] that F by (auto simp: forest_def)
  have "bucket_ok ty n h' j (ht[i := root] ! j) ((ts(i := T)) j)" if "j < HASH_SIZE" for j
  proof (cases "j = i")
    case True
    then show ?thesis
      using T F i by (simp add: forest_def)
  next
    case False
    then show ?thesis
      using tree_ok_cong [of "ts j" h' h] eq [OF that False] F that by (simp add: forest_def)
  qed
  moreover have "dom h - set (addrs (ts i)) = (\<Union>j \<in> {..<HASH_SIZE} - {i}. set (addrs (ts j)))"
    using forest_disjoint [OF F] F i unfolding forest_def by fastforce
  then have "dom h' = (\<Union>j < HASH_SIZE. set (addrs ((ts(i := T)) j)))"
    using d i by (auto split: if_split_asm)
  ultimately show ?thesis
    using F by (simp add: forest_def)
qed

lemma sorted_wrt_unique:
  fixes f :: "'a \<Rightarrow> 'b :: linorder"
  assumes "sorted_wrt (\<lambda>a b. f a < f b) xs" "a \<in> set xs" "b \<in> set xs" "f a = f b"
  shows "a = b"
  using assms
proof (induction xs)
  case (Cons x xs)
  then show ?case
    by (metis less_irrefl set_ConsD sorted_wrt.simps(2))
qed simp

text \<open>No two nodes, removed ones included, have equal keys.\<close>

lemma forest_unique:
  assumes F: "forest ty n h ht ts" and ab: "a \<in> dom h" "b \<in> dom h" and eq: "db_norm ty (key_at h a) = db_norm ty (key_at h b)"
  shows "a = b"
proof -
  obtain i j where ij: "i < HASH_SIZE" "a \<in> set (addrs (ts i))" "j < HASH_SIZE" "b \<in> set (addrs (ts j))"
    using F ab by (auto simp: forest_def)
  have k: "key_at h a \<in> db_keys ty n" "key_at h b \<in> db_keys ty n"
    using F ij by (auto simp: forest_def bucket_ok_def)
  have "hash_of ty n (key_at h a) = hash_of ty n (key_at h b)"
    using db_order.hash_eq [OF k eq] by (simp add: hash_of_def)
  then have "i = j"
    using forest_hash [OF F] ij by fastforce
  then show ?thesis
    using sorted_wrt_unique [of "\<lambda>a. db_norm ty (key_at h a)" "addrs (ts i)"] F ij eq by (auto simp: forest_def bucket_ok_def)
qed

lemma at_position:
  assumes "z \<in> set (addrs T)"
  obtains cs l c r where "T = plug cs (Node l (z, c) r)"
proof -
  have "\<exists>cs' l c r. plug cs T = plug cs' (Node l (z, c) r)" for cs
    using assms
  proof (induction T arbitrary: cs)
    case (Node t1 ac t2)
    obtain a c where ac: "ac = (a, c)"
      by fastforce
    have "plug cs (Node t1 ac t2) = plug (Fr Lft a c t2 # cs) t1" "plug cs (Node t1 ac t2) = plug (Fr Rgt a c t1 # cs) t2"
      by (simp_all add: ac)
    then show ?case
      using Node ac by (auto simp del: plug.simps) metis+
  qed simp
  from this [of "[]"] show thesis
    using that by auto
qed

text \<open>Erasing a node of the forest and freeing it.\<close>

lemma forest_erase:
  assumes F: "forest ty n h ht ts" and i: "i < HASH_SIZE" and z: "z \<in> set (addrs (ts i))"
  shows "\<exists>h' root T. db_rebalance_erase z (h, ht ! i) = Some (h', root) \<and> cores h' = cores h \<and>
    forest ty n (h'(z := None)) (ht[i := root]) (ts(i := T)) \<and> set (addrs T) = set (addrs (ts i)) - {z}"
proof -
  obtain cs l c r where pos: "ts i = plug cs (Node l (z, c) r)"
    using at_position [OF z] by blast
  have t: "ht ! i = ptr (ts i)" "rep h 0 (ts i)" "distinct (addrs (ts i))" "rbt (ts i)"
    using F i by (auto simp: forest_def bucket_ok_def)
  obtain h' T where T: "db_rebalance_erase z (h, ptr (ts i)) = Some (h', ptr T)" "rep h' 0 T" "rbt T"
     "addrs T = cleft cs @ addrs l @ addrs r @ cright cs" "\<And>a. a \<notin> set (addrs (ts i)) \<Longrightarrow> h' a = h a" "cores h' = cores h"
    using db_rebalance_erase_ok [OF t(2,3,4) pos] by blast
  have a: "addrs (ts i) = cleft cs @ addrs l @ z # addrs r @ cright cs"
    by (simp add: pos addrs_plug)
  have zT: "z \<notin> set (addrs T)" and S: "set (addrs T) = set (addrs (ts i)) - {z}"
    using t(3) unfolding a T(4) by auto
  have k: "key_at (h'(z := None)) b = key_at h b" if "b \<in> set (addrs T)" for b
    using that zT T(6) key_at_cores [of h' b h] by (auto simp: key_at_def)
  have "bucket_ok ty n (h'(z := None)) i (ptr T) T"
  proof -
    have "rep (h'(z := None)) 0 T"
      using T(2) zT by (subst rep_cong [where h = h']) auto
    moreover have "distinct (addrs T)"
      using t(3) unfolding a T(4) by auto
    moreover have "sorted_wrt (\<lambda>a b. db_norm ty (key_at h a) < db_norm ty (key_at h b)) (addrs T)"
      using F i unfolding forest_def bucket_ok_def T(4) by (auto simp: a sorted_wrt_append)
    then have "sorted_wrt (\<lambda>a b. db_norm ty (key_at (h'(z := None)) a) < db_norm ty (key_at (h'(z := None)) b)) (addrs T)"
      by (elim sorted_wrt_mono_rel [rotated]) (simp add: k)
    moreover have "\<forall>b \<in> set (addrs T). key_at (h'(z := None)) b \<in> db_keys ty n \<and> hash_of ty n (key_at (h'(z := None)) b) = Some i"
      using F i S k by (auto simp: forest_def bucket_ok_def)
    ultimately show ?thesis
      using T(3) by (simp add: bucket_ok_def)
  qed
  moreover have "dom h' = dom h"
    using T(6) dom_cores by metis
  ultimately have "forest ty n (h'(z := None)) (ht[i := ptr T]) (ts(i := T))"
    using S z T(5) i F zT by (intro forest_update [OF F i]) (auto simp: forest_def)
  then show ?thesis
    using T t(1) S by (intro exI [of _ h'] exI [of _ "ptr T"] exI [of _ T]) simp
qed

end
