(* ===== verification/DbUnlock.thy ===== *)
theory DbUnlock imports DbInv begin

text \<open>
  Locks, and freeing the removed nodes; the search and the cache of a database.
\<close>

text \<open>The fields that the operations do not change, and the entries of two heaps.\<close>

definition same_conf :: "dbmap \<Rightarrow> dbmap \<Rightarrow> bool" where
  "same_conf db db' \<longleftrightarrow> m_type db' = m_type db \<and> m_maxlen db' = m_maxlen db \<and> m_options db' = m_options db \<and>
     m_release db' = m_release db \<and> m_global_lock db' = m_global_lock db"

definition same_live :: "heap \<Rightarrow> heap \<Rightarrow> bool" where
  "same_live h h' \<longleftrightarrow> (\<forall>a k d. cores h' a = Some (k, d, False) \<longleftrightarrow> cores h a = Some (k, d, False))"

lemma same_conf_refl [simp]: "same_conf db db"
  by (simp add: same_conf_def)

lemma same_conf_trans: "same_conf db db' \<Longrightarrow> same_conf db' db'' \<Longrightarrow> same_conf db db''"
  by (simp add: same_conf_def)

lemma same_live_refl [simp]: "same_live h h"
  by (simp add: same_live_def)

lemma same_live_trans: "same_live h h' \<Longrightarrow> same_live h' h'' \<Longrightarrow> same_live h h''"
  by (simp add: same_live_def)

lemma same_live_live: "same_live h h' \<Longrightarrow> live h' = live h"
  by (auto simp: same_live_def live_cores)

lemma same_live_abs:
  "same_live (m_nodes db) (m_nodes db') \<Longrightarrow> m_type db' = m_type db \<Longrightarrow> db_abs db' m = db_abs db m"
  by (simp add: same_live_def db_abs_def)

lemma dup_key_free_conf [simp]:
  "m_free_list (db_dup_key_free key db) = m_free_list db" "m_free_lock (db_dup_key_free key db) = m_free_lock db"
  "m_nodes (db_dup_key_free key db) = m_nodes db" "m_ht (db_dup_key_free key db) = m_ht db"
  "m_cache (db_dup_key_free key db) = m_cache db" "m_item_count (db_dup_key_free key db) = m_item_count db"
  "same_conf db' (db_dup_key_free key db) = same_conf db' db"
  "m_type (db_dup_key_free key db) = m_type db" "m_maxlen (db_dup_key_free key db) = m_maxlen db"
  by (simp_all add: db_dup_key_free_def same_conf_def)

lemma db_inv_free_one:
  assumes I: "db_inv ((z, r) # fs) db"
  shows "\<exists>h root n. db_rebalance_erase z (m_nodes db, m_ht db ! r) = Some (h, root) \<and> h z = Some n \<and>
    same_live (m_nodes db) (h(z := None)) \<and> db_inv fs (db\<lparr>m_nodes := h(z := None), m_ht := (m_ht db)[r := root]\<rparr>)"
proof -
  obtain ts where F: "forest (m_type db) (m_maxlen db) (m_nodes db) (m_ht db) ts"
     and fs: "distinct (List.map fst ((z, r) # fs))" "fst ` set ((z, r) # fs) = dead (m_nodes db)"
       "\<forall>(a, r) \<in> set ((z, r) # fs). r < HASH_SIZE \<and> a \<in> set (addrs (ts r))"
     and c: "m_cache db = 0 \<or> m_cache db \<in> live (m_nodes db)" "unat (m_item_count db) = card (live (m_nodes db))"
    using I unfolding db_inv_def by blast
  have r: "r < HASH_SIZE" "z \<in> set (addrs (ts r))" and zd: "z \<in> dead (m_nodes db)"
    using fs by auto
  obtain h root T where h: "db_rebalance_erase z (m_nodes db, m_ht db ! r) = Some (h, root)" "cores h = cores (m_nodes db)"
     "forest (m_type db) (m_maxlen db) (h(z := None)) ((m_ht db)[r := root]) (ts(r := T))" "set (addrs T) = set (addrs (ts r)) - {z}"
    using forest_erase [OF F r] by blast
  let ?h = "h(z := None)"
  have ch: "cores ?h a = (if a = z then None else cores (m_nodes db) a)" for a
    using h(2) by (simp add: cores_def fun_eq_iff)
  have sl: "same_live (m_nodes db) ?h"
    using zd by (auto simp: same_live_def ch dead_cores)
  have dd: "dead ?h = dead (m_nodes db) - {z}"
    by (auto simp: dead_cores ch split: if_split_asm)
  have "\<exists>n. h z = Some n"
    using zd h(2) dom_cores [of h] dom_cores [of "m_nodes db"] by (auto simp: dead_def dom_def set_eq_iff)
  then obtain n where n: "h z = Some n" ..
  have "fst ` set fs = dead ?h"
    unfolding dd fs(2) [symmetric] using fs(1) by auto
  moreover have "\<forall>(a, r') \<in> set fs. r' < HASH_SIZE \<and> a \<in> set (addrs ((ts(r := T)) r'))"
    using fs h(4) by (auto simp: image_iff split: if_split_asm)
  ultimately have "db_inv fs (db\<lparr>m_nodes := ?h, m_ht := (m_ht db)[r := root]\<rparr>)"
    using h(3) fs(1) c same_live_live [OF sl] unfolding db_inv_def
    by (intro exI [of _ "ts(r := T)"]) simp
  then show ?thesis
    using h(1) n sl by blast
qed

lemma free_nodes_ok:
  assumes "db_inv fs db"
  shows "\<exists>db'. free_nodes fs db = Some db' \<and> db_inv [] db' \<and> same_conf db db' \<and> same_live (m_nodes db) (m_nodes db') \<and>
    m_cache db' = m_cache db \<and> m_item_count db' = m_item_count db \<and> m_free_lock db' = m_free_lock db"
  using assms
proof (induction fs db rule: free_nodes.induct)
  case (1 db)
  then show ?case
    by (intro exI [of _ db]) simp
next
  case (2 z r fs db)
  obtain h root n where h: "db_rebalance_erase z (m_nodes db, m_ht db ! r) = Some (h, root)" "h z = Some n"
    "same_live (m_nodes db) (h(z := None))" "db_inv fs (db\<lparr>m_nodes := h(z := None), m_ht := (m_ht db)[r := root]\<rparr>)"
    using db_inv_free_one [OF 2(2)] by blast
  let ?db = "db_dup_key_free (dn_key n) (db\<lparr>m_nodes := h(z := None), m_ht := (m_ht db)[r := root]\<rparr>)"
  have "db_inv fs ?db"
    using h(4) by (simp add: db_inv_def)
  then obtain db' where db': "free_nodes fs ?db = Some db'" "db_inv [] db'" "same_conf ?db db'" "same_live (m_nodes ?db) (m_nodes db')"
      "m_cache db' = m_cache ?db" "m_item_count db' = m_item_count ?db" "m_free_lock db' = m_free_lock ?db"
    using 2(1) [OF h(1) HOL.refl h(2)] by blast
  have sc: "same_conf db ?db"
    unfolding dup_key_free_conf by (simp add: same_conf_def)
  then show ?case
    using h db' same_conf_trans [OF sc db'(3)] same_live_trans [OF h(3), of "m_nodes db'"] by (intro exI [of _ db']) simp
qed

lemma db_free_lock_ok: "m_free_lock db \<noteq> - 1 \<Longrightarrow> db_free_lock db = Some (db\<lparr>m_free_lock := m_free_lock db + 1\<rparr>)"
  by (simp add: db_free_lock_def)

text \<open>Giving back a lock keeps the entries; the last one frees the removed nodes.\<close>

lemma db_free_unlock_ok:
  assumes I: "db_inv (m_free_list db) db"
  shows "\<exists>db'. db_free_unlock db = Some db' \<and> db_ok db' \<and> same_conf db db' \<and> same_live (m_nodes db) (m_nodes db') \<and>
    m_cache db' = m_cache db \<and> m_item_count db' = m_item_count db \<and>
    m_free_lock db' = (if m_free_lock db = 0 then 0 else m_free_lock db - 1)"
proof -
  let ?db = "if m_free_lock db = 0 then db else db\<lparr>m_free_lock := m_free_lock db - 1\<rparr>"
  have I': "db_inv (m_free_list ?db) ?db"
    using I by (simp add: db_inv_def)
  have c: "same_conf db ?db" "m_nodes ?db = m_nodes db" "m_cache ?db = m_cache db" "m_item_count ?db = m_item_count db"
    by (simp_all add: same_conf_def)
  show ?thesis
  proof (cases "m_free_lock ?db = 0")
    case False
    then show ?thesis
      using I' c unfolding db_free_unlock_def Let_def by (intro exI [of _ ?db]) (auto simp: db_ok_def)
  next
    case True
    obtain db' where db': "free_nodes (m_free_list ?db) ?db = Some db'" "db_inv [] db'" "same_conf ?db db'"
       "same_live (m_nodes ?db) (m_nodes db')" "m_cache db' = m_cache ?db" "m_item_count db' = m_item_count ?db" "m_free_lock db' = m_free_lock ?db"
      using free_nodes_ok [OF I'] by blast
    have "db_ok (db'\<lparr>m_free_list := []\<rparr>)"
      using db'(2) by (simp add: db_ok_def db_inv_def)
    moreover have "db_free_unlock db = Some (db'\<lparr>m_free_list := []\<rparr>)"
      using True db'(1) by (simp add: db_free_unlock_def Let_def)
    moreover have "same_conf db (db'\<lparr>m_free_list := []\<rparr>)"
      using c(1) db'(3) by (simp add: same_conf_def)
    ultimately show ?thesis
      using db' c True by (intro exI [of _ "db'\<lparr>m_free_list := []\<rparr>"]) (simp split: if_splits)
  qed
qed

section \<open>Search and cache\<close>

lemma HASH_SIZE_pos [simp]: "0 < HASH_SIZE"
  by (simp add: HASH_SIZE_def)

lemma hash_of_some:
  assumes "key \<in> db_keys ty n"
  obtains i where "hash_of ty n key = Some i" "i < HASH_SIZE"
  using db_order.hash_some [OF assms] that by (auto simp: hash_of_def)

lemma db_hash_of: "db_hash db key = hash_of (m_type db) (m_maxlen db) key"
  by (simp add: db_hash_def hash_of_def)

lemma forest_dom: "forest ty n h ht ts \<Longrightarrow> a \<in> dom h \<Longrightarrow> \<exists>j < HASH_SIZE. a \<in> set (addrs (ts j))"
  by (auto simp: forest_def)

lemma forest_key: "forest ty n h ht ts \<Longrightarrow> a \<in> dom h \<Longrightarrow> key_at h a \<in> db_keys ty n"
  by (auto simp: forest_def bucket_ok_def)

text \<open>The search finds the node with an equal key, or the position where it belongs.\<close>

lemma db_find_ok:
  assumes F: "forest (m_type db) (m_maxlen db) (m_nodes db) (m_ht db) ts"
    and k: "key \<in> db_keys (m_type db) (m_maxlen db)" and i: "hash_of (m_type db) (m_maxlen db) key = Some i" "i < HASH_SIZE"
  shows "(\<exists>z p. db_find db key i = Some (z, p, 0) \<and> z \<noteq> 0 \<and> z \<in> set (addrs (ts i)) \<and> z \<in> dom (m_nodes db) \<and>
      db_norm (m_type db) (key_at (m_nodes db) z) = db_norm (m_type db) key) \<or>
    (\<exists>cs p c. db_find db key i = Some (0, p, c) \<and> ts i = plug cs Leaf \<and> at_pos cs p c \<and>
      db_order.between (m_type db) (m_nodes db) (cleft cs) key (cright cs) \<and>
      (\<forall>a \<in> dom (m_nodes db). db_norm (m_type db) (key_at (m_nodes db) a) \<noteq> db_norm (m_type db) key))"
proof -
  let ?h = "m_nodes db" and ?norm = "db_norm (m_type db)"
  have T: "m_ht db ! i = ptr (ts i)" "rep ?h 0 (ts i)" "sorted_wrt (\<lambda>a b. ?norm (key_at ?h a) < ?norm (key_at ?h b)) (addrs (ts i))"
    "\<And>a. a \<in> set (addrs (ts i)) \<Longrightarrow> key_at ?h a \<in> db_keys (m_type db) (m_maxlen db)"
    and dom: "set (addrs (ts i)) \<subseteq> dom ?h"
    using F i(2) by (auto simp: forest_def bucket_ok_def)
  have run: "db_find db key i = find_loop (\<lambda>k'. db_default_cmp (m_type db) key k' (m_maxlen db)) ?h (ptr (ts i)) 0 0"
    using T(1) by (simp add: db_find_def db_cmp_def [abs_def])
  have b: "db_order.between (m_type db) ?h (cleft []) key (cright [])"
    by (simp add: db_order.between_def)
  have elsewhere: "a \<in> set (addrs (ts i))" if a: "a \<in> dom ?h" and e: "?norm (key_at ?h a) = ?norm key" for a
  proof -
    obtain j where j: "j < HASH_SIZE" "a \<in> set (addrs (ts j))"
      using forest_dom [OF F a] by blast
    have "hash_of (m_type db) (m_maxlen db) (key_at ?h a) = Some i"
      using db_order.hash_eq [OF forest_key [OF F a] k e] i(1) by (simp add: hash_of_def)
    then show ?thesis
      using forest_hash [OF F j] j by simp
  qed
  consider (found) cs l z col r p where "plug [] (ts i) = plug cs (Node l (z, col) r)" "?norm (key_at ?h z) = ?norm key"
      "db_find db key i = Some (z, p, 0)" "z \<noteq> 0"
    | (absent) cs p c where "plug [] (ts i) = plug cs Leaf" "db_order.between (m_type db) ?h (cleft cs) key (cright cs)"
      "at_pos cs p c" "db_find db key i = Some (0, p, c)"
    using db_order.find_loop_ok [OF T(2) k _ T(3) b, of 0 0] T(4) unfolding run by auto
  then show ?thesis
  proof cases
    case found
    then have "z \<in> set (addrs (ts i))"
      by simp
    then show ?thesis
      using found dom by blast
  next
    case absent
    have "?norm (key_at ?h a) \<noteq> ?norm key" if a: "a \<in> dom ?h" for a
    proof
      assume e: "?norm (key_at ?h a) = ?norm key"
      then have "a \<in> set (cleft cs) \<union> set (cright cs)"
        using elsewhere [OF a e] absent(1) by (simp add: addrs_plug del: set_addrs_plug)
      then show False
        using absent(2) e by (auto simp: db_order.between_def)
    qed
    then show ?thesis
      using absent by auto
  qed
qed

lemma cores_some: "h a = Some n \<Longrightarrow> cores h a = Some (key_at h a, dn_data n, dn_deleted n)"
  by (simp add: cores_def core_def key_at_def)

text \<open>What the map says of a key, by the node that has it.\<close>

lemma db_abs_node:
  assumes F: "forest (m_type db) (m_maxlen db) (m_nodes db) (m_ht db) ts" and A: "db_abs db m"
    and z: "m_nodes db z = Some n" "db_norm (m_type db) (key_at (m_nodes db) z) = k"
  shows "m k = (if dn_deleted n then None else Some (key_at (m_nodes db) z, dn_data n))"
proof (cases "dn_deleted n")
  case True
  have "m k \<noteq> Some (key, data)" for key data
  proof
    assume "m k = Some (key, data)"
    then obtain a where a: "cores (m_nodes db) a = Some (key, data, False)" "db_norm (m_type db) key = k"
      using A unfolding db_abs_def by blast
    then obtain n' where n': "m_nodes db a = Some n'" "key_at (m_nodes db) a = key" "\<not> dn_deleted n'"
      by (auto simp: cores_def core_def key_at_def)
    then have "a = z"
      using forest_unique [OF F, of a z] z a by (auto simp: dom_def)
    then show False
      using z True n' by simp
  qed
  then show ?thesis
    using True by (cases "m k") auto
next
  case False
  then show ?thesis
    using A z cores_some [of "m_nodes db" z n] unfolding db_abs_def by auto
qed

lemma db_abs_absent:
  assumes A: "db_abs db m" and none: "\<forall>a \<in> dom (m_nodes db). db_norm (m_type db) (key_at (m_nodes db) a) \<noteq> k"
  shows "m k = None"
proof (cases "m k")
  case (Some kd)
  then obtain a where "cores (m_nodes db) a = Some (fst kd, snd kd, False)" "db_norm (m_type db) (fst kd) = k"
    using A unfolding db_abs_def by (cases kd) auto
  then show ?thesis
    using none by (auto simp: cores_def core_def key_at_def dom_def)
qed

text \<open>The cache is a node of the database that is not removed, or null.\<close>

lemma cache_hit_ok:
  assumes F: "forest (m_type db) (m_maxlen db) (m_nodes db) (m_ht db) ts"
    and c: "m_cache db = 0 \<or> m_cache db \<in> live (m_nodes db)" and k: "key \<in> db_keys (m_type db) (m_maxlen db)"
  shows "\<exists>hit. cache_hit key db = Some hit \<and> (hit \<longrightarrow> m_cache db \<in> live (m_nodes db) \<and>
    db_norm (m_type db) (key_at (m_nodes db) (m_cache db)) = db_norm (m_type db) key)"
proof (cases "m_cache db = 0")
  case True
  then show ?thesis
    by (intro exI [of _ False]) (simp add: cache_hit_def)
next
  case False
  then have L: "m_cache db \<in> live (m_nodes db)"
    using c by simp
  then obtain n where n: "m_nodes db (m_cache db) = Some n"
    by (auto simp: live_def)
  have k': "dn_key n \<in> db_keys (m_type db) (m_maxlen db)" "key_at (m_nodes db) (m_cache db) = dn_key n"
    using forest_key [OF F, of "m_cache db"] n by (auto simp: key_at_def)
  obtain c where "db_default_cmp (m_type db) key (dn_key n) (m_maxlen db) = Some c"
      "c = 0 \<longleftrightarrow> db_norm (m_type db) key = db_norm (m_type db) (dn_key n)"
    using db_order.cmp_some [OF k k'(1)] db_order.cmp_eq [OF k k'(1)] by blast
  then show ?thesis
    using False L n k' by (auto simp: cache_hit_def db_cmp_def)
qed

end
