(* ===== verification/DbOps.thy ===== *)
theory DbOps imports DbUnlock begin

text \<open>
  The operations of a database keep its invariant and refine a map from keys to entries.
\<close>

section \<open>Reading\<close>

lemma db_ok_inv: "db_ok db \<Longrightarrow> db_inv (m_free_list db) db"
  by (simp add: db_ok_def)

lemma db_invE:
  assumes "db_inv fs db"
  obtains ts where "forest (m_type db) (m_maxlen db) (m_nodes db) (m_ht db) ts"
    "distinct (List.map fst fs)" "fst ` set fs = dead (m_nodes db)"
    "\<And>a r. (a, r) \<in> set fs \<Longrightarrow> r < HASH_SIZE \<and> a \<in> set (addrs (ts r))"
    "m_cache db = 0 \<or> m_cache db \<in> live (m_nodes db)" "unat (m_item_count db) = card (live (m_nodes db))"
  using assms unfolding db_inv_def by blast

lemma lock_neq: "(lock :: 32 word) \<noteq> - 1 \<Longrightarrow> lock + 1 \<noteq> 0"
  by (metis add.inverse_inverse eq_neg_iff_add_eq_0)

text \<open>The end of an operation that took a lock.\<close>

lemma unlocked:
  assumes "db_inv (m_free_list db2) db2" "m_free_lock db2 = m_free_lock db + 1" "m_free_lock db \<noteq> - 1" "same_conf db db2"
  shows "\<exists>db'. db_free_unlock db2 = Some db' \<and> db_ok db' \<and> same_conf db db' \<and> same_live (m_nodes db2) (m_nodes db') \<and>
    m_cache db' = m_cache db2 \<and> m_item_count db' = m_item_count db2 \<and> m_free_lock db' = m_free_lock db"
proof -
  obtain db' where db': "db_free_unlock db2 = Some db'" "db_ok db'" "same_conf db2 db'" "same_live (m_nodes db2) (m_nodes db')"
     "m_cache db' = m_cache db2" "m_item_count db' = m_item_count db2"
     "m_free_lock db' = (if m_free_lock db2 = 0 then 0 else m_free_lock db2 - 1)"
    using db_free_unlock_ok [OF assms(1)] by blast
  then have "m_free_lock db' = m_free_lock db"
    using assms(2) lock_neq [OF assms(3)] by simp
  then show ?thesis
    using db' same_conf_trans [OF assms(4) db'(3)] by (intro exI [of _ db']) simp
qed

text \<open>A lookup, with the cache or with a search: the entry of the key, if there is one.\<close>

definition lookup_ok :: "db_key \<Rightarrow> (int list \<rightharpoonup> db_key \<times> db_data) \<Rightarrow> nat \<Rightarrow> dbmap \<Rightarrow> dbmap \<Rightarrow> bool" where
  "lookup_ok key m p db db' \<longleftrightarrow> db_ok db' \<and> db_abs db' m \<and> same_conf db db' \<and> m_free_lock db' = m_free_lock db \<and>
     (case m (db_norm (m_type db) key) of
        None \<Rightarrow> p = 0
      | Some (k, d) \<Rightarrow> p \<noteq> 0 \<and> cores (m_nodes db') p = Some (k, d, False))"

lemma forest_nonzero: "forest ty n h ht ts \<Longrightarrow> a \<in> dom h \<Longrightarrow> a \<noteq> 0"
  using forest_dom [of ty n h ht ts a] rep_0 [of h 0] unfolding forest_def bucket_ok_def by metis

lemma live_node_entry:
  assumes F: "forest (m_type db) (m_maxlen db) (m_nodes db) (m_ht db) ts" and A: "db_abs db m"
    and z: "z \<in> live (m_nodes db)" "db_norm (m_type db) (key_at (m_nodes db) z) = k"
  shows "\<exists>d. m k = Some (key_at (m_nodes db) z, d) \<and> cores (m_nodes db) z = Some (key_at (m_nodes db) z, d, False) \<and> z \<noteq> 0"
proof -
  obtain n where n: "m_nodes db z = Some n" "\<not> dn_deleted n"
    using z(1) by (auto simp: live_def)
  have "z \<noteq> 0"
    using forest_nonzero [OF F, of z] n by auto
  then show ?thesis
    using db_abs_node [OF F A n(1) z(2)] n cores_some [of "m_nodes db" z n] by simp
qed

lemma found_or_absent:
  assumes F: "forest (m_type db) (m_maxlen db) (m_nodes db) (m_ht db) ts"
    and k: "key \<in> db_keys (m_type db) (m_maxlen db)" and A: "db_abs db m"
    and i: "hash_of (m_type db) (m_maxlen db) key = Some i" "i < HASH_SIZE"
  shows "\<exists>z p c. db_find db key i = Some (z, p, c) \<and> (z = 0 \<and> m (db_norm (m_type db) key) = None \<or>
    z \<noteq> 0 \<and> z \<in> dom (m_nodes db) \<and> db_norm (m_type db) (key_at (m_nodes db) z) = db_norm (m_type db) key)"
  using db_find_ok [OF F k i] db_abs_absent [OF A] by metis

lemma get_search:
  assumes ok: "db_ok db" and A: "db_abs db m" and k: "key \<in> db_keys (m_type db) (m_maxlen db)" and l: "m_free_lock db \<noteq> - 1"
  shows "\<exists>p db'. do {
       db \<leftarrow> db_free_lock db;
       i \<leftarrow> db_hash db key;
       (node, _, _) \<leftarrow> db_find db key i;
       (node, db) \<leftarrow> db_live node db;
       db \<leftarrow> db_free_unlock db;
       Some (node, db) } = Some (p, db') \<and> lookup_ok key m p db db'"
proof -
  let ?k = "db_norm (m_type db) key"
  let ?db = "db\<lparr>m_free_lock := m_free_lock db + 1\<rparr>"
  obtain i where i: "hash_of (m_type db) (m_maxlen db) key = Some i" "i < HASH_SIZE"
    using hash_of_some [OF k] .
  have I: "db_inv (m_free_list ?db) ?db"
    using db_ok_inv [OF ok] by (simp add: db_inv_def)
  then obtain ts where F: "forest (m_type ?db) (m_maxlen ?db) (m_nodes ?db) (m_ht ?db) ts"
    unfolding db_inv_def by blast
  have A': "db_abs ?db m"
    using A by (simp add: db_abs_def)
  have lk: "db_free_lock db = Some ?db" and hs: "db_hash ?db key = Some i"
    using l i by (simp_all add: db_free_lock_def db_hash_of)
  have sc: "same_conf db ?db"
    by (simp add: same_conf_def)
  obtain z p0 c0 where find: "db_find ?db key i = Some (z, p0, c0)"
    and z: "z = 0 \<and> m ?k = None \<or> (z \<noteq> 0 \<and> z \<in> dom (m_nodes db) \<and> db_norm (m_type db) (key_at (m_nodes db) z) = ?k)"
    using found_or_absent [OF F _ A', of key i] k i by auto
  define db2 where "db2 = (if z \<noteq> 0 \<and> z \<in> live (m_nodes db) then ?db\<lparr>m_cache := z\<rparr> else ?db)"
  define p where "p = (if z \<in> live (m_nodes db) then z else 0)"
  have dl: "db_live z ?db = Some (p, db2)"
    using z by (auto simp: db_live_def db2_def p_def live_def)
  have I2: "db_inv (m_free_list db2) db2"
    using I by (auto simp: db2_def db_inv_def)
  moreover have "m_free_lock db2 = m_free_lock db + 1" "same_conf db db2" "m_nodes db2 = m_nodes db"
    by (simp_all add: db2_def same_conf_def)
  ultimately obtain db' where db': "db_free_unlock db2 = Some db'" "db_ok db'" "same_conf db db'" "same_live (m_nodes db) (m_nodes db')"
     "m_free_lock db' = m_free_lock db"
    using unlocked [OF I2 _ l] by metis
  have "db_abs db' m"
    using same_live_abs [OF db'(4)] db'(3) A by (simp add: same_conf_def)
  moreover have "case m ?k of None \<Rightarrow> p = 0 | Some (k, d) \<Rightarrow> p \<noteq> 0 \<and> cores (m_nodes db) p = Some (k, d, False)"
  proof (cases "z \<in> live (m_nodes db)")
    case True
    then have "db_norm (m_type db) (key_at (m_nodes db) z) = ?k"
      using z live_node_entry [of ?db ts m 0] F A' by auto
    then show ?thesis
      using live_node_entry [of ?db ts m z ?k] F A' True by (auto simp: p_def)
  next
    case False
    then have "m ?k = None"
      using z db_abs_node [of ?db ts m z _ ?k] F A' by (auto simp: live_def)
    then show ?thesis
      using False by (simp add: p_def)
  qed
  ultimately have "lookup_ok key m p db db'"
    using db' unfolding lookup_ok_def same_live_def by (auto split: option.splits)
  then show ?thesis
    using lk hs find dl db'(1) by auto
qed

lemma cache_lookup:
  assumes ok: "db_ok db" and A: "db_abs db m" and k: "key \<in> db_keys (m_type db) (m_maxlen db)"
  shows "\<exists>hit. cache_hit key db = Some hit \<and> (hit \<longrightarrow> lookup_ok key m (m_cache db) db db)"
proof -
  obtain ts where F: "forest (m_type db) (m_maxlen db) (m_nodes db) (m_ht db) ts" and c: "m_cache db = 0 \<or> m_cache db \<in> live (m_nodes db)"
    using db_ok_inv [OF ok] unfolding db_inv_def by blast
  obtain hit where hit: "cache_hit key db = Some hit" "hit \<Longrightarrow> m_cache db \<in> live (m_nodes db)"
      "hit \<Longrightarrow> db_norm (m_type db) (key_at (m_nodes db) (m_cache db)) = db_norm (m_type db) key"
    using cache_hit_ok [OF F c k] by blast
  have "lookup_ok key m (m_cache db) db db" if hit
    using live_node_entry [OF F A hit(2,3)] that ok A by (auto simp: lookup_ok_def)
  then show ?thesis
    using hit(1) by blast
qed

lemma keys_not_null:
  assumes "key \<in> db_keys (m_type db) n"
  shows "\<not> null_key_refused key db"
proof -
  have "key \<noteq> Key_str None"
    using assms by (cases "m_type db") auto
  then have "\<not> db_is_key_null (m_type db) key"
    by (cases "m_type db") simp_all
  then show ?thesis
    by (simp add: null_key_refused_def)
qed

lemma get_ok:
  assumes ok: "db_ok db" and A: "db_abs db m" and k: "key \<in> db_keys (m_type db) (m_maxlen db)" and l: "m_free_lock db \<noteq> - 1"
  shows "\<exists>p db'. db_obj_get key db = Some (p, db') \<and> lookup_ok key m p db db'"
proof -
  obtain hit where hit: "cache_hit key db = Some hit" "hit \<Longrightarrow> lookup_ok key m (m_cache db) db db"
    using cache_lookup [OF ok A k] by blast
  show ?thesis
    using hit get_search [OF ok A k l] keys_not_null [OF k] by (cases hit) (simp_all add: db_obj_get_def)
qed

lemma exists_ok:
  assumes ok: "db_ok db" and A: "db_abs db m" and k: "key \<in> db_keys (m_type db) (m_maxlen db)" and l: "m_free_lock db \<noteq> - 1"
  shows "\<exists>db'. db_obj_exists key db = Some (m (db_norm (m_type db) key) \<noteq> None, db') \<and> db_ok db' \<and> db_abs db' m \<and>
    same_conf db db' \<and> m_free_lock db' = m_free_lock db"
proof -
  let ?E = "m (db_norm (m_type db) key) \<noteq> None"
  obtain hit where hit: "cache_hit key db = Some hit" "hit \<Longrightarrow> lookup_ok key m (m_cache db) db db"
    using cache_lookup [OF ok A k] by blast
  obtain p db' where p: "do {
       db \<leftarrow> db_free_lock db;
       i \<leftarrow> db_hash db key;
       (node, _, _) \<leftarrow> db_find db key i;
       (node, db) \<leftarrow> db_live node db;
       db \<leftarrow> db_free_unlock db;
       Some (node, db) } = Some (p, db')" "lookup_ok key m p db db'"
    using get_search [OF ok A k l] by blast
  have p0: "p \<noteq> 0 \<longleftrightarrow> ?E"
    using p(2) by (auto simp: lookup_ok_def split: option.splits)
  show ?thesis
  proof (cases hit)
    case True
    have "m_cache db \<noteq> 0"
      using hit(1) True by (simp add: cache_hit_def split: if_split_asm)
    then have h: "?E" "db_obj_exists key db = Some (True, db)"
      using hit True keys_not_null [OF k] by (auto simp: lookup_ok_def db_obj_exists_def split: option.splits)
    then show ?thesis
      using ok A by (intro exI [of _ db]) simp
  next
    case False
    have "db_obj_exists key db = do {
       (node, db) \<leftarrow> do {
         db \<leftarrow> db_free_lock db;
         i \<leftarrow> db_hash db key;
         (node, _, _) \<leftarrow> db_find db key i;
         (node, db) \<leftarrow> db_live node db;
         db \<leftarrow> db_free_unlock db;
         Some (node, db) };
       Some (node \<noteq> 0, db) }"
      using hit False keys_not_null [OF k] by (simp add: db_obj_exists_def case_prod_unfold)
    then show ?thesis
      using p p0 by (intro exI [of _ db']) (simp add: lookup_ok_def)
  qed
qed

section \<open>Writing a node\<close>

lemma rep_same:
  assumes "h z = Some n" "dn_parent n' = dn_parent n" "dn_left n' = dn_left n" "dn_right n' = dn_right n" "dn_color n' = dn_color n"
  shows "rep (h(z \<mapsto> n')) pa t = rep h pa t"
  using assms by (induction h pa t rule: rep.induct) auto

text \<open>Writing key, data and the removed flag of a node, with a key that compares equal.\<close>

lemma forest_write:
  assumes F: "forest ty n h ht ts" and z: "h z = Some nd"
    and t: "dn_parent nd' = dn_parent nd" "dn_left nd' = dn_left nd" "dn_right nd' = dn_right nd" "dn_color nd' = dn_color nd"
    and k: "dn_key nd' \<in> db_keys ty n" "db_norm ty (dn_key nd') = db_norm ty (key_at h z)"
  shows "forest ty n (h(z \<mapsto> nd')) ht ts"
proof -
  have h: "hash_of ty n (dn_key nd') = hash_of ty n (key_at h z)"
    using db_order.hash_eq [OF k(1) forest_key [OF F domI [of h z nd, OF z]] k(2)] by (simp add: hash_of_def)
  have n: "db_norm ty (key_at (h(z \<mapsto> nd')) a) = db_norm ty (key_at h a)" for a
    using k(2) by (simp add: key_at_def)
  have "bucket_ok ty n (h(z \<mapsto> nd')) i (ht ! i) (ts i)" if "i < HASH_SIZE" for i
    using F that h k(1) unfolding forest_def bucket_ok_def n rep_same [of h z nd nd', OF z t] by (auto simp: key_at_def)
  then show ?thesis
    using F z by (auto simp: forest_def)
qed

lemma dup_key_id:
  assumes "key \<in> db_keys (m_type db) (m_maxlen db)"
  shows "db_dup_key db key = Some key"
  using assms by (cases "m_type db") (auto simp: db_dup_key_def is_str_type_def)

lemma put_key_ok:
  assumes k: "key \<in> db_keys (m_type db) (m_maxlen db)" and z: "m_nodes db z = Some n"
  shows "\<exists>fr. put_key z key data db = Some (db\<lparr>m_nodes := (m_nodes db)(z \<mapsto> n\<lparr>dn_key := key\<rparr>), m_freed := fr\<rparr>)"
proof (cases "db_opt db DB_OPT_DUP_KEY \<and> db_opt db DB_OPT_RELEASE_KEY")
  case True
  then show ?thesis
    using dup_key_id [OF k] z unfolding put_key_def
    by (intro exI [of _ "m_freed db @ releases (m_release db) key data DB_RELEASE_KEY"])
      (simp add: upd_nodes_def upd_node_def db_release_def db_opt_def)
next
  case False
  then show ?thesis
    using dup_key_id [OF k] z unfolding put_key_def
    by (intro exI [of _ "m_freed db"]) (auto simp add: upd_nodes_def upd_node_def db_opt_def)
qed

lemma finite_forest: "forest ty n h ht ts \<Longrightarrow> finite (dom h)"
  by (simp add: forest_def)

lemma live_dom: "live h \<subseteq> dom h" "dead h \<subseteq> dom h"
  by (auto simp: live_def dead_def)

text \<open>An entry written into a node: the map at its key.\<close>

lemma db_abs_write:
  assumes A: "db_abs db m" and c: "cores (m_nodes db') = (cores (m_nodes db))(z \<mapsto> (key, data, False))" "m_type db' = m_type db"
    and only: "\<And>a. a \<in> dom (m_nodes db) \<Longrightarrow> db_norm (m_type db) (key_at (m_nodes db) a) = db_norm (m_type db) key \<Longrightarrow> a = z"
    and old: "z \<in> dom (m_nodes db) \<Longrightarrow> db_norm (m_type db) (key_at (m_nodes db) z) = db_norm (m_type db) key"
  shows "db_abs db' (m(db_norm (m_type db) key \<mapsto> (key, data)))"
proof -
  have key: "key_at (m_nodes db) a = k \<and> a \<in> dom (m_nodes db)" if "cores (m_nodes db) a = Some (k, d, e)" for a k d e
    using that by (auto simp: cores_def core_def key_at_def)
  have az: "a = z" if "cores (m_nodes db) a = Some (k, d, e)" "db_norm (m_type db) k = db_norm (m_type db) key" for a k d e
    using key [OF that(1)] that(2) by (intro only) auto
  show ?thesis
    unfolding db_abs_def
  proof (intro allI)
    fix k key' data'
    show "(m(db_norm (m_type db) key \<mapsto> (key, data))) k = Some (key', data') \<longleftrightarrow>
       (\<exists>a. cores (m_nodes db') a = Some (key', data', False) \<and> db_norm (m_type db') key' = k)"
    proof (cases "k = db_norm (m_type db) key")
      case True
      then show ?thesis
        using c az by (auto split: if_split_asm)
    next
      case False
      then have "m k = Some (key', data') \<longleftrightarrow> (\<exists>a. cores (m_nodes db) a = Some (key', data', False) \<and> db_norm (m_type db) key' = k)"
        using A unfolding db_abs_def by blast
      moreover have "a \<noteq> z" if "cores (m_nodes db) a = Some (key', data', False)" "db_norm (m_type db) key' = k" for a
        using key [OF that(1)] old that(2) False by auto
      ultimately show ?thesis
        using False c by (auto split: if_split_asm)
    qed
  qed
qed

end
