(* ===== verification/DbWrite.thy ===== *)
theory DbWrite imports DbOps begin

text \<open>
  The nodes that an insertion writes: a new node, a node that is revived or replaced.
\<close>

section \<open>A new node\<close>

lemma plug_leaf_new:
  assumes h: "rep h 0 (plug cs Leaf)" "distinct (addrs (plug cs Leaf))" and f: "fresh \<noteq> 0" "fresh \<notin> set (caddrs cs)"
    and p: "cs = Fr d p k s # cs'"
    and nd: "dn_parent nd = p" "dn_left nd = 0" "dn_right nd = 0" "dn_color nd = RED"
  shows "\<exists>h'. upd_node p (set_child d fresh) (h(fresh \<mapsto> nd)) = Some h' \<and>
    ok h' (insert fresh (set (caddrs cs))) (h', ptr (plug cs Leaf)) (plug cs (Node Leaf (fresh, RED) Leaf)) \<and>
    (\<forall>a. a \<noteq> fresh \<longrightarrow> a \<noteq> p \<longrightarrow> h' a = h a) \<and> cores h' = cores (h(fresh \<mapsto> nd)) \<and> (\<exists>m. h' p = Some m \<and> dn_color m = k)"
proof -
  have c: "repc h 0 cs"
    using h(1) by (simp add: rep_plug)
  obtain m where m: "h p = Some m" "dn_parent m = cpar cs'" "child d m = 0" "child (opp d) m = ptr s" "dn_color m = k"
     "rep h p s" "repc h p cs'" "p \<noteq> 0"
    using c p by auto
  have dis: "p \<noteq> fresh" "p \<notin> set (addrs s)" "p \<notin> set (caddrs cs')" "fresh \<notin> set (addrs s)" "fresh \<notin> set (caddrs cs')"
     "distinct (caddrs cs)"
    using h(2) f(2) p by auto
  define h' where "h' = h(fresh \<mapsto> nd, p \<mapsto> set_child d fresh m)"
  have "rep h' p s" "repc h' p cs'"
    using m dis by (simp_all add: h'_def)
  then have "repc h' fresh cs"
    using m p dis by (simp add: h'_def)
  moreover have "rep h' (cpar cs) (Node Leaf (fresh, RED) Leaf)"
    using nd f p dis by (simp add: h'_def)
  ultimately have "ok h' (insert fresh (set (caddrs cs))) (h', ptr (plug cs Leaf)) (plug cs (Node Leaf (fresh, RED) Leaf))"
    using dis(6) f p unfolding ok_plug by (simp add: ptr_plug insert_commute)
  then show ?thesis
    using m dis by (intro exI [of _ h']) (simp add: h'_def upd_node_def)
qed

lemma new_node_ok:
  assumes t: "m_ht db ! i = ptr (plug cs Leaf)" "rep (m_nodes db) 0 (plug cs Leaf)" "distinct (addrs (plug cs Leaf))" "rbt (plug cs Leaf)"
    and f: "fresh \<noteq> 0" "fresh \<notin> dom (m_nodes db)" "set (caddrs cs) \<subseteq> dom (m_nodes db)" and p: "at_pos cs p c"
  shows "\<exists>h T. new_node fresh p c i db =
      Some (db\<lparr>m_item_count := m_item_count db + 1, m_nodes := h, m_ht := (m_ht db)[i := ptr T]\<rparr>) \<and>
    rep h 0 T \<and> distinct (addrs T) \<and> rbt T \<and> addrs T = cleft cs @ fresh # cright cs \<and>
    (\<forall>a. a \<notin> insert fresh (set (caddrs cs)) \<longrightarrow> h a = m_nodes db a) \<and>
    cores h = (cores (m_nodes db))(fresh \<mapsto> (Key_i 0, DB_DATA_INT 0, False))"
proof -
  let ?node = "\<lparr>dn_parent = 0, dn_left = 0, dn_right = 0, dn_key = Key_i 0, dn_data = DB_DATA_INT 0, dn_color = BLACK, dn_deleted = False\<rparr>"
  have f': "fresh \<notin> set (caddrs cs)"
    using f by blast
  have core: "cores ((m_nodes db)(fresh \<mapsto> n)) = (cores (m_nodes db))(fresh \<mapsto> core n)" for n
    by (auto simp: cores_def)
  show ?thesis
  proof (cases cs rule: cpar.cases)
    case 1
    have "rep ((m_nodes db)(fresh \<mapsto> ?node)) 0 (Node Leaf (fresh, BLACK) Leaf)" "rbt (Node Leaf (fresh, BLACK) Leaf)"
      using f(1) by (simp_all add: rbt_def)
    then show ?thesis
      using 1 p core by (intro exI [of _ "(m_nodes db)(fresh \<mapsto> ?node)"] exI [of _ "Node Leaf (fresh, BLACK) Leaf"])
        (simp add: new_node_def core_def)
  next
    case (2 d q k s cs')
    let ?nd = "?node\<lparr>dn_color := RED, dn_parent := p\<rparr>" and ?N = "Node Leaf (fresh, RED) Leaf :: rbtree"
    have q: "p = q" "c \<noteq> 0" "c < 0 \<longleftrightarrow> d = Lft"
      using p 2 by auto
    obtain h1 where h1: "upd_node q (set_child d fresh) ((m_nodes db)(fresh \<mapsto> ?nd)) = Some h1"
       "ok h1 (insert fresh (set (caddrs cs))) (h1, ptr (plug cs Leaf)) (plug cs ?N)"
       "\<And>a. a \<noteq> fresh \<Longrightarrow> a \<noteq> q \<Longrightarrow> h1 a = m_nodes db a" "cores h1 = cores ((m_nodes db)(fresh \<mapsto> ?nd))"
       "\<exists>m. h1 q = Some m \<and> dn_color m = k"
      using plug_leaf_new [OF t(2,3) f(1) f' 2, of ?nd] q by auto
    have sc: "(\<lambda>n. if c < 0 then n\<lparr>dn_left := fresh\<rparr> else n\<lparr>dn_right := fresh\<rparr>) = set_child d fresh"
      using q(3) by (cases d) auto
    have run: "new_node fresh p c i db = do {
        (h, root) \<leftarrow> (if k = RED then db_rebalance fresh (h1, m_ht db ! i) else Some (h1, m_ht db ! i));
        Some (db\<lparr>m_item_count := m_item_count db + 1, m_nodes := h, m_ht := (m_ht db)[i := root]\<rparr>) }"
      using h1(1,5) q unfolding sc [symmetric] by (auto simp: new_node_def Let_def)
    have a1: "addrs (plug cs ?N) = cleft cs @ fresh # cright cs"
      by (simp add: addrs_plug)
    obtain h T where h: "(if k = RED then db_rebalance fresh (h1, m_ht db ! i) else Some (h1, m_ht db ! i)) = Some (h, ptr T)"
      "ok h1 (insert fresh (set (caddrs cs))) (h, ptr T) T" "rbt T" "addrs T = addrs (plug cs ?N)"
    proof (cases k)
      case RED
      then show thesis
        using db_rebalance_ok [OF h1(2) t(4)] t(1) that by (auto simp: ok_def)
    next
      case BLACK
      then have "rbt (plug cs ?N)"
        using t(4) 2 unfolding rbt_plug by simp
      moreover have "ptr (plug cs ?N) = ptr (plug cs Leaf)"
        using 2 by (simp add: ptr_plug)
      ultimately show thesis
        using that [of h1 "plug cs ?N"] h1(2) t(1) BLACK by simp
    qed
    have "cores h = (cores (m_nodes db))(fresh \<mapsto> (Key_i 0, DB_DATA_INT 0, False))"
      using h(2) h1(4) by (simp add: ok_def core core_def)
    moreover have "h a = m_nodes db a" if "a \<notin> insert fresh (set (caddrs cs))" for a
      using that h(2) h1(3) 2 by (simp add: ok_def)
    ultimately show ?thesis
      using run h a1 by (intro exI [of _ h] exI [of _ T]) (simp add: ok_def)
  qed
qed

section \<open>The node that is written\<close>

text \<open>The node \<open>z\<close> is in its place, its key and its data are still to be written.\<close>

definition ready :: "db_key \<Rightarrow> nat \<Rightarrow> dbmap \<Rightarrow> dbmap \<Rightarrow> bool" where
  "ready key z db db2 \<longleftrightarrow> same_conf db db2 \<and> m_free_lock db2 = m_free_lock db \<and>
     (\<exists>nd ts. m_nodes db2 z = Some nd \<and> \<not> dn_deleted nd \<and>
       (\<forall>d. forest (m_type db) (m_maxlen db) ((m_nodes db2)(z \<mapsto> nd\<lparr>dn_key := key, dn_data := d\<rparr>)) (m_ht db2) ts) \<and>
       distinct (List.map fst (m_free_list db2)) \<and> fst ` set (m_free_list db2) = dead (m_nodes db2) \<and>
       (\<forall>(a, r) \<in> set (m_free_list db2). r < HASH_SIZE \<and> a \<in> set (addrs (ts r)))) \<and>
     unat (m_item_count db2) = card (live (m_nodes db2)) \<and>
     (\<forall>a. a \<noteq> z \<longrightarrow> cores (m_nodes db2) a = cores (m_nodes db) a)"

lemma finish_put:
  assumes R: "ready key z db db2" and k: "key \<in> db_keys (m_type db) (m_maxlen db)" and A: "db_abs db m"
    and only: "\<And>a. a \<in> dom (m_nodes db) \<Longrightarrow> db_norm (m_type db) (key_at (m_nodes db) a) = db_norm (m_type db) key \<Longrightarrow> a = z"
    and old: "z \<in> dom (m_nodes db) \<Longrightarrow> db_norm (m_type db) (key_at (m_nodes db) z) = db_norm (m_type db) key"
  shows "\<exists>db3. do { db \<leftarrow> put_key z key data db2; upd_nodes z (\<lambda>n. n\<lparr>dn_data := data\<rparr>) db } = Some db3 \<and>
    db_inv (m_free_list (db3\<lparr>m_cache := z\<rparr>)) (db3\<lparr>m_cache := z\<rparr>) \<and> same_conf db db3 \<and> m_free_lock db3 = m_free_lock db \<and>
    db_abs db3 (m(db_norm (m_type db) key \<mapsto> (key, data))) \<and> cores (m_nodes db3) z = Some (key, data, False)"
proof -
  obtain nd ts where nd: "m_nodes db2 z = Some nd" "\<not> dn_deleted nd"
    and F: "forest (m_type db) (m_maxlen db) ((m_nodes db2)(z \<mapsto> nd\<lparr>dn_key := key, dn_data := data\<rparr>)) (m_ht db2) ts"
    and fl: "distinct (List.map fst (m_free_list db2))" "fst ` set (m_free_list db2) = dead (m_nodes db2)"
      "\<forall>(a, r) \<in> set (m_free_list db2). r < HASH_SIZE \<and> a \<in> set (addrs (ts r))"
    and r: "same_conf db db2" "m_free_lock db2 = m_free_lock db" "unat (m_item_count db2) = card (live (m_nodes db2))"
      "\<And>a. a \<noteq> z \<Longrightarrow> cores (m_nodes db2) a = cores (m_nodes db) a"
    using R unfolding ready_def by blast
  let ?h = "(m_nodes db2)(z \<mapsto> nd\<lparr>dn_key := key, dn_data := data\<rparr>)"
  have t: "m_type db2 = m_type db" "m_maxlen db2 = m_maxlen db"
    using r(1) by (simp_all add: same_conf_def)
  obtain fr where fr: "put_key z key data db2 = Some (db2\<lparr>m_nodes := (m_nodes db2)(z \<mapsto> nd\<lparr>dn_key := key\<rparr>), m_freed := fr\<rparr>)"
    using put_key_ok [of key db2 z nd data] k nd t by auto
  let ?db3 = "db2\<lparr>m_nodes := ?h, m_freed := fr\<rparr>"
  have run: "do { db \<leftarrow> put_key z key data db2; upd_nodes z (\<lambda>n. n\<lparr>dn_data := data\<rparr>) db } = Some ?db3"
    by (simp add: fr upd_nodes_def upd_node_def)
  have "live ?h = live (m_nodes db2)" "dead ?h = dead (m_nodes db2)" "z \<in> live ?h"
    using nd by (auto simp: live_def dead_def)
  then have "db_inv (m_free_list (?db3\<lparr>m_cache := z\<rparr>)) (?db3\<lparr>m_cache := z\<rparr>)"
    using F fl r(3) t unfolding db_inv_def by auto
  moreover have ch: "cores ?h = (cores (m_nodes db))(z \<mapsto> (key, data, False))"
    using r(4) nd(2) by (auto simp: cores_def core_def fun_eq_iff)
  then have "cores (m_nodes ?db3) = (cores (m_nodes db))(z \<mapsto> (key, data, False))" "m_type ?db3 = m_type db"
    using t by simp_all
  then have "db_abs ?db3 (m(db_norm (m_type db) key \<mapsto> (key, data)))"
    by (rule db_abs_write [OF A _ _ only old])
  moreover have "same_conf db ?db3"
    using r(1) by (simp add: same_conf_def)
  ultimately show ?thesis
    using run r(2) ch by (intro exI [of _ ?db3]) simp
qed

section \<open>The entry that was found\<close>

lemma free_index_ok: "z \<in> fst ` set fs \<Longrightarrow> free_index z fs < length fs \<and> fst (fs ! free_index z fs) = z"
  by (induction z fs rule: free_index.induct) auto

text \<open>The last item takes the place of the removed one.\<close>

lemma free_list_remove_mset:
  assumes "i < length fs"
  shows "mset (free_list_remove i fs) = mset fs - {# fs ! i #}"
proof -
  obtain ys y where fs: "fs = ys @ [y]"
    using assms by (cases fs rule: rev_cases) auto
  show ?thesis
  proof (cases "i < length ys")
    case True
    then have "free_list_remove i fs = ys[i := y]" "fs ! i = ys ! i"
      using fs by (simp_all add: free_list_remove_def list_update_append nth_append)
    then show ?thesis
      using True fs by (simp add: mset_update)
  next
    case False
    then show ?thesis
      using assms fs by (simp add: free_list_remove_def nth_append)
  qed
qed

lemma free_list_remove_ok:
  assumes d: "distinct (List.map fst fs)" and z: "z \<in> fst ` set fs"
  defines "gs \<equiv> free_list_remove (free_index z fs) fs"
  shows "set gs \<subseteq> set fs" "fst ` set gs = fst ` set fs - {z}" "distinct (List.map fst gs)"
proof -
  let ?i = "free_index z fs"
  have i: "?i < length fs" "fst (fs ! ?i) = z"
    using free_index_ok [OF z] by auto
  have m: "mset gs = mset fs - {# fs ! ?i #}"
    unfolding gs_def by (rule free_list_remove_mset [OF i(1)])
  then have m': "add_mset (fs ! ?i) (mset gs) = mset fs"
    using i(1) by simp
  have "mset (fs ! ?i # gs) = mset fs"
    using m' by simp
  then have perm: "set (fs ! ?i # gs) = set fs" "mset (List.map fst (fs ! ?i # gs)) = mset (List.map fst fs)"
    by (metis mset_eq_setD, metis mset_map)
  then have "distinct (List.map fst (fs ! ?i # gs))"
    using d mset_eq_imp_distinct_iff by blast
  then show "set gs \<subseteq> set fs" "fst ` set gs = fst ` set fs - {z}" "distinct (List.map fst gs)"
    using perm(1) [symmetric] i(2) by auto
qed

lemma card_live:
  assumes "forest ty n h ht ts"
  shows "finite (live h)"
  using finite_subset [OF live_dom(1) finite_forest [OF assms]] .

lemma unat_Suc: "(x :: 32 word) \<noteq> - 1 \<Longrightarrow> unat (x + 1) = Suc (unat x)"
  by (metis add.commute lock_neq unatSuc)

lemma put_found_dead:
  assumes I: "db_inv (m_free_list db) db" and k: "key \<in> db_keys (m_type db) (m_maxlen db)" and c: "m_item_count db \<noteq> - 1"
    and z: "m_nodes db z = Some n" "dn_deleted n" "db_norm (m_type db) (key_at (m_nodes db) z) = db_norm (m_type db) key"
  shows "\<exists>db2. put_found z db = Some (0, None, db2) \<and> ready key z db db2"
proof -
  obtain ts where F: "forest (m_type db) (m_maxlen db) (m_nodes db) (m_ht db) ts"
     and fs: "distinct (List.map fst (m_free_list db))" "fst ` set (m_free_list db) = dead (m_nodes db)"
       "\<forall>(a, r) \<in> set (m_free_list db). r < HASH_SIZE \<and> a \<in> set (addrs (ts r))"
     and ic: "unat (m_item_count db) = card (live (m_nodes db))"
    using I unfolding db_inv_def by blast
  let ?i = "free_index z (m_free_list db)" and ?n = "n\<lparr>dn_deleted := False\<rparr>"
  have zd: "z \<in> dead (m_nodes db)"
    using z by (auto simp: dead_def)
  have i: "?i < length (m_free_list db)"
    using free_index_ok [of z "m_free_list db"] zd fs(2) by simp
  let ?db2 = "(db_dup_key_free (dn_key n) (db\<lparr>m_free_list := free_list_remove ?i (m_free_list db)\<rparr>))
     \<lparr>m_nodes := (m_nodes db)(z \<mapsto> ?n), m_item_count := m_item_count db + 1\<rparr>"
  have run: "put_found z db = Some (0, None, ?db2)"
    using z i by (simp add: put_found_def db_free_remove_def upd_nodes_def upd_node_def Let_def)
  have l: "live ((m_nodes db)(z \<mapsto> ?n)) = insert z (live (m_nodes db))" "dead ((m_nodes db)(z \<mapsto> ?n)) = dead (m_nodes db) - {z}"
      "z \<notin> live (m_nodes db)"
    using z by (auto simp: live_def dead_def split: if_split_asm)
  have "forest (m_type db) (m_maxlen db) ((m_nodes db)(z \<mapsto> ?n\<lparr>dn_key := key, dn_data := d\<rparr>)) (m_ht db) ts" for d
    using forest_write [OF F z(1), of "?n\<lparr>dn_key := key, dn_data := d\<rparr>"] k z(3) by simp
  moreover have "\<forall>(a, r) \<in> set (free_list_remove ?i (m_free_list db)). r < HASH_SIZE \<and> a \<in> set (addrs (ts r))"
    using fs(3) free_list_remove_ok(1) [OF fs(1), of z] zd fs(2) by auto
  moreover have "unat (m_item_count db + 1) = card (live ((m_nodes db)(z \<mapsto> ?n)))"
    using l ic unat_Suc [OF c] card_live [OF F] by simp
  moreover have "same_conf db ?db2"
    by (simp add: same_conf_def db_dup_key_free_def)
  ultimately have "ready key z db ?db2"
    using l free_list_remove_ok [OF fs(1), of z] zd fs(2) unfolding ready_def
    by (intro conjI exI [of _ ?n] exI [of _ ts]) (simp_all add: cores_def)
  then show ?thesis
    using run by blast
qed

end
