(* ===== verification/DbPut.thy ===== *)
theory DbPut imports DbWrite begin

text \<open>
  Inserting an entry: a node that is found and a new node, and the whole operation
  (\<^verbatim>\<open>db_obj_put\<close>).
\<close>

lemma put_found_live:
  assumes I: "db_inv (m_free_list db) db" and k: "key \<in> db_keys (m_type db) (m_maxlen db)"
    and z: "m_nodes db z = Some n" "\<not> dn_deleted n" "db_norm (m_type db) (key_at (m_nodes db) z) = db_norm (m_type db) key"
  shows "\<exists>db2. put_found z db = Some (1, Some (dn_data n), db2) \<and> ready key z db db2"
proof -
  obtain ts where F: "forest (m_type db) (m_maxlen db) (m_nodes db) (m_ht db) ts"
     and fs: "distinct (List.map fst (m_free_list db))" "fst ` set (m_free_list db) = dead (m_nodes db)"
       "\<forall>(a, r) \<in> set (m_free_list db). r < HASH_SIZE \<and> a \<in> set (addrs (ts r))"
     and ic: "unat (m_item_count db) = card (live (m_nodes db))"
    using I unfolding db_inv_def by blast
  let ?db2 = "db_release (dn_key n) (dn_data n) DB_RELEASE_BOTH db"
  have run: "put_found z db = Some (1, Some (dn_data n), ?db2)"
    using z by (simp add: put_found_def)
  have eq: "m_nodes ?db2 = m_nodes db" "m_ht ?db2 = m_ht db" "m_free_list ?db2 = m_free_list db" "m_item_count ?db2 = m_item_count db"
     "m_free_lock ?db2 = m_free_lock db" "same_conf db ?db2"
    by (simp_all add: db_release_def same_conf_def)
  have "forest (m_type db) (m_maxlen db) ((m_nodes db)(z \<mapsto> n\<lparr>dn_key := key, dn_data := d\<rparr>)) (m_ht db) ts" for d
    using forest_write [OF F z(1), of "n\<lparr>dn_key := key, dn_data := d\<rparr>"] k z(3) by simp
  then have "ready key z db ?db2"
    using z fs ic unfolding ready_def eq by (intro conjI exI [of _ n] exI [of _ ts]) (simp_all add: eq(6))
  then show ?thesis
    using run by blast
qed

text \<open>A new node, with the key that belongs at its position.\<close>

lemma new_node_ready:
  assumes I: "db_inv (m_free_list db) db" and k: "key \<in> db_keys (m_type db) (m_maxlen db)" and c: "m_item_count db \<noteq> - 1"
    and F: "forest (m_type db) (m_maxlen db) (m_nodes db) (m_ht db) ts"
    and i: "hash_of (m_type db) (m_maxlen db) key = Some i" "i < HASH_SIZE"
    and pos: "ts i = plug cs Leaf" "at_pos cs p c0" "db_order.between (m_type db) (m_nodes db) (cleft cs) key (cright cs)"
    and f: "fresh \<noteq> 0" "fresh \<notin> dom (m_nodes db)"
    and fs: "distinct (List.map fst (m_free_list db))" "fst ` set (m_free_list db) = dead (m_nodes db)"
       "\<And>a r. (a, r) \<in> set (m_free_list db) \<Longrightarrow> r < HASH_SIZE \<and> a \<in> set (addrs (ts r))"
  shows "\<exists>db2. new_node fresh p c0 i db = Some db2 \<and> ready key fresh db db2"
proof -
  let ?ty = "m_type db" and ?n = "m_maxlen db" and ?H = "m_nodes db"
  have tok: "bucket_ok ?ty ?n ?H i (m_ht db ! i) (ts i)"
    using F i(2) by (simp add: forest_def)
  have T: "m_ht db ! i = ptr (plug cs Leaf)" "rep ?H 0 (plug cs Leaf)" "distinct (addrs (plug cs Leaf))" "rbt (plug cs Leaf)"
     "sorted_wrt (\<lambda>a b. db_norm ?ty (key_at ?H a) < db_norm ?ty (key_at ?H b)) (cleft cs @ cright cs)"
     "\<forall>a \<in> set (cleft cs @ cright cs). key_at ?H a \<in> db_keys ?ty ?n \<and> hash_of ?ty ?n (key_at ?H a) = Some i"
    using tok unfolding pos(1) bucket_ok_def by (simp_all add: addrs_plug [of cs Leaf] del: set_addrs_plug distinct_plug)
  have S: "set (addrs (ts i)) = set (caddrs cs)" "set (cleft cs @ cright cs) = set (caddrs cs)"
    using set_addrs_plug [of cs Leaf] addrs_plug [of cs Leaf] pos(1) by simp_all
  have sub: "set (caddrs cs) \<subseteq> dom ?H"
    using F i(2) S(1) unfolding forest_def by auto
  obtain h T' where new: "new_node fresh p c0 i db = Some (db\<lparr>m_item_count := m_item_count db + 1, m_nodes := h, m_ht := (m_ht db)[i := ptr T']\<rparr>)"
    and h: "rep h 0 T'" "distinct (addrs T')" "rbt T'" "addrs T' = cleft cs @ fresh # cright cs"
     "\<And>a. a \<notin> insert fresh (set (caddrs cs)) \<Longrightarrow> h a = ?H a"
     "cores h = (cores ?H)(fresh \<mapsto> (Key_i 0, DB_DATA_INT 0, False))"
    using new_node_ok [OF T(1-4) f sub pos(2)] by blast
  obtain nd where nd: "h fresh = Some nd" "\<not> dn_deleted nd"
    using arg_cong [OF h(6), of "\<lambda>c. c fresh"] by (auto simp: cores_def core_def)
  have domh: "dom h = insert fresh (dom ?H)"
    using arg_cong [OF h(6), of dom] by (simp add: dom_cores)
  have cf: "cores ?H fresh = None"
    using f(2) by (auto simp: cores_def)
  have live: "live h = insert fresh (live ?H)" "dead h = dead ?H" "fresh \<notin> live ?H"
    using cf by (auto simp: live_cores dead_cores h(6) split: if_split_asm)
  have "forest ?ty ?n (h(fresh \<mapsto> nd\<lparr>dn_key := key, dn_data := d\<rparr>)) ((m_ht db)[i := ptr T']) (ts(i := T'))" for d
  proof -
    let ?h = "h(fresh \<mapsto> nd\<lparr>dn_key := key, dn_data := d\<rparr>)"
    have nf: "fresh \<notin> set (cleft cs)" "fresh \<notin> set (cright cs)"
      using S(2) sub f(2) by auto
    have keys: "key_at ?h a = key_at ?H a" if "a \<in> set (cleft cs) \<union> set (cright cs)" for a
    proof -
      have a: "a \<noteq> fresh" "cores h a = cores ?H a"
        using that nf h(6) by auto
      then have "key_at ?h a = key_at h a"
        by (simp add: key_at_def)
      also have "\<dots> = key_at ?H a"
        using a(2) by (rule key_at_cores)
      finally show ?thesis .
    qed
    have kf: "key_at ?h fresh = key"
      by (simp add: key_at_def)
    have "sorted_wrt (\<lambda>a b. db_norm ?ty (key_at ?h a) < db_norm ?ty (key_at ?h b)) (addrs T')"
    proof -
      have "sorted_wrt (\<lambda>a b. db_norm ?ty (key_at ?h a) < db_norm ?ty (key_at ?h b)) (cleft cs @ cright cs)"
        using T(5) by (elim sorted_wrt_mono_rel [rotated]) (simp add: keys)
      then show ?thesis
        using pos(3) keys kf unfolding h(4) db_order.between_def by (auto simp: sorted_wrt_append)
    qed
    moreover have "\<forall>a \<in> set (addrs T'). key_at ?h a \<in> db_keys ?ty ?n \<and> hash_of ?ty ?n (key_at ?h a) = Some i"
      using T(6) keys kf k i(1) unfolding h(4) by auto
    moreover have "rep ?h 0 T'"
      using h(1) rep_same [of h fresh nd "nd\<lparr>dn_key := key, dn_data := d\<rparr>" 0 T'] nd by simp
    ultimately have "bucket_ok ?ty ?n ?h i (ptr T') T'"
      using h(2,3) by (simp add: bucket_ok_def)
    moreover have "set (addrs T') = insert fresh (set (addrs (ts i)))"
      unfolding h(4) using S by auto
    ultimately show ?thesis
      using h(5) S(1) f(2) domh sub by (intro forest_update [OF F i(2)]) auto
  qed
  moreover have "unat (m_item_count db + 1) = card (live h)"
    using live unat_Suc [OF c] card_live [OF F] I unfolding db_inv_def by auto
  moreover have "\<forall>(a, r) \<in> set (m_free_list db). r < HASH_SIZE \<and> a \<in> set (addrs ((ts(i := T')) r))"
    using fs(3) S h(4) by auto
  ultimately have "ready key fresh db (db\<lparr>m_item_count := m_item_count db + 1, m_nodes := h, m_ht := (m_ht db)[i := ptr T']\<rparr>)"
    using nd live fs h(6) unfolding ready_def
    by (intro conjI exI [of _ nd] exI [of _ "ts(i := T')"]) (simp_all add: same_conf_def)
  then show ?thesis
    using new by blast
qed

section \<open>The operation\<close>

text \<open>The search and what follows from its result.\<close>

lemma put_step:
  assumes I: "db_inv (m_free_list db) db" and A: "db_abs db m" and k: "key \<in> db_keys (m_type db) (m_maxlen db)"
    and f: "fresh \<noteq> 0" "fresh \<notin> dom (m_nodes db)" and c: "m_item_count db \<noteq> - 1"
    and i: "hash_of (m_type db) (m_maxlen db) key = Some i" "i < HASH_SIZE"
  defines "k' \<equiv> db_norm (m_type db) key"
  shows "\<exists>node p c0 db2. db_find db key i = Some (node, p, c0) \<and>
    (if node \<noteq> 0 then put_found node db else do { db \<leftarrow> new_node fresh p c0 i db; Some (0, None, db) }) =
       Some (if m k' = None then 0 else 1, map_option snd (m k'), db2) \<and>
    ready key (if node \<noteq> 0 then node else fresh) db db2 \<and>
    (\<forall>a \<in> dom (m_nodes db). db_norm (m_type db) (key_at (m_nodes db) a) = k' \<longleftrightarrow> a = (if node \<noteq> 0 then node else fresh))"
proof -
  obtain ts where F: "forest (m_type db) (m_maxlen db) (m_nodes db) (m_ht db) ts"
    and fs: "distinct (List.map fst (m_free_list db))" "fst ` set (m_free_list db) = dead (m_nodes db)"
       "\<forall>(a, r) \<in> set (m_free_list db). r < HASH_SIZE \<and> a \<in> set (addrs (ts r))"
    using I unfolding db_inv_def by blast
  from db_find_ok [OF F k i] show ?thesis
  proof (elim disjE exE conjE)
    fix z p
    assume z: "db_find db key i = Some (z, p, 0)" "z \<noteq> 0" "z \<in> dom (m_nodes db)"
      "db_norm (m_type db) (key_at (m_nodes db) z) = db_norm (m_type db) key"
    obtain n where n: "m_nodes db z = Some n"
      using z(3) by auto
    have m: "m k' = (if dn_deleted n then None else Some (key_at (m_nodes db) z, dn_data n))"
      using db_abs_node [OF F A n z(4)] by (simp add: k'_def)
    obtain db2 where "put_found z db = Some (if m k' = None then 0 else 1, map_option snd (m k'), db2)" "ready key z db db2"
    proof (cases "dn_deleted n")
      case True
      then show thesis
        using put_found_dead [OF I k c n _ z(4)] m that by auto
    next
      case False
      then show thesis
        using put_found_live [OF I k n _ z(4)] m that by auto
    qed
    moreover have "\<forall>a \<in> dom (m_nodes db). db_norm (m_type db) (key_at (m_nodes db) a) = k' \<longleftrightarrow> a = z"
      using forest_unique [OF F _ z(3)] z(4) by (auto simp: k'_def)
    ultimately show ?thesis
      using z(1,2) by (intro exI [of _ z] exI [of _ p] exI [of _ 0] exI [of _ db2]) simp
  next
    fix cs p c0
    assume p: "db_find db key i = Some (0, p, c0)" "ts i = plug cs Leaf" "at_pos cs p c0"
      "db_order.between (m_type db) (m_nodes db) (cleft cs) key (cright cs)"
      "\<forall>a \<in> dom (m_nodes db). db_norm (m_type db) (key_at (m_nodes db) a) \<noteq> db_norm (m_type db) key"
    have m: "m k' = None"
      using db_abs_absent [OF A p(5)] by (simp add: k'_def)
    obtain db2 where "new_node fresh p c0 i db = Some db2" "ready key fresh db db2"
      using new_node_ready [OF I k c F i p(2,3,4) f fs(1,2)] fs(3) by blast
    then show ?thesis
      using p(1,5) f(2) m by (intro exI [of _ 0] exI [of _ p] exI [of _ c0] exI [of _ db2]) (auto simp: k'_def)
  qed
qed

text \<open>The whole of \<open>put\<close>: the map gets the entry, the previous data is returned.\<close>

lemma put_ok:
  assumes ok: "db_ok db" and A: "db_abs db m" and k: "key \<in> db_keys (m_type db) (m_maxlen db)" and l: "m_free_lock db \<noteq> - 1"
    and f: "fresh \<noteq> 0" "fresh \<notin> dom (m_nodes db)" and r: "\<not> put_refused key data db"
  shows "\<exists>db'. db_obj_put fresh key data db =
      Some (if m (db_norm (m_type db) key) = None then 0 else 1, map_option snd (m (db_norm (m_type db) key)), db') \<and>
    db_ok db' \<and> db_abs db' (m(db_norm (m_type db) key \<mapsto> (key, data))) \<and> same_conf db db' \<and> m_free_lock db' = m_free_lock db"
proof -
  let ?k = "db_norm (m_type db) key" and ?db = "db\<lparr>m_free_lock := m_free_lock db + 1\<rparr>"
  obtain i where i: "hash_of (m_type db) (m_maxlen db) key = Some i" "i < HASH_SIZE"
    using hash_of_some [OF k] .
  have I: "db_inv (m_free_list ?db) ?db"
    using db_ok_inv [OF ok] by (simp add: db_inv_def)
  have A': "db_abs ?db m"
    using A by (simp add: db_abs_def)
  have c: "m_item_count ?db \<noteq> - 1"
    using r by (simp add: put_refused_def)
  have lk: "db_free_lock db = Some ?db" and hs: "db_hash ?db key = Some i"
    using l i by (simp_all add: db_free_lock_def db_hash_of)
  have kk: "key \<in> db_keys (m_type ?db) (m_maxlen ?db)"
    using k by simp
  have dbs: "m_nodes ?db = m_nodes db" "m_type ?db = m_type db" "m_maxlen ?db = m_maxlen db"
    by simp_all
  have f': "fresh \<notin> dom (m_nodes ?db)" and i': "hash_of (m_type ?db) (m_maxlen ?db) key = Some i"
    using f(2) i(1) by simp_all
  obtain node p c0 z db2 where find: "db_find ?db key i = Some (node, p, c0)" and z: "z = (if node \<noteq> 0 then node else fresh)"
    and stp: "(if node \<noteq> 0 then put_found node ?db else do { db \<leftarrow> new_node fresh p c0 i ?db; Some (0, None, db) }) =
       Some (if m ?k = None then 0 else 1, map_option snd (m ?k), db2)"
    and R: "ready key z ?db db2"
    and only: "\<And>a. a \<in> dom (m_nodes ?db) \<Longrightarrow> db_norm (m_type ?db) (key_at (m_nodes ?db) a) = db_norm (m_type ?db) key \<Longrightarrow> a = z"
    and old: "z \<in> dom (m_nodes ?db) \<Longrightarrow> db_norm (m_type ?db) (key_at (m_nodes ?db) z) = db_norm (m_type ?db) key"
  proof -
    obtain node p c0 db2 where *: "db_find ?db key i = Some (node, p, c0)"
      "(if node \<noteq> 0 then put_found node ?db else do { db \<leftarrow> new_node fresh p c0 i ?db; Some (0, None, db) }) =
         Some (if m ?k = None then 0 else 1, map_option snd (m ?k), db2)"
      "ready key (if node \<noteq> 0 then node else fresh) ?db db2"
      "\<forall>a \<in> dom (m_nodes ?db). db_norm (m_type ?db) (key_at (m_nodes ?db) a) = ?k \<longleftrightarrow> a = (if node \<noteq> 0 then node else fresh)"
      using put_step [OF I A' kk f(1) f' c i' i(2)] unfolding dbs by blast
    show thesis
      using * by (intro that [of node p c0 "if node \<noteq> 0 then node else fresh" db2]) simp_all
  qed
  obtain db3 where db3: "do { db \<leftarrow> put_key z key data db2; upd_nodes z (\<lambda>n. n\<lparr>dn_data := data\<rparr>) db } = Some db3"
    "db_inv (m_free_list (db3\<lparr>m_cache := z\<rparr>)) (db3\<lparr>m_cache := z\<rparr>)" "same_conf ?db db3" "m_free_lock db3 = m_free_lock ?db"
    "db_abs db3 (m(?k \<mapsto> (key, data)))"
    using finish_put [OF R kk A' only old, of data] by auto
  have "m_free_lock (db3\<lparr>m_cache := z\<rparr>) = m_free_lock db + 1" "same_conf db (db3\<lparr>m_cache := z\<rparr>)"
    using db3(3,4) by (simp_all add: same_conf_def)
  then obtain db' where db': "db_free_unlock (db3\<lparr>m_cache := z\<rparr>) = Some db'" "db_ok db'" "same_conf db db'"
     "same_live (m_nodes (db3\<lparr>m_cache := z\<rparr>)) (m_nodes db')" "m_free_lock db' = m_free_lock db"
    using unlocked [OF db3(2) _ l] by blast
  have "db_abs db' (m(?k \<mapsto> (key, data)))"
    using db3(5) same_live_abs [OF db'(4), of "m(?k \<mapsto> (key, data))"] db'(3) db3(3) by (simp add: same_conf_def db_abs_def)
  moreover obtain db4 where "put_key z key data db2 = Some db4" "upd_nodes z (\<lambda>n. n\<lparr>dn_data := data\<rparr>) db4 = Some db3"
    using db3(1) by (auto simp: bind_eq_Some_conv)
  then have "db_obj_put fresh key data db =
      Some (if m ?k = None then 0 else 1, map_option snd (m ?k), db')"
    using r lk hs find stp z db'(1) unfolding db_obj_put_def if_not_P [OF r]
    by (simp add: Let_def)
  ultimately show ?thesis
    using db' by blast
qed

end
