(* ===== verification/DbRemove.thy ===== *)
theory DbRemove imports DbPut begin

text \<open>
  Removing an entry, creating one on demand, and the empty database.
\<close>

lemma own_key_ok:
  assumes k: "dn_key n \<in> db_keys (m_type db) (m_maxlen db)" and z: "m_nodes db z = Some n"
  shows "\<exists>fr. own_key z db = Some (db\<lparr>m_freed := fr\<rparr>)"
proof (cases "db_opt db DB_OPT_DUP_KEY")
  case True
  then show ?thesis
    by (intro exI [of _ "m_freed db"]) (simp add: own_key_def)
next
  case False
  have "(m_nodes db)(z \<mapsto> n\<lparr>dn_key := dn_key n\<rparr>) = m_nodes db"
    using z by (simp add: fun_upd_idem)
  then have "own_key z db = Some (db\<lparr>m_freed := m_freed db @ releases (m_release db) (dn_key n) (dn_data n) DB_RELEASE_KEY\<rparr>)"
    using False z dup_key_id [OF k] by (simp add: own_key_def upd_nodes_def upd_node_def db_release_def)
  then show ?thesis
    by blast
qed

lemma grow_ok:
  assumes "length (m_free_list db) < 2 ^ 32 - 1"
  shows "\<exists>fm. grow_free_list db = Some (db\<lparr>m_free_max := fm\<rparr>)"
proof -
  let ?fm = "push_bit 2 (m_free_max db) + 3"
  show ?thesis
  proof (cases "of_nat (length (m_free_list db)) = m_free_max db")
    case True
    then show ?thesis
      using assms by (intro exI [of _ "if unat ?fm \<le> length (m_free_list db) then - 1 else ?fm"]) (simp add: grow_free_list_def Let_def)
  next
    case False
    then show ?thesis
      by (intro exI [of _ "m_free_max db"]) (simp add: grow_free_list_def)
  qed
qed

lemma remove_live:
  assumes I: "db_inv (m_free_list db) db" and A: "db_abs db m" and l: "m_free_lock db \<noteq> - 1" "length (m_free_list db) < 2 ^ 32 - 1"
    and F: "forest (m_type db) (m_maxlen db) (m_nodes db) (m_ht db) ts" and i: "i < HASH_SIZE" "z \<in> set (addrs (ts i))" and z0: "z \<noteq> 0"
    and z: "m_nodes db z = Some n" "\<not> dn_deleted n" "db_norm (m_type db) (key_at (m_nodes db) z) = k"
    and fs: "distinct (List.map fst (m_free_list db))" "fst ` set (m_free_list db) = dead (m_nodes db)"
       "\<forall>(a, r) \<in> set (m_free_list db). r < HASH_SIZE \<and> a \<in> set (addrs (ts r))"
  shows "\<exists>db2. remove_found z i db = Some (1, Some (dn_data n), db2) \<and> db_inv (m_free_list db2) db2 \<and> same_conf db db2 \<and>
    m_free_lock db2 = m_free_lock db \<and> db_abs db2 (m(k := None))"
proof -
  let ?c = "if m_cache db = z then 0 else m_cache db" and ?n = "n\<lparr>dn_deleted := True\<rparr>"
  let ?r = "releases (m_release db) (dn_key n) (dn_data n) DB_RELEASE_DATA"
  let ?db = "db\<lparr>m_cache := ?c, m_freed := m_freed db @ ?r\<rparr>"
  have kz: "key_at (m_nodes db) z = dn_key n" "dn_key n \<in> db_keys (m_type db) (m_maxlen db)"
    using z(1) forest_key [OF F, of z] by (auto simp: key_at_def)
  have start: "remove_found z i db = do { db \<leftarrow> db_free_add z i ?db; Some (1, Some (dn_data n), db) }"
    using z z0 by (cases "m_cache db = z") (simp_all add: remove_found_def db_release_def)
  obtain fr where fr: "own_key z ?db = Some (?db\<lparr>m_freed := fr\<rparr>)"
    using own_key_ok [of n ?db z] kz(2) z(1) by auto
  obtain fm where fm: "grow_free_list (?db\<lparr>m_freed := fr\<rparr>) = Some (?db\<lparr>m_freed := fr, m_free_max := fm\<rparr>)"
    using grow_ok [of "?db\<lparr>m_freed := fr\<rparr>"] l(2) by auto
  let ?h = "(m_nodes db)(z \<mapsto> ?n)"
  let ?db2 = "?db\<lparr>m_freed := fr, m_free_max := fm, m_nodes := ?h, m_free_list := m_free_list db @ [(z, i)], m_item_count := m_item_count db - 1\<rparr>"
  have run: "remove_found z i db = Some (1, Some (dn_data n), ?db2)"
    using l(1) z(1) fr fm unfolding start db_free_add_def by (simp add: upd_nodes_def upd_node_def)
  have lv: "live ?h = live (m_nodes db) - {z}" "dead ?h = insert z (dead (m_nodes db))" "z \<in> live (m_nodes db)" "z \<notin> dead (m_nodes db)"
    using z by (auto simp: live_def dead_def split: if_split_asm)
  have F': "forest (m_type db) (m_maxlen db) ?h (m_ht db) ts"
    using forest_write [OF F z(1), of ?n] kz by simp
  have ic: "unat (m_item_count db) = card (live (m_nodes db))" and ch: "m_cache db = 0 \<or> m_cache db \<in> live (m_nodes db)"
    using I unfolding db_inv_def by auto
  have "card (live (m_nodes db)) > 0"
    using lv(3) card_live [OF F] card_gt_0_iff by blast
  then have "m_item_count db \<noteq> 0"
    using ic by auto
  then have "unat (m_item_count db - 1) = unat (m_item_count db) - 1"
    by (simp add: unat_minus_one)
  then have "unat (m_item_count db - 1) = card (live ?h)"
    using ic lv card_live [OF F] by simp
  moreover have "?c = 0 \<or> ?c \<in> live ?h"
    using ch lv(1) by auto
  moreover have "distinct (List.map fst (m_free_list db @ [(z, i)]))" "fst ` set (m_free_list db @ [(z, i)]) = dead ?h"
    using fs(1,2) lv by auto
  moreover have "\<forall>(a, r) \<in> set (m_free_list db @ [(z, i)]). r < HASH_SIZE \<and> a \<in> set (addrs (ts r))"
    using fs(3) i by auto
  ultimately have "db_inv (m_free_list ?db2) ?db2"
    using F' unfolding db_inv_def by (intro exI [of _ ts]) simp
  moreover have "db_abs ?db2 (m(k := None))"
  proof -
    have c: "cores ?h a = (if a = z then Some (dn_key n, dn_data n, True) else cores (m_nodes db) a)" for a
      by (simp add: cores_def core_def)
    have u: "a = z" if "cores (m_nodes db) a = Some (key, d, False)" "db_norm (m_type db) key = k" for a key d
    proof -
      have "a \<in> dom (m_nodes db)" "key_at (m_nodes db) a = key"
        using that(1) by (auto simp: cores_def core_def key_at_def)
      then show ?thesis
        using forest_unique [OF F, of a z] that(2) z by auto
    qed
    have "(m(k := None)) k' = Some (key, d) \<longleftrightarrow> (\<exists>a. cores ?h a = Some (key, d, False) \<and> db_norm (m_type db) key = k')" for k' key d
    proof -
      have "m k' = Some (key, d) \<longleftrightarrow> (\<exists>a. cores (m_nodes db) a = Some (key, d, False) \<and> db_norm (m_type db) key = k')"
        using A unfolding db_abs_def by blast
      moreover have "key = dn_key n" if "cores (m_nodes db) z = Some (key, d, False)"
        using that z by (simp add: cores_def core_def)
      then have "db_norm (m_type db) key = k" if "cores (m_nodes db) z = Some (key, d, False)"
        using that z(3) kz(1) by simp
      ultimately show ?thesis
        using u [of _ key d] by (cases "k' = k") (simp_all add: c, (metis option.inject prod.inject)+)
    qed
    then show ?thesis
      by (simp add: db_abs_def)
  qed
  ultimately show ?thesis
    using run by (intro exI [of _ ?db2]) (simp add: same_conf_def)
qed

lemma lock_bound:
  assumes "unat (x :: 32 word) < 2 ^ 32 - 2"
  shows "x \<noteq> - 1" "x + 1 \<noteq> - 1"
proof -
  have "unat (- 1 :: 32 word) = 2 ^ 32 - 1"
    by (simp add: unsigned_minus_1_eq_mask mask_eq_exp_minus_1)
  moreover have "(- 2 :: 32 word) = 4294967294"
    by simp
  then have "unat (- 2 :: 32 word) = 2 ^ 32 - 2"
    by (simp only:) simp
  moreover have "x = - 2" if "x + 1 = - 1"
    using that by (metis add_diff_cancel_right' diff_numeral_special(11) uminus_add_conv_diff minus_diff_commute)
  ultimately show "x \<noteq> - 1" "x + 1 \<noteq> - 1"
    using assms by auto
qed

text \<open>The whole of \<open>remove\<close>.\<close>

lemma remove_ok:
  assumes ok: "db_ok db" and A: "db_abs db m" and k: "key \<in> db_keys (m_type db) (m_maxlen db)"
    and l: "unat (m_free_lock db) < 2 ^ 32 - 2" "length (m_free_list db) < 2 ^ 32 - 1" and g: "\<not> m_global_lock db"
  shows "\<exists>db'. db_obj_remove key db =
      Some (if m (db_norm (m_type db) key) = None then 0 else 1, map_option snd (m (db_norm (m_type db) key)), db') \<and>
    db_ok db' \<and> db_abs db' (m(db_norm (m_type db) key := None)) \<and> same_conf db db' \<and> m_free_lock db' = m_free_lock db"
proof -
  let ?k = "db_norm (m_type db) key" and ?db = "db\<lparr>m_free_lock := m_free_lock db + 1\<rparr>"
  obtain i where i: "hash_of (m_type db) (m_maxlen db) key = Some i" "i < HASH_SIZE"
    using hash_of_some [OF k] .
  have I: "db_inv (m_free_list ?db) ?db"
    using db_ok_inv [OF ok] by (simp add: db_inv_def)
  obtain ts where F: "forest (m_type db) (m_maxlen db) (m_nodes db) (m_ht db) ts"
    and fs: "distinct (List.map fst (m_free_list db))" "fst ` set (m_free_list db) = dead (m_nodes db)"
       "\<forall>(a, r) \<in> set (m_free_list db). r < HASH_SIZE \<and> a \<in> set (addrs (ts r))"
    using db_ok_inv [OF ok] unfolding db_inv_def by blast
  have A': "db_abs ?db m"
    using A by (simp add: db_abs_def)
  have l0: "m_free_lock db \<noteq> - 1" and l1: "m_free_lock db + 1 \<noteq> - 1"
    using l(1) lock_bound by auto
  have lk: "db_free_lock db = Some ?db" and hs: "db_hash ?db key = Some i"
    using l0 i by (simp_all add: db_free_lock_def db_hash_of)
  have dbs: "m_nodes ?db = m_nodes db" "m_type ?db = m_type db" "m_maxlen ?db = m_maxlen db" "m_ht ?db = m_ht db"
     "m_free_list ?db = m_free_list db"
    by simp_all
  obtain z p c db2 where find: "db_find ?db key i = Some (z, p, c)"
    and rem: "remove_found z i ?db = Some (if m ?k = None then 0 else 1, map_option snd (m ?k), db2)"
      "db_inv (m_free_list db2) db2" "same_conf ?db db2" "m_free_lock db2 = m_free_lock ?db" "db_abs db2 (m(?k := None))"
  proof -
    consider (found) z p n where "db_find ?db key i = Some (z, p, 0)" "z \<noteq> 0" "z \<in> set (addrs (ts i))" "m_nodes db z = Some n"
        "db_norm (m_type db) (key_at (m_nodes db) z) = ?k"
      | (absent) p c where "db_find ?db key i = Some (0, p, c)" "m ?k = None"
      using db_find_ok [of ?db ts key i] db_abs_absent [OF A, of ?k] F k i unfolding dbs by blast
    then show thesis
    proof cases
      case found
      note z = found
      have m: "m ?k = (if dn_deleted n then None else Some (key_at (m_nodes db) z, dn_data n))"
        using db_abs_node [OF F A z(4,5)] .
      show ?thesis
      proof (cases "dn_deleted n")
        case True
        then have "remove_found z i ?db = Some (0, None, ?db)" "m ?k = None"
          using z m by (simp_all add: remove_found_def)
        moreover from this have "m(?k := None) = m"
          by auto
        ultimately show ?thesis
          using that [of z p 0 ?db] z(1) I A' by simp
      next
        case False
        then obtain db2 where "remove_found z i ?db = Some (1, Some (dn_data n), db2)" "db_inv (m_free_list db2) db2"
            "same_conf ?db db2" "m_free_lock db2 = m_free_lock ?db" "db_abs db2 (m(?k := None))"
          using remove_live [OF I A', of ts i z n ?k] l(2) l1 F fs i z unfolding dbs by auto
        then show ?thesis
          using that [of z p 0 db2] z(1) m False by simp
      qed
    next
      case absent
      then have "remove_found 0 i ?db = Some (0, None, ?db)" "m(?k := None) = m"
        by (auto simp: remove_found_def)
      then show ?thesis
        using that [of 0 p c ?db] absent I A' by simp
    qed
  qed
  have sc: "same_conf db db2"
    using rem(3) by (simp add: same_conf_def)
  obtain db' where db': "db_free_unlock db2 = Some db'" "db_ok db'" "same_conf db db'" "same_live (m_nodes db2) (m_nodes db')"
     "m_free_lock db' = m_free_lock db"
    using unlocked [OF rem(2) _ l0 sc] rem(4) by auto
  have "db_abs db' (m(?k := None))"
    using rem(5) same_live_abs [OF db'(4), of "m(?k := None)"] db'(3) sc by (simp add: same_conf_def)
  moreover have "\<not> null_key_refused key db"
    using keys_not_null [OF k] .
  then have "db_obj_remove key db = Some (if m ?k = None then 0 else 1, map_option snd (m ?k), db')"
    using g lk hs find rem(1) db'(1) unfolding db_obj_remove_def by simp
  ultimately show ?thesis
    using db' by blast
qed

section \<open>Creating an entry on demand\<close>

lemma ensure_put: "\<not> (db_opt db DB_OPT_DUP_KEY \<and> db_opt db DB_OPT_RELEASE_KEY) \<Longrightarrow> ensure_key z key db = put_key z key data db"
  by (auto simp: ensure_key_def put_key_def upd_nodes_def upd_node_def db_opt_def db_dup_key_def bind_eq_None_conv split: option.splits bind_splits)

definition ensured :: "db_key \<Rightarrow> (db_key \<Rightarrow> db_data) \<Rightarrow> int list \<Rightarrow> (int list \<rightharpoonup> db_key \<times> db_data) \<Rightarrow> (int list \<rightharpoonup> db_key \<times> db_data)" where
  "ensured key create k m = (case m k of None \<Rightarrow> m(k \<mapsto> (key, create key)) | Some _ \<Rightarrow> m)"

lemma ensure_step:
  assumes I: "db_inv [] db" and fl: "m_free_list db = []" and A: "db_abs db m" and k: "key \<in> db_keys (m_type db) (m_maxlen db)"
    and f: "fresh \<noteq> 0" "fresh \<notin> dom (m_nodes db)" and c: "m_item_count db \<noteq> - 1"
    and o: "\<not> (db_opt db DB_OPT_DUP_KEY \<and> db_opt db DB_OPT_RELEASE_KEY)"
    and i: "hash_of (m_type db) (m_maxlen db) key = Some i" "i < HASH_SIZE"
    and m': "m' = ensured key create (db_norm (m_type db) key) m"
  shows "\<exists>node p c0 db2. db_find db key i = Some (node, p, c0) \<and>
    (if node \<noteq> 0 then Some db else do {
           db \<leftarrow> new_node fresh p c0 i db;
           db \<leftarrow> ensure_key fresh key db;
           upd_nodes fresh (\<lambda>n. n\<lparr>dn_data := create key\<rparr>) db }) = Some db2 \<and>
    db_inv (m_free_list db2) (db2\<lparr>m_cache := (if node \<noteq> 0 then node else fresh)\<rparr>) \<and> same_conf db db2 \<and>
    m_free_lock db2 = m_free_lock db \<and> db_abs db2 m' \<and> (if node \<noteq> 0 then node else fresh) \<in> live (m_nodes db2) \<and>
    db_norm (m_type db) (key_at (m_nodes db2) (if node \<noteq> 0 then node else fresh)) = db_norm (m_type db) key"
proof -
  obtain ts where F: "forest (m_type db) (m_maxlen db) (m_nodes db) (m_ht db) ts"
    and dd: "dead (m_nodes db) = {}" and ic: "unat (m_item_count db) = card (live (m_nodes db))"
    using I unfolding db_inv_def by auto
  from db_find_ok [OF F k i] show ?thesis
  proof (elim disjE exE conjE)
    fix z p
    assume z: "db_find db key i = Some (z, p, 0)" "z \<noteq> 0" "z \<in> dom (m_nodes db)"
      "db_norm (m_type db) (key_at (m_nodes db) z) = db_norm (m_type db) key"
    have zl: "z \<in> live (m_nodes db)"
      using z(3) dd by (auto simp: live_def dead_def)
    then have "m' = m"
      using live_node_entry [OF F A zl z(4)] by (auto simp: m' ensured_def)
    moreover have "db_inv (m_free_list db) (db\<lparr>m_cache := z\<rparr>)"
      using I fl zl by (auto simp: db_inv_def)
    ultimately show ?thesis
      using z A zl by (intro exI [of _ z] exI [of _ p] exI [of _ 0] exI [of _ db]) simp
  next
    fix cs p c0
    assume p: "db_find db key i = Some (0, p, c0)" "ts i = plug cs Leaf" "at_pos cs p c0"
      "db_order.between (m_type db) (m_nodes db) (cleft cs) key (cright cs)"
      "\<forall>a \<in> dom (m_nodes db). db_norm (m_type db) (key_at (m_nodes db) a) \<noteq> db_norm (m_type db) key"
    have m: "m' = m(db_norm (m_type db) key \<mapsto> (key, create key))"
      using db_abs_absent [OF A p(5)] by (simp add: m' ensured_def)
    have I': "db_inv (m_free_list db) db" "distinct (List.map fst (m_free_list db))" "fst ` set (m_free_list db) = dead (m_nodes db)"
      using I fl dd by simp_all
    obtain db2 where db2: "new_node fresh p c0 i db = Some db2" "ready key fresh db db2"
      using new_node_ready [OF I'(1) k c F i p(2,3,4) f I'(2,3)] fl by auto
    have o2: "\<not> (db_opt db2 DB_OPT_DUP_KEY \<and> db_opt db2 DB_OPT_RELEASE_KEY)"
      using o db2(2) by (simp add: ready_def same_conf_def db_opt_def)
    have no: "\<And>a. a \<in> dom (m_nodes db) \<Longrightarrow> db_norm (m_type db) (key_at (m_nodes db) a) = db_norm (m_type db) key \<Longrightarrow> a = fresh"
      "fresh \<in> dom (m_nodes db) \<Longrightarrow> db_norm (m_type db) (key_at (m_nodes db) fresh) = db_norm (m_type db) key"
      using p(5) f(2) by blast+
    obtain db3 where db3: "do { db \<leftarrow> put_key fresh key (create key) db2; upd_nodes fresh (\<lambda>n. n\<lparr>dn_data := create key\<rparr>) db } = Some db3"
      "db_inv (m_free_list (db3\<lparr>m_cache := fresh\<rparr>)) (db3\<lparr>m_cache := fresh\<rparr>)" "same_conf db db3" "m_free_lock db3 = m_free_lock db"
      "db_abs db3 m'" "cores (m_nodes db3) fresh = Some (key, create key, False)"
      using finish_put [OF db2(2) k A no, of "create key"] m by auto
    have "fresh \<in> live (m_nodes db3)" "key_at (m_nodes db3) fresh = key"
      using db3(6) by (auto simp: live_cores) (auto simp: cores_def core_def key_at_def)
    moreover have "do { db \<leftarrow> new_node fresh p c0 i db; db \<leftarrow> ensure_key fresh key db;
        upd_nodes fresh (\<lambda>n. n\<lparr>dn_data := create key\<rparr>) db } = Some db3"
      using db2(1) db3(1) ensure_put [OF o2, of fresh key "create key"] by simp
    ultimately show ?thesis
      using p(1) db3 by (intro exI [of _ 0] exI [of _ p] exI [of _ c0] exI [of _ db3]) simp
  qed
qed

text \<open>The whole of \<open>ensure\<close>, on a database without removed nodes.\<close>

lemma vensure_ok:
  assumes ok: "db_ok db" and fl: "m_free_list db = []" and A: "db_abs db m" and k: "key \<in> db_keys (m_type db) (m_maxlen db)"
    and l: "m_free_lock db \<noteq> - 1" and f: "fresh \<noteq> 0" "fresh \<notin> dom (m_nodes db)" and c: "m_item_count db \<noteq> - 1"
    and o: "\<not> (db_opt db DB_OPT_DUP_KEY \<and> db_opt db DB_OPT_RELEASE_KEY)"
  shows "\<exists>p db'. db_obj_vensure fresh key create db = Some (p, db') \<and> p \<noteq> 0 \<and>
    lookup_ok key (ensured key create (db_norm (m_type db) key) m) p db db'"
proof -
  let ?k = "db_norm (m_type db) key" and ?db = "db\<lparr>m_free_lock := m_free_lock db + 1\<rparr>"
  let ?m = "ensured key create ?k m"
  obtain hit where hit: "cache_hit key db = Some hit" "hit \<Longrightarrow> lookup_ok key m (m_cache db) db db"
    using cache_lookup [OF ok A k] by blast
  show ?thesis
  proof (cases hit)
    case True
    have "m_cache db \<noteq> 0"
      using hit(1) True by (simp add: cache_hit_def split: if_split_asm)
    moreover from this have "?m = m"
      using hit(2) True by (auto simp: lookup_ok_def ensured_def split: option.splits)
    ultimately show ?thesis
      using hit True keys_not_null [OF k] by (simp add: db_obj_vensure_def)
  next
    case False
    obtain i where i: "hash_of (m_type db) (m_maxlen db) key = Some i" "i < HASH_SIZE"
      using hash_of_some [OF k] .
    have I: "db_inv [] ?db"
      using db_ok_inv [OF ok] fl by (simp add: db_inv_def)
    have dbs: "m_nodes ?db = m_nodes db" "m_type ?db = m_type db" "m_maxlen ?db = m_maxlen db" "m_free_list ?db = m_free_list db"
      "m_item_count ?db = m_item_count db" "db_opt ?db = db_opt db"
      by (simp_all add: db_opt_def [abs_def])
    have A': "db_abs ?db m"
      using A by (simp add: db_abs_def)
    obtain node p c0 db2 where st: "db_find ?db key i = Some (node, p, c0)"
      "(if node \<noteq> 0 then Some ?db else do {
           db \<leftarrow> new_node fresh p c0 i ?db;
           db \<leftarrow> ensure_key fresh key db;
           upd_nodes fresh (\<lambda>n. n\<lparr>dn_data := create key\<rparr>) db }) = Some db2"
      and db2: "db_inv (m_free_list db2) (db2\<lparr>m_cache := (if node \<noteq> 0 then node else fresh)\<rparr>)" "same_conf ?db db2"
        "m_free_lock db2 = m_free_lock ?db" "db_abs db2 ?m" "(if node \<noteq> 0 then node else fresh) \<in> live (m_nodes db2)"
        "db_norm (m_type db) (key_at (m_nodes db2) (if node \<noteq> 0 then node else fresh)) = ?k"
      using ensure_step [of ?db, unfolded dbs, OF I fl A' k f c o i, of ?m create] by blast
    define z where "z = (if node \<noteq> 0 then node else fresh)"
    let ?db2 = "db2\<lparr>m_cache := z\<rparr>"
    have sc: "same_conf db ?db2" "m_free_lock ?db2 = m_free_lock db + 1"
      using db2(2,3) by (simp_all add: same_conf_def)
    have I2: "db_inv (m_free_list ?db2) ?db2"
      using db2(1) by (simp add: z_def)
    obtain db' where db': "db_free_unlock ?db2 = Some db'" "db_ok db'" "same_conf db db'" "same_live (m_nodes ?db2) (m_nodes db')"
       "m_free_lock db' = m_free_lock db"
      using unlocked [OF I2 sc(2) l sc(1)] by auto
    have abs: "db_abs db' ?m"
      using db2(4) same_live_abs [OF db'(4), of ?m] db'(3) sc(1) by (simp add: same_conf_def db_abs_def)
    have "db_obj_vensure fresh key create db = Some (z, db')"
    proof (cases "node = 0")
      case True
      obtain d1 d2 where "new_node fresh p c0 i ?db = Some d1" "ensure_key fresh key d1 = Some d2"
          "upd_nodes fresh (\<lambda>n. n\<lparr>dn_data := create key\<rparr>) d2 = Some db2"
        using st(2) True by (auto simp: bind_eq_Some_conv)
      then show ?thesis
        using hit False keys_not_null [OF k] l i st(1) db'(1) c True unfolding db_obj_vensure_def
        by (simp add: db_free_lock_def db_hash_of z_def)
    next
      case False
      then have "db2 = ?db"
        using st(2) by simp
      then show ?thesis
        using hit \<open>\<not> hit\<close> keys_not_null [OF k] l i st(1) db'(1) False unfolding db_obj_vensure_def
        by (simp add: db_free_lock_def db_hash_of z_def)
    qed
    moreover obtain ts where "forest (m_type ?db2) (m_maxlen ?db2) (m_nodes ?db2) (m_ht ?db2) ts"
      using I2 unfolding db_inv_def by blast
    moreover have "db_abs ?db2 ?m"
      using db2(4) by (simp add: db_abs_def)
    ultimately have "lookup_ok key ?m z db db'" "z \<noteq> 0"
      using live_node_entry [of ?db2 ts ?m z ?k] db2(5,6) abs db' sc(1)
      unfolding z_def [symmetric] lookup_ok_def by (auto simp: same_conf_def same_live_def)
    then show ?thesis
      using \<open>db_obj_vensure fresh key create db = Some (z, db')\<close> by blast
  qed
qed

section \<open>The empty database\<close>

lemma alloc_ok: "db_ok (db_alloc type options maxlen)" "db_abs (db_alloc type options maxlen) Map.empty"
proof -
  have "bucket_ok ty n Map.empty i 0 Leaf" for ty n i
    by (simp add: bucket_ok_def rbt_def)
  then have "forest ty n Map.empty (replicate HASH_SIZE 0) (\<lambda>i. Leaf)" for ty n
    by (simp add: forest_def)
  then show "db_ok (db_alloc type options maxlen)"
    unfolding db_ok_def db_inv_def db_alloc_def Let_def
    by (auto simp: live_def dead_def intro!: exI [of _ "\<lambda>i. Leaf"])
  show "db_abs (db_alloc type options maxlen) Map.empty"
    by (simp add: db_abs_def db_alloc_def Let_def cores_def)
qed

lemma card_entries:
  assumes F: "forest (m_type db) (m_maxlen db) (m_nodes db) (m_ht db) ts" and A: "db_abs db m"
  shows "card (live (m_nodes db)) = card (dom m)"
proof -
  let ?f = "\<lambda>a. db_norm (m_type db) (key_at (m_nodes db) a)"
  have sub: "live (m_nodes db) \<subseteq> dom (m_nodes db)"
    by (rule live_dom)
  have "inj_on ?f (live (m_nodes db))"
    using forest_unique [OF F] sub by (meson inj_onI subset_iff)
  moreover have "dom m = ?f ` live (m_nodes db)"
  proof (intro equalityI subsetI)
    fix k
    assume "k \<in> dom m"
    then obtain key d where "m k = Some (key, d)"
      by auto
    then obtain a where a: "cores (m_nodes db) a = Some (key, d, False)" "db_norm (m_type db) key = k"
      using A unfolding db_abs_def by blast
    then have "a \<in> live (m_nodes db)" "key_at (m_nodes db) a = key"
      by (auto simp: live_cores) (auto simp: cores_def core_def key_at_def)
    then show "k \<in> ?f ` live (m_nodes db)"
      using a(2) by auto
  next
    fix k
    assume "k \<in> ?f ` live (m_nodes db)"
    then show "k \<in> dom m"
      using live_node_entry [OF F A] by blast
  qed
  ultimately show ?thesis
    by (simp add: card_image)
qed

lemma size_ok:
  assumes ok: "db_ok db" and A: "db_abs db m" and l: "m_free_lock db \<noteq> - 1"
  shows "\<exists>n db'. db_obj_size db = Some (n, db') \<and> unat n = card (dom m) \<and> db_ok db' \<and> db_abs db' m \<and> m_free_lock db' = m_free_lock db"
proof -
  let ?db = "db\<lparr>m_free_lock := m_free_lock db + 1\<rparr>"
  have I: "db_inv (m_free_list ?db) ?db"
    using db_ok_inv [OF ok] by (simp add: db_inv_def)
  obtain ts where F: "forest (m_type db) (m_maxlen db) (m_nodes db) (m_ht db) ts" and ic: "unat (m_item_count db) = card (live (m_nodes db))"
    using db_ok_inv [OF ok] unfolding db_inv_def by blast
  have "m_free_lock ?db = m_free_lock db + 1" "same_conf db ?db"
    by (simp_all add: same_conf_def)
  then obtain db' where db': "db_free_unlock ?db = Some db'" "db_ok db'" "same_conf db db'" "same_live (m_nodes ?db) (m_nodes db')"
     "m_free_lock db' = m_free_lock db"
    using unlocked [OF I _ l] by blast
  have "db_abs db' m"
    using A same_live_abs [of db db' m] db'(3,4) by (simp add: same_conf_def)
  then show ?thesis
    using db' l ic card_entries [OF F A] by (intro exI [of _ "m_item_count db"] exI [of _ db']) (simp add: db_obj_size_def db_free_lock_def)
qed

end
