(* ===== verification/DbIter.thy ===== *)
theory DbIter imports DbRemove begin

text \<open>
  Iterators of a database (\<^verbatim>\<open>dbit_obj_first\<close>, \<^verbatim>\<open>dbit_obj_next\<close>, \<^verbatim>\<open>dbit_obj_prev\<close>, \<dots>): they walk
  through the trees by the parent pointers, in the order of the buckets and of the keys in a bucket, and
  skip the removed nodes. An iterator keeps the database locked, so removed nodes stay in their trees.
\<close>

record dbit =
  it_ht_index :: int
  it_node :: nat

section \<open>Operations\<close>

text \<open>\<open>while (parent) { if (parent->right != node) break; node = parent; parent = node->parent; }\<close>\<close>

partial_function (option) climb_next :: "heap \<Rightarrow> nat \<Rightarrow> nat \<Rightarrow> nat option" where
  "climb_next h node parent = (if parent = 0 then Some 0 else do {
     p \<leftarrow> h parent;
     if dn_right p \<noteq> node then Some parent else climb_next h parent (dn_parent p) })"

declare climb_next.simps [code]

definition step_next :: "heap \<Rightarrow> nat \<Rightarrow> nat option" where
  "step_next h node = do {
     n \<leftarrow> h node;
     if dn_right n \<noteq> 0 then leftmost h (dn_right n) else climb_next h node (dn_parent n) }"

text \<open>The next node of the tree that is not removed, or \<open>0\<close>.\<close>

partial_function (option) scan_next :: "heap \<Rightarrow> nat \<Rightarrow> nat option" where
  "scan_next h node = do {
     y \<leftarrow> step_next h node;
     if y = 0 then Some 0 else do { n \<leftarrow> h y; if dn_deleted n then scan_next h y else Some y } }"

declare scan_next.simps [code]

text \<open>From the fake node whose right child is the root.\<close>

definition enter_next :: "heap \<Rightarrow> nat \<Rightarrow> nat option" where
  "enter_next h root = do { y \<leftarrow> leftmost h root; n \<leftarrow> h y; if dn_deleted n then scan_next h y else Some y }"

partial_function (option) next_loop :: "heap \<Rightarrow> nat list \<Rightarrow> int \<Rightarrow> nat \<Rightarrow> (int \<times> nat) option" where
  "next_loop h ht i node = (if i \<ge> int HASH_SIZE then Some (i, 0) else do {
     y \<leftarrow> (if node \<noteq> 0 then scan_next h node
           else if ht ! nat i = 0 then Some 0 else enter_next h (ht ! nat i));
     if y \<noteq> 0 then Some (i, y) else next_loop h ht (i + 1) 0 })"

declare next_loop.simps [code]

definition dbit_obj_next :: "dbmap \<Rightarrow> dbit \<Rightarrow> (nat \<times> dbit) option" where
  "dbit_obj_next db it = do {
     let it = (if it_ht_index it < 0 then \<lparr>it_ht_index = 0, it_node = 0\<rparr> else it);
     (i, y) \<leftarrow> next_loop (m_nodes db) (m_ht db) (it_ht_index it) (it_node it);
     Some (y, \<lparr>it_ht_index = i, it_node = y\<rparr>) }"

definition dbit_obj_first :: "dbmap \<Rightarrow> dbit \<Rightarrow> (nat \<times> dbit) option" where
  "dbit_obj_first db it = dbit_obj_next db (it\<lparr>it_ht_index := - 1, it_node := 0\<rparr>)"

partial_function (option) rightmost :: "heap \<Rightarrow> nat \<Rightarrow> nat option" where
  "rightmost h y = do { n \<leftarrow> h y; if dn_right n = 0 then Some y else rightmost h (dn_right n) }"

declare rightmost.simps [code]

partial_function (option) climb_prev :: "heap \<Rightarrow> nat \<Rightarrow> nat \<Rightarrow> nat option" where
  "climb_prev h node parent = (if parent = 0 then Some 0 else do {
     p \<leftarrow> h parent;
     if dn_left p \<noteq> node then Some parent else climb_prev h parent (dn_parent p) })"

declare climb_prev.simps [code]

definition step_prev :: "heap \<Rightarrow> nat \<Rightarrow> nat option" where
  "step_prev h node = do {
     n \<leftarrow> h node;
     if dn_left n \<noteq> 0 then rightmost h (dn_left n) else climb_prev h node (dn_parent n) }"

partial_function (option) scan_prev :: "heap \<Rightarrow> nat \<Rightarrow> nat option" where
  "scan_prev h node = do {
     y \<leftarrow> step_prev h node;
     if y = 0 then Some 0 else do { n \<leftarrow> h y; if dn_deleted n then scan_prev h y else Some y } }"

declare scan_prev.simps [code]

definition enter_prev :: "heap \<Rightarrow> nat \<Rightarrow> nat option" where
  "enter_prev h root = do { y \<leftarrow> rightmost h root; n \<leftarrow> h y; if dn_deleted n then scan_prev h y else Some y }"

partial_function (option) prev_loop :: "heap \<Rightarrow> nat list \<Rightarrow> int \<Rightarrow> nat \<Rightarrow> (int \<times> nat) option" where
  "prev_loop h ht i node = (if i < 0 then Some (i, 0) else do {
     y \<leftarrow> (if node \<noteq> 0 then scan_prev h node
           else if ht ! nat i = 0 then Some 0 else enter_prev h (ht ! nat i));
     if y \<noteq> 0 then Some (i, y) else prev_loop h ht (i - 1) 0 })"

declare prev_loop.simps [code]

definition dbit_obj_prev :: "dbmap \<Rightarrow> dbit \<Rightarrow> (nat \<times> dbit) option" where
  "dbit_obj_prev db it = do {
     let it = (if it_ht_index it \<ge> int HASH_SIZE then \<lparr>it_ht_index = int HASH_SIZE - 1, it_node = 0\<rparr> else it);
     (i, y) \<leftarrow> prev_loop (m_nodes db) (m_ht db) (it_ht_index it) (it_node it);
     Some (y, \<lparr>it_ht_index = i, it_node = y\<rparr>) }"

definition dbit_obj_last :: "dbmap \<Rightarrow> dbit \<Rightarrow> (nat \<times> dbit) option" where
  "dbit_obj_last db it = dbit_obj_prev db (it\<lparr>it_ht_index := int HASH_SIZE, it_node := 0\<rparr>)"

definition dbit_obj_exists :: "dbmap \<Rightarrow> dbit \<Rightarrow> bool option" where
  "dbit_obj_exists db it = (if it_node it = 0 then Some False
     else do { n \<leftarrow> m_nodes db (it_node it); Some (\<not> dn_deleted n) })"

definition dbit_obj_remove :: "dbit \<Rightarrow> dbmap \<Rightarrow> (int \<times> db_data option \<times> dbmap) option" where
  "dbit_obj_remove it db = remove_found (it_node it) (nat (it_ht_index it)) db"

definition db_obj_iterator :: "dbmap \<Rightarrow> (dbit \<times> dbmap) option" where
  "db_obj_iterator db = do { db \<leftarrow> db_free_lock db; Some (\<lparr>it_ht_index = - 1, it_node = 0\<rparr>, db) }"

definition dbit_obj_destroy :: "dbit \<Rightarrow> dbmap \<Rightarrow> dbmap option" where
  "dbit_obj_destroy it db = db_free_unlock db"

section \<open>Steps in a tree\<close>

text \<open>The first element of a list of addresses, \<open>0\<close> for none.\<close>

fun first_of :: "nat list \<Rightarrow> nat" where
  "first_of [] = 0"
| "first_of (x # xs) = x"

lemma climb_next_ok:
  assumes "repc h z cs" "z \<noteq> 0" "z \<notin> set (caddrs cs)" "distinct (caddrs cs)"
  shows "climb_next h z (cpar cs) = Some (first_of (cright cs))"
  using assms
proof (induction h z cs rule: repc.induct)
  case (1 h p)
  then show ?case
    by (subst climb_next.simps) simp
next
  case (2 h p d a c s cs)
  obtain n where n: "h a = Some n" "dn_parent n = cpar cs" "child d n = p" "child (opp d) n = ptr s"
    using 2(2) by auto
  have s: "ptr s \<noteq> p"
    using 2(3,4) ptr_in [of s] by (cases "s = Leaf") auto
  have "a \<noteq> 0" "repc h a cs" "a \<notin> set (caddrs cs)" "distinct (caddrs cs)"
    using 2 by auto
  then show ?case
    using 2(1) n s by (subst climb_next.simps) (cases d; simp)
qed

lemma leftmost_first:
  assumes "rep h q r" "r \<noteq> Leaf"
  shows "leftmost h (ptr r) = Some (first_of (addrs r))"
proof -
  obtain bs y k x where "r = plug bs (Node Leaf (y, k) x)" "cleft bs = []" "leftmost h (ptr r) = Some y"
    using leftmost_ok [OF assms] by blast
  then show ?thesis
    by (simp add: addrs_plug)
qed

lemma first_of_append: "first_of (xs @ ys) = (if xs = [] then first_of ys else first_of xs)"
  by (cases xs) auto

lemma addrs_Leaf [simp]: "addrs t = [] \<longleftrightarrow> t = Leaf"
  by (cases t) auto

text \<open>A step goes to the next node in the order of the tree.\<close>

lemma step_next_ok:
  assumes r: "rep h 0 T" "distinct (addrs T)" and a: "addrs T = xs @ z # ys"
  shows "step_next h z = Some (first_of ys)"
proof -
  have "z \<in> set (addrs T)"
    by (simp add: a)
  then obtain cs l c r' where T: "T = plug cs (Node l (z, c) r')"
    by (rule at_position)
  have "addrs T = (cleft cs @ addrs l) @ z # (addrs r' @ cright cs)"
    by (simp add: T addrs_plug)
  then have ys: "ys = addrs r' @ cright cs"
    using a r(2) by (metis append_Cons_eq_iff distinct_append not_distinct_conv_prefix distinct.simps(2) disjoint_iff list.set_intros(1))
  have rz: "rep h (cpar cs) (Node l (z, c) r')" "repc h z cs"
    using r(1) unfolding T rep_plug by auto
  then obtain n where n: "h z = Some n" "dn_parent n = cpar cs" "dn_right n = ptr r'" "z \<noteq> 0" "rep h z r'"
    by auto
  show ?thesis
  proof (cases "r' = Leaf")
    case True
    then show ?thesis
      using n ys climb_next_ok [OF rz(2) n(4)] r(2) unfolding T by (simp add: step_next_def)
  next
    case False
    then show ?thesis
      using n ys leftmost_first [OF n(5)] by (simp add: step_next_def first_of_append)
  qed
qed

lemma rep_dom: "rep h pa t \<Longrightarrow> set (addrs t) \<subseteq> dom h"
  by (induction h pa t rule: rep.induct) auto

definition first_live :: "heap \<Rightarrow> nat list \<Rightarrow> nat" where
  "first_live h xs = first_of (filter (\<lambda>a. a \<in> live h) xs)"

lemma scan_next_ok:
  assumes "rep h 0 T" "distinct (addrs T)" "addrs T = xs @ z # ys"
  shows "scan_next h z = Some (first_live h ys)"
  using assms(3)
proof (induction ys arbitrary: xs z)
  case Nil
  then show ?case
    using step_next_ok [OF assms(1,2) Nil] by (subst scan_next.simps) (simp add: first_live_def)
next
  case (Cons y ys)
  have st: "step_next h z = Some y"
    using step_next_ok [OF assms(1,2) Cons(2)] by simp
  have y: "y \<in> set (addrs T)"
    by (simp add: Cons(2))
  then obtain n where n: "h y = Some n" "y \<noteq> 0"
    using rep_dom [OF assms(1)] rep_0 [OF assms(1)] by force
  show ?case
  proof (cases "dn_deleted n")
    case True
    then have "scan_next h z = scan_next h y"
      using st n by (subst scan_next.simps) simp
    then show ?thesis
      using Cons(1) [of "xs @ [z]" y] Cons(2) n True by (simp add: first_live_def live_def)
  next
    case False
    then show ?thesis
      using st n by (subst scan_next.simps) (simp add: first_live_def live_def)
  qed
qed

text \<open>The same backwards.\<close>

lemma climb_prev_ok:
  assumes "repc h z cs" "z \<noteq> 0" "z \<notin> set (caddrs cs)" "distinct (caddrs cs)"
  shows "climb_prev h z (cpar cs) = Some (first_of (rev (cleft cs)))"
  using assms
proof (induction h z cs rule: repc.induct)
  case (1 h p)
  then show ?case
    by (subst climb_prev.simps) simp
next
  case (2 h p d a c s cs)
  obtain n where n: "h a = Some n" "dn_parent n = cpar cs" "child d n = p" "child (opp d) n = ptr s"
    using 2(2) by auto
  have s: "ptr s \<noteq> p"
    using 2(3,4) ptr_in [of s] by (cases "s = Leaf") auto
  have "a \<noteq> 0" "repc h a cs" "a \<notin> set (caddrs cs)" "distinct (caddrs cs)"
    using 2 by auto
  then show ?case
    using 2(1) n s by (subst climb_prev.simps) (cases d; simp)
qed

lemma rightmost_last:
  assumes "rep h q r" "r \<noteq> Leaf"
  shows "rightmost h (ptr r) = Some (first_of (rev (addrs r)))"
  using assms
proof (induction h q r rule: rep.induct)
  case (2 h q l a c r)
  then obtain n where n: "h a = Some n" "dn_right n = ptr r"
    by auto
  have "rep h a r"
    using 2(3) by simp
  then show ?case
    using n 2(2) by (subst ptr.simps, subst rightmost.simps) (simp add: first_of_append)
qed simp

lemma step_prev_ok:
  assumes r: "rep h 0 T" "distinct (addrs T)" and a: "addrs T = xs @ z # ys"
  shows "step_prev h z = Some (first_of (rev xs))"
proof -
  have "z \<in> set (addrs T)"
    by (simp add: a)
  then obtain cs l c r' where T: "T = plug cs (Node l (z, c) r')"
    by (rule at_position)
  have "addrs T = (cleft cs @ addrs l) @ z # (addrs r' @ cright cs)"
    by (simp add: T addrs_plug)
  then have xs: "xs = cleft cs @ addrs l"
    using a r(2) by (metis append_Cons_eq_iff distinct_append not_distinct_conv_prefix distinct.simps(2) disjoint_iff list.set_intros(1))
  have rz: "rep h (cpar cs) (Node l (z, c) r')" "repc h z cs"
    using r(1) unfolding T rep_plug by auto
  then obtain n where n: "h z = Some n" "dn_parent n = cpar cs" "dn_left n = ptr l" "z \<noteq> 0" "rep h z l"
    by auto
  show ?thesis
  proof (cases "l = Leaf")
    case True
    then show ?thesis
      using n xs climb_prev_ok [OF rz(2) n(4)] r(2) unfolding T by (simp add: step_prev_def)
  next
    case False
    then show ?thesis
      using n xs rightmost_last [OF n(5)] by (simp add: step_prev_def first_of_append)
  qed
qed

lemma scan_prev_ok:
  assumes "rep h 0 T" "distinct (addrs T)" "addrs T = xs @ z # ys"
  shows "scan_prev h z = Some (first_live h (rev xs))"
  using assms(3)
proof (induction xs arbitrary: ys z rule: rev_induct)
  case Nil
  then show ?case
    using step_prev_ok [OF assms(1,2) Nil] by (subst scan_prev.simps) (simp add: first_live_def)
next
  case (snoc y xs)
  have st: "step_prev h z = Some y"
    using step_prev_ok [OF assms(1,2) snoc(2)] by simp
  have y: "y \<in> set (addrs T)"
    by (simp add: snoc(2))
  then obtain n where n: "h y = Some n" "y \<noteq> 0"
    using rep_dom [OF assms(1)] rep_0 [OF assms(1)] by force
  show ?case
  proof (cases "dn_deleted n")
    case True
    then have "scan_prev h z = scan_prev h y"
      using st n by (subst scan_prev.simps) simp
    then show ?thesis
      using snoc(1) [of y "z # ys"] snoc(2) n True by (simp add: first_live_def live_def)
  next
    case False
    then show ?thesis
      using st n by (subst scan_prev.simps) (simp add: first_live_def live_def)
  qed
qed

section \<open>Steps in the database\<close>

definition rest :: "(nat \<Rightarrow> rbtree) \<Rightarrow> nat \<Rightarrow> nat list" where
  "rest ts i = concat (List.map (\<lambda>j. addrs (ts j)) [i..<HASH_SIZE])"

definition before :: "(nat \<Rightarrow> rbtree) \<Rightarrow> nat \<Rightarrow> nat list" where
  "before ts i = concat (List.map (\<lambda>j. addrs (ts j)) [0..<i])"

lemma rest_step: "i < HASH_SIZE \<Longrightarrow> rest ts i = addrs (ts i) @ rest ts (Suc i)"
  by (simp add: rest_def upt_conv_Cons)

lemma before_step: "before ts (Suc i) = before ts i @ addrs (ts i)"
  by (simp add: before_def)

lemma first_live_append:
  "0 \<notin> live h \<Longrightarrow> first_live h (xs @ ys) = (if first_live h xs = 0 then first_live h ys else first_live h xs)"
  by (induction xs) (auto simp: first_live_def)

lemma first_live_in: "first_live h xs \<noteq> 0 \<Longrightarrow> first_live h xs \<in> set xs \<and> first_live h xs \<in> live h"
  by (induction xs) (auto simp: first_live_def)

lemma forest_live0: "forest ty n h ht ts \<Longrightarrow> 0 \<notin> live h"
  using forest_nonzero [of ty n h ht ts 0] by (auto simp: live_def)

lemma forest_tree:
  assumes "forest ty n h ht ts" "i < HASH_SIZE"
  shows "ht ! i = ptr (ts i)" "rep h 0 (ts i)" "distinct (addrs (ts i))"
  using assms by (auto simp: forest_def bucket_ok_def)

lemma enter_next_ok:
  assumes F: "forest ty n h ht ts" "i < HASH_SIZE"
  shows "(if ht ! i = 0 then Some 0 else enter_next h (ht ! i)) = Some (first_live h (addrs (ts i)))"
proof (cases "ts i = Leaf")
  case True
  then show ?thesis
    using forest_tree [OF F] by (simp add: first_live_def)
next
  case False
  obtain y ys where y: "addrs (ts i) = y # ys"
    using False by (cases "addrs (ts i)") auto
  obtain m where m: "h y = Some m"
    using rep_dom [OF forest_tree(2) [OF F]] y by auto
  have "leftmost h (ht ! i) = Some y"
    using leftmost_first [OF forest_tree(2) [OF F] False] y forest_tree(1) [OF F] by simp
  moreover have "scan_next h y = Some (first_live h ys)"
    using scan_next_ok [OF forest_tree(2,3) [OF F], of "[]" y ys] y by simp
  moreover have "ht ! i \<noteq> 0"
    using False forest_tree [OF F] by simp
  ultimately show ?thesis
    using m y by (simp add: enter_next_def first_live_def live_def)
qed

lemma enter_prev_ok:
  assumes F: "forest ty n h ht ts" "i < HASH_SIZE"
  shows "(if ht ! i = 0 then Some 0 else enter_prev h (ht ! i)) = Some (first_live h (rev (addrs (ts i))))"
proof (cases "ts i = Leaf")
  case True
  then show ?thesis
    using forest_tree [OF F] by (simp add: first_live_def)
next
  case False
  obtain y ys where y: "addrs (ts i) = ys @ [y]"
    using False by (cases "addrs (ts i)" rule: rev_cases) auto
  obtain m where m: "h y = Some m"
    using rep_dom [OF forest_tree(2) [OF F]] y by auto
  have "rightmost h (ht ! i) = Some y"
    using rightmost_last [OF forest_tree(2) [OF F] False] y forest_tree(1) [OF F] by simp
  moreover have "scan_prev h y = Some (first_live h (rev ys))"
    using scan_prev_ok [OF forest_tree(2,3) [OF F], of ys y "[]"] y by simp
  moreover have "ht ! i \<noteq> 0"
    using False forest_tree [OF F] by simp
  ultimately show ?thesis
    using m y by (simp add: enter_prev_def first_live_def live_def)
qed

text \<open>The iterator stands at the node \<open>a\<close>, removed or not.\<close>

definition it_at :: "(nat \<Rightarrow> rbtree) \<Rightarrow> dbit \<Rightarrow> nat \<Rightarrow> bool" where
  "it_at ts it a \<longleftrightarrow> it_node it = a \<and> 0 \<le> it_ht_index it \<and> it_ht_index it < int HASH_SIZE \<and> a \<in> set (addrs (ts (nat (it_ht_index it))))"

lemma next_loop_enter:
  assumes F: "forest ty n h ht ts" and i: "i \<le> HASH_SIZE"
  shows "\<exists>j. next_loop h ht (int i) 0 = Some (j, first_live h (rest ts i)) \<and>
    (first_live h (rest ts i) \<noteq> 0 \<longrightarrow> it_at ts \<lparr>it_ht_index = j, it_node = first_live h (rest ts i)\<rparr> (first_live h (rest ts i)))"
  using i
proof (induction rule: inc_induct)
  case base
  then show ?case
    by (subst next_loop.simps) (simp add: rest_def first_live_def)
next
  case (step i)
  have e: "(if ht ! i = 0 then Some 0 else enter_next h (ht ! i)) = Some (first_live h (addrs (ts i)))"
    using enter_next_ok [OF F step(2)] .
  have l: "first_live h (rest ts i) = (if first_live h (addrs (ts i)) = 0 then first_live h (rest ts (Suc i)) else first_live h (addrs (ts i)))"
    using rest_step [OF step(2)] first_live_append [OF forest_live0 [OF F]] by simp
  have run: "next_loop h ht (int i) 0 = (if first_live h (addrs (ts i)) \<noteq> 0 then Some (int i, first_live h (addrs (ts i)))
      else next_loop h ht (int (Suc i)) 0)"
    using step(2) e by (subst next_loop.simps) (cases "ht ! i = 0"; simp add: add.commute)
  show ?case
  proof (cases "first_live h (addrs (ts i)) = 0")
    case True
    then show ?thesis
      using run l step(3) by simp
  next
    case False
    then show ?thesis
      using run l step(2) first_live_in [of h "addrs (ts i)"] by (simp add: it_at_def)
  qed
qed

lemma next_loop_at:
  assumes F: "forest ty n h ht ts" and a: "it_at ts it a" and o: "rest ts 0 = xs @ a # ys" "distinct (rest ts 0)"
  shows "\<exists>j. next_loop h ht (it_ht_index it) (it_node it) = Some (j, first_live h ys) \<and>
    (first_live h ys \<noteq> 0 \<longrightarrow> it_at ts \<lparr>it_ht_index = j, it_node = first_live h ys\<rparr> (first_live h ys))"
proof -
  obtain i where i: "it_ht_index it = int i" "i < HASH_SIZE" "it_node it = a" "a \<in> set (addrs (ts i))"
    using a unfolding it_at_def by (metis nat_0_le nat_less_iff)
  obtain us vs where u: "addrs (ts i) = us @ a # vs"
    using split_list [OF i(4)] by blast
  have a0: "a \<noteq> 0"
    using i(4) rep_0 [OF forest_tree(2) [OF F i(2)]] by metis
  have "rest ts 0 = before ts i @ rest ts i"
    using upt_add_eq_append [of 0 i "HASH_SIZE - i"] i(2) unfolding rest_def before_def by (simp flip: map_append concat_append)
  then have "rest ts 0 = (before ts i @ us) @ a # (vs @ rest ts (Suc i))"
    using rest_step [OF i(2)] u by simp
  then have ys: "ys = vs @ rest ts (Suc i)"
    using o by (metis append_Cons_eq_iff distinct_append not_distinct_conv_prefix distinct.simps(2) disjoint_iff list.set_intros(1))
  have sc: "scan_next h a = Some (first_live h vs)"
    using scan_next_ok [OF forest_tree(2,3) [OF F i(2)] u] .
  have l: "first_live h ys = (if first_live h vs = 0 then first_live h (rest ts (Suc i)) else first_live h vs)"
    unfolding ys by (rule first_live_append [OF forest_live0 [OF F]])
  have run: "next_loop h ht (it_ht_index it) (it_node it) = (if first_live h vs \<noteq> 0 then Some (int i, first_live h vs)
      else next_loop h ht (int (Suc i)) 0)"
    using i a0 sc by (subst next_loop.simps) (simp add: add.commute)
  show ?thesis
  proof (cases "first_live h vs = 0")
    case True
    then show ?thesis
      using run l next_loop_enter [OF F, of "Suc i"] i(2) by simp
  next
    case False
    then show ?thesis
      using run l i(2) u first_live_in [of h vs] by (simp add: it_at_def)
  qed
qed

text \<open>The operations of an iterator, over the order of the nodes in the database.\<close>

lemma next_ok:
  assumes F: "forest (m_type db) (m_maxlen db) (m_nodes db) (m_ht db) ts" and o: "distinct (rest ts 0)" "rest ts 0 = xs @ a # ys"
    and a: "it_at ts it a"
  shows "\<exists>it'. dbit_obj_next db it = Some (first_live (m_nodes db) ys, it') \<and>
    (first_live (m_nodes db) ys \<noteq> 0 \<longrightarrow> it_at ts it' (first_live (m_nodes db) ys))"
  using next_loop_at [OF F a o(2,1)] a by (auto simp: dbit_obj_next_def it_at_def)

lemma first_ok:
  assumes F: "forest (m_type db) (m_maxlen db) (m_nodes db) (m_ht db) ts"
  shows "\<exists>it'. dbit_obj_first db it = Some (first_live (m_nodes db) (rest ts 0), it') \<and>
    (first_live (m_nodes db) (rest ts 0) \<noteq> 0 \<longrightarrow> it_at ts it' (first_live (m_nodes db) (rest ts 0)))"
  using next_loop_enter [OF F, of 0] by (auto simp: dbit_obj_first_def dbit_obj_next_def)

lemma distinct_concat_upt:
  assumes "\<And>i. i < n \<Longrightarrow> distinct (f i)" "\<And>i j. i < n \<Longrightarrow> j < n \<Longrightarrow> i \<noteq> j \<Longrightarrow> set (f i) \<inter> set (f j) = {}"
  shows "distinct (concat (List.map f [0..<n]))"
  using assms
proof (induction n)
  case (Suc n)
  have "set (f n) \<inter> set (f i) = {}" if "i < n" for i
    using that by (intro Suc(3)) auto
  then have "(\<Union>x \<in> {0..<n}. set (f x)) \<inter> set (f n) = {}"
    by fastforce
  then show ?case
    using Suc by simp
qed simp

lemma forest_order:
  assumes F: "forest ty n h ht ts"
  shows "distinct (rest ts 0)" "set (rest ts 0) = dom h"
proof -
  show "distinct (rest ts 0)"
    unfolding rest_def using forest_tree(3) [OF F] forest_disjoint [OF F] by (intro distinct_concat_upt) auto
  show "set (rest ts 0) = dom h"
    using F by (auto simp: rest_def forest_def)
qed

lemma before_last: "before ts HASH_SIZE = rest ts 0"
  by (simp add: before_def rest_def)

lemma prev_loop_enter:
  assumes F: "forest ty n h ht ts" and i: "i \<le> HASH_SIZE"
  shows "\<exists>j. prev_loop h ht (int i - 1) 0 = Some (j, first_live h (rev (before ts i))) \<and>
    (first_live h (rev (before ts i)) \<noteq> 0 \<longrightarrow>
      it_at ts \<lparr>it_ht_index = j, it_node = first_live h (rev (before ts i))\<rparr> (first_live h (rev (before ts i))))"
  using i
proof (induction i)
  case 0
  then show ?case
    by (subst prev_loop.simps) (simp add: before_def first_live_def)
next
  case (Suc i)
  have i: "i < HASH_SIZE"
    using Suc(2) by simp
  let ?f = "first_live h (rev (addrs (ts i)))"
  have e: "(if ht ! i = 0 then Some 0 else enter_prev h (ht ! i)) = Some ?f"
    using enter_prev_ok [OF F i] .
  have l: "first_live h (rev (before ts (Suc i))) = (if ?f = 0 then first_live h (rev (before ts i)) else ?f)"
    using before_step [of ts i] first_live_append [OF forest_live0 [OF F]] by simp
  have run: "prev_loop h ht (int (Suc i) - 1) 0 = (if ?f \<noteq> 0 then Some (int i, ?f) else prev_loop h ht (int i - 1) 0)"
    using e by (subst prev_loop.simps) (cases "ht ! i = 0"; simp)
  show ?case
  proof (cases "?f = 0")
    case True
    then show ?thesis
      using run l Suc by simp
  next
    case False
    then show ?thesis
      using run l i first_live_in [of h "rev (addrs (ts i))"] by (simp add: it_at_def)
  qed
qed

lemma prev_loop_at:
  assumes F: "forest ty n h ht ts" and a: "it_at ts it a" and o: "rest ts 0 = xs @ a # ys" "distinct (rest ts 0)"
  shows "\<exists>j. prev_loop h ht (it_ht_index it) (it_node it) = Some (j, first_live h (rev xs)) \<and>
    (first_live h (rev xs) \<noteq> 0 \<longrightarrow> it_at ts \<lparr>it_ht_index = j, it_node = first_live h (rev xs)\<rparr> (first_live h (rev xs)))"
proof -
  obtain i where i: "it_ht_index it = int i" "i < HASH_SIZE" "it_node it = a" "a \<in> set (addrs (ts i))"
    using a unfolding it_at_def by (metis nat_0_le nat_less_iff)
  obtain us vs where u: "addrs (ts i) = us @ a # vs"
    using split_list [OF i(4)] by blast
  have a0: "a \<noteq> 0"
    using i(4) rep_0 [OF forest_tree(2) [OF F i(2)]] by metis
  have "rest ts 0 = before ts i @ rest ts i"
    using upt_add_eq_append [of 0 i "HASH_SIZE - i"] i(2) unfolding rest_def before_def by (simp flip: map_append concat_append)
  then have "rest ts 0 = (before ts i @ us) @ a # (vs @ rest ts (Suc i))"
    using rest_step [OF i(2)] u by simp
  then have xs: "xs = before ts i @ us"
    using o by (metis append_Cons_eq_iff distinct_append not_distinct_conv_prefix distinct.simps(2) disjoint_iff list.set_intros(1))
  have sc: "scan_prev h a = Some (first_live h (rev us))"
    using scan_prev_ok [OF forest_tree(2,3) [OF F i(2)] u] .
  have l: "first_live h (rev xs) = (if first_live h (rev us) = 0 then first_live h (rev (before ts i)) else first_live h (rev us))"
    unfolding xs rev_append by (rule first_live_append [OF forest_live0 [OF F]])
  have run: "prev_loop h ht (it_ht_index it) (it_node it) = (if first_live h (rev us) \<noteq> 0 then Some (int i, first_live h (rev us))
      else prev_loop h ht (int i - 1) 0)"
    using i a0 sc by (subst prev_loop.simps) simp
  show ?thesis
  proof (cases "first_live h (rev us) = 0")
    case True
    then show ?thesis
      using run l prev_loop_enter [OF F, of i] i(2) by simp
  next
    case False
    then show ?thesis
      using run l i(2) u first_live_in [of h "rev us"] by (simp add: it_at_def)
  qed
qed

lemma prev_ok:
  assumes F: "forest (m_type db) (m_maxlen db) (m_nodes db) (m_ht db) ts" and o: "distinct (rest ts 0)" "rest ts 0 = xs @ a # ys"
    and a: "it_at ts it a"
  shows "\<exists>it'. dbit_obj_prev db it = Some (first_live (m_nodes db) (rev xs), it') \<and>
    (first_live (m_nodes db) (rev xs) \<noteq> 0 \<longrightarrow> it_at ts it' (first_live (m_nodes db) (rev xs)))"
  using prev_loop_at [OF F a o(2,1)] a by (auto simp: dbit_obj_prev_def it_at_def)

lemma last_ok:
  assumes F: "forest (m_type db) (m_maxlen db) (m_nodes db) (m_ht db) ts"
  shows "\<exists>it'. dbit_obj_last db it = Some (first_live (m_nodes db) (rev (rest ts 0)), it') \<and>
    (first_live (m_nodes db) (rev (rest ts 0)) \<noteq> 0 \<longrightarrow> it_at ts it' (first_live (m_nodes db) (rev (rest ts 0))))"
  using prev_loop_enter [OF F, of HASH_SIZE] unfolding before_last by (auto simp: dbit_obj_last_def dbit_obj_prev_def)

text \<open>A loop over all entries: \<open>for (d = first; d; d = next)\<close>, with the nodes it visits.\<close>

fun visit :: "nat \<Rightarrow> dbmap \<Rightarrow> nat \<times> dbit \<Rightarrow> nat list option" where
  "visit 0 db d = None"
| "visit (Suc n) db (a, it) = (if a = 0 then Some [] else do {
     d \<leftarrow> dbit_obj_next db it;
     as \<leftarrow> visit n db d;
     Some (a # as) })"

lemma visit_ok:
  assumes F: "forest (m_type db) (m_maxlen db) (m_nodes db) (m_ht db) ts" and o: "rest ts 0 = xs @ ys"
    and a: "a = first_live (m_nodes db) ys" "a \<noteq> 0 \<longrightarrow> it_at ts it a" and n: "length (filter (\<lambda>a. a \<in> live (m_nodes db)) ys) < n"
  shows "visit n db (a, it) = Some (filter (\<lambda>a. a \<in> live (m_nodes db)) ys)"
  using o a n
proof (induction n arbitrary: xs ys a it)
  case (Suc n)
  let ?L = "\<lambda>ys. filter (\<lambda>a. a \<in> live (m_nodes db)) ys"
  show ?case
  proof (cases "a = 0")
    case True
    have "?L ys = []"
      using True Suc(3) forest_live0 [OF F] by (cases "?L ys") (auto simp: first_live_def filter_eq_Cons_iff)
    then show ?thesis
      using True by simp
  next
    case False
    have "?L ys \<noteq> []"
      using False Suc(3) by (auto simp: first_live_def)
    then obtain b zs where bz: "?L ys = b # zs"
      by (cases "?L ys") auto
    then have L: "?L ys = a # zs"
      using Suc(3) by (simp add: first_live_def)
    obtain us vs where ys: "ys = us @ a # vs" "zs = ?L vs"
      using filter_eq_ConsD [OF L] by blast
    have o': "rest ts 0 = (xs @ us) @ a # vs" "rest ts 0 = (xs @ us @ [a]) @ vs"
      using Suc(2) ys(1) by simp_all
    have at: "it_at ts it a"
      using Suc(4) False by simp
    obtain it' where it': "dbit_obj_next db it = Some (first_live (m_nodes db) vs, it')"
       "first_live (m_nodes db) vs \<noteq> 0 \<longrightarrow> it_at ts it' (first_live (m_nodes db) vs)"
      using next_ok [OF F forest_order(1) [OF F] o'(1) at] by blast
    have "visit n db (first_live (m_nodes db) vs, it') = Some (?L vs)"
      using Suc(1) [OF o'(2) HOL.refl it'(2)] Suc(5) unfolding L ys(2) by simp
    then show ?thesis
      using it'(1) False unfolding L ys(2) by simp
  qed
qed simp

text \<open>Iterating ends, after visiting every entry exactly once.\<close>

lemma iterate_ok:
  assumes ok: "db_ok db"
  shows "\<exists>d as. dbit_obj_first db it = Some d \<and> visit (Suc (card (live (m_nodes db)))) db d = Some as \<and>
    distinct as \<and> set as = live (m_nodes db)"
proof -
  obtain ts where F: "forest (m_type db) (m_maxlen db) (m_nodes db) (m_ht db) ts"
    using db_ok_inv [OF ok] unfolding db_inv_def by blast
  let ?as = "filter (\<lambda>a. a \<in> live (m_nodes db)) (rest ts 0)"
  have "distinct ?as" "set ?as = live (m_nodes db)"
    using forest_order [OF F] live_dom(1) [of "m_nodes db"] by auto
  moreover from this have "length ?as = card (live (m_nodes db))"
    by (metis distinct_card)
  moreover obtain it' where "dbit_obj_first db it = Some (first_live (m_nodes db) (rest ts 0), it')"
      "first_live (m_nodes db) (rest ts 0) \<noteq> 0 \<longrightarrow> it_at ts it' (first_live (m_nodes db) (rest ts 0))"
    using first_ok [OF F] by blast
  ultimately show ?thesis
    using visit_ok [OF F, of "[]" "rest ts 0" _ it' "Suc (card (live (m_nodes db)))"] by simp
qed

end
