(* ===== verification/DbEach.thy ===== *)
theory DbEach imports DbIter begin

text \<open>
  Loops over all entries of a database: \<^verbatim>\<open>db_obj_vforeach\<close>, \<^verbatim>\<open>db_obj_vgetall\<close>, \<^verbatim>\<open>db_obj_vclear\<close> and
  \<^verbatim>\<open>db_obj_vdestroy\<close>. A callback is a function of the key, the data and a state; it does not call the
  database back. Sums are unbounded integers.
\<close>

section \<open>Operations\<close>

text \<open>From a node whose subtrees have been visited: up to the next right sibling.\<close>

partial_function (option) pre_up :: "heap \<Rightarrow> nat \<Rightarrow> nat option" where
  "pre_up h node = do {
     n \<leftarrow> h node;
     let parent = dn_parent n;
     if parent = 0 then Some 0 else do {
       p \<leftarrow> h parent;
       if dn_right p \<noteq> 0 \<and> dn_left p = node then Some (dn_right p) else pre_up h parent } }"

declare pre_up.simps [code]

definition pre_next :: "heap \<Rightarrow> nat \<Rightarrow> nat option" where
  "pre_next h node = do {
     n \<leftarrow> h node;
     if dn_left n \<noteq> 0 then Some (dn_left n)
     else if dn_right n \<noteq> 0 then Some (dn_right n)
     else pre_up h node }"

type_synonym 's db_apply = "db_key \<Rightarrow> db_data \<Rightarrow> 's \<Rightarrow> int \<times> db_data \<times> 's"

text \<open>The function is applied to an entry that is not removed; it may change the data.\<close>

definition each_node :: "'s db_apply \<Rightarrow> nat \<Rightarrow> heap \<times> 's \<times> int \<Rightarrow> (heap \<times> 's \<times> int) option" where
  "each_node func node = (\<lambda>(h, s, sum). do {
     n \<leftarrow> h node;
     Some (if dn_deleted n then (h, s, sum)
       else let (r, d, s) = func (dn_key n) (dn_data n) s in (h(node \<mapsto> n\<lparr>dn_data := d\<rparr>), s, s32 (sum + r))) })"

partial_function (option) each_loop :: "'s db_apply \<Rightarrow> nat \<Rightarrow> heap \<times> 's \<times> int \<Rightarrow> (heap \<times> 's \<times> int) option" where
  "each_loop func node st = (if node = 0 then Some st else do {
     st \<leftarrow> each_node func node st;
     y \<leftarrow> pre_next (fst st) node;
     each_loop func y st })"

declare each_loop.simps [code]

primrec each_buckets :: "'s db_apply \<Rightarrow> nat list \<Rightarrow> heap \<times> 's \<times> int \<Rightarrow> (heap \<times> 's \<times> int) option" where
  "each_buckets func [] st = Some st"
| "each_buckets func (root # ht) st = do { st \<leftarrow> each_loop func root st; each_buckets func ht st }"

definition db_obj_vforeach :: "'s db_apply \<Rightarrow> 's \<Rightarrow> dbmap \<Rightarrow> (int \<times> 's \<times> dbmap) option" where
  "db_obj_vforeach func s db = do {
     db \<leftarrow> db_free_lock db;
     (h, s, sum) \<leftarrow> each_buckets func (m_ht db) (m_nodes db, s, 0);
     db \<leftarrow> db_free_unlock (db\<lparr>m_nodes := h\<rparr>);
     Some (sum, s, db) }"

text \<open>The addresses of the matching entries, at most \<open>limit\<close>, and their number. \<open>buf\<close> may be null.\<close>

definition get_node :: "(db_key \<Rightarrow> db_data \<Rightarrow> int) \<Rightarrow> bool \<Rightarrow> nat \<Rightarrow> heap \<Rightarrow> nat \<Rightarrow> nat list \<times> nat \<Rightarrow> (nat list \<times> nat) option" where
  "get_node match has_buf limit h node = (\<lambda>(buf, ret). do {
     n \<leftarrow> h node;
     Some (if \<not> dn_deleted n \<and> match (dn_key n) (dn_data n) = 0
       then ((if has_buf \<and> ret < limit then buf @ [node] else buf), ret + 1) else (buf, ret)) })"

partial_function (option) get_loop :: "(db_key \<Rightarrow> db_data \<Rightarrow> int) \<Rightarrow> bool \<Rightarrow> nat \<Rightarrow> heap \<Rightarrow> nat \<Rightarrow> nat list \<times> nat \<Rightarrow> (nat list \<times> nat) option" where
  "get_loop match has_buf limit h node st = (if node = 0 then Some st else do {
     st \<leftarrow> get_node match has_buf limit h node st;
     y \<leftarrow> pre_next h node;
     get_loop match has_buf limit h y st })"

declare get_loop.simps [code]

primrec get_buckets :: "(db_key \<Rightarrow> db_data \<Rightarrow> int) \<Rightarrow> bool \<Rightarrow> nat \<Rightarrow> heap \<Rightarrow> nat list \<Rightarrow> nat list \<times> nat \<Rightarrow> (nat list \<times> nat) option" where
  "get_buckets match has_buf limit h [] st = Some st"
| "get_buckets match has_buf limit h (root # ht) st = do { st \<leftarrow> get_loop match has_buf limit h root st; get_buckets match has_buf limit h ht st }"

definition db_obj_vgetall :: "(db_key \<Rightarrow> db_data \<Rightarrow> int) \<Rightarrow> bool \<Rightarrow> nat \<Rightarrow> dbmap \<Rightarrow> (nat list \<times> nat \<times> dbmap) option" where
  "db_obj_vgetall match has_buf limit db = do {
     db \<leftarrow> db_free_lock db;
     (buf, ret) \<leftarrow> get_buckets match has_buf limit (m_nodes db) (m_ht db) ([], 0);
     db \<leftarrow> db_free_unlock db;
     Some (buf, ret, db) }"

text \<open>What happens to an entry when the database is cleared, and what is freed.\<close>

definition clear_visit :: "DBType \<Rightarrow> DBReleaser \<Rightarrow> 's db_apply option \<Rightarrow> dbn \<Rightarrow> 's \<times> int \<times> freed list \<Rightarrow> 's \<times> int \<times> freed list" where
  "clear_visit type release func n = (\<lambda>(s, sum, fr).
     if dn_deleted n then (s, sum, fr @ (if is_str_type type then [Free_key (dn_key n)] else []))
     else let (r, d, s) = (case func of None \<Rightarrow> (0, dn_data n, s) | Some func \<Rightarrow> func (dn_key n) (dn_data n) s) in
       (s, s32 (sum + r), fr @ releases release (dn_key n) d DB_RELEASE_BOTH))"

partial_function (option) clear_loop ::
  "DBType \<Rightarrow> DBReleaser \<Rightarrow> 's db_apply option \<Rightarrow> heap \<Rightarrow> nat \<Rightarrow> 's \<times> int \<times> freed list \<Rightarrow> (heap \<times> 's \<times> int \<times> freed list) option" where
  "clear_loop type release func h node st = (if node = 0 then Some (h, st) else do {
     n \<leftarrow> h node;
     if dn_left n \<noteq> 0 then clear_loop type release func h (dn_left n) st
     else if dn_right n \<noteq> 0 then clear_loop type release func h (dn_right n) st
     else do {
       let parent = dn_parent n;
       h \<leftarrow> (if parent = 0 then Some h
             else upd_node parent (\<lambda>p. if dn_left p = node then p\<lparr>dn_left := 0\<rparr> else p\<lparr>dn_right := 0\<rparr>) h);
       clear_loop type release func (h(node := None)) parent (clear_visit type release func n st) } })"

declare clear_loop.simps [code]

primrec clear_buckets ::
  "DBType \<Rightarrow> DBReleaser \<Rightarrow> 's db_apply option \<Rightarrow> nat list \<Rightarrow> heap \<times> 's \<times> int \<times> freed list \<Rightarrow> (heap \<times> 's \<times> int \<times> freed list) option" where
  "clear_buckets type release func [] st = Some st"
| "clear_buckets type release func (root # ht) st = do {
     st \<leftarrow> clear_loop type release func (fst st) root (snd st);
     clear_buckets type release func ht st }"

definition db_obj_vclear :: "'s db_apply option \<Rightarrow> 's \<Rightarrow> dbmap \<Rightarrow> (int \<times> 's \<times> dbmap) option" where
  "db_obj_vclear func s db = do {
     db \<leftarrow> db_free_lock db;
     (h, s, sum, fr) \<leftarrow> clear_buckets (m_type db) (m_release db) func (m_ht db) (m_nodes db, s, 0, m_freed db);
     db \<leftarrow> db_free_unlock (db\<lparr>m_cache := 0, m_nodes := h, m_ht := List.map (\<lambda>_. 0) (m_ht db), m_freed := fr,
       m_free_list := [], m_item_count := 0\<rparr>);
     Some (sum, s, db) }"

text \<open>The last database is the one that is freed.\<close>

definition db_obj_vdestroy :: "'s db_apply option \<Rightarrow> 's \<Rightarrow> dbmap \<Rightarrow> (int \<times> 's \<times> dbmap) option" where
  "db_obj_vdestroy func s db = (if m_global_lock db then Some (0, s, db) else do {
     db \<leftarrow> db_free_lock db;
     (sum, s, db) \<leftarrow> db_obj_vclear func s (db\<lparr>m_global_lock := True\<rparr>);
     db \<leftarrow> db_free_unlock (db\<lparr>m_free_max := 0\<rparr>);
     Some (sum, s, db) })"

section \<open>The walk\<close>

fun pre :: "rbtree \<Rightarrow> nat list" where
  "pre Leaf = []"
| "pre (Node l (a, c) r) = a # pre l @ pre r"

text \<open>What is still to be visited when a subtree is done.\<close>

fun cpre :: "frame list \<Rightarrow> nat list" where
  "cpre [] = []"
| "cpre (Fr d a c s # cs) = (if d = Lft then pre s else []) @ cpre cs"

lemma set_pre: "set (pre t) = set (addrs t)"
  by (induction t rule: pre.induct) auto

lemma distinct_pre: "distinct (addrs t) \<Longrightarrow> distinct (pre t)"
  by (induction t rule: pre.induct) (auto simp: set_pre)

text \<open>The position that comes next.\<close>

lemma cpre_next:
  "cpre cs \<noteq> [] \<Longrightarrow> \<exists>cs' t'. plug cs t = plug cs' t' \<and> t' \<noteq> Leaf \<and> cpre cs = pre t' @ cpre cs'"
proof (induction cs arbitrary: t rule: cpre.induct)
  case (2 d a c s cs)
  show ?case
  proof (cases "d = Lft \<and> s \<noteq> Leaf")
    case True
    then have "plug (Fr d a c s # cs) t = plug (Fr Rgt a c t # cs) s"
      by simp
    then show ?thesis
      using True by (intro exI [of _ "Fr Rgt a c t # cs"] exI [of _ s]) simp
  next
    case False
    then have "cpre (Fr d a c s # cs) = cpre cs"
      by auto
    then show ?thesis
      using 2 by auto
  qed
qed simp

lemma first_of_pre: "first_of (pre s @ ys) = (if s = Leaf then first_of ys else ptr s)"
  by (cases s rule: ptr.cases) auto

lemma pre_up_ok:
  assumes "repc h z cs" "h z = Some n" "dn_parent n = cpar cs" "z \<noteq> 0" "z \<notin> set (caddrs cs)" "distinct (caddrs cs)"
  shows "pre_up h z = Some (first_of (cpre cs))"
  using assms
proof (induction h z cs arbitrary: n rule: repc.induct)
  case (1 h p)
  then show ?case
    by (subst pre_up.simps) simp
next
  case (2 h p d a c s cs)
  obtain m where m: "h a = Some m" "dn_parent m = cpar cs" "child d m = p" "child (opp d) m = ptr s" "rep h a s" "a \<noteq> 0"
    using 2(2) by auto
  have s: "ptr s \<noteq> p"
    using 2(5,6) ptr_in [of s] by (cases "s = Leaf") auto
  have up: "pre_up h a = Some (first_of (cpre cs))"
    using 2 m by (intro 2(1) [OF _ m(1,2)]) auto
  show ?case
    using m s 2(3,4) up by (subst pre_up.simps) (cases d; auto simp: first_of_pre)
qed

lemma pre_next_ok:
  assumes r: "rep h 0 (plug cs (Node l (z, c) r))" "distinct (addrs (plug cs (Node l (z, c) r)))"
  shows "pre_next h z = Some (first_of (pre l @ pre r @ cpre cs))"
proof -
  have rz: "rep h (cpar cs) (Node l (z, c) r)" "repc h z cs"
    using r(1) unfolding rep_plug by auto
  then obtain n where n: "h z = Some n" "dn_parent n = cpar cs" "dn_left n = ptr l" "dn_right n = ptr r" "z \<noteq> 0"
      "rep h z l" "rep h z r"
    by auto
  have "pre_up h z = Some (first_of (cpre cs))"
    using pre_up_ok [OF rz(2) n(1,2,5)] r(2) by simp
  then show ?thesis
    using n by (auto simp: pre_next_def first_of_pre)
qed

text \<open>The next position, as the loops see it.\<close>

lemma pre_step:
  assumes "rep h 0 (plug cs (Node l (z, c) r))" "distinct (addrs (plug cs (Node l (z, c) r)))"
  obtains (last) "pre l @ pre r @ cpre cs = []" "pre_next h z = Some 0"
    | (more) cs' t' where "plug cs (Node l (z, c) r) = plug cs' t'" "t' \<noteq> Leaf" "pre l @ pre r @ cpre cs = pre t' @ cpre cs'"
        "pre_next h z = Some (ptr t')"
proof -
  note nx = pre_next_ok [OF assms]
  have *: thesis if "plug cs (Node l (z, c) r) = plug cs' t'" "t' \<noteq> Leaf" "pre l @ pre r @ cpre cs = pre t' @ cpre cs'" for cs' t'
    using more [OF that] nx that by (simp add: first_of_pre)
  show thesis
  proof (cases "pre l @ pre r @ cpre cs = []")
    case True
    then show thesis
      using last nx by simp
  next
    case False
    show thesis
    proof (cases "l = Leaf")
      case True
      then have "cpre (Fr Lft z c r # cs) \<noteq> []"
        using False by simp
      then show thesis
        using cpre_next [of "Fr Lft z c r # cs" l] True * by auto
    next
      case l: False
      then show thesis
        using * [of "Fr Lft z c r # cs" l] by simp
    qed
  qed
qed

section \<open>Applying a function\<close>

text \<open>The walk applies the function to the nodes in this order.\<close>

fun each_list :: "'s db_apply \<Rightarrow> nat list \<Rightarrow> heap \<times> 's \<times> int \<Rightarrow> (heap \<times> 's \<times> int) option" where
  "each_list func [] st = Some st"
| "each_list func (a # as) st = do { st \<leftarrow> each_node func a st; each_list func as st }"

lemma each_list_append: "each_list func (as @ bs) st = do { st \<leftarrow> each_list func as st; each_list func bs st }"
  by (induction as arbitrary: st) (auto split: bind_splits)

lemma each_node_rep:
  assumes "each_node func z (h, s, sm) = Some (h', s', sm')"
  shows "rep h' pa t = rep h pa t"
proof -
  obtain n where n: "h z = Some n" "h' = h \<or> (\<exists>d. h' = h(z \<mapsto> n\<lparr>dn_data := d\<rparr>))"
    using assms by (auto simp: each_node_def bind_eq_Some_conv Let_def split: if_split_asm prod.split_asm)
  then show ?thesis
    using rep_same [of h z n] by auto
qed

lemma each_node_some:
  assumes "h z = Some n"
  obtains h' s' sm' where "each_node func z (h, s, sm) = Some (h', s', sm')"
  using assms that by (cases "each_node func z (h, s, sm)") (auto simp: each_node_def)

lemma each_loop_walk:
  assumes "rep h 0 (plug cs t)" "distinct (addrs (plug cs t))" "t \<noteq> Leaf"
  shows "each_loop func (ptr t) (h, s, sm) = each_list func (pre t @ cpre cs) (h, s, sm)"
  using assms
proof (induction "length (pre t @ cpre cs)" arbitrary: cs t h s sm rule: less_induct)
  case less
  obtain l z c r where t: "t = Node l (z, c) r"
    using less.prems(3) by (cases t rule: ptr.cases) auto
  have rz: "rep h (cpar cs) t"
    using less.prems(1) unfolding rep_plug by simp
  then obtain n where n: "h z = Some n" "z \<noteq> 0"
    unfolding t by auto
  obtain h1 s1 sm1 where e: "each_node func z (h, s, sm) = Some (h1, s1, sm1)"
    using each_node_some [of h z n, OF n(1)] .
  have r1: "rep h1 0 (plug cs t)"
    using each_node_rep [OF e] less.prems(1) by simp
  have L: "each_list func (pre t @ cpre cs) (h, s, sm) = each_list func (pre l @ pre r @ cpre cs) (h1, s1, sm1)"
    using e unfolding t by simp
  have run: "each_loop func (ptr t) (h, s, sm) = each_loop func y (h1, s1, sm1)" if "pre_next h1 z = Some y" for y
    using n e that unfolding t by (subst each_loop.simps) simp
  from r1 [unfolded t] less.prems(2) [unfolded t] show ?case
  proof (cases rule: pre_step)
    case last
    have "each_loop func 0 (h1, s1, sm1) = Some (h1, s1, sm1)"
      by (subst each_loop.simps) simp
    then show ?thesis
      unfolding run [OF last(2)] L last(1) by simp
  next
    case (more cs' t')
    then have "length (pre t' @ cpre cs') < length (pre t @ cpre cs)"
      unfolding more(3) [symmetric] t by simp
    then show ?thesis
      unfolding run [OF more(4)] L more(3)
      using less.hyps [of t' cs' h1 s1 sm1] r1 less.prems(2) more(1,2) t by simp
  qed
qed

lemma each_root:
  assumes "rep h 0 T" "distinct (addrs T)"
  shows "each_loop func (ptr T) (h, s, sm) = each_list func (pre T) (h, s, sm)"
proof (cases "T = Leaf")
  case True
  then show ?thesis
    by (subst each_loop.simps) simp
next
  case False
  then show ?thesis
    using each_loop_walk [of h "[]" T] assms by simp
qed

text \<open>What a function does that adds \<open>f\<close>, replaces the data by \<open>g\<close> and collects the entries.\<close>

definition collect :: "(db_key \<Rightarrow> db_data \<Rightarrow> int) \<Rightarrow> (db_key \<Rightarrow> db_data \<Rightarrow> db_data) \<Rightarrow> (db_key \<times> db_data) list db_apply" where
  "collect f g key data es = (f key data, g key data, es @ [(key, data)])"

definition entry_at :: "heap \<Rightarrow> nat \<Rightarrow> db_key \<times> db_data" where
  "entry_at h a = (dn_key (the (h a)), dn_data (the (h a)))"

definition apply_data :: "(db_key \<Rightarrow> db_data \<Rightarrow> db_data) \<Rightarrow> nat set \<Rightarrow> heap \<Rightarrow> heap" where
  "apply_data g S h = (\<lambda>a. case h a of None \<Rightarrow> None
     | Some n \<Rightarrow> if a \<in> S \<and> \<not> dn_deleted n then Some (n\<lparr>dn_data := g (dn_key n) (dn_data n)\<rparr>) else Some n)"

lemma each_list_collect:
  assumes "distinct as" "set as \<subseteq> dom h"
  shows "each_list (collect f g) as (h, es, s32 sm) = Some (apply_data g (set as) h,
    es @ List.map (entry_at h) (filter (\<lambda>a. a \<in> live h) as),
    s32 (sm + sum_list (List.map (\<lambda>a. case entry_at h a of (k, d) \<Rightarrow> f k d) (filter (\<lambda>a. a \<in> live h) as))))"
  using assms
proof (induction as arbitrary: h es sm)
  case Nil
  have "apply_data g {} h = h"
    by (auto simp: apply_data_def fun_eq_iff split: option.split)
  then show ?case
    by simp
next
  case (Cons a as)
  obtain n where n: "h a = Some n"
    using Cons.prems(2) by auto
  show ?case
  proof (cases "dn_deleted n")
    case True
    have "apply_data g (set (a # as)) h = apply_data g (set as) h"
      using n True by (auto simp: apply_data_def fun_eq_iff split: option.split)
    then show ?thesis
      using Cons n True by (simp add: each_node_def live_def)
  next
    case False
    define k where "k = h(a \<mapsto> n\<lparr>dn_data := g (dn_key n) (dn_data n)\<rparr>)"
    have e: "each_node (collect f g) a (h, es, s32 sm) = Some (k, es @ [(dn_key n, dn_data n)], s32 (sm + f (dn_key n) (dn_data n)))"
      using n False by (simp add: each_node_def collect_def k_def s32_add)
    have l: "live k = live h" "a \<in> live h"
      using n False by (auto simp: live_def k_def)
    have sub: "set as \<subseteq> dom k" "distinct as" "a \<notin> set as"
      using Cons.prems by (auto simp: k_def)
    have "entry_at k b = entry_at h b" if "b \<in> set as" for b
      using that sub(3) by (auto simp: entry_at_def k_def)
    then have m: "List.map (entry_at k) (filter (\<lambda>a. a \<in> live h) as) = List.map (entry_at h) (filter (\<lambda>a. a \<in> live h) as)"
      "List.map (\<lambda>a. case entry_at k a of (k, d) \<Rightarrow> f k d) (filter (\<lambda>a. a \<in> live h) as) =
       List.map (\<lambda>a. case entry_at h a of (k, d) \<Rightarrow> f k d) (filter (\<lambda>a. a \<in> live h) as)"
      by simp_all
    have "apply_data g (set as) k = apply_data g (set (a # as)) h"
      using n False sub(3) by (auto simp: apply_data_def fun_eq_iff k_def split: option.split)
    moreover have "entry_at h a = (dn_key n, dn_data n)"
      using n by (simp add: entry_at_def)
    ultimately show ?thesis
      using Cons.IH [OF sub(2,1)] e l m by (simp add: add.assoc)
  qed
qed

section \<open>All buckets\<close>

definition pre_all :: "rbtree list \<Rightarrow> nat list" where
  "pre_all Ts = concat (List.map pre Ts)"

lemma each_list_rep:
  assumes "each_list func as (h, s, sm) = Some (h', s', sm')"
  shows "rep h' pa t = rep h pa t"
  using assms
proof (induction as arbitrary: h s sm)
  case (Cons a as)
  then obtain h1 s1 sm1 where "each_node func a (h, s, sm) = Some (h1, s1, sm1)" "each_list func as (h1, s1, sm1) = Some (h', s', sm')"
    by (auto simp: bind_eq_Some_conv)
  then show ?case
    using Cons.IH [of h1 s1 sm1] each_node_rep [of func a h s sm h1 s1 sm1] by simp
qed simp

lemma each_buckets_walk:
  assumes "\<forall>T \<in> set Ts. rep h 0 T \<and> distinct (addrs T)"
  shows "each_buckets func (List.map ptr Ts) (h, s, sm) = each_list func (pre_all Ts) (h, s, sm)"
  using assms
proof (induction Ts arbitrary: h s sm)
  case (Cons T Ts)
  have T: "each_loop func (ptr T) (h, s, sm) = each_list func (pre T) (h, s, sm)"
    using Cons.prems by (intro each_root) auto
  show ?case
  proof (cases "each_list func (pre T) (h, s, sm)")
    case None
    then show ?thesis
      using T by (simp add: pre_all_def each_list_append)
  next
    case (Some st)
    obtain h1 s1 sm1 where st: "st = (h1, s1, sm1)"
      by (cases st) auto
    have "\<forall>T \<in> set Ts. rep h1 0 T \<and> distinct (addrs T)"
      using Cons.prems each_list_rep [OF Some [unfolded st]] by auto
    then show ?thesis
      using Cons.IH [of h1 s1 sm1] T Some st by (simp add: pre_all_def each_list_append)
  qed
qed (simp add: pre_all_def)

lemma forest_trees:
  assumes F: "forest ty n h ht ts"
  defines "Ts \<equiv> List.map ts [0..<HASH_SIZE]"
  shows "ht = List.map ptr Ts" "\<forall>T \<in> set Ts. rep h 0 T \<and> distinct (addrs T)" "distinct (pre_all Ts)" "set (pre_all Ts) = dom h"
proof -
  show "ht = List.map ptr Ts"
    using F forest_tree(1) [OF F] by (intro nth_equalityI) (auto simp: Ts_def forest_def)
  show "\<forall>T \<in> set Ts. rep h 0 T \<and> distinct (addrs T)"
    using forest_tree [OF F] by (auto simp: Ts_def)
  have "distinct (concat (List.map (\<lambda>i. pre (ts i)) [0..<HASH_SIZE]))"
    using forest_disjoint [OF F] forest_tree(3) [OF F] by (intro distinct_concat_upt) (auto simp: distinct_pre set_pre)
  then show "distinct (pre_all Ts)"
    by (simp add: pre_all_def Ts_def comp_def)
  show "set (pre_all Ts) = dom h"
    using F by (auto simp: pre_all_def Ts_def set_pre forest_def)
qed

lemma rep_fields:
  assumes "\<And>a. map_option (\<lambda>n. (dn_parent n, dn_left n, dn_right n, dn_color n)) (h' a) =
    map_option (\<lambda>n. (dn_parent n, dn_left n, dn_right n, dn_color n)) (h a)"
  shows "rep h' pa t = rep h pa t"
  using assms
proof (induction h pa t rule: rep.induct)
  case (2 h pa l a c r)
  have "rep h' a l = rep h a l" "rep h' a r = rep h a r"
    using 2 by blast+
  then show ?case
    using 2(3) [of a] by (cases "h a"; cases "h' a") auto
qed simp

lemma forest_apply_data:
  assumes F: "forest ty n h ht ts"
  shows "forest ty n (apply_data g S h) ht ts"
proof -
  let ?h = "apply_data g S h"
  have d: "dom ?h = dom h"
    by (auto simp: apply_data_def dom_def split: option.split)
  have k: "key_at ?h a = key_at h a" for a
    by (auto simp: apply_data_def key_at_def split: option.split)
  have r: "rep ?h pa t = rep h pa t" for pa t
    by (rule rep_fields) (auto simp: apply_data_def split: option.split)
  show ?thesis
    using F unfolding forest_def bucket_ok_def k r d .
qed

lemma apply_live: "live (apply_data g S h) = live h" "dead (apply_data g S h) = dead h"
  by (auto simp: live_def dead_def apply_data_def split: option.split_asm if_split_asm)

definition map_values :: "(db_key \<Rightarrow> db_data \<Rightarrow> db_data) \<Rightarrow> (int list \<rightharpoonup> db_key \<times> db_data) \<Rightarrow> (int list \<rightharpoonup> db_key \<times> db_data)" where
  "map_values g m = (\<lambda>k. map_option (\<lambda>(key, d). (key, g key d)) (m k))"

lemma cores_apply:
  "cores (apply_data g S h) a = (case cores h a of None \<Rightarrow> None
     | Some (k, d, del) \<Rightarrow> Some (k, if a \<in> S \<and> \<not> del then g k d else d, del))"
  by (auto simp: cores_def apply_data_def core_def split: option.split)

lemma db_abs_apply:
  assumes A: "db_abs db m" and S: "live (m_nodes db) \<subseteq> S" and db': "m_nodes db' = apply_data g S (m_nodes db)" "m_type db' = m_type db"
  shows "db_abs db' (map_values g m)"
proof -
  have c: "cores (m_nodes db') a = Some (k, d, False) \<longleftrightarrow> (\<exists>d'. cores (m_nodes db) a = Some (k, d', False) \<and> d = g k d')" for a k d
  proof -
    have "a \<in> S" if "cores (m_nodes db) a = Some (k, d', False)" for d'
      using S that live_cores [of "m_nodes db"] by blast
    then show ?thesis
      by (auto simp: db'(1) cores_apply split: option.split_asm if_split_asm)
  qed
  have "map_values g m k = Some (key, d) \<longleftrightarrow> (\<exists>d'. m k = Some (key, d') \<and> d = g key d')" for k key d
    by (auto simp: map_values_def)
  then show ?thesis
    using A unfolding db_abs_def c db'(2) by blast
qed

lemma db_inv_apply:
  assumes I: "db_inv fs db"
  shows "db_inv fs (db\<lparr>m_nodes := apply_data g S (m_nodes db)\<rparr>)"
  using I forest_apply_data unfolding db_inv_def by (fastforce simp: apply_live)

text \<open>The entries of a map, each once, in some order.\<close>

definition entries :: "(int list \<rightharpoonup> db_key \<times> db_data) \<Rightarrow> (db_key \<times> db_data) list \<Rightarrow> bool" where
  "entries m es \<longleftrightarrow> distinct es \<and> set es = ran m \<and> length es = card (dom m)"

lemma entries_nodes:
  assumes F: "forest (m_type db) (m_maxlen db) (m_nodes db) (m_ht db) ts" and A: "db_abs db m"
    and as: "distinct as" "set as = live (m_nodes db)"
  shows "entries m (List.map (entry_at (m_nodes db)) as)"
proof -
  let ?e = "entry_at (m_nodes db)"
  have e: "m (db_norm (m_type db) (key_at (m_nodes db) a)) = Some (?e a) \<and> fst (?e a) = key_at (m_nodes db) a" if "a \<in> live (m_nodes db)" for a
  proof -
    obtain n where n: "m_nodes db a = Some n" "\<not> dn_deleted n"
      using \<open>a \<in> live (m_nodes db)\<close> by (auto simp: live_def)
    then show ?thesis
      using db_abs_node [OF F A n(1) HOL.refl] by (simp add: entry_at_def key_at_def)
  qed
  have "inj_on ?e (live (m_nodes db))"
  proof (rule inj_onI)
    fix a b
    assume ab: "a \<in> live (m_nodes db)" "b \<in> live (m_nodes db)" "?e a = ?e b"
    then have "key_at (m_nodes db) a = key_at (m_nodes db) b"
      using e by metis
    moreover have "a \<in> dom (m_nodes db)" "b \<in> dom (m_nodes db)"
      using ab live_dom(1) [of "m_nodes db"] by auto
    ultimately show "a = b"
      using forest_unique [OF F, of a b] by simp
  qed
  moreover have "ran m = ?e ` live (m_nodes db)"
  proof (intro equalityI subsetI)
    fix kd
    assume "kd \<in> ran m"
    then obtain k where "m k = Some kd"
      by (auto simp: ran_def)
    then obtain a where a: "cores (m_nodes db) a = Some (fst kd, snd kd, False)"
      using A unfolding db_abs_def by (cases kd) auto
    then have "a \<in> live (m_nodes db)" "?e a = kd"
      by (auto simp: live_cores entry_at_def) (auto simp: cores_def core_def)
    then show "kd \<in> ?e ` live (m_nodes db)"
      by blast
  next
    fix kd
    assume "kd \<in> ?e ` live (m_nodes db)"
    then show "kd \<in> ran m"
      using e by (auto intro: ranI)
  qed
  moreover have "length as = card (dom m)"
    using distinct_card [OF as(1)] as(2) card_entries [OF F A] by simp
  ultimately show ?thesis
    using as by (simp add: entries_def distinct_map)
qed

text \<open>The whole of \<open>foreach\<close>: every entry exactly once.\<close>

lemma foreach_ok:
  assumes ok: "db_ok db" and A: "db_abs db m" and l: "m_free_lock db \<noteq> - 1"
  shows "\<exists>es db'. db_obj_vforeach (collect f g) [] db = Some (s32 (sum_list (List.map (\<lambda>(k, d). f k d) es)), es, db') \<and>
    entries m es \<and> db_ok db' \<and> db_abs db' (map_values g m) \<and> same_conf db db' \<and> m_free_lock db' = m_free_lock db"
proof -
  let ?db = "db\<lparr>m_free_lock := m_free_lock db + 1\<rparr>"
  obtain ts where F: "forest (m_type db) (m_maxlen db) (m_nodes db) (m_ht db) ts"
    using db_ok_inv [OF ok] unfolding db_inv_def by blast
  let ?as = "pre_all (List.map ts [0..<HASH_SIZE])" and ?h = "m_nodes db"
  let ?ls = "filter (\<lambda>a. a \<in> live ?h) ?as"
  note T = forest_trees [OF F]
  let ?g = "apply_data g (set ?as) ?h" and ?es = "List.map (entry_at ?h) ?ls"
  have "each_buckets (collect f g) (m_ht db) (?h, [], 0) = each_list (collect f g) ?as (?h, [], 0)"
    using each_buckets_walk [OF T(2), of "collect f g" "[]" 0] T(1) by simp
  also have "\<dots> = Some (?g, ?es, s32 (sum_list (List.map (\<lambda>a. case entry_at ?h a of (k, d) \<Rightarrow> f k d) ?ls)))"
    using each_list_collect [OF T(3), of ?h f g "[]" 0] T(4) by (simp add: s32_id)
  finally have run: "each_buckets (collect f g) (m_ht db) (?h, [], 0) = Some (?g, ?es, s32 (sum_list (List.map (\<lambda>(k, d). f k d) ?es)))"
    by (simp add: comp_def)
  let ?db2 = "?db\<lparr>m_nodes := ?g\<rparr>"
  have "db_inv (m_free_list ?db) ?db"
    using db_ok_inv [OF ok] by (simp add: db_inv_def)
  then have I2: "db_inv (m_free_list ?db2) ?db2"
    using db_inv_apply [of "m_free_list db" ?db g "set ?as"] by simp
  have "m_free_lock ?db2 = m_free_lock db + 1" "same_conf db ?db2"
    by (simp_all add: same_conf_def)
  then obtain db' where db': "db_free_unlock ?db2 = Some db'" "db_ok db'" "same_conf db db'" "same_live (m_nodes ?db2) (m_nodes db')"
     "m_free_lock db' = m_free_lock db"
    using unlocked [OF I2 _ l] by blast
  have "db_abs ?db2 (map_values g m)"
    using T(4) live_dom(1) [of ?h] by (intro db_abs_apply [OF A, of "set ?as"]) auto
  then have "db_abs db' (map_values g m)"
    using same_live_abs [OF db'(4), of "map_values g m"] db'(3) by (simp add: same_conf_def)
  moreover have "entries m ?es"
    using T(3,4) live_dom(1) [of ?h] by (intro entries_nodes [OF F A]) auto
  moreover have "db_obj_vforeach (collect f g) [] db = Some (s32 (sum_list (List.map (\<lambda>(k, d). f k d) ?es)), ?es, db')"
    using l run db'(1) by (simp add: db_obj_vforeach_def db_free_lock_def)
  ultimately show ?thesis
    using db' by blast
qed

section \<open>Collecting the entries\<close>

text \<open>The collecting loop visits the nodes in the same order.\<close>

fun get_list :: "(db_key \<Rightarrow> db_data \<Rightarrow> int) \<Rightarrow> bool \<Rightarrow> nat \<Rightarrow> heap \<Rightarrow> nat list \<Rightarrow> nat list \<times> nat \<Rightarrow> (nat list \<times> nat) option" where
  "get_list match has_buf limit h [] st = Some st"
| "get_list match has_buf limit h (a # as) st = do {
     st \<leftarrow> get_node match has_buf limit h a st;
     get_list match has_buf limit h as st }"

lemma get_list_append:
  "get_list match has_buf limit h (as @ bs) st = do { st \<leftarrow> get_list match has_buf limit h as st; get_list match has_buf limit h bs st }"
  by (induction as arbitrary: st) (auto split: bind_splits)

lemma get_loop_walk:
  assumes "rep h 0 (plug cs t)" "distinct (addrs (plug cs t))" "t \<noteq> Leaf"
  shows "get_loop match has_buf limit h (ptr t) st = get_list match has_buf limit h (pre t @ cpre cs) st"
  using assms
proof (induction "length (pre t @ cpre cs)" arbitrary: cs t st rule: less_induct)
  case less
  obtain l z c r where t: "t = Node l (z, c) r"
    using less.prems(3) by (cases t rule: ptr.cases) auto
  have rz: "rep h (cpar cs) t"
    using less.prems(1) unfolding rep_plug by simp
  then obtain n where n: "h z = Some n" "z \<noteq> 0"
    unfolding t by auto
  obtain st1 where e: "get_node match has_buf limit h z st = Some st1"
    using n by (cases st) (simp add: get_node_def)
  have L: "get_list match has_buf limit h (pre t @ cpre cs) st = get_list match has_buf limit h (pre l @ pre r @ cpre cs) st1"
    using e unfolding t by simp
  have run: "get_loop match has_buf limit h (ptr t) st = get_loop match has_buf limit h y st1" if "pre_next h z = Some y" for y
    using n e that unfolding t by (subst get_loop.simps) simp
  from less.prems(1,2) [unfolded t] show ?case
  proof (cases rule: pre_step)
    case last
    have "get_loop match has_buf limit h 0 st1 = Some st1"
      by (subst get_loop.simps) simp
    then show ?thesis
      unfolding run [OF last(2)] L last(1) by simp
  next
    case (more cs' t')
    then have "length (pre t' @ cpre cs') < length (pre t @ cpre cs)"
      unfolding more(3) [symmetric] t by simp
    then show ?thesis
      unfolding run [OF more(4)] L more(3)
      using less.hyps [of t' cs' st1] less.prems(1,2) more(1,2) t by simp
  qed
qed

lemma get_buckets_walk:
  assumes "\<forall>T \<in> set Ts. rep h 0 T \<and> distinct (addrs T)"
  shows "get_buckets match has_buf limit h (List.map ptr Ts) st = get_list match has_buf limit h (pre_all Ts) st"
  using assms
proof (induction Ts arbitrary: st)
  case (Cons T Ts)
  have "get_loop match has_buf limit h (ptr T) st = get_list match has_buf limit h (pre T) st" for st
  proof (cases "T = Leaf")
    case True
    then show ?thesis
      by (subst get_loop.simps) simp
  next
    case False
    then show ?thesis
      using get_loop_walk [of h "[]" T] Cons.prems by simp
  qed
  moreover have "get_buckets match has_buf limit h (List.map ptr Ts) st = get_list match has_buf limit h (pre_all Ts) st" for st
    using Cons by simp
  ultimately show ?case
    by (simp add: pre_all_def get_list_append)
qed (simp add: pre_all_def)

definition matches :: "(db_key \<Rightarrow> db_data \<Rightarrow> int) \<Rightarrow> heap \<Rightarrow> nat list \<Rightarrow> nat list" where
  "matches match h as = filter (\<lambda>a. a \<in> live h \<and> (case entry_at h a of (k, d) \<Rightarrow> match k d = 0)) as"

lemma get_list_ok:
  assumes "set as \<subseteq> dom h" "length buf = min limit ret"
  shows "get_list match True limit h as (buf, ret) =
    Some (buf @ take (limit - ret) (matches match h as), ret + length (matches match h as))"
  using assms
proof (induction as arbitrary: buf ret)
  case (Cons a as)
  obtain n where n: "h a = Some n"
    using Cons.prems(1) by auto
  have m: "a \<in> live h \<and> (case entry_at h a of (k, d) \<Rightarrow> match k d = 0) \<longleftrightarrow> \<not> dn_deleted n \<and> match (dn_key n) (dn_data n) = 0"
    using n by (auto simp: live_def entry_at_def)
  show ?case
  proof (cases "\<not> dn_deleted n \<and> match (dn_key n) (dn_data n) = 0")
    case True
    have "get_list match True limit h as (if ret < limit then buf @ [a] else buf, ret + 1) =
      Some ((if ret < limit then buf @ [a] else buf) @ take (limit - (ret + 1)) (matches match h as), ret + 1 + length (matches match h as))"
      using Cons by (intro Cons.IH) auto
    then show ?thesis
      using n True m by (auto simp: get_node_def matches_def take_Cons' Suc_diff_le)
  next
    case False
    then show ?thesis
      using Cons n m by (auto simp: get_node_def matches_def)
  qed
qed (simp add: matches_def)

text \<open>The whole of \<open>vgetall\<close>: it counts the matching entries and stores the first \<open>limit\<close> of them.\<close>

lemma getall_ok:
  assumes ok: "db_ok db" and A: "db_abs db m" and l: "m_free_lock db \<noteq> - 1"
  shows "\<exists>ns db'. db_obj_vgetall match True limit db = Some (take limit ns, length ns, db') \<and> distinct ns \<and>
    entry_at (m_nodes db) ` set ns = {(k, d) \<in> ran m. match k d = 0} \<and> length ns = card {(k, d) \<in> ran m. match k d = 0} \<and>
    db_ok db' \<and> db_abs db' m \<and> same_conf db db' \<and> m_free_lock db' = m_free_lock db"
proof -
  let ?db = "db\<lparr>m_free_lock := m_free_lock db + 1\<rparr>"
  obtain ts where F: "forest (m_type db) (m_maxlen db) (m_nodes db) (m_ht db) ts"
    using db_ok_inv [OF ok] unfolding db_inv_def by blast
  let ?as = "pre_all (List.map ts [0..<HASH_SIZE])" and ?h = "m_nodes db"
  let ?ls = "filter (\<lambda>a. a \<in> live ?h) ?as" and ?e = "entry_at (m_nodes db)"
  note T = forest_trees [OF F]
  let ?ns = "matches match ?h ?as"
  have run: "get_buckets match True limit ?h (m_ht db) ([], 0) = Some (take limit ?ns, length ?ns)"
    using get_buckets_walk [OF T(2), of match True limit "([], 0)"] get_list_ok [of ?as ?h "[]" limit 0 match] T(1,4) by simp
  have I: "db_inv (m_free_list ?db) ?db"
    using db_ok_inv [OF ok] by (simp add: db_inv_def)
  have "m_free_lock ?db = m_free_lock db + 1" "same_conf db ?db"
    by (simp_all add: same_conf_def)
  then obtain db' where db': "db_free_unlock ?db = Some db'" "db_ok db'" "same_conf db db'" "same_live (m_nodes ?db) (m_nodes db')"
     "m_free_lock db' = m_free_lock db"
    using unlocked [OF I _ l] by blast
  have "db_abs db' m"
    using same_live_abs [OF db'(4), of m] db'(3) A by (simp add: same_conf_def db_abs_def)
  moreover have E: "entries m (List.map ?e ?ls)"
    using T(3,4) live_dom(1) [of ?h] by (intro entries_nodes [OF F A]) auto
  have ns: "?ns = filter (\<lambda>a. case ?e a of (k, d) \<Rightarrow> match k d = 0) ?ls"
    by (simp add: matches_def conj_commute)
  then have "List.map ?e ?ns = filter (\<lambda>(k, d). match k d = 0) (List.map ?e ?ls)"
    by (simp add: filter_map comp_def)
  then have M: "set (List.map ?e ?ns) = {(k, d) \<in> ran m. match k d = 0}" "distinct (List.map ?e ?ns)"
    using E by (auto simp: entries_def)
  have "length ?ns = card {(k, d) \<in> ran m. match k d = 0}"
    using distinct_card [OF M(2)] unfolding M(1) by simp
  moreover have "db_obj_vgetall match True limit db = Some (take limit ?ns, length ?ns, db')"
    using l run db'(1) by (simp add: db_obj_vgetall_def db_free_lock_def)
  ultimately show ?thesis
    using db' M by (intro exI [of _ ?ns] exI [of _ db']) (simp add: distinct_map)
qed

end
