(* ===== verification/DbClear.thy ===== *)
theory DbClear imports DbEach begin

text \<open>
  Clearing a database: every node is visited and freed, its subtrees first.
\<close>

section \<open>The order of the loop\<close>

fun post :: "rbtree \<Rightarrow> nat list" where
  "post Leaf = []"
| "post (Node l (a, c) r) = post l @ post r @ [a]"

fun cpost :: "frame list \<Rightarrow> nat list" where
  "cpost [] = []"
| "cpost (Fr d a c s # cs) = post s @ a # cpost cs"

definition post_all :: "rbtree list \<Rightarrow> nat list" where
  "post_all Ts = concat (List.map post Ts)"

lemma set_post: "set (post t) = set (addrs t)"
  by (induction t rule: post.induct) auto

lemma distinct_post: "distinct (addrs t) \<Longrightarrow> distinct (post t)"
  by (induction t rule: post.induct) (auto simp: set_post)

lemma set_cpost: "set (cpost cs) = set (caddrs cs)"
  by (induction cs rule: cpost.induct) (auto simp: set_post)

lemma length_addrs: "length (addrs t) = size t"
  by (simp add: addrs_def)

lemma size_plug: "size (plug cs t) = size t + length (caddrs cs)"
  using arg_cong [OF mset_addrs_plug [of cs t], of size] by (simp add: length_addrs)

section \<open>The loop\<close>

text \<open>The nodes are visited with the contents they had at first.\<close>

definition visits :: "DBType \<Rightarrow> DBReleaser \<Rightarrow> 's db_apply option \<Rightarrow> heap \<Rightarrow> nat list \<Rightarrow> 's \<times> int \<times> freed list \<Rightarrow> 's \<times> int \<times> freed list" where
  "visits type release func h = fold (\<lambda>a. clear_visit type release func (the (h a)))"

lemma visits_append: "visits type release func h (as @ bs) st = visits type release func h bs (visits type release func h as st)"
  by (simp add: visits_def)

lemma clear_visit_core: "core n' = core n \<Longrightarrow> clear_visit type release func n' st = clear_visit type release func n st"
  by (cases st; cases func) (simp_all add: clear_visit_def core_def)

lemma visits_cong: "(\<And>a. a \<in> set as \<Longrightarrow> core (the (h' a)) = core (the (h a))) \<Longrightarrow>
  visits type release func h' as st = visits type release func h as st"
  unfolding visits_def by (rule fold_cong) (auto intro!: ext clear_visit_core)

text \<open>One leaf is freed; its parent is the next position.\<close>

lemma free_leaf:
  assumes "rep h 0 (plug (Fr d a k s # cs) (Node Leaf (z, c) Leaf))" "distinct (addrs (plug (Fr d a k s # cs) (Node Leaf (z, c) Leaf)))"
  obtains n p where "h z = Some n" "dn_left n = 0" "dn_right n = 0" "dn_parent n = a" "z \<noteq> 0" "a \<noteq> 0" "a \<noteq> z" "h a = Some p"
    "upd_node a (\<lambda>p. if dn_left p = z then p\<lparr>dn_left := 0\<rparr> else p\<lparr>dn_right := 0\<rparr>) h = Some (h(a \<mapsto> set_child d 0 p))"
    "rep (h(a \<mapsto> set_child d 0 p, z := None)) 0 (plug cs (dnode d a k Leaf s))"
proof -
  have R: "rep h a (Node Leaf (z, c) Leaf)" "repc h z (Fr d a k s # cs)"
    using assms(1) unfolding rep_plug by auto
  obtain n where n: "h z = Some n" "dn_left n = 0" "dn_right n = 0" "dn_parent n = a" "z \<noteq> 0"
    using R(1) by auto
  obtain p where p: "h a = Some p" "dn_parent p = cpar cs" "child d p = z" "child (opp d) p = ptr s" "dn_color p = k" "a \<noteq> 0"
     "rep h a s" "repc h a cs"
    using R(2) by auto
  have D: "a \<noteq> z" "z \<notin> set (addrs s)" "z \<notin> set (caddrs cs)" "a \<notin> set (addrs s)" "a \<notin> set (caddrs cs)"
    using assms(2) by auto
  have "ptr s \<noteq> z"
    using D(2) n(5) ptr_in [of s] by (cases "s = Leaf") auto
  then have u: "upd_node a (\<lambda>p. if dn_left p = z then p\<lparr>dn_left := 0\<rparr> else p\<lparr>dn_right := 0\<rparr>) h = Some (h(a \<mapsto> set_child d 0 p))"
    using p(1,3,4) by (cases d) (simp_all add: upd_node_def)
  let ?h = "h(a \<mapsto> set_child d 0 p, z := None)"
  have "rep ?h a s = rep h a s" "repc ?h a cs = repc h a cs"
    using D by (auto intro!: rep_cong repc_cong)
  moreover have "dn_parent (set_child d 0 p) = cpar cs" "child d (set_child d 0 p) = 0" "child (opp d) (set_child d 0 p) = ptr s"
     "dn_color (set_child d 0 p) = k"
    using p by (cases d; simp)+
  ultimately have "rep ?h 0 (plug cs (dnode d a k Leaf s))"
    using p D(1) unfolding rep_plug by simp
  then show thesis
    using that n p(1,6) D(1) u by blast
qed

lemma clear_loop_walk:
  assumes "rep h 0 (plug cs t)" "distinct (addrs (plug cs t))" "t \<noteq> Leaf"
  shows "clear_loop type release func h (ptr t) st =
    Some (h |` (- set (addrs (plug cs t))), visits type release func h (post t @ cpost cs) st)"
  using assms
proof (induction "(size (plug cs t), size t)" arbitrary: h cs t st rule: wf_induct_rule [OF wf_lex_prod [OF wf_less_than wf_less_than]])
  case less: (1 cs t)
  note IH = less.hyps
  obtain l z c r where t: "t = Node l (z, c) r"
    using less.prems(3) by (cases t rule: ptr.cases) auto
  have rz: "rep h (cpar cs) t"
    using less.prems(1) unfolding rep_plug by simp
  then obtain n where n: "h z = Some n" "z \<noteq> 0" "dn_left n = ptr l" "dn_right n = ptr r" "dn_parent n = cpar cs" "rep h z l" "rep h z r"
    unfolding t by auto
  consider "l \<noteq> Leaf" | "l = Leaf" "r \<noteq> Leaf" | "l = Leaf" "r = Leaf" "cs = []"
    | d a k s cs' where "l = Leaf" "r = Leaf" "cs = Fr d a k s # cs'"
    by (cases cs rule: cpost.cases) auto
  then show ?case
  proof cases
    case 1
    have "clear_loop type release func h (ptr t) st = clear_loop type release func h (ptr l) st"
      using n 1 unfolding t by (subst clear_loop.simps) simp
    then show ?thesis
      using IH [of "Fr Lft z c r # cs" l h st] less.prems 1 by (simp add: t)
  next
    case 2
    have "clear_loop type release func h (ptr t) st = clear_loop type release func h (ptr r) st"
      using n 2 unfolding t by (subst clear_loop.simps) simp
    then show ?thesis
      using IH [of "Fr Rgt z c l # cs" r h st] less.prems 2 by (simp add: t Un_commute)
  next
    case 3
    have "clear_loop type release func h (ptr t) st = clear_loop type release func (h(z := None)) 0 (clear_visit type release func n st)"
      using n 3 unfolding t by (subst clear_loop.simps) simp
    also have "\<dots> = Some (h(z := None), clear_visit type release func n st)"
      by (subst clear_loop.simps) simp
    also have "h(z := None) = h |` (- {z})"
      by (auto simp: restrict_map_def)
    finally show ?thesis
      using n(1) 3 by (simp add: t visits_def)
  next
    case (4 d a k s cs')
    let ?T = "dnode d a k Leaf s"
    obtain p where p: "a \<noteq> 0" "a \<noteq> z" "h a = Some p"
      "upd_node a (\<lambda>p. if dn_left p = z then p\<lparr>dn_left := 0\<rparr> else p\<lparr>dn_right := 0\<rparr>) h = Some (h(a \<mapsto> set_child d 0 p))"
      "rep (h(a \<mapsto> set_child d 0 p, z := None)) 0 (plug cs' ?T)"
      using less.prems(1,2) unfolding t 4 by (rule free_leaf) (rule that)
    let ?h = "h(a \<mapsto> set_child d 0 p, z := None)"
    have run: "clear_loop type release func h (ptr t) st = clear_loop type release func ?h (ptr ?T) (clear_visit type release func n st)"
      using n p 4 unfolding t by (subst clear_loop.simps) simp
    have D: "distinct (addrs (plug cs' ?T))" "z \<notin> set (addrs (plug cs' ?T))"
      using less.prems(2) by (auto simp: t 4)
    have "clear_loop type release func ?h (ptr ?T) (clear_visit type release func n st) =
      Some (?h |` (- set (addrs (plug cs' ?T))), visits type release func ?h (post ?T @ cpost cs') (clear_visit type release func n st))"
      using p(5) D(1) by (intro IH) ((cases d; auto simp: t 4 size_plug)+)
    moreover have "?h |` (- set (addrs (plug cs' ?T))) = h |` (- set (addrs (plug cs t)))"
      using p(2) by (auto simp: t 4 restrict_map_def fun_eq_iff)
    moreover have "post ?T = post s @ [a]"
      by (cases d) simp_all
    moreover have "visits type release func ?h (post s @ a # cpost cs') st' = visits type release func h (post s @ a # cpost cs') st'" for st'
      using D p by (intro visits_cong) (cases d; auto simp: set_post set_cpost core_def)
    ultimately show ?thesis
      using run n(1) by (simp add: t 4 visits_def)
  qed
qed

section \<open>All buckets\<close>

lemma clear_root:
  assumes "rep h 0 T" "distinct (addrs T)"
  shows "clear_loop type release func h (ptr T) st = Some (h |` (- set (addrs T)), visits type release func h (post T) st)"
proof (cases "T = Leaf")
  case True
  have "h |` UNIV = h"
    by (simp add: restrict_map_def)
  then show ?thesis
    using True by (subst clear_loop.simps) (simp add: visits_def)
next
  case False
  then show ?thesis
    using clear_loop_walk [of h "[]" T] assms by simp
qed

lemma clear_buckets_walk:
  assumes "\<forall>T \<in> set Ts. rep h 0 T \<and> distinct (addrs T)" "distinct (post_all Ts)"
  shows "clear_buckets type release func (List.map ptr Ts) (h, st) =
    Some (h |` (- set (post_all Ts)), visits type release func h (post_all Ts) st)"
  using assms
proof (induction Ts arbitrary: h st)
  case Nil
  have "h |` UNIV = h"
    by (simp add: restrict_map_def)
  then show ?case
    by (simp add: post_all_def visits_def)
next
  case (Cons T Ts)
  let ?h = "h |` (- set (addrs T))"
  have dis: "set (addrs T) \<inter> set (post_all Ts) = {}" "distinct (post_all Ts)"
    using Cons.prems(2) by (auto simp: post_all_def set_post)
  have "rep ?h 0 U" if "U \<in> set Ts" for U
  proof -
    have "set (addrs U) \<subseteq> set (post_all Ts)"
      using that by (auto simp: post_all_def set_post)
    then have "rep ?h 0 U = rep h 0 U"
      using dis(1) by (intro rep_cong) (auto simp: restrict_map_def)
    then show ?thesis
      using Cons.prems(1) that by simp
  qed
  then have "clear_buckets type release func (List.map ptr Ts) (?h, visits type release func h (post T) st) =
    Some (?h |` (- set (post_all Ts)), visits type release func ?h (post_all Ts) (visits type release func h (post T) st))"
    using Cons.prems(1) dis(2) by (intro Cons.IH) auto
  moreover have "visits type release func ?h (post_all Ts) st' = visits type release func h (post_all Ts) st'" for st'
    using dis(1) by (intro visits_cong) (auto simp: restrict_map_def)
  moreover have "?h |` (- set (post_all Ts)) = h |` (- set (post_all (T # Ts)))"
    by (auto simp: restrict_map_def post_all_def set_post fun_eq_iff)
  ultimately show ?case
    using clear_root [of h T type release func st] Cons.prems(1) by (simp add: post_all_def visits_append)
qed

text \<open>Visiting the nodes with a function that collects.\<close>

definition released :: "DBType \<Rightarrow> DBReleaser \<Rightarrow> (db_key \<Rightarrow> db_data \<Rightarrow> db_data) \<Rightarrow> heap \<Rightarrow> nat \<Rightarrow> freed list" where
  "released type release g h a = (if a \<in> live h then case entry_at h a of (k, d) \<Rightarrow> releases release k (g k d) DB_RELEASE_BOTH
     else if is_str_type type then [Free_key (key_at h a)] else [])"

lemma visits_collect:
  assumes "set as \<subseteq> dom h"
  shows "visits type release (Some (collect f g)) h as (es, s32 sm, fr) =
    (es @ List.map (entry_at h) (filter (\<lambda>a. a \<in> live h) as),
     s32 (sm + sum_list (List.map (\<lambda>(k, d). f k d) (List.map (entry_at h) (filter (\<lambda>a. a \<in> live h) as)))),
     fr @ concat (List.map (released type release g h) as))"
  using assms
proof (induction as arbitrary: es sm fr)
  case (Cons a as)
  obtain n where n: "h a = Some n"
    using Cons.prems by auto
  show ?case
  proof (cases "dn_deleted n")
    case True
    have "visits type release (Some (collect f g)) h (a # as) (es, s32 sm, fr) =
      visits type release (Some (collect f g)) h as (es, s32 sm, fr @ released type release g h a)"
      using n True by (simp add: visits_def clear_visit_def released_def live_def key_at_def)
    then show ?thesis
      using Cons n True by (simp add: live_def)
  next
    case False
    have "visits type release (Some (collect f g)) h (a # as) (es, s32 sm, fr) =
      visits type release (Some (collect f g)) h as (es @ [entry_at h a], s32 (sm + (case entry_at h a of (k, d) \<Rightarrow> f k d)), fr @ released type release g h a)"
      using n False by (simp add: visits_def clear_visit_def released_def live_def entry_at_def collect_def s32_add)
    then show ?thesis
      using Cons n False by (simp add: live_def add.assoc)
  qed
qed (simp add: visits_def)

lemma forest_posts:
  assumes F: "forest ty n h ht ts"
  shows "distinct (post_all (List.map ts [0..<HASH_SIZE]))" "set (post_all (List.map ts [0..<HASH_SIZE])) = dom h"
proof -
  have "distinct (concat (List.map (\<lambda>i. post (ts i)) [0..<HASH_SIZE]))"
    using forest_disjoint [OF F] forest_tree(3) [OF F] by (intro distinct_concat_upt) (auto simp: distinct_post set_post)
  then show "distinct (post_all (List.map ts [0..<HASH_SIZE]))"
    by (simp add: post_all_def comp_def)
  show "set (post_all (List.map ts [0..<HASH_SIZE])) = dom h"
    using F by (auto simp: post_all_def set_post forest_def)
qed

lemma empty_db_inv:
  assumes "m_nodes db = Map.empty" "m_ht db = replicate HASH_SIZE 0" "m_cache db = 0" "m_item_count db = 0"
  shows "db_inv [] db" "db_abs db Map.empty"
proof -
  have "bucket_ok ty n Map.empty i 0 Leaf" for ty n i
    by (simp add: bucket_ok_def rbt_def)
  then have "forest (m_type db) (m_maxlen db) (m_nodes db) (m_ht db) (\<lambda>i. Leaf)"
    using assms by (simp add: forest_def)
  then show "db_inv [] db"
    using assms unfolding db_inv_def by (auto simp: live_def dead_def intro!: exI [of _ "\<lambda>i. Leaf"])
  show "db_abs db Map.empty"
    using assms by (simp add: db_abs_def cores_def)
qed

text \<open>The whole of \<open>vclear\<close>: the function is applied to every entry once, everything is released, the database is empty.\<close>

lemma clear_ok:
  assumes ok: "db_ok db" and A: "db_abs db m" and l: "m_free_lock db \<noteq> - 1"
  shows "\<exists>as es db'. db_obj_vclear (Some (collect f g)) [] db = Some (s32 (sum_list (List.map (\<lambda>(k, d). f k d) es)), es, db') \<and>
    entries m es \<and> distinct as \<and> set as = dom (m_nodes db) \<and>
    m_freed db' = m_freed db @ concat (List.map (released (m_type db) (m_release db) g (m_nodes db)) as) \<and>
    db_ok db' \<and> db_abs db' Map.empty \<and> m_nodes db' = Map.empty \<and> same_conf db db' \<and> m_free_lock db' = m_free_lock db"
proof -
  obtain ts where F: "forest (m_type db) (m_maxlen db) (m_nodes db) (m_ht db) ts"
    using db_ok_inv [OF ok] unfolding db_inv_def by blast
  let ?as = "post_all (List.map ts [0..<HASH_SIZE])" and ?h = "m_nodes db"
  let ?ls = "filter (\<lambda>a. a \<in> live ?h) ?as"
  note T = forest_trees [OF F] and P = forest_posts [OF F]
  let ?es = "List.map (entry_at ?h) ?ls"
  let ?fr = "m_freed db @ concat (List.map (released (m_type db) (m_release db) g ?h) ?as)"
  have "?h |` (- dom ?h) = Map.empty"
    by (auto simp: restrict_map_def)
  then have run: "clear_buckets (m_type db) (m_release db) (Some (collect f g)) (m_ht db) (?h, [], 0, m_freed db) =
      Some (Map.empty, ?es, s32 (sum_list (List.map (\<lambda>(k, d). f k d) ?es)), ?fr)"
    using clear_buckets_walk [OF T(2) P(1), of "m_type db" "m_release db" "Some (collect f g)" "([], 0, m_freed db)"]
      visits_collect [of ?as ?h "m_type db" "m_release db" f g "[]" 0 "m_freed db"] T(1) P(2) by (simp add: s32_id)
  let ?db = "db\<lparr>m_free_lock := m_free_lock db + 1, m_cache := 0, m_nodes := Map.empty, m_ht := List.map (\<lambda>_. 0) (m_ht db),
    m_freed := ?fr, m_free_list := [], m_item_count := 0\<rparr>"
  have "length (m_ht db) = HASH_SIZE"
    using F by (simp add: forest_def)
  then have I: "db_inv (m_free_list ?db) ?db" "db_abs ?db Map.empty"
    using empty_db_inv [of ?db] by (simp_all add: map_replicate_const)
  have "m_free_lock ?db = m_free_lock db + 1" "same_conf db ?db"
    by (simp_all add: same_conf_def)
  then obtain db' where db': "db_free_unlock ?db = Some db'" "db_ok db'" "same_conf db db'" "same_live (m_nodes ?db) (m_nodes db')"
     "m_free_lock db' = m_free_lock db"
    using unlocked [OF I(1) _ l] by blast
  have e: "m_nodes db' = Map.empty" "m_freed db' = ?fr"
    using db'(1) unfolding db_free_unlock_def by (auto simp: Let_def split: if_split_asm)
  have "db_abs db' Map.empty"
    by (simp add: db_abs_def e cores_def)
  moreover have "entries m ?es"
    using P live_dom(1) [of ?h] by (intro entries_nodes [OF F A]) auto
  moreover have "db_obj_vclear (Some (collect f g)) [] db = Some (s32 (sum_list (List.map (\<lambda>(k, d). f k d) ?es)), ?es, db')"
    using l run db'(1) by (simp add: db_obj_vclear_def db_free_lock_def)
  ultimately show ?thesis
    using db' e P by (intro exI [of _ ?as] exI [of _ ?es] exI [of _ db']) simp
qed

text \<open>Destroying a database: under one more lock, and with the global lock held, it is cleared.\<close>

lemma destroy_ok:
  assumes ok: "db_ok db" and A: "db_abs db m" and l: "m_free_lock db \<noteq> - 1" "m_free_lock db \<noteq> - 2" and g: "\<not> m_global_lock db"
  shows "\<exists>as es db'. db_obj_vdestroy (Some (collect f g)) [] db = Some (s32 (sum_list (List.map (\<lambda>(k, d). f k d) es)), es, db') \<and>
    entries m es \<and> distinct as \<and> set as = dom (m_nodes db) \<and>
    m_freed db' = m_freed db @ concat (List.map (released (m_type db) (m_release db) g (m_nodes db)) as) \<and>
    m_nodes db' = Map.empty \<and> m_global_lock db'"
proof -
  let ?db = "db\<lparr>m_free_lock := m_free_lock db + 1, m_global_lock := True\<rparr>"
  have l2: "m_free_lock ?db \<noteq> - 1"
    using l(2) by (simp add: eq_neg_iff_add_eq_0 add.assoc)
  have "db_ok ?db" "db_abs ?db m"
    using ok A lock_neq [OF l(1)] db_ok_inv [OF ok] by (simp_all add: db_ok_def db_inv_def db_abs_def)
  then obtain as es db1 where c: "db_obj_vclear (Some (collect f g)) [] ?db = Some (s32 (sum_list (List.map (\<lambda>(k, d). f k d) es)), es, db1)"
    "entries m es" "distinct as" "set as = dom (m_nodes ?db)"
    "m_freed db1 = m_freed ?db @ concat (List.map (released (m_type ?db) (m_release ?db) g (m_nodes ?db)) as)"
    "db_ok db1" "m_nodes db1 = Map.empty" "same_conf ?db db1" "m_free_lock db1 = m_free_lock ?db"
    using clear_ok [of ?db m f g] l2 by blast
  let ?db1 = "db1\<lparr>m_free_max := 0\<rparr>"
  have I: "db_inv (m_free_list ?db1) ?db1"
    using db_ok_inv [OF c(6)] by (simp add: db_inv_def)
  then have fl: "m_free_list ?db1 = []"
    using c(7) by (auto simp: db_inv_def dead_def)
  obtain db' where u: "db_free_unlock ?db1 = Some db'" "m_nodes db' = Map.empty" "m_freed db' = m_freed db1" "m_global_lock db' = m_global_lock db1"
    using fl c(7) that by (cases "m_free_lock db1 = 0"; cases "m_free_lock db1 = 1") (simp_all add: db_free_unlock_def Let_def)
  then have "db_obj_vdestroy (Some (collect f g)) [] db = Some (s32 (sum_list (List.map (\<lambda>(k, d). f k d) es)), es, db')"
    using g l(1) c(1) by (simp add: db_obj_vdestroy_def db_free_lock_def)
  then show ?thesis
    using c(2-5,8) u by (intro exI [of _ as] exI [of _ es] exI [of _ db']) (simp add: same_conf_def)
qed

end
