(* ===== verification/DbProps.thy ===== *)
theory DbProps imports DbClear begin

text \<open>
  The properties of the database: its trees, its operations as operations of a map, its loops.
\<close>

section \<open>Examples\<close>

lemma alloc_fields:
  "m_type (db_alloc type options n) = type" "m_free_lock (db_alloc type options n) = 0" "m_free_list (db_alloc type options n) = []"
  "m_global_lock (db_alloc type options n) = False" "m_item_count (db_alloc type options n) = 0" "m_nodes (db_alloc type options n) = Map.empty"
  by (simp_all add: db_alloc_def Let_def)

lemma demo_put:
  "\<exists>db. db_obj_put 7 (Key_i 5) (DB_DATA_INT 3) (db_alloc DB_INT 0 0) = Some (0, None, db) \<and> db_ok db \<and>
     db_abs db [[5] \<mapsto> (Key_i 5, DB_DATA_INT 3)] \<and> m_type db = DB_INT \<and> m_free_lock db = 0 \<and> m_free_list db = [] \<and> \<not> m_global_lock db"
proof -
  let ?db = "db_alloc DB_INT 0 0"
  have "\<not> put_refused (Key_i 5) (DB_DATA_INT 3) ?db"
    by code_simp
  then obtain db where db: "db_obj_put 7 (Key_i 5) (DB_DATA_INT 3) ?db = Some (0, None, db)" "db_ok db"
      "db_abs db [[5] \<mapsto> (Key_i 5, DB_DATA_INT 3)]" "same_conf ?db db" "m_free_lock db = 0"
    using put_ok [OF alloc_ok, of "Key_i 5" DB_INT 0 0 7 "DB_DATA_INT 3"] by (auto simp: alloc_fields)
  moreover have "m_free_list db = []"
    using db(2,5) by (simp add: db_ok_def)
  ultimately show ?thesis
    by (auto simp: same_conf_def alloc_fields)
qed

section \<open>Keys\<close>

text \<open>C38: Keys of a database type are totally ordered: the default comparison of two keys answers, it is zero
  exactly for equal keys (strings up to case for \<open>DB_ISTRING\<close>), its sign is the order of the keys, the
  hash exists and equal keys have equal hashes. For numbers in range and strings of at most \<open>maxlen\<close>
  characters.\<close>

theorem db_keys_ordered:
  assumes "k \<in> db_keys type n" "k' \<in> db_keys type n"
  shows "\<exists>c h. db_default_cmp type k k' n = Some c \<and> (c = 0 \<longleftrightarrow> db_norm type k = db_norm type k') \<and> (c < 0 \<longleftrightarrow> db_norm type k < db_norm type k') \<and>
    db_default_hash type k n = Some h \<and> (c = 0 \<longrightarrow> db_default_hash type k' n = Some h)"
  using db_order.cmp_some [OF assms] db_order.cmp_eq [OF assms] db_order.cmp_less [OF assms] db_order.hash_some [OF assms(1)]
    db_order.hash_eq [OF assms] by (metis not_None_eq)

theorem db_keys_ordered_witness:
  "\<exists>c. db_default_cmp DB_ISTRING (Key_str (Some ''Poring'')) (Key_str (Some ''pORing'')) 24 = Some c \<and> (c = 0 \<longleftrightarrow>
     db_norm DB_ISTRING (Key_str (Some ''Poring'')) = db_norm DB_ISTRING (Key_str (Some ''pORing'')))"
proof -
  have "Key_str (Some ''Poring'') \<in> db_keys DB_ISTRING 24" "Key_str (Some ''pORing'') \<in> db_keys DB_ISTRING 24"
    by simp_all
  from db_keys_ordered [OF this] show ?thesis
    by blast
qed

section \<open>Trees\<close>

text \<open>C13: \<open>db_rebalance\<close> after a red leaf was linked into a red-black tree: the loop ends, no null pointer is
  followed, the tree is red-black again, in the same order, with its keys, data and marks, and the returned
  pointer is its root.\<close>

theorem db_rebalance_restores:
  assumes r: "rep h 0 (plug cs (Node Leaf (node, RED) Leaf))" "distinct (addrs (plug cs (Node Leaf (node, RED) Leaf)))"
    and T: "rbt (plug cs Leaf)"
  shows "\<exists>h' T'. db_rebalance node (h, ptr (plug cs (Node Leaf (node, RED) Leaf))) = Some (h', ptr T') \<and> rep h' 0 T' \<and> rbt T' \<and>
    addrs T' = addrs (plug cs (Node Leaf (node, RED) Leaf)) \<and> cores h' = cores h"
proof -
  let ?T = "plug cs (Node Leaf (node, RED) Leaf)"
  have "ok h (set (addrs ?T)) (h, ptr ?T) ?T"
    using r by (simp add: ok_def)
  then show ?thesis
    using db_rebalance_ok [OF _ T, of h "set (addrs ?T)" h "ptr ?T" node] by (fastforce simp: ok_def)
qed

text \<open>Three nodes in a chain, the last one new.\<close>

definition chain :: "heap \<Rightarrow> heap" where
  "chain h = h(1 \<mapsto> \<lparr>dn_parent = 0, dn_left = 0, dn_right = 2, dn_key = Key_i 1, dn_data = DB_DATA_INT 1, dn_color = BLACK, dn_deleted = False\<rparr>,
     2 \<mapsto> \<lparr>dn_parent = 1, dn_left = 0, dn_right = 3, dn_key = Key_i 2, dn_data = DB_DATA_INT 2, dn_color = RED, dn_deleted = False\<rparr>,
     3 \<mapsto> \<lparr>dn_parent = 2, dn_left = 0, dn_right = 0, dn_key = Key_i 3, dn_data = DB_DATA_INT 3, dn_color = RED, dn_deleted = False\<rparr>)"

theorem db_rebalance_restores_witness:
  "\<exists>h' T'. db_rebalance 3 (chain Map.empty, 1) = Some (h', ptr T') \<and> rep h' 0 T' \<and> rbt T' \<and> addrs T' = [1, 2, 3]"
proof -
  let ?cs = "[Fr Rgt 2 RED Leaf, Fr Rgt 1 BLACK Leaf]"
  have "rep (chain Map.empty) 0 (plug ?cs (Node Leaf (3, RED) Leaf))" "rbt (plug ?cs Leaf)"
    "distinct (addrs (plug ?cs (Node Leaf (3, RED) Leaf)))"
    by (simp_all add: chain_def rbt_def)
  from db_rebalance_restores [OF this(1,3,2)] show ?thesis
    by auto
qed

text \<open>C12: \<open>db_rebalance_erase\<close> of any node of a red-black tree ends without following a null pointer; the
  tree has lost exactly that node, keeps the order of the others and is red-black; keys, data and marks of
  all nodes stay as they were.\<close>

theorem db_rebalance_erase_removes:
  assumes "rep h 0 (plug cs (Node l (z, c) r))" "distinct (addrs (plug cs (Node l (z, c) r)))" "rbt (plug cs (Node l (z, c) r))"
  shows "\<exists>h' T'. db_rebalance_erase z (h, ptr (plug cs (Node l (z, c) r))) = Some (h', ptr T') \<and> rep h' 0 T' \<and> rbt T' \<and>
    addrs T' = filter (\<lambda>a. a \<noteq> z) (addrs (plug cs (Node l (z, c) r))) \<and> cores h' = cores h"
proof -
  have "\<forall>a \<in> set (cleft cs @ addrs l @ addrs r @ cright cs). a \<noteq> z"
    using assms(2) by (auto simp: addrs_plug simp del: distinct_plug)
  then have "cleft cs @ addrs l @ addrs r @ cright cs = filter (\<lambda>a. a \<noteq> z) (addrs (plug cs (Node l (z, c) r)))"
    by (simp add: addrs_plug filter_id_conv [THEN iffD2])
  then show ?thesis
    using db_rebalance_erase_ok [OF assms HOL.refl] by auto
qed

theorem db_rebalance_erase_removes_witness:
  "\<exists>h' T'. db_rebalance_erase 1 ((chain Map.empty)(2 \<mapsto> (the (chain Map.empty 2))\<lparr>dn_right := 0\<rparr>), 1) = Some (h', ptr T') \<and> rep h' 0 T' \<and>
     rbt T' \<and> addrs T' = [2]"
proof -
  let ?h = "(chain Map.empty)(2 \<mapsto> (the (chain Map.empty 2))\<lparr>dn_right := 0\<rparr>)" and ?r = "Node Leaf (2, RED) Leaf"
  have "rep ?h 0 (plug [] (Node Leaf (1, BLACK) ?r))" "distinct (addrs (plug [] (Node Leaf (1, BLACK) ?r)))"
    "rbt (plug [] (Node Leaf (1, BLACK) ?r))"
    by (simp_all add: chain_def rbt_def)
  from db_rebalance_erase_removes [OF this] show ?thesis
    by auto
qed

section \<open>The operations of a map\<close>

text \<open>C8: \<open>put\<close> is the update of a map: for a key of the type, in a database whose invariant holds, it returns
  the entry that was there and its data, stores the new key and data, keeps the invariant and the lock. The
  key may be new, live, or removed under a lock and not yet freed.\<close>

theorem db_put_updates:
  assumes "db_ok db" "db_abs db m" "key \<in> db_keys (m_type db) (m_maxlen db)" "m_free_lock db \<noteq> - 1"
    and "fresh \<noteq> 0" "fresh \<notin> dom (m_nodes db)" "\<not> put_refused key data db"
  shows "\<exists>db'. db_obj_put fresh key data db =
      Some (if m (db_norm (m_type db) key) = None then 0 else 1, map_option snd (m (db_norm (m_type db) key)), db') \<and>
    db_ok db' \<and> db_abs db' (m(db_norm (m_type db) key \<mapsto> (key, data))) \<and> same_conf db db' \<and> m_free_lock db' = m_free_lock db"
  by (rule put_ok [OF assms])

theorem db_put_updates_witness:
  "\<exists>db. db_obj_put 7 (Key_i 5) (DB_DATA_INT 3) (db_alloc DB_INT 0 0) = Some (0, None, db) \<and> db_abs db [[5] \<mapsto> (Key_i 5, DB_DATA_INT 3)]"
proof -
  have "\<not> put_refused (Key_i 5) (DB_DATA_INT 3) (db_alloc DB_INT 0 0)"
    by code_simp
  then show ?thesis
    using db_put_updates [OF alloc_ok, of "Key_i 5" DB_INT 0 0 7 "DB_DATA_INT 3"] by (auto simp: alloc_fields)
qed

text \<open>C10: \<open>remove\<close> is the deletion of a map: it returns the entry that was there and its data, the map loses
  exactly that key, and the invariant holds, whether the node is freed at once or when the last lock goes.\<close>

theorem db_remove_deletes:
  assumes "db_ok db" "db_abs db m" "key \<in> db_keys (m_type db) (m_maxlen db)"
    and "unat (m_free_lock db) < 2 ^ 32 - 2" "length (m_free_list db) < 2 ^ 32 - 1" "\<not> m_global_lock db"
  shows "\<exists>db'. db_obj_remove key db =
      Some (if m (db_norm (m_type db) key) = None then 0 else 1, map_option snd (m (db_norm (m_type db) key)), db') \<and>
    db_ok db' \<and> db_abs db' (m(db_norm (m_type db) key := None)) \<and> same_conf db db' \<and> m_free_lock db' = m_free_lock db"
  by (rule remove_ok [OF assms])

theorem db_remove_deletes_witness:
  "\<exists>db db'. db_obj_put 7 (Key_i 5) (DB_DATA_INT 3) (db_alloc DB_INT 0 0) = Some (0, None, db) \<and>
     db_obj_remove (Key_i 5) db = Some (1, Some (DB_DATA_INT 3), db') \<and> db_ok db' \<and> db_abs db' Map.empty"
proof -
  obtain db where "db_obj_put 7 (Key_i 5) (DB_DATA_INT 3) (db_alloc DB_INT 0 0) = Some (0, None, db)"
    and db: "db_ok db" "db_abs db [[5] \<mapsto> (Key_i 5, DB_DATA_INT 3)]" "m_type db = DB_INT" "m_free_lock db = 0" "m_free_list db = []" "\<not> m_global_lock db"
    using demo_put by blast
  moreover have "\<exists>db'. db_obj_remove (Key_i 5) db = Some (1, Some (DB_DATA_INT 3), db') \<and> db_ok db' \<and> db_abs db' Map.empty"
    using db_remove_deletes [OF db(1,2), of "Key_i 5"] db(3-6) by auto
  ultimately show ?thesis
    by blast
qed

text \<open>C21: \<open>get\<close>, \<open>exists\<close> and \<open>size\<close> answer what the map holds, through the cache or by a search: the pointer
  is null for a key that is not in the map and otherwise points to its entry; the size is the number of keys.\<close>

theorem db_lookup_finds:
  assumes "db_ok db" "db_abs db m" "m_free_lock db \<noteq> - 1" "key \<in> db_keys (m_type db) (m_maxlen db)"
  shows "\<exists>p n db1 db2 db3. db_obj_get key db = Some (p, db1) \<and> db_ok db1 \<and> db_abs db1 m \<and> same_conf db db1 \<and>
      map_option (\<lambda>(k, d, deleted). (k, d)) (if p = 0 then None else cores (m_nodes db1) p) = m (db_norm (m_type db) key) \<and>
    db_obj_exists key db = Some (m (db_norm (m_type db) key) \<noteq> None, db2) \<and> db_ok db2 \<and> db_abs db2 m \<and>
    db_obj_size db = Some (n, db3) \<and> unat n = card (dom m) \<and> db_ok db3 \<and> db_abs db3 m"
proof -
  obtain p db1 where g: "db_obj_get key db = Some (p, db1)" "lookup_ok key m p db db1"
    using get_ok [OF assms(1,2,4,3)] by blast
  then have "map_option (\<lambda>(k, d, deleted). (k, d)) (if p = 0 then None else cores (m_nodes db1) p) = m (db_norm (m_type db) key)"
    by (auto simp: lookup_ok_def split: option.split_asm)
  then show ?thesis
    using g exists_ok [OF assms(1,2,4,3)] size_ok [OF assms(1-3)] unfolding lookup_ok_def by auto
qed

theorem db_lookup_finds_witness:
  "\<exists>p n db db1 db3. db_obj_put 7 (Key_i 5) (DB_DATA_INT 3) (db_alloc DB_INT 0 0) = Some (0, None, db) \<and>
     db_obj_get (Key_i 5) db = Some (p, db1) \<and> p \<noteq> 0 \<and> db_obj_size db = Some (n, db3) \<and> unat n = 1"
proof -
  obtain db where "db_obj_put 7 (Key_i 5) (DB_DATA_INT 3) (db_alloc DB_INT 0 0) = Some (0, None, db)"
    and db: "db_ok db" "db_abs db [[5] \<mapsto> (Key_i 5, DB_DATA_INT 3)]" "m_type db = DB_INT" "m_free_lock db = 0"
    using demo_put by blast
  moreover have "\<exists>p n db1 db3. db_obj_get (Key_i 5) db = Some (p, db1) \<and> p \<noteq> 0 \<and> db_obj_size db = Some (n, db3) \<and> unat n = 1"
    using db_lookup_finds [OF db(1,2), of "Key_i 5"] db(3,4) by (force split: if_split_asm)
  ultimately show ?thesis
    by blast
qed

text \<open>\<open>ensure\<close> on a database without removed nodes, and without the two options together that make it
  read a null pointer, returns the entry of the key, created by the callback
  exactly when there was none, and changes nothing else.\<close>

theorem db_ensure_creates:
  assumes "db_ok db" "m_free_list db = []" "db_abs db m" "key \<in> db_keys (m_type db) (m_maxlen db)"
    and "m_free_lock db \<noteq> - 1" "fresh \<noteq> 0" "fresh \<notin> dom (m_nodes db)" "m_item_count db \<noteq> - 1"
    and "\<not> (db_opt db DB_OPT_DUP_KEY \<and> db_opt db DB_OPT_RELEASE_KEY)"
  shows "\<exists>p k d db'. db_obj_vensure fresh key create db = Some (p, db') \<and> p \<noteq> 0 \<and> cores (m_nodes db') p = Some (k, d, False) \<and>
    (k, d) = (case m (db_norm (m_type db) key) of None \<Rightarrow> (key, create key) | Some kd \<Rightarrow> kd) \<and>
    db_ok db' \<and> db_abs db' (m(db_norm (m_type db) key \<mapsto> (k, d))) \<and> same_conf db db'"
proof -
  let ?k = "db_norm (m_type db) key"
  obtain p db' where e: "db_obj_vensure fresh key create db = Some (p, db')" "p \<noteq> 0" "lookup_ok key (ensured key create ?k m) p db db'"
    using vensure_ok [OF assms] by blast
  have "ensured key create ?k m = m(?k \<mapsto> (case m ?k of None \<Rightarrow> (key, create key) | Some kd \<Rightarrow> kd))"
    by (auto simp: ensured_def split: option.split)
  then show ?thesis
    using e by (cases "m ?k") (auto simp: lookup_ok_def)
qed

theorem db_ensure_creates_witness:
  "\<exists>p db'. db_obj_vensure 7 (Key_i 5) (\<lambda>_. DB_DATA_INT 4) (db_alloc DB_INT 0 0) = Some (p, db') \<and> p \<noteq> 0 \<and>
     db_abs db' [[5] \<mapsto> (Key_i 5, DB_DATA_INT 4)]"
proof -
  have "\<not> (db_opt (db_alloc DB_INT 0 0) DB_OPT_DUP_KEY \<and> db_opt (db_alloc DB_INT 0 0) DB_OPT_RELEASE_KEY)"
    by code_simp
  then show ?thesis
    using db_ensure_creates [OF alloc_ok(1) _ alloc_ok(2), of DB_INT 0 0 "Key_i 5" 7 "\<lambda>_. DB_DATA_INT 4"] by (auto simp: alloc_fields)
qed

section \<open>Loops\<close>

text \<open>C22: Following \<open>next\<close> from \<open>first\<close> until it answers null ends after as many steps as there are entries and
  visits each entry of the map exactly once, also when removed nodes are in the trees.\<close>

theorem db_iteration_complete:
  assumes "db_ok db" "db_abs db m"
  shows "\<exists>d as. dbit_obj_first db it = Some d \<and> visit (Suc (card (dom m))) db d = Some as \<and>
    entries m (List.map (entry_at (m_nodes db)) as)"
proof -
  obtain ts where F: "forest (m_type db) (m_maxlen db) (m_nodes db) (m_ht db) ts"
    using db_ok_inv [OF assms(1)] unfolding db_inv_def by blast
  show ?thesis
    using iterate_ok [OF assms(1), of it] entries_nodes [OF F assms(2)] card_entries [OF F assms(2)] by fastforce
qed

theorem db_iteration_complete_witness:
  "\<exists>db d as. db_obj_put 7 (Key_i 5) (DB_DATA_INT 3) (db_alloc DB_INT 0 0) = Some (0, None, db) \<and>
     dbit_obj_first db \<lparr>it_ht_index = 0, it_node = 0\<rparr> = Some d \<and> visit 2 db d = Some as \<and> length as = 1"
proof -
  obtain db where "db_obj_put 7 (Key_i 5) (DB_DATA_INT 3) (db_alloc DB_INT 0 0) = Some (0, None, db)"
    and db: "db_ok db" "db_abs db [[5] \<mapsto> (Key_i 5, DB_DATA_INT 3)]"
    using demo_put by blast
  moreover have "\<exists>d as. dbit_obj_first db \<lparr>it_ht_index = 0, it_node = 0\<rparr> = Some d \<and> visit 2 db d = Some as \<and> length as = 1"
    using db_iteration_complete [OF db, of "\<lparr>it_ht_index = 0, it_node = 0\<rparr>"] by (auto simp: entries_def eval_nat_numeral simp del: visit.simps)
  ultimately show ?thesis
    by blast
qed

text \<open>\<open>foreach\<close> ends, calls its function once for every entry and returns the sum of the answers in an \<open>int\<close>; the data
  that the function writes is what the database then holds. \<open>getall\<close> answers the number of entries that
  match and writes the first ones into the buffer, never more than its size.\<close>

theorem db_foreach_once:
  assumes "db_ok db" "db_abs db m" "m_free_lock db \<noteq> - 1"
  shows "\<exists>es ns db' db''. db_obj_vforeach (collect f g) [] db = Some (s32 (sum_list (List.map (\<lambda>(k, d). f k d) es)), es, db') \<and>
      entries m es \<and> db_ok db' \<and> db_abs db' (map_values g m) \<and>
    db_obj_vgetall match True limit db = Some (take limit ns, length ns, db'') \<and> distinct ns \<and>
      entry_at (m_nodes db) ` set ns = {(k, d) \<in> ran m. match k d = 0} \<and> length ns = card {(k, d) \<in> ran m. match k d = 0} \<and>
      db_ok db'' \<and> db_abs db'' m"
  using foreach_ok [OF assms, of f g] getall_ok [OF assms, of match limit] by blast

theorem db_foreach_once_witness:
  "\<exists>db db'. db_obj_put 7 (Key_i 5) (DB_DATA_INT 3) (db_alloc DB_INT 0 0) = Some (0, None, db) \<and>
     db_obj_vforeach (collect (\<lambda>k d. 10) (\<lambda>k d. DB_DATA_INT 4)) [] db = Some (10, [(Key_i 5, DB_DATA_INT 3)], db') \<and>
     db_abs db' [[5] \<mapsto> (Key_i 5, DB_DATA_INT 4)]"
proof -
  obtain db where "db_obj_put 7 (Key_i 5) (DB_DATA_INT 3) (db_alloc DB_INT 0 0) = Some (0, None, db)"
    and db: "db_ok db" "db_abs db [[5] \<mapsto> (Key_i 5, DB_DATA_INT 3)]" "m_free_lock db \<noteq> - 1"
    using demo_put by force
  moreover have "\<exists>db'. db_obj_vforeach (collect (\<lambda>k d. 10) (\<lambda>k d. DB_DATA_INT 4)) [] db = Some (10, [(Key_i 5, DB_DATA_INT 3)], db') \<and>
     db_abs db' [[5] \<mapsto> (Key_i 5, DB_DATA_INT 4)]"
  proof -
    obtain es db' where e: "db_obj_vforeach (collect (\<lambda>k d. 10) (\<lambda>k d. DB_DATA_INT 4)) [] db = Some (s32 (sum_list (List.map (\<lambda>(k, d). 10) es)), es, db')"
      "entries [[5] \<mapsto> (Key_i 5, DB_DATA_INT 3)] es" "db_abs db' (map_values (\<lambda>k d. DB_DATA_INT 4) [[5] \<mapsto> (Key_i 5, DB_DATA_INT 3)])"
      using db_foreach_once [OF db] by blast
    have "es = [(Key_i 5, DB_DATA_INT 3)]"
      using e(2) by (cases es) (auto simp: entries_def)
    moreover have "map_values (\<lambda>k d. DB_DATA_INT 4) [[5] \<mapsto> (Key_i 5, DB_DATA_INT 3)] = [[5] \<mapsto> (Key_i 5, DB_DATA_INT 4)]"
      by (auto simp: map_values_def)
    ultimately show ?thesis
      using e by (simp add: s32_id)
  qed
  ultimately show ?thesis
    by blast
qed

text \<open>C23: \<open>clear\<close> ends, calls its function once for every entry, returns the sum of the answers as an \<open>int\<close>
  (which wraps), frees every node and releases every key and
  data as its options say, and leaves an empty database in order.\<close>

theorem db_clear_empties:
  assumes "db_ok db" "db_abs db m" "m_free_lock db \<noteq> - 1"
  shows "\<exists>as es db'. db_obj_vclear (Some (collect f g)) [] db = Some (s32 (sum_list (List.map (\<lambda>(k, d). f k d) es)), es, db') \<and>
    entries m es \<and> distinct as \<and> set as = dom (m_nodes db) \<and>
    m_freed db' = m_freed db @ concat (List.map (released (m_type db) (m_release db) g (m_nodes db)) as) \<and>
    db_ok db' \<and> db_abs db' Map.empty \<and> m_nodes db' = Map.empty \<and> same_conf db db' \<and> m_free_lock db' = m_free_lock db"
  by (rule clear_ok [OF assms])

theorem db_clear_empties_witness:
  "\<exists>db db'. db_obj_put 7 (Key_i 5) (DB_DATA_INT 3) (db_alloc DB_INT 0 0) = Some (0, None, db) \<and>
     db_obj_vclear (Some (collect (\<lambda>k d. 10) (\<lambda>k d. d))) [] db = Some (10, [(Key_i 5, DB_DATA_INT 3)], db') \<and> db_abs db' Map.empty"
proof -
  obtain db where "db_obj_put 7 (Key_i 5) (DB_DATA_INT 3) (db_alloc DB_INT 0 0) = Some (0, None, db)"
    and db: "db_ok db" "db_abs db [[5] \<mapsto> (Key_i 5, DB_DATA_INT 3)]" "m_free_lock db \<noteq> - 1"
    using demo_put by force
  moreover have "\<exists>db'. db_obj_vclear (Some (collect (\<lambda>k d. 10) (\<lambda>k d. d))) [] db = Some (10, [(Key_i 5, DB_DATA_INT 3)], db') \<and> db_abs db' Map.empty"
  proof -
    obtain es db' where e: "db_obj_vclear (Some (collect (\<lambda>k d. 10) (\<lambda>k d. d))) [] db = Some (s32 (sum_list (List.map (\<lambda>(k, d). 10) es)), es, db')"
      "entries [[5] \<mapsto> (Key_i 5, DB_DATA_INT 3)] es" "db_abs db' Map.empty"
      using db_clear_empties [OF db] by blast
    have "es = [(Key_i 5, DB_DATA_INT 3)]"
      using e(2) by (cases es) (auto simp: entries_def)
    then show ?thesis
      using e by (simp add: s32_id)
  qed
  ultimately show ?thesis
    by blast
qed

text \<open>\<open>ensure\<close> of a key that was removed under a lock returns the removed node without reviving it or
  calling the callback, and caches it. The next unlock frees the node, the cache points to freed memory and
  the next lookup follows it.\<close>

theorem db_ensure_dangling:
  "do {
     (_, _, db) \<leftarrow> db_obj_put 7 (Key_i 5) (DB_DATA_INT v) (db_alloc DB_INT 0 0);
     (it, db) \<leftarrow> db_obj_iterator db;
     (_, _, db) \<leftarrow> db_obj_remove (Key_i 5) db;
     (p, db) \<leftarrow> db_obj_vensure 8 (Key_i 5) create db;
     db \<leftarrow> dbit_obj_destroy it db;
     Some (p, m_cache db, Option.is_none (m_nodes db 7), Option.is_none (db_obj_get (Key_i 5) db))
   } = Some (7, 7, True, True)"
  by code_simp

end
