(* ===== verification/StrLib.thy ===== *)
theory StrLib imports DbKey begin

text \<open>
  Characters and C strings, and the escape sequences of \<^verbatim>\<open>src/common/strlib.c\<close>. A C string is the list of
  its characters before the terminating NUL; \<open>ch p\<close> is \<open>*p\<close>.
\<close>

section \<open>Characters\<close>

definition ch :: "string \<Rightarrow> char" where
  "ch p = (case p of [] \<Rightarrow> CHR 0x00 | c # _ \<Rightarrow> c)"

definition between_ch :: "char \<Rightarrow> char \<Rightarrow> char \<Rightarrow> bool" where
  "between_ch a b c \<longleftrightarrow> of_char a \<le> (of_char c :: nat) \<and> of_char c \<le> (of_char b :: nat)"

definition isdigit :: "char \<Rightarrow> bool" where "isdigit c \<longleftrightarrow> between_ch CHR ''0'' CHR ''9'' c"

definition isalpha :: "char \<Rightarrow> bool" where
  "isalpha c \<longleftrightarrow> between_ch CHR ''A'' CHR ''Z'' c \<or> between_ch CHR ''a'' CHR ''z'' c"

definition isalnum :: "char \<Rightarrow> bool" where "isalnum c \<longleftrightarrow> isalpha c \<or> isdigit c"

definition isxdigit :: "char \<Rightarrow> bool" where
  "isxdigit c \<longleftrightarrow> isdigit c \<or> between_ch CHR ''A'' CHR ''F'' c \<or> between_ch CHR ''a'' CHR ''f'' c"

definition isspace :: "char \<Rightarrow> bool" where
  "isspace c \<longleftrightarrow> c = CHR '' '' \<or> between_ch CHR 0x09 CHR 0x0D c"

definition is_octal :: "char \<Rightarrow> bool" where "is_octal c \<longleftrightarrow> between_ch CHR ''0'' CHR ''7'' c"

definition digit_val :: "char \<Rightarrow> nat" where "digit_val c = of_char c - of_char CHR ''0''"

text \<open>The table \<open>low2hex\<close>.\<close>

definition low2hex :: "char \<Rightarrow> nat" where
  "low2hex c = (if isdigit c then digit_val c
     else if between_ch CHR ''A'' CHR ''F'' c then of_char c - of_char CHR ''A'' + 10
     else if between_ch CHR ''a'' CHR ''f'' c then of_char c - of_char CHR ''a'' + 10 else 0)"

definition uchar :: "nat \<Rightarrow> char" where "uchar n = char_of (n mod 256)"

lemma ch_simps [simp]: "ch [] = CHR 0x00" "ch (c # p) = c"
  by (simp_all add: ch_def)

section \<open>Escape sequences\<close>

definition SV_ESCAPE_C_SUPPORTED :: string where
  "SV_ESCAPE_C_SUPPORTED = ''abtnvfr?'' @ [CHR 0x22, CHR 0x27, CHR 0x5C]"

definition octal_digits :: "char \<Rightarrow> string" where
  "octal_digits c = (let n = of_char c :: nat in List.map (\<lambda>d. char_of (48 + d)) [n div 64 mod 8, n div 8 mod 8, n mod 8])"

definition escape_char :: "string \<Rightarrow> char \<Rightarrow> string" where
  "escape_char escapes c =
     (if c = CHR 0x00 then CHR 0x5C # ''000''
      else if c = CHR 0x0D then [CHR 0x5C, CHR ''r'']
      else if c = CHR 0x0A then [CHR 0x5C, CHR ''n'']
      else if c = CHR 0x5C then [CHR 0x5C, CHR 0x5C]
      else if c \<in> set escapes then CHR 0x5C #
        (if c = CHR 0x07 then ''a'' else if c = CHR 0x08 then ''b'' else if c = CHR 0x09 then ''t''
         else if c = CHR 0x0B then ''v'' else if c = CHR 0x0C then ''f'' else if c = CHR ''?'' then ''?''
         else octal_digits c)
      else [c])"

definition sv_escape_c :: "string \<Rightarrow> string \<Rightarrow> string" where
  "sv_escape_c src escapes = concat (List.map (escape_char escapes) src)"

text \<open>At most two more octal digits: the value and what is left.\<close>

definition octal_digit :: "nat \<times> string \<Rightarrow> nat \<times> string" where
  "octal_digit = (\<lambda>(v, s). case s of [] \<Rightarrow> (v, s) | d # t \<Rightarrow> if is_octal d then (8 * v + digit_val d, t) else (v, s))"

definition unescape_other :: "char \<Rightarrow> char" where
  "unescape_other c =
     (if c = CHR ''a'' then CHR 0x07 else if c = CHR ''b'' then CHR 0x08 else if c = CHR ''t'' then CHR 0x09
      else if c = CHR ''n'' then CHR 0x0A else if c = CHR ''v'' then CHR 0x0B else if c = CHR ''f'' then CHR 0x0C
      else if c = CHR ''r'' then CHR 0x0D else c)"

lemma octal_digit_len: "length (snd (octal_digit (v, s))) \<le> length s"
  by (auto simp: octal_digit_def split: list.split)

function (sequential) sv_unescape_c :: "string \<Rightarrow> string" where
  "sv_unescape_c [] = []"
| "sv_unescape_c (c # s) = (if c \<noteq> CHR 0x5C then c # sv_unescape_c s
     else case s of [] \<Rightarrow> []
       | d # t \<Rightarrow>
         if d = CHR ''x'' then
           (if \<not> isxdigit (ch t) then sv_unescape_c t
            else uchar (foldl (\<lambda>v h. 16 * v + low2hex h) 0 (takeWhile isxdigit t)) # sv_unescape_c (dropWhile isxdigit t))
         else if d \<in> set ''0123'' then
           (let r = octal_digit (octal_digit (digit_val d, t)) in uchar (fst r) # sv_unescape_c (snd r))
         else unescape_other d # sv_unescape_c t)"
  by pat_completeness auto
termination
proof (relation "measure length", goal_cases)
  case (4 c s d t)
  then show ?case
    using length_dropWhile_le [of isxdigit t] by simp
next
  case (5 c s d t r)
  have "length (snd (octal_digit (octal_digit (digit_val d, t)))) \<le> length (snd (octal_digit (digit_val d, t)))"
    by (cases "octal_digit (digit_val d, t)") (simp add: octal_digit_len)
  also have "\<dots> \<le> length t"
    by (rule octal_digit_len)
  finally show ?case
    using 5 by simp
qed simp_all

definition skip_escaped_c :: "string \<Rightarrow> string" where
  "skip_escaped_c p = (if ch p \<noteq> CHR 0x5C then p
     else let q = tl p in
       if ch q = CHR ''x'' then dropWhile isxdigit (tl q)
       else if ch q \<in> set ''0123'' then
         (let q = tl q; q = (if is_octal (ch q) then tl q else q) in if is_octal (ch q) then tl q else q)
       else if q \<noteq> [] \<and> ch q \<in> set SV_ESCAPE_C_SUPPORTED then tl q else q)"

section \<open>Lemmas\<close>

lemma char_nat: "of_char c = (of_char d :: nat) \<longleftrightarrow> c = d"
  by simp

lemma octal_digit_char:
  assumes "d < 8"
  shows "octal_digit (v, char_of (48 + d :: nat) # s) = (8 * v + d, s)"
proof -
  have "of_char (char_of (48 + d :: nat)) = (48 + d :: nat)"
    using assms by simp
  then show ?thesis
    using assms by (simp add: octal_digit_def is_octal_def between_ch_def digit_val_def)
qed

lemma octal_first:
  assumes "d < 4"
  shows "char_of (48 + d :: nat) \<in> set ''0123''" "digit_val (char_of (48 + d :: nat)) = d" "char_of (48 + d :: nat) \<noteq> CHR ''x''"
proof -
  have e: "of_char (char_of (48 + d :: nat)) = (48 + d :: nat)"
    using assms by simp
  show "digit_val (char_of (48 + d :: nat)) = d"
    unfolding digit_val_def e by simp
  have "\<forall>d \<in> set [0, 1, 2, 3]. char_of (48 + d :: nat) \<in> set ''0123'' \<and> char_of (48 + d :: nat) \<noteq> CHR ''x''"
    by code_simp
  moreover have "d \<in> set [0, 1, 2, 3]"
    using assms by auto
  ultimately show "char_of (48 + d :: nat) \<in> set ''0123''" "char_of (48 + d :: nat) \<noteq> CHR ''x''"
    by blast+
qed

lemma octal_value:
  assumes "(n :: nat) < 256"
  shows "n div 64 mod 8 < 4" "64 * (n div 64 mod 8) + 8 * (n div 8 mod 8) + n mod 8 = n"
proof -
  have q: "n div 64 < 4"
    using assms by (simp add: div_less_iff_less_mult)
  then show "n div 64 mod 8 < 4"
    by simp
  have m: "n div 64 mod 8 = n div 64"
    using q by simp
  have "n div 8 div 8 = n div 64"
    by (simp add: div_mult2_eq [symmetric])
  then show "64 * (n div 64 mod 8) + 8 * (n div 8 mod 8) + n mod 8 = n"
    using m div_mult_mod_eq [of n 8] div_mult_mod_eq [of "n div 8" 8] by linarith
qed

lemma unescape_digits:
  assumes "i < 4" "j < 8" "k < 8"
  shows "sv_unescape_c (CHR 0x5C # char_of (48 + i :: nat) # char_of (48 + j :: nat) # char_of (48 + k :: nat) # s) =
    uchar (64 * i + 8 * j + k) # sv_unescape_c s"
  using octal_first [OF assms(1)] octal_digit_char [OF assms(2)] octal_digit_char [OF assms(3)] by (simp add: Let_def)

lemma unescape_octal: "sv_unescape_c (CHR 0x5C # octal_digits c @ s) = c # sv_unescape_c s"
proof -
  define n where "n = (of_char c :: nat)"
  have n: "n < 256" "uchar n = c"
    by (simp_all add: n_def uchar_def)
  have "octal_digits c = [char_of (48 + (n div 64 mod 8)), char_of (48 + (n div 8 mod 8)), char_of (48 + (n mod 8))]"
    by (simp add: octal_digits_def n_def Let_def)
  then show ?thesis
    using unescape_digits [OF octal_value(1) [OF n(1)], of "n div 8 mod 8" "n mod 8" s]
    unfolding octal_value(2) [OF n(1)] n(2) by (simp del: sv_unescape_c.simps)
qed

lemma unescape_escape_char: "sv_unescape_c (escape_char escapes c @ s) = c # sv_unescape_c s"
proof -
  consider "c \<in> {CHR 0x00, CHR 0x0D, CHR 0x0A, CHR 0x5C, CHR 0x07, CHR 0x08, CHR 0x09, CHR 0x0B, CHR 0x0C, CHR ''?''}"
    | "c \<notin> {CHR 0x00, CHR 0x0D, CHR 0x0A, CHR 0x5C, CHR 0x07, CHR 0x08, CHR 0x09, CHR 0x0B, CHR 0x0C, CHR ''?''}"
    by blast
  then show ?thesis
  proof cases
    case 1
    have "''000'' = octal_digits CHR 0x00"
      by code_simp
    then have "c = CHR 0x00 \<Longrightarrow> ?thesis"
      using unescape_octal [of "CHR 0x00" s] by (simp add: escape_char_def)
    then show ?thesis
      using 1 by (auto simp: escape_char_def unescape_other_def)
  next
    case 2
    then show ?thesis
      using unescape_octal [of c s] by (simp add: escape_char_def)
  qed
qed

lemma unescape_escape: "sv_unescape_c (sv_escape_c src escapes) = src"
proof (induction src)
  case (Cons c src)
  then show ?case
    using unescape_escape_char [of escapes c "sv_escape_c src escapes"] by (simp add: sv_escape_c_def)
qed (simp add: sv_escape_c_def)

end
