(* ===== verification/ScriptCode.thy ===== *)
theory ScriptCode imports StrLib begin

unbundle bit_operations_syntax

text \<open>
  The bytecode of scripts (\<^verbatim>\<open>src/map/script.c\<close>): the operators and the variable-length operands. The script
  buffer is the list of its bytes; a position past its end is not read (\<open>None\<close>).
\<close>

section \<open>Operators\<close>

datatype c_op = C_NOP | C_POS | C_INT | C_PARAM | C_FUNC | C_STR | C_CONSTSTR | C_ARG | C_NAME | C_EOL | C_RETINFO
  | C_USERFUNC | C_USERFUNC_POS | C_REF
  | C_OP3 | C_LOR | C_LAND | C_LE | C_LT | C_GE | C_GT | C_EQ | C_NE | C_XOR | C_OR | C_AND | C_ADD | C_SUB | C_MUL | C_DIV | C_MOD
  | C_NEG | C_LNOT | C_NOT | C_R_SHIFT | C_L_SHIFT | C_ADD_PP | C_SUB_PP

definition c_ops :: "c_op list" where
  "c_ops = [C_NOP, C_POS, C_INT, C_PARAM, C_FUNC, C_STR, C_CONSTSTR, C_ARG, C_NAME, C_EOL, C_RETINFO, C_USERFUNC, C_USERFUNC_POS, C_REF,
     C_OP3, C_LOR, C_LAND, C_LE, C_LT, C_GE, C_GT, C_EQ, C_NE, C_XOR, C_OR, C_AND, C_ADD, C_SUB, C_MUL, C_DIV, C_MOD,
     C_NEG, C_LNOT, C_NOT, C_R_SHIFT, C_L_SHIFT, C_ADD_PP, C_SUB_PP]"

fun index_in :: "'a \<Rightarrow> 'a list \<Rightarrow> nat" where
  "index_in x [] = 0"
| "index_in x (y # ys) = (if x = y then 0 else Suc (index_in x ys))"

definition op_num :: "c_op \<Rightarrow> int" where "op_num c = int (index_in c c_ops)"

text \<open>A number that is no value of the enum is an unknown command.\<close>

definition op_of :: "int \<Rightarrow> c_op option" where
  "op_of i = (if 0 \<le> i \<and> i < int (length c_ops) then Some (c_ops ! nat i) else None)"

section \<open>Writing\<close>

definition add_scriptb :: "int \<Rightarrow> int list \<Rightarrow> int list" where
  "add_scriptb a buf = buf @ [u8 a]"

function add_scriptn :: "int \<Rightarrow> int list \<Rightarrow> int list" where
  "add_scriptn a buf = (if a \<ge> 64 then add_scriptn ((a - 64) div 64) (add_scriptb ((a AND 63) OR 64) buf) else add_scriptb a buf)"
  by pat_completeness auto
termination
  by (relation "measure (\<lambda>(a, buf). nat a)") auto

definition add_scriptc :: "c_op \<Rightarrow> int list \<Rightarrow> int list" where
  "add_scriptc c = add_scriptn (op_num c)"

function add_scripti :: "int \<Rightarrow> int list \<Rightarrow> int list" where
  "add_scripti a buf = (if a \<ge> 64 then add_scripti ((a - 64) div 64) (add_scriptb ((a AND 63) OR 192) buf) else add_scriptb (a OR 128) buf)"
  by pat_completeness auto
termination
  by (relation "measure (\<lambda>(a, buf). nat a)") auto

definition add_3bytes :: "int \<Rightarrow> int list \<Rightarrow> int list" where
  "add_3bytes n buf = add_scriptb (n div 65536) (add_scriptb (n div 256) (add_scriptb n buf))"

definition GETVALUE :: "int list \<Rightarrow> nat \<Rightarrow> int option" where
  "GETVALUE buf i = (if i + 2 < length buf then Some (buf ! i + 256 * buf ! (i + 1) + 65536 * buf ! (i + 2)) else None)"

definition SETVALUE :: "int list \<Rightarrow> nat \<Rightarrow> int \<Rightarrow> int list option" where
  "SETVALUE buf i n = (if i + 2 < length buf then Some (buf[i := u8 n, i + 1 := u8 (n div 256), i + 2 := u8 (n div 65536)]) else None)"

section \<open>Reading\<close>

definition byte_at :: "int list \<Rightarrow> nat \<Rightarrow> int option" where
  "byte_at script pos = (if pos < length script then Some (script ! pos) else None)"

text \<open>\<open>i\<close> is what the bytes with a carry have left: each one overwrites it.\<close>

function get_com_loop :: "int list \<Rightarrow> nat \<Rightarrow> int \<Rightarrow> nat \<Rightarrow> (int \<times> nat) option" where
  "get_com_loop script pos i j = (if pos < length script then
     (if script ! pos \<ge> 64 then get_com_loop script (pos + 1) (script ! pos * 2 ^ j) (j + 6)
      else Some (i + script ! pos * 2 ^ j, pos + 1)) else None)"
  by pat_completeness auto
termination
  by (relation "measure (\<lambda>(script, pos, i, j). length script - pos)") auto

definition get_com :: "int list \<Rightarrow> nat \<Rightarrow> (int \<times> nat) option" where
  "get_com script pos = (if pos < length script \<and> script ! pos \<ge> 128 then Some (op_num C_INT, pos) else get_com_loop script pos 0 0)"

function get_num_loop :: "int list \<Rightarrow> nat \<Rightarrow> int \<Rightarrow> nat \<Rightarrow> (int \<times> nat) option" where
  "get_num_loop script pos i j = (if pos < length script then
     (if script ! pos \<ge> 192 then get_num_loop script (pos + 1) (i + (script ! pos AND 127) * 2 ^ j) (j + 6)
      else Some (i + (script ! pos AND 127) * 2 ^ j, pos + 1)) else None)"
  by pat_completeness auto
termination
  by (relation "measure (\<lambda>(script, pos, i, j). length script - pos)") auto

definition get_num :: "int list \<Rightarrow> nat \<Rightarrow> (int \<times> nat) option" where
  "get_num script pos = get_num_loop script pos 0 0"

section \<open>Round trips\<close>

declare add_scriptn.simps [simp del] add_scripti.simps [simp del] get_com_loop.simps [simp del] get_num_loop.simps [simp del]

lemma low_bits: "a AND 63 = a mod 64" "(a :: int) AND 127 = a mod 128"
  using take_bit_eq_mask [of 6 a] take_bit_eq_mask [of 7 a] by (simp_all add: take_bit_eq_mod mask_eq_exp_minus_1)

lemma or_add:
  assumes "0 \<le> (a :: int)" "a < 64"
  shows "a OR 64 = a + 64" "a OR 128 = a + 128" "a OR 192 = a + 192"
proof -
  have a: "a \<in> set [0..63]"
    using assms by auto
  have "\<forall>a \<in> set [0..63]. a OR 64 = a + 64 \<and> a OR 128 = a + 128 \<and> a OR 192 = (a :: int) + 192"
    by code_simp
  then show "a OR 64 = a + 64" "a OR 128 = a + 128" "a OR 192 = a + 192"
    using a by blast+
qed

lemma op_num_less: "op_num c < 38" "0 \<le> op_num c"
  by (cases c; simp add: op_num_def c_ops_def)+

lemma op_of_num [simp]: "op_of (op_num c) = Some c"
  by (cases c) (simp_all add: op_of_def op_num_def c_ops_def)

lemma add_scriptc_byte: "add_scriptc c buf = buf @ [op_num c]"
  using op_num_less [of c] by (simp add: add_scriptc_def add_scriptn.simps add_scriptb_def u8_def)

lemma get_com_op: "get_com (xs @ op_num c # ys) (length xs) = Some (op_num c, Suc (length xs))"
  using op_num_less [of c] by (simp add: get_com_def get_com_loop.simps)

text \<open>The bytes of a number.\<close>

definition num_bytes :: "int \<Rightarrow> int list" where "num_bytes a = add_scripti a []"

lemma add_scripti_append: "add_scripti a (xs @ buf) = xs @ add_scripti a buf"
  by (induction a buf rule: add_scripti.induct) (subst (1 2) add_scripti.simps, simp add: add_scriptb_def)

lemma add_scripti_bytes: "add_scripti a buf = buf @ num_bytes a"
  using add_scripti_append [of a buf "[]"] by (simp add: num_bytes_def)

lemma num_bytes_simps:
  assumes "0 \<le> a"
  shows "num_bytes a = (if a \<ge> 64 then (192 + a mod 64) # num_bytes ((a - 64) div 64) else [128 + a])"
proof -
  have hi: "(a AND 63) OR 192 = a mod 64 + 192"
    unfolding low_bits by (intro or_add(3)) simp_all
  have u: "u8 (a mod 64 + 192) = a mod 64 + 192"
    using pos_mod_bound [of 64 a] by (simp add: u8_def)
  show ?thesis
  proof (cases "a \<ge> 64")
    case True
    then have "num_bytes a = add_scripti ((a - 64) div 64) [a mod 64 + 192]"
      unfolding num_bytes_def by (subst add_scripti.simps) (simp only: if_True add_scriptb_def hi u append_Nil)
    then show ?thesis
      using True by (simp add: add_scripti_bytes)
  next
    case False
    moreover from this have "a OR 128 = a + 128" "u8 (a + 128) = a + 128"
      using assms by (auto intro: or_add(2) simp: u8_def)
    ultimately show ?thesis
      unfolding num_bytes_def by (subst add_scripti.simps) (simp add: add_scriptb_def)
  qed
qed

lemma get_num_bytes:
  assumes "0 \<le> a"
  shows "get_num_loop (xs @ num_bytes a @ ys) (length xs) i j = Some (i + a * 2 ^ j, length (xs @ num_bytes a))"
  using assms
proof (induction "nat a" arbitrary: a xs i j rule: less_induct)
  case less
  show ?case
  proof (cases "a \<ge> 64")
    case True
    let ?b = "(a - 64) div 64"
    have b: "nat ?b < nat a" "0 \<le> ?b"
      using True by auto
    have "(128 + (64 + a mod 64)) mod 128 = (64 + a mod 64) mod 128"
      by (rule mod_add_self1)
    then have m: "(192 + a mod 64) mod 128 = 64 + a mod 64"
      using pos_mod_bound [of 64 a] by simp
    have "?b = a div 64 - 1"
      by simp
    then have v: "(64 + a mod 64) + ?b * 64 = a"
      using mult_div_mod_eq [of 64 a] by linarith
    have "i + (64 + a mod 64) * 2 ^ j + ?b * 2 ^ (j + 6) = i + ((64 + a mod 64) + ?b * 64) * 2 ^ j"
      by (simp add: algebra_simps power_add)
    also have "\<dots> = i + a * 2 ^ j"
      unfolding v ..
    finally show ?thesis
      using less.hyps [OF b, of "xs @ [192 + a mod 64]" "i + (64 + a mod 64) * 2 ^ j" "j + 6"] True less.prems
      by (simp add: num_bytes_simps [of a] get_num_loop.simps [of "xs @ (192 + a mod 64) # num_bytes ?b @ ys"] low_bits m)
  next
    case False
    then show ?thesis
      using less.prems by (simp add: num_bytes_simps [of a] get_num_loop.simps low_bits)
  qed
qed

lemma num_bytes_high:
  assumes "0 \<le> a"
  obtains b bs where "num_bytes a = b # bs" "128 \<le> b" "b < 256"
  using that num_bytes_simps [OF assms] pos_mod_bound [of 64 a] assms by (cases "a \<ge> 64") auto

lemma get_com_num: "0 \<le> a \<Longrightarrow> get_com (xs @ num_bytes a @ ys) (length xs) = Some (op_num C_INT, length xs)"
  by (rule num_bytes_high [of a]) (auto simp: get_com_def)

lemma get_num_num: "0 \<le> a \<Longrightarrow> get_num (xs @ num_bytes a @ ys) (length xs) = Some (a, length (xs @ num_bytes a))"
  using get_num_bytes [of a xs ys 0 0] by (simp add: get_num_def)

definition bytes3 :: "int \<Rightarrow> int list" where "bytes3 n = [u8 n, u8 (n div 256), u8 (n div 65536)]"

lemma add_3bytes_bytes: "add_3bytes n buf = buf @ bytes3 n"
  by (simp add: add_3bytes_def add_scriptb_def bytes3_def)

lemma bytes3_value:
  assumes "0 \<le> n" "n < 16777216"
  shows "u8 n + 256 * u8 (n div 256) + 65536 * u8 (n div 65536) = n"
proof -
  have "n div 65536 = n div 256 div 256"
    by (simp add: zdiv_zmult2_eq [symmetric])
  moreover have "u8 (n div 65536) = n div 65536"
    using assms by (simp add: u8_def pos_imp_zdiv_nonneg_iff div_less_iff_less_mult)
  ultimately show ?thesis
    using mult_div_mod_eq [of 256 n] mult_div_mod_eq [of 256 "n div 256"] unfolding u8_def by linarith
qed

lemma GETVALUE_bytes3: "0 \<le> n \<Longrightarrow> n < 16777216 \<Longrightarrow> GETVALUE (xs @ bytes3 n @ ys) (length xs) = Some n"
  using bytes3_value [of n] by (simp add: GETVALUE_def bytes3_def nth_append)

end
