(* ===== verification/ScriptSym.thy ===== *)
theory ScriptSym imports ScriptCode "HOL-Library.Monad_Syntax" begin

text \<open>
  The names of scripts (\<^verbatim>\<open>src/map/script.c\<close>): a hash table of words, and the references to words in the
  script buffer. A word whose meaning is not known yet is referenced through a list that is threaded
  through the buffer (\<open>backpatch\<close>); \<open>set_label\<close> and the end of \<open>parse_script\<close> resolve it. An index out of
  range is \<open>None\<close>.
\<close>

section \<open>The table\<close>

record str_data =
  sd_type :: c_op
  sd_str :: string
  sd_backpatch :: int
  sd_label :: int
  sd_val :: int
  sd_next :: nat

definition SCRIPT_HASH_SIZE :: nat where "SCRIPT_HASH_SIZE = 1021"
definition LABEL_NEXTLINE :: nat where "LABEL_NEXTLINE = 1"
definition LABEL_START :: nat where "LABEL_START = 2"

record str_table =
  st_data :: "str_data list"
  st_hash :: "nat list"

definition hash_step :: "32 word \<Rightarrow> char \<Rightarrow> 32 word" where
  "hash_step h c = (let h = push_bit 4 h + of_char (tolower c); g = h AND 0xF0000000 in
     if g \<noteq> 0 then (h XOR drop_bit 24 g) AND NOT g else h)"

definition calc_hash :: "string \<Rightarrow> nat" where
  "calc_hash p = unat (foldl hash_step 0 p) mod SCRIPT_HASH_SIZE"

definition strcaseeq :: "string \<Rightarrow> string \<Rightarrow> bool" where
  "strcaseeq s t \<longleftrightarrow> List.map tolower s = List.map tolower t"

definition nth_opt :: "'a list \<Rightarrow> nat \<Rightarrow> 'a option" where
  "nth_opt xs i = (if i < length xs then Some (xs ! i) else None)"

definition get_str :: "nat \<Rightarrow> str_table \<Rightarrow> string option" where
  "get_str i tab = (if LABEL_START \<le> i then map_option sd_str (nth_opt (st_data tab) i) else None)"

partial_function (option) search_chain :: "str_table \<Rightarrow> string \<Rightarrow> nat \<Rightarrow> int option" where
  [code]: "search_chain tab p i = (if i = 0 then Some (- 1) else do {
     d \<leftarrow> nth_opt (st_data tab) i;
     if strcaseeq (sd_str d) p then Some (int i) else search_chain tab p (sd_next d) })"

definition search_str :: "string \<Rightarrow> str_table \<Rightarrow> int option" where
  "search_str p tab = do { i \<leftarrow> nth_opt (st_hash tab) (calc_hash p); search_chain tab p i }"

text \<open>The entry with the same word, or the last one of the list.\<close>

partial_function (option) add_chain :: "str_table \<Rightarrow> string \<Rightarrow> nat \<Rightarrow> (bool \<times> nat) option" where
  [code]: "add_chain tab p i = do {
     d \<leftarrow> nth_opt (st_data tab) i;
     if strcaseeq (sd_str d) p then Some (True, i)
     else if sd_next d = 0 then Some (False, i) else add_chain tab p (sd_next d) }"

definition new_word :: "string \<Rightarrow> str_data" where
  "new_word p = \<lparr>sd_type = C_NOP, sd_str = p, sd_backpatch = - 1, sd_label = - 1, sd_val = 0, sd_next = 0\<rparr>"

definition upd_data :: "nat \<Rightarrow> (str_data \<Rightarrow> str_data) \<Rightarrow> str_table \<Rightarrow> str_table" where
  "upd_data i f tab = tab\<lparr>st_data := (st_data tab)[i := f (st_data tab ! i)]\<rparr>"

definition append_word :: "string \<Rightarrow> str_table \<Rightarrow> nat \<times> str_table" where
  "append_word p tab = (length (st_data tab), tab\<lparr>st_data := st_data tab @ [new_word p]\<rparr>)"

definition add_str :: "string \<Rightarrow> str_table \<Rightarrow> (nat \<times> str_table) option" where
  "add_str p tab = (let h = calc_hash p; n = length (st_data tab) in do {
     i \<leftarrow> nth_opt (st_hash tab) h;
     if i = 0 then Some (append_word p (tab\<lparr>st_hash := (st_hash tab)[h := n]\<rparr>))
     else do {
       (found, i) \<leftarrow> add_chain tab p i;
       Some (if found then (i, tab) else append_word p (upd_data i (\<lambda>d. d\<lparr>sd_next := n\<rparr>) tab))
     } })"

section \<open>References\<close>

text \<open>\<open>abs\<close> of the least number is that number.\<close>

definition add_scriptl :: "nat \<Rightarrow> int list \<times> str_table \<Rightarrow> (int list \<times> str_table) option" where
  "add_scriptl l = (\<lambda>(buf, tab). do {
     d \<leftarrow> nth_opt (st_data tab) l;
     Some (case sd_type d of
       C_POS \<Rightarrow> (add_3bytes (sd_label d) (add_scriptc C_POS buf), tab)
     | C_USERFUNC_POS \<Rightarrow> (add_3bytes (sd_label d) (add_scriptc C_POS buf), tab)
     | C_NOP \<Rightarrow> (let buf = add_scriptc C_NAME buf in
         (add_3bytes (sd_backpatch d) buf, upd_data l (\<lambda>d. d\<lparr>sd_backpatch := int (length buf)\<rparr>) tab))
     | C_USERFUNC \<Rightarrow> (let buf = add_scriptc C_NAME buf in
         (add_3bytes (sd_backpatch d) buf, upd_data l (\<lambda>d. d\<lparr>sd_backpatch := int (length buf)\<rparr>) tab))
     | C_INT \<Rightarrow> (let buf = add_scripti (s32 \<bar>sd_val d\<bar>) buf in
         (if sd_val d < 0 then add_scriptc C_NEG buf else buf, tab))
     | _ \<Rightarrow> (add_3bytes (int l) (add_scriptc C_NAME buf), tab)) })"

text \<open>The loop that resolves the references: with \<open>Some c\<close> the command before the operand is written too.\<close>

partial_function (option) patch_loop :: "c_op option \<Rightarrow> int \<Rightarrow> int list \<Rightarrow> int \<Rightarrow> int list option" where
  [code]: "patch_loop c n buf i = (if i \<ge> 0 \<and> i \<noteq> 0xffffff then do {
     next \<leftarrow> GETVALUE buf (nat i);
     buf \<leftarrow> (case c of None \<Rightarrow> Some buf | Some c \<Rightarrow>
       (if 0 < i then Some (buf[nat i - 1 := op_num c]) else None));
     buf \<leftarrow> SETVALUE buf (nat i) n;
     patch_loop c n buf next } else Some buf)"

text \<open>\<open>Inl ()\<close> is an error that ends the parsing.\<close>

definition set_label :: "nat \<Rightarrow> int \<Rightarrow> int list \<times> str_table \<Rightarrow> (unit + (int list \<times> str_table)) option" where
  "set_label l pos = (\<lambda>(buf, tab). do {
     d \<leftarrow> nth_opt (st_data tab) l;
     if sd_type d \<in> {C_INT, C_PARAM, C_FUNC} then Some (Inl ())
     else if sd_label d \<noteq> - 1 then Some (Inl ())
     else do {
       let type = (if sd_type d = C_USERFUNC then C_USERFUNC_POS else C_POS);
       buf \<leftarrow> patch_loop (Some (if type = C_USERFUNC then C_USERFUNC_POS else C_POS)) pos buf (sd_backpatch d);
       Some (Inr (buf, upd_data l (\<lambda>d. d\<lparr>sd_type := type, sd_label := pos\<rparr>) tab)) } })"

text \<open>The end of \<open>parse_script\<close>: unknown references are variables. The flag tells of functions that are declared only.\<close>

definition default_ref :: "nat \<Rightarrow> bool \<times> int list \<times> str_table \<Rightarrow> (bool \<times> int list \<times> str_table) option" where
  "default_ref i = (\<lambda>(unresolved, buf, tab). do {
     d \<leftarrow> nth_opt (st_data tab) i;
     if sd_type d = C_NOP then do {
       buf \<leftarrow> patch_loop None (int i) buf (sd_backpatch d);
       Some (unresolved, buf, upd_data i (\<lambda>d. d\<lparr>sd_type := C_NAME, sd_label := int i\<rparr>) tab) }
     else Some (sd_type d = C_USERFUNC \<or> unresolved, buf, tab) })"

fun default_refs :: "nat list \<Rightarrow> bool \<times> int list \<times> str_table \<Rightarrow> (bool \<times> int list \<times> str_table) option" where
  "default_refs [] s = Some s"
| "default_refs (i # is) s = do { s \<leftarrow> default_ref i s; default_refs is s }"

definition resolve_names :: "int list \<times> str_table \<Rightarrow> (bool \<times> int list \<times> str_table) option" where
  "resolve_names s = default_refs [LABEL_START ..< length (st_data (snd s))] (False, s)"

text \<open>The end of a line.\<close>

definition parse_nextline :: "bool \<Rightarrow> int list \<times> str_table \<Rightarrow> (unit + (int list \<times> str_table)) option" where
  "parse_nextline first s = do {
     r \<leftarrow> (if first then Some (Inr s) else (let (buf, tab) = s; buf = add_scriptc C_EOL buf in set_label LABEL_NEXTLINE (int (length buf)) (buf, tab)));
     Some (case r of Inl e \<Rightarrow> Inl e
       | Inr (buf, tab) \<Rightarrow> Inr (buf, upd_data LABEL_NEXTLINE (\<lambda>d. d\<lparr>sd_type := C_NOP, sd_backpatch := - 1, sd_label := - 1\<rparr>) tab)) }"

definition empty_table :: str_table where
  "empty_table = \<lparr>st_data = replicate LABEL_START (new_word []), st_hash = replicate SCRIPT_HASH_SIZE 0\<rparr>"

section \<open>The table is a map of words\<close>

text \<open>The lists of the buckets: ascending, each entry with the next one, no word twice.\<close>

fun linked :: "str_data list \<Rightarrow> nat list \<Rightarrow> bool" where
  "linked d [] = True"
| "linked d [i] = (sd_next (d ! i) = 0)"
| "linked d (i # j # is) = (sd_next (d ! i) = j \<and> linked d (j # is))"

fun head :: "nat list \<Rightarrow> nat" where
  "head [] = 0"
| "head (i # is) = i"

definition bucket_list :: "str_data list \<Rightarrow> nat \<Rightarrow> nat list" where
  "bucket_list d h = filter (\<lambda>i. calc_hash (sd_str (d ! i)) = h) [LABEL_START ..< length d]"

definition table_ok :: "str_table \<Rightarrow> bool" where
  "table_ok tab \<longleftrightarrow> LABEL_START \<le> length (st_data tab) \<and> length (st_hash tab) = SCRIPT_HASH_SIZE \<and>
     (\<forall>h < SCRIPT_HASH_SIZE. st_hash tab ! h = head (bucket_list (st_data tab) h) \<and> linked (st_data tab) (bucket_list (st_data tab) h)) \<and>
     (\<forall>i j. LABEL_START \<le> i \<and> i < j \<and> j < length (st_data tab) \<longrightarrow> \<not> strcaseeq (sd_str (st_data tab ! i)) (sd_str (st_data tab ! j)))"

lemma calc_hash_less: "calc_hash p < SCRIPT_HASH_SIZE"
  by (simp add: calc_hash_def SCRIPT_HASH_SIZE_def)

lemma hash_case: "strcaseeq s t \<Longrightarrow> calc_hash s = calc_hash t"
proof -
  have h: "foldl hash_step x s = foldl hash_step x (List.map tolower s)" for x s
  proof (induction s arbitrary: x)
    case (Cons c s)
    have "tolower (tolower c) = tolower c"
      by (cases "CHR ''A'' \<le> c \<and> c \<le> CHR ''Z''") (auto simp: tolower_def less_eq_char_def)
    then show ?case
      using Cons by (simp add: hash_step_def)
  qed simp
  show "strcaseeq s t \<Longrightarrow> calc_hash s = calc_hash t"
    using h [of 0 s] h [of 0 t] by (simp add: strcaseeq_def calc_hash_def)
qed

lemma linked_last: "linked d (is @ [i]) \<Longrightarrow> sd_next (d ! i) = 0"
  by (induction d "is" rule: linked.induct) auto

lemma search_chain_ok:
  assumes "linked (st_data tab) is" "\<forall>i \<in> set is. 0 < i \<and> i < length (st_data tab)"
  shows "search_chain tab p (head is) = Some (case find (\<lambda>i. strcaseeq (sd_str (st_data tab ! i)) p) is of None \<Rightarrow> - 1 | Some i \<Rightarrow> int i)"
  using assms
proof (induction "st_data tab" "is" rule: linked.induct)
  case 1
  then show ?case
    by (subst search_chain.simps) simp
next
  case (2 i)
  have "search_chain tab p 0 = Some (- 1)"
    by (subst search_chain.simps) simp
  then show ?case
    using 2 by (subst search_chain.simps) (simp add: nth_opt_def)
next
  case (3 i j "is")
  then show ?case
    by (subst search_chain.simps) (simp add: nth_opt_def)
qed

lemma add_chain_ok:
  assumes "linked (st_data tab) is" "\<forall>i \<in> set is. 0 < i \<and> i < length (st_data tab)" "is \<noteq> []"
  shows "add_chain tab p (head is) = Some (case find (\<lambda>i. strcaseeq (sd_str (st_data tab ! i)) p) is of
     None \<Rightarrow> (False, last is) | Some i \<Rightarrow> (True, i))"
  using assms
proof (induction "st_data tab" "is" rule: linked.induct)
  case (2 i)
  then show ?case
    by (subst add_chain.simps) (simp add: nth_opt_def)
next
  case (3 i j "is")
  then show ?case
    by (subst add_chain.simps) (simp add: nth_opt_def split: option.split)
qed simp

lemma bucket_bounds: "i \<in> set (bucket_list d h) \<Longrightarrow> LABEL_START \<le> i \<and> i < length d"
  by (simp add: bucket_list_def)

lemma linked_cong: "(\<And>i. i \<in> set is \<Longrightarrow> sd_next (d' ! i) = sd_next (d ! i)) \<Longrightarrow> linked d' is = linked d is"
  by (induction d "is" rule: linked.induct) auto

lemma linked_snoc:
  assumes "linked d is" "is \<noteq> []" "distinct (is @ [n])" "\<And>i. i \<in> set is \<Longrightarrow> i \<noteq> last is \<Longrightarrow> sd_next (d' ! i) = sd_next (d ! i)"
    "sd_next (d' ! last is) = n" "sd_next (d' ! n) = 0"
  shows "linked d' (is @ [n])"
  using assms
proof (induction d "is" rule: linked.induct)
  case (3 d i j "is")
  have "linked d' ((j # is) @ [n])"
    using 3 by (intro "3.IH") auto
  moreover have "i \<noteq> last (j # is)"
    using 3(4) last_in_set [of "j # is"] by auto
  then have "sd_next (d' ! i) = j"
    using 3(2) 3(5) [of i] by simp
  ultimately show ?case
    by simp
qed auto

text \<open>What a table says of a word.\<close>

definition find_word :: "str_table \<Rightarrow> string \<Rightarrow> nat option" where
  "find_word tab p = find (\<lambda>i. strcaseeq (sd_str (st_data tab ! i)) p) [LABEL_START ..< length (st_data tab)]"

lemma find_filter: "(\<And>x. P x \<Longrightarrow> Q x) \<Longrightarrow> find P (filter Q xs) = find P xs"
  by (induction xs) auto

lemma find_snoc: "find P xs = None \<Longrightarrow> find P (xs @ [x]) = (if P x then Some x else None)"
  by (induction xs) auto

lemma find_bucket:
  "find (\<lambda>i. strcaseeq (sd_str (st_data tab ! i)) p) (bucket_list (st_data tab) (calc_hash p)) = find_word tab p"
  unfolding bucket_list_def find_word_def by (rule find_filter) (rule hash_case)

lemma search_str_ok:
  assumes "table_ok tab"
  shows "search_str p tab = Some (case find_word tab p of None \<Rightarrow> - 1 | Some i \<Rightarrow> int i)"
proof -
  let ?L = "bucket_list (st_data tab) (calc_hash p)"
  have b: "st_hash tab ! calc_hash p = head ?L" "linked (st_data tab) ?L" "length (st_hash tab) = SCRIPT_HASH_SIZE"
    using assms calc_hash_less [of p] by (auto simp: table_ok_def)
  have "\<forall>i \<in> set ?L. 0 < i \<and> i < length (st_data tab)"
    using bucket_bounds [of _ "st_data tab" "calc_hash p"] by (fastforce simp: LABEL_START_def)
  then show ?thesis
    using search_chain_ok [OF b(2)] b(1,3) calc_hash_less [of p] by (simp add: search_str_def nth_opt_def find_bucket)
qed

definition same_words :: "str_data list \<Rightarrow> str_data list \<Rightarrow> bool" where
  "same_words d d' \<longleftrightarrow> List.map (sd_next_update (\<lambda>_. 0)) d = List.map (sd_next_update (\<lambda>_. 0)) d'"

lemma same_words_nth: "same_words d d' \<Longrightarrow> i < length d \<Longrightarrow> sd_str (d' ! i) = sd_str (d ! i)"
  by (auto simp: same_words_def list_eq_iff_nth_eq dest!: spec [of _ i] arg_cong [of _ _ sd_str])

lemma same_words_length: "same_words d d' \<Longrightarrow> length d' = length d"
  by (auto simp: same_words_def dest: map_eq_imp_length_eq)

lemma same_words_upd: "same_words (st_data tab) (st_data (upd_data i (\<lambda>d. d\<lparr>sd_next := n\<rparr>) tab))"
proof (cases "i < length (st_data tab)")
  case True
  then have "(List.map (sd_next_update (\<lambda>_. 0)) (st_data tab))[i := (st_data tab ! i)\<lparr>sd_next := 0\<rparr>] = List.map (sd_next_update (\<lambda>_. 0)) (st_data tab)"
    by (metis list_update_id nth_map)
  then show ?thesis
    by (simp add: same_words_def upd_data_def map_update)
next
  case False
  then show ?thesis
    by (simp add: same_words_def upd_data_def list_update_beyond)
qed

lemma bucket_append:
  assumes "same_words d d'" "LABEL_START \<le> length d"
  shows "bucket_list (d' @ [new_word p]) h = bucket_list d h @ (if calc_hash p = h then [length d] else [])"
proof -
  note l = same_words_length [OF assms(1)]
  have "filter (\<lambda>i. calc_hash (sd_str ((d' @ [new_word p]) ! i)) = h) [LABEL_START ..< length d] = bucket_list d h"
    unfolding bucket_list_def using same_words_nth [OF assms(1)] l by (intro filter_cong) (auto simp: nth_append)
  moreover have "[LABEL_START ..< length (d' @ [new_word p])] = [LABEL_START ..< length d] @ [length d]"
    using assms(2) l by simp
  ultimately show ?thesis
    using l by (auto simp: bucket_list_def nth_append new_word_def)
qed

lemma append_ok:
  assumes T: "table_ok tab" and F: "find_word tab p = None"
    and d: "same_words (st_data tab) (st_data tab')" and hh: "st_hash tab' = (st_hash tab)[calc_hash p := head (bucket_list (st_data tab) (calc_hash p) @ [length (st_data tab)])]"
    and nx: "\<And>i. i < length (st_data tab) \<Longrightarrow> bucket_list (st_data tab) (calc_hash p) = [] \<or> i \<noteq> last (bucket_list (st_data tab) (calc_hash p)) \<Longrightarrow>
       sd_next (st_data tab' ! i) = sd_next (st_data tab ! i)"
    and la: "bucket_list (st_data tab) (calc_hash p) \<noteq> [] \<Longrightarrow> sd_next (st_data tab' ! last (bucket_list (st_data tab) (calc_hash p))) = length (st_data tab)"
  shows "table_ok (tab'\<lparr>st_data := st_data tab' @ [new_word p]\<rparr>)"
proof -
  let ?d = "st_data tab" and ?d' = "st_data tab' @ [new_word p]" and ?n = "length (st_data tab)" and ?h = "calc_hash p"
  note l = same_words_length [OF d]
  have n2: "LABEL_START \<le> ?n" and hl: "length (st_hash tab) = SCRIPT_HASH_SIZE"
    using T by (auto simp: table_ok_def)
  note B = bucket_append [OF d n2, of p]
  have h0: "st_hash tab ! h = head (bucket_list ?d h)" "linked ?d (bucket_list ?d h)" if "h < SCRIPT_HASH_SIZE" for h
    using T that by (auto simp: table_ok_def)
  have nth: "sd_next (?d' ! i) = sd_next (st_data tab' ! i)" if "i < ?n" for i
    using that l by (simp add: nth_append)
  have "linked ?d' (bucket_list ?d' h)" if h: "h < SCRIPT_HASH_SIZE" for h
  proof (cases "h = ?h")
    case True
    show ?thesis
    proof (cases "bucket_list ?d ?h = []")
      case True
      then show ?thesis
        using B [of h] \<open>h = ?h\<close> l by (simp add: nth_append new_word_def)
    next
      case False
      have last: "last (bucket_list ?d ?h) < ?n" and sub: "\<And>i. i \<in> set (bucket_list ?d ?h) \<Longrightarrow> i < ?n"
        using bucket_bounds [OF last_in_set [OF False]] bucket_bounds [of _ ?d ?h] by auto
      have "linked ?d' (bucket_list ?d ?h @ [?n])"
      proof (rule linked_snoc)
        show "linked ?d (bucket_list ?d ?h)" "bucket_list ?d ?h \<noteq> []"
          using h0(2) [OF h] False \<open>h = ?h\<close> by simp_all
        show "distinct (bucket_list ?d ?h @ [?n])"
          by (auto simp: bucket_list_def)
        show "sd_next (?d' ! i) = sd_next (?d ! i)" if "i \<in> set (bucket_list ?d ?h)" "i \<noteq> last (bucket_list ?d ?h)" for i
          using nx [of i] nth [of i] sub [OF that(1)] that(2) by simp
        show "sd_next (?d' ! last (bucket_list ?d ?h)) = ?n"
          using la [OF False] nth [OF last] by simp
        show "sd_next (?d' ! ?n) = 0"
          using l by (simp add: nth_append new_word_def)
      qed
      then show ?thesis
        using B [of h] \<open>h = ?h\<close> by simp
    qed
  next
    case False
    have "sd_next (?d' ! i) = sd_next (?d ! i)" if i: "i \<in> set (bucket_list ?d h)" for i
    proof -
      have "i \<notin> set (bucket_list ?d ?h)" "i < ?n"
        using i False by (auto simp: bucket_list_def)
      then show ?thesis
        using nx [of i] nth [of i] last_in_set [of "bucket_list ?d ?h"] by metis
    qed
    then show ?thesis
      using B [of h] False h0(2) [OF h] linked_cong [of "bucket_list ?d h" ?d' ?d] by simp
  qed
  moreover have "st_hash tab' ! h = head (bucket_list ?d' h)" if "h < SCRIPT_HASH_SIZE" for h
    using B [of h] h0(1) [OF that] hh hl that by (auto simp: nth_list_update)
  moreover have "\<not> strcaseeq (sd_str (?d' ! i)) (sd_str (?d' ! j))" if ij: "LABEL_START \<le> i" "i < j" "j < Suc ?n" for i j
  proof (cases "j = ?n")
    case True
    have "\<not> strcaseeq (sd_str (?d ! i)) p"
      using F ij True by (auto simp: find_word_def find_None_iff)
    then show ?thesis
      using True ij l same_words_nth [OF d, of i] by (simp add: nth_append new_word_def)
  next
    case False
    then have "\<not> strcaseeq (sd_str (?d ! i)) (sd_str (?d ! j))"
      using T ij by (auto simp: table_ok_def)
    then show ?thesis
      using False ij l same_words_nth [OF d, of i] same_words_nth [OF d, of j] by (simp add: nth_append)
  qed
  ultimately show ?thesis
    using n2 hl hh l by (simp add: table_ok_def)
qed

text \<open>The whole of \<open>add_str\<close>: the id of the word, new only when there was none.\<close>

lemma add_str_ok:
  assumes T: "table_ok tab"
  shows "\<exists>i tab'. add_str p tab = Some (i, tab') \<and> table_ok tab' \<and> find_word tab' p = Some i \<and>
    (case find_word tab p of Some j \<Rightarrow> i = j \<and> tab' = tab
     | None \<Rightarrow> i = length (st_data tab) \<and> same_words (st_data tab @ [new_word p]) (st_data tab'))"
proof -
  let ?d = "st_data tab" and ?n = "length (st_data tab)" and ?h = "calc_hash p"
  let ?L = "bucket_list ?d ?h"
  have b: "st_hash tab ! ?h = head ?L" "linked ?d ?L" "length (st_hash tab) = SCRIPT_HASH_SIZE" "LABEL_START \<le> ?n"
    using T calc_hash_less [of p] by (auto simp: table_ok_def)
  have L: "\<forall>i \<in> set ?L. 0 < i \<and> i < ?n"
    using bucket_bounds [of _ ?d ?h] by (fastforce simp: LABEL_START_def)
  have new: "find_word (tab'\<lparr>st_data := st_data tab' @ [new_word p]\<rparr>) p = Some ?n"
    if F: "find_word tab p = None" and d: "same_words ?d (st_data tab')" for tab'
  proof -
    note l = same_words_length [OF d]
    have "find (\<lambda>i. strcaseeq (sd_str ((st_data tab' @ [new_word p]) ! i)) p) [LABEL_START ..< ?n] = None"
      using F same_words_nth [OF d] l by (auto simp: find_word_def find_None_iff nth_append)
    moreover have "[LABEL_START ..< Suc ?n] = [LABEL_START ..< ?n] @ [?n]"
      using b(4) by simp
    ultimately show ?thesis
      using l by (simp add: find_word_def find_snoc nth_append new_word_def strcaseeq_def del: upt_Suc)
  qed
  show ?thesis
  proof (cases "?L = []")
    case True
    then have F: "find_word tab p = None"
      using find_bucket [of tab p] by simp
    let ?t = "tab\<lparr>st_hash := (st_hash tab)[?h := ?n]\<rparr>"
    have s: "same_words ?d (st_data ?t)"
      by (simp add: same_words_def)
    have "add_str p tab = Some (append_word p ?t)"
      using True b calc_hash_less [of p] by (simp add: add_str_def nth_opt_def Let_def)
    moreover have "table_ok (?t\<lparr>st_data := st_data ?t @ [new_word p]\<rparr>)"
      using True by (intro append_ok [OF T F s]) simp_all
    ultimately show ?thesis
      using F new [OF F s] by (simp add: append_word_def same_words_def)
  next
    case False
    then have hd0: "head ?L \<noteq> 0"
      using L by (cases ?L) auto
    have c: "add_chain tab p (head ?L) = Some (case find_word tab p of None \<Rightarrow> (False, last ?L) | Some i \<Rightarrow> (True, i))"
      using add_chain_ok [OF b(2) L False, of p] find_bucket [of tab p] by simp
    show ?thesis
    proof (cases "find_word tab p")
      case (Some j)
      then show ?thesis
        using hd0 c b calc_hash_less [of p] T by (simp add: add_str_def nth_opt_def Let_def)
    next
      case None
      let ?t = "upd_data (last ?L) (\<lambda>d. d\<lparr>sd_next := ?n\<rparr>) tab"
      have la: "last ?L < ?n"
        using L False by simp
      have s: "same_words ?d (st_data ?t)"
        by (rule same_words_upd)
      have "add_str p tab = Some (append_word p ?t)"
        using hd0 c b calc_hash_less [of p] None by (simp add: add_str_def nth_opt_def Let_def)
      moreover have "head (?L @ [?n]) = head ?L"
        using False by (cases ?L) auto
      then have "st_hash tab = (st_hash tab)[?h := head (?L @ [?n])]"
        using b(1) by (metis list_update_id)
      then have "table_ok (?t\<lparr>st_data := st_data ?t @ [new_word p]\<rparr>)"
        using la False b(1) by (intro append_ok [OF T None s]) (auto simp: upd_data_def nth_list_update)
      ultimately show ?thesis
        using None new [OF None s] s by (simp add: append_word_def same_words_def upd_data_def)
    qed
  qed
qed

lemma empty_table_ok: "table_ok empty_table"
  by (auto simp: table_ok_def empty_table_def bucket_list_def LABEL_START_def)

section \<open>Resolving references\<close>

text \<open>Code with references to one word: what is written before the word is known, and what should be there.\<close>

fun emitted :: "int list \<Rightarrow> int \<Rightarrow> int list option list \<Rightarrow> int list \<times> int" where
  "emitted buf bp [] = (buf, bp)"
| "emitted buf bp (Some bs # is) = emitted (buf @ bs) bp is"
| "emitted buf bp (None # is) = emitted (buf @ op_num C_NAME # bytes3 bp) (int (length buf) + 1) is"

definition resolved :: "c_op \<Rightarrow> int \<Rightarrow> int list option list \<Rightarrow> int list" where
  "resolved c n is = concat (List.map (case_option (op_num c # bytes3 n) id) is)"

lemma resolved_simps [simp]:
  "resolved c n [] = []"
  "resolved c n (Some bs # is) = bs @ resolved c n is"
  "resolved c n (None # is) = op_num c # bytes3 n @ resolved c n is"
  by (simp_all add: resolved_def)

lemma length_bytes3 [simp]: "length (bytes3 n) = 3"
  by (simp add: bytes3_def)

lemma emitted_length: "length (fst (emitted buf bp is)) = length buf + length (resolved c n is)"
  by (induction buf bp "is" rule: emitted.induct) auto

definition patches :: "c_op option \<Rightarrow> int \<Rightarrow> int list \<Rightarrow> int \<Rightarrow> int list \<Rightarrow> bool" where
  "patches c n buf bp buf' \<longleftrightarrow> length buf' = length buf \<and> (bp = - 1 \<and> buf' = buf \<or>
     0 \<le> bp \<and> bp < 0xffffff \<and> (\<forall>rest. patch_loop c n (buf @ rest) bp = Some (buf' @ rest)))"

lemma patch_end: "patch_loop c n buf (- 1) = Some buf" "patch_loop c n buf 0xffffff = Some buf"
  by (subst patch_loop.simps; simp)+

lemma patch_here:
  "patch_loop c n (buf @ op_num C_NAME # bytes3 v @ rest) (int (length buf) + 1) =
    (if int (length buf) + 1 = 0xffffff then Some (buf @ op_num C_NAME # bytes3 v @ rest)
     else patch_loop c n (buf @ op_num (case_option C_NAME id c) # bytes3 n @ rest) (u8 v + 256 * u8 (v div 256) + 65536 * u8 (v div 65536)))"
proof -
  have n: "nat (int (length buf) + 1) = Suc (length buf)"
    by simp
  have g: "GETVALUE (buf @ op_num C_NAME # bytes3 v @ rest) (Suc (length buf)) = Some (u8 v + 256 * u8 (v div 256) + 65536 * u8 (v div 65536))"
    by (simp add: GETVALUE_def bytes3_def nth_append)
  have s: "SETVALUE (buf @ x # bytes3 v @ rest) (Suc (length buf)) n = Some (buf @ x # bytes3 n @ rest)" for x
    by (simp add: SETVALUE_def bytes3_def list_update_append)
  show ?thesis
    by (subst patch_loop.simps) (simp add: n g s list_update_append split: option.split)
qed

lemma patches_step:
  assumes P: "patches c n buf bp buf'" and l: "length buf + 1 < 0xffffff"
  shows "patches c n (buf @ op_num C_NAME # bytes3 bp) (int (length buf) + 1) (buf' @ op_num (case_option C_NAME id c) # bytes3 n)"
proof -
  let ?w = "op_num (case_option C_NAME id c) # bytes3 n"
  have "patch_loop c n (buf @ ?w @ rest) (u8 bp + 256 * u8 (bp div 256) + 65536 * u8 (bp div 65536)) = Some (buf' @ ?w @ rest)" for rest
  proof (cases "bp = - 1")
    case True
    then have "u8 bp + 256 * u8 (bp div 256) + 65536 * u8 (bp div 65536) = 0xffffff"
      by (simp add: u8_def)
    then show ?thesis
      using True P patch_end(2) [of c n "buf @ ?w @ rest"] by (simp add: patches_def)
  next
    case False
    then show ?thesis
      using P bytes3_value [of bp] by (auto simp: patches_def)
  qed
  then show ?thesis
    using P l patch_here [of c n buf bp] by (simp add: patches_def)
qed

lemma patches_emitted:
  assumes "patches c n buf bp buf'" "length buf + length (resolved C_NAME 0 is) < 0xffffff"
  shows "patches c n (fst (emitted buf bp is)) (snd (emitted buf bp is)) (buf' @ resolved (case_option C_NAME id c) n is)"
  using assms
proof (induction buf bp "is" arbitrary: buf' rule: emitted.induct)
  case (2 buf bp bs "is")
  have "patches c n (buf @ bs) bp (buf' @ bs)"
    using 2(2) by (auto simp: patches_def)
  then show ?case
    using 2(1) [of "buf' @ bs"] 2(3) by simp
next
  case (3 buf bp "is")
  then show ?case
    using 3(1) [OF patches_step [OF 3(2)]] by simp
qed simp

lemma patch_emitted:
  assumes "length buf + length (resolved C_NAME 0 is) < 0xffffff"
  shows "patch_loop c n (fst (emitted buf (- 1) is)) (snd (emitted buf (- 1) is)) = Some (buf @ resolved (case_option C_NAME id c) n is)"
proof -
  have "patches c n buf (- 1) buf"
    by (simp add: patches_def)
  from patches_emitted [OF this assms] show ?thesis
    using patch_end(1) by (auto simp: patches_def dest: spec [of _ "[]"])
qed

text \<open>The code of a word's references, one by one.\<close>

fun emit :: "nat \<Rightarrow> int list option list \<Rightarrow> int list \<times> str_table \<Rightarrow> (int list \<times> str_table) option" where
  "emit l [] s = Some s"
| "emit l (Some bs # is) s = emit l is (fst s @ bs, snd s)"
| "emit l (None # is) s = do { s \<leftarrow> add_scriptl l s; emit l is s }"

lemma upd_data_twice: "upd_data l f (upd_data l g tab) = upd_data l (f \<circ> g) tab"
  by (cases "l < length (st_data tab)") (simp_all add: upd_data_def list_update_beyond)

lemma emit_unknown:
  assumes "l < length (st_data tab)" "sd_type (st_data tab ! l) = C_NOP"
  shows "emit l is (buf, tab) = (case emitted buf (sd_backpatch (st_data tab ! l)) is of
     (buf', bp) \<Rightarrow> Some (buf', upd_data l (\<lambda>d. d\<lparr>sd_backpatch := bp\<rparr>) tab))"
  using assms
proof (induction "is" arbitrary: buf tab)
  case Nil
  then show ?case
    by (simp add: upd_data_def)
next
  case (Cons i "is")
  show ?case
  proof (cases i)
    case None
    let ?t = "upd_data l (\<lambda>d. d\<lparr>sd_backpatch := int (length buf) + 1\<rparr>) tab"
    have "add_scriptl l (buf, tab) = Some (buf @ op_num C_NAME # bytes3 (sd_backpatch (st_data tab ! l)), ?t)"
      using Cons.prems by (simp add: add_scriptl_def nth_opt_def add_scriptc_byte add_3bytes_bytes Let_def add.commute)
    moreover have "sd_type (st_data ?t ! l) = C_NOP" "l < length (st_data ?t)" "sd_backpatch (st_data ?t ! l) = int (length buf) + 1"
      using Cons.prems by (simp_all add: upd_data_def)
    moreover have "upd_data l (\<lambda>d. d\<lparr>sd_backpatch := bp\<rparr>) ?t = upd_data l (\<lambda>d. d\<lparr>sd_backpatch := bp\<rparr>) tab" for bp
      unfolding upd_data_twice by (simp add: comp_def)
    ultimately show ?thesis
      using None Cons.IH [of ?t] by simp
  next
    case (Some bs)
    then show ?thesis
      using Cons by simp
  qed
qed

lemma emit_known:
  assumes "l < length (st_data tab)" "sd_type (st_data tab ! l) = C_POS"
  shows "emit l is (buf, tab) = Some (buf @ resolved C_POS (sd_label (st_data tab ! l)) is, tab)"
  using assms
proof (induction "is" arbitrary: buf)
  case (Cons i "is")
  have "add_scriptl l (buf, tab) = Some (buf @ op_num C_POS # bytes3 (sd_label (st_data tab ! l)), tab)"
    using Cons.prems by (simp add: add_scriptl_def nth_opt_def add_scriptc_byte add_3bytes_bytes)
  then show ?case
    using Cons by (cases i) simp_all
qed simp

text \<open>A label in the middle of its references: forward and backward ones come out alike.\<close>

lemma label_ok:
  assumes l: "l < length (st_data tab)" and d: "sd_type (st_data tab ! l) = C_NOP" "sd_backpatch (st_data tab ! l) = - 1" "sd_label (st_data tab ! l) = - 1"
    and n: "length buf + length (resolved C_NAME 0 before) < 0xffffff"
  shows "\<exists>tab'. do { s \<leftarrow> emit l before (buf, tab); r \<leftarrow> set_label l (int (length (fst s))) s;
       (case r of Inl e \<Rightarrow> None | Inr s \<Rightarrow> emit l after s) } =
     Some (buf @ resolved C_POS (int (length buf + length (resolved C_NAME 0 before))) (before @ after), tab')"
proof -
  let ?e = "emitted buf (- 1) before" and ?p = "int (length buf + length (resolved C_NAME 0 before))"
  let ?t = "upd_data l (\<lambda>d. d\<lparr>sd_backpatch := snd ?e\<rparr>) tab"
  have len: "int (length (fst ?e)) = ?p"
    by (simp add: emitted_length [of buf "- 1" before C_NAME 0])
  have "emit l before (buf, tab) = Some (fst ?e, ?t)"
    using emit_unknown [OF l d(1)] d(2) by (simp add: case_prod_unfold)
  moreover have t: "l < length (st_data ?t)" "sd_type (st_data ?t ! l) = C_NOP" "sd_label (st_data ?t ! l) = - 1" "sd_backpatch (st_data ?t ! l) = snd ?e"
    using l d by (simp_all add: upd_data_def)
  moreover have "patch_loop (Some C_POS) ?p (fst ?e) (snd ?e) = Some (buf @ resolved C_POS ?p before)"
    using patch_emitted [OF n, of "Some C_POS" ?p] by simp
  moreover define u where "u = upd_data l (\<lambda>d. d\<lparr>sd_type := C_POS, sd_label := ?p\<rparr>) ?t"
  ultimately have "set_label l ?p (fst ?e, ?t) = Some (Inr (buf @ resolved C_POS ?p before, u))"
    by (simp add: set_label_def nth_opt_def)
  moreover have "l < length (st_data u)" "sd_type (st_data u ! l) = C_POS" "sd_label (st_data u ! l) = ?p"
    using t(1) by (simp_all add: u_def upd_data_def)
  ultimately show ?thesis
    using \<open>emit l before (buf, tab) = Some (fst ?e, ?t)\<close> emit_known [of l u after "buf @ resolved C_POS ?p before"] len
    by (simp add: resolved_def)
qed

end
