(* ===== verification/ScriptParse.thy ===== *)
theory ScriptParse imports ScriptSym begin

text \<open>
  The expressions of scripts (\<^verbatim>\<open>src/map/script.c\<close>, \<open>skip_space\<close> to \<open>parse_expr\<close>). A position of the text is
  the text from there on. \<open>None\<close> is an error of the script, which ends the whole parse (\<open>disp_error_message\<close>),
  or an access outside an array. The functions that the recursion goes through have the call of
  \<open>parse_subexpr\<close> as the argument \<open>sub\<close>; \<open>parse_subexpr\<close> itself counts the depth of the calls down.
\<close>

section \<open>Words and spaces\<close>

fun skip_block :: "string \<Rightarrow> string" where
  "skip_block [] = []"
| "skip_block (c # p) = (if c = CHR ''*'' \<and> ch p = CHR ''/'' then tl p else skip_block p)"

lemma skip_block_length: "length (skip_block p) \<le> length p"
  by (induction p rule: skip_block.induct) auto

function skip_space :: "string \<Rightarrow> string" where
  "skip_space p = (let p = dropWhile isspace p in
     if ch p = CHR ''/'' \<and> ch (tl p) = CHR ''/'' then skip_space (dropWhile (\<lambda>c. c \<noteq> CHR 0x0A) p)
     else if ch p = CHR ''/'' \<and> ch (tl p) = CHR ''*'' then skip_space (skip_block (tl (tl p)))
     else p)"
  by pat_completeness auto

lemma ch_eq: "c \<noteq> CHR 0x00 \<Longrightarrow> ch p = c \<longleftrightarrow> (\<exists>q. p = c # q)"
  by (cases p) auto

termination skip_space
proof (relation "measure length", goal_cases)
  case (2 p q)
  then obtain r where "q = CHR ''/'' # CHR ''/'' # r"
    by (auto simp: ch_eq)
  then show ?case
    using 2(1) length_dropWhile_le [of isspace p] length_dropWhile_le [of "\<lambda>c. c \<noteq> CHR 0x0A" r] by simp
next
  case (3 p q)
  then obtain r where "q = CHR ''/'' # CHR ''*'' # r"
    by (auto simp: ch_eq)
  then show ?case
    using 3(1) length_dropWhile_le [of isspace p] skip_block_length [of r] by simp
qed simp

declare skip_space.simps [simp del]

definition is_word_char :: "char \<Rightarrow> bool" where "is_word_char c \<longleftrightarrow> isalnum c \<or> c = CHR ''_''"

definition skip_prefix :: "string \<Rightarrow> string" where
  "skip_prefix p =
     (if ch p = CHR ''@'' \<or> ch p = CHR 0x27 then tl p
      else if ch p = CHR ''#'' then (if ch (tl p) = CHR ''#'' then tl (tl p) else tl p)
      else if ch p = CHR ''.'' \<or> ch p = CHR ''$'' then (if ch (tl p) = CHR ''@'' then tl (tl p) else tl p)
      else p)"

definition skip_word :: "string \<Rightarrow> string" where
  "skip_word p = (let p = dropWhile is_word_char (skip_prefix p) in if ch p = CHR ''$'' then tl p else p)"

definition the_word :: "string \<Rightarrow> string" where
  "the_word p = take (length p - length (skip_word p)) p"

section \<open>The state of the parser\<close>

datatype curly_type = TYPE_NULL | TYPE_IF | TYPE_SWITCH | TYPE_WHILE | TYPE_FOR | TYPE_DO | TYPE_USERFUNC | TYPE_ARGLIST

definition ARGLIST_UNDEFINED :: int where "ARGLIST_UNDEFINED = 0"
definition ARGLIST_NO_PAREN :: int where "ARGLIST_NO_PAREN = 1"
definition ARGLIST_PAREN :: int where "ARGLIST_PAREN = 2"

record curly =
  cu_type :: curly_type
  cu_index :: int
  cu_count :: int
  cu_flag :: int
  cu_cases :: "int list"

text \<open>The script buffer and the words; \<open>syntax\<close>; \<open>parse_syntax_for_flag\<close>; \<open>scriptlabel_db\<close>.\<close>

record parser =
  ps_buf :: "int list"
  ps_tab :: str_table
  ps_curly :: "curly list"
  ps_count :: nat
  ps_index :: int
  ps_for :: bool
  ps_labels :: "(string \<times> int) list"

text \<open>
  What the parser is given: the words it writes itself, the argument patterns of the built-in functions
  (\<open>buildin_func[i].arg\<close>), the names of \<open>userfunc_db\<close> and the bit \<open>SCRIPT_USE_LABEL_DB\<close> of the options.
\<close>

record script_env =
  set_ref :: nat
  callsub_ref :: nat
  callfunc_ref :: nat
  getelementofarray_ref :: nat
  buildin_arg :: "int \<Rightarrow> string"
  is_userfunc :: "string \<Rightarrow> bool"
  use_label_db :: bool

definition put_op :: "c_op \<Rightarrow> parser \<Rightarrow> parser" where
  "put_op c s = s\<lparr>ps_buf := add_scriptc c (ps_buf s)\<rparr>"

definition put_int :: "int \<Rightarrow> parser \<Rightarrow> parser" where
  "put_int i s = s\<lparr>ps_buf := add_scripti i (ps_buf s)\<rparr>"

definition put_bytes :: "int list \<Rightarrow> parser \<Rightarrow> parser" where
  "put_bytes bs s = s\<lparr>ps_buf := fold add_scriptb bs (ps_buf s)\<rparr>"

definition put_word :: "nat \<Rightarrow> parser \<Rightarrow> parser option" where
  "put_word l s = do { (buf, tab) \<leftarrow> add_scriptl l (ps_buf s, ps_tab s); Some (s\<lparr>ps_buf := buf, ps_tab := tab\<rparr>) }"

definition word_data :: "nat \<Rightarrow> parser \<Rightarrow> str_data option" where
  "word_data l s = nth_opt (st_data (ps_tab s)) l"

definition add_name :: "string \<Rightarrow> parser \<Rightarrow> (nat \<times> parser) option" where
  "add_name w s = do { (i, tab) \<leftarrow> add_str w (ps_tab s); Some (i, s\<lparr>ps_tab := tab\<rparr>) }"

definition upd_curly :: "nat \<Rightarrow> (curly \<Rightarrow> curly) \<Rightarrow> parser \<Rightarrow> parser option" where
  "upd_curly i f s = (if i < length (ps_curly s) then Some (s\<lparr>ps_curly := (ps_curly s)[i := f (ps_curly s ! i)]\<rparr>) else None)"

definition get_curly :: "nat \<Rightarrow> parser \<Rightarrow> curly option" where
  "get_curly i s = nth_opt (ps_curly s) i"

definition add_word :: "string \<Rightarrow> parser \<Rightarrow> (nat \<times> parser) option" where
  "add_word p s = (if the_word p = [] then None else add_name (the_word p) s)"

text \<open>The argument list that encloses the position, if there is one.\<close>

definition in_arglist :: "parser \<Rightarrow> bool" where
  "in_arglist s \<longleftrightarrow> 0 < ps_count s \<and> ps_count s - 1 < length (ps_curly s) \<and> cu_type (ps_curly s ! (ps_count s - 1)) = TYPE_ARGLIST"

type_synonym sub_parser = "string \<Rightarrow> int \<Rightarrow> parser \<Rightarrow> (string \<times> parser) option"

section \<open>Function calls\<close>

text \<open>The arguments: the pattern and the text that are left.\<close>

fun parse_args :: "nat \<Rightarrow> sub_parser \<Rightarrow> string \<Rightarrow> string \<Rightarrow> parser \<Rightarrow> (string \<times> string \<times> parser) option" where
  "parse_args 0 sub arg p s = None"
| "parse_args (Suc n) sub arg p s = (if arg = [] then Some (arg, p, s) else do {
     (p2, s) \<leftarrow> sub p (- 1) s;
     if p = p2 then Some (arg, p, s) else
       let arg = (if hd arg \<noteq> CHR ''*'' then tl arg else arg); p = skip_space p2 in
       if arg = [] \<or> ch p \<noteq> CHR '','' then Some (arg, p, s) else parse_args n sub arg (tl p) s })"

definition open_arglist :: "int \<Rightarrow> parser \<Rightarrow> parser option" where
  "open_arglist flag s = upd_curly (ps_count s) (\<lambda>c. c\<lparr>cu_type := TYPE_ARGLIST, cu_count := 0, cu_flag := flag\<rparr>) s"

text \<open>What is written for the name of the function, and the pattern of its arguments.\<close>

definition call_name :: "script_env \<Rightarrow> nat \<Rightarrow> bool \<Rightarrow> parser \<Rightarrow> (string \<times> parser) option" where
  "call_name env func is_custom s = do {
     d \<leftarrow> word_data func s;
     if sd_type d = C_FUNC then do {
       s \<leftarrow> put_word func s;
       Some (buildin_arg env (sd_val d), put_op C_ARG s) }
     else if sd_type d = C_USERFUNC \<or> sd_type d = C_USERFUNC_POS then do {
       s \<leftarrow> put_word (callsub_ref env) s;
       s \<leftarrow> put_word func (put_op C_ARG s);
       c \<leftarrow> word_data (callsub_ref env) s;
       (case buildin_arg env (sd_val c) of [] \<Rightarrow> None
        | a # arg \<Rightarrow> Some (if a \<noteq> CHR ''*'' then arg else a # arg, s)) }
     else do {
       name \<leftarrow> get_str func (ps_tab s);
       if \<not> is_custom \<and> \<not> is_userfunc env name then None else do {
         s \<leftarrow> put_word (callfunc_ref env) s;
         s \<leftarrow> Some (put_bytes (List.map of_char name @ [0]) (put_op C_STR (put_op C_ARG s)));
         c \<leftarrow> word_data (callfunc_ref env) s;
         (case buildin_arg env (sd_val c) of [] \<Rightarrow> None
          | a # arg \<Rightarrow> Some (if a \<noteq> CHR ''*'' then arg else a # arg, s)) } } }"

text \<open>The argument list, from the character after the name.\<close>

definition list_args :: "sub_parser \<Rightarrow> int \<Rightarrow> string \<Rightarrow> string \<Rightarrow> parser \<Rightarrow> (string \<times> string \<times> parser) option" where
  "list_args sub flag arg p s = do {
     s \<leftarrow> open_arglist flag s;
     (arg, p, s) \<leftarrow> parse_args (Suc (length p)) sub arg p (s\<lparr>ps_count := ps_count s + 1\<rparr>);
     Some (arg, p, s\<lparr>ps_count := ps_count s - 1\<rparr>) }"

definition call_args :: "sub_parser \<Rightarrow> string \<Rightarrow> bool \<Rightarrow> string \<Rightarrow> parser \<Rightarrow> (string \<times> string \<times> parser) option" where
  "call_args sub arg require_paren p s =
     (if ch p = CHR '';'' then do { s \<leftarrow> open_arglist ARGLIST_NO_PAREN s; Some (arg, p, s) }
      else if ch p = CHR ''('' \<and> ch (skip_space (tl p)) = CHR '')'' then do {
        s \<leftarrow> open_arglist ARGLIST_PAREN s; Some (arg, skip_space (tl p), s) }
      else if require_paren then (if ch p \<noteq> CHR ''('' then None else list_args sub ARGLIST_PAREN arg (tl p) s)
      else list_args sub (if ch p = CHR ''('' then ARGLIST_UNDEFINED else ARGLIST_NO_PAREN) arg p s)"

definition close_call :: "string \<Rightarrow> string \<Rightarrow> parser \<Rightarrow> (string \<times> parser) option" where
  "close_call arg p s = (if arg \<noteq> [] \<and> hd arg \<noteq> CHR ''?'' \<and> hd arg \<noteq> CHR ''*'' then None else do {
     c \<leftarrow> get_curly (ps_count s) s;
     if cu_type c \<noteq> TYPE_ARGLIST then None
     else if cu_flag c = ARGLIST_PAREN then (if ch p \<noteq> CHR '')'' then None else Some (tl p, put_op C_FUNC s))
     else Some (p, put_op C_FUNC s) })"

definition parse_callfunc :: "sub_parser \<Rightarrow> script_env \<Rightarrow> string \<Rightarrow> bool \<Rightarrow> bool \<Rightarrow> parser \<Rightarrow> (string \<times> parser) option" where
  "parse_callfunc sub env p require_paren is_custom s = do {
     (func, s) \<leftarrow> add_word p s;
     (arg, s) \<leftarrow> call_name env func is_custom s;
     (arg, p, s) \<leftarrow> call_args sub arg require_paren (skip_space (skip_word p)) s;
     close_call arg p s }"

section \<open>Assignments\<close>

text \<open>The operator of an assignment and its length.\<close>

definition assign_op :: "string \<Rightarrow> (c_op \<times> nat) option" where
  "assign_op p = (let a = ch p; b = ch (tl p); c = ch (tl (tl p)) in
     if a = CHR ''='' \<and> b \<noteq> CHR ''='' then Some (C_EQ, 1)
     else if a = CHR ''+'' \<and> b = CHR ''='' then Some (C_ADD, 2)
     else if a = CHR ''-'' \<and> b = CHR ''='' then Some (C_SUB, 2)
     else if a = CHR ''^'' \<and> b = CHR ''='' then Some (C_XOR, 2)
     else if a = CHR ''|'' \<and> b = CHR ''='' then Some (C_OR, 2)
     else if a = CHR ''&'' \<and> b = CHR ''='' then Some (C_AND, 2)
     else if a = CHR ''*'' \<and> b = CHR ''='' then Some (C_MUL, 2)
     else if a = CHR ''/'' \<and> b = CHR ''='' then Some (C_DIV, 2)
     else if a = CHR ''%'' \<and> b = CHR ''='' then Some (C_MOD, 2)
     else if a = CHR ''~'' \<and> b = CHR ''='' then Some (C_NOT, 2)
     else if a = CHR ''+'' \<and> b = CHR ''+'' then Some (C_ADD_PP, 2)
     else if a = CHR ''-'' \<and> b = CHR ''-'' then Some (C_SUB_PP, 2)
     else if a = CHR ''<'' \<and> b = CHR ''<'' \<and> c = CHR ''='' then Some (C_L_SHIFT, 3)
     else if a = CHR ''>'' \<and> b = CHR ''>'' \<and> c = CHR ''='' then Some (C_R_SHIFT, 3)
     else None)"

text \<open>The bracket that closes an index; the characters between are not looked at.\<close>

fun skip_index :: "nat \<Rightarrow> string \<Rightarrow> string option" where
  "skip_index j [] = None"
| "skip_index j (c # p) = (let j = (if c = CHR '']'' then j - 1 else j) in
     if c = CHR '']'' \<and> j = 0 then Some p else skip_index (if ch p = CHR ''['' then j + 1 else j) p)"

text \<open>The variable that is assigned to: \<open>p2\<close> is its index, if it has one.\<close>

definition assign_target :: "sub_parser \<Rightarrow> script_env \<Rightarrow> nat \<Rightarrow> string option \<Rightarrow> parser \<Rightarrow> parser option" where
  "assign_target sub env word p2 s = (case p2 of
     Some p2 \<Rightarrow> do {
       s \<leftarrow> put_word (getelementofarray_ref env) s;
       s \<leftarrow> put_word word (put_op C_ARG s);
       (p3, s) \<leftarrow> sub (tl p2) 1 s;
       if ch (skip_space p3) \<noteq> CHR '']'' then None else Some (put_op C_FUNC s) }
   | None \<Rightarrow> put_word word s)"

definition assign_value :: "sub_parser \<Rightarrow> c_op \<Rightarrow> string \<Rightarrow> parser \<Rightarrow> (string \<times> parser) option" where
  "assign_value sub type p s =
     (if type = C_ADD_PP \<or> type = C_SUB_PP then Some (p, put_op (if type = C_ADD_PP then C_ADD else C_SUB) (put_int 1 s))
      else do {
        (p, s) \<leftarrow> sub p (- 1) s;
        Some (p, if type \<noteq> C_EQ then put_op type s else s) })"

definition parse_variable :: "sub_parser \<Rightarrow> script_env \<Rightarrow> string \<Rightarrow> parser \<Rightarrow> (string option \<times> parser) option" where
  "parse_variable sub env var s = (let p = skip_space (skip_word var) in do {
     (p2, p) \<leftarrow> (if ch p = CHR ''['' then do { q \<leftarrow> skip_index 1 p; Some (Some p, skip_space q) } else Some (None, p));
     (case assign_op p of None \<Rightarrow> Some (None, s)
      | Some (type, n) \<Rightarrow> do {
          s \<leftarrow> put_word (set_ref env) s;
          s \<leftarrow> open_arglist ARGLIST_PAREN (put_op C_ARG s);
          (word, s) \<leftarrow> add_word var (s\<lparr>ps_count := ps_count s + 1\<rparr>);
          d \<leftarrow> word_data word s;
          if sd_type d = C_FUNC \<or> sd_type d = C_USERFUNC \<or> sd_type d = C_USERFUNC_POS then None else do {
            s \<leftarrow> assign_target sub env word p2 s;
            (q, s) \<leftarrow> assign_value sub type (skip_space (drop n p)) (if type \<noteq> C_EQ then put_op C_REF s else s);
            Some (Some q, put_op C_FUNC (s\<lparr>ps_count := ps_count s - 1\<rparr>)) } }) })"

section \<open>Numbers and strings\<close>

definition is_number :: "string \<Rightarrow> bool" where
  "is_number p = (let p = (if ch p = CHR ''-'' \<or> ch p = CHR ''+'' then tl p else p);
      (p, np) = (if ch p = CHR ''0'' \<and> ch (tl p) = CHR ''x'' then (tl (tl p), dropWhile isxdigit (tl (tl p))) else (p, dropWhile isdigit p)) in
    p \<noteq> np \<and> ch np \<noteq> CHR ''_'' \<and> \<not> isalpha (ch np))"

text \<open>\<open>strtoll (p, &np, 0)\<close> of the standard library, on a text without spaces.\<close>

definition number_base :: "string \<Rightarrow> int \<times> (char \<Rightarrow> bool) \<times> string" where
  "number_base q =
     (if ch q = CHR ''0'' \<and> ch (tl q) \<in> {CHR ''x'', CHR ''X''} \<and> isxdigit (ch (tl (tl q))) then (16, isxdigit, tl (tl q))
      else if ch q = CHR ''0'' then (8, is_octal, q) else (10, isdigit, q))"

definition strtoll :: "string \<Rightarrow> int \<times> string" where
  "strtoll p = (let neg = ch p = CHR ''-''; q = (if ch p = CHR ''-'' \<or> ch p = CHR ''+'' then tl p else p);
      (base, digit, q) = number_base q;
      v = foldl (\<lambda>v c. base * v + int (low2hex c)) 0 (takeWhile digit q) in
    if takeWhile digit q = [] then (0, p)
    else (max (- (2 ^ 63)) (min (2 ^ 63 - 1) (if neg then - v else v)), dropWhile digit q))"

fun skip_zeros :: "string \<Rightarrow> string" where
  "skip_zeros (c # d # p) = (if c = CHR ''0'' \<and> isdigit d then skip_zeros (d # p) else c # d # p)"
| "skip_zeros p = p"

definition cap_int :: "int \<Rightarrow> int" where
  "cap_int i = max (- 2147483648) (min 2147483647 i)"

lemma skip_escaped_shorter:
  assumes "ch p = CHR 0x5C"
  shows "length (skip_escaped_c p) < length p"
proof -
  obtain q where p: "p = CHR 0x5C # q"
    using assms by (cases p) auto
  have t: "length (tl xs) \<le> length xs" for xs :: string
    by simp
  show ?thesis
    using length_dropWhile_le [of isxdigit "tl q"] by (auto simp: p skip_escaped_c_def Let_def)
qed

text \<open>A string literal: its characters and what follows. \<open>prev\<close> is the character before the position.\<close>

function parse_string :: "char \<Rightarrow> string \<Rightarrow> (int list \<times> string) option" where
  "parse_string prev [] = None"
| "parse_string prev (c # p) =
    (if c = CHR 0x22 then Some ([], p)
     else if of_char prev \<le> (0x7e :: nat) \<and> c = CHR 0x5C then
       (let q = skip_escaped_c (c # p); esc = take (length (c # p) - length q) (c # p) in do {
         (bs, r) \<leftarrow> parse_string (last esc) q;
         Some ((case sv_unescape_c esc of [] \<Rightarrow> 0 | b # _ \<Rightarrow> of_char b) # bs, r) })
     else if c = CHR 0x0A then None
     else do { (bs, r) \<leftarrow> parse_string c p; Some (of_char c # bs, r) })"
  by pat_completeness auto
termination
proof (relation "measure (\<lambda>(prev, p). length p)", goal_cases)
  case (2 prev c p q esc)
  then show ?case
    using skip_escaped_shorter [of "c # p"] by simp
qed simp_all

declare parse_string.simps [simp del]

section \<open>Expressions\<close>

definition count_paren :: "parser \<Rightarrow> parser" where
  "count_paren s = (if in_arglist s then s\<lparr>ps_curly := (ps_curly s)[ps_count s - 1 := (ps_curly s ! (ps_count s - 1))\<lparr>cu_count := cu_count (ps_curly s ! (ps_count s - 1)) + 1\<rparr>]\<rparr> else s)"

text \<open>
  The closing parenthesis of \<open>parse_simpleexpr\<close>: in an argument list that may or may not be in parentheses,
  the first pair decides by the comma after it.
\<close>

definition close_paren :: "string \<Rightarrow> parser \<Rightarrow> (string \<times> parser) option" where
  "close_paren p s = (let i = ps_count s - 1; c = ps_curly s ! i in
     if in_arglist s \<and> cu_flag c = ARGLIST_UNDEFINED then
       (let c' = c\<lparr>cu_count := cu_count c - 1\<rparr> in
        if cu_count c' = 0 then
          (if ch p = CHR '','' then Some (p, s\<lparr>ps_curly := (ps_curly s)[i := c'\<lparr>cu_flag := ARGLIST_PAREN\<rparr>]\<rparr>)
           else if ch p \<noteq> CHR '')'' then None
           else Some (tl p, s\<lparr>ps_curly := (ps_curly s)[i := c'\<lparr>cu_flag := ARGLIST_NO_PAREN\<rparr>]\<rparr>))
        else if ch p \<noteq> CHR '')'' then None else Some (tl p, s\<lparr>ps_curly := (ps_curly s)[i := c']\<rparr>))
     else if ch p \<noteq> CHR '')'' then None else Some (tl p, s))"

text \<open>A label, a variable, a call or an assignment.\<close>

definition parse_name :: "sub_parser \<Rightarrow> script_env \<Rightarrow> string \<Rightarrow> parser \<Rightarrow> (string \<times> parser) option" where
  "parse_name sub env p s = do {
     (l, s) \<leftarrow> add_word p s;
     d \<leftarrow> word_data l s;
     if sd_type d = C_FUNC \<or> sd_type d = C_USERFUNC \<or> sd_type d = C_USERFUNC_POS then parse_callfunc sub env p True False s
     else do {
       name \<leftarrow> get_str l (ps_tab s);
       if is_userfunc env name then parse_callfunc sub env p True True s else do {
         (pv, s) \<leftarrow> parse_variable sub env p s;
         (case pv of Some pv \<Rightarrow> Some (pv, s)
          | None \<Rightarrow>
              if ch (skip_word p) = CHR ''['' then do {
                s \<leftarrow> put_word (getelementofarray_ref env) s;
                s \<leftarrow> put_word l (put_op C_ARG s);
                (p, s) \<leftarrow> sub (tl (skip_word p)) (- 1) s;
                if ch (skip_space p) \<noteq> CHR '']'' then None else Some (tl (skip_space p), put_op C_FUNC s) }
              else do { s \<leftarrow> put_word l s; Some (skip_word p, s) }) } } }"

definition parse_simpleexpr :: "sub_parser \<Rightarrow> script_env \<Rightarrow> string \<Rightarrow> parser \<Rightarrow> (string \<times> parser) option" where
  "parse_simpleexpr sub env p s = (let p = skip_space p in
     if ch p = CHR '';'' \<or> ch p = CHR '','' then None
     else if ch p = CHR ''('' then do {
       (p, s) \<leftarrow> sub (tl p) (- 1) (count_paren s);
       close_paren (skip_space p) s }
     else if is_number p then (let (i, np) = strtoll (skip_zeros p) in Some (np, put_int (cap_int i) s))
     else if ch p = CHR 0x22 then do {
       (bs, p) \<leftarrow> parse_string CHR 0x22 (tl p);
       Some (p, put_bytes (bs @ [0]) (put_op C_STR s)) }
     else if skip_word p = p then None
     else parse_name sub env p s)"

text \<open>The operator at a position, its level and its length.\<close>

definition binary_op :: "string \<Rightarrow> (c_op \<times> int \<times> nat) option" where
  "binary_op p = (let a = ch p; b = ch (tl p) in
     if a = CHR ''?'' then Some (C_OP3, 0, 1)
     else if a = CHR ''+'' then Some (C_ADD, 8, 1)
     else if a = CHR ''-'' then Some (C_SUB, 8, 1)
     else if a = CHR ''*'' then Some (C_MUL, 9, 1)
     else if a = CHR ''/'' then Some (C_DIV, 9, 1)
     else if a = CHR ''%'' then Some (C_MOD, 9, 1)
     else if a = CHR ''&'' \<and> b = CHR ''&'' then Some (C_LAND, 2, 2)
     else if a = CHR ''&'' then Some (C_AND, 6, 1)
     else if a = CHR ''|'' \<and> b = CHR ''|'' then Some (C_LOR, 1, 2)
     else if a = CHR ''|'' then Some (C_OR, 5, 1)
     else if a = CHR ''^'' then Some (C_XOR, 4, 1)
     else if a = CHR ''='' \<and> b = CHR ''='' then Some (C_EQ, 3, 2)
     else if a = CHR ''!'' \<and> b = CHR ''='' then Some (C_NE, 3, 2)
     else if a = CHR ''>'' \<and> b = CHR ''>'' then Some (C_R_SHIFT, 7, 2)
     else if a = CHR ''>'' \<and> b = CHR ''='' then Some (C_GE, 3, 2)
     else if a = CHR ''>'' then Some (C_GT, 3, 1)
     else if a = CHR ''<'' \<and> b = CHR ''<'' then Some (C_L_SHIFT, 7, 2)
     else if a = CHR ''<'' \<and> b = CHR ''='' then Some (C_LE, 3, 2)
     else if a = CHR ''<'' then Some (C_LT, 3, 1)
     else None)"

text \<open>The operand of an operator.\<close>

definition op_operand :: "sub_parser \<Rightarrow> c_op \<Rightarrow> int \<Rightarrow> string \<Rightarrow> parser \<Rightarrow> (string \<times> parser) option" where
  "op_operand sub oper opl p s =
     (if oper = C_OP3 then do {
        (p, s) \<leftarrow> sub p (- 1) s;
        if ch (skip_space p) \<noteq> CHR '':'' then None else sub (tl (skip_space p)) (- 1) s }
      else sub p opl s)"

text \<open>The loop over the operators that bind closer than the limit.\<close>

fun parse_ops :: "nat \<Rightarrow> sub_parser \<Rightarrow> int \<Rightarrow> string \<Rightarrow> parser \<Rightarrow> (string \<times> parser) option" where
  "parse_ops 0 sub limit p s = None"
| "parse_ops (Suc n) sub limit p s = (case binary_op p of
     None \<Rightarrow> Some (p, s)
   | Some (oper, opl, len) \<Rightarrow>
       if opl \<le> limit then Some (p, s) else do {
         (p, s) \<leftarrow> op_operand sub oper opl (drop len p) s;
         parse_ops n sub limit (skip_space p) (put_op oper s) })"

definition unary_op :: "string \<Rightarrow> c_op option" where
  "unary_op p = (if ch p = CHR ''-'' then Some C_NEG else if ch p = CHR ''!'' then Some C_LNOT else if ch p = CHR ''~'' then Some C_NOT else None)"

text \<open>The body of \<open>parse_subexpr\<close>, and the function by the depth of its recursion.\<close>

definition first_operand :: "sub_parser \<Rightarrow> script_env \<Rightarrow> string \<Rightarrow> parser \<Rightarrow> (string \<times> parser) option" where
  "first_operand sub env p s = (case unary_op p of
     Some oper \<Rightarrow> do { (p, s) \<leftarrow> sub (tl p) 10 s; Some (p, put_op oper s) }
   | None \<Rightarrow> parse_simpleexpr sub env p s)"

definition subexpr_body :: "sub_parser \<Rightarrow> script_env \<Rightarrow> sub_parser" where
  "subexpr_body sub env p limit s = (let p = skip_space p in
     if ch p = CHR ''-'' \<and> ch (skip_space (tl p)) \<in> {CHR '';'', CHR '',''} then do {
       s \<leftarrow> put_word LABEL_NEXTLINE s; Some (tl p, s) }
     else do {
       (p, s) \<leftarrow> first_operand sub env p s;
       parse_ops (Suc (length (skip_space p))) sub limit (skip_space p) s })"

fun parse_subexpr :: "nat \<Rightarrow> script_env \<Rightarrow> sub_parser" where
  "parse_subexpr 0 env = (\<lambda>p limit s. None)"
| "parse_subexpr (Suc n) env = subexpr_body (parse_subexpr n env) env"

text \<open>\<open>parse_expr\<close>, with enough depth for the text (\<open>subexpr_depth\<close> below).\<close>

definition parse_expr :: "script_env \<Rightarrow> string \<Rightarrow> parser \<Rightarrow> (string \<times> parser) option" where
  "parse_expr env p s = (if ch p \<in> set '');:[]}'' then None else parse_subexpr (Suc (length p)) env p (- 1) s)"

end
