(* ===== verification/ScriptFuel.thy ===== *)
theory ScriptFuel imports ScriptParse "HOL-Library.Sublist" begin

text \<open>
  The parser of expressions ends: every call goes on with a shorter text, so that the depths and the counts
  of \<open>ScriptParse\<close> are never used up, and the parser meets the equations of the C code without them.
\<close>

section \<open>Every step consumes text\<close>

lemma bind_SomeE:
  assumes "Option.bind m f = Some y"
  obtains x where "m = Some x" "f x = Some y"
  using assms by (auto simp: bind_eq_Some_conv)

lemma ch_nonempty: "ch p \<noteq> CHR 0x00 \<Longrightarrow> 0 < length p"
  by (cases p) auto

lemma skip_space_length: "length (skip_space p) \<le> length p"
proof (induction p rule: skip_space.induct)
  case (1 p)
  let ?q = "dropWhile isspace p"
  have "length ?q \<le> length p" "length (dropWhile (\<lambda>c. c \<noteq> CHR 0x0A) ?q) \<le> length ?q" "length (skip_block (tl (tl ?q))) \<le> length ?q"
    using skip_block_length [of "tl (tl ?q)"] by (simp_all add: length_dropWhile_le)
  then show ?case
    using 1 by (subst skip_space.simps) (simp add: Let_def, linarith)
qed

lemma skip_word_suffix: "suffix (skip_word p) p"
proof -
  have t: "suffix (tl xs) ys" if "suffix xs ys" for xs ys :: string
    using that suffix_tl [of xs] suffix_order.order_trans by blast
  have d: "suffix (dropWhile P xs) ys" if "suffix xs ys" for P and xs ys :: string
    using that suffix_dropWhile [of P xs] suffix_order.order_trans by blast
  show ?thesis
    unfolding skip_word_def skip_prefix_def Let_def by (simp add: t d suffix_tl)
qed

lemma skip_word_length: "length (skip_word p) \<le> length p"
  using skip_word_suffix by (rule suffix_length_le)

lemma skip_word_shorter: "skip_word p \<noteq> p \<Longrightarrow> length (skip_word p) < length p"
  using skip_word_suffix [of p] by (simp add: strict_suffix_def suffix_length_less)

lemma the_word_shorter: "the_word p \<noteq> [] \<Longrightarrow> length (skip_word p) < length p"
  using skip_word_length [of p] by (auto simp: the_word_def)

lemma skip_index_length: "skip_index j p = Some q \<Longrightarrow> length q < length p"
  by (induction p arbitrary: j) (fastforce simp: Let_def split: if_splits)+

definition shorter :: "sub_parser \<Rightarrow> bool" where
  "shorter sub \<longleftrightarrow> (\<forall>p l s r. sub p l s = Some r \<longrightarrow> length (fst r) < length p)"

lemma shorterD: "shorter sub \<Longrightarrow> sub p l s = Some (q, s') \<Longrightarrow> length q < length p"
  by (fastforce simp: shorter_def)

lemma parse_args_length: "shorter sub \<Longrightarrow> parse_args n sub arg p s = Some (arg', q, s') \<Longrightarrow> length q \<le> length p"
proof (induction n sub arg p s rule: parse_args.induct)
  case (2 n sub arg p s)
  show ?case
  proof (cases "arg = []")
    case False
    then obtain p2 s2 where sub: "sub p (- 1) s = Some (p2, s2)"
      using 2(3) by (auto simp: bind_eq_Some_conv split: if_splits)
    note less = shorterD [OF 2(2) sub] skip_space_length [of p2]
    let ?arg = "if hd arg \<noteq> CHR ''*'' then tl arg else arg"
    show ?thesis
    proof (cases "p = p2 \<or> ?arg = [] \<or> ch (skip_space p2) \<noteq> CHR '',''")
      case True
      then show ?thesis
        using 2(3) False sub less by (auto simp: Let_def split: if_splits)
    next
      case cont: False
      then have "parse_args n sub ?arg (tl (skip_space p2)) s2 = Some (arg', q, s')"
        using 2(3) False sub by (simp add: Let_def split: if_splits)
      then have "length q \<le> length (tl (skip_space p2))"
        using 2(1) [OF False sub refl _ refl refl _ 2(2)] cont by blast
      then show ?thesis
        using less by simp
    qed
  qed (use 2 in auto)
qed simp

lemma list_args_length:
  assumes "shorter sub" "list_args sub flag arg p s = Some (arg', q, s')"
  shows "length q \<le> length p"
proof -
  obtain s1 s2 where "parse_args (Suc (length p)) sub arg p s1 = Some (arg', q, s2)"
    using assms(2) unfolding list_args_def by (elim bind_SomeE) (auto simp: case_prod_unfold)
  then show ?thesis
    by (rule parse_args_length [OF assms(1)])
qed

lemma call_args_length:
  assumes "shorter sub" "call_args sub arg r p s = Some (arg', q, s')"
  shows "length q \<le> length p"
  using assms(2) skip_space_length [of "tl p"] list_args_length [OF assms(1)]
  by (fastforce simp: call_args_def bind_eq_Some_conv split: if_splits)

lemma close_call_length: "close_call arg p s = Some (q, s') \<Longrightarrow> length q \<le> length p"
  by (auto simp: close_call_def bind_eq_Some_conv split: if_splits)

lemma add_word_nonempty: "add_word p s = Some r \<Longrightarrow> the_word p \<noteq> []"
  by (auto simp: add_word_def split: if_splits)

lemma after_word: "add_word p s = Some r \<Longrightarrow> length (skip_space (skip_word p)) < length p"
  using the_word_shorter [OF add_word_nonempty] skip_space_length [of "skip_word p"] by fastforce

lemma parse_callfunc_length:
  assumes "shorter sub" "parse_callfunc sub env p r c s = Some (q, s')"
  shows "length q < length p"
proof -
  obtain func s1 arg s2 arg2 p2 s3 where "add_word p s = Some (func, s1)"
    "call_args sub arg r (skip_space (skip_word p)) s2 = Some (arg2, p2, s3)" "close_call arg2 p2 s3 = Some (q, s')"
    using assms(2) unfolding parse_callfunc_def by (elim bind_SomeE) (auto simp: bind_eq_Some_conv)
  then show ?thesis
    using after_word [of p s] call_args_length [OF assms(1)] close_call_length by fastforce
qed

lemma assign_op_length: "assign_op p = Some (t, n) \<Longrightarrow> length (skip_space (drop n p)) < length p"
proof -
  assume a: "assign_op p = Some (t, n)"
  then have "p \<noteq> []" "0 < n"
    by (auto simp: assign_op_def Let_def split: if_splits)
  then show ?thesis
    using skip_space_length [of "drop n p"] by (simp add: le_less_trans)
qed

lemma assign_value_length:
  assumes "shorter sub" "assign_value sub t p s = Some (q, s')"
  shows "length q \<le> length p"
  using assms(2) by (auto simp: assign_value_def bind_eq_Some_conv dest!: shorterD [OF assms(1)] split: if_splits)

text \<open>The place of the operator after a variable and its index.\<close>

lemma target_end:
  assumes "(if ch p = CHR ''['' then do { q \<leftarrow> skip_index 1 p; Some (Some p, skip_space q) } else Some (None, p)) = Some (p2, p')"
  shows "length p' \<le> length p" "p2 = None \<or> p2 = Some p \<and> p \<noteq> []"
proof -
  have "length (skip_space q) \<le> length p" if "skip_index 1 p = Some q" for q
    using skip_index_length [OF that] skip_space_length [of q] by simp
  then show "length p' \<le> length p" "p2 = None \<or> p2 = Some p \<and> p \<noteq> []"
    using assms by (auto simp: bind_eq_Some_conv split: if_splits)
qed

lemma parse_variable_length:
  assumes "shorter sub" "parse_variable sub env var s = Some (Some q, s')"
  shows "length q < length var"
proof -
  let ?p = "skip_space (skip_word var)"
  obtain p2 p where t: "(if ch ?p = CHR ''['' then do { q \<leftarrow> skip_index 1 ?p; Some (Some ?p, skip_space q) } else Some (None, ?p)) = Some (p2, p)"
    using assms(2) unfolding parse_variable_def Let_def by (auto elim!: bind_SomeE)
  obtain type n where a: "assign_op p = Some (type, n)"
    using assms(2) unfolding parse_variable_def Let_def t by (auto split: option.splits)
  obtain s1 s2 where "assign_value sub type (skip_space (drop n p)) s1 = Some (q, s2)"
    using assms(2) a unfolding parse_variable_def Let_def t by (auto simp: case_prod_unfold split: if_splits elim!: bind_SomeE)
  then have "length q \<le> length (skip_space (drop n p))"
    by (rule assign_value_length [OF assms(1)])
  also have "\<dots> < length p"
    by (rule assign_op_length [OF a])
  also have "\<dots> \<le> length ?p"
    by (rule target_end(1) [OF t])
  also have "\<dots> \<le> length var"
    using skip_space_length [of "skip_word var"] skip_word_length [of var] by simp
  finally show ?thesis .
qed

lemma close_paren_length: "close_paren p s = Some (q, s') \<Longrightarrow> length q \<le> length p"
  by (auto simp: close_paren_def Let_def split: if_splits)

lemma parse_string_length: "parse_string prev p = Some (bs, q) \<Longrightarrow> length q < length p"
proof (induction prev p arbitrary: bs rule: parse_string.induct)
  case (2 prev c p)
  have e: "length (skip_escaped_c (c # p)) < length (c # p)" if "c = CHR 0x5C"
    using skip_escaped_shorter [of "c # p"] that by simp
  consider "c = CHR 0x22" | "c \<noteq> CHR 0x22" "of_char prev \<le> (0x7e :: nat) \<and> c = CHR 0x5C"
    | "c \<noteq> CHR 0x22" "\<not> (of_char prev \<le> (0x7e :: nat) \<and> c = CHR 0x5C)"
    by blast
  then show ?case
  proof cases
    case 2
    then obtain bs' where "parse_string (last (take (length (c # p) - length (skip_escaped_c (c # p))) (c # p))) (skip_escaped_c (c # p)) = Some (bs', q)"
      using "2.prems" by (subst (asm) parse_string.simps) (auto simp: Let_def bind_eq_Some_conv)
    from "2.IH"(1) [OF 2 refl refl this] e show ?thesis
      using 2 by simp
  next
    case 3
    then obtain bs' where "c \<noteq> CHR 0x0A" "parse_string c p = Some (bs', q)"
      using "2.prems" by (subst (asm) parse_string.simps) (auto simp: bind_eq_Some_conv split: if_splits)
    from "2.IH"(2) [OF 3 this] show ?thesis
      by simp
  qed (use "2.prems" in \<open>simp add: parse_string.simps\<close>)
qed (simp add: parse_string.simps)

text \<open>A number literal starts with a digit, after a sign.\<close>

definition digit_start :: "string \<Rightarrow> bool" where
  "digit_start p \<longleftrightarrow> isdigit (ch (if ch p = CHR ''-'' \<or> ch p = CHR ''+'' then tl p else p))"

lemma is_number_digit: "is_number p \<Longrightarrow> digit_start p"
proof -
  have z: "isdigit CHR ''0''"
    by (simp add: isdigit_def between_ch_def)
  assume "is_number p"
  then show ?thesis
    using z dropWhile_eq_self_iff [of isdigit "tl p"] dropWhile_eq_self_iff [of isdigit p]
    by (cases p; cases "tl p") (auto simp: is_number_def digit_start_def Let_def split: if_splits)
qed

lemma skip_zeros_digit: "digit_start p \<Longrightarrow> digit_start (skip_zeros p) \<and> length (skip_zeros p) \<le> length p"
proof (induction p rule: skip_zeros.induct)
  case (1 c d p)
  show ?case
  proof (cases "c = CHR ''0'' \<and> isdigit d")
    case True
    then have "d \<noteq> CHR ''-''" "d \<noteq> CHR ''+''"
      by (auto simp: isdigit_def between_ch_def)
    then have "digit_start (d # p)"
      using True by (simp add: digit_start_def)
    then show ?thesis
      using 1 True by simp
  next
    case False
    then have "skip_zeros (c # d # p) = c # d # p"
      by auto
    then show ?thesis
      using 1(2) by (simp del: skip_zeros.simps)
  qed
qed simp_all

lemma number_base_digits:
  assumes "isdigit (ch q)"
  obtains base digit c r where "number_base q = (base, digit, c # r)" "digit c" "length (c # r) \<le> length q"
proof -
  obtain c r where q: "q = c # r" "isdigit c"
    using assms by (cases q) (auto simp: isdigit_def between_ch_def)
  have o: "is_octal CHR ''0''" and x: "\<not> isxdigit CHR 0x00"
    by (simp_all add: is_octal_def isxdigit_def isdigit_def between_ch_def)
  show ?thesis
  proof (cases "c = CHR ''0'' \<and> ch r \<in> {CHR ''x'', CHR ''X''} \<and> isxdigit (ch (tl r))")
    case True
    then obtain d t where "tl r = d # t" "isxdigit d"
      using x by (cases "tl r") auto
    moreover have "length (tl r) \<le> length r"
      by simp
    ultimately show ?thesis
      using True q that [of 16 isxdigit d t] by (auto simp: number_base_def)
  next
    case False
    then show ?thesis
      using q o that [of 8 is_octal c r] that [of 10 isdigit c r] by (cases "c = CHR ''0''") (auto simp: number_base_def)
  qed
qed

lemma strtoll_length: "digit_start p \<Longrightarrow> length (snd (strtoll p)) < length p"
proof -
  assume d: "digit_start p"
  let ?q = "if ch p = CHR ''-'' \<or> ch p = CHR ''+'' then tl p else p"
  obtain base digit c r where b: "number_base ?q = (base, digit, c # r)" "digit c" "length (c # r) \<le> length ?q"
    using number_base_digits d unfolding digit_start_def by blast
  then have "snd (strtoll p) = dropWhile digit r"
    by (simp add: strtoll_def Let_def)
  then show ?thesis
    using b(3) length_dropWhile_le [of digit r] by (simp split: if_splits)
qed

lemma number_length: "is_number p \<Longrightarrow> length (snd (strtoll (skip_zeros p))) < length p"
  using skip_zeros_digit [OF is_number_digit] strtoll_length by fastforce

lemma parse_name_length:
  assumes "shorter sub" "parse_name sub env p s = Some (q, s')" "skip_word p \<noteq> p"
  shows "length q < length p"
proof -
  note call = parse_callfunc_length [OF assms(1)] and var = parse_variable_length [OF assms(1)]
  obtain l s1 d where w: "add_word p s = Some (l, s1)" "word_data l s1 = Some d"
    using assms(2) unfolding parse_name_def by (auto elim!: bind_SomeE)
  show ?thesis
  proof (cases "sd_type d = C_FUNC \<or> sd_type d = C_USERFUNC \<or> sd_type d = C_USERFUNC_POS")
    case True
    then have "parse_callfunc sub env p True False s1 = Some (q, s')"
      using assms(2) w by (simp add: parse_name_def)
    then show ?thesis
      by (rule call)
  next
    case False
    then obtain name where n: "get_str l (ps_tab s1) = Some name"
      using assms(2) w unfolding parse_name_def by (auto elim!: bind_SomeE)
    show ?thesis
    proof (cases "is_userfunc env name")
      case True
      then have "parse_callfunc sub env p True True s1 = Some (q, s')"
        using False assms(2) w n by (simp add: parse_name_def)
      then show ?thesis
        by (rule call)
    next
      case nu: False
      then obtain pv s2 where v: "parse_variable sub env p s1 = Some (pv, s2)"
        using False assms(2) w n unfolding parse_name_def by (auto elim!: bind_SomeE)
      show ?thesis
      proof (cases "pv = None \<and> ch (skip_word p) = CHR ''[''")
        case True
        then obtain s3 p3 s4 where "sub (tl (skip_word p)) (- 1) s3 = Some (p3, s4)" "q = tl (skip_space p3)"
          using False nu assms(2) w n v by (auto simp: parse_name_def split: if_splits elim!: bind_SomeE)
        then show ?thesis
          using shorterD [OF assms(1)] skip_space_length [of p3] skip_word_shorter [OF assms(3)] by fastforce
      next
        case no: False
        then consider "pv = Some q" | "q = skip_word p"
          using False nu assms(2) w n v by (auto simp: parse_name_def split: option.splits elim!: bind_SomeE)
        then show ?thesis
          using v var skip_word_shorter [OF assms(3)] by cases auto
      qed
    qed
  qed
qed

lemma parse_simpleexpr_length:
  assumes "shorter sub" "parse_simpleexpr sub env p s = Some (q, s')"
  shows "length q < length p"
proof -
  let ?p = "skip_space p"
  have ne: "?p \<noteq> []" if "length q < length ?p"
    using that by auto
  have "length q < length ?p"
  proof -
    consider "ch ?p = CHR ''(''" | "ch ?p \<noteq> CHR ''(''" "is_number ?p" | "ch ?p \<noteq> CHR ''(''" "\<not> is_number ?p" "ch ?p = CHR 0x22"
      | "ch ?p \<noteq> CHR ''(''" "\<not> is_number ?p" "ch ?p \<noteq> CHR 0x22"
      by blast
    then show ?thesis
    proof cases
      case 1
      then obtain p2 s2 s3 where "sub (tl ?p) (- 1) s2 = Some (p2, s3)" "close_paren (skip_space p2) s3 = Some (q, s')"
        using assms(2) unfolding parse_simpleexpr_def by (auto elim!: bind_SomeE)
      then show ?thesis
        using shorterD [OF assms(1)] skip_space_length [of p2] close_paren_length by fastforce
    next
      case 2
      then show ?thesis
        using assms(2) number_length [of ?p] by (auto simp: parse_simpleexpr_def Let_def case_prod_unfold split: if_splits)
    next
      case 3
      then obtain bs where "parse_string CHR 0x22 (tl ?p) = Some (bs, q)"
        using assms(2) unfolding parse_simpleexpr_def by (auto elim!: bind_SomeE)
      from parse_string_length [OF this] show ?thesis
        by simp
    next
      case 4
      then have "skip_word ?p \<noteq> ?p" "parse_name sub env ?p s = Some (q, s')"
        using assms(2) by (auto simp: parse_simpleexpr_def Let_def split: if_splits)
      then show ?thesis
        using parse_name_length [OF assms(1)] by blast
    qed
  qed
  then show ?thesis
    using skip_space_length [of p] by simp
qed

lemma binary_op_length: "binary_op p = Some (oper, opl, len) \<Longrightarrow> 0 < len \<and> 0 < length p"
  by (cases p) (auto simp: binary_op_def Let_def split: if_splits)

lemma op_operand_length:
  assumes "shorter sub" "op_operand sub oper opl p s = Some (q, s')"
  shows "length q < length p"
proof (cases "oper = C_OP3")
  case True
  then obtain p2 s2 where "sub p (- 1) s = Some (p2, s2)" "sub (tl (skip_space p2)) (- 1) s2 = Some (q, s')"
    using assms(2) by (auto simp: op_operand_def split: if_splits elim!: bind_SomeE)
  then show ?thesis
    using shorterD [OF assms(1), of p "- 1" s p2 s2] shorterD [OF assms(1), of _ "- 1" s2 q s'] skip_space_length [of p2] by fastforce
next
  case False
  then show ?thesis
    using assms(2) shorterD [OF assms(1)] by (auto simp: op_operand_def)
qed

lemma parse_ops_length:
  assumes "shorter sub"
  shows "parse_ops n sub limit p s = Some (q, s') \<Longrightarrow> length q \<le> length p"
proof (induction n arbitrary: p s)
  case (Suc n)
  show ?case
  proof (cases "binary_op p")
    case None
    then show ?thesis
      using Suc.prems by simp
  next
    case (Some x)
    obtain oper opl len where x: "x = (oper, opl, len)"
      by (cases x) auto
    show ?thesis
    proof (cases "opl \<le> limit")
      case True
      then show ?thesis
        using Suc.prems Some x by simp
    next
      case False
      then obtain p2 s2 where r: "op_operand sub oper opl (drop len p) s = Some (p2, s2)" "parse_ops n sub limit (skip_space p2) (put_op oper s2) = Some (q, s')"
        using Suc.prems Some x by (auto elim!: bind_SomeE)
      show ?thesis
        using Suc.IH [OF r(2)] op_operand_length [OF assms r(1)] skip_space_length [of p2] by simp
    qed
  qed
qed simp

lemma first_operand_length:
  assumes "shorter sub" "first_operand sub env p s = Some (q, s')"
  shows "length q < length p"
proof (cases "unary_op p")
  case None
  then show ?thesis
    using assms(2) parse_simpleexpr_length [OF assms(1)] by (simp add: first_operand_def)
next
  case (Some oper)
  then obtain s3 where "sub (tl p) 10 s = Some (q, s3)"
    using assms(2) by (auto simp: first_operand_def elim!: bind_SomeE)
  from shorterD [OF assms(1) this] show ?thesis
    by simp
qed

lemma subexpr_body_shorter:
  assumes "shorter sub"
  shows "shorter (subexpr_body sub env)"
  unfolding shorter_def
proof (intro allI impI)
  fix p limit s r
  assume r: "subexpr_body sub env p limit s = Some r"
  let ?p = "skip_space p"
  show "length (fst r) < length p"
  proof (cases "ch ?p = CHR ''-'' \<and> ch (skip_space (tl ?p)) \<in> {CHR '';'', CHR '',''}")
    case True
    then have "length (fst r) < length ?p"
      using r ch_nonempty [of ?p] unfolding subexpr_body_def Let_def by (auto elim!: bind_SomeE)
    then show ?thesis
      using skip_space_length [of p] by simp
  next
    case False
    obtain p2 s2 where f: "first_operand sub env ?p s = Some (p2, s2)" and o: "parse_ops (Suc (length (skip_space p2))) sub limit (skip_space p2) s2 = Some r"
      using r False unfolding subexpr_body_def Let_def if_not_P [OF False] by (elim bind_SomeE) (auto simp del: parse_ops.simps)
    have "length (fst r) \<le> length (skip_space p2)"
      using parse_ops_length [OF assms] o by (cases r) (metis fst_conv)
    then show ?thesis
      using first_operand_length [OF assms f] skip_space_length [of p] skip_space_length [of p2] by simp
  qed
qed

lemma parse_subexpr_shorter: "shorter (parse_subexpr n env)"
  by (induction n) (auto simp: shorter_def [of "\<lambda>p l s. None"] intro: subexpr_body_shorter)

section \<open>The depth does not matter\<close>

declare parse_ops.simps [simp del] parse_args.simps [simp del] parse_subexpr.simps [simp del]

text \<open>Two parsers that agree on the shorter texts.\<close>

definition agree :: "nat \<Rightarrow> sub_parser \<Rightarrow> sub_parser \<Rightarrow> bool" where
  "agree k sub sub' \<longleftrightarrow> (\<forall>p l s. length p < k \<longrightarrow> sub p l s = sub' p l s)"

lemma agreeD: "agree k sub sub' \<Longrightarrow> length p < k \<Longrightarrow> sub p l s = sub' p l s"
  by (simp add: agree_def)

lemma agree_le: "agree k sub sub' \<Longrightarrow> k' \<le> k \<Longrightarrow> agree k' sub sub'"
  by (simp add: agree_def)

lemma bind_same: "m = m' \<Longrightarrow> (\<And>x. m' = Some x \<Longrightarrow> f x = g x) \<Longrightarrow> Option.bind m f = Option.bind m' g"
  by (cases m') auto

lemma parse_args_agree:
  assumes "shorter sub"
  shows "agree (Suc (length p)) sub sub' \<Longrightarrow> length p < n \<Longrightarrow> length p < m \<Longrightarrow> parse_args n sub arg p s = parse_args m sub' arg p s"
proof (induction n arbitrary: m arg p s)
  case (Suc n)
  obtain m' where m: "m = Suc m'"
    using Suc.prems(3) by (cases m) auto
  have e: "sub p (- 1) s = sub' p (- 1) s"
    using agreeD [OF Suc.prems(1)] by simp
  show ?case
  proof (cases "sub p (- 1) s")
    case None
    then show ?thesis
      using e by (simp add: m parse_args.simps)
  next
    case (Some r)
    obtain p2 s2 where r: "r = (p2, s2)"
      by (cases r)
    let ?p = "tl (skip_space p2)" and ?arg = "if hd arg \<noteq> CHR ''*'' then tl arg else arg"
    have "length ?p < length p"
      using shorterD [OF assms, of p "- 1" s p2 s2] Some r skip_space_length [of p2] by simp
    then have "parse_args n sub ?arg ?p s2 = parse_args m' sub' ?arg ?p s2"
      using Suc.prems m by (intro Suc.IH) (auto intro: agree_le)
    moreover have "sub p (- 1) s = Some (p2, s2)" "sub' p (- 1) s = Some (p2, s2)"
      using e Some r by simp_all
    ultimately show ?thesis
      by (simp add: m Let_def parse_args.simps)
  qed
qed simp

lemma list_args_agree: "shorter sub \<Longrightarrow> agree (Suc (length p)) sub sub' \<Longrightarrow> list_args sub flag arg p s = list_args sub' flag arg p s"
  unfolding list_args_def by (intro bind_same refl parse_args_agree) auto

lemma call_args_agree: "shorter sub \<Longrightarrow> agree (Suc (length p)) sub sub' \<Longrightarrow> call_args sub arg r p s = call_args sub' arg r p s"
  unfolding call_args_def by (intro if_cong refl list_args_agree) (auto intro: agree_le)

lemma parse_callfunc_agree:
  assumes "shorter sub" "agree (length p) sub sub'"
  shows "parse_callfunc sub env p r c s = parse_callfunc sub' env p r c s"
  unfolding parse_callfunc_def
proof (intro bind_same refl)
  fix x assume x: "add_word p s = Some x"
  have "agree (Suc (length (skip_space (skip_word p)))) sub sub'"
    using after_word [OF x] by (intro agree_le [OF assms(2)]) simp
  note call_args_agree [OF assms(1) this]
  then show "(case x of (func, s) \<Rightarrow> do { (arg, s) \<leftarrow> call_name env func c s; (arg, p, s) \<leftarrow> call_args sub arg r (skip_space (skip_word p)) s; close_call arg p s }) =
    (case x of (func, s) \<Rightarrow> do { (arg, s) \<leftarrow> call_name env func c s; (arg, p, s) \<leftarrow> call_args sub' arg r (skip_space (skip_word p)) s; close_call arg p s })"
    by (simp add: case_prod_unfold)
qed

lemma assign_target_agree: "agree (length q) sub sub' \<Longrightarrow> q \<noteq> [] \<Longrightarrow> assign_target sub env w (Some q) s = assign_target sub' env w (Some q) s"
  unfolding assign_target_def by (simp add: agreeD)

lemma assign_value_agree: "agree (Suc (length p)) sub sub' \<Longrightarrow> assign_value sub t p s = assign_value sub' t p s"
  unfolding assign_value_def by (simp add: agreeD)

lemma parse_variable_agree:
  assumes "agree (length var) sub sub'"
  shows "parse_variable sub env var s = parse_variable sub' env var s"
proof -
  let ?p = "skip_space (skip_word var)"
  let ?t = "if ch ?p = CHR ''['' then do { q \<leftarrow> skip_index 1 ?p; Some (Some ?p, skip_space q) } else Some (None, ?p)"
  have p: "length ?p \<le> length var"
    using skip_space_length [of "skip_word var"] skip_word_length [of var] by simp
  show ?thesis
  proof (cases ?t)
    case None
    then show ?thesis
      unfolding parse_variable_def Let_def by simp
  next
    case (Some x)
    obtain p2 p' where x: "x = (p2, p')"
      by (cases x)
    note t = target_end [OF Some [unfolded x]]
    show ?thesis
    proof (cases "assign_op p'")
      case None
      then show ?thesis
        unfolding parse_variable_def Let_def Some x by simp
    next
      case (Some y)
      obtain type n where y: "y = (type, n)"
        by (cases y)
      have v: "assign_value sub type (skip_space (drop n p')) s = assign_value sub' type (skip_space (drop n p')) s" for s
        using assign_op_length [OF Some [unfolded y]] t(1) p by (intro assign_value_agree agree_le [OF assms]) simp
      have w: "assign_target sub env w p2 s = assign_target sub' env w p2 s" for w s
        using t(2)
      proof
        assume "p2 = Some ?p \<and> ?p \<noteq> []"
        then show ?thesis
          using assign_target_agree [OF agree_le [OF assms p]] by blast
      qed (simp add: assign_target_def)
      show ?thesis
        unfolding parse_variable_def Let_def \<open>?t = Some x\<close> x using Some y by (simp add: v w cong: if_cong)
    qed
  qed
qed

lemma parse_name_agree:
  assumes "shorter sub" "agree (length p) sub sub'" "skip_word p \<noteq> p"
  shows "parse_name sub env p s = parse_name sub' env p s"
proof -
  have "sub (tl (skip_word p)) l s = sub' (tl (skip_word p)) l s" for l s
    using skip_word_shorter [OF assms(3)] by (intro agreeD [OF assms(2)]) simp
  then show ?thesis
    unfolding parse_name_def by (simp add: parse_callfunc_agree [OF assms(1,2)] parse_variable_agree [OF assms(2)] cong: if_cong option.case_cong)
qed

lemma parse_simpleexpr_agree:
  assumes "shorter sub" "agree (length p) sub sub'"
  shows "parse_simpleexpr sub env p s = parse_simpleexpr sub' env p s"
proof -
  let ?p = "skip_space p"
  have a: "agree (length ?p) sub sub'"
    by (rule agree_le [OF assms(2) skip_space_length])
  have "sub (tl ?p) l s = sub' (tl ?p) l s" if "ch ?p = CHR ''(''" for l s
    using that ch_nonempty [of ?p] by (intro agreeD [OF a]) simp
  then show ?thesis
    using parse_name_agree [OF assms(1) a] by (simp add: parse_simpleexpr_def Let_def cong: if_cong)
qed

lemma op_operand_agree:
  assumes "shorter sub" "agree (Suc (length p)) sub sub'"
  shows "op_operand sub oper opl p s = op_operand sub' oper opl p s"
proof (cases "oper = C_OP3")
  case True
  have e: "sub p (- 1) s = sub' p (- 1) s"
    by (rule agreeD [OF assms(2)]) simp
  have "sub (tl (skip_space (fst r))) (- 1) s' = sub' (tl (skip_space (fst r))) (- 1) s'" if "sub' p (- 1) s = Some r" for r s'
    using that shorterD [OF assms(1), of p "- 1" s "fst r" "snd r"] e skip_space_length [of "fst r"] by (intro agreeD [OF assms(2)]) simp
  then show ?thesis
    unfolding op_operand_def using True by (simp add: e case_prod_unfold cong: if_cong) (rule bind_same; simp)
next
  case False
  then show ?thesis
    using agreeD [OF assms(2)] by (simp add: op_operand_def)
qed

lemma parse_ops_agree:
  assumes "shorter sub"
  shows "agree (length p) sub sub' \<Longrightarrow> length p < n \<Longrightarrow> length p < m \<Longrightarrow> parse_ops n sub limit p s = parse_ops m sub' limit p s"
proof (induction n arbitrary: m p s)
  case (Suc n)
  obtain m' where m: "m = Suc m'"
    using Suc.prems(3) by (cases m) auto
  show ?case
  proof (cases "binary_op p")
    case (Some x)
    obtain oper opl len where x: "x = (oper, opl, len)"
      by (cases x) auto
    have d: "length (drop len p) < length p"
      using binary_op_length [OF Some [unfolded x]] by simp
    have o: "op_operand sub oper opl (drop len p) s = op_operand sub' oper opl (drop len p) s"
      using d by (intro op_operand_agree [OF assms] agree_le [OF Suc.prems(1)]) simp
    have "parse_ops n sub limit (skip_space (fst r)) (put_op oper (snd r)) = parse_ops m' sub' limit (skip_space (fst r)) (put_op oper (snd r))"
      if "op_operand sub' oper opl (drop len p) s = Some r" for r
    proof -
      have "length (skip_space (fst r)) < length p"
        using op_operand_length [OF assms, of oper opl "drop len p" s "fst r" "snd r"] that o d skip_space_length [of "fst r"] by simp
      then show ?thesis
        using Suc.prems m by (intro Suc.IH agree_le [OF Suc.prems(1)]) auto
    qed
    then show ?thesis
      by (simp only: parse_ops.simps Some x m option.case prod.case case_prod_unfold, intro if_cong refl bind_same) (simp_all add: o)
  qed (simp add: m parse_ops.simps)
qed simp

lemma first_operand_agree:
  assumes "shorter sub" "agree (length p) sub sub'"
  shows "first_operand sub env p s = first_operand sub' env p s"
proof (cases "unary_op p")
  case None
  then show ?thesis
    using parse_simpleexpr_agree [OF assms] by (simp add: first_operand_def)
next
  case (Some oper)
  then have "0 < length p"
    by (intro ch_nonempty) (auto simp: unary_op_def split: if_splits)
  then have "sub (tl p) 10 s = sub' (tl p) 10 s"
    by (intro agreeD [OF assms(2)]) simp
  then show ?thesis
    using Some by (simp add: first_operand_def)
qed

lemma subexpr_body_agree:
  assumes "shorter sub" "agree (length p) sub sub'"
  shows "subexpr_body sub env p limit s = subexpr_body sub' env p limit s"
proof -
  let ?p = "skip_space p"
  have a: "agree (length ?p) sub sub'"
    by (rule agree_le [OF assms(2) skip_space_length])
  note f = first_operand_agree [OF assms(1) a, of env s]
  have o: "parse_ops (Suc (length (skip_space (fst r)))) sub limit (skip_space (fst r)) (snd r) = parse_ops (Suc (length (skip_space (fst r)))) sub' limit (skip_space (fst r)) (snd r)"
    if "first_operand sub' env ?p s = Some r" for r
  proof -
    have "length (skip_space (fst r)) < length ?p"
      using that f first_operand_length [OF assms(1), of env ?p s "fst r" "snd r"] skip_space_length [of "fst r"] by simp
    then show ?thesis
      by (intro parse_ops_agree [OF assms(1)] agree_le [OF a]) auto
  qed
  show ?thesis
    unfolding subexpr_body_def Let_def case_prod_unfold by (intro if_cong refl bind_same f o)
qed

lemma depth_agree: "length p < n \<Longrightarrow> length p < m \<Longrightarrow> parse_subexpr n env p limit s = parse_subexpr m env p limit s"
proof (induction "length p" arbitrary: n m p limit s rule: less_induct)
  case less
  obtain n' m' where n: "n = Suc n'" "m = Suc m'"
    using less.prems by (cases n; cases m) auto
  have "agree (length p) (parse_subexpr n' env) (parse_subexpr m' env)"
    unfolding agree_def using less.prems n by (intro allI impI less.hyps) auto
  then show ?case
    unfolding n parse_subexpr.simps by (rule subexpr_body_agree [OF parse_subexpr_shorter])
qed

text \<open>\<open>parse_subexpr\<close> without a depth, and the equations it has.\<close>

definition parse_sub :: "script_env \<Rightarrow> sub_parser" where
  "parse_sub env p = parse_subexpr (Suc (length p)) env p"

lemma parse_sub_shorter: "shorter (parse_sub env)"
  unfolding shorter_def parse_sub_def using parse_subexpr_shorter unfolding shorter_def by blast

lemma parse_sub_unfold: "parse_sub env p limit s = subexpr_body (parse_sub env) env p limit s"
proof -
  have "agree (length p) (parse_subexpr (length p) env) (parse_sub env)"
    unfolding agree_def parse_sub_def by (intro allI impI depth_agree) simp_all
  then have "subexpr_body (parse_subexpr (length p) env) env p limit s = subexpr_body (parse_sub env) env p limit s"
    by (rule subexpr_body_agree [OF parse_subexpr_shorter])
  then show ?thesis
    by (simp add: parse_sub_def [of env p] parse_subexpr.simps)
qed

text \<open>The two loops, which are always given counts that are enough.\<close>

lemma parse_ops_unfold:
  "parse_ops (Suc (length p)) (parse_sub env) limit p s = (case binary_op p of
     None \<Rightarrow> Some (p, s)
   | Some (oper, opl, len) \<Rightarrow>
       if opl \<le> limit then Some (p, s) else do {
         (p, s) \<leftarrow> op_operand (parse_sub env) oper opl (drop len p) s;
         parse_ops (Suc (length (skip_space p))) (parse_sub env) limit (skip_space p) (put_op oper s) })"
proof (cases "binary_op p")
  case (Some x)
  obtain oper opl len where x: "x = (oper, opl, len)"
    by (cases x) auto
  have "parse_ops (length p) (parse_sub env) limit (skip_space (fst r)) (put_op oper (snd r)) =
      parse_ops (Suc (length (skip_space (fst r)))) (parse_sub env) limit (skip_space (fst r)) (put_op oper (snd r))"
    if "op_operand (parse_sub env) oper opl (drop len p) s = Some r" for r
  proof -
    have "length (skip_space (fst r)) < length p"
      using op_operand_length [OF parse_sub_shorter, of env oper opl "drop len p" s "fst r" "snd r"] that skip_space_length [of "fst r"] by simp
    then show ?thesis
      by (intro parse_ops_agree [OF parse_sub_shorter]) (auto simp: agree_def)
  qed
  then show ?thesis
    by (subst parse_ops.simps) (simp only: Some x option.case prod.case case_prod_unfold, intro if_cong refl bind_same, simp)
qed (simp add: parse_ops.simps)

lemma parse_args_unfold:
  "parse_args (Suc (length p)) (parse_sub env) arg p s = (if arg = [] then Some (arg, p, s) else do {
     (p2, s) \<leftarrow> parse_sub env p (- 1) s;
     let arg = (if hd arg \<noteq> CHR ''*'' then tl arg else arg); p = skip_space p2 in
     if arg = [] \<or> ch p \<noteq> CHR '','' then Some (arg, p, s)
     else parse_args (Suc (length (tl p))) (parse_sub env) arg (tl p) s })"
proof (cases "parse_sub env p (- 1) s")
  case (Some r)
  obtain p2 s2 where r: "r = (p2, s2)"
    by (cases r)
  have l: "length p2 < length p"
    using shorterD [OF parse_sub_shorter] Some r by blast
  then have "parse_args (length p) (parse_sub env) arg' (tl (skip_space p2)) s2 = parse_args (Suc (length (tl (skip_space p2)))) (parse_sub env) arg' (tl (skip_space p2)) s2" for arg'
    using skip_space_length [of p2] by (intro parse_args_agree [OF parse_sub_shorter]) (auto simp: agree_def)
  moreover have "p \<noteq> p2"
    using l by auto
  ultimately show ?thesis
    by (subst parse_args.simps) (simp add: Some r Let_def del: parse_args.simps)
qed (simp add: parse_args.simps)

end
