(* ===== verification/ScriptRegs.thy ===== *)
theory ScriptRegs imports ScriptFuel begin

text \<open>
  The variables of players (\<^verbatim>\<open>src/map/pc.c\<close>): the arrays of temporary variables, by the id of the variable,
  and the registries of permanent ones, by name, whose values are texts.
\<close>

section \<open>Numbers as text\<close>

text \<open>\<open>%d\<close>, and \<open>strtol\<close> with base 10: spaces, a sign, digits; the value is capped to 64 bits.\<close>

function show_nat :: "nat \<Rightarrow> string" where
  "show_nat n = (if n < 10 then [char_of (48 + n)] else show_nat (n div 10) @ [char_of (48 + n mod 10)])"
  by pat_completeness auto
termination
  by (relation "measure id") auto

declare show_nat.simps [simp del]

definition show_int :: "int \<Rightarrow> string" where
  "show_int i = (if i < 0 then CHR ''-'' # show_nat (nat (- i)) else show_nat (nat i))"

definition digits_val :: "string \<Rightarrow> nat" where
  "digits_val = foldl (\<lambda>v c. 10 * v + digit_val c) 0"

definition strtol10 :: "string \<Rightarrow> int" where
  "strtol10 p = (let p = dropWhile isspace p; q = (if ch p = CHR ''-'' \<or> ch p = CHR ''+'' then tl p else p);
      v = int (digits_val (takeWhile isdigit q)) in
    max (- (2 ^ 63)) (min (2 ^ 63 - 1) (if ch p = CHR ''-'' then - v else v)))"

definition atoi :: "string \<Rightarrow> int" where "atoi p = s32 (strtol10 p)"

lemma digit_char:
  assumes "d < 10"
  shows "isdigit (char_of (48 + d :: nat))" "digit_val (char_of (48 + d :: nat)) = d"
proof -
  have e: "of_char (char_of (48 + d :: nat)) = (48 + d :: nat)"
    using assms by simp
  show "isdigit (char_of (48 + d :: nat))"
    unfolding isdigit_def between_ch_def e using assms by simp
  show "digit_val (char_of (48 + d :: nat)) = d"
    unfolding digit_val_def e by simp
qed

lemma show_nat_digits: "show_nat n \<noteq> [] \<and> (\<forall>c \<in> set (show_nat n). isdigit c) \<and> digits_val (show_nat n) = n"
proof (induction n rule: show_nat.induct)
  case (1 n)
  have "n mod 10 < 10"
    by simp
  note d = digit_char [OF this]
  show ?case
  proof (cases "n < 10")
    case True
    then show ?thesis
      using digit_char [of n] by (subst (1 2 3) show_nat.simps) (simp add: digits_val_def)
  next
    case False
    then show ?thesis
      using 1 d by (subst (1 2 3) show_nat.simps) (simp add: digits_val_def)
  qed
qed

lemma takeWhile_stop: "(\<forall>c \<in> set xs. P c) \<Longrightarrow> \<not> P (ch ys) \<or> ys = [] \<Longrightarrow> takeWhile P (xs @ ys) = xs \<and> dropWhile P (xs @ ys) = ys"
  by (cases ys) auto

lemma nul_not_digit [simp]: "\<not> isdigit CHR 0x00"
  by (simp add: isdigit_def between_ch_def)

lemma digit_facts:
  assumes "isdigit c"
  shows "\<not> isspace c" "c \<noteq> CHR ''-''" "c \<noteq> CHR ''+''"
  using assms by (auto simp: isdigit_def isspace_def between_ch_def)

lemma strtol10_show:
  assumes "- (2 ^ 63) \<le> i" "i < 2 ^ 63" "\<not> isdigit (ch rest)"
  shows "strtol10 (show_int i @ rest) = i"
proof -
  have ds: "show_nat n \<noteq> []" "\<forall>c \<in> set (show_nat n). isdigit c" "digits_val (show_nat n) = n" for n
    using show_nat_digits [of n] by auto
  have t: "takeWhile isdigit (show_nat n @ rest) = show_nat n" for n
    using takeWhile_stop [OF ds(2) [of n], of rest] assms(3) by blast
  have h: "ch (show_nat n @ rest) = hd (show_nat n) \<and> isdigit (hd (show_nat n))" for n
    using ds(1,2) [of n] by (cases "show_nat n") auto
  have s: "dropWhile isspace (show_nat n @ rest) = show_nat n @ rest" for n
    using ds(1,2) [of n] digit_facts(1) by (cases "show_nat n") auto
  have m: "\<not> isspace CHR ''-''"
    by (simp add: isspace_def between_ch_def)
  show ?thesis
  proof (cases "i < 0")
    case True
    then show ?thesis
      using assms(1,2) by (simp add: strtol10_def show_int_def m t ds Let_def)
  next
    case False
    then show ?thesis
      using assms(1,2) digit_facts(2,3) h [of "nat i"] by (auto simp: strtol10_def show_int_def s t ds Let_def)
  qed
qed

lemma atoi_show: "s32 i = i \<Longrightarrow> atoi (show_int i) = i"
proof -
  assume i: "s32 i = i"
  then have "- 2147483648 \<le> i" "i < 2147483648"
    unfolding s32_def by presburger+
  then show ?thesis
    using strtol10_show [of i "[]"] i by (simp add: atoi_def)
qed

section \<open>Temporary variables\<close>

text \<open>The index and the value of the used entries (\<open>reg\<close>, \<open>regstr\<close>; \<open>None\<close> is \<open>NULL\<close>).\<close>

definition pc_readreg :: "(int \<times> int) list \<Rightarrow> int \<Rightarrow> int" where
  "pc_readreg regs reg = (let i = arr_find 0 (length regs) (\<lambda>i. fst (regs ! i) = reg) in
     if i < length regs then snd (regs ! i) else 0)"

definition pc_setreg :: "(int \<times> int) list \<Rightarrow> int \<Rightarrow> int \<Rightarrow> (int \<times> int) list" where
  "pc_setreg regs reg val = (let i = arr_find 0 (length regs) (\<lambda>i. fst (regs ! i) = reg) in
     if i < length regs then regs[i := (reg, val)]
     else let i = arr_find 0 (length regs) (\<lambda>i. snd (regs ! i) = 0) in
       if i = length regs then regs @ [(reg, val)] else regs[i := (reg, val)])"

definition pc_readregstr :: "(int \<times> string option) list \<Rightarrow> int \<Rightarrow> string option" where
  "pc_readregstr regs reg = (let i = arr_find 0 (length regs) (\<lambda>i. fst (regs ! i) = reg) in
     if i < length regs then snd (regs ! i) else None)"

definition pc_setregstr :: "(int \<times> string option) list \<Rightarrow> int \<Rightarrow> string \<Rightarrow> (int \<times> string option) list" where
  "pc_setregstr regs reg str = (let i = arr_find 0 (length regs) (\<lambda>i. fst (regs ! i) = reg) in
     if i < length regs then regs[i := (reg, if str = [] then None else Some str)]
     else if str = [] then regs
     else let i = arr_find 0 (length regs) (\<lambda>i. snd (regs ! i) = None) in
       if i = length regs then regs @ [(reg, Some str)] else regs[i := (reg, Some str)])"

section \<open>Permanent variables\<close>

definition GLOBAL_REG_NUM :: nat where "GLOBAL_REG_NUM = 256"
definition ACCOUNT_REG_NUM :: nat where "ACCOUNT_REG_NUM = 64"
definition ACCOUNT_REG2_NUM :: nat where "ACCOUNT_REG2_NUM = 16"

text \<open>\<open>safestrncpy\<close> into \<open>n\<close> characters; \<open>struct global_reg\<close> has 32 for the name and 256 for the value.\<close>

definition safestrncpy :: "nat \<Rightarrow> string \<Rightarrow> string" where
  "safestrncpy n s = take (n - 1) s"

record global_reg =
  gr_str :: string
  gr_value :: string

datatype reg_packet = Save_reg int "(string \<times> string) list" | Request_reg int

text \<open>
  The variables of a player: \<open>None\<close> is a registry that is not loaded (its count is -1). The calls to other
  parts are recorded: what is sent to the char server, and how often \<open>status_calc_pc\<close> is called.
\<close>

record player_vars =
  pv_reg :: "(int \<times> int) list"
  pv_regstr :: "(int \<times> string option) list"
  pv_global :: "global_reg list option"
  pv_account :: "global_reg list option"
  pv_account2 :: "global_reg list option"
  pv_dirty :: int
  pv_die_counter :: int
  pv_cook_mastery :: int
  pv_cash :: int
  pv_kafra :: int
  pv_super_novice :: bool
  pv_char_up :: bool
  pv_sent :: "reg_packet list"
  pv_status_calcs :: nat

definition registry :: "int \<Rightarrow> player_vars \<Rightarrow> global_reg list option" where
  "registry type sd = (if type = 3 then pv_global sd else if type = 2 then pv_account sd else pv_account2 sd)"

definition set_registry :: "int \<Rightarrow> global_reg list \<Rightarrow> player_vars \<Rightarrow> player_vars" where
  "set_registry type regs sd = (if type = 3 then sd\<lparr>pv_global := Some regs\<rparr>
     else if type = 2 then sd\<lparr>pv_account := Some regs\<rparr> else sd\<lparr>pv_account2 := Some regs\<rparr>)"

definition reg_max :: "int \<Rightarrow> nat" where
  "reg_max type = (if type = 3 then GLOBAL_REG_NUM else if type = 2 then ACCOUNT_REG_NUM else ACCOUNT_REG2_NUM)"

definition mark_dirty :: "int \<Rightarrow> player_vars \<Rightarrow> player_vars" where
  "mark_dirty type sd = sd\<lparr>pv_dirty := pv_dirty sd OR 2 ^ nat (type - 1)\<rparr>"

definition intif_saveregistry :: "int \<Rightarrow> player_vars \<Rightarrow> player_vars" where
  "intif_saveregistry type sd = (if \<not> pv_char_up sd then sd else
     sd\<lparr>pv_dirty := pv_dirty sd AND NOT (2 ^ nat (type - 1)),
        pv_sent := pv_sent sd @ [Save_reg type (case registry type sd of None \<Rightarrow> []
          | Some regs \<Rightarrow> List.map (\<lambda>r. (gr_str r, gr_value r)) (filter (\<lambda>r. gr_str r \<noteq> [] \<and> gr_value r \<noteq> []) regs))]\<rparr>)"

definition intif_request_registry :: "int \<Rightarrow> player_vars \<Rightarrow> player_vars" where
  "intif_request_registry flag sd = (let sd = sd\<lparr>pv_account2 := None, pv_account := None, pv_global := None\<rparr> in
     if \<not> pv_char_up sd then sd else sd\<lparr>pv_sent := pv_sent sd @ [Request_reg flag]\<rparr>)"

definition find_reg :: "string \<Rightarrow> global_reg list \<Rightarrow> nat" where
  "find_reg name regs = arr_find 0 (length regs) (\<lambda>i. gr_str (regs ! i) = name)"

definition pc_readregistry :: "string \<Rightarrow> int \<Rightarrow> player_vars \<Rightarrow> int \<times> player_vars" where
  "pc_readregistry reg type sd = (case registry type sd of
     None \<Rightarrow> (0, intif_request_registry (if type = 3 then 4 else type) sd)
   | Some regs \<Rightarrow> (let i = find_reg reg regs in (if i < length regs then atoi (gr_value (regs ! i)) else 0, sd)))"

definition pc_readregistry_str :: "string \<Rightarrow> int \<Rightarrow> player_vars \<Rightarrow> string option \<times> player_vars" where
  "pc_readregistry_str reg type sd = (case registry type sd of
     None \<Rightarrow> (None, intif_request_registry (if type = 3 then 4 else type) sd)
   | Some regs \<Rightarrow> (let i = find_reg reg regs in (if i < length regs then Some (gr_value (regs ! i)) else None, sd)))"

text \<open>The last entry takes the place of the one that is deleted.\<close>

definition del_reg :: "string \<Rightarrow> global_reg list \<Rightarrow> global_reg list" where
  "del_reg name regs = (let i = find_reg name regs in if i < length regs then butlast (regs[i := last regs]) else regs)"

text \<open>The variables that are kept in fields of their own too.\<close>

definition special_reg :: "string \<Rightarrow> int \<Rightarrow> int \<Rightarrow> player_vars \<Rightarrow> int \<times> player_vars" where
  "special_reg reg val type sd =
     (if type = 3 then
        (if reg = ''PC_DIE_COUNTER'' \<and> pv_die_counter sd \<noteq> val then
           (val, sd\<lparr>pv_die_counter := val,
              pv_status_calcs := (if pv_die_counter sd = 0 \<and> pv_super_novice sd then pv_status_calcs sd + 1 else pv_status_calcs sd)\<rparr>)
         else if reg = ''COOK_MASTERY'' \<and> pv_cook_mastery sd \<noteq> val then
           (let val = cap_value val 0 1999 in (val, sd\<lparr>pv_cook_mastery := val\<rparr>))
         else (val, sd))
      else if type = 2 then
        (if reg = ''#CASHPOINTS'' \<and> pv_cash sd \<noteq> val then (let val = cap_value val 0 1000000000 in (val, sd\<lparr>pv_cash := val\<rparr>))
         else if reg = ''#KAFRAPOINTS'' \<and> pv_kafra sd \<noteq> val then (let val = cap_value val 0 1000000000 in (val, sd\<lparr>pv_kafra := val\<rparr>))
         else (val, sd))
      else (val, sd))"

definition pc_setregistry :: "string \<Rightarrow> int \<Rightarrow> int \<Rightarrow> player_vars \<Rightarrow> bool \<times> player_vars" where
  "pc_setregistry reg val type sd = (let (val, sd) = special_reg reg val type sd in
     case registry type sd of None \<Rightarrow> (True, sd)
     | Some regs \<Rightarrow> (let i = find_reg reg regs in
         if val = 0 then (True, if i < length regs then mark_dirty type (set_registry type (del_reg reg regs) sd) else sd)
         else if i < length regs then
           (True, mark_dirty type (set_registry type (regs[i := (regs ! i)\<lparr>gr_value := safestrncpy 256 (show_int val)\<rparr>]) sd))
         else if length regs < reg_max type then
           (True, mark_dirty type (set_registry type (regs @ [\<lparr>gr_str = safestrncpy 32 reg, gr_value = safestrncpy 256 (show_int val)\<rparr>]) sd))
         else (False, sd)))"

definition pc_setregistry_str :: "string \<Rightarrow> string \<Rightarrow> int \<Rightarrow> player_vars \<Rightarrow> bool \<times> player_vars" where
  "pc_setregistry_str reg val type sd = (if reg = [] \<or> last reg \<noteq> CHR ''$'' then (False, sd) else
     case registry type sd of None \<Rightarrow> (False, sd)
     | Some regs \<Rightarrow> (let i = find_reg reg regs; save = (\<lambda>sd. if type \<noteq> 3 then intif_saveregistry type sd else sd) in
         if val = [] then (True, if i < length regs then save (mark_dirty type (set_registry type (del_reg reg regs) sd)) else sd)
         else if i < length regs then
           (True, save (mark_dirty type (set_registry type (regs[i := (regs ! i)\<lparr>gr_value := safestrncpy 256 val\<rparr>]) sd)))
         else if length regs < reg_max type then
           (True, save (mark_dirty type (set_registry type (regs @ [\<lparr>gr_str = safestrncpy 32 reg, gr_value = safestrncpy 256 val\<rparr>]) sd)))
         else (False, sd)))"

section \<open>Temporary variables are a map\<close>

lemma slot_less: "arr_find 0 (length xs) P < length xs \<Longrightarrow> P (arr_find 0 (length xs) P)"
  by (rule arr_find_holds) simp_all

lemma slot_none: "\<not> arr_find 0 (length xs) P < length xs \<longleftrightarrow> (\<forall>i < length xs. \<not> P i)"
proof -
  have "arr_find 0 (length xs) P \<le> length xs"
    by (rule arr_find_le) simp
  moreover have "arr_find 0 (length xs) P = length xs \<longleftrightarrow> (\<forall>i < length xs. \<not> P i)"
    using arr_find_none_iff [of 0 "length xs" P] by simp
  ultimately show ?thesis
    by (metis leD le_neq_implies_less)
qed

lemma slot_unique:
  assumes "i < length xs" "P i" "\<And>j. j < length xs \<Longrightarrow> P j \<Longrightarrow> j = i"
  shows "arr_find 0 (length xs) P = i"
proof (rule arr_find_eqI)
  show "\<not> P j" if "j < i" for j
    using assms(3) [of j] assms(1) that by fastforce
qed (use assms(1,2) in simp_all)

lemma distinct_fst_eq: "distinct (List.map fst xs) \<Longrightarrow> i < length xs \<Longrightarrow> j < length xs \<Longrightarrow> fst (xs ! i) = fst (xs ! j) \<Longrightarrow> i = j"
  by (auto simp: distinct_conv_nth)

lemma pc_readreg_at: "distinct (List.map fst regs) \<Longrightarrow> i < length regs \<Longrightarrow> fst (regs ! i) = r \<Longrightarrow> pc_readreg regs r = snd (regs ! i)"
proof -
  assume a: "distinct (List.map fst regs)" "i < length regs" "fst (regs ! i) = r"
  then have "arr_find 0 (length regs) (\<lambda>i. fst (regs ! i) = r) = i"
    by (intro slot_unique) (auto intro: distinct_fst_eq)
  then show ?thesis
    using a(2) by (simp add: pc_readreg_def)
qed

lemma pc_readreg_none: "(\<forall>i < length regs. fst (regs ! i) \<noteq> r) \<Longrightarrow> pc_readreg regs r = 0"
  using slot_none [of regs "\<lambda>i. fst (regs ! i) = r"] by (auto simp: pc_readreg_def Let_def)

text \<open>A write into a slot that holds the variable, or a zero of another one.\<close>

lemma pc_write_slot:
  assumes d: "distinct (List.map fst regs)" and i: "i < length regs" and w: "fst (regs ! i) = r \<or> snd (regs ! i) = 0 \<and> (\<forall>j < length regs. fst (regs ! j) \<noteq> r)"
  shows "distinct (List.map fst (regs[i := (r, v)]))" "pc_readreg (regs[i := (r, v)]) r' = (if r' = r then v else pc_readreg regs r')"
proof -
  have "r \<notin> set (List.map fst regs) - {fst (regs ! i)}"
    using w by (auto simp: in_set_conv_nth) (metis fst_conv)
  then show dd: "distinct (List.map fst (regs[i := (r, v)]))"
    using d i by (simp add: map_update distinct_list_update)
  show "pc_readreg (regs[i := (r, v)]) r' = (if r' = r then v else pc_readreg regs r')"
  proof (cases "r' = r")
    case True
    then show ?thesis
      using pc_readreg_at [OF dd, of i r] i by simp
  next
    case False
    show ?thesis
    proof (cases "\<exists>j < length regs. j \<noteq> i \<and> fst (regs ! j) = r'")
      case True
      then obtain j where j: "j < length regs" "j \<noteq> i" "fst (regs ! j) = r'"
        by blast
      then show ?thesis
        using pc_readreg_at [OF dd, of j r'] pc_readreg_at [OF d, of j r'] False by simp
    next
      case none: False
      then have "pc_readreg (regs[i := (r, v)]) r' = 0"
        using False by (intro pc_readreg_none) (metis fst_conv length_list_update nth_list_update_eq nth_list_update_neq)
      moreover have "pc_readreg regs r' = 0"
      proof (cases "fst (regs ! i) = r'")
        case True
        then show ?thesis
          using w False i pc_readreg_at [OF d i] by auto
      next
        case False
        then show ?thesis
          using none by (intro pc_readreg_none) auto
      qed
      ultimately show ?thesis
        using False by simp
    qed
  qed
qed

lemma pc_write_end:
  assumes d: "distinct (List.map fst regs)" and w: "\<forall>j < length regs. fst (regs ! j) \<noteq> r"
  shows "distinct (List.map fst (regs @ [(r, v)]))" "pc_readreg (regs @ [(r, v)]) r' = (if r' = r then v else pc_readreg regs r')"
proof -
  show dd: "distinct (List.map fst (regs @ [(r, v)]))"
    using d w by (auto simp: in_set_conv_nth) (metis fst_conv)
  show "pc_readreg (regs @ [(r, v)]) r' = (if r' = r then v else pc_readreg regs r')"
  proof (cases "r' = r")
    case True
    then show ?thesis
      using pc_readreg_at [OF dd, of "length regs" r] by simp
  next
    case ne: False
    show ?thesis
    proof (cases "\<exists>j < length regs. fst (regs ! j) = r'")
      case True
      then obtain j where j: "j < length regs" "fst (regs ! j) = r'"
        by blast
      then show ?thesis
        using pc_readreg_at [OF dd, of j r'] pc_readreg_at [OF d, of j r'] ne by (simp add: nth_append)
    next
      case False
      then have "pc_readreg (regs @ [(r, v)]) r' = 0" "pc_readreg regs r' = 0"
        using ne by (intro pc_readreg_none; force simp: nth_append less_Suc_eq)+
      then show ?thesis
        using ne by simp
    qed
  qed
qed

lemma pc_setreg_ok:
  assumes d: "distinct (List.map fst regs)"
  shows "distinct (List.map fst (pc_setreg regs r v)) \<and> (\<forall>r'. pc_readreg (pc_setreg regs r v) r' = (if r' = r then v else pc_readreg regs r'))"
proof -
  let ?i = "arr_find 0 (length regs) (\<lambda>i. fst (regs ! i) = r)" and ?z = "arr_find 0 (length regs) (\<lambda>i. snd (regs ! i) = 0)"
  show ?thesis
  proof (cases "?i < length regs")
    case True
    note f = slot_less [OF True]
    have "pc_setreg regs r v = regs[?i := (r, v)]"
      using True by (simp add: pc_setreg_def Let_def)
    then show ?thesis
      using pc_write_slot [OF d True] f by simp
  next
    case False
    then have w: "\<forall>j < length regs. fst (regs ! j) \<noteq> r"
      by (simp add: slot_none)
    show ?thesis
    proof (cases "?z = length regs")
      case True
      then have "pc_setreg regs r v = regs @ [(r, v)]"
        using False by (simp add: pc_setreg_def Let_def)
      then show ?thesis
        using pc_write_end [OF d w] by simp
    next
      case zero: False
      then have z: "?z < length regs"
        using arr_find_le [of 0 "length regs"] by (simp add: le_neq_implies_less)
      have "pc_setreg regs r v = regs[?z := (r, v)]"
        using False zero by (simp add: pc_setreg_def Let_def)
      then show ?thesis
        using pc_write_slot [OF d z, of r] slot_less [OF z] w by simp
    qed
  qed
qed

section \<open>Registries are a map\<close>

text \<open>What a registry says of a name.\<close>

definition reg_value :: "global_reg list \<Rightarrow> string \<Rightarrow> string option" where
  "reg_value regs name = (let i = find_reg name regs in if i < length regs then Some (gr_value (regs ! i)) else None)"

definition regs_ok :: "global_reg list \<Rightarrow> bool" where
  "regs_ok regs \<longleftrightarrow> distinct (List.map gr_str regs) \<and> (\<forall>r \<in> set regs. length (gr_str r) < 32)"

lemma reg_name_eq: "regs_ok regs \<Longrightarrow> i < length regs \<Longrightarrow> j < length regs \<Longrightarrow> gr_str (regs ! i) = gr_str (regs ! j) \<Longrightarrow> i = j"
  by (auto simp: regs_ok_def distinct_conv_nth)

lemma find_reg_at: "regs_ok regs \<Longrightarrow> i < length regs \<Longrightarrow> find_reg (gr_str (regs ! i)) regs = i"
  unfolding find_reg_def by (rule slot_unique) (auto dest: reg_name_eq)

lemma find_reg_name: "find_reg name regs < length regs \<Longrightarrow> gr_str (regs ! find_reg name regs) = name"
  unfolding find_reg_def by (rule slot_less)

lemma find_reg_none: "\<not> find_reg name regs < length regs \<longleftrightarrow> name \<notin> gr_str ` set regs"
  unfolding find_reg_def slot_none by (fastforce simp: in_set_conv_nth)

lemma find_reg_in: "find_reg name regs < length regs \<longleftrightarrow> name \<in> gr_str ` set regs"
  using find_reg_none by blast

lemma reg_value_iff: "regs_ok regs \<Longrightarrow> reg_value regs name = Some v \<longleftrightarrow> (\<exists>r \<in> set regs. gr_str r = name \<and> gr_value r = v)"
proof -
  assume ok: "regs_ok regs"
  show ?thesis
  proof (cases "find_reg name regs < length regs")
    case True
    have "r = regs ! find_reg name regs" if r: "r \<in> set regs" "gr_str r = name" for r
      using r find_reg_at [OF ok] by (metis in_set_conv_nth)
    then show ?thesis
      using True find_reg_name [OF True] by (auto simp: reg_value_def Let_def)
  next
    case False
    then show ?thesis
      by (auto simp: reg_value_def find_reg_in Let_def)
  qed
qed

lemma reg_value_eqI:
  assumes "regs_ok regs" "regs_ok regs'" "{r \<in> set regs. gr_str r = n} = {r \<in> set regs'. gr_str r = n}"
  shows "reg_value regs n = reg_value regs' n"
proof -
  have "reg_value regs n = Some v \<longleftrightarrow> reg_value regs' n = Some v" for v
    unfolding reg_value_iff [OF assms(1)] reg_value_iff [OF assms(2)] using assms(3) by blast
  then show ?thesis
    by (metis option.exhaust)
qed

lemma update_reg_ok:
  fixes v :: string
  assumes ok: "regs_ok regs" and i: "find_reg name regs < length regs"
  defines "regs' \<equiv> regs[find_reg name regs := (regs ! find_reg name regs)\<lparr>gr_value := v\<rparr>]"
  shows "regs_ok regs'" "reg_value regs' n = (if n = name then Some v else reg_value regs n)"
proof -
  let ?i = "find_reg name regs"
  note nm = find_reg_name [OF i]
  have "gr_str ((regs ! ?i)\<lparr>gr_value := v\<rparr>) = List.map gr_str regs ! ?i"
    using i by simp
  then have names: "List.map gr_str regs' = List.map gr_str regs"
    unfolding regs'_def map_update by (simp only: list_update_id)
  have "length (gr_str r) < 32" if "r \<in> set regs'" for r
  proof -
    have "gr_str r \<in> set (List.map gr_str regs')"
      using that by simp
    then obtain r' where "r' \<in> set regs" "gr_str r = gr_str r'"
      unfolding names by auto
    then show ?thesis
      using ok by (simp add: regs_ok_def)
  qed
  then show ok': "regs_ok regs'"
    using ok names by (simp add: regs_ok_def)
  show "reg_value regs' n = (if n = name then Some v else reg_value regs n)"
  proof (cases "n = name")
    case True
    have "(regs ! ?i)\<lparr>gr_value := v\<rparr> \<in> set regs'"
      using i by (simp add: regs'_def set_update_memI)
    then show ?thesis
      unfolding True using reg_value_iff [OF ok', of name v] nm by force
  next
    case False
    have "distinct regs"
      using ok by (simp add: regs_ok_def distinct_map)
    then have "set regs' = insert ((regs ! ?i)\<lparr>gr_value := v\<rparr>) (set regs - {regs ! ?i})"
      using i by (simp add: regs'_def set_update_distinct)
    then have "{r \<in> set regs'. gr_str r = n} = {r \<in> set regs. gr_str r = n}"
      using nm False by auto
    then show ?thesis
      using reg_value_eqI [OF ok' ok] False by simp
  qed
qed

lemma append_reg_ok:
  fixes v :: string
  assumes ok: "regs_ok regs" and i: "\<not> find_reg name regs < length regs" and l: "length name < 32"
  defines "regs' \<equiv> regs @ [\<lparr>gr_str = safestrncpy 32 name, gr_value = v\<rparr>]"
  shows "regs_ok regs'" "reg_value regs' n = (if n = name then Some v else reg_value regs n)"
proof -
  have c: "safestrncpy 32 name = name"
    using l by (simp add: safestrncpy_def)
  have new: "name \<notin> gr_str ` set regs"
    using i by (simp add: find_reg_none)
  then show ok': "regs_ok regs'"
    using ok l by (auto simp: regs_ok_def regs'_def c)
  show "reg_value regs' n = (if n = name then Some v else reg_value regs n)"
  proof (cases "n = name")
    case True
    then show ?thesis
      using reg_value_iff [OF ok', of name v] by (auto simp: regs'_def c)
  next
    case False
    have "{r \<in> set regs'. gr_str r = n} = {r \<in> set regs. gr_str r = n}"
      using False by (auto simp: regs'_def c)
    then show ?thesis
      using reg_value_eqI [OF ok' ok] False by simp
  qed
qed

lemma set_butlast_update:
  assumes "i < length xs" "distinct xs"
  shows "set (butlast (xs[i := last xs])) = set xs - {xs ! i}"
proof -
  obtain ys z where xs: "xs = ys @ [z]"
    using assms(1) by (metis append_butlast_last_id list.size(3) not_less_zero)
  show ?thesis
  proof (cases "i = length ys")
    case True
    then show ?thesis
      using xs assms(2) by (auto simp: list_update_append)
  next
    case False
    then have "i < length ys"
      using xs assms(1) by simp
    moreover from this have "set (ys[i := z]) = insert z (set ys - {ys ! i})"
      using assms(2) xs by (simp add: set_update_distinct)
    ultimately show ?thesis
      using xs assms(2) by (auto simp: list_update_append nth_append butlast_append)
  qed
qed

lemma del_reg_ok:
  assumes ok: "regs_ok regs"
  shows "regs_ok (del_reg name regs)" "reg_value (del_reg name regs) n = (if n = name then None else reg_value regs n)"
proof -
  have d: "distinct regs"
    using ok by (simp add: regs_ok_def distinct_map)
  have s: "set (del_reg name regs) = {r \<in> set regs. gr_str r \<noteq> name}"
  proof (cases "find_reg name regs < length regs")
    case True
    then have "set (del_reg name regs) = set regs - {regs ! find_reg name regs}"
      using set_butlast_update [OF True d] by (simp add: del_reg_def Let_def)
    moreover have "gr_str r = name \<longleftrightarrow> r = regs ! find_reg name regs" if "r \<in> set regs" for r
      using that find_reg_name [OF True] find_reg_at [OF ok] by (metis in_set_conv_nth)
    ultimately show ?thesis
      by auto
  next
    case False
    then show ?thesis
      by (auto simp: del_reg_def Let_def find_reg_in)
  qed
  have "distinct (List.map gr_str (butlast (regs[find_reg name regs := last regs])))" if i: "find_reg name regs < length regs"
  proof -
    have m: "List.map gr_str (butlast (regs[find_reg name regs := last regs])) =
        butlast ((List.map gr_str regs)[find_reg name regs := last (List.map gr_str regs)])"
      using i last_map [of regs gr_str] by (cases "regs = []") (auto simp: map_butlast map_update)
    have "distinct (butlast (xs[k := last xs]))" if "distinct xs" "k < length xs" for xs :: "string list" and k
    proof -
      obtain ys z where xs: "xs = ys @ [z]"
        using \<open>k < length xs\<close> by (metis append_butlast_last_id list.size(3) not_less_zero)
      then show ?thesis
        using that by (cases "k = length ys") (auto simp: list_update_append butlast_append distinct_list_update)
    qed
    then show ?thesis
      unfolding m using ok i by (simp add: regs_ok_def)
  qed
  then have "distinct (List.map gr_str (del_reg name regs))"
    using ok by (simp add: del_reg_def Let_def regs_ok_def)
  then show ok': "regs_ok (del_reg name regs)"
    using ok s by (simp add: regs_ok_def)
  show "reg_value (del_reg name regs) n = (if n = name then None else reg_value regs n)"
  proof (cases "n = name")
    case True
    then have "reg_value (del_reg name regs) n \<noteq> Some v" for v
      using reg_value_iff [OF ok'] s by auto
    then show ?thesis
      using True by (cases "reg_value (del_reg name regs) n") auto
  next
    case False
    then show ?thesis
      using s by (simp, intro reg_value_eqI [OF ok' ok]) auto
  qed
qed

lemma registry_frame [simp]:
  "registry type (mark_dirty t sd) = registry type sd"
  "registry type (set_registry type regs sd) = Some regs"
  "registry type (snd (special_reg reg val t sd)) = registry type sd"
  by (auto simp: registry_def mark_dirty_def set_registry_def special_reg_def Let_def)

lemma readregistry_value: "registry type sd = Some regs \<Longrightarrow>
  fst (pc_readregistry n type sd) = (case reg_value regs n of None \<Rightarrow> 0 | Some v \<Rightarrow> atoi v)"
  by (simp add: pc_readregistry_def reg_value_def Let_def)

lemma show_nat_length: "n < 10 ^ Suc k \<Longrightarrow> length (show_nat n) \<le> Suc k"
proof (induction k arbitrary: n)
  case 0
  then show ?case
    by (subst show_nat.simps) simp
next
  case (Suc k)
  have "n div 10 < 10 ^ Suc k"
    using Suc.prems by (simp add: div_less_iff_less_mult mult.commute)
  then show ?case
    using Suc.IH [of "n div 10"] by (subst show_nat.simps) simp
qed

lemma show_int_fits: "s32 v = v \<Longrightarrow> safestrncpy 256 (show_int v) = show_int v"
proof -
  assume v: "s32 v = v"
  have r: "- 2147483648 \<le> v" "v < 2147483648"
    using s32_range [of v] unfolding v by auto
  have "nat (- v) < 10 ^ Suc 9" "nat v < 10 ^ Suc 9"
    using r by auto
  then have "length (show_int v) \<le> 11"
    using show_nat_length [of "nat (- v)" 9] show_nat_length [of "nat v" 9] by (auto simp: show_int_def)
  then show ?thesis
    by (simp add: safestrncpy_def)
qed

text \<open>The value that is stored: the special variables are capped.\<close>

lemma pc_setregistry_ok:
  assumes sd: "registry type sd = Some regs" and ok: "regs_ok regs" and l: "length name < 32" and v: "s32 v = v"
  defines "w \<equiv> fst (special_reg name v type sd)" and "r \<equiv> pc_setregistry name v type sd"
  shows "\<exists>regs'. registry type (snd r) = Some regs' \<and> regs_ok regs' \<and>
    fst r = (w = 0 \<or> name \<in> gr_str ` set regs \<or> length regs < reg_max type) \<and>
    (\<forall>n. fst (pc_readregistry n type (snd r)) = (if fst r \<and> n = name then w else fst (pc_readregistry n type sd)))"
proof -
  obtain sd1 where s: "special_reg name v type sd = (w, sd1)" "registry type sd1 = Some regs"
    using sd registry_frame(3) [of type name v type sd] by (cases "special_reg name v type sd") (auto simp: w_def)
  have w: "s32 w = w"
    using v s(1) by (auto simp: special_reg_def cap_value_def s32_def Let_def split: if_splits)
  note i = find_reg_in [of name regs]
  note at = atoi_show [OF w] and fits = show_int_fits [OF w]
  consider "w = 0" | "w \<noteq> 0" "find_reg name regs < length regs" | "w \<noteq> 0" "\<not> find_reg name regs < length regs" "length regs < reg_max type"
    | "w \<noteq> 0" "\<not> find_reg name regs < length regs" "\<not> length regs < reg_max type"
    by blast
  then show ?thesis
  proof cases
    case 1
    let ?regs = "del_reg name regs"
    have "registry type (snd r) = Some ?regs \<and> fst r"
      using 1 s by (simp add: r_def pc_setregistry_def Let_def) (simp add: del_reg_def Let_def)
    then show ?thesis
      using 1 del_reg_ok [OF ok, of name] readregistry_value [OF sd] by (auto simp: readregistry_value split: option.splits)
  next
    case 2
    let ?regs = "regs[find_reg name regs := (regs ! find_reg name regs)\<lparr>gr_value := show_int w\<rparr>]"
    have "registry type (snd r) = Some ?regs \<and> fst r"
      using 2 s fits by (simp add: r_def pc_setregistry_def Let_def)
    then show ?thesis
      using 2 i update_reg_ok [OF ok 2(2), of "show_int w"] readregistry_value [OF sd] at by (auto simp: readregistry_value)
  next
    case 3
    let ?regs = "regs @ [\<lparr>gr_str = safestrncpy 32 name, gr_value = show_int w\<rparr>]"
    have "registry type (snd r) = Some ?regs \<and> fst r"
      using 3 s fits by (simp add: r_def pc_setregistry_def Let_def)
    then show ?thesis
      using 3 append_reg_ok [OF ok 3(2) l, of "show_int w"] readregistry_value [OF sd] at by (auto simp: readregistry_value)
  next
    case 4
    have "registry type (snd r) = Some regs \<and> \<not> fst r"
      using 4 s by (simp add: r_def pc_setregistry_def Let_def)
    then show ?thesis
      using 4 i ok readregistry_value [OF sd] by (auto simp: readregistry_value)
  qed
qed

text \<open>A name of 32 characters or more is stored cut off, and never found again.\<close>

lemma long_name_lost:
  assumes sd: "registry type sd = Some regs" and ok: "\<forall>r \<in> set regs. length (gr_str r) < 32" and l: "32 \<le> length name"
    and v: "fst (special_reg name v type sd) \<noteq> 0" and room: "length regs < reg_max type"
  shows "fst (pc_setregistry name v type sd) \<and> fst (pc_readregistry name type (snd (pc_setregistry name v type sd))) = 0 \<and>
    (\<exists>regs'. registry type (snd (pc_setregistry name v type sd)) = Some regs' \<and> length regs' = Suc (length regs) \<and> (\<forall>r \<in> set regs'. length (gr_str r) < 32))"
proof -
  obtain w sd1 where s: "special_reg name v type sd = (w, sd1)" "registry type sd1 = Some regs"
    using sd registry_frame(3) [of type name v type sd] by (cases "special_reg name v type sd") auto
  have absent: "\<not> find_reg name regs < length regs" if "\<forall>r \<in> set regs. length (gr_str r) < 32" for regs
    using that l unfolding find_reg_in by auto
  let ?regs = "regs @ [\<lparr>gr_str = safestrncpy 32 name, gr_value = safestrncpy 256 (show_int w)\<rparr>]"
  have short: "\<forall>r \<in> set ?regs. length (gr_str r) < 32"
    using ok by (auto simp: safestrncpy_def)
  have r: "fst (pc_setregistry name v type sd)" "registry type (snd (pc_setregistry name v type sd)) = Some ?regs"
    using s v room absent [OF ok] by (simp_all add: pc_setregistry_def Let_def)
  have "fst (pc_readregistry name type (snd (pc_setregistry name v type sd))) = 0"
    using readregistry_value [OF r(2), of name] absent [OF short] by (simp add: reg_value_def)
  then show ?thesis
    using r short by simp
qed

text \<open>A read of a registry that is not loaded drops the ones that are.\<close>

lemma unloaded_read_drops:
  assumes "registry type sd = None" "t \<in> {1, 2, 3}"
  shows "registry t (snd (pc_readregistry name type sd)) = None"
  using assms by (auto simp: pc_readregistry_def intif_request_registry_def registry_def Let_def)

end
