(* ===== verification/ScriptVm.thy ===== *)
theory ScriptVm imports ScriptRegs begin

text \<open>
  The execution of scripts (\<^verbatim>\<open>src/map/script.c\<close>): values on the stack, variables, operators and the loop over
  the commands. A list of values is the stack up to \<open>sp\<close>. \<open>None\<close> is an access outside the stack, the code or
  memory in use, or an operation of C with no result.
\<close>

section \<open>Values and states\<close>

text \<open>
  A \<open>DBMap\<close> of variables is named by its owner: a script, a call (\<open>var_function\<close>), an instance or the server.
  A reference to one (\<open>DBMap**\<close>) is the field of a script or a cell that a call has allocated.
\<close>

datatype var_db = Db_script nat | Db_scope nat | Db_instance nat | Db_mapreg

datatype db_ref = Ref_script nat | Ref_cell nat

record script_retinfo =
  ri_scope :: "nat option"
  ri_script :: nat
  ri_pos :: int
  ri_nargs :: nat
  ri_defsp :: nat

datatype sval = S_nop | S_pos int | S_int int | S_str string | S_conststr string | S_arg | S_name int | S_retinfo script_retinfo

record stack_data =
  sk_val :: sval
  sk_ref :: "db_ref option"

datatype var_val = V_int int | V_str string

datatype e_script_state = RUN | STOP | END | RERUNLINE | GOTO | RETFUNC | CLOSE

text \<open>
  \<open>vm_vars\<close> are the variables in maps, \<open>vm_live\<close> the scopes that are allocated, \<open>vm_cells\<close> the cells, \<open>vm_next\<close>
  the next free name of both. \<open>vm_player\<close> is the attached player.
\<close>

record vm =
  vm_stack :: "stack_data list"
  vm_sp_max :: nat
  vm_defsp :: nat
  vm_scope :: nat
  vm_start :: nat
  vm_end :: nat
  vm_pos :: int
  vm_state :: e_script_state
  vm_script :: nat
  vm_freeloop :: bool
  vm_op2ref :: bool
  vm_vars :: "var_db \<Rightarrow> int \<Rightarrow> var_val option"
  vm_live :: "nat \<Rightarrow> bool"
  vm_cells :: "nat \<Rightarrow> var_db option"
  vm_next :: nat
  vm_player :: "player_vars option"
  vm_tab :: str_table

text \<open>
  What the execution is given: the code of the scripts, the functions of \<open>userfunc_db\<close>, the instance of the
  NPC (0 is none), and \<open>pc_readparam\<close> and \<open>pc_setparam\<close> (true is success).
\<close>

record vm_env =
  script_buf :: "nat \<Rightarrow> int list"
  userfunc :: "string \<Rightarrow> nat option"
  instance_id :: nat
  readparam :: "int \<Rightarrow> player_vars \<Rightarrow> int"
  setparam :: "int \<Rightarrow> int \<Rightarrow> player_vars \<Rightarrow> bool \<times> player_vars"

definition data_isint :: "stack_data \<Rightarrow> bool" where
  "data_isint d = (case sk_val d of S_int _ \<Rightarrow> True | _ \<Rightarrow> False)"

definition data_isstring :: "stack_data \<Rightarrow> bool" where
  "data_isstring d = (case sk_val d of S_str _ \<Rightarrow> True | S_conststr _ \<Rightarrow> True | _ \<Rightarrow> False)"

definition data_isreference :: "stack_data \<Rightarrow> bool" where
  "data_isreference d = (case sk_val d of S_name _ \<Rightarrow> True | _ \<Rightarrow> False)"

definition data_islabel :: "stack_data \<Rightarrow> bool" where
  "data_islabel d = (case sk_val d of S_pos _ \<Rightarrow> True | _ \<Rightarrow> False)"

definition str_of :: "stack_data \<Rightarrow> string" where
  "str_of d = (case sk_val d of S_str s \<Rightarrow> s | S_conststr s \<Rightarrow> s | _ \<Rightarrow> [])"

definition int_of :: "stack_data \<Rightarrow> int" where
  "int_of d = (case sk_val d of S_int i \<Rightarrow> i | _ \<Rightarrow> 0)"

section \<open>References\<close>

definition reference_uid :: "int \<Rightarrow> int \<Rightarrow> int" where
  "reference_uid i idx = s32 ((i AND 0xffffff) OR u32 (push_bit 24 idx))"

definition reference_getid :: "int \<Rightarrow> int" where "reference_getid uid = uid AND 0xffffff"

definition reference_getindex :: "int \<Rightarrow> int" where
  "reference_getindex uid = drop_bit 24 (u32 (uid AND 0xff000000))"

definition ref_word :: "int \<Rightarrow> vm \<Rightarrow> str_data option" where
  "ref_word uid st = nth_opt (st_data (vm_tab st)) (nat (reference_getid uid))"

text \<open>The name of a reference; the code reads its first and its last character.\<close>

definition reference_getname :: "int \<Rightarrow> vm \<Rightarrow> string option" where
  "reference_getname uid st = do { w \<leftarrow> ref_word uid st; if sd_str w = [] then None else Some (sd_str w) }"

definition not_server_variable :: "char \<Rightarrow> bool" where
  "not_server_variable c \<longleftrightarrow> c \<noteq> CHR ''$'' \<and> c \<noteq> CHR ''.'' \<and> c \<noteq> CHR 0x27"

definition not_array_variable :: "char \<Rightarrow> bool" where
  "not_array_variable c \<longleftrightarrow> c \<noteq> CHR ''$'' \<and> c \<noteq> CHR ''@'' \<and> c \<noteq> CHR ''.'' \<and> c \<noteq> CHR 0x27"

definition is_string_variable :: "string \<Rightarrow> bool" where "is_string_variable name \<longleftrightarrow> last name = CHR ''$''"

text \<open>The map of a variable of a script, of a call or of an instance.\<close>

definition deref :: "db_ref \<Rightarrow> vm \<Rightarrow> var_db option" where
  "deref r st = (case r of Ref_script k \<Rightarrow> Some (Db_script k) | Ref_cell c \<Rightarrow> vm_cells st c)"

definition script_db :: "string \<Rightarrow> db_ref option \<Rightarrow> vm \<Rightarrow> var_db option" where
  "script_db name ref st = (case ref of Some r \<Rightarrow> deref r st
   | None \<Rightarrow> Some (if ch (tl name) = CHR ''@'' then Db_scope (vm_scope st) else Db_script (vm_script st)))"

definition db_in_use :: "var_db \<Rightarrow> vm \<Rightarrow> bool" where
  "db_in_use db st = (case db of Db_scope k \<Rightarrow> vm_live st k | _ \<Rightarrow> True)"

definition db_read :: "var_db \<Rightarrow> int \<Rightarrow> vm \<Rightarrow> var_val option option" where
  "db_read db uid st = (if db_in_use db st then Some (vm_vars st db uid) else None)"

definition db_write :: "var_db \<Rightarrow> int \<Rightarrow> var_val option \<Rightarrow> vm \<Rightarrow> vm option" where
  "db_write db uid v st = (if db_in_use db st then Some (st\<lparr>vm_vars := (vm_vars st)(db := (vm_vars st db)(uid := v))\<rparr>) else None)"

section \<open>Reading and writing variables\<close>

definition reg_type :: "string \<Rightarrow> int" where
  "reg_type name = (if ch name \<noteq> CHR ''#'' then 3 else if ch (tl name) = CHR ''#'' then 1 else 2)"

text \<open>A permanent variable of the player.\<close>

definition with_player :: "(player_vars \<Rightarrow> 'a \<times> player_vars) \<Rightarrow> 'a \<Rightarrow> vm \<Rightarrow> 'a \<times> vm" where
  "with_player f d st = (case vm_player st of None \<Rightarrow> (d, st)
   | Some sd \<Rightarrow> (let (x, sd) = f sd in (x, st\<lparr>vm_player := Some sd\<rparr>)))"

definition int_value :: "var_val option \<Rightarrow> int option" where
  "int_value v = (case v of None \<Rightarrow> Some 0 | Some (V_int i) \<Rightarrow> Some i | Some (V_str _) \<Rightarrow> None)"

definition str_value :: "var_val option \<Rightarrow> string option option" where
  "str_value v = (case v of None \<Rightarrow> Some None | Some (V_str s) \<Rightarrow> Some (Some s) | Some (V_int _) \<Rightarrow> None)"

definition read_str :: "vm_env \<Rightarrow> int \<Rightarrow> string \<Rightarrow> db_ref option \<Rightarrow> vm \<Rightarrow> (string option \<times> vm) option" where
  "read_str env uid name ref st = (let prefix = hd name in
     if prefix = CHR ''@'' then Some (with_player (\<lambda>sd. (pc_readregstr (pv_regstr sd) uid, sd)) None st)
     else if prefix = CHR ''$'' then do { s \<leftarrow> str_value (vm_vars st Db_mapreg uid); Some (s, st) }
     else if prefix = CHR ''.'' then do {
       db \<leftarrow> script_db name ref st; v \<leftarrow> db_read db uid st; s \<leftarrow> str_value v; Some (s, st) }
     else if prefix = CHR 0x27 then
       (if instance_id env = 0 then Some (None, st) else do { s \<leftarrow> str_value (vm_vars st (Db_instance (instance_id env)) uid); Some (s, st) })
     else Some (with_player (pc_readregistry_str name (reg_type name)) None st))"

definition read_int :: "vm_env \<Rightarrow> int \<Rightarrow> string \<Rightarrow> db_ref option \<Rightarrow> vm \<Rightarrow> (int \<times> vm) option" where
  "read_int env uid name ref st = (let prefix = hd name in
     if prefix = CHR ''@'' then Some (with_player (\<lambda>sd. (pc_readreg (pv_reg sd) uid, sd)) 0 st)
     else if prefix = CHR ''$'' then do { i \<leftarrow> int_value (vm_vars st Db_mapreg uid); Some (i, st) }
     else if prefix = CHR ''.'' then do {
       db \<leftarrow> script_db name ref st; v \<leftarrow> db_read db uid st; i \<leftarrow> int_value v; Some (i, st) }
     else if prefix = CHR 0x27 then
       (if instance_id env = 0 then Some (0, st) else do { i \<leftarrow> int_value (vm_vars st (Db_instance (instance_id env)) uid); Some (i, st) })
     else Some (with_player (pc_readregistry name (reg_type name)) 0 st))"

text \<open>Replaces a reference by its value. Without a player that it needs, the script ends.\<close>

definition get_val :: "vm_env \<Rightarrow> stack_data \<Rightarrow> vm \<Rightarrow> (stack_data \<times> vm) option" where
  "get_val env d st = (case sk_val d of
     S_name uid \<Rightarrow> do {
       w \<leftarrow> ref_word uid st;
       name \<leftarrow> reference_getname uid st;
       if sd_type w \<noteq> C_INT \<and> not_server_variable (hd name) \<and> vm_player st = None then
         Some (d\<lparr>sk_val := if is_string_variable name then S_conststr [] else S_int 0\<rparr>, st\<lparr>vm_state := END\<rparr>)
       else if is_string_variable name then do {
         (s, st) \<leftarrow> read_str env uid name (sk_ref d) st;
         Some (d\<lparr>sk_val := (case s of None \<Rightarrow> S_conststr [] | Some s \<Rightarrow> if s = [] then S_conststr [] else S_str s)\<rparr>, st) }
       else if sd_type w = C_INT then Some (d\<lparr>sk_val := S_int (sd_val w)\<rparr>, st)
       else if sd_type w = C_PARAM then Some (d\<lparr>sk_val := S_int (case vm_player st of None \<Rightarrow> 0 | Some sd \<Rightarrow> readparam env (sd_val w) sd)\<rparr>, st)
       else do {
         (i, st) \<leftarrow> read_int env uid name (sk_ref d) st;
         Some (d\<lparr>sk_val := S_int i\<rparr>, st) } }
   | _ \<Rightarrow> Some (d, st))"

definition set_player :: "(player_vars \<Rightarrow> player_vars) \<Rightarrow> vm \<Rightarrow> vm" where
  "set_player f st = st\<lparr>vm_player := map_option f (vm_player st)\<rparr>"

definition set_reg_str :: "vm_env \<Rightarrow> int \<Rightarrow> string \<Rightarrow> string \<Rightarrow> db_ref option \<Rightarrow> vm \<Rightarrow> vm option" where
  "set_reg_str env uid name s ref st = (let prefix = hd name; v = (if s = [] then None else Some (V_str s)) in
     if prefix = CHR ''@'' then Some (set_player (\<lambda>sd. sd\<lparr>pv_regstr := pc_setregstr (pv_regstr sd) uid s\<rparr>) st)
     else if prefix = CHR ''$'' then db_write Db_mapreg uid v st
     else if prefix = CHR ''.'' then do { db \<leftarrow> script_db name ref st; db_write db uid v st }
     else if prefix = CHR 0x27 then (if instance_id env = 0 then Some st else db_write (Db_instance (instance_id env)) uid v st)
     else Some (set_player (\<lambda>sd. snd (pc_setregistry_str name s (reg_type name) sd)) st))"

definition set_reg_int :: "vm_env \<Rightarrow> int \<Rightarrow> string \<Rightarrow> int \<Rightarrow> db_ref option \<Rightarrow> vm \<Rightarrow> vm option" where
  "set_reg_int env uid name i ref st = (let prefix = hd name; v = (if i = 0 then None else Some (V_int i)) in do {
     w \<leftarrow> ref_word uid st;
     if sd_type w = C_PARAM then
       (let (ok, st) = with_player (setparam env (sd_val w) i) False st in Some (if ok then st else st\<lparr>vm_state := END\<rparr>))
     else if prefix = CHR ''@'' then Some (set_player (\<lambda>sd. sd\<lparr>pv_reg := pc_setreg (pv_reg sd) uid i\<rparr>) st)
     else if prefix = CHR ''$'' then db_write Db_mapreg uid v st
     else if prefix = CHR ''.'' then do { db \<leftarrow> script_db name ref st; db_write db uid v st }
     else if prefix = CHR 0x27 then (if instance_id env = 0 then Some st else db_write (Db_instance (instance_id env)) uid v st)
     else Some (set_player (\<lambda>sd. snd (pc_setregistry name i (reg_type name) sd)) st) })"

definition set_reg :: "vm_env \<Rightarrow> int \<Rightarrow> string \<Rightarrow> var_val \<Rightarrow> db_ref option \<Rightarrow> vm \<Rightarrow> vm option" where
  "set_reg env uid name v ref st = (case v of V_str s \<Rightarrow> set_reg_str env uid name s ref st | V_int i \<Rightarrow> set_reg_int env uid name i ref st)"

section \<open>Conversions\<close>

definition conv_str :: "vm_env \<Rightarrow> stack_data \<Rightarrow> vm \<Rightarrow> (stack_data \<times> vm) option" where
  "conv_str env d st = do {
     (d, st) \<leftarrow> get_val env d st;
     Some (case sk_val d of S_str _ \<Rightarrow> d | S_conststr _ \<Rightarrow> d
       | S_int i \<Rightarrow> d\<lparr>sk_val := S_str (take 49 (show_int i))\<rparr>
       | _ \<Rightarrow> d\<lparr>sk_val := S_conststr []\<rparr>, st) }"

text \<open>A string is read as a decimal number, capped. A label gives its position; nil and the mark of the arguments 0.\<close>

definition conv_num :: "vm_env \<Rightarrow> stack_data \<Rightarrow> vm \<Rightarrow> (int \<times> stack_data \<times> vm) option" where
  "conv_num env d st = do {
     (d, st) \<leftarrow> get_val env d st;
     (case sk_val d of S_int i \<Rightarrow> Some (i, d, st)
      | S_str s \<Rightarrow> (let i = cap_int (strtol10 s) in Some (i, d\<lparr>sk_val := S_int i\<rparr>, st))
      | S_conststr s \<Rightarrow> (let i = cap_int (strtol10 s) in Some (i, d\<lparr>sk_val := S_int i\<rparr>, st))
      | S_pos p \<Rightarrow> Some (p, d, st)
      | S_nop \<Rightarrow> Some (0, d, st) | S_arg \<Rightarrow> Some (0, d, st)
      | S_name _ \<Rightarrow> None | S_retinfo _ \<Rightarrow> None) }"

section \<open>The stack\<close>

definition push_data :: "stack_data \<Rightarrow> vm \<Rightarrow> vm" where
  "push_data d st = st\<lparr>vm_stack := vm_stack st @ [d],
     vm_sp_max := (if length (vm_stack st) \<ge> vm_sp_max st then vm_sp_max st + 64 else vm_sp_max st)\<rparr>"

definition push_val :: "sval \<Rightarrow> vm \<Rightarrow> vm" where
  "push_val v = push_data \<lparr>sk_val = v, sk_ref = None\<rparr>"

definition get_data :: "int \<Rightarrow> vm \<Rightarrow> stack_data option" where
  "get_data i st = (if 0 \<le> i then nth_opt (vm_stack st) (nat i) else None)"

definition set_data :: "int \<Rightarrow> stack_data \<Rightarrow> vm \<Rightarrow> vm" where
  "set_data i d st = st\<lparr>vm_stack := (vm_stack st)[nat i := d]\<rparr>"

definition sp :: "vm \<Rightarrow> int" where "sp st = int (length (vm_stack st))"

text \<open>A copy; strings that are not freed stay so, and a \<open>C_RETINFO\<close> ends the server.\<close>

definition push_copy :: "int \<Rightarrow> vm \<Rightarrow> vm option" where
  "push_copy i st = do {
     d \<leftarrow> get_data i st;
     (case sk_val d of S_retinfo _ \<Rightarrow> None
      | S_str s \<Rightarrow> Some (push_val (S_str s) st)
      | S_conststr s \<Rightarrow> Some (push_val (S_conststr s) st)
      | _ \<Rightarrow> Some (push_data d st)) }"

text \<open>What a value owns is freed: the scope and the cell of a return address.\<close>

definition free_value :: "stack_data \<Rightarrow> vm \<Rightarrow> vm" where
  "free_value d st = (case sk_val d of
     S_retinfo ri \<Rightarrow> st\<lparr>
       vm_live := (case ri_scope ri of None \<Rightarrow> vm_live st | Some k \<Rightarrow> (vm_live st)(k := False)),
       vm_cells := (case sk_ref d of Some (Ref_cell c) \<Rightarrow> (vm_cells st)(c := None) | _ \<Rightarrow> vm_cells st)\<rparr>
   | _ \<Rightarrow> st)"

definition shift_sp :: "nat \<Rightarrow> nat \<Rightarrow> nat \<Rightarrow> nat" where
  "shift_sp s e x = (if x > e then x - (e - s) else if x > s then s else x)"

definition pop_stack :: "int \<Rightarrow> int \<Rightarrow> vm \<Rightarrow> vm" where
  "pop_stack start end st = (let s = nat (max 0 start); e = nat (min end (sp st)) in
     if e \<le> s then st else
       (fold free_value (take (e - s) (drop s (vm_stack st))) st)
         \<lparr>vm_stack := take s (vm_stack st) @ drop e (vm_stack st),
          vm_start := shift_sp s e (vm_start st), vm_end := shift_sp s e (vm_end st), vm_defsp := shift_sp s e (vm_defsp st)\<rparr>)"

definition removetop :: "int \<Rightarrow> int \<Rightarrow> vm \<Rightarrow> vm" where
  "removetop i j st = pop_stack (sp st + i) (sp st + j) st"

section \<open>Operators\<close>

text \<open>Dereferences a value in its place.\<close>

definition get_val_at :: "vm_env \<Rightarrow> int \<Rightarrow> vm \<Rightarrow> (stack_data \<times> vm) option" where
  "get_val_at env i st = do {
     d \<leftarrow> get_data i st;
     (d, st) \<leftarrow> get_val env d st;
     Some (d, set_data i d st) }"

definition op_3 :: "vm_env \<Rightarrow> vm \<Rightarrow> vm option" where
  "op_3 env st = do {
     (d, st) \<leftarrow> get_val_at env (sp st - 3) st;
     if data_isstring d \<or> data_isint d then do {
       st \<leftarrow> push_copy (sp st - (if data_isstring d \<and> str_of d \<noteq> [] \<or> data_isint d \<and> int_of d \<noteq> 0 then 2 else 1)) st;
       Some (removetop (- 4) (- 1) st) }
     else Some (push_val S_nop (removetop (- 3) 0 st)) }"

text \<open>\<open>strcmp\<close>: characters are compared as unsigned bytes.\<close>

fun strcmp :: "string \<Rightarrow> string \<Rightarrow> int" where
  "strcmp [] [] = 0"
| "strcmp [] (d # t) = - 1"
| "strcmp (c # s) [] = 1"
| "strcmp (c # s) (d # t) = (if c = d then strcmp s t else if of_char c < (of_char d :: nat) then - 1 else 1)"

definition op_2str :: "c_op \<Rightarrow> string \<Rightarrow> string \<Rightarrow> vm \<Rightarrow> vm" where
  "op_2str oper s1 s2 st = (let cmp = (\<lambda>b. push_val (S_int (of_bool b)) st) in case oper of
     C_EQ \<Rightarrow> cmp (strcmp s1 s2 = 0) | C_NE \<Rightarrow> cmp (strcmp s1 s2 \<noteq> 0)
   | C_GT \<Rightarrow> cmp (strcmp s1 s2 > 0) | C_GE \<Rightarrow> cmp (strcmp s1 s2 \<ge> 0)
   | C_LT \<Rightarrow> cmp (strcmp s1 s2 < 0) | C_LE \<Rightarrow> cmp (strcmp s1 s2 \<le> 0)
   | C_ADD \<Rightarrow> push_val (S_str (s1 @ s2)) st
   | _ \<Rightarrow> (push_val S_nop st)\<lparr>vm_state := END\<rparr>)"

text \<open>
  The result of an operator on numbers. \<open>None\<close> is an operation that C leaves undefined: a shift by a count
  outside 0 to 31, and the quotient and the remainder of the least number by -1, which trap. \<open>Inl\<close> is an error
  and tells whether it ends the script.
\<close>

definition c_rem :: "int \<Rightarrow> int \<Rightarrow> int" where "c_rem a b = a - c_div a b * b"

definition num_result :: "c_op \<Rightarrow> int \<Rightarrow> int \<Rightarrow> (bool + int) option" where
  "num_result oper i1 i2 = (case oper of
     C_AND \<Rightarrow> Some (Inr (i1 AND i2)) | C_OR \<Rightarrow> Some (Inr (i1 OR i2)) | C_XOR \<Rightarrow> Some (Inr (i1 XOR i2))
   | C_LAND \<Rightarrow> Some (Inr (of_bool (i1 \<noteq> 0 \<and> i2 \<noteq> 0))) | C_LOR \<Rightarrow> Some (Inr (of_bool (i1 \<noteq> 0 \<or> i2 \<noteq> 0)))
   | C_EQ \<Rightarrow> Some (Inr (of_bool (i1 = i2))) | C_NE \<Rightarrow> Some (Inr (of_bool (i1 \<noteq> i2)))
   | C_GT \<Rightarrow> Some (Inr (of_bool (i1 > i2))) | C_GE \<Rightarrow> Some (Inr (of_bool (i1 \<ge> i2)))
   | C_LT \<Rightarrow> Some (Inr (of_bool (i1 < i2))) | C_LE \<Rightarrow> Some (Inr (of_bool (i1 \<le> i2)))
   | C_R_SHIFT \<Rightarrow> (if 0 \<le> i2 \<and> i2 < 32 then Some (Inr (drop_bit (nat i2) i1)) else None)
   | C_L_SHIFT \<Rightarrow> (if 0 \<le> i2 \<and> i2 < 32 then Some (Inr (s32 (push_bit (nat i2) i1))) else None)
   | C_DIV \<Rightarrow> (if i2 = 0 then Some (Inl True) else if i1 = - 2147483648 \<and> i2 = - 1 then None else Some (Inr (c_div i1 i2)))
   | C_MOD \<Rightarrow> (if i2 = 0 then Some (Inl True) else if i1 = - 2147483648 \<and> i2 = - 1 then None else Some (Inr (c_rem i1 i2)))
   | C_ADD \<Rightarrow> Some (Inr (cap_int (i1 + i2))) | C_SUB \<Rightarrow> Some (Inr (cap_int (i1 - i2))) | C_MUL \<Rightarrow> Some (Inr (cap_int (i1 * i2)))
   | _ \<Rightarrow> Some (Inl False))"

definition op_2num :: "c_op \<Rightarrow> int \<Rightarrow> int \<Rightarrow> vm \<Rightarrow> vm option" where
  "op_2num oper i1 i2 st = do {
     r \<leftarrow> num_result oper i1 i2;
     Some (case r of Inr i \<Rightarrow> push_val (S_int i) st
       | Inl stop \<Rightarrow> (let st = push_val S_nop st in if stop then st\<lparr>vm_state := END\<rparr> else st)) }"

text \<open>
  \<open>op_2\<close>; with \<open>C_REF\<close> before it, a reference on the left stays below the result. The string operators write
  that reference through a pointer into the stack, which is stale if the result made the stack grow.
\<close>

definition op_2 :: "vm_env \<Rightarrow> c_op \<Rightarrow> vm \<Rightarrow> vm option" where
  "op_2 env oper st = (let l = sp st - 2; r = sp st - 1 in do {
     left \<leftarrow> get_data l st;
     (let leftref = (if vm_op2ref st \<and> data_isreference left then Some left else None); st = st\<lparr>vm_op2ref := False\<rparr> in do {
       (left, st) \<leftarrow> get_val_at env l st;
       (right, st) \<leftarrow> get_val_at env r st;
       (left, st) \<leftarrow> (if oper = C_ADD \<and> data_isint left \<and> data_isstring right then conv_str env left st else Some (left, st));
       (right, st) \<leftarrow> (if oper = C_ADD \<and> data_isstring left \<and> data_isint right then conv_str env right st else Some (right, st));
       if data_isstring left \<and> data_isstring right then
         (let grown = length (vm_stack st) \<ge> vm_sp_max st; st = op_2str oper (str_of left) (str_of right) st in
          case leftref of None \<Rightarrow> Some (removetop (- 3) (- 1) st)
          | Some d \<Rightarrow> if grown then None else Some (set_data l d (removetop (- 2) (- 1) st)))
       else if data_isint left \<and> data_isint right then
         (case leftref of
            None \<Rightarrow> op_2num oper (int_of left) (int_of right) (removetop (- 2) 0 st)
          | Some d \<Rightarrow> do { st \<leftarrow> op_2num oper (int_of left) (int_of right) (removetop (- 1) 0 st); Some (set_data l d st) })
       else Some ((push_val S_nop (removetop (- 2) 0 st))\<lparr>vm_state := END\<rparr>) }) })"

definition op_1 :: "vm_env \<Rightarrow> c_op \<Rightarrow> vm \<Rightarrow> vm option" where
  "op_1 env oper st = do {
     (d, st) \<leftarrow> get_val_at env (sp st - 1) st;
     if \<not> data_isint d then Some ((push_val S_nop st)\<lparr>vm_state := END\<rparr>)
     else (let i = int_of d; st = removetop (- 1) 0 st in Some (case oper of
       C_NEG \<Rightarrow> push_val (S_int (s32 (- i))) st
     | C_NOT \<Rightarrow> push_val (S_int (NOT i)) st
     | C_LNOT \<Rightarrow> push_val (S_int (of_bool (i = 0))) st
     | _ \<Rightarrow> (push_val S_nop st)\<lparr>vm_state := END\<rparr>)) }"

end
