(* ===== verification/ScriptRun.thy ===== *)
theory ScriptRun imports ScriptVm begin

text \<open>
  The functions that scripts are run by (\<^verbatim>\<open>src/map/script.c\<close>): calls, returns and jumps, assignments and
  arrays, and the loop \<open>run_script_main\<close>. A built-in function reads its arguments from the stack above
  \<open>st->start\<close> and pushes its result.
\<close>

section \<open>Arguments\<close>

definition script_getdata :: "nat \<Rightarrow> vm \<Rightarrow> stack_data option" where
  "script_getdata i st = get_data (int (vm_start st + i)) st"

definition script_hasdata :: "nat \<Rightarrow> vm \<Rightarrow> bool" where
  "script_hasdata i st \<longleftrightarrow> vm_end st > vm_start st + i"

definition script_getnum :: "vm_env \<Rightarrow> nat \<Rightarrow> vm \<Rightarrow> (int \<times> vm) option" where
  "script_getnum env i st = do {
     d \<leftarrow> script_getdata i st;
     (n, d, st) \<leftarrow> conv_num env d st;
     Some (n, set_data (int (vm_start st + i)) d st) }"

definition script_getstr :: "vm_env \<Rightarrow> nat \<Rightarrow> vm \<Rightarrow> (string \<times> vm) option" where
  "script_getstr env i st = do {
     d \<leftarrow> script_getdata i st;
     (d, st) \<leftarrow> conv_str env d st;
     Some (str_of d, set_data (int (vm_start st + i)) d st) }"

definition stop :: "vm \<Rightarrow> vm" where "stop st = st\<lparr>vm_state := END\<rparr>"

section \<open>Jumps, calls and returns\<close>

definition jump_to :: "int \<Rightarrow> vm \<Rightarrow> vm" where "jump_to pos st = st\<lparr>vm_pos := pos, vm_state := GOTO\<rparr>"

definition buildin_goto :: "vm_env \<Rightarrow> vm \<Rightarrow> vm option" where
  "buildin_goto env st = do {
     d \<leftarrow> script_getdata 2 st;
     if \<not> data_islabel d then Some (stop st) else do {
       (pos, st) \<leftarrow> script_getnum env 2 st;
       Some (jump_to pos st) } }"

definition buildin_jump_zero :: "vm_env \<Rightarrow> vm \<Rightarrow> vm option" where
  "buildin_jump_zero env st = do {
     (sel, st) \<leftarrow> script_getnum env 2 st;
     if sel \<noteq> 0 then Some st else do {
       d \<leftarrow> script_getdata 3 st;
       if \<not> data_islabel d then Some (stop st) else do {
         (pos, st) \<leftarrow> script_getnum env 3 st;
         Some (jump_to pos st) } } }"

definition buildin_end :: "vm \<Rightarrow> vm option" where "buildin_end st = Some (stop st)"

definition buildin_freeloop :: "vm_env \<Rightarrow> vm \<Rightarrow> vm option" where
  "buildin_freeloop env st = do {
     st \<leftarrow> (if script_hasdata 2 st then do { (n, st) \<leftarrow> script_getnum env 2 st; Some (st\<lparr>vm_freeloop := n \<noteq> 0\<rparr>) } else Some st);
     Some (push_val (S_int (of_bool (vm_freeloop st))) st) }"

text \<open>
  The copies of the arguments of a call. \<open>db_of\<close> gives the map of a variable that the function is to reach
  through a cell; the first such variable allocates the cell, and all of them share it.
\<close>

fun copy_args :: "(string \<Rightarrow> var_db option) \<Rightarrow> nat list \<Rightarrow> nat option \<Rightarrow> vm \<Rightarrow> (nat option \<times> vm) option" where
  "copy_args db_of [] cell st = Some (cell, st)"
| "copy_args db_of (i # is) cell st = do {
     st \<leftarrow> push_copy (int i) st;
     d \<leftarrow> get_data (sp st - 1) st;
     (case sk_val d of
        S_name uid \<Rightarrow>
          if sk_ref d \<noteq> None then copy_args db_of is cell st else do {
            name \<leftarrow> reference_getname uid st;
            (case db_of name of None \<Rightarrow> copy_args db_of is cell st
             | Some db \<Rightarrow>
                 (let (c, st) = (case cell of Some c \<Rightarrow> (c, st)
                    | None \<Rightarrow> (vm_next st, st\<lparr>vm_cells := (vm_cells st)(vm_next st := Some db), vm_next := vm_next st + 1\<rparr>)) in
                  copy_args db_of is (Some c) (set_data (sp st - 1) (d\<lparr>sk_ref := Some (Ref_cell c)\<rparr>) st))) }
      | _ \<Rightarrow> copy_args db_of is cell st) }"

text \<open>The return address is pushed and the function has a scope of its own.\<close>

definition enter_call :: "(string \<Rightarrow> var_db option) \<Rightarrow> nat \<Rightarrow> int \<Rightarrow> vm \<Rightarrow> vm option" where
  "enter_call db_of script pos st = (let is = [vm_start st + 3 ..< vm_end st] in do {
     (cell, st) \<leftarrow> copy_args db_of is None st;
     st \<leftarrow> Some (push_data \<lparr>sk_val = S_retinfo \<lparr>ri_scope = Some (vm_scope st), ri_script = vm_script st, ri_pos = vm_pos st,
         ri_nargs = length is, ri_defsp = vm_defsp st\<rparr>, sk_ref = map_option Ref_cell cell\<rparr> st);
     Some (st\<lparr>vm_pos := pos, vm_script := script, vm_defsp := length (vm_stack st), vm_state := GOTO,
       vm_scope := vm_next st, vm_live := (vm_live st)(vm_next st := True),
       vm_vars := (vm_vars st)(Db_scope (vm_next st) := Map.empty), vm_next := vm_next st + 1\<rparr>) })"

definition buildin_callsub :: "vm_env \<Rightarrow> vm \<Rightarrow> vm option" where
  "buildin_callsub env st = do {
     (pos, st) \<leftarrow> script_getnum env 2 st;
     d \<leftarrow> script_getdata 2 st;
     if \<not> data_islabel d then Some (stop st)
     else enter_call (\<lambda>name. if ch name = CHR ''.'' \<and> ch (tl name) = CHR ''@'' then Some (Db_scope (vm_scope st)) else None)
       (vm_script st) pos st }"

definition buildin_callfunc :: "vm_env \<Rightarrow> vm \<Rightarrow> vm option" where
  "buildin_callfunc env st = do {
     (name, st) \<leftarrow> script_getstr env 2 st;
     (case userfunc env name of None \<Rightarrow> Some (stop st)
      | Some script \<Rightarrow>
          enter_call (\<lambda>name. if ch name = CHR ''.'' then
              Some (if ch (tl name) = CHR ''@'' then Db_scope (vm_scope st) else Db_script (vm_script st)) else None)
            script 0 st) }"

text \<open>The return address of the running function is below its part of the stack.\<close>

definition call_info :: "vm \<Rightarrow> script_retinfo option" where
  "call_info st = (if vm_defsp st < 1 then None else
     case nth_opt (vm_stack st) (vm_defsp st - 1) of None \<Rightarrow> None
     | Some d \<Rightarrow> (case sk_val d of S_retinfo ri \<Rightarrow> Some ri | _ \<Rightarrow> None))"

definition buildin_getarg :: "vm_env \<Rightarrow> vm \<Rightarrow> vm option" where
  "buildin_getarg env st = (case call_info st of None \<Rightarrow> Some (stop st)
   | Some ri \<Rightarrow> do {
       (idx, st) \<leftarrow> script_getnum env 2 st;
       if 0 \<le> idx \<and> idx < int (ri_nargs ri) then push_copy (int (vm_defsp st) - 1 - int (ri_nargs ri) + idx) st
       else if script_hasdata 3 st then push_copy (int (vm_start st + 3)) st
       else Some (stop st) })"

definition buildin_return :: "vm_env \<Rightarrow> vm \<Rightarrow> vm option" where
  "buildin_return env st = do {
     st \<leftarrow> (if script_hasdata 2 st then do {
         st \<leftarrow> push_copy (int (vm_start st + 2)) st;
         d \<leftarrow> get_data (sp st - 1) st;
         (case sk_val d of
            S_name uid \<Rightarrow> do {
              name \<leftarrow> reference_getname uid st;
              if ch name = CHR ''.'' \<and> ch (tl name) = CHR ''@'' then
                (if sk_ref d = None then do { (d, st) \<leftarrow> get_val_at env (sp st - 1) st; Some st } else Some st)
              else if ch name = CHR ''.'' \<and> sk_ref d = None then
                Some (set_data (sp st - 1) (d\<lparr>sk_ref := Some (Ref_script (vm_script st))\<rparr>) st)
              else Some st }
          | _ \<Rightarrow> Some st) }
       else Some (push_val S_nop st));
     Some (st\<lparr>vm_state := RETFUNC\<rparr>) }"

section \<open>Assignments\<close>

text \<open>The value of an argument in the type of a variable.\<close>

definition arg_value :: "vm_env \<Rightarrow> string \<Rightarrow> nat \<Rightarrow> vm \<Rightarrow> (var_val \<times> vm) option" where
  "arg_value env name i st =
     (if is_string_variable name then do { (s, st) \<leftarrow> script_getstr env i st; Some (V_str s, st) }
      else do { (n, st) \<leftarrow> script_getnum env i st; Some (V_int n, st) })"

text \<open>\<open>None\<close> also for the third argument, which names another player.\<close>

definition buildin_set :: "vm_env \<Rightarrow> vm \<Rightarrow> vm option" where
  "buildin_set env st = do {
     d \<leftarrow> script_getdata 2 st;
     (case sk_val d of
        S_name uid \<Rightarrow> do {
          name \<leftarrow> reference_getname uid st;
          if not_server_variable (hd name) \<and> script_hasdata 4 st then None
          else if not_server_variable (hd name) \<and> vm_player st = None then Some (stop st)
          else do {
            (v, st) \<leftarrow> arg_value env name 3 st;
            st \<leftarrow> set_reg env uid name v (sk_ref d) st;
            push_copy (int (vm_start st + 2)) st } }
      | _ \<Rightarrow> Some (stop st)) }"

section \<open>Arrays\<close>

definition SCRIPT_MAX_ARRAYSIZE :: int where "SCRIPT_MAX_ARRAYSIZE = 128"

definition buildin_getelementofarray :: "vm_env \<Rightarrow> vm \<Rightarrow> vm option" where
  "buildin_getelementofarray env st = do {
     d \<leftarrow> script_getdata 2 st;
     (case sk_val d of
        S_name uid \<Rightarrow> do {
          name \<leftarrow> reference_getname uid st;
          if not_array_variable (hd name) then Some (stop (push_val S_nop st)) else do {
            (i, st) \<leftarrow> script_getnum env 3 st;
            if i < 0 \<or> i \<ge> SCRIPT_MAX_ARRAYSIZE then Some (stop (push_val S_nop st))
            else Some (push_data \<lparr>sk_val = S_name (reference_uid (reference_getid uid) i), sk_ref = sk_ref d\<rparr> st) } }
      | _ \<Rightarrow> Some (stop (push_val S_nop st))) }"

text \<open>The array of an argument: its aid and first index, name and map; \<open>None\<close> inside ends the function.\<close>

definition array_arg :: "nat \<Rightarrow> vm \<Rightarrow> (int \<times> int \<times> string \<times> db_ref option) option option" where
  "array_arg i st = do {
     d \<leftarrow> script_getdata i st;
     (case sk_val d of
        S_name uid \<Rightarrow> do {
          name \<leftarrow> reference_getname uid st;
          Some (if not_array_variable (hd name) then None
            else Some (reference_getid uid, reference_getindex uid, name, sk_ref d)) }
      | _ \<Rightarrow> Some None) }"

fun set_elements :: "vm_env \<Rightarrow> int \<Rightarrow> int \<Rightarrow> string \<Rightarrow> db_ref option \<Rightarrow> nat list \<Rightarrow> vm \<Rightarrow> vm option" where
  "set_elements env aid idx name ref [] st = Some st"
| "set_elements env aid idx name ref (i # is) st = do {
     (v, st) \<leftarrow> arg_value env name i st;
     st \<leftarrow> set_reg env (reference_uid aid idx) name v ref st;
     set_elements env aid (idx + 1) name ref is st }"

definition no_player :: "string \<Rightarrow> vm \<Rightarrow> bool" where
  "no_player name st \<longleftrightarrow> not_server_variable (hd name) \<and> vm_player st = None"

text \<open>The arguments from 3 on, as many as fit in the array.\<close>

definition buildin_setarray :: "vm_env \<Rightarrow> vm \<Rightarrow> vm option" where
  "buildin_setarray env st = do {
     a \<leftarrow> array_arg 2 st;
     (case a of None \<Rightarrow> Some (stop st)
      | Some (aid, start, name, ref) \<Rightarrow>
          if no_player name st then Some (stop st) else
          (let end = min SCRIPT_MAX_ARRAYSIZE (start + (int (vm_end st) - int (vm_start st) - 1) - 2) in
           set_elements env aid start name ref [3 ..< 3 + nat (end - start)] st)) }"

fun fill_elements :: "vm_env \<Rightarrow> int \<Rightarrow> int list \<Rightarrow> string \<Rightarrow> var_val \<Rightarrow> db_ref option \<Rightarrow> vm \<Rightarrow> vm option" where
  "fill_elements env aid [] name v ref st = Some st"
| "fill_elements env aid (idx # is) name v ref st = do {
     st \<leftarrow> set_reg env (reference_uid aid idx) name v ref st;
     fill_elements env aid is name v ref st }"

definition buildin_cleararray :: "vm_env \<Rightarrow> vm \<Rightarrow> vm option" where
  "buildin_cleararray env st = do {
     a \<leftarrow> array_arg 2 st;
     (case a of None \<Rightarrow> Some (stop st)
      | Some (aid, start, name, ref) \<Rightarrow>
          if no_player name st then Some (stop st) else do {
            (v, st) \<leftarrow> arg_value env name 3 st;
            (cnt, st) \<leftarrow> script_getnum env 4 st;
            fill_elements env aid [start .. min SCRIPT_MAX_ARRAYSIZE (s32 (start + cnt)) - 1] name v ref st }) }"

text \<open>\<open>get_val2\<close>: the value of an element, pushed and taken off again; \<open>grown\<close> tells whether the stack grew.\<close>

definition get_val2 :: "vm_env \<Rightarrow> int \<Rightarrow> db_ref option \<Rightarrow> vm \<Rightarrow> (stack_data \<times> bool \<times> vm) option" where
  "get_val2 env uid ref st = (let grown = length (vm_stack st) \<ge> vm_sp_max st in do {
     (d, st) \<leftarrow> get_val_at env (sp st) (push_data \<lparr>sk_val = S_name uid, sk_ref = ref\<rparr> st);
     Some (d, grown, removetop (- 1) 0 st) })"

fun last_set :: "vm_env \<Rightarrow> int \<Rightarrow> int list \<Rightarrow> db_ref option \<Rightarrow> int \<Rightarrow> vm \<Rightarrow> (int \<times> vm) option" where
  "last_set env aid [] ref ret st = Some (ret, st)"
| "last_set env aid (idx # is) ref ret st = do {
     (d, grown, st) \<leftarrow> get_val2 env (reference_uid aid idx) ref st;
     last_set env aid is ref (if str_of d \<noteq> [] \<or> int_of d \<noteq> 0 then idx + 1 else ret) st }"

definition getarraysize :: "vm_env \<Rightarrow> int \<Rightarrow> int \<Rightarrow> db_ref option \<Rightarrow> vm \<Rightarrow> (int \<times> vm) option" where
  "getarraysize env aid idx ref st = last_set env aid [idx .. SCRIPT_MAX_ARRAYSIZE - 1] ref idx st"

definition buildin_getarraysize :: "vm_env \<Rightarrow> vm \<Rightarrow> vm option" where
  "buildin_getarraysize env st = do {
     a \<leftarrow> array_arg 2 st;
     (case a of None \<Rightarrow> Some (stop (push_val S_nop st))
      | Some (aid, idx, name, ref) \<Rightarrow> do {
          (n, st) \<leftarrow> getarraysize env aid idx ref st;
          Some (push_val (S_int n) st) }) }"

definition val_of :: "stack_data \<Rightarrow> var_val" where
  "val_of d = (if data_isint d then V_int (int_of d) else V_str (str_of d))"

text \<open>
  One array into another, element by element. The map of the destination is read through a pointer into the
  stack, which is stale once the stack has grown.
\<close>

fun copy_elements :: "vm_env \<Rightarrow> int \<Rightarrow> int \<Rightarrow> int \<Rightarrow> int \<Rightarrow> string \<Rightarrow> db_ref option \<Rightarrow> db_ref option \<Rightarrow> int list \<Rightarrow> vm \<Rightarrow> vm option" where
  "copy_elements env id1 idx1 id2 idx2 name1 ref1 ref2 [] st = Some st"
| "copy_elements env id1 idx1 id2 idx2 name1 ref1 ref2 (i # is) st = do {
     st \<leftarrow> (if idx2 + i < SCRIPT_MAX_ARRAYSIZE then do {
         (d, grown, st) \<leftarrow> get_val2 env (reference_uid id2 (idx2 + i)) ref2 st;
         if grown then None else set_reg env (reference_uid id1 (idx1 + i)) name1 (val_of d) ref1 st }
       else set_reg env (reference_uid id1 (idx1 + i)) name1 (if is_string_variable name1 then V_str [] else V_int 0) ref1 st);
     copy_elements env id1 idx1 id2 idx2 name1 ref1 ref2 is st }"

definition buildin_copyarray :: "vm_env \<Rightarrow> vm \<Rightarrow> vm option" where
  "buildin_copyarray env st = do {
     a1 \<leftarrow> array_arg 2 st; a2 \<leftarrow> array_arg 3 st;
     (case (a1, a2) of
        (Some (id1, idx1, name1, ref1), Some (id2, idx2, name2, ref2)) \<Rightarrow>
          if is_string_variable name1 \<noteq> is_string_variable name2 then Some (stop st)
          else if no_player name1 st \<or> no_player name2 st then Some (stop st)
          else do {
            (cnt, st) \<leftarrow> script_getnum env 4 st;
            (let cnt = min cnt (SCRIPT_MAX_ARRAYSIZE - idx1) in
             if cnt \<le> 0 \<or> id1 = id2 \<and> idx1 = idx2 then Some st
             else copy_elements env id1 idx1 id2 idx2 name1 ref1 ref2
               (if id1 = id2 \<and> idx1 > idx2 then rev [0 .. cnt - 1] else [0 .. cnt - 1]) st) }
      | _ \<Rightarrow> Some (stop st)) }"

fun move_elements :: "vm_env \<Rightarrow> int \<Rightarrow> int \<Rightarrow> string \<Rightarrow> db_ref option \<Rightarrow> int list \<Rightarrow> vm \<Rightarrow> vm option" where
  "move_elements env aid cnt name ref [] st = Some st"
| "move_elements env aid cnt name ref (idx # is) st = do {
     (d, grown, st) \<leftarrow> get_val2 env (reference_uid aid (idx + cnt)) ref st;
     if grown then None else do {
       st \<leftarrow> set_reg env (reference_uid aid idx) name (val_of d) ref st;
       move_elements env aid cnt name ref is st } }"

definition buildin_deletearray :: "vm_env \<Rightarrow> vm \<Rightarrow> vm option" where
  "buildin_deletearray env st = do {
     a \<leftarrow> array_arg 2 st;
     (case a of None \<Rightarrow> Some (stop st)
      | Some (aid, start, name, ref) \<Rightarrow>
          (let end = SCRIPT_MAX_ARRAYSIZE; zero = (if is_string_variable name then V_str [] else V_int 0) in
           if no_player name st then Some (stop st)
           else if start \<ge> end then Some st
           else if script_hasdata 3 st then do {
             (cnt, st) \<leftarrow> script_getnum env 3 st;
             (let cnt = min cnt (end - start) in
              if cnt \<le> 0 then Some st else do {
                st \<leftarrow> move_elements env aid cnt name ref [start .. end - cnt - 1] st;
                fill_elements env aid [end - cnt .. end - 1] name zero ref st }) }
           else fill_elements env aid [start .. end - 1] name zero ref st)) }"

section \<open>The loop\<close>

type_synonym buildins = "int \<Rightarrow> (vm \<Rightarrow> vm option) option"

text \<open>The mark of the arguments that is nearest to the top, or 0.\<close>

fun find_arg :: "nat \<Rightarrow> stack_data list \<Rightarrow> nat" where
  "find_arg 0 xs = 0"
| "find_arg (Suc i) xs = (if Suc i < length xs \<and> sk_val (xs ! Suc i) = S_arg then Suc i else find_arg i xs)"

text \<open>The end of a user function.\<close>

definition return_from_call :: "vm \<Rightarrow> vm" where
  "return_from_call st = (let olddefsp = vm_defsp st; st = pop_stack (int (vm_defsp st)) (int (vm_start st)) st in
     case call_info st of None \<Rightarrow> stop st
     | Some ri \<Rightarrow>
         (let st = st\<lparr>vm_live := (vm_live st)(vm_scope st := False), vm_pos := ri_pos ri, vm_script := ri_script ri,
              vm_scope := (case ri_scope ri of None \<Rightarrow> vm_scope st | Some k \<Rightarrow> k),
              vm_stack := (vm_stack st)[vm_defsp st - 1 := (vm_stack st ! (vm_defsp st - 1))\<lparr>sk_val := S_retinfo (ri\<lparr>ri_scope := None\<rparr>)\<rparr>],
              vm_defsp := ri_defsp ri\<rparr> in
          (pop_stack (int olddefsp - int (ri_nargs ri) - 1) (int olddefsp) st)\<lparr>vm_state := GOTO\<rparr>))"

definition run_func :: "buildins \<Rightarrow> vm \<Rightarrow> vm option" where
  "run_func fn st = (let end_sp = length (vm_stack st); i = find_arg (end_sp - 1) (vm_stack st) in
     if end_sp = 0 then None else if i = 0 then Some (stop st) else
     (let st = st\<lparr>vm_start := i - 1, vm_end := end_sp\<rparr> in
      case sk_val (vm_stack st ! (i - 1)) of
        S_name func \<Rightarrow> do {
          w \<leftarrow> (if 0 \<le> func then nth_opt (st_data (vm_tab st)) (nat func) else None);
          if sd_type w \<noteq> C_FUNC then Some (stop st) else do {
            st \<leftarrow> (case fn (sd_val w) of None \<Rightarrow> Some (stop st) | Some f \<Rightarrow> f st);
            if vm_state st = RERUNLINE then Some st else
            (let st = pop_stack (int (vm_start st)) (int (vm_end st)) st in
             Some (if vm_state st = RETFUNC then return_from_call st else st)) } }
      | _ \<Rightarrow> Some (stop st)))"

text \<open>A string of the code, up to its NUL, and what follows.\<close>

fun code_string :: "int list \<Rightarrow> (string \<times> nat) option" where
  "code_string [] = None"
| "code_string (b # bs) = (if b = 0 then Some ([], 1) else do { (s, n) \<leftarrow> code_string bs; Some (char_of (nat b) # s, n + 1) })"

text \<open>One command. The counters go down unless the loop is free; at 0 the script ends.\<close>

definition count_down :: "int \<Rightarrow> vm \<Rightarrow> int \<times> vm" where
  "count_down n st = (if \<not> vm_freeloop st \<and> n > 0 then (n - 1, if n - 1 \<le> 0 then stop st else st) else (n, st))"

definition exec_func :: "buildins \<Rightarrow> int \<Rightarrow> vm \<Rightarrow> (int \<times> vm) option" where
  "exec_func fn gotocount st = do {
     st \<leftarrow> run_func fn st;
     Some (if vm_state st = GOTO then count_down gotocount (st\<lparr>vm_state := RUN\<rparr>) else (gotocount, st)) }"

definition exec_com :: "vm_env \<Rightarrow> buildins \<Rightarrow> c_op option \<Rightarrow> int \<Rightarrow> vm \<Rightarrow> (int \<times> vm) option" where
  "exec_com env fn c gotocount st = (let code = script_buf env (vm_script st); pos = nat (vm_pos st); ok = (\<lambda>st. Some (gotocount, st)) in
     case c of None \<Rightarrow> ok (stop st)
     | Some c \<Rightarrow>
       if c = C_EOL then ok (if vm_defsp st > length (vm_stack st) then st else pop_stack (int (vm_defsp st)) (sp st) st)
       else if c = C_INT then do { (n, p) \<leftarrow> get_num code pos; ok (push_val (S_int (s32 n)) (st\<lparr>vm_pos := int p\<rparr>)) }
       else if c = C_POS then do { n \<leftarrow> GETVALUE code pos; ok (push_val (S_pos n) (st\<lparr>vm_pos := vm_pos st + 3\<rparr>)) }
       else if c = C_NAME then do { n \<leftarrow> GETVALUE code pos; ok (push_val (S_name n) (st\<lparr>vm_pos := vm_pos st + 3\<rparr>)) }
       else if c = C_ARG then ok (push_val S_arg st)
       else if c = C_STR then do { (s, n) \<leftarrow> code_string (drop pos code); ok (push_val (S_conststr s) (st\<lparr>vm_pos := vm_pos st + int n\<rparr>)) }
       else if c = C_FUNC then exec_func fn gotocount st
       else if c = C_REF then ok (st\<lparr>vm_op2ref := True\<rparr>)
       else if c \<in> {C_NEG, C_NOT, C_LNOT} then do { st \<leftarrow> op_1 env c st; ok st }
       else if c \<in> {C_ADD, C_SUB, C_MUL, C_DIV, C_MOD, C_EQ, C_NE, C_GT, C_GE, C_LT, C_LE, C_AND, C_OR, C_XOR, C_LAND, C_LOR, C_R_SHIFT, C_L_SHIFT}
         then do { st \<leftarrow> op_2 env c st; ok st }
       else if c = C_OP3 then do { st \<leftarrow> op_3 env st; ok st }
       else ok (stop st))"

text \<open>One round of the loop: the counters and the state.\<close>

definition vm_step :: "vm_env \<Rightarrow> buildins \<Rightarrow> int \<times> int \<times> vm \<Rightarrow> (int \<times> int \<times> vm) option" where
  "vm_step env fn = (\<lambda>(cmdcount, gotocount, st). if vm_pos st < 0 then None else do {
     (c, pos) \<leftarrow> get_com (script_buf env (vm_script st)) (nat (vm_pos st));
     (gotocount, st) \<leftarrow> exec_com env fn (op_of c) gotocount (st\<lparr>vm_pos := int pos\<rparr>);
     (let (cmdcount, st) = count_down cmdcount st in Some (cmdcount, gotocount, st)) })"

text \<open>The loop; the outer \<open>None\<close> is a loop that does not end.\<close>

partial_function (option) run_loop :: "vm_env \<Rightarrow> buildins \<Rightarrow> int \<times> int \<times> vm \<Rightarrow> (int \<times> int \<times> vm) option option" where
  [code]: "run_loop env fn s = (if vm_state (snd (snd s)) \<noteq> RUN then Some (Some s) else
     case vm_step env fn s of None \<Rightarrow> Some None | Some s \<Rightarrow> run_loop env fn s)"

text \<open>\<open>run_script_main\<close> up to the end of its loop; \<open>cmdcount\<close> and \<open>gotocount\<close> are \<open>check_cmdcount\<close> and \<open>check_gotocount\<close>.\<close>

definition run_script_main :: "vm_env \<Rightarrow> buildins \<Rightarrow> int \<Rightarrow> int \<Rightarrow> vm \<Rightarrow> vm option option" where
  "run_script_main env fn cmdcount gotocount st = (
     if vm_state st = RERUNLINE then
       (case run_func fn st of None \<Rightarrow> Some None
        | Some st \<Rightarrow> map_option (map_option (\<lambda>(_, _, st). st)) (run_loop env fn (cmdcount, gotocount, if vm_state st = GOTO then st\<lparr>vm_state := RUN\<rparr> else st)))
     else map_option (map_option (\<lambda>(_, _, st). st)) (run_loop env fn (cmdcount, gotocount, if vm_state st \<noteq> END then st\<lparr>vm_state := RUN\<rparr> else st)))"

text \<open>\<open>script_alloc_state\<close>.\<close>

definition script_alloc_state :: "nat \<Rightarrow> int \<Rightarrow> vm \<Rightarrow> vm" where
  "script_alloc_state script pos st = st\<lparr>vm_stack := [], vm_sp_max := 64, vm_defsp := 0, vm_start := 0, vm_end := 0, vm_pos := pos,
     vm_state := RUN, vm_script := script, vm_freeloop := False, vm_op2ref := False,
     vm_scope := vm_next st, vm_live := (vm_live st)(vm_next st := True), vm_vars := (vm_vars st)(Db_scope (vm_next st) := Map.empty),
     vm_next := vm_next st + 1\<rparr>"

definition run_script :: "vm_env \<Rightarrow> buildins \<Rightarrow> int \<Rightarrow> int \<Rightarrow> nat \<Rightarrow> int \<Rightarrow> vm \<Rightarrow> vm option option" where
  "run_script env fn cmdcount gotocount script pos st =
     (if pos < 0 then Some (Some st) else run_script_main env fn cmdcount gotocount (script_alloc_state script pos st))"

end
