(* ===== verification/ScriptFuncs.thy ===== *)
theory ScriptFuncs imports ScriptRun begin

text \<open>
  The functions of scripts on strings (\<^verbatim>\<open>src/map/script.c\<close>), and the part of the table \<open>buildin_func\<close> that is
  modelled, with \<open>add_buildin_func\<close>, which enters it into the words.
\<close>

section \<open>Strings\<close>

text \<open>A buffer as a C string: what is before the first NUL.\<close>

definition cstr :: "string \<Rightarrow> string" where "cstr = takeWhile (\<lambda>c. c \<noteq> CHR 0x00)"

definition toupper :: "char \<Rightarrow> char" where
  "toupper c = (if between_ch CHR ''a'' CHR ''z'' c then char_of (of_char c - 32 :: nat) else c)"

definition buildin_getstrlen :: "vm_env \<Rightarrow> vm \<Rightarrow> vm option" where
  "buildin_getstrlen env st = do {
     (s, st) \<leftarrow> script_getstr env 2 st;
     Some (push_val (S_int (int (length s))) st) }"

definition str_index :: "string \<Rightarrow> int \<Rightarrow> char option" where
  "str_index s pos = (if 0 \<le> pos \<and> pos < int (length s) then Some (s ! nat pos) else None)"

definition buildin_charisalpha :: "vm_env \<Rightarrow> vm \<Rightarrow> vm option" where
  "buildin_charisalpha env st = do {
     (s, st) \<leftarrow> script_getstr env 2 st;
     (pos, st) \<leftarrow> script_getnum env 3 st;
     Some (push_val (S_int (case str_index s pos of None \<Rightarrow> 0 | Some c \<Rightarrow> of_bool (isalpha c))) st) }"

definition buildin_charat :: "vm_env \<Rightarrow> vm \<Rightarrow> vm option" where
  "buildin_charat env st = do {
     (s, st) \<leftarrow> script_getstr env 2 st;
     (pos, st) \<leftarrow> script_getnum env 3 st;
     Some (push_val (case str_index s pos of None \<Rightarrow> S_conststr [] | Some c \<Rightarrow> S_str [c]) st) }"

definition buildin_setchar :: "vm_env \<Rightarrow> vm \<Rightarrow> vm option" where
  "buildin_setchar env st = do {
     (s, st) \<leftarrow> script_getstr env 2 st;
     (c, st) \<leftarrow> script_getstr env 3 st;
     (index, st) \<leftarrow> script_getnum env 4 st;
     Some (push_val (S_str (cstr (if 0 \<le> index \<and> index < int (length s) then s[nat index := ch c] else s))) st) }"

definition buildin_insertchar :: "vm_env \<Rightarrow> vm \<Rightarrow> vm option" where
  "buildin_insertchar env st = do {
     (s, st) \<leftarrow> script_getstr env 2 st;
     (c, st) \<leftarrow> script_getstr env 3 st;
     (index, st) \<leftarrow> script_getnum env 4 st;
     (let k = nat (max 0 (min (int (length s)) index)) in
      Some (push_val (S_str (cstr (take k s @ ch c # drop k s))) st)) }"

text \<open>With an index just behind the string nothing ends the copy: the string is read on past its memory.\<close>

definition buildin_delchar :: "vm_env \<Rightarrow> vm \<Rightarrow> vm option" where
  "buildin_delchar env st = do {
     (s, st) \<leftarrow> script_getstr env 2 st;
     (index, st) \<leftarrow> script_getnum env 3 st;
     if index < 0 \<or> index > int (length s) then Some (push_val (S_str s) st)
     else if index = int (length s) then None
     else Some (push_val (S_str (take (nat index) s @ drop (nat index + 1) s)) st) }"

definition buildin_strtoupper :: "vm_env \<Rightarrow> vm \<Rightarrow> vm option" where
  "buildin_strtoupper env st = do {
     (s, st) \<leftarrow> script_getstr env 2 st;
     Some (push_val (S_str (List.map toupper s)) st) }"

definition buildin_strtolower :: "vm_env \<Rightarrow> vm \<Rightarrow> vm option" where
  "buildin_strtolower env st = do {
     (s, st) \<leftarrow> script_getstr env 2 st;
     Some (push_val (S_str (List.map tolower s)) st) }"

definition buildin_substr :: "vm_env \<Rightarrow> vm \<Rightarrow> vm option" where
  "buildin_substr env st = do {
     (s, st) \<leftarrow> script_getstr env 2 st;
     (start, st) \<leftarrow> script_getnum env 3 st;
     (end, st) \<leftarrow> script_getnum env 4 st;
     Some (push_val (S_str (if 0 \<le> start \<and> 0 \<le> end \<and> end < int (length s) \<and> start \<le> end
       then take (nat (end - start + 1)) (drop (nat start) s) else [])) st) }"

text \<open>The first place from \<open>i\<close> on where the string goes on with the other one.\<close>

definition find_str :: "string \<Rightarrow> string \<Rightarrow> nat \<Rightarrow> int" where
  "find_str s t i = (case find (\<lambda>i. take (length t) (drop i s) = t) [i ..< length s] of None \<Rightarrow> - 1 | Some i \<Rightarrow> int i)"

definition buildin_strpos :: "vm_env \<Rightarrow> vm \<Rightarrow> vm option" where
  "buildin_strpos env st = do {
     (s, st) \<leftarrow> script_getstr env 2 st;
     (t, st) \<leftarrow> script_getstr env 3 st;
     (i, st) \<leftarrow> (if script_hasdata 4 st then script_getnum env 4 st else Some (0, st));
     Some (push_val (S_int (if t = [] \<or> i < 0 then - 1 else find_str s t (nat i))) st) }"

definition buildin_strcmp :: "vm_env \<Rightarrow> vm \<Rightarrow> vm option" where
  "buildin_strcmp env st = do {
     (s, st) \<leftarrow> script_getstr env 2 st;
     (t, st) \<leftarrow> script_getstr env 3 st;
     Some (push_val (S_int (strcmp s t)) st) }"

text \<open>\<open>explode\<close>: the last element of the array takes the rest of the string. \<open>word\<close> is what \<open>temp\<close> holds.\<close>

fun explode_loop :: "vm_env \<Rightarrow> int \<Rightarrow> string \<Rightarrow> db_ref option \<Rightarrow> char \<Rightarrow> int \<Rightarrow> string \<Rightarrow> string \<Rightarrow> vm \<Rightarrow> vm option" where
  "explode_loop env aid name ref delim idx word [] st = set_reg env (reference_uid aid idx) name (V_str word) ref st"
| "explode_loop env aid name ref delim idx word (c # s) st =
    (if c = delim \<and> idx < SCRIPT_MAX_ARRAYSIZE - 1 then do {
       st \<leftarrow> set_reg env (reference_uid aid idx) name (V_str word) ref st;
       explode_loop env aid name ref delim (idx + 1) [] s st }
     else explode_loop env aid name ref delim idx (word @ [c]) s st)"

definition buildin_explode :: "vm_env \<Rightarrow> vm \<Rightarrow> vm option" where
  "buildin_explode env st = do {
     (s, st) \<leftarrow> script_getstr env 3 st;
     (d, st) \<leftarrow> script_getstr env 4 st;
     a \<leftarrow> array_arg 2 st;
     (case a of None \<Rightarrow> Some (stop st)
      | Some (aid, start, name, ref) \<Rightarrow>
          if \<not> is_string_variable name then Some (stop st)
          else if no_player name st then Some (stop st)
          else explode_loop env aid name ref (ch d) start [] s st) }"

fun element_strs :: "vm_env \<Rightarrow> int \<Rightarrow> db_ref option \<Rightarrow> int list \<Rightarrow> vm \<Rightarrow> (string list \<times> vm) option" where
  "element_strs env aid ref [] st = Some ([], st)"
| "element_strs env aid ref (i # is) st = do {
     (d, grown, st) \<leftarrow> get_val2 env (reference_uid aid i) ref st;
     (ss, st) \<leftarrow> element_strs env aid ref is st;
     Some (str_of d # ss, st) }"

fun join :: "string \<Rightarrow> string list \<Rightarrow> string" where
  "join glue [] = []"
| "join glue [s] = s"
| "join glue (s # t # ss) = s @ glue @ join glue (t # ss)"

text \<open>\<open>implode\<close>: the elements from 0 on, up to the last one that is set from the index on.\<close>

definition buildin_implode :: "vm_env \<Rightarrow> vm \<Rightarrow> vm option" where
  "buildin_implode env st = do {
     a \<leftarrow> array_arg 2 st;
     (case a of None \<Rightarrow> Some (stop st)
      | Some (aid, idx, name, ref) \<Rightarrow>
          if \<not> is_string_variable name then Some (stop st)
          else if no_player name st then Some (stop st)
          else if length (vm_stack st) \<ge> vm_sp_max st then None
          else do {
            (size, st) \<leftarrow> getarraysize env aid idx ref st;
            if size = 0 then Some (push_val (S_str ''NULL'') st) else do {
              (ss, st) \<leftarrow> element_strs env aid ref [0 .. size - 1] st;
              (glue, st) \<leftarrow> (if script_hasdata 3 st then script_getstr env 3 st else Some ([], st));
              (ss, st) \<leftarrow> element_strs env aid ref [0 .. size - 1] st;
              Some (push_val (S_str (join glue ss)) st) } }) }"

section \<open>The table of functions\<close>

text \<open>Name, pattern of the arguments and function, in the order of the code.\<close>

definition buildin_func :: "(string \<times> string \<times> (vm_env \<Rightarrow> vm \<Rightarrow> vm option)) list" where
  "buildin_func = [
     (''goto'', ''l'', buildin_goto),
     (''callsub'', ''l*'', buildin_callsub),
     (''callfunc'', ''s*'', buildin_callfunc),
     (''return'', ''?'', buildin_return),
     (''getarg'', ''i?'', buildin_getarg),
     (''set'', ''rv?'', buildin_set),
     (''setarray'', ''rv*'', buildin_setarray),
     (''cleararray'', ''rvi'', buildin_cleararray),
     (''copyarray'', ''rri'', buildin_copyarray),
     (''getarraysize'', ''r'', buildin_getarraysize),
     (''deletearray'', ''r?'', buildin_deletearray),
     (''getelementofarray'', ''ri'', buildin_getelementofarray),
     (''end'', [], \<lambda>env. buildin_end),
     (''jump_zero'', ''il'', buildin_jump_zero),
     (''getstrlen'', ''s'', buildin_getstrlen),
     (''charisalpha'', ''si'', buildin_charisalpha),
     (''charat'', ''si'', buildin_charat),
     (''setchar'', ''ssi'', buildin_setchar),
     (''insertchar'', ''ssi'', buildin_insertchar),
     (''delchar'', ''si'', buildin_delchar),
     (''strtoupper'', ''s'', buildin_strtoupper),
     (''strtolower'', ''s'', buildin_strtolower),
     (''substr'', ''sii'', buildin_substr),
     (''explode'', ''rss'', buildin_explode),
     (''implode'', ''r?'', buildin_implode),
     (''strpos'', ''ss?'', buildin_strpos),
     (''strcmp'', ''ss'', buildin_strcmp),
     (''freeloop'', ''?'', buildin_freeloop)]"

text \<open>The functions by their place in the table; other places are functions that are not modelled.\<close>

definition core_buildins :: "vm_env \<Rightarrow> buildins" where
  "core_buildins env i = (if 0 \<le> i \<and> i < int (length buildin_func) then Some (snd (snd (buildin_func ! nat i)) env) else None)"

definition core_args :: "int \<Rightarrow> string" where
  "core_args i = (if 0 \<le> i \<and> i < int (length buildin_func) then fst (snd (buildin_func ! nat i)) else [])"

text \<open>\<open>(v|s|i|r|l)*?**?\<close>\<close>

definition arg_pattern_ok :: "string \<Rightarrow> bool" where
  "arg_pattern_ok p = (let p = dropWhile (\<lambda>c. c = CHR ''?'') (dropWhile (\<lambda>c. c \<in> set ''vsirl'') p) in
     (if ch p = CHR ''*'' then tl p else p) = [])"

definition add_buildin :: "int \<Rightarrow> string \<Rightarrow> string \<Rightarrow> str_table \<Rightarrow> str_table option" where
  "add_buildin i name arg tab = (if \<not> arg_pattern_ok arg \<or> skip_word name \<noteq> [] then Some tab else do {
     (n, tab) \<leftarrow> add_str name tab;
     Some (upd_data n (\<lambda>d. d\<lparr>sd_type := C_FUNC, sd_val := i\<rparr>) tab) })"

fun add_buildin_func :: "int \<Rightarrow> (string \<times> string \<times> 'f) list \<Rightarrow> str_table \<Rightarrow> str_table option" where
  "add_buildin_func i [] tab = Some tab"
| "add_buildin_func i ((name, arg, f) # fs) tab = do { tab \<leftarrow> add_buildin i name arg tab; add_buildin_func (i + 1) fs tab }"

text \<open>\<open>script_set_constant\<close> and \<open>script_get_constant\<close>.\<close>

definition script_set_constant :: "string \<Rightarrow> int \<Rightarrow> bool \<Rightarrow> str_table \<Rightarrow> str_table option" where
  "script_set_constant name value isparameter tab = do {
     (n, tab) \<leftarrow> add_str name tab;
     d \<leftarrow> nth_opt (st_data tab) n;
     Some (if sd_type d = C_NOP then upd_data n (\<lambda>d. d\<lparr>sd_type := if isparameter then C_PARAM else C_INT, sd_val := value\<rparr>) tab else tab) }"

definition script_get_constant :: "string \<Rightarrow> str_table \<Rightarrow> int option option" where
  "script_get_constant name tab = do {
     n \<leftarrow> search_str name tab;
     if n = - 1 then Some None else do {
       d \<leftarrow> nth_opt (st_data tab) (nat n);
       Some (if sd_type d = C_INT then Some (sd_val d) else None) } }"

end
