(* ===== verification/ScriptLoop.thy ===== *)
theory ScriptLoop imports ScriptFuncs begin

text \<open>
  Scripts end: \<open>run_script_main\<close> counts the commands down, and none of the functions but \<open>freeloop\<close> switches
  the counting off.
\<close>

section \<open>Operations that leave the flag of free loops alone\<close>

abbreviation kept :: "vm option \<Rightarrow> bool" where
  "kept m \<equiv> pred_option (\<lambda>st. \<not> vm_freeloop st) m"

abbreviation kept_by :: "('a \<times> vm) option \<Rightarrow> bool" where
  "kept_by m \<equiv> pred_option (\<lambda>r. \<not> vm_freeloop (snd r)) m"

named_theorems kept_rules "operations that leave the flag of free loops alone"

lemma kept_bind [kept_rules]:
  "kept m \<Longrightarrow> (\<And>st. \<not> vm_freeloop st \<Longrightarrow> pred_option P (f st)) \<Longrightarrow> pred_option P (m \<bind> f)"
  by (cases m) auto

lemma kept_by_bind [kept_rules]:
  "kept_by m \<Longrightarrow> (\<And>x st. \<not> vm_freeloop st \<Longrightarrow> pred_option P (f (x, st))) \<Longrightarrow> pred_option P (m \<bind> f)"
  by (cases m) auto

lemma pure_bind:
  fixes m :: "'a option"
  shows "(\<And>x. pred_option P (f x)) \<Longrightarrow> pred_option P (m \<bind> f)"
  by (cases m) auto

lemmas pure_binds [kept_rules] = pure_bind [where 'a = stack_data] pure_bind [where 'a = str_data] pure_bind [where 'a = string]
  pure_bind [where 'a = var_db] pure_bind [where 'a = "string option"] pure_bind [where 'a = "var_val option"] pure_bind [where 'a = int]
  pure_bind [where 'a = "bool + int"] pure_bind [where 'a = "(int \<times> int \<times> string \<times> db_ref option) option"]
  pure_bind [where 'a = "int \<times> nat"] pure_bind [where 'a = "string \<times> nat"]

lemma flag_with_player [simp]: "vm_freeloop (snd (with_player f d st)) = vm_freeloop st"
  by (simp add: with_player_def case_prod_unfold Let_def split: option.split)

lemma flag_simps [simp]:
  "vm_freeloop (set_player f st) = vm_freeloop st" "vm_freeloop (push_data d st) = vm_freeloop st" "vm_freeloop (push_val v st) = vm_freeloop st"
  "vm_freeloop (set_data i d st) = vm_freeloop st" "vm_freeloop (stop st) = vm_freeloop st" "vm_freeloop (jump_to pos st) = vm_freeloop st"
  "vm_freeloop (free_value d st) = vm_freeloop st"
  by (simp_all add: set_player_def push_data_def push_val_def set_data_def stop_def jump_to_def free_value_def split: sval.split)

lemma flag_free [simp]: "vm_freeloop (fold free_value ds st) = vm_freeloop st"
  by (induction ds arbitrary: st) simp_all

lemma flag_pop [simp]: "vm_freeloop (pop_stack i j st) = vm_freeloop st" "vm_freeloop (removetop i j st) = vm_freeloop st"
  by (simp_all add: removetop_def pop_stack_def Let_def)

lemma kept_read [kept_rules]:
  assumes "\<not> vm_freeloop st"
  shows "kept_by (read_str env uid name ref st)" "kept_by (read_int env uid name ref st)"
  using assms by (auto simp: read_str_def read_int_def Let_def intro!: kept_rules)

lemma kept_write [kept_rules]: "\<not> vm_freeloop st \<Longrightarrow> kept (db_write db uid v st)"
  by (simp add: db_write_def)

lemma kept_get_val [kept_rules]: "\<not> vm_freeloop st \<Longrightarrow> kept_by (get_val env d st)"
  by (auto simp: get_val_def split: sval.split intro!: kept_rules)

lemma kept_set_reg [kept_rules]: "\<not> vm_freeloop st \<Longrightarrow> kept (set_reg env uid name v ref st)"
  by (auto simp: set_reg_def set_reg_str_def set_reg_int_def Let_def case_prod_unfold split: var_val.split intro!: kept_rules)

lemma kept_conv_str [kept_rules]: "\<not> vm_freeloop st \<Longrightarrow> kept_by (conv_str env d st)"
  by (auto simp: conv_str_def intro!: kept_rules)

lemma kept_conv_num:
  assumes "\<not> vm_freeloop st"
  shows "pred_option (\<lambda>(n, d, st). \<not> vm_freeloop st) (conv_num env d st)"
  using assms by (auto simp: conv_num_def Let_def split: sval.split intro!: kept_rules)

lemma conv_num_bind [kept_rules]:
  assumes "\<not> vm_freeloop st" "\<And>n d st. \<not> vm_freeloop st \<Longrightarrow> pred_option P (f (n, d, st))"
  shows "pred_option P (conv_num env d st \<bind> f)"
  using kept_conv_num [OF assms(1), of env d] assms(2) by (cases "conv_num env d st") auto

lemma kept_push_copy [kept_rules]: "\<not> vm_freeloop st \<Longrightarrow> kept (push_copy i st)"
  by (auto simp: push_copy_def split: sval.split intro!: kept_rules)

lemma kept_get_val_at [kept_rules]: "\<not> vm_freeloop st \<Longrightarrow> kept_by (get_val_at env i st)"
  by (auto simp: get_val_at_def intro!: kept_rules)

lemma kept_args [kept_rules]:
  assumes "\<not> vm_freeloop st"
  shows "kept_by (script_getnum env i st)" "kept_by (script_getstr env i st)"
  using assms by (auto simp: script_getnum_def script_getstr_def intro!: kept_rules)

lemma kept_arg_value [kept_rules]: "\<not> vm_freeloop st \<Longrightarrow> kept_by (arg_value env name i st)"
  by (auto simp: arg_value_def intro!: kept_rules)

lemma kept_op_2num [kept_rules]: "\<not> vm_freeloop st \<Longrightarrow> kept (op_2num oper i j st)"
  by (auto simp: op_2num_def Let_def split: sum.split intro!: kept_rules)

lemma flag_op_2str [simp]: "vm_freeloop (op_2str oper s t st) = vm_freeloop st"
  by (simp add: op_2str_def Let_def split: c_op.split)

lemma kept_op_1 [kept_rules]: "\<not> vm_freeloop st \<Longrightarrow> kept (op_1 env oper st)"
  by (auto simp: op_1_def Let_def split: c_op.split intro!: kept_rules)

lemma kept_op_3 [kept_rules]: "\<not> vm_freeloop st \<Longrightarrow> kept (op_3 env st)"
  by (auto simp: op_3_def intro!: kept_rules)

lemma kept_op_2 [kept_rules]: "\<not> vm_freeloop st \<Longrightarrow> kept (op_2 env oper st)"
  by (auto simp: op_2_def Let_def split: option.split intro!: kept_rules)

section \<open>The functions\<close>

lemma kept_copy_args [kept_rules]: "\<not> vm_freeloop st \<Longrightarrow> kept_by (copy_args db_of is cell st)"
proof (induction "is" arbitrary: cell st)
  case (Cons i "is")
  show ?case
    using Cons.prems by (auto simp: Let_def split: sval.split option.split intro!: kept_rules Cons.IH)
qed simp

lemma kept_enter_call [kept_rules]: "\<not> vm_freeloop st \<Longrightarrow> kept (enter_call db_of script pos st)"
  by (auto simp: enter_call_def Let_def intro!: kept_rules)

lemma kept_calls [kept_rules]:
  assumes "\<not> vm_freeloop st"
  shows "kept (buildin_goto env st)" "kept (buildin_jump_zero env st)" "kept (buildin_end st)" "kept (buildin_callsub env st)"
    "kept (buildin_callfunc env st)" "kept (buildin_getarg env st)" "kept (buildin_return env st)" "kept (buildin_set env st)"
  using assms by (auto simp: buildin_goto_def buildin_jump_zero_def buildin_end_def buildin_callsub_def buildin_callfunc_def
      buildin_getarg_def buildin_return_def buildin_set_def split: sval.split option.split intro!: kept_rules)

lemma kept_set_elements [kept_rules]: "\<not> vm_freeloop st \<Longrightarrow> kept (set_elements env aid idx name ref is st)"
  by (induction "is" arbitrary: idx st) (auto intro!: kept_rules)

lemma kept_fill_elements [kept_rules]: "\<not> vm_freeloop st \<Longrightarrow> kept (fill_elements env aid is name v ref st)"
  by (induction "is" arbitrary: st) (auto intro!: kept_rules)

lemma get_val2_bind [kept_rules]:
  assumes "\<not> vm_freeloop st" "\<And>d g st. \<not> vm_freeloop st \<Longrightarrow> pred_option P (f (d, g, st))"
  shows "pred_option P (get_val2 env uid ref st \<bind> f)"
proof -
  have "pred_option (\<lambda>(d, g, st). \<not> vm_freeloop st) (get_val2 env uid ref st)"
    using assms(1) by (auto simp: get_val2_def Let_def intro!: kept_rules)
  then show ?thesis
    using assms(2) by (cases "get_val2 env uid ref st") auto
qed

lemma kept_last_set [kept_rules]: "\<not> vm_freeloop st \<Longrightarrow> kept_by (last_set env aid is ref ret st)"
  by (induction "is" arbitrary: ret st) (auto intro!: kept_rules)

lemma kept_getarraysize [kept_rules]: "\<not> vm_freeloop st \<Longrightarrow> kept_by (getarraysize env aid idx ref st)"
  by (simp add: getarraysize_def kept_rules)

lemma kept_copy_elements [kept_rules]: "\<not> vm_freeloop st \<Longrightarrow> kept (copy_elements env id1 idx1 id2 idx2 name1 ref1 ref2 is st)"
  by (induction "is" arbitrary: st) (auto intro!: kept_rules)

lemma kept_move_elements [kept_rules]: "\<not> vm_freeloop st \<Longrightarrow> kept (move_elements env aid n name ref is st)"
  by (induction "is" arbitrary: st) (auto intro!: kept_rules)

lemma kept_arrays [kept_rules]:
  assumes "\<not> vm_freeloop st"
  shows "kept (buildin_getelementofarray env st)" "kept (buildin_setarray env st)" "kept (buildin_cleararray env st)"
    "kept (buildin_getarraysize env st)" "kept (buildin_copyarray env st)" "kept (buildin_deletearray env st)"
  using assms by (auto simp: buildin_getelementofarray_def buildin_setarray_def buildin_cleararray_def buildin_getarraysize_def
      buildin_copyarray_def buildin_deletearray_def Let_def split: sval.split option.split intro!: kept_rules)

lemma kept_strings [kept_rules]:
  assumes "\<not> vm_freeloop st"
  shows "kept (buildin_getstrlen env st)" "kept (buildin_charisalpha env st)" "kept (buildin_charat env st)" "kept (buildin_setchar env st)"
    "kept (buildin_insertchar env st)" "kept (buildin_delchar env st)" "kept (buildin_strtoupper env st)" "kept (buildin_strtolower env st)"
    "kept (buildin_substr env st)" "kept (buildin_strpos env st)" "kept (buildin_strcmp env st)"
  using assms by (auto simp: buildin_getstrlen_def buildin_charisalpha_def buildin_charat_def buildin_setchar_def buildin_insertchar_def
      buildin_delchar_def buildin_strtoupper_def buildin_strtolower_def buildin_substr_def buildin_strpos_def buildin_strcmp_def Let_def
      intro!: kept_rules)

lemma kept_explode_loop [kept_rules]: "\<not> vm_freeloop st \<Longrightarrow> kept (explode_loop env aid name ref delim idx word s st)"
  by (induction s arbitrary: idx word st) (auto intro!: kept_rules)

lemma kept_element_strs [kept_rules]: "\<not> vm_freeloop st \<Longrightarrow> kept_by (element_strs env aid ref is st)"
  by (induction "is" arbitrary: st) (auto intro!: kept_rules)

lemma kept_splits [kept_rules]:
  assumes "\<not> vm_freeloop st"
  shows "kept (buildin_explode env st)" "kept (buildin_implode env st)"
  using assms by (auto simp: buildin_explode_def buildin_implode_def split: option.split intro!: kept_rules)

section \<open>The loop ends\<close>

text \<open>Functions that leave the flag alone. Then a command takes one off the number of commands that are left.\<close>

locale counted =
  fixes fn :: buildins
  assumes kept_fn: "fn i = Some f \<Longrightarrow> \<not> vm_freeloop st \<Longrightarrow> kept (f st)"
begin

lemma kept_call: "\<not> vm_freeloop st \<Longrightarrow> kept (case fn i of None \<Rightarrow> Some (stop st) | Some f \<Rightarrow> f st)"
  by (auto split: option.split intro: kept_fn)

lemma flag_return_from_call: "\<not> vm_freeloop st \<Longrightarrow> \<not> vm_freeloop (return_from_call st)"
  by (simp add: return_from_call_def Let_def split: option.split)

lemma kept_run_func: "\<not> vm_freeloop st \<Longrightarrow> kept (run_func fn st)"
  unfolding run_func_def Let_def
  by (auto split: sval.split simp: flag_return_from_call intro!: kept_rules kept_call)

lemma kept_exec_func: "\<not> vm_freeloop st \<Longrightarrow> kept_by (exec_func fn got st)"
  by (auto simp: exec_func_def count_down_def intro!: kept_rules kept_run_func)

lemma kept_exec_com: "\<not> vm_freeloop st \<Longrightarrow> kept_by (exec_com env fn c got st)"
  unfolding exec_com_def Let_def
  by (cases c) (auto intro!: kept_rules kept_exec_func)

lemma step_counts:
  assumes "vm_step env fn (cmd, got, st) = Some (cmd', got', st')" "\<not> vm_freeloop st" "0 < cmd"
  shows "\<not> vm_freeloop st'" "cmd' = cmd - 1" "cmd' = 0 \<Longrightarrow> vm_state st' = END"
proof -
  obtain c pos st1 where s: "exec_com env fn (op_of c) got (st\<lparr>vm_pos := pos\<rparr>) = Some (got', st1)" "(cmd', st') = count_down cmd st1"
    using assms(1) by (auto simp: vm_step_def Let_def case_prod_unfold elim!: bind_SomeE split: if_splits)
  have "\<not> vm_freeloop st1"
    using kept_exec_com [of "st\<lparr>vm_pos := pos\<rparr>" env "op_of c" got] assms(2) s(1) by simp
  with s(2) assms(3) show "\<not> vm_freeloop st'" "cmd' = cmd - 1" "cmd' = 0 \<Longrightarrow> vm_state st' = END"
    by (auto simp: count_down_def stop_def split: if_splits)
qed

lemma run_loop_ends: "\<not> vm_freeloop st \<Longrightarrow> 0 < cmd \<or> vm_state st \<noteq> RUN \<Longrightarrow> \<exists>r. run_loop env fn (cmd, got, st) = Some r"
proof (induction "nat cmd" arbitrary: cmd got st rule: less_induct)
  case less
  consider "vm_state st \<noteq> RUN" | "vm_state st = RUN" "vm_step env fn (cmd, got, st) = None"
    | cmd' got' st' where "vm_state st = RUN" "vm_step env fn (cmd, got, st) = Some (cmd', got', st')"
    by (cases "vm_step env fn (cmd, got, st)") auto
  then show ?case
  proof cases
    case 3
    have "\<not> vm_freeloop st'" "cmd' = cmd - 1" "0 < cmd' \<or> vm_state st' \<noteq> RUN"
      using step_counts [OF 3(2)] less.prems 3(1) by auto
    with less.hyps [of cmd' st' got'] less.prems 3(1) have "\<exists>r. run_loop env fn (cmd', got', st') = Some r"
      by auto
    then show ?thesis
      using 3 by (subst run_loop.simps) simp
  qed (subst run_loop.simps, simp)+
qed

lemma run_script_ends: "0 < cmd \<Longrightarrow> \<exists>r. run_script env fn cmd got k pos st = Some r"
proof -
  assume c: "0 < cmd"
  let ?st = "script_alloc_state k pos st"
  have "\<exists>r. run_loop env fn (cmd, got, ?st\<lparr>vm_state := RUN\<rparr>) = Some r"
    using c by (intro run_loop_ends) (simp_all add: script_alloc_state_def)
  then show ?thesis
    by (auto simp: run_script_def run_script_main_def script_alloc_state_def)
qed

end

text \<open>All functions but \<open>freeloop\<close>, the last one of the table.\<close>

lemma core_counted: "i \<noteq> 27 \<Longrightarrow> core_buildins env i = Some f \<Longrightarrow> \<not> vm_freeloop st \<Longrightarrow> kept (f st)"
proof -
  assume i: "i \<noteq> 27" "core_buildins env i = Some f" and c: "\<not> vm_freeloop st"
  have "i \<in> {0 .. 26}"
    using i by (auto simp: core_buildins_def buildin_func_def split: if_splits)
  moreover have "{0 .. 26} = set [0 .. 26::int]"
    by simp
  moreover have "[0 .. 26::int] = [0, 1, 2, 3, 4, 5, 6, 7, 8, 9, 10, 11, 12, 13, 14, 15, 16, 17, 18, 19, 20, 21, 22, 23, 24, 25, 26]"
    by (simp add: upto.simps)
  ultimately show ?thesis
    using i(2) kept_calls [OF c] kept_arrays [OF c] kept_strings [OF c] kept_splits [OF c]
    by (auto simp: core_buildins_def buildin_func_def)
qed

interpretation core: counted "(core_buildins env)(27 := None)" for env
  by unfold_locales (auto simp: core_counted split: if_splits)

end
