(* ===== verification/ScriptNum.thy ===== *)
theory ScriptNum imports ScriptLoop begin
text \<open>
  The numbers of scripts stay in the range of an \<open>int\<close>.
\<close>

lemma s32_signed: "s32 k = signed_take_bit 31 k"
  by (simp add: s32_def signed_take_bit_eq_take_bit_shift take_bit_eq_mod)

lemma s32_bit: "s32 k = k \<longleftrightarrow> (\<forall>n > 31. bit k n = bit k 31)"
proof -
  have "s32 k = k \<longleftrightarrow> (\<forall>n. bit k (min 31 n) = bit k n)"
    by (simp add: s32_signed bit_eq_iff bit_signed_take_bit_iff)
  also have "\<dots> \<longleftrightarrow> (\<forall>n > 31. bit k n = bit k 31)"
  proof (rule iffI; intro allI impI)
    fix n :: nat
    assume "\<forall>n. bit k (min 31 n) = bit k n" "31 < n"
    from this(1) [rule_format, of n] this(2) show "bit k n = bit k 31"
      by (simp add: min_def)
  next
    fix n :: nat
    assume "\<forall>n > 31. bit k n = bit k 31"
    then show "bit k (min 31 n) = bit k n"
      by (cases "n > 31") (simp_all add: min_def)
  qed
  finally show ?thesis .
qed

lemma s32_bits:
  assumes "s32 i = i" "s32 j = j"
  shows "s32 (i AND j) = i AND j" "s32 (i OR j) = i OR j" "s32 (i XOR j) = i XOR j" "s32 (NOT i) = NOT i"
  using assms unfolding s32_bit by (auto simp: bit_simps)

lemma c_rem_sgn: "c_rem i j = sgn i * (\<bar>i\<bar> mod \<bar>j\<bar>)"
proof -
  have "i = sgn i * \<bar>i\<bar>" "sgn j * j = \<bar>j\<bar>"
    by (simp_all add: sgn_mult_abs sgn_mult_self_eq abs_sgn mult.commute)
  moreover have "sgn i * sgn j * (\<bar>i\<bar> div \<bar>j\<bar>) * j = sgn i * (\<bar>i\<bar> div \<bar>j\<bar> * (sgn j * j))"
    by (simp add: ac_simps)
  ultimately have "c_rem i j = sgn i * (\<bar>i\<bar> - \<bar>i\<bar> div \<bar>j\<bar> * \<bar>j\<bar>)"
    unfolding c_rem_def c_div_def by (metis right_diff_distrib)
  then show ?thesis
    by (simp add: minus_div_mult_eq_mod)
qed

lemma c_rem_range:
  assumes "j \<noteq> 0"
  shows "\<bar>c_rem i j\<bar> < \<bar>j\<bar>" "c_div i j * j + c_rem i j = i" "\<bar>c_div i j\<bar> \<le> \<bar>i\<bar>"
proof -
  have "0 \<le> \<bar>i\<bar> mod \<bar>j\<bar>" "\<bar>i\<bar> mod \<bar>j\<bar> < \<bar>j\<bar>"
    using assms by simp_all
  then show "\<bar>c_rem i j\<bar> < \<bar>j\<bar>"
    using assms by (simp add: c_rem_sgn abs_mult abs_sgn_eq)
  show "c_div i j * j + c_rem i j = i"
    by (simp add: c_rem_def)
  have "\<bar>i\<bar> div \<bar>j\<bar> \<le> \<bar>i\<bar> div 1"
    using assms by (intro zdiv_mono2) auto
  moreover have "0 \<le> \<bar>i\<bar> div \<bar>j\<bar>"
    using assms by (simp add: pos_imp_zdiv_nonneg_iff)
  ultimately show "\<bar>c_div i j\<bar> \<le> \<bar>i\<bar>"
    by (simp add: c_div_def abs_mult abs_sgn_eq)
qed

lemma cap_int_range: "s32 (cap_int i) = cap_int i"
  by (simp add: cap_int_def s32_def)

lemma drop_bit_range: "s32 i = i \<Longrightarrow> s32 (drop_bit n i) = drop_bit n i"
proof -
  assume i: "s32 i = i"
  have "bit i (n + m) = bit i 31" if "31 \<le> m" for m
    using i that unfolding s32_bit by (cases "n + m = 31") auto
  then show ?thesis
    unfolding s32_bit by (auto simp: bit_simps)
qed

lemma num_result_range:
  assumes "s32 i = i" "s32 j = j" "num_result oper i j = Some (Inr k)"
  shows "s32 k = k"
proof (cases oper)
  case C_DIV
  have i: "- 2147483648 \<le> i" "i < 2147483648"
    using assms(1) s32_range [of i] by simp_all
  have "c_div i j \<noteq> 2147483648" if "j \<noteq> 0" "i \<noteq> - 2147483648 \<or> j \<noteq> - 1"
  proof
    assume e: "c_div i j = 2147483648"
    then have q: "\<bar>i\<bar> div \<bar>j\<bar> = 2147483648"
    proof -
      have "\<bar>c_div i j\<bar> = \<bar>i\<bar> div \<bar>j\<bar>"
        using that(1) by (cases "i = 0") (simp_all add: c_div_def abs_mult abs_sgn_eq pos_imp_zdiv_nonneg_iff)
      then show ?thesis
        using e by simp
    qed
    have "i = - 2147483648"
      using c_rem_range(3) [OF that(1), of i] e i by simp
    moreover have "\<bar>j\<bar> = 1"
    proof (rule ccontr)
      assume "\<bar>j\<bar> \<noteq> 1"
      then have "\<bar>i\<bar> div \<bar>j\<bar> \<le> \<bar>i\<bar> div 2"
        using that(1) by (intro zdiv_mono2) auto
      then show False
        using q i by simp
    qed
    moreover from this have "j = 1 \<or> j = - 1"
      by linarith
    ultimately show False
      using that(2) e by (auto simp: c_div_def)
  qed
  with i show ?thesis
    using assms(3) c_rem_range(3) [of j i] C_DIV by (auto simp: num_result_def intro!: s32_id split: if_splits)
next
  case C_MOD
  have "- 2147483648 \<le> j" "j < 2147483648"
    using assms(2) s32_range [of j] by simp_all
  then show ?thesis
    using assms(3) c_rem_range(1) [of j i] C_MOD by (auto simp: num_result_def intro!: s32_id split: if_splits)
qed (use assms in \<open>auto simp: num_result_def s32_bits cap_int_range drop_bit_range s32_id [OF s32_range] s32_id split: if_splits\<close>)

text \<open>What has no result: shifts by too much, and the least number by -1.\<close>

lemma num_result_undefined:
  "num_result oper i j = None \<longleftrightarrow> oper \<in> {C_R_SHIFT, C_L_SHIFT} \<and> (j < 0 \<or> 32 \<le> j) \<or> oper \<in> {C_DIV, C_MOD} \<and> i = - 2147483648 \<and> j = - 1"
  by (cases oper) (auto simp: num_result_def)

end
