(* ===== verification/ScriptEval.thy ===== *)
theory ScriptEval imports ScriptRun begin

text \<open>
  The code of an expression leaves its value on the stack. The value is defined on the expression itself;
  both branches of \<open>? :\<close> are evaluated, as are both sides of \<open>&&\<close> and \<open>||\<close>.
\<close>

section \<open>Expressions, their code and their value\<close>

datatype expr = Lit nat | Text string | Ref nat | Unop c_op expr | Binop c_op expr expr | Cond expr expr expr

fun code_of :: "expr \<Rightarrow> int list" where
  "code_of (Lit n) = num_bytes (int n)"
| "code_of (Text s) = op_num C_STR # List.map of_char s @ [0]"
| "code_of (Ref l) = op_num C_NAME # bytes3 (int l)"
| "code_of (Unop oper a) = code_of a @ [op_num oper]"
| "code_of (Binop oper a b) = code_of a @ code_of b @ [op_num oper]"
| "code_of (Cond c a b) = code_of c @ code_of a @ code_of b @ [op_num C_OP3]"

fun commands :: "expr \<Rightarrow> nat" where
  "commands (Unop oper a) = commands a + 1"
| "commands (Binop oper a b) = commands a + commands b + 1"
| "commands (Cond c a b) = commands c + commands a + commands b + 1"
| "commands e = 1"

definition un_value :: "c_op \<Rightarrow> var_val \<Rightarrow> var_val option" where
  "un_value oper v = (case v of V_str _ \<Rightarrow> None
   | V_int i \<Rightarrow> (if oper = C_NEG then Some (V_int (s32 (- i))) else if oper = C_NOT then Some (V_int (NOT i))
       else if oper = C_LNOT then Some (V_int (of_bool (i = 0))) else None))"

definition bin_op :: "c_op \<Rightarrow> bool" where
  "bin_op oper \<longleftrightarrow> oper \<in> {C_ADD, C_SUB, C_MUL, C_DIV, C_MOD, C_EQ, C_NE, C_GT, C_GE, C_LT, C_LE, C_AND, C_OR, C_XOR, C_LAND, C_LOR, C_R_SHIFT, C_L_SHIFT}"

definition str_value2 :: "c_op \<Rightarrow> string \<Rightarrow> string \<Rightarrow> var_val option" where
  "str_value2 oper s t =
     (if oper = C_ADD then Some (V_str (s @ t))
      else if oper = C_EQ then Some (V_int (of_bool (strcmp s t = 0))) else if oper = C_NE then Some (V_int (of_bool (strcmp s t \<noteq> 0)))
      else if oper = C_GT then Some (V_int (of_bool (strcmp s t > 0))) else if oper = C_GE then Some (V_int (of_bool (strcmp s t \<ge> 0)))
      else if oper = C_LT then Some (V_int (of_bool (strcmp s t < 0))) else if oper = C_LE then Some (V_int (of_bool (strcmp s t \<le> 0)))
      else None)"

definition bin_value :: "c_op \<Rightarrow> var_val \<Rightarrow> var_val \<Rightarrow> var_val option" where
  "bin_value oper v w = (if \<not> bin_op oper then None else case (v, w) of
     (V_int i, V_int j) \<Rightarrow> (case num_result oper i j of Some (Inr k) \<Rightarrow> Some (V_int k) | _ \<Rightarrow> None)
   | (V_str s, V_str t) \<Rightarrow> str_value2 oper s t
   | (V_int i, V_str t) \<Rightarrow> (if oper = C_ADD then Some (V_str (take 49 (show_int i) @ t)) else None)
   | (V_str s, V_int j) \<Rightarrow> (if oper = C_ADD then Some (V_str (s @ take 49 (show_int j))) else None))"

definition truth :: "var_val \<Rightarrow> bool" where
  "truth v = (case v of V_int i \<Rightarrow> i \<noteq> 0 | V_str s \<Rightarrow> s \<noteq> [])"

fun value_of :: "(nat \<Rightarrow> var_val) \<Rightarrow> expr \<Rightarrow> var_val option" where
  "value_of rd (Lit n) = Some (V_int (int n))"
| "value_of rd (Text s) = Some (V_str s)"
| "value_of rd (Ref l) = Some (rd l)"
| "value_of rd (Unop oper a) = do { v \<leftarrow> value_of rd a; un_value oper v }"
| "value_of rd (Binop oper a b) = do { v \<leftarrow> value_of rd a; w \<leftarrow> value_of rd b; bin_value oper v w }"
| "value_of rd (Cond c a b) = do { u \<leftarrow> value_of rd c; v \<leftarrow> value_of rd a; w \<leftarrow> value_of rd b; Some (if truth u then v else w) }"

fun refs :: "expr \<Rightarrow> nat set" where
  "refs (Lit n) = {}"
| "refs (Text s) = {}"
| "refs (Ref l) = {l}"
| "refs (Unop oper a) = refs a"
| "refs (Binop oper a b) = refs a \<union> refs b"
| "refs (Cond c a b) = refs c \<union> refs a \<union> refs b"

text \<open>Literals fit: numbers in an \<open>int\<close>, strings have no NUL.\<close>

fun literals_ok :: "expr \<Rightarrow> bool" where
  "literals_ok (Lit n) \<longleftrightarrow> n < 2147483648"
| "literals_ok (Text s) \<longleftrightarrow> CHR 0x00 \<notin> set s"
| "literals_ok (Ref l) \<longleftrightarrow> l < 16777216"
| "literals_ok (Unop oper a) \<longleftrightarrow> literals_ok a"
| "literals_ok (Binop oper a b) \<longleftrightarrow> literals_ok a \<and> literals_ok b"
| "literals_ok (Cond c a b) \<longleftrightarrow> literals_ok c \<and> literals_ok a \<and> literals_ok b"

section \<open>States that differ in the stack and the position\<close>

definition at :: "vm \<Rightarrow> stack_data list \<Rightarrow> int \<Rightarrow> nat \<Rightarrow> vm" where
  "at st stk pos m = st\<lparr>vm_stack := stk, vm_pos := pos, vm_sp_max := m\<rparr>"

lemma at_simps [simp]:
  "vm_stack (at st stk pos m) = stk" "vm_pos (at st stk pos m) = pos" "vm_sp_max (at st stk pos m) = m"
  "vm_state (at st stk pos m) = vm_state st" "vm_script (at st stk pos m) = vm_script st"
  "vm_op2ref (at st stk pos m) = vm_op2ref st" "vm_freeloop (at st stk pos m) = vm_freeloop st"
  "vm_defsp (at st stk pos m) = vm_defsp st" "vm_start (at st stk pos m) = vm_start st" "vm_end (at st stk pos m) = vm_end st"
  "at (at st stk pos m) stk' pos' m' = at st stk' pos' m'"
  "(at st stk pos m)\<lparr>vm_pos := pos'\<rparr> = at st stk pos' m"
  "set_data i d (at st stk pos m) = at st (stk[nat i := d]) pos m"
  "sp (at st stk pos m) = int (length stk)"
  by (simp_all add: at_def set_data_def sp_def)

lemma at_self: "at st (vm_stack st) (vm_pos st) (vm_sp_max st) = st"
  by (simp add: at_def)

text \<open>The bounds of the stack that popping moves are below the expression.\<close>

definition below :: "vm \<Rightarrow> nat \<Rightarrow> bool" where
  "below st n \<longleftrightarrow> vm_start st \<le> n \<and> vm_end st \<le> n \<and> vm_defsp st \<le> n \<and> \<not> vm_op2ref st"

definition plain :: "stack_data \<Rightarrow> bool" where
  "plain d \<longleftrightarrow> (case sk_val d of S_retinfo _ \<Rightarrow> False | _ \<Rightarrow> True)"

text \<open>The value holds \<open>v\<close>, whatever the stack is.\<close>

definition data_of :: "var_val \<Rightarrow> stack_data \<Rightarrow> bool" where
  "data_of v d \<longleftrightarrow> (case v of V_int i \<Rightarrow> sk_val d = S_int i | V_str s \<Rightarrow> sk_val d = S_str s \<or> sk_val d = S_conststr s)"

definition holds :: "vm_env \<Rightarrow> vm \<Rightarrow> stack_data \<Rightarrow> var_val \<Rightarrow> bool" where
  "holds env st d v \<longleftrightarrow> plain d \<and> sk_ref d = None \<and> (\<forall>stk pos m a b. \<exists>d'. get_val env d ((at st stk pos m)\<lparr>vm_start := a, vm_end := b\<rparr>) = Some (d', (at st stk pos m)\<lparr>vm_start := a, vm_end := b\<rparr>) \<and> data_of v d')"

lemma data_of_simps:
  "data_of (V_int i) d \<longleftrightarrow> sk_val d = S_int i"
  "data_of (V_str s) d \<longleftrightarrow> sk_val d = S_str s \<or> sk_val d = S_conststr s"
  by (simp_all add: data_of_def)

lemma data_of_holds: "data_of v d \<Longrightarrow> sk_ref d = None \<Longrightarrow> holds env st d v"
  by (cases v) (auto simp: holds_def data_of_simps plain_def get_val_def)

lemma data_of_plain: "data_of v d \<Longrightarrow> plain d"
  by (cases v) (auto simp: data_of_simps plain_def)

lemma data_of_kind:
  "data_of (V_int i) d \<Longrightarrow> data_isint d \<and> \<not> data_isstring d \<and> int_of d = i"
  "data_of (V_str s) d \<Longrightarrow> \<not> data_isint d \<and> data_isstring d \<and> str_of d = s"
  by (auto simp: data_of_simps data_isint_def data_isstring_def int_of_def str_of_def)

lemma free_plain: "\<forall>d \<in> set ds. plain d \<Longrightarrow> fold free_value ds st = st"
proof (induction ds arbitrary: st)
  case (Cons d ds)
  then have "free_value d st = st"
    by (cases "sk_val d") (auto simp: free_value_def plain_def)
  then show ?case
    using Cons by simp
qed simp

lemma pop_plain:
  assumes b: "below st (length stk)" and p: "\<forall>d \<in> set ds. plain d"
  shows "pop_stack (int (length stk)) (int (length stk + length ds)) (at st (stk @ ds @ ds') pos m) = at st (stk @ ds') pos m"
proof (cases "ds = []")
  case True
  then show ?thesis
    by (simp add: pop_stack_def Let_def at_def)
next
  case False
  then have e: "nat (min (int (length stk + length ds)) (sp (at st (stk @ ds @ ds') pos m))) = length stk + length ds"
    by simp
  have sh: "shift_sp (length stk) (length stk + length ds) x = x" if "x \<le> length stk" for x
    using that by (simp add: shift_sp_def)
  have "pop_stack (int (length stk)) (int (length stk + length ds)) (at st (stk @ ds @ ds') pos m) =
    (fold free_value ds (at st (stk @ ds @ ds') pos m))\<lparr>vm_stack := stk @ ds',
      vm_start := vm_start st, vm_end := vm_end st, vm_defsp := vm_defsp st\<rparr>"
    unfolding pop_stack_def Let_def e using False b by (simp add: below_def sh)
  then show ?thesis
    unfolding free_plain [OF p] by (simp add: at_def)
qed

lemma push_at: "push_data d (at st stk pos m) = at st (stk @ [d]) pos (if m \<le> length stk then m + 64 else m)"
  by (simp add: push_data_def at_def)

lemma removetop_at:
  assumes "below st (length stk)" "\<forall>d \<in> set ds. plain d"
  shows "removetop (- int (length ds + length ds')) (- int (length ds')) (at st (stk @ ds @ ds') pos m) = at st (stk @ ds') pos m"
  using pop_plain [OF assms, of ds' pos m] by (simp add: removetop_def)

lemma get_val_at_holds:
  assumes "holds env st d v"
  shows "\<exists>d'. get_val_at env (int (length stk)) (at st (stk @ d # ds) pos m) = Some (d', at st (stk @ d' # ds) pos m) \<and> data_of v d'"
proof -
  obtain d' where "get_val env d (at st (stk @ d # ds) pos m) = Some (d', at st (stk @ d # ds) pos m)" "data_of v d'"
  proof -
    have "(at st (stk @ d # ds) pos m)\<lparr>vm_start := vm_start st, vm_end := vm_end st\<rparr> = at st (stk @ d # ds) pos m"
      by (simp add: at_def)
    then show thesis
      using assms that unfolding holds_def by metis
  qed
  then show ?thesis
    by (simp add: get_val_at_def get_data_def nth_opt_def)
qed

section \<open>The operators\<close>

lemma op_1_value:
  assumes b: "below st (length stk)" and h: "holds env st d v" and u: "un_value oper v = Some w"
  shows "\<exists>d' m'. op_1 env oper (at st (stk @ [d]) pos m) = Some (at st (stk @ [d']) pos m') \<and> holds env st d' w"
proof -
  obtain i where v: "v = V_int i"
    using u by (cases v) (auto simp: un_value_def)
  obtain d1 where g: "get_val_at env (int (length stk)) (at st (stk @ [d]) pos m) = Some (d1, at st (stk @ [d1]) pos m)" "data_of v d1"
    using get_val_at_holds [OF h, of stk "[]" pos m] by auto
  have r: "removetop (- 1) 0 (at st (stk @ [d1]) pos m) = at st stk pos m"
    using removetop_at [OF b, of "[d1]" "[]" pos m] data_of_plain [OF g(2)] by simp
  have "holds env st \<lparr>sk_val = S_int k, sk_ref = None\<rparr> (V_int k)" for k
    by (rule data_of_holds) (simp_all add: data_of_simps)
  then show ?thesis
    using g u data_of_kind(1) [of i d1] unfolding v
    by (auto simp: op_1_def r push_val_def push_at un_value_def split: if_splits)
qed

lemma push_int: "\<exists>d m'. push_val (S_int k) (at st stk pos m) = at st (stk @ [d]) pos m' \<and> holds env st d (V_int k)"
proof -
  have "holds env st \<lparr>sk_val = S_int k, sk_ref = None\<rparr> (V_int k)"
    by (rule data_of_holds) (simp_all add: data_of_simps)
  then show ?thesis
    unfolding push_val_def push_at by blast
qed

lemma op_2str_value:
  assumes "str_value2 oper s t = Some w"
  shows "\<exists>d' m'. op_2str oper s t (at st stk pos m) = at st (stk @ [d']) pos m' \<and> data_of w d' \<and> sk_ref d' = None"
  using assms by (auto simp: op_2str_def str_value2_def Let_def push_val_def push_at data_of_simps split: if_splits)

text \<open>The conversion of a number that is added to a string.\<close>

lemma conv_str_data:
  "data_of (V_int i) d \<Longrightarrow> conv_str env d st = Some (d\<lparr>sk_val := S_str (take 49 (show_int i))\<rparr>, st)"
  by (simp add: conv_str_def get_val_def data_of_simps)

lemma op_2_value:
  assumes b: "below st (length stk)" and h: "holds env st l v" "holds env st r w" and u: "bin_value oper v w = Some x"
  shows "\<exists>d m'. op_2 env oper (at st (stk @ [l, r]) pos m) = Some (at st (stk @ [d]) pos m') \<and> holds env st d x"
proof -
  obtain l1 where l: "get_val_at env (int (length stk)) (at st (stk @ [l, r]) pos m) = Some (l1, at st (stk @ [l1, r]) pos m)" "data_of v l1"
    using get_val_at_holds [OF h(1), of stk "[r]" pos m] by auto
  obtain r1 where r: "get_val_at env (1 + int (length stk)) (at st (stk @ [l1, r]) pos m) = Some (r1, at st (stk @ [l1, r1]) pos m)" "data_of w r1"
    using get_val_at_holds [OF h(2), of "stk @ [l1]" "[]" pos m] by (auto simp: add.commute)
  have p: "\<forall>d \<in> set [l1, r1]. plain d"
    using data_of_plain l(2) r(2) by auto
  have g: "get_data (int (length stk)) (at st (stk @ [l, r]) pos m) = Some l"
    by (simp add: get_data_def nth_opt_def)
  have nf: "(at st stk' pos m)\<lparr>vm_op2ref := False\<rparr> = at st stk' pos m" for stk'
    using b by (simp add: at_def below_def)
  have top: "sp (at st (stk @ [l, r]) pos m) - 2 = int (length stk)" "sp (at st (stk @ [l, r]) pos m) - 1 = 1 + int (length stk)"
    by simp_all
  have str: "\<exists>d m'. removetop (- 3) (- 1) (op_2str oper s t (at st (stk @ [l1, r1]) pos m)) = at st (stk @ [d]) pos m' \<and> holds env st d x"
    if st2: "str_value2 oper s t = Some x" for s t
  proof -
    obtain d' m' where d': "op_2str oper s t (at st (stk @ [l1, r1]) pos m) = at st (stk @ [l1, r1] @ [d']) pos m'" "data_of x d'" "sk_ref d' = None"
      using op_2str_value [OF st2, of st "stk @ [l1, r1]" pos m] by auto
    then show ?thesis
      using removetop_at [OF b p, of "[d']" pos m'] data_of_holds by auto
  qed
  have num: "\<exists>d m'. op_2num oper i j (removetop (- 2) 0 (at st (stk @ [l1, r1]) pos m)) = Some (at st (stk @ [d]) pos m') \<and> holds env st d (V_int k)"
    if "num_result oper i j = Some (Inr k)" for i j k
    using removetop_at [OF b p, of "[]" pos m] that push_int [of k st stk pos m env] by (auto simp: op_2num_def)
  have bo: "bin_op oper"
    using u by (auto simp: bin_value_def split: if_splits)
  note red = op_2_def Let_def top g nf l(1) r(1) b [unfolded below_def]
  show ?thesis
  proof (cases v)
    case v: (V_int i)
    note li = data_of_kind(1) [OF l(2) [unfolded v]]
    show ?thesis
    proof (cases w)
      case w: (V_int j)
      note ri = data_of_kind(1) [OF r(2) [unfolded w]]
      obtain k where k: "num_result oper i j = Some (Inr k)" "x = V_int k"
        using u v w bo by (auto simp: bin_value_def split: option.splits sum.splits)
      show ?thesis
        using num [OF k(1)] k(2) li ri by (simp add: red)
    next
      case w: (V_str t)
      note rs = data_of_kind(2) [OF r(2) [unfolded w]]
      have a: "oper = C_ADD" "x = V_str (take 49 (show_int i) @ t)"
        using u v w bo by (auto simp: bin_value_def split: if_splits)
      let ?l = "l1\<lparr>sk_val := S_str (take 49 (show_int i))\<rparr>"
      have "data_isstring ?l" "str_of ?l = take 49 (show_int i)" "\<not> data_isint ?l"
        by (simp_all add: data_isstring_def data_isint_def str_of_def)
      then show ?thesis
        using str [of "take 49 (show_int i)" t] a li rs conv_str_data [OF l(2) [unfolded v]] by (simp add: red str_value2_def)
    qed
  next
    case v: (V_str s)
    note ls = data_of_kind(2) [OF l(2) [unfolded v]]
    show ?thesis
    proof (cases w)
      case w: (V_int j)
      note ri = data_of_kind(1) [OF r(2) [unfolded w]]
      have a: "oper = C_ADD" "x = V_str (s @ take 49 (show_int j))"
        using u v w bo by (auto simp: bin_value_def split: if_splits)
      let ?r = "r1\<lparr>sk_val := S_str (take 49 (show_int j))\<rparr>"
      have "data_isstring ?r" "str_of ?r = take 49 (show_int j)" "\<not> data_isint ?r"
        by (simp_all add: data_isstring_def data_isint_def str_of_def)
      then show ?thesis
        using str [of s "take 49 (show_int j)"] a ls ri conv_str_data [OF r(2) [unfolded w]] by (simp add: red str_value2_def)
    next
      case w: (V_str t)
      note rs = data_of_kind(2) [OF r(2) [unfolded w]]
      have "str_value2 oper s t = Some x"
        using u v w bo by (auto simp: bin_value_def)
      from str [OF this] show ?thesis
        using ls rs by (simp add: red)
    qed
  qed
qed

lemma push_copy_holds:
  assumes "plain d" "sk_ref d = None" "i < length stk" "stk ! i = d"
  shows "push_copy (int i) (at st stk pos m) = Some (push_data d (at st stk pos m))"
proof -
  obtain x where "d = \<lparr>sk_val = x, sk_ref = None\<rparr>"
    using assms(2) by (cases d) auto
  then show ?thesis
    using assms by (cases x) (auto simp: push_copy_def get_data_def nth_opt_def push_val_def plain_def)
qed

lemma op_3_value:
  assumes b: "below st (length stk)" and h: "holds env st c u" "holds env st x v" "holds env st y w"
  shows "\<exists>d m'. op_3 env (at st (stk @ [c, x, y]) pos m) = Some (at st (stk @ [d]) pos m') \<and> holds env st d (if truth u then v else w)"
proof -
  obtain c1 where c: "get_val_at env (int (length stk)) (at st (stk @ [c, x, y]) pos m) = Some (c1, at st (stk @ [c1, x, y]) pos m)" "data_of u c1"
    using get_val_at_holds [OF h(1), of stk "[x, y]" pos m] by auto
  have t: "data_isstring c1 \<or> data_isint c1" "data_isstring c1 \<and> str_of c1 \<noteq> [] \<or> data_isint c1 \<and> int_of c1 \<noteq> 0 \<longleftrightarrow> truth u"
    using c(2) data_of_kind [of _ c1] by (cases u; force simp: truth_def)+
  define d where "d = (if truth u then x else y)"
  have hd: "holds env st d (if truth u then v else w)"
    using h by (simp add: d_def)
  have p: "\<forall>d \<in> set [c1, x, y]. plain d"
    using h(2,3) data_of_plain [OF c(2)] by (simp add: holds_def)
  have "push_copy (int ((if truth u then 1 else 2) + length stk)) (at st (stk @ [c1, x, y]) pos m) = Some (push_data d (at st (stk @ [c1, x, y]) pos m))"
    using h by (intro push_copy_holds) (auto simp: d_def holds_def nth_append)
  moreover have "sp (at st (stk @ [c1, x, y]) pos m) - (if truth u then 2 else 1) = int ((if truth u then 1 else 2) + length stk)"
    by simp
  moreover obtain m' where "removetop (- 4) (- 1) (push_data d (at st (stk @ [c1, x, y]) pos m)) = at st (stk @ [d]) pos m'"
    using removetop_at [OF b p, of "[d]" pos] by (auto simp: push_at)
  moreover have "sp (at st (stk @ [c, x, y]) pos m) - 3 = int (length stk)"
    by simp
  ultimately have "op_3 env (at st (stk @ [c, x, y]) pos m) = Some (at st (stk @ [d]) pos m')"
    using c(1) t unfolding op_3_def by (cases "truth u") auto
  then show ?thesis
    using hd by blast
qed

section \<open>Running the code\<close>

fun vm_steps :: "vm_env \<Rightarrow> buildins \<Rightarrow> nat \<Rightarrow> int \<times> int \<times> vm \<Rightarrow> (int \<times> int \<times> vm) option" where
  "vm_steps env fn 0 s = Some s"
| "vm_steps env fn (Suc n) s = (if vm_state (snd (snd s)) \<noteq> RUN then None else do { s \<leftarrow> vm_step env fn s; vm_steps env fn n s })"

lemma vm_steps_add: "vm_steps env fn (n + k) s = do { s \<leftarrow> vm_steps env fn n s; vm_steps env fn k s }"
  by (induction n arbitrary: s) (auto split: bind_splits)

lemma vm_steps_one: "vm_state (snd (snd s)) = RUN \<Longrightarrow> vm_steps env fn 1 s = vm_step env fn s"
  by (cases "vm_step env fn s") simp_all

lemma run_loop_steps: "vm_steps env fn n s = Some s' \<Longrightarrow> run_loop env fn s = run_loop env fn s'"
proof (induction n arbitrary: s)
  case (Suc n)
  obtain s1 where s1: "vm_state (snd (snd s)) = RUN" "vm_step env fn s = Some s1" "vm_steps env fn n s1 = Some s'"
    using Suc.prems by (auto split: if_splits bind_splits)
  then have "run_loop env fn s = run_loop env fn s1"
    by (subst run_loop.simps) simp
  then show ?case
    using Suc.IH [OF s1(3)] by simp
qed simp

text \<open>The state is ready to run commands: enough of them are left and the values are in the code.\<close>

lemma step_op:
  assumes "script_buf env (vm_script st) = xs @ op_num c # ys" "vm_state st = RUN" "\<not> vm_freeloop st" "cmd > 1"
    "exec_com env fn (Some c) got (at st stk (int (length xs) + 1) m) = Some (got, at st stk' pos' m')"
  shows "vm_step env fn (cmd, got, at st stk (int (length xs)) m) = Some (cmd - 1, got, at st stk' pos' m')"
  using assms get_com_op [of xs c ys] by (simp add: vm_step_def count_down_def add.commute)

lemma code_string_bytes: "CHR 0x00 \<notin> set s \<Longrightarrow> code_string (List.map of_char s @ 0 # bs) = Some (s, length s + 1)"
proof (induction s)
  case (Cons c s)
  have "(of_char c :: int) \<noteq> of_char CHR 0x00"
    using Cons.prems by (simp only: of_char_eq_iff) auto
  moreover have "nat (of_char c) = of_char c"
    by (metis nat_int of_nat_of_char)
  ultimately show ?case
    using Cons by simp
qed simp

lemma get_num_at:
  assumes "0 \<le> a"
  shows "get_num (xs @ num_bytes a @ ys) (length xs) = Some (a, length xs + length (num_bytes a))"
  using get_num_num [OF assms, of xs ys] by simp

text \<open>The code of an expression pushes its value and goes on behind it.\<close>

definition runnable :: "vm_env \<Rightarrow> vm \<Rightarrow> expr \<Rightarrow> (nat \<Rightarrow> var_val) \<Rightarrow> bool" where
  "runnable env st e rd \<longleftrightarrow> vm_state st = RUN \<and> \<not> vm_freeloop st \<and> literals_ok e \<and>
     (\<forall>l \<in> refs e. holds env st \<lparr>sk_val = S_name (int l), sk_ref = None\<rparr> (rd l))"

lemma commands_pos: "0 < commands e"
  by (induction e) auto

lemma run_code:
  assumes "runnable env st e rd" "value_of rd e = Some v" "script_buf env (vm_script st) = xs @ code_of e @ ys" "below st (length stk)" "cmd > int (commands e)"
  shows "\<exists>d m'. vm_steps env fn (commands e) (cmd, got, at st stk (int (length xs)) m) =
      Some (cmd - int (commands e), got, at st (stk @ [d]) (int (length (xs @ code_of e))) m') \<and> holds env st d v"
  using assms
proof (induction e arbitrary: v xs ys stk cmd m)
  case (Lit n)
  let ?d = "\<lparr>sk_val = S_int (int n), sk_ref = None\<rparr>"
  have n: "s32 (int n) = int n"
    using Lit.prems(1) by (simp add: runnable_def s32_id)
  have c: "get_com (xs @ num_bytes (int n) @ ys) (length xs) = Some (op_num C_INT, length xs)"
    using get_com_num by simp
  have "vm_step env fn (cmd, got, at st stk (int (length xs)) m) =
      Some (cmd - 1, got, at st (stk @ [?d]) (int (length (xs @ num_bytes (int n)))) (if m \<le> length stk then m + 64 else m))"
    using Lit.prems c get_num_at [of "int n" xs ys]
    by (simp add: vm_step_def exec_com_def Let_def count_down_def runnable_def push_val_def push_at n)
  then show ?case
    using Lit.prems data_of_holds [of v ?d env st] by (force simp: runnable_def data_of_simps)
next
  case (Text s)
  let ?d = "\<lparr>sk_val = S_conststr s, sk_ref = None\<rparr>"
  have dr: "drop (Suc (length xs)) (xs @ op_num C_STR # List.map of_char s @ 0 # ys) = List.map of_char s @ 0 # ys"
    by simp
  have "exec_com env fn (Some C_STR) got (at st stk (int (length xs) + 1) m) =
      Some (got, at st (stk @ [?d]) (int (length (xs @ code_of (Text s)))) (if m \<le> length stk then m + 64 else m))"
    using Text.prems code_string_bytes [of s ys] by (simp add: exec_com_def Let_def runnable_def nat_add_distrib push_val_def push_at)
  from step_op [OF _ _ _ _ this, of "List.map of_char s @ 0 # ys" cmd] show ?case
    using Text.prems data_of_holds [of v ?d env st] by (force simp: runnable_def data_of_simps)
next
  case (Ref l)
  let ?d = "\<lparr>sk_val = S_name (int l), sk_ref = None\<rparr>"
  have "GETVALUE ((xs @ [op_num C_NAME]) @ bytes3 (int l) @ ys) (length (xs @ [op_num C_NAME])) = Some (int l)"
    using Ref.prems(1) by (intro GETVALUE_bytes3) (simp_all add: runnable_def)
  then have "exec_com env fn (Some C_NAME) got (at st stk (int (length xs) + 1) m) =
      Some (got, at st (stk @ [?d]) (int (length (xs @ code_of (Ref l)))) (if m \<le> length stk then m + 64 else m))"
    using Ref.prems by (simp add: exec_com_def Let_def runnable_def nat_add_distrib push_val_def push_at add.commute)
  from step_op [OF _ _ _ _ this, of "bytes3 (int l) @ ys" cmd] show ?case
    using Ref.prems by (force simp: runnable_def)
next
  case (Unop oper a)
  obtain u where u: "value_of rd a = Some u" "un_value oper u = Some v"
    using Unop.prems(2) by (auto split: bind_splits)
  obtain d m1 where a: "vm_steps env fn (commands a) (cmd, got, at st stk (int (length xs)) m) =
      Some (cmd - int (commands a), got, at st (stk @ [d]) (int (length (xs @ code_of a))) m1)" "holds env st d u"
    using Unop.IH [OF _ u(1), of xs "[op_num oper] @ ys" stk cmd m] Unop.prems by (auto simp: runnable_def)
  obtain d' m' where o: "op_1 env oper (at st (stk @ [d]) (int (length (xs @ code_of a)) + 1) m1) = Some (at st (stk @ [d']) (int (length (xs @ code_of a)) + 1) m')" "holds env st d' v"
    using op_1_value [OF Unop.prems(4) a(2) u(2)] by blast
  have "oper \<in> {C_NEG, C_NOT, C_LNOT}"
    using u(2) by (auto simp: un_value_def split: var_val.splits if_splits)
  then have "exec_com env fn (Some oper) got (at st (stk @ [d]) (int (length (xs @ code_of a)) + 1) m1) =
      Some (got, at st (stk @ [d']) (int (length (xs @ code_of a)) + 1) m')"
    using o(1) by (auto simp: exec_com_def Let_def)
  from step_op [OF _ _ _ _ this, of ys "cmd - int (commands a)"] have
    "vm_step env fn (cmd - int (commands a), got, at st (stk @ [d]) (int (length (xs @ code_of a))) m1) =
      Some (cmd - int (commands (Unop oper a)), got, at st (stk @ [d']) (int (length (xs @ code_of (Unop oper a)))) m')"
    using Unop.prems by (simp add: runnable_def algebra_simps)
  then have "vm_steps env fn (commands a + 1) (cmd, got, at st stk (int (length xs)) m) =
      Some (cmd - int (commands (Unop oper a)), got, at st (stk @ [d']) (int (length (xs @ code_of (Unop oper a)))) m')"
    unfolding vm_steps_add a(1) using Unop.prems(1) by (simp add: runnable_def)
  then show ?case
    using o(2) by auto
next
  case (Binop oper a b)
  obtain u w where u: "value_of rd a = Some u" "value_of rd b = Some w" "bin_value oper u w = Some v"
    using Binop.prems(2) by (auto split: bind_splits)
  obtain d m1 where a: "vm_steps env fn (commands a) (cmd, got, at st stk (int (length xs)) m) =
      Some (cmd - int (commands a), got, at st (stk @ [d]) (int (length (xs @ code_of a))) m1)" "holds env st d u"
    using Binop.IH(1) [OF _ u(1), of xs "code_of b @ [op_num oper] @ ys" stk cmd m] Binop.prems by (auto simp: runnable_def)
  have b1: "below st (length (stk @ [d]))"
    using Binop.prems(4) by (simp add: below_def)
  obtain d2 m2 where b: "vm_steps env fn (commands b) (cmd - int (commands a), got, at st (stk @ [d]) (int (length (xs @ code_of a))) m1) =
      Some (cmd - int (commands a) - int (commands b), got, at st (stk @ [d, d2]) (int (length (xs @ code_of a @ code_of b))) m2)" "holds env st d2 w"
    using Binop.IH(2) [OF _ u(2), of "xs @ code_of a" "[op_num oper] @ ys" "stk @ [d]" "cmd - int (commands a)" m1] Binop.prems b1 by (auto simp: runnable_def)
  let ?xs = "xs @ code_of a @ code_of b"
  obtain d' m' where o: "op_2 env oper (at st (stk @ [d, d2]) (int (length ?xs) + 1) m2) = Some (at st (stk @ [d']) (int (length ?xs) + 1) m')" "holds env st d' v"
    using op_2_value [OF Binop.prems(4) a(2) b(2) u(3)] by blast
  have "bin_op oper"
    using u(3) by (auto simp: bin_value_def split: if_splits)
  then have "exec_com env fn (Some oper) got (at st (stk @ [d, d2]) (int (length ?xs) + 1) m2) = Some (got, at st (stk @ [d']) (int (length ?xs) + 1) m')"
    using o(1) by (auto simp: exec_com_def Let_def bin_op_def)
  from step_op [OF _ _ _ _ this, of ys "cmd - int (commands a) - int (commands b)"] have
    "vm_step env fn (cmd - int (commands a) - int (commands b), got, at st (stk @ [d, d2]) (int (length ?xs)) m2) =
      Some (cmd - int (commands (Binop oper a b)), got, at st (stk @ [d']) (int (length (xs @ code_of (Binop oper a b)))) m')"
    using Binop.prems by (simp add: runnable_def algebra_simps)
  then have "vm_steps env fn (commands a + commands b + 1) (cmd, got, at st stk (int (length xs)) m) =
      Some (cmd - int (commands (Binop oper a b)), got, at st (stk @ [d']) (int (length (xs @ code_of (Binop oper a b)))) m')"
    unfolding vm_steps_add a(1) using b(1) Binop.prems(1) by (simp add: runnable_def)
  then show ?case
    using o(2) by auto
next
  case (Cond c x y)
  obtain t u w where u: "value_of rd c = Some t" "value_of rd x = Some u" "value_of rd y = Some w" "v = (if truth t then u else w)"
    using Cond.prems(2) by (auto split: bind_splits)
  obtain d m1 where a: "vm_steps env fn (commands c) (cmd, got, at st stk (int (length xs)) m) =
      Some (cmd - int (commands c), got, at st (stk @ [d]) (int (length (xs @ code_of c))) m1)" "holds env st d t"
    using Cond.IH(1) [OF _ u(1), of xs "code_of x @ code_of y @ [op_num C_OP3] @ ys" stk cmd m] Cond.prems by (auto simp: runnable_def)
  have b1: "below st (length (stk @ [d]))" "below st (length (stk @ [d, d2]))" for d2
    using Cond.prems(4) by (simp_all add: below_def)
  obtain d2 m2 where b: "vm_steps env fn (commands x) (cmd - int (commands c), got, at st (stk @ [d]) (int (length (xs @ code_of c))) m1) =
      Some (cmd - int (commands c) - int (commands x), got, at st (stk @ [d, d2]) (int (length (xs @ code_of c @ code_of x))) m2)" "holds env st d2 u"
    using Cond.IH(2) [OF _ u(2), of "xs @ code_of c" "code_of y @ [op_num C_OP3] @ ys" "stk @ [d]" "cmd - int (commands c)" m1] Cond.prems b1 by (auto simp: runnable_def)
  obtain d3 m3 where c: "vm_steps env fn (commands y) (cmd - int (commands c) - int (commands x), got, at st (stk @ [d, d2]) (int (length (xs @ code_of c @ code_of x))) m2) =
      Some (cmd - int (commands c) - int (commands x) - int (commands y), got, at st (stk @ [d, d2, d3]) (int (length (xs @ code_of c @ code_of x @ code_of y))) m3)" "holds env st d3 w"
    using Cond.IH(3) [OF _ u(3), of "xs @ code_of c @ code_of x" "[op_num C_OP3] @ ys" "stk @ [d, d2]" "cmd - int (commands c) - int (commands x)" m2] Cond.prems b1 by (auto simp: runnable_def)
  let ?xs = "xs @ code_of c @ code_of x @ code_of y"
  obtain d' m' where o: "op_3 env (at st (stk @ [d, d2, d3]) (int (length ?xs) + 1) m3) = Some (at st (stk @ [d']) (int (length ?xs) + 1) m')" "holds env st d' v"
    using op_3_value [OF Cond.prems(4) a(2) b(2) c(2)] u(4) by blast
  then have "exec_com env fn (Some C_OP3) got (at st (stk @ [d, d2, d3]) (int (length ?xs) + 1) m3) = Some (got, at st (stk @ [d']) (int (length ?xs) + 1) m')"
    by (simp add: exec_com_def Let_def)
  from step_op [OF _ _ _ _ this, of ys "cmd - int (commands c) - int (commands x) - int (commands y)"] have
    "vm_step env fn (cmd - int (commands c) - int (commands x) - int (commands y), got, at st (stk @ [d, d2, d3]) (int (length ?xs)) m3) =
      Some (cmd - int (commands (Cond c x y)), got, at st (stk @ [d']) (int (length (xs @ code_of (Cond c x y)))) m')"
    using Cond.prems by (simp add: runnable_def algebra_simps)
  then have "vm_steps env fn (commands c + commands x + commands y + 1) (cmd, got, at st stk (int (length xs)) m) =
      Some (cmd - int (commands (Cond c x y)), got, at st (stk @ [d']) (int (length (xs @ code_of (Cond c x y)))) m')"
    unfolding vm_steps_add a(1) using b(1) c(1) Cond.prems(1) by (simp add: runnable_def)
  then show ?case
    using o(2) by auto
qed

end
