(* ===== verification/ScriptShow.thy ===== *)
theory ScriptShow imports ScriptEval begin

text \<open>
  The text of expressions, with no more parentheses than the levels of the operators ask for, and the proof
  that the parser of \<open>ScriptParse\<close> reads it back: it writes the code of \<open>ScriptEval\<close>.
\<close>

section \<open>Operators\<close>

fun symbol :: "c_op \<Rightarrow> string" where
  "symbol C_ADD = ''+''" | "symbol C_SUB = ''-''" | "symbol C_MUL = ''*''" | "symbol C_DIV = ''/''" | "symbol C_MOD = ''%''"
| "symbol C_LAND = ''&&''" | "symbol C_AND = ''&''" | "symbol C_LOR = ''||''" | "symbol C_OR = ''|''" | "symbol C_XOR = ''^''"
| "symbol C_EQ = ''==''" | "symbol C_NE = ''!=''" | "symbol C_R_SHIFT = ''>>''" | "symbol C_GE = ''>=''" | "symbol C_GT = ''>''"
| "symbol C_L_SHIFT = ''<<''" | "symbol C_LE = ''<=''" | "symbol C_LT = ''<''"
| "symbol C_NEG = ''-''" | "symbol C_LNOT = ''!''" | "symbol C_NOT = ''~''" | "symbol _ = []"

fun level :: "c_op \<Rightarrow> int" where
  "level C_ADD = 8" | "level C_SUB = 8" | "level C_MUL = 9" | "level C_DIV = 9" | "level C_MOD = 9"
| "level C_LAND = 2" | "level C_AND = 6" | "level C_LOR = 1" | "level C_OR = 5" | "level C_XOR = 4"
| "level C_EQ = 3" | "level C_NE = 3" | "level C_R_SHIFT = 7" | "level C_GE = 3" | "level C_GT = 3"
| "level C_L_SHIFT = 7" | "level C_LE = 3" | "level C_LT = 3" | "level _ = 0"

lemma level_range: "bin_op oper \<Longrightarrow> 1 \<le> level oper \<and> level oper \<le> 9"
  by (cases oper) (simp_all add: bin_op_def)

lemma skip_space_blank: "skip_space (CHR '' '' # p) = skip_space p"
  by (subst (1 2) skip_space.simps) (simp add: isspace_def)

lemma skip_space_stay: "\<not> isspace (ch p) \<Longrightarrow> ch p = CHR ''/'' \<Longrightarrow> ch (tl p) \<noteq> CHR ''/'' \<Longrightarrow> ch (tl p) \<noteq> CHR ''*'' \<Longrightarrow> skip_space p = p"
  by (cases p) (subst skip_space.simps, simp)+

lemma skip_space_here: "\<not> isspace (ch p) \<Longrightarrow> ch p \<noteq> CHR ''/'' \<Longrightarrow> skip_space p = p"
  by (cases p) (subst skip_space.simps, simp)+

lemma skip_space_idem: "skip_space (skip_space p) = skip_space p"
proof (induction p rule: skip_space.induct)
  case (1 p)
  let ?q = "dropWhile isspace p"
  consider "ch ?q = CHR ''/''" "ch (tl ?q) = CHR ''/''" | "ch ?q = CHR ''/''" "ch (tl ?q) = CHR ''*''"
    | "\<not> (ch ?q = CHR ''/'' \<and> ch (tl ?q) = CHR ''/'')" "\<not> (ch ?q = CHR ''/'' \<and> ch (tl ?q) = CHR ''*'')"
    by blast
  then show ?case
  proof cases
    case 3
    have "skip_space p = ?q"
      by (subst skip_space.simps) (simp only: Let_def if_not_P [OF 3(1)] if_not_P [OF 3(2)])
    moreover have "skip_space ?q = ?q"
      by (subst skip_space.simps) (simp only: Let_def dropWhile_idem if_not_P [OF 3(1)] if_not_P [OF 3(2)])
    ultimately show ?thesis
      by simp
  qed (use 1 in \<open>subst (2 3) skip_space.simps, simp add: Let_def\<close>)+
qed

lemma op_text:
  assumes "bin_op oper"
  shows "skip_space ('' '' @ symbol oper @ '' '' @ p) = symbol oper @ '' '' @ p" "assign_op (symbol oper @ '' '' @ p) = None"
    "binary_op (symbol oper @ '' '' @ p) = Some (oper, level oper, length (symbol oper))" "ch (symbol oper @ '' '' @ p) \<noteq> CHR ''[''"
proof -
  show "skip_space ('' '' @ symbol oper @ '' '' @ p) = symbol oper @ '' '' @ p"
    using assms by (cases oper) (simp_all add: bin_op_def skip_space_blank skip_space_here skip_space_stay isspace_def between_ch_def)
  show "assign_op (symbol oper @ '' '' @ p) = None"
    using assms by (cases oper) (simp_all add: bin_op_def assign_op_def)
  show "binary_op (symbol oper @ '' '' @ p) = Some (oper, level oper, length (symbol oper))"
    using assms by (cases oper) (simp_all add: bin_op_def binary_op_def)
  show "ch (symbol oper @ '' '' @ p) \<noteq> CHR ''[''"
    using assms by (cases oper) (simp_all add: bin_op_def)
qed

section \<open>What may follow an operand\<close>

text \<open>The end of the text or one of the characters that end words and numbers, and no assignment or index.\<close>

definition operand_end :: "string \<Rightarrow> bool" where
  "operand_end rest \<longleftrightarrow> (rest = [] \<or> hd rest \<in> set '' ):;,]'') \<and> assign_op (skip_space rest) = None \<and> ch (skip_space rest) \<noteq> CHR ''[''"

text \<open>The next operator binds no closer than the given level.\<close>

definition binds :: "int \<Rightarrow> string \<Rightarrow> bool" where
  "binds n rest \<longleftrightarrow> (case binary_op (skip_space rest) of None \<Rightarrow> True | Some (_, opl, _) \<Rightarrow> opl \<le> n)"

lemma ends_ch: "operand_end rest \<Longrightarrow> ch rest = CHR 0x00 \<and> rest = [] \<or> ch rest \<in> set '' ):;,]''"
  by (cases rest) (auto simp: operand_end_def)

section \<open>Numbers\<close>

lemma digit_not_zero: "0 < n \<Longrightarrow> hd (show_nat n) \<noteq> CHR ''0''"
proof (induction n rule: show_nat.induct)
  case (1 n)
  show ?case
  proof (cases "n < 10")
    case True
    then have "(of_char (char_of (48 + n :: nat)) :: nat) \<noteq> of_char CHR ''0''"
      using 1(2) by simp
    then have "char_of (48 + n) \<noteq> CHR ''0''"
      by metis
    then show ?thesis
      using True by (subst show_nat.simps) simp
  next
    case False
    then have "hd (show_nat (n div 10)) \<noteq> CHR ''0''"
      by (intro 1) auto
    then show ?thesis
      using False show_nat_digits [of "n div 10"] by (subst show_nat.simps) simp
  qed
qed

lemma show_zero: "show_nat 0 = ''0''"
  by code_simp

lemma ends_chars:
  assumes "operand_end rest"
  shows "\<not> isdigit (ch rest)" "\<not> isalpha (ch rest)" "ch rest \<noteq> CHR ''_''" "ch rest \<noteq> CHR ''x''" "ch rest \<noteq> CHR ''X''" "ch rest \<noteq> CHR ''$''"
    "ch rest \<noteq> CHR ''@''" "ch rest \<noteq> CHR ''#''" "\<not> is_octal (ch rest)" "ch rest \<noteq> CHR ''[''" "ch rest \<noteq> CHR ''(''"
  using ends_ch [OF assms] by (auto simp: isdigit_def isalpha_def is_octal_def between_ch_def)

lemma digits_low2hex: "(\<forall>c \<in> set ds. isdigit c) \<Longrightarrow> foldl (\<lambda>v c. 10 * v + int (low2hex c)) (int k) ds = int (foldl (\<lambda>v c. 10 * v + digit_val c) k ds)"
proof (induction ds arbitrary: k)
  case (Cons d ds)
  then show ?case
    using Cons.IH [of "10 * k + digit_val d"] by (simp add: low2hex_def)
qed simp

lemma digit_chars:
  assumes "isdigit d"
  shows "d \<noteq> CHR ''-''" "d \<noteq> CHR ''+''" "d \<noteq> CHR ''x''" "d \<noteq> CHR ''X''" "d \<noteq> CHR 0x22" "d \<noteq> CHR ''(''" "d \<noteq> CHR '';''" "d \<noteq> CHR '',''"
  using assms by (auto simp: isdigit_def between_ch_def)

lemma number_is_number:
  assumes r: "operand_end rest" and d: "\<forall>c \<in> set (d # ds). isdigit c"
  shows "is_number (d # ds @ rest)"
proof -
  note e = ends_chars [OF r]
  have dr: "dropWhile isdigit (d # ds @ rest) = rest"
    using takeWhile_stop [of "d # ds" isdigit rest] d e(1) by simp
  have x: "ch (ds @ rest) \<noteq> CHR ''x''"
    using d e(4) digit_chars(3) by (cases ds) auto
  have len: "d # ds @ rest \<noteq> rest"
    by (metis append_Cons append_self_conv2 list.distinct(1))
  have "is_number (d # ds @ rest) \<longleftrightarrow> d # ds @ rest \<noteq> dropWhile isdigit (d # ds @ rest) \<and> ch (dropWhile isdigit (d # ds @ rest)) \<noteq> CHR ''_'' \<and>
      \<not> isalpha (ch (dropWhile isdigit (d # ds @ rest)))"
    using x digit_chars(1,2) [of d] d by (simp add: is_number_def Let_def del: dropWhile.simps)
  then show ?thesis
    unfolding dr using len e by simp
qed

lemma strtoll_digits:
  assumes r: "operand_end rest" and d: "\<forall>c \<in> set (d # ds). isdigit c" "d \<noteq> CHR ''0''" and n: "digits_val (d # ds) < 2 ^ 31"
  shows "strtoll (d # ds @ rest) = (int (digits_val (d # ds)), rest)"
proof -
  have t: "takeWhile isdigit (d # ds @ rest) = d # ds" "dropWhile isdigit (d # ds @ rest) = rest"
    using takeWhile_stop [of "d # ds" isdigit rest] d(1) ends_chars(1) [OF r] by simp_all
  have "foldl (\<lambda>v c. 10 * v + int (low2hex c)) 0 (d # ds) = int (digits_val (d # ds))"
    using digits_low2hex [OF d(1), of 0] by (simp add: digits_val_def)
  moreover have "number_base (d # ds @ rest) = (10, isdigit, d # ds @ rest)"
    using d(2) by (simp add: number_base_def)
  ultimately show ?thesis
    using t n digit_chars(1,2) [of d] d(1) by (simp add: strtoll_def Let_def del: dropWhile.simps takeWhile.simps foldl.simps)
qed

lemma number_text:
  assumes r: "operand_end rest" and n: "n < 2 ^ 31"
  shows "is_number (show_nat n @ rest)" "strtoll (skip_zeros (show_nat n @ rest)) = (int n, rest)"
proof -
  note e = ends_chars [OF r]
  obtain d ds where ds: "show_nat n = d # ds"
    using show_nat_digits [of n] by (cases "show_nat n") auto
  have dig: "\<forall>c \<in> set (d # ds). isdigit c" "digits_val (d # ds) = n"
    using show_nat_digits [of n] unfolding ds by simp_all
  show "is_number (show_nat n @ rest)"
    using number_is_number [OF r dig(1)] by (simp add: ds)
  show "strtoll (skip_zeros (show_nat n @ rest)) = (int n, rest)"
  proof (cases "n = 0")
    case True
    have "skip_zeros (CHR ''0'' # rest) = CHR ''0'' # rest"
      using e(1) by (cases rest) simp_all
    moreover have "takeWhile is_octal (CHR ''0'' # rest) = ''0''" "dropWhile is_octal (CHR ''0'' # rest) = rest"
    proof -
      have z: "is_octal CHR ''0''"
        by code_simp
      show "takeWhile is_octal (CHR ''0'' # rest) = ''0''" "dropWhile is_octal (CHR ''0'' # rest) = rest"
        using e(9) z by (cases rest; simp)+
    qed
    moreover have "number_base (CHR ''0'' # rest) = (8, is_octal, CHR ''0'' # rest)"
      using e(4,5) by (simp add: number_base_def)
    moreover have "low2hex CHR ''0'' = 0"
      by code_simp
    ultimately show ?thesis
      by (simp add: True show_zero strtoll_def Let_def del: takeWhile.simps dropWhile.simps)
  next
    case False
    then have nz: "d \<noteq> CHR ''0''"
      using digit_not_zero [of n] ds by simp
    then have "skip_zeros (d # ds @ rest) = d # ds @ rest"
      by (cases "ds @ rest") simp_all
    then show ?thesis
      using strtoll_digits [OF r dig(1) nz] n dig(2) by (simp add: ds)
  qed
qed

section \<open>Words\<close>

definition wordlike :: "string \<Rightarrow> bool" where
  "wordlike w \<longleftrightarrow> w \<noteq> [] \<and> skip_word w = [] \<and> \<not> isdigit (hd w)"

lemma drop_ends:
  assumes "operand_end rest" "dropWhile is_word_char w = [] \<or> dropWhile is_word_char w = ''$''"
  shows "(let p = dropWhile is_word_char (w @ rest) in if ch p = CHR ''$'' then tl p else p) = rest"
proof -
  note e = ends_chars [OF assms(1)]
  have n: "\<not> is_word_char (ch rest)"
    using e by (simp add: is_word_char_def isalnum_def)
  then have r: "dropWhile is_word_char rest = rest"
    by (cases rest) auto
  show ?thesis
  proof (cases "\<forall>c \<in> set w. is_word_char c")
    case True
    then have "dropWhile is_word_char (w @ rest) = rest"
      using r by (simp add: dropWhile_append)
    then show ?thesis
      using e(6) by (simp add: Let_def)
  next
    case False
    then have "dropWhile is_word_char (w @ rest) = dropWhile is_word_char w @ rest" "dropWhile is_word_char w = ''$''"
      using assms(2) by (auto simp: dropWhile_append dropWhile_eq_Nil_conv)
    then show ?thesis
      by (simp add: Let_def)
  qed
qed

lemma tail_word: "skip_word w = [] \<Longrightarrow> dropWhile is_word_char (skip_prefix w) = [] \<or> dropWhile is_word_char (skip_prefix w) = ''$''"
  by (cases "dropWhile is_word_char (skip_prefix w)") (auto simp: skip_word_def Let_def split: if_splits)

lemma prefix_ends:
  assumes "operand_end rest" "w \<noteq> []"
  shows "skip_prefix (w @ rest) = skip_prefix w @ rest"
proof -
  note e = ends_chars [OF assms(1)]
  obtain c v where "w = c # v"
    using assms(2) by (cases w) auto
  then show ?thesis
    using e by (cases v) (auto simp: skip_prefix_def)
qed

lemma word_text:
  assumes r: "operand_end rest" and w: "wordlike w"
  shows "skip_word (w @ rest) = rest" "the_word (w @ rest) = w" "\<not> is_number (w @ rest)"
proof -
  have w': "w \<noteq> []" "skip_word w = []" "\<not> isdigit (hd w)"
    using w by (simp_all add: wordlike_def)
  show s: "skip_word (w @ rest) = rest"
    unfolding skip_word_def prefix_ends [OF r w'(1)] by (rule drop_ends [OF r tail_word [OF w'(2)]])
  show "the_word (w @ rest) = w"
    by (simp add: the_word_def s)
  obtain c v where c: "w = c # v"
    using w'(1) by (cases w) auto
  have "c \<noteq> CHR ''-''" "c \<noteq> CHR ''+''"
    using w'(2) by (auto simp: c skip_word_def skip_prefix_def is_word_char_def isalnum_def isalpha_def isdigit_def between_ch_def)
  moreover have "\<not> isdigit c" "c \<noteq> CHR ''0''"
    using w'(3) by (auto simp: c isdigit_def between_ch_def)
  ultimately show "\<not> is_number (w @ rest)"
    by (simp add: is_number_def c)
qed

end
