(* ===== verification/ScriptLinks.thy ===== *)
theory ScriptLinks imports ScriptSym begin

text \<open>
  Code with references to any number of words (\<^verbatim>\<open>src/map/script.c\<close>, \<open>add_scriptl\<close> and the end of \<open>parse_script\<close>):
  the references of each word are threaded through the buffer, and resolving the words one after the other
  gives the code that would have been written had they been known to be variables.
\<close>

section \<open>Pieces of code\<close>

datatype piece = Bytes "int list" | Refer nat

fun write_pieces :: "piece list \<Rightarrow> int list \<times> str_table \<Rightarrow> (int list \<times> str_table) option" where
  "write_pieces [] s = Some s"
| "write_pieces (Bytes bs # ps) s = write_pieces ps (fst s @ bs, snd s)"
| "write_pieces (Refer l # ps) s = do { s \<leftarrow> add_scriptl l s; write_pieces ps s }"

lemma write_pieces_append: "write_pieces (ps @ qs) s = do { s \<leftarrow> write_pieces ps s; write_pieces qs s }"
  by (induction ps s rule: write_pieces.induct) (simp_all cong: Option.bind_cong)

text \<open>The code when all words are variables.\<close>

fun closed :: "piece list \<Rightarrow> int list" where
  "closed [] = []"
| "closed (Bytes bs # ps) = bs @ closed ps"
| "closed (Refer l # ps) = op_num C_NAME # bytes3 (int l) @ closed ps"

lemma closed_append [simp]: "closed (ps @ qs) = closed ps @ closed qs"
  by (induction ps rule: closed.induct) simp_all

fun words :: "piece list \<Rightarrow> nat set" where
  "words [] = {}"
| "words (Bytes bs # ps) = words ps"
| "words (Refer l # ps) = insert l (words ps)"

lemma words_append [simp]: "words (ps @ qs) = words ps \<union> words qs"
  by (induction ps rule: words.induct) auto

section \<open>The threaded references\<close>

text \<open>
  The pieces are given with the last one first. \<open>thread l ps\<close> is the last reference to the word, \<open>linked_code S ps\<close>
  the buffer after the words of \<open>S\<close> have been resolved.
\<close>

fun thread :: "nat \<Rightarrow> piece list \<Rightarrow> int" where
  "thread l [] = - 1"
| "thread l (Bytes bs # ps) = thread l ps"
| "thread l (Refer k # ps) = (if k = l then int (length (closed ps)) + 1 else thread l ps)"

fun linked_code :: "nat set \<Rightarrow> piece list \<Rightarrow> int list" where
  "linked_code S [] = []"
| "linked_code S (Bytes bs # ps) = linked_code S ps @ bs"
| "linked_code S (Refer k # ps) = linked_code S ps @ op_num C_NAME # bytes3 (if k \<in> S then int k else thread k ps)"

lemma length_linked: "length (linked_code S ps) = length (closed ps)"
  by (induction S ps rule: linked_code.induct) simp_all

lemma linked_closed: "words ps \<subseteq> S \<Longrightarrow> linked_code S ps = closed (rev ps)"
  by (induction S ps rule: linked_code.induct) auto

lemma linked_same: "l \<notin> words ps \<Longrightarrow> linked_code (insert l S) ps = linked_code S ps"
  by (induction S ps rule: linked_code.induct) auto

lemma linked_few: "words ps \<inter> S = {} \<Longrightarrow> linked_code S ps = linked_code {} ps"
  by (induction S ps rule: linked_code.induct) auto

lemma patches_more: "patches c n buf bp buf' \<Longrightarrow> patches c n (buf @ bs) bp (buf' @ bs)"
  by (auto simp: patches_def)

lemma patches_linked:
  assumes "l \<notin> S" "length (closed ps) < 0xffffff"
  shows "patches None (int l) (linked_code S ps) (thread l ps) (linked_code (insert l S) ps)"
  using assms(2)
proof (induction ps)
  case Nil
  show ?case
    by (simp add: patches_def)
next
  case (Cons p ps)
  then have IH: "patches None (int l) (linked_code S ps) (thread l ps) (linked_code (insert l S) ps)"
    by (cases p) simp_all
  show ?case
  proof (cases p)
    case (Bytes bs)
    then show ?thesis
      using patches_more [OF IH] by simp
  next
    case (Refer k)
    show ?thesis
    proof (cases "k = l")
      case True
      then show ?thesis
        using patches_step [OF IH] Cons.prems assms(1) Refer by (simp add: length_linked)
    next
      case False
      then show ?thesis
        using patches_more [OF IH] Refer by auto
    qed
  qed
qed

lemma patch_linked:
  assumes "l \<notin> S" "length (closed ps) < 0xffffff"
  shows "patch_loop None (int l) (linked_code S ps) (thread l ps) = Some (linked_code (insert l S) ps)"
  using patches_linked [OF assms] patch_end(1) by (auto simp: patches_def dest: spec [of _ "[]"])

section \<open>Writing and resolving\<close>

definition variable_type :: "c_op \<Rightarrow> bool" where
  "variable_type t \<longleftrightarrow> t \<in> {C_NOP, C_NAME, C_PARAM}"

definition pending :: "piece list \<Rightarrow> int list \<times> str_table \<Rightarrow> bool" where
  "pending ps = (\<lambda>(buf, tab). buf = linked_code {} ps \<and>
     (\<forall>l < length (st_data tab). sd_type (st_data tab ! l) = C_NOP \<longrightarrow> sd_backpatch (st_data tab ! l) = thread l ps) \<and>
     (\<forall>l \<in> words ps. LABEL_START \<le> l \<and> l < length (st_data tab) \<and> sd_type (st_data tab ! l) = C_NOP))"

text \<open>The tables differ in the references only.\<close>

definition same_names :: "str_table \<Rightarrow> str_table \<Rightarrow> bool" where
  "same_names tab tab' \<longleftrightarrow> st_hash tab' = st_hash tab \<and>
     List.map (sd_backpatch_update (\<lambda>_. 0)) (st_data tab') = List.map (sd_backpatch_update (\<lambda>_. 0)) (st_data tab)"

lemma same_names_refl: "same_names tab tab"
  by (simp add: same_names_def)

lemma same_names_trans: "same_names a b \<Longrightarrow> same_names b c \<Longrightarrow> same_names a c"
  by (simp add: same_names_def)

lemma same_names_data:
  assumes "same_names tab tab'"
  shows "length (st_data tab') = length (st_data tab)"
    "i < length (st_data tab) \<Longrightarrow> sd_type (st_data tab' ! i) = sd_type (st_data tab ! i) \<and> sd_str (st_data tab' ! i) = sd_str (st_data tab ! i) \<and>
       sd_next (st_data tab' ! i) = sd_next (st_data tab ! i) \<and> sd_label (st_data tab' ! i) = sd_label (st_data tab ! i) \<and> sd_val (st_data tab' ! i) = sd_val (st_data tab ! i)"
proof -
  have m: "List.map (sd_backpatch_update (\<lambda>_. 0)) (st_data tab') = List.map (sd_backpatch_update (\<lambda>_. 0)) (st_data tab)"
    using assms by (simp add: same_names_def)
  then show l: "length (st_data tab') = length (st_data tab)"
    by (rule map_eq_imp_length_eq)
  assume i: "i < length (st_data tab)"
  have "sd_backpatch_update (\<lambda>_. 0) (st_data tab' ! i) = sd_backpatch_update (\<lambda>_. 0) (st_data tab ! i)"
    using arg_cong [OF m, of "\<lambda>xs. xs ! i"] i l by simp
  then show "sd_type (st_data tab' ! i) = sd_type (st_data tab ! i) \<and> sd_str (st_data tab' ! i) = sd_str (st_data tab ! i) \<and>
       sd_next (st_data tab' ! i) = sd_next (st_data tab ! i) \<and> sd_label (st_data tab' ! i) = sd_label (st_data tab ! i) \<and> sd_val (st_data tab' ! i) = sd_val (st_data tab ! i)"
    by (cases "st_data tab' ! i"; cases "st_data tab ! i") simp
qed

lemma same_names_buckets:
  assumes "same_names tab tab'"
  shows "bucket_list (st_data tab') h = bucket_list (st_data tab) h"
  using same_names_data [OF assms] unfolding bucket_list_def by (auto intro: filter_cong)

lemma same_names_ok:
  assumes s: "same_names tab tab'" and T: "table_ok tab"
  shows "table_ok tab'"
proof -
  note d = same_names_data [OF s] same_names_buckets [OF s]
  have "linked (st_data tab') (bucket_list (st_data tab) h) = linked (st_data tab) (bucket_list (st_data tab) h)" for h
    by (intro linked_cong) (use d(2) bucket_bounds in simp)
  moreover have "st_hash tab' = st_hash tab"
    using s by (simp add: same_names_def)
  moreover have "\<not> strcaseeq (sd_str (st_data tab' ! i)) (sd_str (st_data tab' ! j))"
    if "LABEL_START \<le> i \<and> i < j \<and> j < length (st_data tab)" for i j
  proof -
    have "\<not> strcaseeq (sd_str (st_data tab ! i)) (sd_str (st_data tab ! j))"
      using T that unfolding table_ok_def by blast
    then show ?thesis
      using that d(2) [of i] d(2) [of j] by simp
  qed
  ultimately show ?thesis
    using T unfolding table_ok_def d(1,3) by simp
qed

lemma same_names_find:
  assumes "same_names tab tab'"
  shows "find_word tab' w = find_word tab w"
  unfolding find_word_def same_names_data(1) [OF assms]
  by (rule find_cong) (simp_all add: same_names_data(2) [OF assms])

lemma same_names_upd: "same_names tab (upd_data l (\<lambda>d. d\<lparr>sd_backpatch := n\<rparr>) tab)"
proof (cases "l < length (st_data tab)")
  case True
  have "sd_backpatch_update (\<lambda>_. 0) (st_data tab ! l) = List.map (sd_backpatch_update (\<lambda>_. 0)) (st_data tab) ! l"
    using True by simp
  then show ?thesis
    using True by (simp add: same_names_def upd_data_def map_update del: nth_map)
next
  case False
  then show ?thesis
    by (simp add: same_names_def upd_data_def list_update_beyond)
qed

lemma add_scriptl_names: "add_scriptl l (buf, tab) = Some (buf', tab') \<Longrightarrow> same_names tab tab'"
  using same_names_refl same_names_upd unfolding add_scriptl_def by (auto simp: Let_def split: bind_splits c_op.splits)

lemma write_names: "write_pieces ps s = Some s' \<Longrightarrow> same_names (snd s) (snd s')"
proof (induction ps s rule: write_pieces.induct)
  case (3 l ps s)
  then obtain s1 where s1: "add_scriptl l s = Some s1" "write_pieces ps s1 = Some s'"
    by (auto split: bind_splits)
  then show ?case
    using 3(1) [OF s1] add_scriptl_names [of l "fst s" "snd s" "fst s1" "snd s1"] same_names_trans by auto
qed (simp_all add: same_names_refl)

lemma write_word:
  assumes "pending ps (buf, tab)" "LABEL_START \<le> l" "l < length (st_data tab)" "variable_type (sd_type (st_data tab ! l))"
  shows "\<exists>ps' s'. add_scriptl l (buf, tab) = Some s' \<and> pending ps' s' \<and> closed (rev ps') = closed (rev ps) @ op_num C_NAME # bytes3 (int l)"
proof (cases "sd_type (st_data tab ! l) = C_NOP")
  case True
  let ?s = "(buf @ op_num C_NAME # bytes3 (thread l ps), upd_data l (\<lambda>d. d\<lparr>sd_backpatch := int (length buf) + 1\<rparr>) tab)"
  have "add_scriptl l (buf, tab) = Some ?s"
    using assms True by (simp add: add_scriptl_def nth_opt_def add_scriptc_byte add_3bytes_bytes Let_def add.commute pending_def)
  moreover have "pending (Refer l # ps) ?s"
    using assms True by (auto simp: pending_def upd_data_def nth_list_update length_linked)
  ultimately show ?thesis
    by (intro exI [of _ "Refer l # ps"]) simp
next
  case False
  let ?s = "(buf @ op_num C_NAME # bytes3 (int l), tab)"
  have "add_scriptl l (buf, tab) = Some ?s"
    using assms False by (auto simp: add_scriptl_def nth_opt_def add_scriptc_byte add_3bytes_bytes variable_type_def)
  moreover have "pending (Bytes (op_num C_NAME # bytes3 (int l)) # ps) ?s"
    using assms by (simp add: pending_def)
  ultimately show ?thesis
    by (intro exI [of _ "Bytes (op_num C_NAME # bytes3 (int l)) # ps"]) simp
qed

lemma write_pending:
  assumes "pending qs s" "\<forall>l \<in> words ps. LABEL_START \<le> l \<and> l < length (st_data (snd s)) \<and> variable_type (sd_type (st_data (snd s) ! l))"
  shows "\<exists>qs' s'. write_pieces ps s = Some s' \<and> pending qs' s' \<and> closed (rev qs') = closed (rev qs) @ closed ps"
  using assms
proof (induction ps s arbitrary: qs rule: write_pieces.induct)
  case (2 bs ps s)
  have "pending (Bytes bs # qs) (fst s @ bs, snd s)"
    using 2(2) by (simp add: pending_def case_prod_unfold)
  from 2(1) [OF this] 2(3) show ?case
    by simp
next
  case (3 l ps s)
  obtain qs1 s1 where s1: "add_scriptl l s = Some s1" "pending qs1 s1" "closed (rev qs1) = closed (rev qs) @ op_num C_NAME # bytes3 (int l)"
    using write_word [of qs "fst s" "snd s" l] 3(2,3) by auto
  have "same_names (snd s) (snd s1)"
    using add_scriptl_names [of l "fst s" "snd s" "fst s1" "snd s1"] s1(1) by simp
  then have "\<forall>l \<in> words ps. LABEL_START \<le> l \<and> l < length (st_data (snd s1)) \<and> variable_type (sd_type (st_data (snd s1) ! l))"
    using 3(3) same_names_data by simp
  from 3(1) [OF s1(1,2) this] show ?case
    using s1(1,3) by auto
qed auto

text \<open>One word after the other is resolved.\<close>

definition halfway :: "piece list \<Rightarrow> nat \<Rightarrow> int list \<times> str_table \<Rightarrow> bool" where
  "halfway ps i = (\<lambda>(buf, tab). buf = linked_code {..<i} ps \<and>
     (\<forall>l < length (st_data tab). i \<le> l \<and> sd_type (st_data tab ! l) = C_NOP \<longrightarrow> sd_backpatch (st_data tab ! l) = thread l ps) \<and>
     (\<forall>l \<in> words ps. l < length (st_data tab) \<and> (i \<le> l \<longrightarrow> sd_type (st_data tab ! l) = C_NOP)))"

lemma default_halfway:
  assumes h: "halfway ps i (buf, tab)" and i: "i < length (st_data tab)" and n: "length (closed ps) < 0xffffff"
  shows "\<exists>un' buf' tab'. default_ref i (un, buf, tab) = Some (un', buf', tab') \<and> halfway ps (Suc i) (buf', tab') \<and> length (st_data tab') = length (st_data tab)"
proof (cases "sd_type (st_data tab ! i) = C_NOP")
  case True
  have "patch_loop None (int i) buf (sd_backpatch (st_data tab ! i)) = Some (linked_code {..<Suc i} ps)"
    using patch_linked [of i "{..<i}" ps] h i n True by (simp add: halfway_def lessThan_Suc)
  moreover have "halfway ps (Suc i) (linked_code {..<Suc i} ps, upd_data i (\<lambda>d. d\<lparr>sd_type := C_NAME, sd_label := int i\<rparr>) tab)"
    using h by (auto simp: halfway_def upd_data_def nth_list_update)
  ultimately show ?thesis
    using i True by (simp add: default_ref_def nth_opt_def upd_data_def)
next
  case False
  then have "i \<notin> words ps"
    using h by (auto simp: halfway_def)
  then have "halfway ps (Suc i) (buf, tab)"
    using h linked_same [of i ps "{..<i}"] by (auto simp: halfway_def lessThan_Suc)
  then show ?thesis
    using i False by (simp add: default_ref_def nth_opt_def)
qed

lemma default_all:
  assumes "halfway ps i (buf, tab)" "i \<le> length (st_data tab)" "length (closed ps) < 0xffffff"
  shows "\<exists>un' buf' tab'. default_refs [i ..< length (st_data tab)] (un, buf, tab) = Some (un', buf', tab') \<and> halfway ps (length (st_data tab)) (buf', tab')"
  using assms
proof (induction "length (st_data tab) - i" arbitrary: i un buf tab)
  case 0
  then show ?case
    by simp
next
  case (Suc n)
  obtain un1 buf1 tab1 where s1: "default_ref i (un, buf, tab) = Some (un1, buf1, tab1)" "halfway ps (Suc i) (buf1, tab1)" "length (st_data tab1) = length (st_data tab)"
    using default_halfway [OF Suc.prems(1) _ Suc.prems(3)] Suc.hyps(2) by fastforce
  have "[i ..< length (st_data tab)] = i # [Suc i ..< length (st_data tab)]"
    using Suc.hyps(2) by (simp add: upt_conv_Cons)
  then show ?case
    using s1 Suc.hyps(1) [of tab1 "Suc i" buf1 un1] Suc.hyps(2) Suc.prems by simp
qed

lemma resolve_pending:
  assumes "pending ps (buf, tab)" "LABEL_START \<le> length (st_data tab)" "length (closed ps) < 0xffffff"
  shows "\<exists>un tab'. resolve_names (buf, tab) = Some (un, closed (rev ps), tab')"
proof -
  have w: "linked_code {..<LABEL_START} ps = linked_code {} ps"
    using assms(1) by (intro linked_few) (force simp: pending_def)
  have "halfway ps LABEL_START (buf, tab)"
    using assms(1) w by (auto simp: halfway_def pending_def)
  from default_all [OF this assms(2,3), of False] obtain un' buf' tab' where
    "resolve_names (buf, tab) = Some (un', buf', tab')" "halfway ps (length (st_data tab)) (buf', tab')"
    by (auto simp: resolve_names_def)
  moreover have "words ps \<subseteq> {..<length (st_data tab)}"
    using assms(1) by (auto simp: pending_def)
  ultimately show ?thesis
    using linked_closed [of ps "{..<length (st_data tab)}"] by (auto simp: halfway_def)
qed

end
