(* ===== verification/ScriptReads.thy ===== *)
theory ScriptReads imports ScriptShow ScriptLinks begin

text \<open>
  The parser reads the text of an expression and writes its code.
\<close>

section \<open>Strings\<close>

lemma escaped_skip:
  assumes "c \<in> {CHR 0x0D, CHR 0x0A, CHR 0x5C, CHR 0x22}"
  shows "\<exists>d e. escape_char [CHR 0x22] c = CHR 0x5C # e @ [d] \<and> of_char d \<le> (0x7e :: nat) \<and> skip_escaped_c (escape_char [CHR 0x22] c @ p) = p"
proof -
  have o: "octal_digits CHR 0x22 = ''042''"
    by code_simp
  have b: "is_octal CHR ''4''" "is_octal CHR ''2''"
    by code_simp+
  have q: "escape_char [CHR 0x22] CHR 0x22 = CHR 0x5C # ''04'' @ ''2''"
    by (simp add: escape_char_def o)
  consider "c = CHR 0x0D" | "c = CHR 0x0A" | "c = CHR 0x5C" | "c = CHR 0x22"
    using assms by blast
  then show ?thesis
  proof cases
    case 4
    have "skip_escaped_c (escape_char [CHR 0x22] c @ p) = p"
      unfolding 4 q using b by (simp add: skip_escaped_c_def Let_def)
    then show ?thesis
      unfolding 4 q by (intro exI [of _ "CHR ''2''"] exI [of _ "''04''"]) simp
  qed (simp_all add: escape_char_def skip_escaped_c_def SV_ESCAPE_C_SUPPORTED_def)
qed

lemma string_text:
  assumes "\<forall>c \<in> set s. of_char c \<le> (0x7e :: nat) \<and> c \<noteq> CHR 0x00" "of_char prev \<le> (0x7e :: nat)"
  shows "parse_string prev (sv_escape_c s [CHR 0x22] @ CHR 0x22 # p) = Some (List.map of_char s, p)"
  using assms
proof (induction s arbitrary: prev)
  case Nil
  then show ?case
    by (simp add: sv_escape_c_def parse_string.simps)
next
  case (Cons c s)
  let ?r = "sv_escape_c s [CHR 0x22] @ CHR 0x22 # p"
  have t: "sv_escape_c (c # s) [CHR 0x22] @ CHR 0x22 # p = escape_char [CHR 0x22] c @ ?r"
    by (simp add: sv_escape_c_def)
  show ?case
  proof (cases "c \<in> {CHR 0x0D, CHR 0x0A, CHR 0x5C, CHR 0x22}")
    case True
    obtain d e where e: "escape_char [CHR 0x22] c = CHR 0x5C # e @ [d]" "of_char d \<le> (0x7e :: nat)" "skip_escaped_c (escape_char [CHR 0x22] c @ ?r) = ?r"
      using escaped_skip [OF True] by blast
    have "sv_unescape_c (CHR 0x5C # e @ [d]) = [c]"
      using unescape_escape_char [of "[CHR 0x22]" c "[]"] unfolding e(1) by simp
    moreover have "parse_string d ?r = Some (List.map of_char s, p)"
      using Cons.prems e(2) by (intro Cons.IH) auto
    ultimately show ?thesis
      unfolding t e(1) using e(3) Cons.prems(2) by (simp add: parse_string.simps [of prev] e(1) Let_def del: sv_unescape_c.simps)
  next
    case False
    then have "escape_char [CHR 0x22] c = [c]" "c \<noteq> CHR 0x22" "c \<noteq> CHR 0x5C" "c \<noteq> CHR 0x0A"
      using Cons.prems(1) by (simp_all add: escape_char_def)
    then show ?thesis
      unfolding t using Cons.prems Cons.IH [of c] by (simp add: parse_string.simps [of prev])
  qed
qed

section \<open>What an expression leaves of the state\<close>

text \<open>The code is longer, and the parentheses in an argument list have been counted.\<close>

definition steady :: "parser \<Rightarrow> parser \<Rightarrow> piece list \<Rightarrow> bool" where
  "steady s s' ps \<longleftrightarrow> s' = s\<lparr>ps_buf := ps_buf s', ps_tab := ps_tab s', ps_curly := ps_curly s'\<rparr> \<and>
     List.map (cu_count_update (\<lambda>_. 0)) (ps_curly s') = List.map (cu_count_update (\<lambda>_. 0)) (ps_curly s) \<and>
     write_pieces ps (ps_buf s, ps_tab s) = Some (ps_buf s', ps_tab s')"

definition settled :: "parser \<Rightarrow> bool" where
  "settled s \<longleftrightarrow> \<not> (in_arglist s \<and> cu_flag (ps_curly s ! (ps_count s - 1)) = ARGLIST_UNDEFINED)"

lemma steady_refl: "steady s s []"
  by (simp add: steady_def)

lemma steady_fields:
  assumes "steady s s' bs"
  shows "same_names (ps_tab s) (ps_tab s')" "ps_count s' = ps_count s"
proof -
  show "same_names (ps_tab s) (ps_tab s')"
    using assms write_names [of bs "(ps_buf s, ps_tab s)" "(ps_buf s', ps_tab s')"] by (simp add: steady_def)
  have "s' = s\<lparr>ps_buf := ps_buf s', ps_tab := ps_tab s', ps_curly := ps_curly s'\<rparr>"
    using assms by (simp add: steady_def)
  then show "ps_count s' = ps_count s"
    by (cases s; cases s') simp
qed

lemma steady_trans:
  assumes "steady s s1 bs" "steady s1 s2 cs"
  shows "steady s s2 (bs @ cs)"
proof -
  have "s2 = s1\<lparr>ps_buf := ps_buf s2, ps_tab := ps_tab s2, ps_curly := ps_curly s2\<rparr>" "s1 = s\<lparr>ps_buf := ps_buf s1, ps_tab := ps_tab s1, ps_curly := ps_curly s1\<rparr>"
    using assms by (simp_all add: steady_def)
  then have "s2 = s\<lparr>ps_buf := ps_buf s2, ps_tab := ps_tab s2, ps_curly := ps_curly s2\<rparr>"
    by (cases s; cases s1; cases s2) simp
  then show ?thesis
    using assms by (simp add: steady_def write_pieces_append)
qed

lemma steady_curly:
  assumes "steady s s' bs"
  shows "length (ps_curly s') = length (ps_curly s)" "i < length (ps_curly s) \<Longrightarrow> cu_type (ps_curly s' ! i) = cu_type (ps_curly s ! i) \<and> cu_flag (ps_curly s' ! i) = cu_flag (ps_curly s ! i)"
proof -
  have m: "List.map (cu_count_update (\<lambda>_. 0)) (ps_curly s') = List.map (cu_count_update (\<lambda>_. 0)) (ps_curly s)"
    using assms by (simp add: steady_def)
  then show l: "length (ps_curly s') = length (ps_curly s)"
    by (rule map_eq_imp_length_eq)
  assume i: "i < length (ps_curly s)"
  have "cu_count_update (\<lambda>_. 0) (ps_curly s' ! i) = cu_count_update (\<lambda>_. 0) (ps_curly s ! i)"
    using arg_cong [OF m, of "\<lambda>xs. xs ! i"] i l by simp
  then show "cu_type (ps_curly s' ! i) = cu_type (ps_curly s ! i) \<and> cu_flag (ps_curly s' ! i) = cu_flag (ps_curly s ! i)"
    by (metis curly.ext_inject curly.surjective curly.update_convs(3))
qed

lemma steady_settled:
  assumes "steady s s' bs" "settled s"
  shows "settled s'"
  using steady_fields(2) [OF assms(1)] steady_curly [OF assms(1)] assms(2) by (auto simp: settled_def in_arglist_def)

lemma steady_puts:
  "steady s (put_op c s) [Bytes [op_num c]]"
  "steady s (put_int a s) [Bytes (num_bytes a)]"
  by (simp_all add: steady_def put_op_def put_int_def add_scriptc_byte add_scripti_bytes)

lemma fold_bytes: "(\<forall>b \<in> set bs. 0 \<le> b \<and> b < 256) \<Longrightarrow> fold add_scriptb bs buf = buf @ bs"
  by (induction bs arbitrary: buf) (simp_all add: add_scriptb_def u8_def)

lemma of_char_byte: "0 \<le> (of_char c :: int) \<and> (of_char c :: int) < 256"
  using of_nat_of_char [of c] nat_of_char_less_256 [of c] by (metis of_nat_0_le_iff of_nat_less_numeral_iff)

lemma steady_bytes: "steady s (put_bytes (List.map of_char t @ [0]) s) [Bytes (List.map of_char t @ [0])]"
  using of_char_byte fold_bytes [of "List.map of_char t @ [0]"] by (auto simp: steady_def put_bytes_def)

lemma steady_count: "steady s (count_paren s) []"
  by (simp add: steady_def count_paren_def in_arglist_def map_update) (metis list_update_id map_update nth_map)

lemma close_settled: "settled s \<Longrightarrow> close_paren (CHR '')'' # p) s = Some (p, s)"
  by (auto simp: settled_def close_paren_def Let_def)

section \<open>Reading\<close>

definition ops :: "script_env \<Rightarrow> int \<Rightarrow> string \<Rightarrow> parser \<Rightarrow> (string \<times> parser) option" where
  "ops env lim p s = parse_ops (Suc (length p)) (parse_sub env) lim p s"

definition nxt :: "int \<Rightarrow> int" where "nxt lim = (if lim < 0 then - 1 else lim + 1)"

text \<open>
  A text is read as code at a level: behind it the parser goes on with the operators that follow.
\<close>

definition reads :: "script_env \<Rightarrow> str_table \<Rightarrow> int \<Rightarrow> string \<Rightarrow> piece list \<Rightarrow> bool" where
  "reads env tab lim' text bs \<longleftrightarrow> (\<forall>s rest lim. settled s \<and> same_names tab (ps_tab s) \<and> operand_end rest \<and> binds (nxt lim') rest \<and> lim \<le> lim' \<longrightarrow>
     (\<exists>s'. steady s s' bs \<and> parse_sub env (text @ rest) lim s = ops env lim (skip_space rest) s'))"

lemma readsD:
  assumes "reads env tab lim' text bs" "settled s" "same_names tab (ps_tab s)" "operand_end rest" "binds (nxt lim') rest" "lim \<le> lim'"
  obtains s' where "steady s s' bs" "parse_sub env (text @ rest) lim s = ops env lim (skip_space rest) s'" "settled s'" "same_names tab (ps_tab s')"
  using assms steady_settled steady_fields(1) same_names_trans unfolding reads_def by metis

lemma ops_stop: "binds lim p \<Longrightarrow> ops env lim (skip_space p) s = Some (skip_space p, s)"
  by (auto simp: ops_def binds_def parse_ops_unfold split: option.splits)

lemma ops_step:
  assumes "binary_op p = Some (oper, opl, len)" "lim < opl"
  shows "ops env lim p s = do { (q, s) \<leftarrow> op_operand (parse_sub env) oper opl (drop len p) s; ops env lim (skip_space q) (put_op oper s) }"
  using assms by (simp add: ops_def parse_ops_unfold [of p])

lemma binds_mono: "binds n p \<Longrightarrow> n \<le> m \<Longrightarrow> binds m p"
  by (auto simp: binds_def split: option.splits)

lemma sub_blank: "parse_sub env (CHR '' '' # p) lim s = parse_sub env p lim s"
  by (simp only: parse_sub_unfold [of env "CHR '' '' # p"] parse_sub_unfold [of env p] subexpr_body_def skip_space_blank)

text \<open>Texts that begin like an expression.\<close>

definition starts :: "string \<Rightarrow> bool" where
  "starts p \<longleftrightarrow> p \<noteq> [] \<and> \<not> isspace (hd p) \<and> hd p \<notin> set ''/;,):[]}?''"

lemma starts_append: "starts p \<Longrightarrow> starts (p @ q)"
  by (cases p) (simp_all add: starts_def)

lemma starts_here: "starts p \<Longrightarrow> skip_space p = p"
  by (cases p) (auto simp: starts_def intro: skip_space_here)

lemma sub_first:
  assumes "starts p" "ch p \<noteq> CHR ''-'' \<or> starts (tl p)"
  shows "parse_sub env p lim s = do { (q, s) \<leftarrow> first_operand (parse_sub env) env p s; ops env lim (skip_space q) s }"
proof -
  have "\<not> (ch p = CHR ''-'' \<and> ch (skip_space (tl p)) \<in> {CHR '';'', CHR '',''})"
    using assms(2) starts_here [of "tl p"] by (cases "tl p") (auto simp: starts_def)
  then show ?thesis
    by (subst parse_sub_unfold) (simp only: subexpr_body_def starts_here [OF assms(1)] ops_def Let_def if_False case_prod_unfold)
qed

lemma reads_atom:
  assumes "starts text" "hd text \<noteq> CHR ''-''"
    and "\<And>s rest. settled s \<Longrightarrow> same_names tab (ps_tab s) \<Longrightarrow> operand_end rest \<Longrightarrow> \<exists>s'. steady s s' bs \<and> first_operand (parse_sub env) env (text @ rest) s = Some (rest, s')"
  shows "reads env tab lim' text bs"
  unfolding reads_def
proof (intro allI impI)
  fix s rest lim
  assume a: "settled s \<and> same_names tab (ps_tab s) \<and> operand_end rest \<and> binds (nxt lim') rest \<and> lim \<le> lim'"
  then obtain s' where "steady s s' bs" "first_operand (parse_sub env) env (text @ rest) s = Some (rest, s')"
    using assms(3) by blast
  moreover have "starts (text @ rest)"
    using assms(1) by (rule starts_append)
  moreover have "ch (text @ rest) \<noteq> CHR ''-''"
    using assms(1,2) by (cases "text") (simp_all add: starts_def)
  ultimately show "\<exists>s'. steady s s' bs \<and> parse_sub env (text @ rest) lim s = ops env lim (skip_space rest) s'"
    by (auto simp: sub_first)
qed

lemma reads_paren:
  assumes r: "reads env tab (- 1) text bs"
  shows "reads env tab lim' (CHR ''('' # text @ '')'') bs"
proof (rule reads_atom)
  fix s rest
  assume s: "settled s" "same_names tab (ps_tab s)" and e: "operand_end rest"
  have c: "settled (count_paren s)" "same_names tab (ps_tab (count_paren s))"
    using steady_settled [OF steady_count s(1)] same_names_trans [OF s(2) steady_fields(1) [OF steady_count]] by simp_all
  have here: "skip_space (CHR '')'' # rest) = CHR '')'' # rest"
    by (rule skip_space_here) (simp_all add: isspace_def between_ch_def)
  have e': "operand_end (CHR '')'' # rest)" "binds (nxt (- 1)) (CHR '')'' # rest)"
    unfolding operand_end_def binds_def here by (simp_all add: assign_op_def binary_op_def)
  obtain s' where s': "steady (count_paren s) s' bs" "parse_sub env (text @ CHR '')'' # rest) (- 1) (count_paren s) = ops env (- 1) (CHR '')'' # rest) s'" "settled s'"
    using readsD [OF r c e', of "- 1"] unfolding here by auto
  have "ops env (- 1) (CHR '')'' # rest) s' = Some (CHR '')'' # rest, s')"
    using ops_stop [OF e'(2), of env s'] unfolding here by (simp add: nxt_def)
  then have "first_operand (parse_sub env) env ((CHR ''('' # text @ '')'') @ rest) s = Some (rest, s')"
    using s'(2) close_settled [OF s'(3), of rest]
    by (simp add: first_operand_def unary_op_def parse_simpleexpr_def Let_def skip_space_here isspace_def between_ch_def here)
  then show "\<exists>s'. steady s s' bs \<and> first_operand (parse_sub env) env ((CHR ''('' # text @ '')'') @ rest) s = Some (rest, s')"
    using steady_trans [OF steady_count s'(1)] by auto
qed (simp_all add: starts_def isspace_def between_ch_def)

lemma reads_unop:
  assumes r: "reads env tab 10 text bs" and st: "starts text" and oper: "oper \<in> {C_NEG, C_NOT, C_LNOT}"
  shows "reads env tab lim' (symbol oper @ text) (bs @ [Bytes [op_num oper]])"
  unfolding reads_def
proof (intro allI impI)
  fix s rest lim
  assume a: "settled s \<and> same_names tab (ps_tab s) \<and> operand_end rest \<and> binds (nxt lim') rest \<and> lim \<le> lim'"
  have b: "binds 10 rest"
    by (auto simp: binds_def binary_op_def Let_def)
  obtain s' where s': "steady s s' bs" "parse_sub env (text @ rest) 10 s = ops env 10 (skip_space rest) s'"
    using readsD [OF r, of s rest 10] a binds_mono [OF b, of "nxt 10"] by (auto simp: nxt_def)
  have u: "unary_op (symbol oper @ text @ rest) = Some oper" "tl (symbol oper @ text @ rest) = text @ rest" "starts (symbol oper @ text @ rest)"
    using oper by (auto simp: unary_op_def starts_def isspace_def between_ch_def)
  have "first_operand (parse_sub env) env (symbol oper @ text @ rest) s = Some (skip_space rest, put_op oper s')"
    using s'(2) ops_stop [OF b, of env s'] by (simp add: first_operand_def u)
  then have "parse_sub env (symbol oper @ text @ rest) lim s = ops env lim (skip_space rest) (put_op oper s')"
    using sub_first [OF u(3), of env lim s] starts_append [OF st] by (simp add: u(2) skip_space_idem)
  then show "\<exists>s'. steady s s' (bs @ [Bytes [op_num oper]]) \<and> parse_sub env ((symbol oper @ text) @ rest) lim s = ops env lim (skip_space rest) s'"
    using steady_trans [OF s'(1) steady_puts(1)] by auto
qed

lemma reads_binop:
  assumes ra: "reads env tab (level oper - 1) ta ba" and rb: "reads env tab (level oper) tb bb" and oper: "bin_op oper" "lim' < level oper"
  shows "reads env tab lim' (ta @ '' '' @ symbol oper @ '' '' @ tb) (ba @ bb @ [Bytes [op_num oper]])"
  unfolding reads_def
proof (intro allI impI)
  fix s rest lim
  assume a: "settled s \<and> same_names tab (ps_tab s) \<and> operand_end rest \<and> binds (nxt lim') rest \<and> lim \<le> lim'"
  note lv = level_range [OF oper(1)]
  let ?p = "'' '' @ symbol oper @ '' '' @ tb @ rest"
  note ot = op_text [OF oper(1), of "tb @ rest"]
  have e: "operand_end ?p" "binds (nxt (level oper - 1)) ?p"
    unfolding operand_end_def binds_def ot using lv by (simp_all add: ot(3,4) [simplified] nxt_def ot(2) [simplified])
  obtain s1 where s1: "steady s s1 ba" "parse_sub env (ta @ ?p) lim s = ops env lim (symbol oper @ '' '' @ tb @ rest) s1" "settled s1" "same_names tab (ps_tab s1)"
    using readsD [OF ra _ _ e, of s lim] a oper(2) unfolding ot by auto
  have b: "binds (level oper) rest"
    using a oper(2) lv by (auto intro: binds_mono simp: nxt_def)
  obtain s2 where s2: "steady s1 s2 bb" "parse_sub env (tb @ rest) (level oper) s1 = ops env (level oper) (skip_space rest) s2"
    using readsD [OF rb s1(3,4), of rest "level oper"] a binds_mono [OF b, of "nxt (level oper)"] lv by (auto simp: nxt_def)
  have lt: "lim < level oper"
    using a oper(2) by simp
  have n3: "oper \<noteq> C_OP3"
    using oper(1) by (auto simp: bin_op_def)
  have "ops env lim (symbol oper @ '' '' @ tb @ rest) s1 = ops env lim (skip_space rest) (put_op oper s2)"
    unfolding ops_step [OF ot(3) lt] using s2(2) ops_stop [OF b, of env s2] n3
    by (simp add: op_operand_def sub_blank skip_space_idem)
  moreover have "steady s (put_op oper s2) (ba @ bb @ [Bytes [op_num oper]])"
    using steady_trans [OF s1(1) steady_trans [OF s2(1) steady_puts(1)]] by simp
  ultimately show "\<exists>s'. steady s s' (ba @ bb @ [Bytes [op_num oper]]) \<and> parse_sub env ((ta @ '' '' @ symbol oper @ '' '' @ tb) @ rest) lim s = ops env lim (skip_space rest) s'"
    using s1(2) by auto
qed

lemma cond_text:
  "skip_space ('' ? '' @ p) = CHR ''?'' # CHR '' '' # p" "skip_space ('' : '' @ p) = CHR '':'' # CHR '' '' # p"
  "operand_end ('' ? '' @ p)" "operand_end ('' : '' @ p)" "binds 1 ('' ? '' @ p)" "binds (- 1) ('' : '' @ p)"
  "binary_op (CHR ''?'' # p) = Some (C_OP3, 0, 1)"
proof -
  show a: "skip_space ('' ? '' @ p) = CHR ''?'' # CHR '' '' # p" "skip_space ('' : '' @ p) = CHR '':'' # CHR '' '' # p"
    by (simp_all add: skip_space_blank skip_space_here isspace_def between_ch_def)
  show "operand_end ('' ? '' @ p)" "operand_end ('' : '' @ p)" "binds 1 ('' ? '' @ p)" "binds (- 1) ('' : '' @ p)"
    unfolding operand_end_def binds_def a by (simp_all add: assign_op_def binary_op_def)
  show "binary_op (CHR ''?'' # p) = Some (C_OP3, 0, 1)"
    by (simp add: binary_op_def)
qed

lemma reads_cond:
  assumes rc: "reads env tab 0 tc bc" and ra: "reads env tab (- 1) ta ba" and rb: "reads env tab (- 1) tb bb"
  shows "reads env tab (- 1) (tc @ '' ? '' @ ta @ '' : '' @ tb) (bc @ ba @ bb @ [Bytes [op_num C_OP3]])"
  unfolding reads_def
proof (intro allI impI)
  fix s rest and lim :: int
  assume a: "settled s \<and> same_names tab (ps_tab s) \<and> operand_end rest \<and> binds (nxt (- 1)) rest \<and> lim \<le> - 1"
  let ?q = "'' : '' @ tb @ rest"
  note ct = cond_text [of "ta @ ?q"] and cq = cond_text [of "tb @ rest"]
  have "binds (nxt 0) ('' ? '' @ ta @ ?q)" "binds (nxt (- 1)) ?q"
    using ct(5) cq(6) by (simp_all add: nxt_def)
  then obtain s1 where s1: "steady s s1 bc" "parse_sub env (tc @ '' ? '' @ ta @ ?q) lim s = ops env lim (CHR ''?'' # CHR '' '' # ta @ ?q) s1" "settled s1" "same_names tab (ps_tab s1)"
    using readsD [OF rc _ _ ct(3), of s lim] a unfolding ct(1) by auto
  obtain s2 where s2: "steady s1 s2 ba" "parse_sub env (ta @ ?q) (- 1) s1 = ops env (- 1) (CHR '':'' # CHR '' '' # tb @ rest) s2" "settled s2" "same_names tab (ps_tab s2)"
    using readsD [OF ra s1(3,4) cq(4), of "- 1"] \<open>binds (nxt (- 1)) ?q\<close> unfolding cq(2) by auto
  have b: "binds (- 1) rest"
    using a by (simp add: nxt_def)
  obtain s3 where s3: "steady s2 s3 bb" "parse_sub env (tb @ rest) (- 1) s2 = ops env (- 1) (skip_space rest) s3"
    using readsD [OF rb s2(3,4), of rest "- 1"] a by auto
  have q: "ops env (- 1) (CHR '':'' # CHR '' '' # tb @ rest) s2 = Some (CHR '':'' # CHR '' '' # tb @ rest, s2)"
    using ops_stop [OF cq(6), of env s2] unfolding cq(2) .
  have here: "skip_space (CHR '':'' # CHR '' '' # tb @ rest) = CHR '':'' # CHR '' '' # tb @ rest"
    by (rule skip_space_here) (simp_all add: isspace_def between_ch_def)
  have lt: "lim < 0"
    using a by simp
  have "ops env lim (CHR ''?'' # CHR '' '' # ta @ ?q) s1 = ops env lim (skip_space rest) (put_op C_OP3 s3)"
    unfolding ops_step [OF cond_text(7) lt] using s2(2) s3(2) q ops_stop [OF b, of env s3]
    by (simp add: op_operand_def sub_blank skip_space_idem here)
  moreover have "steady s (put_op C_OP3 s3) (bc @ ba @ bb @ [Bytes [op_num C_OP3]])"
    using steady_trans [OF s1(1) steady_trans [OF s2(1) steady_trans [OF s3(1) steady_puts(1)]]] by simp
  ultimately show "\<exists>s'. steady s s' (bc @ ba @ bb @ [Bytes [op_num C_OP3]]) \<and> parse_sub env ((tc @ '' ? '' @ ta @ '' : '' @ tb) @ rest) lim s = ops env lim (skip_space rest) s'"
    using s1(2) by auto
qed

section \<open>Operands\<close>

lemma starts_digit: "isdigit (hd p) \<Longrightarrow> p \<noteq> [] \<Longrightarrow> starts p \<and> hd p \<noteq> CHR ''-''"
  by (auto simp: starts_def isdigit_def isspace_def between_ch_def)

lemma reads_number:
  assumes "n < 2 ^ 31"
  shows "starts (show_nat n)" "reads env tab lim (show_nat n) [Bytes (num_bytes (int n))]"
proof -
  have d: "isdigit (hd (show_nat n))" "show_nat n \<noteq> []"
    using show_nat_digits [of n] by (cases "show_nat n"; auto)+
  note st = starts_digit [OF d]
  show "starts (show_nat n)"
    using st by simp
  show "reads env tab lim (show_nat n) [Bytes (num_bytes (int n))]"
  proof (rule reads_atom)
    fix s rest
    assume e: "operand_end rest"
    note nt = number_text [OF e assms]
    have h: "ch (show_nat n @ rest) = hd (show_nat n)"
      using d(2) by (cases "show_nat n") simp_all
    have c: "cap_int (int n) = int n"
      using assms by (simp add: cap_int_def)
    have u: "unary_op (show_nat n @ rest) = None"
      using d(1) by (auto simp: unary_op_def h isdigit_def between_ch_def)
    have "first_operand (parse_sub env) env (show_nat n @ rest) s = Some (rest, put_int (int n) s)"
      using starts_here [OF starts_append [OF conjunct1 [OF st]], of rest] nt digit_chars [OF d(1)]
      by (simp add: first_operand_def u parse_simpleexpr_def Let_def h c)
    then show "\<exists>s'. steady s s' [Bytes (num_bytes (int n))] \<and> first_operand (parse_sub env) env (show_nat n @ rest) s = Some (rest, s')"
      using steady_puts(2) by blast
  qed (use st in simp_all)
qed

lemma quote_not_number: "\<not> is_number (CHR 0x22 # p)"
  by (simp add: is_number_def Let_def isdigit_def between_ch_def)

lemma reads_string:
  assumes "\<forall>c \<in> set t. of_char c \<le> (0x7e :: nat) \<and> c \<noteq> CHR 0x00"
  shows "starts (CHR 0x22 # p)" "reads env tab lim (CHR 0x22 # sv_escape_c t [CHR 0x22] @ [CHR 0x22]) [Bytes [op_num C_STR], Bytes (List.map of_char t @ [0])]"
proof -
  show "starts (CHR 0x22 # p)" for p
    by (simp add: starts_def isspace_def between_ch_def)
  note st = this
  show "reads env tab lim (CHR 0x22 # sv_escape_c t [CHR 0x22] @ [CHR 0x22]) [Bytes [op_num C_STR], Bytes (List.map of_char t @ [0])]"
  proof (rule reads_atom)
    fix s rest
    have "parse_string CHR 0x22 (sv_escape_c t [CHR 0x22] @ CHR 0x22 # rest) = Some (List.map of_char t, rest)"
      using string_text [OF assms] by simp
    then have "first_operand (parse_sub env) env ((CHR 0x22 # sv_escape_c t [CHR 0x22] @ [CHR 0x22]) @ rest) s =
        Some (rest, put_bytes (List.map of_char t @ [0]) (put_op C_STR s))"
      using starts_here [OF st, of "sv_escape_c t [CHR 0x22] @ CHR 0x22 # rest"] quote_not_number [of "sv_escape_c t [CHR 0x22] @ CHR 0x22 # rest"]
      by (simp add: first_operand_def unary_op_def parse_simpleexpr_def Let_def)
    then show "\<exists>s'. steady s s' [Bytes [op_num C_STR], Bytes (List.map of_char t @ [0])] \<and>
        first_operand (parse_sub env) env ((CHR 0x22 # sv_escape_c t [CHR 0x22] @ [CHR 0x22]) @ rest) s = Some (rest, s')"
      using steady_trans [OF steady_puts(1) [of s C_STR] steady_bytes [of _ t]] by auto
  qed (use st in simp_all)
qed

text \<open>A name that stands for a variable.\<close>

definition known :: "script_env \<Rightarrow> str_table \<Rightarrow> string \<Rightarrow> nat \<Rightarrow> bool" where
  "known env tab w l \<longleftrightarrow> wordlike w \<and> table_ok tab \<and> find_word tab w = Some l \<and> variable_type (sd_type (st_data tab ! l)) \<and> \<not> is_userfunc env (sd_str (st_data tab ! l))"

lemma known_facts:
  assumes "known env tab w l"
  shows "add_str w tab = Some (l, tab)" "l < length (st_data tab)" "LABEL_START \<le> l" "wordlike w"
proof -
  have f: "find_word tab w = Some l" "table_ok tab"
    using assms by (simp_all add: known_def)
  show "add_str w tab = Some (l, tab)"
    using add_str_ok [OF f(2), of w] f(1) by auto
  show "l < length (st_data tab)" "LABEL_START \<le> l"
    using f(1) unfolding find_word_def find_Some_iff by (auto simp: nth_append)
  show "wordlike w"
    using assms by (simp add: known_def)
qed

lemma known_same: "known env tab w l \<Longrightarrow> same_names tab tab' \<Longrightarrow> known env tab' w l"
  using known_facts(2) [of env tab w l] same_names_ok same_names_find same_names_data(2) [of tab tab' l] by (simp add: known_def)

lemma word_char_first:
  assumes "is_word_char c \<or> c \<in> {CHR ''@'', CHR 0x27, CHR ''#'', CHR ''.'', CHR ''$''}"
  shows "starts (c # p) \<and> c \<notin> {CHR ''-'', CHR ''('', CHR 0x22, CHR ''!'', CHR ''~''}"
proof -
  have "\<not> isspace c" if "is_word_char c"
    using that unfolding is_word_char_def isalnum_def isalpha_def isdigit_def isspace_def between_ch_def by (elim disjE) auto
  moreover have "\<forall>x \<in> set (CHR 0x22 # ''/;,):[]}?-(!~''). \<not> is_word_char x"
    by code_simp
  then have "c \<notin> set (CHR 0x22 # ''/;,):[]}?-(!~'')" if "is_word_char c"
    using that by blast
  moreover have "\<forall>x \<in> set (CHR 0x27 # ''@#.$''). \<not> isspace x \<and> x \<notin> set (CHR 0x22 # ''/;,):[]}?-(!~'')"
    by code_simp
  then have "\<not> isspace c \<and> c \<notin> set (CHR 0x22 # ''/;,):[]}?-(!~'')" if "\<not> is_word_char c"
    using that assms by auto
  ultimately have "\<not> isspace c \<and> c \<notin> set (CHR 0x22 # ''/;,):[]}?-(!~'')"
    by blast
  then show ?thesis
    by (simp add: starts_def)
qed

lemma wordlike_first:
  assumes "wordlike (c # w)"
  shows "is_word_char c \<or> c \<in> {CHR ''@'', CHR 0x27, CHR ''#'', CHR ''.'', CHR ''$''}"
proof (rule ccontr)
  assume n: "\<not> ?thesis"
  then have "skip_word (c # w) = c # w"
    by (simp add: skip_word_def skip_prefix_def)
  then show False
    using assms by (simp add: wordlike_def)
qed

lemma wordlike_starts: "wordlike w \<Longrightarrow> starts w \<and> hd w \<notin> {CHR ''-'', CHR ''('', CHR 0x22, CHR ''!'', CHR ''~''}"
proof (cases w)
  case (Cons c v)
  then show "wordlike w \<Longrightarrow> ?thesis"
    using word_char_first [OF wordlike_first, of c v v] by simp
qed (simp add: wordlike_def)

lemma put_variable:
  assumes "known env (ps_tab s) w l"
  shows "\<exists>s'. put_word l s = Some s' \<and> steady s s' [Refer l]"
proof -
  have "variable_type (sd_type (st_data (ps_tab s) ! l))"
    using assms by (simp add: known_def)
  then obtain buf tab where "add_scriptl l (ps_buf s, ps_tab s) = Some (buf, tab)"
    using known_facts(2) [OF assms] by (auto simp: variable_type_def add_scriptl_def nth_opt_def Let_def)
  then show ?thesis
    by (simp add: put_word_def steady_def)
qed

lemma parse_variable_none:
  assumes "operand_end rest" "wordlike w"
  shows "parse_variable sub env (w @ rest) s = Some (None, s)"
  using assms(1) by (simp add: parse_variable_def word_text [OF assms] operand_end_def Let_def)

lemma reads_name:
  assumes k0: "known env tab w l"
  shows "reads env tab lim w [Refer l]"
proof (rule reads_atom)
  note ws = wordlike_starts [OF known_facts(4) [OF k0]]
  show "starts w" "hd w \<noteq> CHR ''-''"
    using ws by simp_all
  fix s :: parser and rest
  assume s: "same_names tab (ps_tab s)" and e: "operand_end rest"
  have k: "known env (ps_tab s) w l"
    by (rule known_same [OF k0 s])
  note kf = known_facts [OF k] and wt = word_text [OF e known_facts(4) [OF k]]
  have w0: "w \<noteq> []" "w @ rest \<noteq> rest"
    using kf(4) by (auto simp: wordlike_def)
  have h: "ch (w @ rest) = hd w"
    using w0 by (cases w) simp_all
  obtain s' where s': "put_word l s = Some s'" "steady s s' [Refer l]"
    using put_variable [OF k] by blast
  have t: "variable_type (sd_type (st_data (ps_tab s) ! l))" "\<not> is_userfunc env (sd_str (st_data (ps_tab s) ! l))"
    using k by (simp_all add: known_def)
  have "add_word (w @ rest) s = Some (l, s)"
    using kf(1) w0 by (simp add: add_word_def add_name_def wt)
  moreover have "word_data l s = Some (st_data (ps_tab s) ! l)" "get_str l (ps_tab s) = Some (sd_str (st_data (ps_tab s) ! l))"
    using kf(2,3) by (simp_all add: word_data_def nth_opt_def get_str_def)
  ultimately have "parse_name (parse_sub env) env (w @ rest) s = Some (rest, s')"
    using s'(1) t parse_variable_none [OF e kf(4)] ends_chars(10) [OF e] by (auto simp: parse_name_def wt variable_type_def)
  then have "first_operand (parse_sub env) env (w @ rest) s = Some (rest, s')"
    using ws starts_here [OF starts_append [OF conjunct1 [OF ws]], of rest] w0 wt
    by (auto simp: first_operand_def unary_op_def parse_simpleexpr_def Let_def h starts_def)
  then show "\<exists>s'. steady s s' [Refer l] \<and> first_operand (parse_sub env) env (w @ rest) s = Some (rest, s')"
    using s'(2) by blast
qed

section \<open>The text of an expression\<close>

definition parens :: "bool \<Rightarrow> string \<Rightarrow> string" where
  "parens b p = (if b then CHR ''('' # p @ '')'' else p)"

text \<open>The text at a level: an operator that does not bind closer than the level is in parentheses.\<close>

fun show_expr :: "(nat \<Rightarrow> string) \<Rightarrow> int \<Rightarrow> expr \<Rightarrow> string" where
  "show_expr nm lim (Lit n) = show_nat n"
| "show_expr nm lim (Text t) = CHR 0x22 # sv_escape_c t [CHR 0x22] @ [CHR 0x22]"
| "show_expr nm lim (Ref l) = nm l"
| "show_expr nm lim (Unop oper a) = symbol oper @ show_expr nm 10 a"
| "show_expr nm lim (Binop oper a b) = parens (level oper \<le> lim)
     (show_expr nm (level oper - 1) a @ '' '' @ symbol oper @ '' '' @ show_expr nm (level oper) b)"
| "show_expr nm lim (Cond c a b) = parens (0 \<le> lim)
     (show_expr nm 0 c @ '' ? '' @ show_expr nm (- 1) a @ '' : '' @ show_expr nm (- 1) b)"

text \<open>
  Numbers fit into an \<open>int\<close>; strings have no NUL and no character behind which a backslash would not be
  an escape; names are variables of the table; the operators are unary and binary where they should be.
\<close>

fun readable :: "script_env \<Rightarrow> str_table \<Rightarrow> (nat \<Rightarrow> string) \<Rightarrow> expr \<Rightarrow> bool" where
  "readable env tab nm (Lit n) \<longleftrightarrow> n < 2 ^ 31"
| "readable env tab nm (Text t) \<longleftrightarrow> (\<forall>c \<in> set t. of_char c \<le> (0x7e :: nat) \<and> c \<noteq> CHR 0x00)"
| "readable env tab nm (Ref l) \<longleftrightarrow> known env tab (nm l) l"
| "readable env tab nm (Unop oper a) \<longleftrightarrow> oper \<in> {C_NEG, C_NOT, C_LNOT} \<and> readable env tab nm a"
| "readable env tab nm (Binop oper a b) \<longleftrightarrow> bin_op oper \<and> readable env tab nm a \<and> readable env tab nm b"
| "readable env tab nm (Cond c a b) \<longleftrightarrow> readable env tab nm c \<and> readable env tab nm a \<and> readable env tab nm b"

text \<open>The pieces of its code.\<close>

fun pieces :: "expr \<Rightarrow> piece list" where
  "pieces (Lit n) = [Bytes (num_bytes (int n))]"
| "pieces (Text t) = [Bytes [op_num C_STR], Bytes (List.map of_char t @ [0])]"
| "pieces (Ref l) = [Refer l]"
| "pieces (Unop oper a) = pieces a @ [Bytes [op_num oper]]"
| "pieces (Binop oper a b) = pieces a @ pieces b @ [Bytes [op_num oper]]"
| "pieces (Cond c a b) = pieces c @ pieces a @ pieces b @ [Bytes [op_num C_OP3]]"

lemma closed_pieces: "closed (pieces e) = code_of e"
  by (induction e) simp_all

lemma words_pieces: "words (pieces e) = refs e"
  by (induction e) auto

lemma readable_refs: "readable env tab nm e \<Longrightarrow> l \<in> refs e \<Longrightarrow> known env tab (nm l) l"
  by (induction e) auto

lemma starts_parens: "starts p \<Longrightarrow> starts (parens b (p @ q))"
  by (simp add: parens_def starts_append) (simp add: starts_def isspace_def between_ch_def)

lemma starts_expr: "readable env tab nm e \<Longrightarrow> starts (show_expr nm lim e)"
proof (induction e arbitrary: lim)
  case (Unop oper a)
  then show ?case
    by (auto simp: starts_def isspace_def between_ch_def)
qed (auto simp: reads_number(1) reads_string(1) known_facts(4) wordlike_starts starts_parens)

lemma reads_parens: "reads env tab (- 1) p bs \<Longrightarrow> (\<not> b \<Longrightarrow> reads env tab lim p bs) \<Longrightarrow> reads env tab lim (parens b p) bs"
  using reads_paren by (simp add: parens_def)

lemma reads_expr: "readable env tab nm e \<Longrightarrow> reads env tab lim (show_expr nm lim e) (pieces e)"
proof (induction e arbitrary: lim)
  case (Unop oper a)
  then show ?case
    using reads_unop [OF Unop.IH [of 10] starts_expr [of env tab nm a 10]] by simp
next
  case (Binop oper a b)
  then have o: "bin_op oper" "- 1 < level oper"
    using level_range [of oper] by simp_all
  note ab = Binop.IH(1) [of "level oper - 1"] Binop.IH(2) [of "level oper"]
  show ?case
    using reads_binop [OF ab(1) ab(2) o(1)] o(2) Binop.prems by (auto intro: reads_parens)
next
  case (Cond c a b)
  have "reads env tab (- 1) (show_expr nm 0 c @ '' ? '' @ show_expr nm (- 1) a @ '' : '' @ show_expr nm (- 1) b) (pieces (Cond c a b))"
    using reads_cond [OF Cond.IH(1) [of 0] Cond.IH(2) [of "- 1"] Cond.IH(3) [of "- 1"]] Cond.prems by simp
  moreover from this have "reads env tab lim (show_expr nm 0 c @ '' ? '' @ show_expr nm (- 1) a @ '' : '' @ show_expr nm (- 1) b) (pieces (Cond c a b))" if "lim < 0"
    using that by (auto simp: reads_def nxt_def)
  ultimately show ?case
    by (auto intro: reads_parens)
qed (simp_all add: reads_number(2) reads_string(2) reads_name)

lemma parse_shown:
  assumes "readable env (ps_tab s) nm e" "settled s" "operand_end rest" "binds (- 1) rest"
  shows "\<exists>s'. parse_expr env (show_expr nm (- 1) e @ rest) s = Some (skip_space rest, s') \<and> steady s s' (pieces e)"
proof -
  let ?p = "show_expr nm (- 1) e @ rest"
  have "starts ?p"
    using starts_append [OF starts_expr [OF assms(1)]] .
  then have "ch ?p \<notin> set '');:[]}''"
    by (cases ?p) (auto simp: starts_def)
  then have "parse_expr env ?p s = parse_sub env ?p (- 1) s"
    by (simp only: parse_expr_def parse_sub_def if_False)
  moreover obtain s' where "steady s s' (pieces e)" "parse_sub env ?p (- 1) s = ops env (- 1) (skip_space rest) s'"
    using readsD [OF reads_expr [OF assms(1)] assms(2) same_names_refl assms(3), of "- 1" "- 1"] assms(4) by (auto simp: nxt_def)
  ultimately show ?thesis
    using ops_stop [OF assms(4), of env s'] by auto
qed

text \<open>The end of the script resolves the names; what was open before is closed as well.\<close>

lemma shown_resolved:
  assumes r: "readable env (ps_tab s) nm e" and p: "pending ps (ps_buf s, ps_tab s)" and st: "steady s s' (pieces e)"
    and n: "LABEL_START \<le> length (st_data (ps_tab s))" "length (closed ps) + length (code_of e) < 0xffffff"
  shows "\<exists>un tab'. resolve_names (ps_buf s', ps_tab s') = Some (un, closed (rev ps) @ code_of e, tab')"
proof -
  have w: "\<forall>l \<in> words (pieces e). LABEL_START \<le> l \<and> l < length (st_data (ps_tab s)) \<and> variable_type (sd_type (st_data (ps_tab s) ! l))"
  proof
    fix l
    assume "l \<in> words (pieces e)"
    then have k: "known env (ps_tab s) (nm l) l"
      using readable_refs [OF r] by (simp add: words_pieces)
    then show "LABEL_START \<le> l \<and> l < length (st_data (ps_tab s)) \<and> variable_type (sd_type (st_data (ps_tab s) ! l))"
      using known_facts(2,3) [OF k] by (simp add: known_def)
  qed
  obtain qs where q: "pending qs (ps_buf s', ps_tab s')" "closed (rev qs) = closed (rev ps) @ code_of e"
    using write_pending [OF p, of "pieces e"] w st by (auto simp: steady_def closed_pieces)
  have len: "length (closed (rev xs)) = length (closed xs)" for xs
    by (induction xs rule: closed.induct) simp_all
  have "length (closed qs) < 0xffffff"
    using n(2) arg_cong [OF q(2), of length] by (simp add: len)
  moreover have "LABEL_START \<le> length (st_data (ps_tab s'))"
    using n(1) same_names_data(1) [OF steady_fields(1) [OF st]] by simp
  ultimately show ?thesis
    using resolve_pending [OF q(1)] q(2) by simp
qed

end
