(* ===== verification/ScriptProps.thy ===== *)
theory ScriptProps imports ScriptNum ScriptReads begin

text \<open>
  The properties of scripts: the table of words, jumps to labels that are not known yet, the parser of
  expressions, their code and its execution, and the permanent variables of players.
\<close>

section \<open>A script for the examples\<close>

definition test_vars :: player_vars where
  "test_vars = \<lparr>pv_reg = [], pv_regstr = [], pv_global = Some [], pv_account = Some [], pv_account2 = None, pv_dirty = 0,
     pv_die_counter = 0, pv_cook_mastery = 0, pv_cash = 0, pv_kafra = 0, pv_super_novice = False, pv_char_up = True, pv_sent = [], pv_status_calcs = 0\<rparr>"

definition test_vm :: vm where
  "test_vm = \<lparr>vm_stack = [], vm_sp_max = 64, vm_defsp = 0, vm_scope = 0, vm_start = 0, vm_end = 0, vm_pos = 0, vm_state = RUN, vm_script = 0,
     vm_freeloop = False, vm_op2ref = False, vm_vars = (\<lambda>_. Map.empty), vm_live = (\<lambda>k. k = 0), vm_cells = Map.empty, vm_next = 1,
     vm_player = Some test_vars, vm_tab = empty_table\<rparr>"

definition test_vm_env :: "int list \<Rightarrow> vm_env" where
  "test_vm_env code = \<lparr>script_buf = (\<lambda>_. code), userfunc = (\<lambda>_. None), instance_id = 0, readparam = (\<lambda>_ _. 0), setparam = (\<lambda>_ _ sd. (True, sd))\<rparr>"

definition test_expr :: expr where
  "test_expr = Binop C_ADD (Text ''a'') (Cond (Lit 1) (Binop C_SUB (Lit 2) (Lit 5)) (Lit 3))"

definition test_script_env :: script_env where
  "test_script_env = \<lparr>set_ref = 2, callsub_ref = 3, callfunc_ref = 4, getelementofarray_ref = 5, buildin_arg = core_args,
     is_userfunc = (\<lambda>_. False), use_label_db = False\<rparr>"

definition test_parser :: parser where
  "test_parser = \<lparr>ps_buf = [], ps_tab = empty_table, ps_curly = [], ps_count = 0, ps_index = 0, ps_for = False, ps_labels = []\<rparr>"

definition test_words :: str_table where
  "test_words = snd (the (add_str ''x'' empty_table))"

definition test_product :: expr where
  "test_product = Binop C_MUL (Ref 2) (Unop C_NEG (Binop C_ADD (Ref 2) (Cond (Lit 1) (Text ''a'') (Ref 2))))"

lemma test_words_known: "known test_script_env test_words ''x'' 2" "pending [] ([], test_words)" "LABEL_START \<le> length (st_data test_words)"
proof -
  have "add_str ''x'' empty_table = Some (append_word ''x'' (empty_table\<lparr>st_hash := (st_hash empty_table)[calc_hash ''x'' := 2]\<rparr>))"
    using calc_hash_less [of "''x''"] by (simp add: add_str_def empty_table_def nth_opt_def Let_def LABEL_START_def)
  then have a: "add_str ''x'' empty_table = Some (2, test_words)"
    by (simp add: test_words_def append_word_def empty_table_def LABEL_START_def)
  have d: "st_data test_words = [new_word [], new_word [], new_word ''x'']"
    using calc_hash_less [of "''x''"] by (simp add: test_words_def add_str_def empty_table_def nth_opt_def Let_def LABEL_START_def append_word_def numeral_2_eq_2)
  have f: "table_ok test_words" "find_word test_words ''x'' = Some 2"
    using add_str_ok [OF empty_table_ok, of "''x''"] a by auto
  have "wordlike ''x''"
    by code_simp
  then show "known test_script_env test_words ''x'' 2"
    using f by (simp add: known_def d new_word_def variable_type_def test_script_env_def)
  show "pending [] ([], test_words)" "LABEL_START \<le> length (st_data test_words)"
    by (auto simp: pending_def d new_word_def less_Suc_eq LABEL_START_def nth_Cons')
qed

section \<open>Words and labels\<close>

text \<open>C11: \<open>add_str\<close> implements a map of words, whose case does not matter: it returns, keeps the lists of the buckets
  in order, answers the place of the word, and enters it only if there was none.
\<close>

lemma script_words_map:
  "table_ok tab \<Longrightarrow> \<exists>i tab'. add_str p tab = Some (i, tab') \<and> table_ok tab' \<and>
     (\<forall>q. search_str q tab' = Some (case find_word tab' q of None \<Rightarrow> - 1 | Some k \<Rightarrow> int k)) \<and> find_word tab' p = Some i \<and>
     (case find_word tab p of Some j \<Rightarrow> i = j \<and> tab' = tab
      | None \<Rightarrow> i = length (st_data tab) \<and> same_words (st_data tab @ [new_word p]) (st_data tab'))"
  using add_str_ok [of tab p] search_str_ok by blast

lemma script_words_map_witness:
  "\<exists>i tab'. add_str ''getarg'' empty_table = Some (i, tab') \<and> table_ok tab' \<and>
     (\<forall>q. search_str q tab' = Some (case find_word tab' q of None \<Rightarrow> - 1 | Some k \<Rightarrow> int k)) \<and> find_word tab' ''getarg'' = Some i \<and>
     (case find_word empty_table ''getarg'' of Some j \<Rightarrow> i = j \<and> tab' = empty_table
      | None \<Rightarrow> i = length (st_data empty_table) \<and> same_words (st_data empty_table @ [new_word ''getarg'']) (st_data tab'))"
  by (rule script_words_map [OF empty_table_ok])

text \<open>C9: References to a word that has neither a meaning nor references yet are resolved when it is set as a label: in
  code shorter than 16 MB the result is the same as if the position had been known from the start.
\<close>

lemma script_labels_resolved:
  assumes "l < length (st_data tab)" "sd_type (st_data tab ! l) = C_NOP" "sd_backpatch (st_data tab ! l) = - 1" "sd_label (st_data tab ! l) = - 1"
    and "length buf + length (resolved C_NAME 0 before) < 0xffffff"
  shows "\<exists>tab'. do { s \<leftarrow> emit l before (buf, tab); r \<leftarrow> set_label l (int (length (fst s))) s;
       (case r of Inl e \<Rightarrow> None | Inr s \<Rightarrow> emit l after s) } =
     Some (buf @ resolved C_POS (int (length buf + length (resolved C_NAME 0 before))) (before @ after), tab')"
  by (rule label_ok [OF assms])

lemma script_labels_resolved_witness:
  "\<exists>tab'. do { s \<leftarrow> emit 2 [None, Some [1, 2], None] ([7], \<lparr>st_data = replicate 3 (new_word ''L''), st_hash = []\<rparr>);
       r \<leftarrow> set_label 2 (int (length (fst s))) s; (case r of Inl e \<Rightarrow> None | Inr s \<Rightarrow> emit 2 [Some [3], None] s) } =
     Some ([7] @ resolved C_POS (int (length [7 :: int] + length (resolved C_NAME 0 [None, Some [1, 2], None]))) ([None, Some [1, 2], None] @ [Some [3], None]), tab')"
  by (rule script_labels_resolved) (simp_all add: new_word_def bytes3_def)

text \<open>Numbers and addresses read back from the code as they were written.\<close>

lemma script_operands_roundtrip:
  assumes "0 \<le> a" "0 \<le> n" "n < 2 ^ 24"
  shows "get_com (xs @ add_scripti a [] @ ys) (length xs) = Some (op_num C_INT, length xs) \<and>
    get_num (add_scripti a xs @ ys) (length xs) = Some (a, length (add_scripti a xs)) \<and>
    GETVALUE (add_3bytes n xs @ ys) (length xs) = Some n"
  using get_com_num [OF assms(1), of xs ys] get_num_num [OF assms(1), of xs ys] GETVALUE_bytes3 [of n xs ys] assms(2,3)
  by (simp add: add_scripti_bytes add_3bytes_bytes num_bytes_def [symmetric])

lemma script_operands_roundtrip_witness:
  "get_com ([9] @ add_scripti 70000 [] @ [1]) (length [9 :: int]) = Some (op_num C_INT, length [9 :: int]) \<and>
    get_num (add_scripti 70000 [9] @ [1]) (length [9 :: int]) = Some (70000, length (add_scripti 70000 [9])) \<and>
    GETVALUE (add_3bytes 8000000 [9] @ [1]) (length [9 :: int]) = Some 8000000"
  by (rule script_operands_roundtrip) simp_all

text \<open>Undoing the escapes of a string gives the string back, whatever characters were to be escaped.\<close>

lemma escapes_roundtrip: "sv_unescape_c (sv_escape_c src escapes) = src"
  by (rule unescape_escape)

section \<open>Expressions\<close>



text \<open>C2: The parser reads the text of an expression whose names are words of the table that stand for variables, whose
  numbers fit and whose strings are 7-bit (\<open>readable\<close>), where no argument list has undecided parentheses (\<open>settled\<close>):
  with the operators in the order of their levels and only the parentheses that these ask for it stops behind it and changes nothing but the code, the references of the words and the
  counters of parentheses; and when the end of the script has resolved the names, the code is exactly the code of the expression.
\<close>

lemma script_expression_compiled:
  assumes "readable env (ps_tab s) nm e" "settled s" "operand_end rest" "binds (- 1) rest" "pending ps (ps_buf s, ps_tab s)"
    "LABEL_START \<le> length (st_data (ps_tab s))" "length (closed ps) + length (code_of e) < 0xffffff"
  shows "\<exists>buf tab cs un tab'. parse_expr env (show_expr nm (- 1) e @ rest) s = Some (skip_space rest, s\<lparr>ps_buf := buf, ps_tab := tab, ps_curly := cs\<rparr>) \<and>
    resolve_names (buf, tab) = Some (un, closed (rev ps) @ code_of e, tab') \<and> same_names (ps_tab s) tab \<and>
    List.map (cu_count_update (\<lambda>_. 0)) cs = List.map (cu_count_update (\<lambda>_. 0)) (ps_curly s)"
proof -
  obtain s' where s': "parse_expr env (show_expr nm (- 1) e @ rest) s = Some (skip_space rest, s')" "steady s s' (pieces e)"
    using parse_shown [OF assms(1-4)] by blast
  then show ?thesis
    using shown_resolved [OF assms(1,5) s'(2) assms(6,7)] steady_fields(1) [OF s'(2)] unfolding steady_def by metis
qed

lemma script_expression_compiled_witness:
  "\<exists>buf tab cs un tab'. parse_expr test_script_env (''x * -(x + (1 ? '' @ CHR 0x22 # ''a'' @ CHR 0x22 # '' : x));'') (test_parser\<lparr>ps_tab := test_words\<rparr>) =
      Some ('';'', test_parser\<lparr>ps_buf := buf, ps_tab := tab, ps_curly := cs\<rparr>) \<and>
    resolve_names (buf, tab) = Some (un, code_of test_product, tab') \<and> same_names test_words tab \<and>
    List.map (cu_count_update (\<lambda>_. 0)) cs = List.map (cu_count_update (\<lambda>_. 0)) (ps_curly test_parser)"
proof -
  let ?s = "test_parser\<lparr>ps_tab := test_words\<rparr>"
  have t: "show_expr (\<lambda>_. ''x'') (- 1) test_product @ '';'' = ''x * -(x + (1 ? '' @ CHR 0x22 # ''a'' @ CHR 0x22 # '' : x));''"
    by code_simp
  have h: "skip_space '';'' = '';''" "operand_end '';''" "binds (- 1) '';''"
    by code_simp+
  have "readable test_script_env (ps_tab ?s) (\<lambda>_. ''x'') test_product" "settled ?s" "pending [] (ps_buf ?s, ps_tab ?s)" "LABEL_START \<le> length (st_data (ps_tab ?s))"
    using test_words_known by (simp_all add: test_product_def bin_op_def settled_def in_arglist_def test_parser_def)
  moreover have "length (closed []) + length (code_of test_product) < 0xffffff"
    by (simp add: test_product_def bytes3_def num_bytes_simps)
  ultimately show ?thesis
    using script_expression_compiled [of test_script_env ?s "\<lambda>_. ''x''" test_product "'';''" "[]"] h unfolding t by (simp add: test_parser_def)
qed

text \<open>C3: The code of an expression that has a value leaves it, when enough commands are left: as many commands as it has operators and operands are run, the
  loop goes on behind the code, and above the stack there is a value that holds the result.
\<close>

lemma script_expression_value:
  assumes "runnable env st e rd" "value_of rd e = Some v" "script_buf env (vm_script st) = xs @ code_of e @ ys" "below st (length stk)" "int (commands e) < cmd"
  shows "\<exists>d m'. run_loop env fn (cmd, got, at st stk (int (length xs)) m) =
      run_loop env fn (cmd - int (commands e), got, at st (stk @ [d]) (int (length (xs @ code_of e))) m') \<and> holds env st d v"
  using run_code [OF assms, of fn got m] run_loop_steps by blast

lemma script_expression_value_witness:
  "\<exists>d m'. run_loop (test_vm_env (code_of test_expr)) (\<lambda>_. None) (100, 2048, at test_vm [] (int (length ([] :: int list))) 64) =
      run_loop (test_vm_env (code_of test_expr)) (\<lambda>_. None) (100 - int (commands test_expr), 2048, at test_vm ([] @ [d]) (int (length ([] @ code_of test_expr))) m') \<and>
      holds (test_vm_env (code_of test_expr)) test_vm d (V_str ''a-3'')"
proof (rule script_expression_value [where rd = "\<lambda>_. V_int 0"])
  show "runnable (test_vm_env (code_of test_expr)) test_vm test_expr (\<lambda>_. V_int 0)"
    by (simp add: runnable_def test_vm_def test_expr_def)
  show "value_of (\<lambda>_. V_int 0) test_expr = Some (V_str ''a-3'')"
    by code_simp
  show "script_buf (test_vm_env (code_of test_expr)) (vm_script test_vm) = [] @ code_of test_expr @ []"
    by (simp add: test_vm_env_def)
qed (simp_all add: below_def test_vm_def test_expr_def)

text \<open>The operators on numbers stay in the range of an \<open>int\<close>: sums, differences and products are capped, a
  remainder is less than the divisor, and only shifts by too much and the least number by -1 are left undefined.
\<close>

lemma script_numbers_fit:
  assumes "s32 i = i" "s32 j = j"
  shows "case num_result oper i j of
      None \<Rightarrow> oper \<in> {C_R_SHIFT, C_L_SHIFT} \<and> (j < 0 \<or> 32 \<le> j) \<or> oper \<in> {C_DIV, C_MOD} \<and> i = - 2147483648 \<and> j = - 1
    | Some (Inl ends) \<Rightarrow> ends = (oper \<in> {C_DIV, C_MOD}) \<and> (if ends then j = 0 else \<not> bin_op oper)
    | Some (Inr k) \<Rightarrow> s32 k = k \<and> (oper \<noteq> C_MOD \<or> \<bar>k\<bar> < \<bar>j\<bar> \<and> c_div i j * j + k = i) \<and>
        (oper \<noteq> C_MUL \<or> k = max (- 2147483648) (min 2147483647 (i * j)))"
proof (cases "num_result oper i j")
  case None
  then show ?thesis
    using num_result_undefined [of oper i j] by simp
next
  case (Some r)
  show ?thesis
  proof (cases r)
    case (Inl ends)
    then show ?thesis
      using Some by (cases oper) (auto simp: num_result_def bin_op_def split: if_splits)
  next
    case (Inr k)
    then show ?thesis
      using Some num_result_range [OF assms, of oper k] c_rem_range(1,2) [of j i] by (auto simp: num_result_def cap_int_def split: if_splits)
  qed
qed

lemma script_numbers_fit_witness:
  "case num_result C_MUL 2000000000 (- 3) of
      None \<Rightarrow> C_MUL \<in> {C_R_SHIFT, C_L_SHIFT} \<and> (- 3 < (0 :: int) \<or> 32 \<le> (- 3 :: int)) \<or> C_MUL \<in> {C_DIV, C_MOD} \<and> 2000000000 = (- 2147483648 :: int) \<and> (- 3 :: int) = - 1
    | Some (Inl ends) \<Rightarrow> ends = (C_MUL \<in> {C_DIV, C_MOD}) \<and> (if ends then (- 3 :: int) = 0 else \<not> bin_op C_MUL)
    | Some (Inr k) \<Rightarrow> s32 k = k \<and> (C_MUL \<noteq> C_MOD \<or> \<bar>k\<bar> < \<bar>- 3\<bar> \<and> c_div 2000000000 (- 3) * - 3 + k = 2000000000) \<and>
        (C_MUL \<noteq> C_MUL \<or> k = max (- 2147483648) (min 2147483647 (2000000000 * - 3)))"
  by (rule script_numbers_fit) (simp_all add: s32_def)

section \<open>The loop\<close>

text \<open>C4: A script ends, whatever its code is: with a positive limit on commands the loop of \<open>run_script\<close> stops, in a
  state or (\<open>Some None\<close>) in a fault of the process, when the functions are the modelled ones but \<open>freeloop\<close>, which
  lifts the limit.
\<close>

lemma script_ends: "0 < cmd \<Longrightarrow> \<exists>r. run_script env ((core_buildins env)(27 := None)) cmd got k pos st = Some r"
  by (rule core.run_script_ends)

lemma script_ends_witness:
  "\<exists>r. run_script (test_vm_env [6, 7]) ((core_buildins (test_vm_env [6, 7]))(27 := None)) 655360 2048 0 0 test_vm = Some r"
  by (rule script_ends) simp

section \<open>Permanent variables of players\<close>

text \<open>C15: A registry implements a map from names of less than 32 characters to numbers: an assignment to a loaded
  registry succeeds unless it is full, is read back, and changes no other name.
\<close>

lemma registry_map:
  assumes "registry type sd = Some regs" "regs_ok regs" "length name < 32" "s32 v = v"
  shows "\<exists>regs'. registry type (snd (pc_setregistry name v type sd)) = Some regs' \<and> regs_ok regs' \<and>
    fst (pc_setregistry name v type sd) = (fst (special_reg name v type sd) = 0 \<or> name \<in> gr_str ` set regs \<or> length regs < reg_max type) \<and>
    (\<forall>n. fst (pc_readregistry n type (snd (pc_setregistry name v type sd))) =
       (if fst (pc_setregistry name v type sd) \<and> n = name then fst (special_reg name v type sd) else fst (pc_readregistry n type sd)))"
  using pc_setregistry_ok [OF assms] .

lemma registry_map_witness:
  "\<exists>regs'. registry 3 (snd (pc_setregistry ''MISC_QUEST'' 5 3 test_vars)) = Some regs' \<and> regs_ok regs' \<and>
    fst (pc_setregistry ''MISC_QUEST'' 5 3 test_vars) =
      (fst (special_reg ''MISC_QUEST'' 5 3 test_vars) = 0 \<or> ''MISC_QUEST'' \<in> gr_str ` set ([] :: global_reg list) \<or> length ([] :: global_reg list) < reg_max 3) \<and>
    (\<forall>n. fst (pc_readregistry n 3 (snd (pc_setregistry ''MISC_QUEST'' 5 3 test_vars))) =
       (if fst (pc_setregistry ''MISC_QUEST'' 5 3 test_vars) \<and> n = ''MISC_QUEST'' then fst (special_reg ''MISC_QUEST'' 5 3 test_vars)
        else fst (pc_readregistry n 3 test_vars)))"
  by (rule registry_map [where regs = "[]"]) (simp_all add: registry_def test_vars_def regs_ok_def s32_def)

text \<open>A name of 32 characters or more is lost: the assignment is reported as done and takes a place in the
  registry, and the variable still reads as 0.
\<close>

lemma registry_long_name_lost:
  assumes "registry type sd = Some regs" "\<forall>r \<in> set regs. length (gr_str r) < 32" "32 \<le> length name"
    and "fst (special_reg name v type sd) \<noteq> 0" "length regs < reg_max type"
  shows "fst (pc_setregistry name v type sd) \<and> fst (pc_readregistry name type (snd (pc_setregistry name v type sd))) = 0 \<and>
    (\<exists>regs'. registry type (snd (pc_setregistry name v type sd)) = Some regs' \<and> length regs' = Suc (length regs) \<and> (\<forall>r \<in> set regs'. length (gr_str r) < 32))"
  by (rule long_name_lost [OF assms])

lemma registry_long_name_lost_witness:
  "fst (pc_setregistry (replicate 32 CHR ''q'') 1 3 test_vars) \<and>
    fst (pc_readregistry (replicate 32 CHR ''q'') 3 (snd (pc_setregistry (replicate 32 CHR ''q'') 1 3 test_vars))) = 0 \<and>
    (\<exists>regs'. registry 3 (snd (pc_setregistry (replicate 32 CHR ''q'') 1 3 test_vars)) = Some regs' \<and>
      length regs' = Suc (length ([] :: global_reg list)) \<and> list_all (\<lambda>r. length (gr_str r) < 32) regs')"
proof -
  have "fst (special_reg (replicate 32 CHR ''q'') 1 3 test_vars) \<noteq> 0"
    by code_simp
  then show ?thesis
    using registry_long_name_lost [of 3 test_vars "[]" "replicate 32 CHR ''q''" 1]
    by (auto simp: registry_def test_vars_def reg_max_def GLOBAL_REG_NUM_def list_all_iff)
qed

end
