(* ===== verification/Spec2Isabelle.thy ===== *)
theory Spec2Isabelle imports PathProps TimerProps GoodsProps TradeProps QuestProps ShopProps DbProps ScriptProps begin

text \<open>
  A verification development for the core of rAthena, a game server in C: parts of the map server
  (\<^verbatim>\<open>src/map\<close>) and of the library that the servers share (\<^verbatim>\<open>src/common\<close>). The definitions are translated
  from the C code, one per function or loop; the theorems state what the code makes sure of.

  \<^bold>\<open>How the code is modelled.\<close> A struct is a record, an enum a datatype or the numbers of its values, an
  array a list. C integers are \<open>int\<close> with the conversions \<open>s8\<close> to \<open>u32\<close> of \<open>Rathena_Prelude\<close> written where
  the code stores them, or words where bits matter. Functions that change global state take and return
  it. Pointer structures are maps from addresses. Error answers are values as in the code. A loop that
  may run on is a \<open>partial_function (option)\<close>, whose \<open>None\<close> also stands for a process that stops (an
  invalid pointer, \<open>exit\<close>); theorems then state that the result is not \<open>None\<close>. Random numbers, callbacks, qsort,
  the item database and allocated addresses are arguments. Packets, messages, logs and SQL are left out.

  \<^bold>\<open>Parts and theories.\<close>
  \<^item> \<open>Rathena_Prelude\<close>: C integers, list and search lemmas, lemma collections.
  \<^item> Binary heap (\<^verbatim>\<open>db.h\<close>): \<open>Bheap\<close>. The locale \<open>topcmp\<close> states what a comparison must do; the A* search and
    the timers interpret it. The macros implement a priority queue of a multiset.
  \<^item> Database (\<^verbatim>\<open>db.c\<close>): \<open>DbTree\<close> (red-black trees with parent pointers in a heap), \<open>DbKey\<close> (keys), \<open>Db\<close> (locks,
    removed nodes, cache, get, put, remove, ensure), \<open>DbIter\<close> (iterators), \<open>DbEach\<close> (foreach, getall, clear,
    destroy). \<open>DbZip\<close>, \<open>DbInsert\<close>, \<open>DbErase\<close>, \<open>DbSplice\<close> relate the heap to trees and show that rebalancing
    keeps them red-black; \<open>DbInv\<close>, \<open>DbUnlock\<close>, \<open>DbOps\<close>, \<open>DbWrite\<close>, \<open>DbPut\<close>, \<open>DbRemove\<close>, \<open>DbClear\<close> hold the
    invariant and the refinement of a map; \<open>DbProps\<close> the properties.
  \<^item> Timers (\<^verbatim>\<open>timer.c\<close>): \<open>Timer\<close>; \<open>TimerCalm\<close>, \<open>TimerLoop\<close>, \<open>TimerApi\<close>, \<open>TimerRun\<close>; \<open>TimerProps\<close>. Timer functions
    are an argument. The table stays well formed whatever they do through the timer interface (\<open>TimerApi\<close>); the
    loop ends when they ask for later ticks only (\<open>TimerRun\<close>), by the time for which pending timers are late.
  \<^item> Map cells and path finding (\<^verbatim>\<open>map.c\<close>, \<^verbatim>\<open>path.c\<close>): \<open>MapCell\<close>, \<open>Path\<close>; \<open>PathWalk\<close>, \<open>PathSearch\<close>, \<open>PathHeap\<close>,
    \<open>PathClaims\<close>; \<open>PathProps\<close>. The A* search returns from every start but the cell (0,0), where the code may follow
    a cycle of parents for ever.
  \<^item> Items and what players own (\<^verbatim>\<open>itemdb.c\<close>, \<^verbatim>\<open>pc.c\<close>, \<^verbatim>\<open>storage.c\<close>): \<open>Item\<close>, \<open>Inventory\<close>, \<open>Cart\<close>, \<open>Storage\<close>. The
    locales of \<open>ItemMove\<close> state what a container promises when an item is added or deleted; inventory, cart,
    storage and guild storage interpret them (\<open>InventoryOps\<close>, \<open>StorageOps\<close>, \<open>GuildStorage\<close>), and moving an
    item between any two of them conserves it, unless it is a rental that has expired, which \<open>pc_additem\<close>
    deletes. \<open>GoodsProps\<close> and \<open>TradeProps\<close> hold the properties.
  \<^item> Trades (\<^verbatim>\<open>trade.c\<close>): \<open>Trade\<close>, \<open>TradeOps\<close>; \<open>TradeWorld\<close> is a step relation for any number of players who
    send trade packets in any order.
  \<^item> Shops (\<^verbatim>\<open>vending.c\<close>, \<^verbatim>\<open>buyingstore.c\<close>): \<open>Vending\<close>, \<open>Buyingstore\<close>, \<open>VendingOps\<close>, \<open>BuyOps\<close>; \<open>ShopProps\<close>. They call
    the inventory, cart and zeny operations.
  \<^item> Quest log (\<^verbatim>\<open>quest.c\<close>, the receiver in \<^verbatim>\<open>intif.c\<close>): \<open>Quest\<close>, \<open>QuestOps\<close>; \<open>QuestProps\<close>.
  \<^item> Script engine (\<^verbatim>\<open>script.c\<close>, \<^verbatim>\<open>strlib.c\<close>): \<open>StrLib\<close> (escapes), \<open>ScriptCode\<close> (byte code), \<open>ScriptSym\<close> (the table of
    words, references and labels), \<open>ScriptParse\<close> (the parser of expressions, calls and assignments; it is a
    function of the depth of its recursion, and \<open>ScriptFuel\<close> shows that the length of the text is deep
    enough), \<open>ScriptVm\<close> (values, variables, stack, operators), \<open>ScriptRun\<close> (calls, jumps, arrays and the loop of
    the interpreter), \<open>ScriptFuncs\<close> (functions on strings, the table of functions). \<open>ScriptEval\<close> defines the value
    of expressions and shows that their code computes it; \<open>ScriptShow\<close> gives the text of an expression, with the
    parentheses that the levels of the operators ask for, \<open>ScriptLinks\<close> resolves the references to any number of
    words, and \<open>ScriptReads\<close> shows that the parser turns the text into that code. There strings have no characters
    above 0x7e (behind one a backslash is not an escape), the names are words the table has already, and the text
    is not the argument of a function whose parentheses are still undecided. \<open>ScriptLoop\<close> shows that scripts
    end: its locale \<open>counted\<close> states what a function must leave alone. \<open>ScriptNum\<close> is about numbers, \<open>ScriptProps\<close> holds the properties.
  \<^item> Player variables (\<^verbatim>\<open>pc.c\<close>, \<^verbatim>\<open>intif.c\<close>): \<open>ScriptRegs\<close>, which the script engine reads and writes.
  \<^item> \<open>TestPlayer\<close>: the players and items of the examples that show the hypotheses of the theorems can hold.

  \<^bold>\<open>Not modelled.\<close> The statements of scripts (if, switch, loops) and the script functions that act on the rest
  of the server. The formulas of battle, status and skills, units and monsters, NPCs, parties and guilds,
  companions, the char and login servers: they rest on packets and SQL or on each other. Sockets, memory
  managers, threads, console and logs have effects outside the program.
\<close>

end
